(* ===== verification/Prelude.thy ===== *)
theory Prelude
  imports Main "HOL-Library.Word"
begin

text \<open>
  Shared ground of the development: the machine integers of \<open>types.h\<close>, the byte-addressed
  memory the kernel works on, little-endian 32-bit loads and stores, and the word lemmas the
  component proofs rest on.

  Pointers are \<open>32 word\<close>; address arithmetic wraps as the hardware's does. A region of
  \<open>n\<close> bytes at \<open>p\<close> is the set of \<open>x\<close> with \<open>unat (x - p) < n\<close>, which is also right
  when the region wraps around the end of the address space.
\<close>

unbundle bit_operations_syntax

named_theorems mem_simps \<open>loads after stores and block operations\<close>

type_synonym u8 = "8 word"
type_synonym u16 = "16 word"
type_synonym u32 = "32 word"
type_synonym mem = "u32 \<Rightarrow> u8"

section \<open>Macros of \<open>types.h\<close>\<close>

definition ALIGN_UP :: "u32 \<Rightarrow> u32 \<Rightarrow> u32" where
  "ALIGN_UP x align = (x + align - 1) AND NOT (align - 1)"

definition ALIGN_DOWN :: "u32 \<Rightarrow> u32 \<Rightarrow> u32" where
  "ALIGN_DOWN x align = x AND NOT (align - 1)"

definition DIV_ROUND_UP :: "u32 \<Rightarrow> u32 \<Rightarrow> u32" where
  "DIV_ROUND_UP n d = (n + d - 1) div d"

section \<open>Memory accesses\<close>

text \<open>A 32-bit load and store, little-endian, as the x86 does them at any address.\<close>

definition ld32 :: "mem \<Rightarrow> u32 \<Rightarrow> u32" where
  "ld32 m p = ucast (m p) OR push_bit 8 (ucast (m (p + 1)))
     OR push_bit 16 (ucast (m (p + 2))) OR push_bit 24 (ucast (m (p + 3)))"

definition st32 :: "mem \<Rightarrow> u32 \<Rightarrow> u32 \<Rightarrow> mem" where
  "st32 m p v = m(p := ucast v, p + 1 := ucast (drop_bit 8 v),
     p + 2 := ucast (drop_bit 16 v), p + 3 := ucast (drop_bit 24 v))"

text \<open>The memory after copying \<open>n\<close> bytes from \<open>s\<close> to \<open>d\<close>, all reads before all writes:
  what \<open>memcpy\<close> and \<open>memmove\<close> are meant to do.\<close>

definition copied :: "mem \<Rightarrow> u32 \<Rightarrow> u32 \<Rightarrow> nat \<Rightarrow> mem" where
  "copied m d s n = (\<lambda>x. if unat (x - d) < n then m (s + (x - d)) else m x)"

definition filled :: "mem \<Rightarrow> u32 \<Rightarrow> u8 \<Rightarrow> nat \<Rightarrow> mem" where
  "filled m d c n = (\<lambda>x. if unat (x - d) < n then c else m x)"

section \<open>Lists\<close>

lemma notin_image_neq: "y \<notin> f ` A \<Longrightarrow> b \<in> A \<Longrightarrow> f b \<noteq> y"
  by blast

lemma distinct_map_apart:
  "distinct (map f (xs @ ys)) \<Longrightarrow> x \<in> set xs \<Longrightarrow> y \<in> set ys \<Longrightarrow> f x \<noteq> f y"
  by (simp add: disjoint_iff) (metis image_eqI)

section \<open>Words\<close>

lemma unat_less_4G [simp]: "unat (x :: u32) < 4294967296"
  using unsigned_less [of x] by simp

lemma unat_less_256 [simp]: "unat (c :: u8) < 256"
  using unsigned_less [of c] by simp

lemma unat_less_64K: "unat (e :: u16) < 65536"
  using unsigned_less [of e] by simp

lemma unat_less4_cases: "unat (y :: u32) < 4 \<longleftrightarrow> y = 0 \<or> y = 1 \<or> y = 2 \<or> y = 3"
  by (auto simp: word_unat_eq_iff)

lemma unat_add_of_nat:
  assumes "unat (y :: u32) + a < 2 ^ 32"
  shows "unat (y + of_nat a) = unat y + a"
  using assms by (simp add: unat_word_ariths unat_of_nat)

lemma unat_plus_1_less: "(p :: u32) < t \<Longrightarrow> unat (p + 1) = unat p + 1"
proof -
  assume "p < t"
  then have "unat p < unat t" by (simp add: word_less_nat_alt)
  then have "unat p + 1 < 4294967296" using unat_less_4G [of t] by linarith
  then show "unat (p + 1) = unat p + 1" using unat_add_of_nat [of p 1] by simp
qed

lemma word_countdown: "(p :: u32) < t \<Longrightarrow> unat (t - (p + 1)) < unat (t - p)"
  using unat_plus_1_less [of p t] by (auto simp: unat_sub_if_size word_less_nat_alt)

lemma unat_times_div: "k * (unat (x :: u32) div n) < 4294967296" if "k \<le> n" for k n :: nat
proof -
  have "k * (unat x div n) \<le> n * (unat x div n)" using that by simp
  also have "\<dots> \<le> unat x" by (metis mult.commute div_times_less_eq_dividend)
  finally show ?thesis using unat_less_4G [of x] by linarith
qed

lemma below_unat_4G: "r < unat (t :: u32) \<Longrightarrow> r < 4294967296"
  by (rule less_trans [OF _ unat_less_4G])

lemma unat_of_nat_u32: "n < 4294967296 \<Longrightarrow> unat (of_nat n :: u32) = n"
  by (simp add: unat_of_nat)

lemma unat_in_region:
  assumes "unat (x - a :: u32) < n" and "unat a + n \<le> 2 ^ 32"
  shows "unat a \<le> unat x \<and> unat x < unat a + n"
proof -
  have "unat (a + of_nat (unat (x - a))) = unat a + unat (x - a)"
    using assms by (intro unat_add_of_nat) linarith
  then show ?thesis using assms(1) by simp
qed

lemma word_region_shift:
  fixes y :: u32
  assumes "a + b < 2 ^ 32"
  shows "unat (y - of_nat a) < b \<longleftrightarrow> a \<le> unat y \<and> unat y < a + b"
proof -
  have a: "unat (of_nat a :: u32) = a" using assms by (simp add: unat_of_nat)
  show ?thesis
  proof (cases "unat y < a")
    case True
    then have "unat (y - of_nat a) = unat y + 2 ^ 32 - a"
      using a by (simp add: unat_sub_if_size word_size)
    with True assms show ?thesis by simp
  next
    case False
    then have "unat (y - of_nat a) = unat y - a"
      using a by (simp add: unat_sub_if_size)
    with False show ?thesis by auto
  qed
qed

lemma bit_u8_beyond: "8 \<le> n \<Longrightarrow> bit (w :: u8) n \<longleftrightarrow> False"
  using bit_imp_le_length [of w n] by auto

lemma st32_copied: "st32 m d (ld32 m s) = copied m d s 4"
proof
  fix x
  obtain y where x: "x = d + y" by (metis add_diff_cancel_left' diff_add_cancel add.commute)
  show "st32 m d (ld32 m s) x = copied m d s 4 x"
    unfolding x st32_def ld32_def copied_def
    by (auto simp: unat_less4_cases bit_simps bit_u8_beyond intro!: bit_word_eqI)
qed

lemma copied_0 [simp]: "copied m d s 0 = m"
  by (simp add: copied_def)

lemma copied_compose:
  assumes "a + b < 2 ^ 32" and "d = s \<or> a + b \<le> unat (d - s)"
  shows "copied (copied m d s a) (d + of_nat a) (s + of_nat a) b = copied m d s (a + b)"
proof
  fix x
  show "copied (copied m d s a) (d + of_nat a) (s + of_nat a) b x = copied m d s (a + b) x"
  proof (cases "unat (x - d) < a + b")
    case True
    define y e where "y = x - d" and "e = d - s"
    have far: "\<not> unat (y - e) < a" if "\<not> unat y < a"
    proof (cases "e = 0")
      case False
      with assms(2) have "a + b \<le> unat e" by (auto simp: e_def)
      with True have "unat y < unat e" by (simp add: y_def)
      then have "unat (y - e) = unat y + 2 ^ 32 - unat e"
        by (simp add: unat_sub_if_size word_size word_le_nat_alt)
      moreover have "unat e < 2 ^ 32" by simp
      ultimately show ?thesis using that by linarith
    qed (use that in simp)
    have "s + (x - d) - d = y - e" by (simp add: y_def e_def)
    then show ?thesis using far True word_region_shift [OF assms(1), of y]
      by (auto simp: copied_def y_def diff_diff_eq add.commute)
  next
    case False
    then show ?thesis using word_region_shift [OF assms(1), of "x - d"]
      by (simp add: copied_def diff_diff_eq)
  qed
qed

lemma copied_outside [mem_simps]: "\<not> unat (x - d) < n \<Longrightarrow> copied m d s n x = m x"
  by (simp add: copied_def)

lemma copied_inside: "i < n \<Longrightarrow> n < 2 ^ 32 \<Longrightarrow> copied m d s n (d + of_nat i) = m (s + of_nat i)"
  by (simp add: copied_def unat_of_nat)

section \<open>Loads and stores of aligned words\<close>

lemma ld32_st32_same [simp]: "ld32 (st32 m p v) p = v"
proof (rule bit_word_eqI)
  fix n
  assume "n < LENGTH(32)"
  then have "n < 8 \<or> 8 \<le> n \<and> n < 16 \<or> 16 \<le> n \<and> n < 24 \<or> 24 \<le> n \<and> n < 32" by auto
  then show "bit (ld32 (st32 m p v) p) n = bit v n"
    by (elim disjE) (auto simp: ld32_def st32_def bit_simps)
qed

lemma ld32_cong:
  "(\<And>x. unat (x - p) < 4 \<Longrightarrow> m x = m' x) \<Longrightarrow> ld32 m p = ld32 m' p"
  by (simp add: ld32_def)

lemma st32_outside: "\<not> unat (x - p) < 4 \<Longrightarrow> st32 m p v x = m x"
  by (auto simp: st32_def unat_less4_cases)

definition aligned4 :: "u32 \<Rightarrow> bool" where
  "aligned4 p \<longleftrightarrow> 4 dvd unat p"

lemma aligned4_regions:
  assumes "aligned4 p" and "aligned4 q" and "unat (x - p) < 4" and "unat (x - q) < 4"
  shows "p = q"
proof -
  have p: "unat p mod 4 = 0" and q: "unat q mod 4 = 0"
    using assms by (auto simp: aligned4_def)
  have *: "unat x div 4 = unat r div 4" if "unat (x - r) < 4" and "unat r mod 4 = 0" for r
  proof -
    define j where "j = unat (x - r)"
    have j: "j < 4" "x = r + of_nat j" using that(1) by (simp_all add: j_def)
    have "unat r < 4294967296" by simp
    then have "unat r + j < 4294967296" using that(2) j(1) by presburger
    with j have "unat x = unat r + j" by (simp add: unat_add_of_nat)
    with that(2) j(1) show ?thesis by presburger
  qed
  have "unat p = unat q"
    using * [OF assms(3) p] * [OF assms(4) q] p q by (metis div_mult_mod_eq)
  then show ?thesis by (simp add: word_unat_eq_iff)
qed

lemma ld32_st32 [mem_simps]:
  assumes "aligned4 p" and "aligned4 q"
  shows "ld32 (st32 m p v) q = (if p = q then v else ld32 m q)"
proof (cases "p = q")
  case False
  then have "ld32 (st32 m p v) q = ld32 m q"
    using assms by (intro ld32_cong st32_outside) (blast dest: aligned4_regions)
  with False show ?thesis by simp
qed simp

section \<open>Alignment\<close>

lemma and_not_mask_eq: "(x :: u32) AND NOT (mask n) = push_bit n (drop_bit n x)"
  by (rule bit_word_eqI) (auto simp: bit_simps)

lemma unat_and_not_mask: "unat ((x :: u32) AND NOT (mask n)) = unat x div 2 ^ n * 2 ^ n"
proof -
  have "unat (push_bit n (drop_bit n x)) = (unat x div 2 ^ n * 2 ^ n) mod 2 ^ 32"
    unfolding unsigned_push_bit_eq unsigned_drop_bit_eq
    by (simp add: drop_bit_eq_div push_bit_eq_mult take_bit_eq_mod)
  moreover have "unat x div 2 ^ n * 2 ^ n < 2 ^ 32"
    by (rule le_less_trans [OF div_times_less_eq_dividend]) simp
  ultimately show ?thesis by (simp add: and_not_mask_eq)
qed

lemma unat_ALIGN_UP:
  assumes "unat x + 2 ^ n \<le> 2 ^ 32" and "n < 32"
  shows "unat (ALIGN_UP x (2 ^ n)) = (unat x + 2 ^ n - 1) div 2 ^ n * 2 ^ n"
proof -
  have m: "(2 :: u32) ^ n - 1 = mask n" by (simp add: mask_eq_exp_minus_1)
  have "unat (x + mask n) = unat x + (2 ^ n - 1)"
    using assms(1) unat_add_of_nat [of x "2 ^ n - 1"] m by simp
  then show ?thesis
    unfolding ALIGN_UP_def add_diff_eq [symmetric] m unat_and_not_mask by simp
qed

text \<open>An aligned-up value is the least multiple of the alignment that is not below it.\<close>

lemma ALIGN_UP_props:
  assumes "unat x + 2 ^ n \<le> 2 ^ 32" and "n < 32"
  shows "2 ^ n dvd unat (ALIGN_UP x (2 ^ n))"
    and "unat x \<le> unat (ALIGN_UP x (2 ^ n))"
    and "unat (ALIGN_UP x (2 ^ n)) < unat x + 2 ^ n"
proof -
  let ?y = "unat x + 2 ^ n - 1"
  have y: "unat (ALIGN_UP x (2 ^ n)) = ?y - ?y mod 2 ^ n"
    using unat_ALIGN_UP [OF assms] by (simp add: minus_mod_eq_div_mult)
  have "?y mod 2 ^ n < 2 ^ n" by simp
  then show "unat x \<le> unat (ALIGN_UP x (2 ^ n))" and "unat (ALIGN_UP x (2 ^ n)) < unat x + 2 ^ n"
    unfolding y using one_le_power [of "2 :: nat" n] by linarith+
  show "2 ^ n dvd unat (ALIGN_UP x (2 ^ n))" by (simp add: unat_ALIGN_UP [OF assms])
qed

lemma unat_power2:
  assumes "k < 32"
  shows "unat ((2 :: u32) ^ k) = 2 ^ k"
proof -
  have "(2 :: nat) ^ k < 2 ^ 32" using assms by (intro power_strict_increasing) auto
  moreover have "(2 :: u32) ^ k = of_nat (2 ^ k)" by simp
  ultimately show ?thesis by (simp only: unat_of_nat) simp
qed

end
