(* ===== verification/Memory.thy ===== *)
theory Memory
  imports Prelude
begin

text \<open>
  The C library of the kernel, \<open>src/lib/string.c\<close>, on the byte memory, and \<open>memcpy\<close>, which
  the kernel implements in assembly (\<open>src/arch/x86/cpu.s\<close>). A function that returns its
  destination argument returns here only the new memory. Loops bounded by a count recurse on
  it; loops that run to a terminating zero byte are \<^theory_text>\<open>partial_function (option)\<close>, where
  \<open>None\<close> is a loop that never meets one.
\<close>

section \<open>Block operations\<close>

fun memset_loop :: "nat \<Rightarrow> mem \<Rightarrow> u32 \<Rightarrow> u8 \<Rightarrow> mem" where
  "memset_loop 0 m p c = m"
| "memset_loop (Suc n) m p c = memset_loop n (m(p := c)) (p + 1) c"

definition memset :: "mem \<Rightarrow> u32 \<Rightarrow> u32 \<Rightarrow> u32 \<Rightarrow> mem" where
  "memset m s c n = memset_loop (unat n) m s (ucast c)"

text \<open>\<open>rep movsl\<close> and \<open>rep movsb\<close>: memory, destination and source index registers.\<close>

fun rep_movsl :: "nat \<Rightarrow> mem \<times> u32 \<times> u32 \<Rightarrow> mem \<times> u32 \<times> u32" where
  "rep_movsl 0 (m, edi, esi) = (m, edi, esi)"
| "rep_movsl (Suc ecx) (m, edi, esi) =
     rep_movsl ecx (st32 m edi (ld32 m esi), edi + 4, esi + 4)"

fun rep_movsb :: "nat \<Rightarrow> mem \<times> u32 \<times> u32 \<Rightarrow> mem \<times> u32 \<times> u32" where
  "rep_movsb 0 (m, edi, esi) = (m, edi, esi)"
| "rep_movsb (Suc ecx) (m, edi, esi) = rep_movsb ecx (m(edi := m esi), edi + 1, esi + 1)"

definition memcpy :: "mem \<Rightarrow> u32 \<Rightarrow> u32 \<Rightarrow> u32 \<Rightarrow> mem" where
  "memcpy m dest src n =
     (if n = 0 then m
      else fst (rep_movsb (unat (n AND 3))
             (rep_movsl (unat (drop_bit 2 n)) (m, dest, src))))"

fun copy_down :: "nat \<Rightarrow> mem \<Rightarrow> u32 \<Rightarrow> u32 \<Rightarrow> mem" where
  "copy_down 0 m d s = m"
| "copy_down (Suc n) m d s = copy_down n (m(d - 1 := m (s - 1))) (d - 1) (s - 1)"

definition memmove :: "mem \<Rightarrow> u32 \<Rightarrow> u32 \<Rightarrow> u32 \<Rightarrow> mem" where
  "memmove m dest src n =
     (if dest < src then memcpy m dest src n
      else copy_down (unat n) m (dest + n) (src + n))"

fun memcmp_loop :: "nat \<Rightarrow> mem \<Rightarrow> u32 \<Rightarrow> u32 \<Rightarrow> int" where
  "memcmp_loop 0 m p1 p2 = 0"
| "memcmp_loop (Suc n) m p1 p2 =
     (if m p1 \<noteq> m p2 then uint (m p1) - uint (m p2)
      else memcmp_loop n m (p1 + 1) (p2 + 1))"

definition memcmp :: "mem \<Rightarrow> u32 \<Rightarrow> u32 \<Rightarrow> u32 \<Rightarrow> int" where
  "memcmp m s1 s2 n = memcmp_loop (unat n) m s1 s2"

section \<open>Strings\<close>

partial_function (option) strlen_loop :: "mem \<Rightarrow> u32 \<Rightarrow> u32 \<Rightarrow> u32 option" where
  "strlen_loop m s len = (if m s \<noteq> 0 then strlen_loop m (s + 1) (len + 1) else Some len)"

definition strlen :: "mem \<Rightarrow> u32 \<Rightarrow> u32 option" where
  "strlen m s = strlen_loop m s 0"

partial_function (option) strcpy :: "mem \<Rightarrow> u32 \<Rightarrow> u32 \<Rightarrow> mem option" where
  "strcpy m d src =
     (let m' = m(d := m src)
      in if m src \<noteq> 0 then strcpy m' (d + 1) (src + 1) else Some m')"

fun strncpy_pad :: "nat \<Rightarrow> mem \<Rightarrow> u32 \<Rightarrow> mem" where
  "strncpy_pad 0 m d = m"
| "strncpy_pad (Suc n) m d = strncpy_pad n (m(d := 0)) (d + 1)"

fun strncpy_loop :: "nat \<Rightarrow> mem \<Rightarrow> u32 \<Rightarrow> u32 \<Rightarrow> mem" where
  "strncpy_loop 0 m d src = m"
| "strncpy_loop (Suc n) m d src =
     (if m src \<noteq> 0 then strncpy_loop n (m(d := m src)) (d + 1) (src + 1)
      else strncpy_pad (Suc n) m d)"

definition strncpy :: "mem \<Rightarrow> u32 \<Rightarrow> u32 \<Rightarrow> u32 \<Rightarrow> mem" where
  "strncpy m dest src n = strncpy_loop (unat n) m dest src"

partial_function (option) strcmp :: "mem \<Rightarrow> u32 \<Rightarrow> u32 \<Rightarrow> int option" where
  "strcmp m s1 s2 =
     (if m s1 \<noteq> 0 \<and> m s1 = m s2 then strcmp m (s1 + 1) (s2 + 1)
      else Some (uint (m s1) - uint (m s2)))"

fun strncmp_loop :: "nat \<Rightarrow> mem \<Rightarrow> u32 \<Rightarrow> u32 \<Rightarrow> int" where
  "strncmp_loop 0 m s1 s2 = 0"
| "strncmp_loop (Suc n) m s1 s2 =
     (if m s1 \<noteq> 0 \<and> m s1 = m s2 then strncmp_loop n m (s1 + 1) (s2 + 1)
      else uint (m s1) - uint (m s2))"

definition strncmp :: "mem \<Rightarrow> u32 \<Rightarrow> u32 \<Rightarrow> u32 \<Rightarrow> int" where
  "strncmp m s1 s2 n = strncmp_loop (unat n) m s1 s2"

partial_function (option) strchr :: "mem \<Rightarrow> u32 \<Rightarrow> u32 \<Rightarrow> u32 option" where
  "strchr m s c =
     (if m s \<noteq> 0 then (if m s = ucast c then Some s else strchr m (s + 1) c)
      else Some (if c = 0 then s else 0))"

partial_function (option) strrchr_loop :: "mem \<Rightarrow> u32 \<Rightarrow> u32 \<Rightarrow> u32 \<Rightarrow> u32 option" where
  "strrchr_loop m s c lst =
     (if m s \<noteq> 0 then strrchr_loop m (s + 1) c (if m s = ucast c then s else lst)
      else Some (if c = 0 then s else lst))"

definition strrchr :: "mem \<Rightarrow> u32 \<Rightarrow> u32 \<Rightarrow> u32 option" where
  "strrchr m s c = strrchr_loop m s c 0"

definition strcat :: "mem \<Rightarrow> u32 \<Rightarrow> u32 \<Rightarrow> mem option" where
  "strcat m dest src = Option.bind (strlen m dest) (\<lambda>n. strcpy m (dest + n) src)"

fun strncat_loop :: "nat \<Rightarrow> mem \<Rightarrow> u32 \<Rightarrow> u32 \<Rightarrow> mem" where
  "strncat_loop 0 m d src = m(d := 0)"
| "strncat_loop (Suc n) m d src =
     (if m src \<noteq> 0 then strncat_loop n (m(d := m src)) (d + 1) (src + 1) else m(d := 0))"

definition strncat :: "mem \<Rightarrow> u32 \<Rightarrow> u32 \<Rightarrow> u32 \<Rightarrow> mem option" where
  "strncat m dest src n =
     Option.bind (strlen m dest) (\<lambda>k. Some (strncat_loop (unat n) m (dest + k) src))"

section \<open>What the block operations compute\<close>

lemma memset_loop_filled: "n < 2 ^ 32 \<Longrightarrow> memset_loop n m p c = filled m p c n"
proof (induction n arbitrary: m p)
  case 0
  then show ?case by (simp add: filled_def)
next
  case (Suc n)
  then have "unat (x - (p + 1)) < n \<longleftrightarrow> x \<noteq> p \<and> unat (x - p) < Suc n" for x
    using word_region_shift [of 1 n "x - p"] by (auto simp: diff_diff_eq Suc_le_eq unat_gt_0)
  then show ?case using Suc by (auto simp: filled_def fun_eq_iff)
qed

lemma rep_movsb_spec:
  assumes "n < 2 ^ 32" and "d = s \<or> n \<le> unat (d - s)"
  shows "rep_movsb n (m, d, s) = (copied m d s n, d + of_nat n, s + of_nat n)"
  using assms
proof (induction n arbitrary: m d s)
  case 0
  then show ?case by simp
next
  case (Suc n)
  have one: "m(d := m s) = copied m d s 1"
    by (auto simp: copied_def fun_eq_iff)
      (metis eq_iff_diff_eq_0 unat_eq_zero less_one)
  have "copied (copied m d s 1) (d + of_nat 1) (s + of_nat 1) n = copied m d s (1 + n)"
    using Suc.prems by (intro copied_compose) auto
  moreover have "rep_movsb n (copied m d s 1, d + 1, s + 1) =
      (copied (copied m d s 1) (d + 1) (s + 1) n, d + 1 + of_nat n, s + 1 + of_nat n)"
    using Suc.prems by (intro Suc.IH) auto
  ultimately show ?case by (simp add: one add.assoc)
qed

lemma rep_movsl_spec:
  assumes "4 * n < 2 ^ 32" and "d = s \<or> 4 * n \<le> unat (d - s)"
  shows "rep_movsl n (m, d, s) = (copied m d s (4 * n), d + of_nat (4 * n), s + of_nat (4 * n))"
  using assms
proof (induction n arbitrary: m d s)
  case 0
  then show ?case by simp
next
  case (Suc n)
  have "copied (copied m d s 4) (d + of_nat 4) (s + of_nat 4) (4 * n) = copied m d s (4 + 4 * n)"
    using Suc.prems by (intro copied_compose) auto
  moreover have "rep_movsl n (copied m d s 4, d + 4, s + 4) =
      (copied (copied m d s 4) (d + 4) (s + 4) (4 * n), d + 4 + of_nat (4 * n), s + 4 + of_nat (4 * n))"
    using Suc.prems by (intro Suc.IH) auto
  ultimately show ?case by (simp add: st32_copied add.assoc)
qed

lemma unat_split4: "unat (n :: u32) = 4 * unat (drop_bit 2 n) + unat (n AND 3)"
proof -
  have "n AND 3 = n mod 4" using word_mod_2p_is_mask [of 2 n] by (simp add: mask_eq_exp_minus_1)
  then show ?thesis by (simp add: drop_bit_eq_div unat_mod unat_div)
qed

lemma memcpy_copied:
  assumes "d = s \<or> n \<le> d - s"
  shows "memcpy m d s n = copied m d s (unat n)"
proof -
  let ?q = "unat (drop_bit 2 n)" and ?r = "unat (n AND 3)"
  have sum: "unat n = 4 * ?q + ?r" by (rule unat_split4)
  have lt: "4 * ?q + ?r < 2 ^ 32" unfolding sum [symmetric] by simp
  have fwd: "d = s \<or> 4 * ?q + ?r \<le> unat (d - s)"
    using assms unfolding sum [symmetric] by (simp add: word_le_nat_alt)
  have l: "rep_movsl ?q (m, d, s) = (copied m d s (4 * ?q), d + of_nat (4 * ?q), s + of_nat (4 * ?q))"
    using lt fwd by (intro rep_movsl_spec) auto
  have b: "rep_movsb ?r (m', d + of_nat (4 * ?q), s + of_nat (4 * ?q)) =
      (copied m' (d + of_nat (4 * ?q)) (s + of_nat (4 * ?q)) ?r,
       d + of_nat (4 * ?q) + of_nat ?r, s + of_nat (4 * ?q) + of_nat ?r)" for m'
    using lt fwd by (intro rep_movsb_spec) auto
  have "copied (copied m d s (4 * ?q)) (d + of_nat (4 * ?q)) (s + of_nat (4 * ?q)) ?r =
      copied m d s (unat n)"
    unfolding sum by (rule copied_compose [OF lt fwd])
  then show ?thesis by (simp add: memcpy_def l b del: of_nat_mult)
qed

lemma copy_down_copied:
  assumes "n < 2 ^ 32" and "d = s \<or> n \<le> unat (s - d)"
  shows "copy_down n m (d + of_nat n) (s + of_nat n) = copied m d s n"
  using assms
proof (induction n arbitrary: m)
  case 0
  then show ?case by simp
next
  case (Suc n)
  let ?m = "m(d + of_nat n := m (s + of_nat n))"
  have IH: "copy_down n ?m (d + of_nat n) (s + of_nat n) = copied ?m d s n"
    using Suc.prems by (intro Suc.IH) auto
  have last: "x = d + of_nat n \<longleftrightarrow> unat (x - d) = n" for x
    using Suc.prems(1) by (auto simp: unat_of_nat)
  have apart: "s + y \<noteq> d + of_nat n" if "unat y < n" for y
  proof
    assume "s + y = d + of_nat n"
    then have "s - d = of_nat n - y" by (simp add: algebra_simps)
    then have "unat (s - d) = n - unat y"
      using that Suc.prems(1)
      by (simp add: unat_sub_if_size unat_of_nat)
    with that Suc.prems(2) show False by auto
  qed
  have "copied ?m d s n x = copied m d s (Suc n) x" for x
  proof -
    consider "unat (x - d) < n" | "unat (x - d) = n" | "n < unat (x - d)" by linarith
    then show ?thesis
    proof cases
      case 1
      then show ?thesis using apart [of "x - d"] by (simp add: copied_def)
    next
      case 2
      then have "x = d + of_nat n" by (simp add: last)
      with 2 show ?thesis by (simp add: copied_def)
    next
      case 3
      then have "x \<noteq> d + of_nat n" by (simp add: last)
      with 3 show ?thesis by (simp add: copied_def)
    qed
  qed
  then have "copied ?m d s n = copied m d s (Suc n)" ..
  with IH show ?case by (simp add: algebra_simps)
qed

lemma no_wrap_ge:
  fixes a b n :: u32
  assumes "unat a < unat b" and "unat b + unat n \<le> 2 ^ 32"
  shows "unat n \<le> unat (a - b)"
  using assms by (simp add: unat_sub_if_size word_size)

text \<open>\<open>memmove\<close> is right whatever the overlap: for regions that do not run past the end
  of the address space, the memory afterwards holds at the destination what the source held
  before, and is unchanged elsewhere. The downward direction relies on the dword copy of the
  assembly \<open>memcpy\<close>, the upward one on the byte loop.\<close>

theorem memmove_copied:
  assumes "unat dest + unat n \<le> 2 ^ 32" and "unat src + unat n \<le> 2 ^ 32"
  shows "memmove m dest src n = copied m dest src (unat n)"
proof (cases "dest < src")
  case True
  then have "n \<le> dest - src"
    using assms no_wrap_ge [of dest src n] by (simp add: word_le_nat_alt word_less_nat_alt)
  with True show ?thesis by (simp add: memmove_def memcpy_copied)
next
  case False
  have "dest = src \<or> unat n \<le> unat (src - dest)"
    using False assms no_wrap_ge [of src dest n]
    by (cases "dest = src") (auto simp: word_less_nat_alt word_unat_eq_iff)
  from copy_down_copied [OF _ this] False show ?thesis by (simp add: memmove_def)
qed

section \<open>What the string operations compute\<close>

text \<open>\<open>cstr m p s\<close>: the zero-terminated string at \<open>p\<close> is \<open>s\<close>.\<close>

fun cstr :: "mem \<Rightarrow> u32 \<Rightarrow> u8 list \<Rightarrow> bool" where
  "cstr m p [] \<longleftrightarrow> m p = 0"
| "cstr m p (c # s) \<longleftrightarrow> c \<noteq> 0 \<and> m p = c \<and> cstr m (p + 1) s"

lemma strlen_loop_cstr: "cstr m p s \<Longrightarrow> strlen_loop m p n = Some (n + of_nat (length s))"
  by (induction m p s arbitrary: n rule: cstr.induct) (simp_all add: strlen_loop.simps)

lemma strlen_cstr: "cstr m p s \<Longrightarrow> strlen m p = Some (of_nat (length s))"
  by (simp add: strlen_def strlen_loop_cstr)

lemma memcmp_loop_0: "memcmp_loop n m p q = 0 \<longleftrightarrow> (\<forall>i < n. m (p + of_nat i) = m (q + of_nat i))"
proof (induction n arbitrary: p q)
  case (Suc n)
  have "(\<forall>i < Suc n. m (p + of_nat i) = m (q + of_nat i)) \<longleftrightarrow>
      m p = m q \<and> (\<forall>i < n. m (p + 1 + of_nat i) = m (q + 1 + of_nat i))"
    by (auto simp: less_Suc_eq_0_disj add.assoc)
  with Suc show ?case by (auto simp: word_uint_eq_iff)
qed simp

text \<open>The order the comparison functions compute: the difference of the first bytes that differ,
  a string that ends first being followed by a zero.\<close>

fun cmp_str :: "u8 list \<Rightarrow> u8 list \<Rightarrow> int" where
  "cmp_str [] [] = 0"
| "cmp_str [] (y # ys) = - uint y"
| "cmp_str (x # xs) [] = uint x"
| "cmp_str (x # xs) (y # ys) = (if x = y then cmp_str xs ys else uint x - uint y)"

lemma strcmp_cmp_str: "cstr m p s \<Longrightarrow> cstr m q t \<Longrightarrow> strcmp m p q = Some (cmp_str s t)"
  by (induction s t arbitrary: p q rule: cmp_str.induct) (auto simp: strcmp.simps)

lemma strncmp_cmp_str:
  "cstr m p s \<Longrightarrow> cstr m q t \<Longrightarrow> strncmp_loop n m p q = cmp_str (take n s) (take n t)"
proof (induction n arbitrary: p q s t)
  case (Suc n)
  then show ?case by (cases s; cases t) auto
qed simp

lemma cmp_str_0: "0 \<notin> set s \<Longrightarrow> 0 \<notin> set t \<Longrightarrow> cmp_str s t = 0 \<longleftrightarrow> s = t"
  by (induction s t rule: cmp_str.induct) (auto simp: word_uint_eq_iff)

lemma cstr_no_zero: "cstr m p s \<Longrightarrow> 0 \<notin> set s"
  by (induction m p s rule: cstr.induct) auto

text \<open>The memory with the bytes \<open>bs\<close> written from \<open>d\<close> on.\<close>

definition written :: "mem \<Rightarrow> u32 \<Rightarrow> u8 list \<Rightarrow> mem" where
  "written m d bs = (\<lambda>x. if unat (x - d) < length bs then bs ! unat (x - d) else m x)"

lemma written_Nil [simp]: "written m d [] = m"
  by (simp add: written_def)

lemma written_Cons:
  assumes "length bs < 2 ^ 32 - 1"
  shows "written m d (b # bs) = written (m(d := b)) (d + 1) bs"
proof
  fix x
  have shift: "unat (x - (d + 1)) < length bs \<longleftrightarrow> x \<noteq> d \<and> unat (x - d) < Suc (length bs)"
    using assms word_region_shift [of 1 "length bs" "x - d"]
    by (auto simp: diff_diff_eq Suc_le_eq unat_gt_0)
  have "unat (x - d) = Suc (unat (x - (d + 1)))" if "unat (x - (d + 1)) < length bs"
    using that assms unat_add_of_nat [of "x - (d + 1)" 1] by simp
  with shift show "written m d (b # bs) x = written (m(d := b)) (d + 1) bs x"
    by (auto simp: written_def)
qed

lemma written_outside [mem_simps]: "\<not> unat (x - d) < length bs \<Longrightarrow> written m d bs x = m x"
  by (simp add: written_def)

lemma cstr_cong:
  "cstr m p s \<Longrightarrow> length s < 2 ^ 32 \<Longrightarrow> (\<And>x. unat (x - p) \<le> length s \<Longrightarrow> m' x = m x) \<Longrightarrow> cstr m' p s"
proof (induction m p s rule: cstr.induct)
  case (2 m p c s)
  have "m' x = m x" if "unat (x - (p + 1)) \<le> length s" for x
  proof -
    have "unat (x - p) = Suc (unat (x - (p + 1)))"
      using that "2.prems"(2) unat_add_of_nat [of "x - (p + 1)" 1] by simp
    with that show ?thesis using "2.prems"(3) by simp
  qed
  with 2 show ?case by auto
qed simp

text \<open>A forward copy loop reads each byte of \<open>s\<close> at \<open>src\<close> before it writes it.\<close>

definition copyable :: "u32 \<Rightarrow> u32 \<Rightarrow> u8 list \<Rightarrow> bool" where
  "copyable d src s \<longleftrightarrow> length s + 1 < 2 ^ 32 \<and> length s + 1 \<le> unat (d - src)"

lemma copyable_Cons: "copyable d src (c # s) \<Longrightarrow> copyable (d + 1) (src + 1) s"
  by (simp add: copyable_def)

lemma cstr_copyable_step:
  assumes "copyable d src (c # s)" and "cstr m src (c # s)"
  shows "cstr (m(d := b)) (src + 1) s"
proof (rule cstr_cong)
  show "cstr m (src + 1) s" using assms(2) by simp
  show "length s < 2 ^ 32" using assms(1) by (simp add: copyable_def)
  fix x
  assume "unat (x - (src + 1)) \<le> length s"
  then have "unat (x - src) \<le> Suc (length s)"
    using assms(1) unat_add_of_nat [of "x - (src + 1)" 1] by (simp add: copyable_def)
  then have "x \<noteq> d" using assms(1) by (auto simp: copyable_def)
  then show "(m(d := b)) x = m x" by simp
qed

lemma strcpy_written:
  "cstr m src s \<Longrightarrow> copyable d src s \<Longrightarrow> strcpy m d src = Some (written m d (s @ [0]))"
proof (induction s arbitrary: m d src)
  case Nil
  then show ?case by (simp add: strcpy.simps written_Cons fun_upd_def)
next
  case (Cons c s)
  have "strcpy m d src = strcpy (m(d := c)) (d + 1) (src + 1)"
    using Cons.prems by (simp add: strcpy.simps [of m d src])
  also have "\<dots> = Some (written (m(d := c)) (d + 1) (s @ [0]))"
    using Cons.prems by (intro Cons.IH cstr_copyable_step copyable_Cons)
  also have "written (m(d := c)) (d + 1) (s @ [0]) = written m d ((c # s) @ [0])"
    using Cons.prems(2) by (simp add: written_Cons copyable_def)
  finally show ?case .
qed

lemma cstr_written: "0 \<notin> set s \<Longrightarrow> length s + 1 < 2 ^ 32 \<Longrightarrow> cstr (written m d (s @ [0])) d s"
proof (induction s arbitrary: m d)
  case Nil
  then show ?case by (simp add: written_def)
next
  case (Cons c s)
  then have "cstr (written (m(d := c)) (d + 1) (s @ [0])) (d + 1) s" by simp
  moreover have "written m d ((c # s) @ [0]) d = c" by (simp add: written_def)
  ultimately show ?case using Cons.prems by (simp add: written_Cons)
qed

lemma strncpy_pad_written: "n < 2 ^ 32 \<Longrightarrow> strncpy_pad n m d = written m d (replicate n 0)"
  by (induction n arbitrary: m d) (simp_all add: written_Cons)

lemma strncpy_written:
  "cstr m src s \<Longrightarrow> copyable d src s \<Longrightarrow> n < 2 ^ 32 \<Longrightarrow>
    strncpy_loop n m d src = written m d (take n s @ replicate (n - length s) 0)"
proof (induction n arbitrary: m d src s)
  case (Suc n)
  show ?case
  proof (cases s)
    case Nil
    then show ?thesis using Suc.prems strncpy_pad_written [of "Suc n" m d] by simp
  next
    case (Cons c s')
    have "strncpy_loop (Suc n) m d src = strncpy_loop n (m(d := c)) (d + 1) (src + 1)"
      using Suc.prems Cons by simp
    also have "\<dots> = written (m(d := c)) (d + 1) (take n s' @ replicate (n - length s') 0)"
      using Suc.prems unfolding Cons
      by (intro Suc.IH cstr_copyable_step copyable_Cons) auto
    finally show ?thesis using Suc.prems by (simp add: Cons written_Cons)
  qed
qed simp

lemma written_onto_cstr:
  "cstr m d s \<Longrightarrow> length s + length bs < 2 ^ 32 \<Longrightarrow>
    written m (d + of_nat (length s)) bs = written m d (s @ bs)"
proof (induction m d s rule: cstr.induct)
  case (2 m d c s)
  then have "m(d := c) = m" by auto
  with 2 show ?case by (simp add: written_Cons add.assoc [symmetric])
qed simp

lemma strncat_written:
  "cstr m src t \<Longrightarrow> copyable d src t \<Longrightarrow>
    strncat_loop n m d src = written m d (take n t @ [0])"
proof (induction n arbitrary: m d src t)
  case 0
  then show ?case by (simp add: written_Cons fun_upd_def)
next
  case (Suc n)
  show ?case
  proof (cases t)
    case Nil
    then show ?thesis using Suc.prems by (simp add: written_Cons fun_upd_def)
  next
    case (Cons c t')
    have "strncat_loop (Suc n) m d src = strncat_loop n (m(d := c)) (d + 1) (src + 1)"
      using Suc.prems Cons by simp
    also have "\<dots> = written (m(d := c)) (d + 1) (take n t' @ [0])"
      using Suc.prems unfolding Cons by (intro Suc.IH cstr_copyable_step copyable_Cons)
    also have "\<dots> = written m d (c # (take n t' @ [0]))"
      using Suc.prems by (intro written_Cons [symmetric]) (auto simp: Cons copyable_def)
    finally show ?thesis by (simp add: Cons)
  qed
qed

text \<open>On strings in memory, \<open>strcmp\<close> returns, and it returns zero exactly when the strings
  are equal; otherwise the sign is that of the first bytes that differ.\<close>

theorem strcmp_decides:
  assumes "cstr m p s" and "cstr m q t"
  shows "strcmp m p q = Some (cmp_str s t) \<and> (cmp_str s t = 0 \<longleftrightarrow> s = t)"
  using assms strcmp_cmp_str cmp_str_0 cstr_no_zero by blast

text \<open>\<open>strcat\<close> and \<open>strncat\<close> append: where the source does not lie in the part the loop is
  about to write, the destination holds the concatenation afterwards (of at most \<open>n\<close> bytes of
  the source for \<open>strncat\<close>), terminated, and no byte outside it changes.\<close>

theorem strcat_strncat_append:
  assumes "cstr m dest s" and "cstr m src t"
    and "copyable (dest + of_nat (length s)) src t" and "length s + length t + 1 < 2 ^ 32"
  shows "strcat m dest src = Some (written m dest (s @ t @ [0]))
    \<and> strncat m dest src n = Some (written m dest (s @ take (unat n) t @ [0]))
    \<and> cstr (written m dest (s @ t @ [0])) dest (s @ t)"
proof (intro conjI)
  show "strcat m dest src = Some (written m dest (s @ t @ [0]))"
    using assms by (simp add: strcat_def strlen_cstr strcpy_written written_onto_cstr)
  have "length s + length (take (unat n) t @ [0]) < 2 ^ 32" using assms(4) by simp
  then show "strncat m dest src n = Some (written m dest (s @ take (unat n) t @ [0]))"
    using assms by (simp add: strncat_def strlen_cstr strncat_written written_onto_cstr)
  have "0 \<notin> set (s @ t)" using assms(1,2) cstr_no_zero by auto
  then show "cstr (written m dest (s @ t @ [0])) dest (s @ t)"
    using cstr_written [of "s @ t" m dest] assms(4) by simp
qed

theorem strcat_strncat_append_witness:
  "strcat ((\<lambda>_. 0)(16 := 1, 32 := 2)) 16 32 = Some (written ((\<lambda>_. 0)(16 := 1, 32 := 2)) 16 [1, 2, 0])"
  using strcat_strncat_append [of "(\<lambda>_. 0)(16 := 1, 32 := 2)" 16 "[1]" 32 "[2]"]
  by (simp add: copyable_def)

theorem memmove_copied_witness:
  "memmove (\<lambda>x. ucast x) 16 18 5 20 = 22"
  using memmove_copied [of 16 5 18 "\<lambda>x. ucast x"] by (simp add: copied_def)

theorem strcmp_decides_witness:
  "\<exists>r. strcmp ((\<lambda>_. 0)(16 := 1, 32 := 2)) 16 32 = Some r \<and> r \<noteq> 0"
  using strcmp_decides [of "(\<lambda>_. 0)(16 := 1, 32 := 2)" 16 "[1]" 32 "[2]"] by simp

end
