(* ===== verification/Heap.thy ===== *)
theory Heap
  imports Memory
begin

text \<open>
  The kernel heap, \<open>src/kernel/heap.c\<close>, on the byte memory: a doubly linked list of blocks,
  each a 20-byte header followed by its data. The static variables are the record
  \<open>heap_state\<close>; a header field is a 32-bit word at a fixed offset from the block's address.
  Interrupt masking (\<open>irq_save\<close>/\<open>irq_restore\<close>) makes each call atomic and is not modelled;
  the messages printed on corruption are not either. A loop over the list that never meets a
  null pointer is \<open>None\<close>.
\<close>

section \<open>State and header fields\<close>

definition HEAP_MAGIC :: u32 where
  "HEAP_MAGIC = 0xCAFEBABE"

record heap_state =
  hmem :: mem
  heap_start :: u32
  heap_total_size :: u32
  block_head :: u32

definition blk_magic :: "mem \<Rightarrow> u32 \<Rightarrow> u32" where "blk_magic m b = ld32 m b"
definition blk_size :: "mem \<Rightarrow> u32 \<Rightarrow> u32" where "blk_size m b = ld32 m (b + 4)"
definition blk_free :: "mem \<Rightarrow> u32 \<Rightarrow> bool" where "blk_free m b \<longleftrightarrow> ld32 m (b + 8) \<noteq> 0"
definition blk_next :: "mem \<Rightarrow> u32 \<Rightarrow> u32" where "blk_next m b = ld32 m (b + 12)"
definition blk_prev :: "mem \<Rightarrow> u32 \<Rightarrow> u32" where "blk_prev m b = ld32 m (b + 16)"

definition set_magic :: "mem \<Rightarrow> u32 \<Rightarrow> u32 \<Rightarrow> mem" where "set_magic m b v = st32 m b v"
definition set_size :: "mem \<Rightarrow> u32 \<Rightarrow> u32 \<Rightarrow> mem" where "set_size m b v = st32 m (b + 4) v"
definition set_free :: "mem \<Rightarrow> u32 \<Rightarrow> bool \<Rightarrow> mem" where
  "set_free m b f = st32 m (b + 8) (if f then 1 else 0)"
definition set_next :: "mem \<Rightarrow> u32 \<Rightarrow> u32 \<Rightarrow> mem" where "set_next m b v = st32 m (b + 12) v"
definition set_prev :: "mem \<Rightarrow> u32 \<Rightarrow> u32 \<Rightarrow> mem" where "set_prev m b v = st32 m (b + 16) v"

section \<open>Operations\<close>

definition heap_init :: "heap_state \<Rightarrow> u32 \<Rightarrow> u32 \<Rightarrow> heap_state" where
  "heap_init h start_addr sz =
     (let st = ALIGN_UP start_addr 16;
          m1 = set_magic (hmem h) st HEAP_MAGIC;
          m2 = set_size m1 st (sz - 20);
          m3 = set_free m2 st True;
          m4 = set_next m3 st 0;
          m5 = set_prev m4 st 0
      in \<lparr>hmem = m5, heap_start = st, heap_total_size = sz, block_head = st\<rparr>)"

definition split_block :: "mem \<Rightarrow> u32 \<Rightarrow> u32 \<Rightarrow> mem" where
  "split_block m cur sz =
     (let nb = cur + 20 + sz;
          m1 = set_magic m nb HEAP_MAGIC;
          m2 = set_size m1 nb (blk_size m1 cur - sz - 20);
          m3 = set_free m2 nb True;
          m4 = set_next m3 nb (blk_next m3 cur);
          m5 = set_prev m4 nb cur;
          m6 = (if blk_next m5 cur \<noteq> 0 then set_prev m5 (blk_next m5 cur) nb else m5);
          m7 = set_next m6 cur nb
      in set_size m7 cur sz)"

definition take_block :: "mem \<Rightarrow> u32 \<Rightarrow> u32 \<Rightarrow> mem" where
  "take_block m cur sz =
     set_free (if blk_size m cur \<ge> sz + 20 + 16 then split_block m cur sz else m) cur False"

partial_function (option) kmalloc_loop :: "mem \<Rightarrow> u32 \<Rightarrow> u32 \<Rightarrow> (mem \<times> u32) option" where
  "kmalloc_loop m sz cur =
     (if cur = 0 then Some (m, 0)
      else if blk_magic m cur \<noteq> HEAP_MAGIC then Some (m, 0)
      else if blk_free m cur \<and> blk_size m cur \<ge> sz
           then Some (take_block m cur sz, cur + 20)
      else kmalloc_loop m sz (blk_next m cur))"

definition kmalloc :: "heap_state \<Rightarrow> u32 \<Rightarrow> (heap_state \<times> u32) option" where
  "kmalloc h sz =
     (if sz = 0 then Some (h, 0)
      else map_option (\<lambda>(m, p). (h\<lparr>hmem := m\<rparr>, p))
             (kmalloc_loop (hmem h) (ALIGN_UP sz 8) (block_head h)))"

definition kcalloc :: "heap_state \<Rightarrow> u32 \<Rightarrow> u32 \<Rightarrow> (heap_state \<times> u32) option" where
  "kcalloc h num sz =
     (let total = num * sz
      in map_option (\<lambda>(h', ptr). (if ptr \<noteq> 0 then h'\<lparr>hmem := memset (hmem h') ptr 0 total\<rparr> else h', ptr))
           (kmalloc h total))"

definition kmalloc_aligned :: "heap_state \<Rightarrow> u32 \<Rightarrow> u32 \<Rightarrow> (heap_state \<times> u32) option" where
  "kmalloc_aligned h sz alignment =
     (if alignment \<le> 8 then kmalloc h sz
      else map_option (\<lambda>(h', raw).
             if raw = 0 then (h', 0)
             else let aligned_addr = ALIGN_UP (raw + 4) alignment
                  in (h'\<lparr>hmem := st32 (hmem h') (aligned_addr - 4) raw\<rparr>, aligned_addr))
           (kmalloc h (sz + alignment + 4)))"

definition kfree_block :: "mem \<Rightarrow> u32 \<Rightarrow> u32 option" where
  "kfree_block m ptr =
     (if blk_magic m (ptr - 20) \<noteq> HEAP_MAGIC
      then (let raw = ld32 m (ptr - 4)
            in if blk_magic m (raw - 20) \<noteq> HEAP_MAGIC then None else Some (raw - 20))
      else Some (ptr - 20))"

definition coalesce_next :: "mem \<Rightarrow> u32 \<Rightarrow> mem" where
  "coalesce_next m b =
     (if blk_next m b \<noteq> 0 \<and> blk_free m (blk_next m b)
      then (let m1 = set_size m b (blk_size m b + (20 + blk_size m (blk_next m b)));
                m2 = set_next m1 b (blk_next m1 (blk_next m1 b))
            in if blk_next m2 b \<noteq> 0 then set_prev m2 (blk_next m2 b) b else m2)
      else m)"

definition coalesce_prev :: "mem \<Rightarrow> u32 \<Rightarrow> mem" where
  "coalesce_prev m b =
     (if blk_prev m b \<noteq> 0 \<and> blk_free m (blk_prev m b)
      then (let m1 = set_size m (blk_prev m b) (blk_size m (blk_prev m b) + (20 + blk_size m b));
                m2 = set_next m1 (blk_prev m1 b) (blk_next m1 b)
            in if blk_next m2 b \<noteq> 0 then set_prev m2 (blk_next m2 b) (blk_prev m2 b) else m2)
      else m)"

definition kfree :: "heap_state \<Rightarrow> u32 \<Rightarrow> heap_state" where
  "kfree h ptr =
     (if ptr = 0 then h
      else case kfree_block (hmem h) ptr of
        None \<Rightarrow> h
      | Some b \<Rightarrow> h\<lparr>hmem := coalesce_prev (coalesce_next (set_free (hmem h) b True) b) b\<rparr>)"

definition krealloc :: "heap_state \<Rightarrow> u32 \<Rightarrow> u32 \<Rightarrow> (heap_state \<times> u32) option" where
  "krealloc h ptr new_size =
     (if ptr = 0 then kmalloc h new_size
      else if new_size = 0 then Some (kfree h ptr, 0)
      else if blk_magic (hmem h) (ptr - 20) \<noteq> HEAP_MAGIC then Some (h, 0)
      else if blk_size (hmem h) (ptr - 20) \<ge> new_size then Some (h, ptr)
      else (let old_size = blk_size (hmem h) (ptr - 20)
            in map_option (\<lambda>(h', new_ptr).
                 if new_ptr \<noteq> 0
                 then (kfree (h'\<lparr>hmem := memcpy (hmem h') new_ptr ptr old_size\<rparr>) ptr, new_ptr)
                 else (h', 0))
               (kmalloc h new_size)))"

partial_function (option) heap_stats_loop :: "mem \<Rightarrow> u32 \<Rightarrow> u32 \<Rightarrow> u32 \<Rightarrow> (u32 \<times> u32) option" where
  "heap_stats_loop m u f cur =
     (if cur = 0 then Some (u, f)
      else if blk_magic m cur = HEAP_MAGIC
           then (if blk_free m cur then heap_stats_loop m u (f + blk_size m cur) (blk_next m cur)
                 else heap_stats_loop m (u + blk_size m cur) f (blk_next m cur))
           else heap_stats_loop m u f (blk_next m cur))"

text \<open>Total, used and free bytes, as written through the three result pointers.\<close>

definition heap_stats :: "heap_state \<Rightarrow> (u32 \<times> u32 \<times> u32) option" where
  "heap_stats h = map_option (\<lambda>(u, f). (heap_total_size h, u, f))
     (heap_stats_loop (hmem h) 0 0 (block_head h))"

text \<open>\<open>strdup\<close> of \<open>src/lib/string.c\<close>, which allocates.\<close>

definition strdup :: "heap_state \<Rightarrow> u32 \<Rightarrow> (heap_state \<times> u32) option" where
  "strdup h s =
     Option.bind (strlen (hmem h) s) (\<lambda>n.
       map_option (\<lambda>(h', dup). (if dup \<noteq> 0 then h'\<lparr>hmem := memcpy (hmem h') dup s (n + 1)\<rparr> else h', dup))
         (kmalloc h (n + 1)))"

end
