(* ===== verification/Heap_Blocks.thy ===== *)
theory Heap_Blocks
  imports Heap
begin

text \<open>
  The heap of \<open>src/kernel/heap.c\<close> as a list of blocks. The linked headers in memory are
  related to a list of blocks that tile the heap area; on that list allocation is first fit
  with splitting, release is coalescing with both neighbours, and neither touches the data of
  another block.
\<close>

section \<open>Header fields of separate blocks\<close>

definition hsep :: "u32 \<Rightarrow> u32 \<Rightarrow> bool" where
  "hsep a b \<longleftrightarrow> aligned4 a \<and> aligned4 b \<and> unat a + 20 \<le> 2 ^ 32 \<and> unat b + 20 \<le> 2 ^ 32 \<and>
     (a = b \<or> unat a + 20 \<le> unat b \<or> unat b + 20 \<le> unat a)"

definition hdr_offs :: "u32 set" where
  "hdr_offs = {0, 4, 8, 12, 16}"

lemma unat_hdr_field: "i \<in> hdr_offs \<Longrightarrow> unat a + 20 \<le> 2 ^ 32 \<Longrightarrow> unat (a + i) = unat a + unat i"
  by (auto simp: hdr_offs_def unat_word_ariths)

lemma aligned4_hdr_field: "aligned4 a \<Longrightarrow> i \<in> hdr_offs \<Longrightarrow> unat a + 20 \<le> 2 ^ 32 \<Longrightarrow> aligned4 (a + i)"
  unfolding aligned4_def by (subst unat_hdr_field) (auto simp: hdr_offs_def intro: dvd_add)

lemma ld32_st32_field:
  assumes "hsep a b" and "i \<in> hdr_offs" and "j \<in> hdr_offs"
  shows "ld32 (st32 m (a + i) v) (b + j) = (if a = b \<and> i = j then v else ld32 m (b + j))"
proof -
  have "a + i = b + j \<longleftrightarrow> a = b \<and> i = j"
  proof
    assume "a + i = b + j"
    then have "unat a + unat i = unat b + unat j"
      using assms by (metis hsep_def unat_hdr_field)
    with assms show "a = b \<and> i = j"
      by (auto simp: hsep_def hdr_offs_def)
  qed simp
  moreover have "aligned4 (a + i)" "aligned4 (b + j)"
    using assms by (auto simp: hsep_def intro: aligned4_hdr_field)
  ultimately show ?thesis by (simp add: ld32_st32)
qed

lemmas hdr_defs = blk_magic_def blk_size_def blk_free_def blk_next_def blk_prev_def
  set_magic_def set_size_def set_free_def set_next_def set_prev_def

lemma get_set_hdr:
  assumes "hsep a b"
  shows "blk_magic (set_magic m a v) b = (if a = b then v else blk_magic m b)"
    and "blk_magic (set_size m a v) b = blk_magic m b"
    and "blk_magic (set_free m a f) b = blk_magic m b"
    and "blk_magic (set_next m a v) b = blk_magic m b"
    and "blk_magic (set_prev m a v) b = blk_magic m b"
    and "blk_size (set_magic m a v) b = blk_size m b"
    and "blk_size (set_size m a v) b = (if a = b then v else blk_size m b)"
    and "blk_size (set_free m a f) b = blk_size m b"
    and "blk_size (set_next m a v) b = blk_size m b"
    and "blk_size (set_prev m a v) b = blk_size m b"
    and "blk_free (set_magic m a v) b = blk_free m b"
    and "blk_free (set_size m a v) b = blk_free m b"
    and "blk_free (set_free m a f) b = (if a = b then f else blk_free m b)"
    and "blk_free (set_next m a v) b = blk_free m b"
    and "blk_free (set_prev m a v) b = blk_free m b"
    and "blk_next (set_magic m a v) b = blk_next m b"
    and "blk_next (set_size m a v) b = blk_next m b"
    and "blk_next (set_free m a f) b = blk_next m b"
    and "blk_next (set_next m a v) b = (if a = b then v else blk_next m b)"
    and "blk_next (set_prev m a v) b = blk_next m b"
    and "blk_prev (set_magic m a v) b = blk_prev m b"
    and "blk_prev (set_size m a v) b = blk_prev m b"
    and "blk_prev (set_free m a f) b = blk_prev m b"
    and "blk_prev (set_next m a v) b = blk_prev m b"
    and "blk_prev (set_prev m a v) b = (if a = b then v else blk_prev m b)"
  using assms ld32_st32_field [OF assms, of 0] ld32_st32_field [OF assms, of _ 0]
    ld32_st32_field [OF assms, of 0 0]
  by (simp_all add: hdr_defs ld32_st32_field hdr_offs_def)

section \<open>The list of blocks\<close>

record blk =
  baddr :: u32
  bsize :: u32
  bfree :: bool

fun first_addr :: "blk list \<Rightarrow> u32 \<Rightarrow> u32" where
  "first_addr [] nx = nx"
| "first_addr (b # bs) nx = baddr b"

definition last_addr :: "u32 \<Rightarrow> blk list \<Rightarrow> u32" where
  "last_addr pv bs = (if bs = [] then pv else baddr (last bs))"

definition hdr_ok :: "mem \<Rightarrow> blk \<Rightarrow> u32 \<Rightarrow> u32 \<Rightarrow> bool" where
  "hdr_ok m b pv nx \<longleftrightarrow> blk_magic m (baddr b) = HEAP_MAGIC \<and> blk_size m (baddr b) = bsize b \<and>
     blk_free m (baddr b) = bfree b \<and> blk_prev m (baddr b) = pv \<and> blk_next m (baddr b) = nx"

text \<open>\<open>lseg m pv bs nx\<close>: the memory holds the blocks \<open>bs\<close> linked both ways, with \<open>pv\<close> before
  the first and \<open>nx\<close> after the last.\<close>

fun lseg :: "mem \<Rightarrow> u32 \<Rightarrow> blk list \<Rightarrow> u32 \<Rightarrow> bool" where
  "lseg m pv [] nx \<longleftrightarrow> True"
| "lseg m pv (b # bs) nx \<longleftrightarrow> hdr_ok m b pv (first_addr bs nx) \<and> lseg m (baddr b) bs nx"

text \<open>The blocks tile the addresses from \<open>lo\<close> to \<open>hi\<close>, each with its header before its data.\<close>

fun tiles :: "nat \<Rightarrow> blk list \<Rightarrow> nat \<Rightarrow> bool" where
  "tiles lo [] hi \<longleftrightarrow> lo = hi"
| "tiles lo (b # bs) hi \<longleftrightarrow>
     unat (baddr b) = lo \<and> 4 dvd lo \<and> tiles (lo + 20 + unat (bsize b)) bs hi"

definition heap_inv :: "heap_state \<Rightarrow> blk list \<Rightarrow> nat \<Rightarrow> bool" where
  "heap_inv h bs hi \<longleftrightarrow> bs \<noteq> [] \<and> block_head h = baddr (hd bs) \<and> block_head h = heap_start h \<and>
     lseg (hmem h) 0 bs 0 \<and> tiles (unat (heap_start h)) bs hi \<and>
     32 \<le> unat (heap_start h) \<and> hi \<le> 2 ^ 32"

lemma lseg_append:
  "lseg m pv (xs @ ys) nx \<longleftrightarrow> lseg m pv xs (first_addr ys nx) \<and> lseg m (last_addr pv xs) ys nx"
proof (induction xs arbitrary: pv)
  case (Cons b xs)
  then show ?case by (cases xs) (auto simp: last_addr_def)
qed (simp add: last_addr_def)

lemma tiles_append: "tiles lo (xs @ ys) hi \<longleftrightarrow> (\<exists>mid. tiles lo xs mid \<and> tiles mid ys hi)"
  by (induction xs arbitrary: lo) auto

lemma tiles_le: "tiles lo bs hi \<Longrightarrow> lo \<le> hi"
  by (induction bs arbitrary: lo) fastforce+

lemma tiles_bounds:
  "tiles lo bs hi \<Longrightarrow> b \<in> set bs \<Longrightarrow>
    lo \<le> unat (baddr b) \<and> unat (baddr b) + 20 + unat (bsize b) \<le> hi \<and> 4 dvd unat (baddr b)"
proof (induction bs arbitrary: lo)
  case (Cons c bs)
  show ?case
  proof (cases "b = c")
    case True
    with Cons.prems tiles_le [of "lo + 20 + unat (bsize c)" bs hi] show ?thesis by simp
  next
    case False
    with Cons.prems Cons.IH [of "lo + 20 + unat (bsize c)"] show ?thesis by simp
  qed
qed simp

text \<open>Two blocks of a tiling are the same or lie apart, data included.\<close>

lemma tiles_apart:
  "tiles lo bs hi \<Longrightarrow> b \<in> set bs \<Longrightarrow> c \<in> set bs \<Longrightarrow>
    b = c \<or> unat (baddr b) + 20 + unat (bsize b) \<le> unat (baddr c)
          \<or> unat (baddr c) + 20 + unat (bsize c) \<le> unat (baddr b)"
proof (induction bs arbitrary: lo)
  case (Cons d bs)
  let ?lo = "lo + 20 + unat (bsize d)"
  have rest: "tiles ?lo bs hi" and d: "unat (baddr d) = lo" using Cons.prems(1) by auto
  have above: "?lo \<le> unat (baddr e)" if "e \<in> set bs" for e
    using tiles_bounds [OF rest that] by simp
  show ?case using Cons.prems(2,3) Cons.IH [OF rest] above d by auto
qed simp

lemma tiles_hsep:
  assumes "tiles lo bs hi" and "hi \<le> 2 ^ 32" and "b \<in> set bs" and "c \<in> set bs"
  shows "hsep (baddr b) (baddr c)"
proof -
  have "b = c \<or> unat (baddr b) + 20 \<le> unat (baddr c) \<or> unat (baddr c) + 20 \<le> unat (baddr b)"
    using tiles_apart [OF assms(1,3,4)] by linarith
  moreover have "unat (baddr b) + 20 \<le> 2 ^ 32" and "unat (baddr c) + 20 \<le> 2 ^ 32"
    using tiles_bounds [OF assms(1,3)] tiles_bounds [OF assms(1,4)] assms(2) by linarith+
  ultimately show ?thesis
    using tiles_bounds [OF assms(1,3)] tiles_bounds [OF assms(1,4)]
    by (auto simp: hsep_def aligned4_def)
qed

lemma tiles_distinct: "tiles lo bs hi \<Longrightarrow> distinct (map baddr bs)"
proof (induction bs arbitrary: lo)
  case (Cons d bs)
  have rest: "tiles (lo + 20 + unat (bsize d)) bs hi" and d: "unat (baddr d) = lo"
    using Cons.prems by auto
  have "baddr d \<notin> baddr ` set bs" using tiles_bounds [OF rest] d by fastforce
  then show ?case using Cons.IH [OF rest] by simp
qed simp

definition same_hdr :: "mem \<Rightarrow> mem \<Rightarrow> u32 \<Rightarrow> bool" where
  "same_hdr m m' a \<longleftrightarrow> blk_magic m' a = blk_magic m a \<and> blk_size m' a = blk_size m a \<and>
     blk_free m' a = blk_free m a \<and> blk_prev m' a = blk_prev m a \<and> blk_next m' a = blk_next m a"

lemma lseg_frame:
  "lseg m pv bs nx \<Longrightarrow> (\<And>b. b \<in> set bs \<Longrightarrow> same_hdr m m' (baddr b)) \<Longrightarrow> lseg m' pv bs nx"
  by (induction bs arbitrary: pv) (auto simp: hdr_ok_def same_hdr_def)

lemma lseg_mid:
  "lseg m pv (xs @ b # ys) nx \<longleftrightarrow> lseg m pv xs (baddr b) \<and>
     hdr_ok m b (last_addr pv xs) (first_addr ys nx) \<and> lseg m (baddr b) ys nx"
  by (simp add: lseg_append)

section \<open>Data outside the headers is left alone\<close>

definition hdr_bytes :: "u32 \<Rightarrow> u32 set" where
  "hdr_bytes a = {x. unat (x - a) < 20}"

definition data_bytes :: "blk \<Rightarrow> u32 set" where
  "data_bytes b = {x. unat (x - (baddr b + 20)) < unat (bsize b)}"

text \<open>The memory changed at most in the headers of \<open>bs\<close>.\<close>

definition hdr_frame :: "mem \<Rightarrow> mem \<Rightarrow> blk list \<Rightarrow> bool" where
  "hdr_frame m m' bs \<longleftrightarrow> (\<forall>x. (\<forall>c \<in> set bs. x \<notin> hdr_bytes (baddr c)) \<longrightarrow> m' x = m x)"

lemma st32_outside_hdr:
  assumes "x \<notin> hdr_bytes a" and "i + 4 \<le> 20"
  shows "st32 m (a + of_nat i) v x = m x"
proof (rule st32_outside)
  have "i + 4 < 2 ^ 32" using assms(2) by simp
  from word_region_shift [OF this, of "x - a"]
  show "\<not> unat (x - (a + of_nat i)) < 4"
    using assms by (simp add: hdr_bytes_def diff_diff_eq)
qed

lemma set_hdr_outside:
  assumes "x \<notin> hdr_bytes a"
  shows "set_magic m a v x = m x" "set_size m a v x = m x" "set_free m a f x = m x"
    "set_next m a v x = m x" "set_prev m a v x = m x"
  using st32_outside_hdr [OF assms, of 0] st32_outside_hdr [OF assms, of 4]
    st32_outside_hdr [OF assms, of 8] st32_outside_hdr [OF assms, of 12] st32_outside_hdr [OF assms, of 16]
  by (simp_all add: hdr_defs)

text \<open>An address in the data of a block of a tiling lies in no header of the tiling.\<close>

lemma data_not_hdr:
  assumes T: "tiles lo bs hi" and hi: "hi \<le> 2 ^ 32" and bc: "b \<in> set bs" "c \<in> set bs"
    and x: "x \<in> data_bytes b"
  shows "x \<notin> hdr_bytes (baddr c)"
proof
  assume h: "x \<in> hdr_bytes (baddr c)"
  have b: "unat (baddr b) + 20 + unat (bsize b) \<le> 2 ^ 32" and c: "unat (baddr c) + 20 \<le> 2 ^ 32"
    using tiles_bounds [OF T bc(1)] tiles_bounds [OF T bc(2)] hi by linarith+
  have "bsize b \<noteq> 0" using x by (auto simp: data_bytes_def)
  then have "0 < unat (bsize b)" by (simp add: unat_gt_0)
  then have "unat (baddr b + 20) = unat (baddr b) + 20"
    using unat_add_of_nat [of "baddr b" 20] b by simp
  then have "unat (baddr b) + 20 \<le> unat x \<and> unat x < unat (baddr b) + 20 + unat (bsize b)"
    using unat_in_region [of x "baddr b + 20" "unat (bsize b)"] x b by (simp add: data_bytes_def)
  moreover have "unat (baddr c) \<le> unat x \<and> unat x < unat (baddr c) + 20"
    using unat_in_region [of x "baddr c" 20] h c by (simp add: hdr_bytes_def)
  ultimately show False using tiles_apart [OF T bc] by auto
qed

lemma hdr_frame_data:
  assumes "hdr_frame m m' bs" and "tiles lo bs hi" and "hi \<le> 2 ^ 32" and "c \<in> set bs"
    and "x \<in> data_bytes c"
  shows "m' x = m x"
  using assms data_not_hdr [OF assms(2-4) _ assms(5)] by (auto simp: hdr_frame_def)

section \<open>Steps on the linked blocks\<close>

text \<open>One step of an operation on the linked blocks: the blocks after it, and the bytes it may change.\<close>

definition heap_step :: "mem \<Rightarrow> mem \<Rightarrow> nat \<Rightarrow> blk list \<Rightarrow> blk list \<Rightarrow> nat \<Rightarrow> bool" where
  "heap_step m m' lo bs bs' hi \<longleftrightarrow> lseg m' 0 bs' 0 \<and> tiles lo bs' hi \<and> hdr_frame m m' bs \<and>
     bs' \<noteq> [] \<and> baddr (hd bs') = baddr (hd bs) \<and> baddr ` set bs' \<subseteq> baddr ` set bs"

lemma set_free_step:
  assumes L: "lseg m 0 (xs @ b # ys) 0" and T: "tiles lo (xs @ b # ys) hi"
    and hi: "hi \<le> 2 ^ 32"
  shows "heap_step m (set_free m (baddr b) f) lo (xs @ b # ys) (xs @ b\<lparr>bfree := f\<rparr> # ys) hi"
proof -
  let ?m = "set_free m (baddr b) f"
  have sep: "hsep (baddr b) (baddr x)" if "x \<in> set (xs @ b # ys)" for x
    using tiles_hsep [OF T hi _ that] by simp
  have dist: "distinct (map baddr (xs @ b # ys))" by (rule tiles_distinct [OF T])
  have others: "same_hdr m ?m (baddr x)" if "x \<in> set (xs @ ys)" for x
  proof -
    have "baddr b \<noteq> baddr x" using dist that by (auto dest: notin_image_neq)
    then show ?thesis using sep [of x] that by (simp add: same_hdr_def get_set_hdr)
  qed
  have "hdr_ok ?m (b\<lparr>bfree := f\<rparr>) (last_addr 0 xs) (first_addr ys 0)"
    using L sep [of b] by (simp add: lseg_mid hdr_ok_def get_set_hdr)
  moreover have "lseg ?m 0 xs (baddr b)" and "lseg ?m (baddr b) ys 0"
    using L others by (auto simp: lseg_mid intro: lseg_frame [of m])
  moreover have "tiles lo (xs @ b\<lparr>bfree := f\<rparr> # ys) hi" using T by (simp add: tiles_append)
  moreover from calculation have "lseg ?m 0 (xs @ b\<lparr>bfree := f\<rparr> # ys) 0" by (simp add: lseg_mid)
  ultimately show ?thesis
    by (cases xs) (simp_all add: heap_step_def hdr_frame_def set_hdr_outside)
qed

section \<open>Allocation is first fit on the list\<close>

text \<open>What allocation does to the block it takes, and to the list.\<close>

definition carve :: "blk \<Rightarrow> u32 \<Rightarrow> blk list" where
  "carve b sz =
     (if unat sz + 36 \<le> unat (bsize b)
      then [b\<lparr>bsize := sz, bfree := False\<rparr>,
            \<lparr>baddr = baddr b + 20 + sz, bsize = bsize b - sz - 20, bfree = True\<rparr>]
      else [b\<lparr>bfree := False\<rparr>])"

fun first_fit :: "u32 \<Rightarrow> blk list \<Rightarrow> (blk list \<times> u32) option" where
  "first_fit sz [] = None"
| "first_fit sz (b # bs) =
     (if bfree b \<and> sz \<le> bsize b then Some (carve b sz @ bs, baddr b + 20)
      else map_option (\<lambda>(bs', p). (b # bs', p)) (first_fit sz bs))"

text \<open>The fields after a split, at any block apart from the three it touches or one of them.\<close>

lemma split_block_fields:
  assumes c: "hsep a c" "hsep (a + 20 + sz) c" "hsep a (a + 20 + sz)" "a \<noteq> a + 20 + sz" "hsep a a"
    and n: "blk_next m a \<noteq> 0 \<longrightarrow> hsep (blk_next m a) c \<and> hsep (blk_next m a) a \<and>
      hsep (blk_next m a) (a + 20 + sz) \<and> hsep (a + 20 + sz) (blk_next m a)"
  shows "blk_magic (split_block m a sz) c = (if c = a + 20 + sz then HEAP_MAGIC else blk_magic m c)"
    and "blk_size (split_block m a sz) c =
       (if c = a then sz else if c = a + 20 + sz then blk_size m a - sz - 20 else blk_size m c)"
    and "blk_free (split_block m a sz) c = (if c = a + 20 + sz then True else blk_free m c)"
    and "blk_next (split_block m a sz) c =
       (if c = a then a + 20 + sz else if c = a + 20 + sz then blk_next m a else blk_next m c)"
    and "blk_prev (split_block m a sz) c =
       (if c = blk_next m a \<and> c \<noteq> 0 then a + 20 + sz else if c = a + 20 + sz then a else blk_prev m c)"
proof -
  have sym: "hsep (a + 20 + sz) a" using c(3) by (auto simp: hsep_def)
  note * = c n sym
  show "blk_magic (split_block m a sz) c = (if c = a + 20 + sz then HEAP_MAGIC else blk_magic m c)"
    using * by (cases "blk_next m a = 0") (simp_all add: split_block_def Let_def get_set_hdr)
  show "blk_size (split_block m a sz) c =
       (if c = a then sz else if c = a + 20 + sz then blk_size m a - sz - 20 else blk_size m c)"
    using * by (cases "blk_next m a = 0") (simp_all add: split_block_def Let_def get_set_hdr)
  show "blk_free (split_block m a sz) c = (if c = a + 20 + sz then True else blk_free m c)"
    using * by (cases "blk_next m a = 0") (simp_all add: split_block_def Let_def get_set_hdr)
  show "blk_next (split_block m a sz) c =
       (if c = a then a + 20 + sz else if c = a + 20 + sz then blk_next m a else blk_next m c)"
    using * by (cases "blk_next m a = 0") (simp_all add: split_block_def Let_def get_set_hdr)
  show "blk_prev (split_block m a sz) c =
       (if c = blk_next m a \<and> c \<noteq> 0 then a + 20 + sz else if c = a + 20 + sz then a else blk_prev m c)"
    using * by (cases "blk_next m a = 0") (simp_all add: split_block_def Let_def get_set_hdr)
qed

lemma tiles_carve:
  assumes "tiles lo (b # ys) hi" and "hi \<le> 2 ^ 32" and "sz \<le> bsize b" and "4 dvd unat sz"
  shows "tiles lo (carve b sz @ ys) hi"
proof (cases "unat sz + 36 \<le> unat (bsize b)")
  case True
  have b: "unat (baddr b) = lo" "4 dvd lo" and end_le: "lo + 20 + unat (bsize b) \<le> 2 ^ 32"
    using assms(1,2) tiles_le [of "lo + 20 + unat (bsize b)" ys hi] by auto
  have a: "unat (baddr b + 20 + sz) = lo + 20 + unat sz"
    using b True end_le by (simp add: unat_word_ariths)
  have s1: "unat (bsize b - sz) = unat (bsize b) - unat sz"
    using True by (simp add: unat_sub_if_size)
  then have "unat (bsize b - sz - 20) = unat (bsize b) - unat sz - 20"
    using True unat_sub_if_size [of "bsize b - sz" 20] by simp
  then show ?thesis using True assms b a by (simp add: carve_def ac_simps)
next
  case False
  then show ?thesis using assms by (simp add: carve_def)
qed

lemma tiles_carve_in:
  assumes "tiles lo (xs @ b # ys) hi" and "hi \<le> 2 ^ 32" and "sz \<le> bsize b" and "4 dvd unat sz"
  shows "tiles lo (xs @ carve b sz @ ys) hi"
  using assms tiles_carve [of _ b ys hi sz] unfolding tiles_append [of lo xs] by blast

lemma lseg_new_prev:
  assumes "lseg m pv ys nx" and "\<And>y. y \<in> set ys \<Longrightarrow> baddr y \<noteq> first_addr ys 0 \<Longrightarrow> same_hdr m m' (baddr y)"
    and "distinct (map baddr ys)"
    and "ys \<noteq> [] \<Longrightarrow> hdr_ok m' (hd ys) pv' (first_addr (tl ys) nx)"
  shows "lseg m' pv' ys nx"
proof (cases ys)
  case (Cons y ys')
  have same: "same_hdr m m' (baddr b)" if "b \<in> set ys'" for b
    using that distinct_map_apart [of baddr "[y]" ys' y b] assms(3)
    by (intro assms(2)) (auto simp: Cons)
  have "lseg m (baddr y) ys' nx" using assms(1) by (simp add: Cons)
  then have "lseg m' (baddr y) ys' nx" by (rule lseg_frame) (rule same)
  with assms(4) show ?thesis by (simp add: Cons)
qed simp

lemma take_block_size_guard:
  assumes "unat (baddr b) + 20 + unat (bsize b) \<le> 2 ^ 32" and "32 \<le> unat (baddr b)"
    and "sz \<le> bsize b"
  shows "sz + 20 + 16 \<le> bsize b \<longleftrightarrow> unat sz + 36 \<le> unat (bsize b)"
proof -
  have "unat sz \<le> unat (bsize b)" using assms(3) by (simp add: word_le_nat_alt)
  then have "unat (sz + 36) = unat sz + 36" using assms(1,2) by (simp add: unat_word_ariths)
  then show ?thesis by (simp add: word_le_nat_alt add.assoc)
qed

lemma take_block_split_lseg:
  assumes L: "lseg m 0 (xs @ b # ys) 0" and T: "tiles lo (xs @ b # ys) hi" and hi: "hi \<le> 2 ^ 32"
    and lo: "32 \<le> lo" and fit: "unat sz + 36 \<le> unat (bsize b)" and sz: "4 dvd unat sz"
  shows "lseg (set_free (split_block m (baddr b) sz) (baddr b) False) 0 (xs @ carve b sz @ ys) 0"
proof -
  define a nb where "a = baddr b" and "nb = baddr b + 20 + sz"
  define b1 b2 where "b1 = b\<lparr>bsize := sz, bfree := False\<rparr>"
    and "b2 = \<lparr>baddr = nb, bsize = bsize b - sz - 20, bfree = True\<rparr>"
  let ?m = "set_free (split_block m a sz) a False"
  have carve: "carve b sz = [b1, b2]" using fit by (simp add: carve_def b1_def b2_def nb_def)
  have szle: "sz \<le> bsize b" using fit by (simp add: word_le_nat_alt)
  have T': "tiles lo (xs @ [b1, b2] @ ys) hi" using tiles_carve_in [OF T hi szle sz] carve by simp
  have adr [simp]: "baddr b1 = a" "baddr b2 = nb" "bsize b1 = sz" "bsize b2 = bsize b - sz - 20"
    "bfree b1 = False" "bfree b2 = True" by (simp_all add: b1_def b2_def a_def)
  have sep: "hsep (baddr x) (baddr y)" if "x \<in> set (xs @ [b1, b2] @ ys)" "y \<in> set (xs @ [b1, b2] @ ys)" for x y
    using tiles_hsep [OF T' hi that] .
  have dist: "distinct (map baddr (xs @ [b1, b2] @ ys))" by (rule tiles_distinct [OF T'])
  have nz: "baddr x \<noteq> 0" if "x \<in> set (xs @ [b1, b2] @ ys)" for x
    using tiles_bounds [OF T' that] lo by auto
  have Lxs: "lseg m 0 xs a" and Lb: "hdr_ok m b (last_addr 0 xs) (first_addr ys 0)" and Lys: "lseg m a ys 0"
    using L by (auto simp: lseg_mid a_def)
  have Lb': "blk_magic m a = HEAP_MAGIC" "blk_size m a = bsize b" "blk_prev m a = last_addr 0 xs"
    and nxt: "blk_next m a = first_addr ys 0" using Lb by (simp_all add: hdr_ok_def a_def)
  have ab: "a \<noteq> nb" "nb \<noteq> a" using dist by auto
  have n: "first_addr ys 0 \<noteq> 0 \<Longrightarrow> x \<in> set (xs @ [b1, b2] @ ys) \<Longrightarrow>
      hsep (first_addr ys 0) (baddr x) \<and> hsep (baddr x) (first_addr ys 0)" for x
    using sep by (cases ys) auto
  have F: "hsep a (baddr x) \<and> hsep nb (baddr x) \<and> hsep a nb \<and> a \<noteq> nb \<and> hsep a a" if "x \<in> set (xs @ [b1, b2] @ ys)" for x
    using sep [of b1 x] sep [of b2 x] sep [of b1 b2] sep [of b1 b1] dist that by simp
  have fields:
    "blk_magic ?m c = (if c = nb then HEAP_MAGIC else blk_magic m c)"
    "blk_size ?m c = (if c = a then sz else if c = nb then blk_size m a - sz - 20 else blk_size m c)"
    "blk_free ?m c = (if c = a then False else if c = nb then True else blk_free m c)"
    "blk_next ?m c = (if c = a then nb else if c = nb then first_addr ys 0 else blk_next m c)"
    "blk_prev ?m c = (if c = first_addr ys 0 then nb else if c = nb then a else blk_prev m c)"
    if "x \<in> set (xs @ [b1, b2] @ ys)" "c = baddr x" for x c
  proof -
    have f: "hsep a c" "hsep nb c" "hsep a nb" "a \<noteq> nb" "hsep a a" and c: "c \<noteq> 0"
      using F [OF that(1)] nz [OF that(1)] that(2) by auto
    have nn: "blk_next m a \<noteq> 0 \<longrightarrow>
        hsep (blk_next m a) c \<and> hsep (blk_next m a) a \<and> hsep (blk_next m a) nb \<and> hsep nb (blk_next m a)"
      using n [of x] n [of b1] n [of b2] that unfolding nxt by simp
    have nb: "nb = a + 20 + sz" by (simp add: nb_def a_def)
    note sf = split_block_fields [of a c sz m, folded nb, OF f nn]
    show "blk_magic ?m c = (if c = nb then HEAP_MAGIC else blk_magic m c)"
      "blk_size ?m c = (if c = a then sz else if c = nb then blk_size m a - sz - 20 else blk_size m c)"
      "blk_free ?m c = (if c = a then False else if c = nb then True else blk_free m c)"
      "blk_next ?m c = (if c = a then nb else if c = nb then first_addr ys 0 else blk_next m c)"
      "blk_prev ?m c = (if c = first_addr ys 0 then nb else if c = nb then a else blk_prev m c)"
      unfolding get_set_hdr [OF f(1)] sf nxt using c f(4) by auto
  qed
  have first: "first_addr ys 0 \<noteq> baddr x" if "x \<in> set (xs @ [b1, b2])" for x
    using that dist nz [of x] by (cases ys) auto
  have others: "same_hdr m ?m (baddr x)" if "x \<in> set (xs @ ys)" "baddr x \<noteq> first_addr ys 0" for x
  proof -
    have "baddr x \<noteq> a" "baddr x \<noteq> nb"
      using that(1) dist by (auto dest: notin_image_neq)
    then show ?thesis using that fields [of x] by (simp add: same_hdr_def)
  qed
  have "lseg ?m 0 xs a"
  proof (rule lseg_frame [OF Lxs])
    fix x assume "x \<in> set xs"
    then show "same_hdr m ?m (baddr x)" using first [of x] by (intro others) auto
  qed
  moreover have "hdr_ok ?m b1 (last_addr 0 xs) nb"
    using fields [of b1 a] first [of b1] ab Lb' unfolding hdr_ok_def adr by simp
  moreover have "hdr_ok ?m b2 a (first_addr ys 0)"
    using fields [of b2 nb] first [of b2] ab Lb' unfolding hdr_ok_def adr by simp
  moreover have "lseg ?m nb ys 0"
  proof (rule lseg_new_prev [OF Lys])
    show "same_hdr m ?m (baddr y)" if "y \<in> set ys" "baddr y \<noteq> first_addr ys 0" for y
      using that by (intro others) auto
    show "distinct (map baddr ys)" using dist by simp
    show "hdr_ok ?m (hd ys) nb (first_addr (tl ys) 0)" if "ys \<noteq> []"
    proof -
      from \<open>ys \<noteq> []\<close> obtain y ys' where ys: "ys = y # ys'" by (cases ys) auto
      have "baddr y \<noteq> a" "baddr y \<noteq> nb" using dist by (auto simp: ys)
      then show ?thesis using fields [of y "baddr y"] Lys by (simp add: hdr_ok_def ys)
    qed
  qed
  ultimately show ?thesis
    unfolding a_def [symmetric] carve by (simp add: lseg_append)
qed

lemma take_block_lseg:
  assumes L: "lseg m 0 (xs @ b # ys) 0" and T: "tiles lo (xs @ b # ys) hi" and hi: "hi \<le> 2 ^ 32"
    and lo: "32 \<le> lo" and fit: "sz \<le> bsize b" and sz: "4 dvd unat sz"
  shows "lseg (take_block m (baddr b) sz) 0 (xs @ carve b sz @ ys) 0"
proof -
  have b: "b \<in> set (xs @ b # ys)" by simp
  have size_b: "blk_size m (baddr b) = bsize b" using L by (simp add: lseg_mid hdr_ok_def)
  have guard: "sz + 20 + 16 \<le> bsize b \<longleftrightarrow> unat sz + 36 \<le> unat (bsize b)"
    using tiles_bounds [OF T b] lo hi by (intro take_block_size_guard [OF _ _ fit]) auto
  show ?thesis
  proof (cases "unat sz + 36 \<le> unat (bsize b)")
    case True
    then show ?thesis
      using take_block_split_lseg [OF L T hi lo True sz] guard
      by (simp add: take_block_def size_b)
  next
    case False
    then show ?thesis
      using set_free_step [OF L T hi, of False] guard
      by (simp add: heap_step_def take_block_def size_b carve_def)
  qed
qed

lemma split_block_outside:
  assumes "hsep (a + 20 + sz) a" and "a + 20 + sz \<noteq> a" and "x \<notin> hdr_bytes a"
    and "x \<notin> hdr_bytes (a + 20 + sz)" and "blk_next m a \<noteq> 0 \<longrightarrow> x \<notin> hdr_bytes (blk_next m a)"
  shows "split_block m a sz x = m x"
  using assms
  by (cases "blk_next m a = 0") (simp_all add: split_block_def Let_def get_set_hdr set_hdr_outside)

lemma carve_same_addr: "\<exists>c \<in> set (carve b sz). baddr c = baddr b"
  by (simp add: carve_def)

lemma hd_carve: "carve b sz \<noteq> [] \<and> baddr (hd (xs @ carve b sz @ ys)) = baddr (hd (xs @ b # ys))"
  by (cases xs) (simp_all add: carve_def)

lemma take_block_outside:
  assumes L: "lseg m 0 (xs @ b # ys) 0" and T: "tiles lo (xs @ b # ys) hi" and hi: "hi \<le> 2 ^ 32"
    and lo: "32 \<le> lo" and fit: "sz \<le> bsize b" and sz: "4 dvd unat sz"
    and x: "\<And>c. c \<in> set (xs @ carve b sz @ ys) \<Longrightarrow> x \<notin> hdr_bytes (baddr c)"
  shows "take_block m (baddr b) sz x = m x"
proof -
  have b: "b \<in> set (xs @ b # ys)" by simp
  have L': "blk_size m (baddr b) = bsize b" "blk_next m (baddr b) = first_addr ys 0"
    using L by (simp_all add: lseg_mid hdr_ok_def)
  have guard: "sz + 20 + 16 \<le> bsize b \<longleftrightarrow> unat sz + 36 \<le> unat (bsize b)"
    using tiles_bounds [OF T b] lo hi by (intro take_block_size_guard [OF _ _ fit]) auto
  obtain c where c: "c \<in> set (carve b sz)" "baddr c = baddr b" using carve_same_addr by blast
  with x [of c] have xb: "x \<notin> hdr_bytes (baddr b)" by simp
  have "split_block m (baddr b) sz x = m x" if c: "unat sz + 36 \<le> unat (bsize b)"
  proof (rule split_block_outside [OF _ _ xb])
    let ?nb = "\<lparr>baddr = baddr b + 20 + sz, bsize = bsize b - sz - 20, bfree = True\<rparr>"
      and ?b1 = "b\<lparr>bsize := sz, bfree := False\<rparr>"
    have cv: "carve b sz = [?b1, ?nb]" using c by (simp add: carve_def)
    note T' = tiles_carve_in [OF T hi fit sz]
    show "hsep (baddr b + 20 + sz) (baddr b)"
      using tiles_hsep [OF T' hi, of ?nb ?b1] by (simp add: cv)
    show "baddr b + 20 + sz \<noteq> baddr b" using tiles_distinct [OF T'] by (auto simp: cv)
    show "x \<notin> hdr_bytes (baddr b + 20 + sz)" using x [of ?nb] by (simp add: cv)
    show "blk_next m (baddr b) \<noteq> 0 \<longrightarrow> x \<notin> hdr_bytes (blk_next m (baddr b))"
      using x unfolding L' by (cases ys) auto
  qed
  then show ?thesis using guard by (simp add: take_block_def L' set_hdr_outside [OF xb])
qed

lemma kmalloc_loop_first_fit:
  assumes "lseg m 0 (xs @ ys) 0" and "tiles lo (xs @ ys) hi" and "hi \<le> 2 ^ 32" and "32 \<le> lo"
    and "4 dvd unat sz"
  shows "\<exists>m' p. kmalloc_loop m sz (first_addr ys 0) = Some (m', p) \<and>
    (case first_fit sz ys of None \<Rightarrow> m' = m \<and> p = 0
     | Some (ys', q) \<Rightarrow> p = q \<and> lseg m' 0 (xs @ ys') 0 \<and> tiles lo (xs @ ys') hi \<and>
         hdr_frame m m' (xs @ ys'))"
  using assms
proof (induction ys arbitrary: xs)
  case Nil
  then show ?case by (simp add: kmalloc_loop.simps)
next
  case (Cons b ys)
  have b: "b \<in> set (xs @ b # ys)" by simp
  have nz: "baddr b \<noteq> 0" using tiles_bounds [OF Cons.prems(2) b] Cons.prems(4) by auto
  have hb: "hdr_ok m b (last_addr 0 xs) (first_addr ys 0)" using Cons.prems(1) by (simp add: lseg_mid)
  show ?case
  proof (cases "bfree b \<and> sz \<le> bsize b")
    case True
    have "lseg (take_block m (baddr b) sz) 0 (xs @ carve b sz @ ys) 0"
      using True Cons.prems by (intro take_block_lseg) auto
    moreover have "tiles lo (xs @ carve b sz @ ys) hi"
      using Cons.prems True by (intro tiles_carve_in) auto
    moreover have "hdr_frame m (take_block m (baddr b) sz) (xs @ carve b sz @ ys)"
      unfolding hdr_frame_def using True Cons.prems by (intro allI impI take_block_outside) auto
    ultimately show ?thesis
      using True hb nz by (simp add: kmalloc_loop.simps [of m sz "baddr b"] hdr_ok_def)
  next
    case False
    then have "kmalloc_loop m sz (baddr b) = kmalloc_loop m sz (first_addr ys 0)"
      using hb nz by (auto simp: kmalloc_loop.simps [of m sz "baddr b"] hdr_ok_def)
    moreover have "\<exists>m' p. kmalloc_loop m sz (first_addr ys 0) = Some (m', p) \<and>
      (case first_fit sz ys of None \<Rightarrow> m' = m \<and> p = 0
       | Some (ys', q) \<Rightarrow> p = q \<and> lseg m' 0 ((xs @ [b]) @ ys') 0 \<and> tiles lo ((xs @ [b]) @ ys') hi \<and>
           hdr_frame m m' ((xs @ [b]) @ ys'))"
      using Cons.prems by (intro Cons.IH) auto
    ultimately show ?thesis using False by (auto split: option.splits)
  qed
qed

text \<open>First fit on the list: the block it hands out, and what it keeps.\<close>

lemma first_fit_None: "first_fit sz bs = None \<longleftrightarrow> (\<forall>b \<in> set bs. bfree b \<longrightarrow> bsize b < sz)"
  by (induction bs) (auto simp: not_le)

lemma first_fit_Some:
  assumes "first_fit sz bs = Some (bs', p)"
  obtains xs b ys where "bs = xs @ b # ys" "bfree b" "sz \<le> bsize b" "bs' = xs @ carve b sz @ ys"
    "p = baddr b + 20" "\<forall>c \<in> set xs. \<not> (bfree c \<and> sz \<le> bsize c)"
proof -
  have "\<exists>xs b ys. bs = xs @ b # ys \<and> bfree b \<and> sz \<le> bsize b \<and> bs' = xs @ carve b sz @ ys \<and>
      p = baddr b + 20 \<and> (\<forall>c \<in> set xs. \<not> (bfree c \<and> sz \<le> bsize c))"
    using assms
  proof (induction bs arbitrary: bs')
    case (Cons c bs)
    show ?case
    proof (cases "bfree c \<and> sz \<le> bsize c")
      case True
      with Cons.prems show ?thesis by (intro exI [of _ "[]"]) auto
    next
      case False
      with Cons.prems obtain bs'' where "first_fit sz bs = Some (bs'', p)" "bs' = c # bs''" by auto
      with Cons.IH [of bs''] False show ?thesis by (metis Cons_eq_appendI set_ConsD)
    qed
  qed simp
  then show ?thesis using that by blast
qed

lemma data_addr_nonzero:
  assumes "tiles lo bs hi" and "hi \<le> 2 ^ 32" and "b \<in> set bs" and "0 < unat (bsize b)"
  shows "baddr b + 20 \<noteq> 0"
proof -
  have "unat (baddr b) + 20 < 2 ^ 32" using tiles_bounds [OF assms(1,3)] assms(2,4) by linarith
  then have "unat (baddr b + 20) = unat (baddr b) + 20" using unat_add_of_nat [of "baddr b" 20] by simp
  then show ?thesis by (metis add_is_0 unat_0 zero_neq_numeral)
qed

lemma carve_props:
  assumes "sz \<le> bsize b"
  obtains c where "c \<in> set (carve b sz)" "baddr c = baddr b" "\<not> bfree c" "sz \<le> bsize c"
proof (cases "unat sz + 36 \<le> unat (bsize b)")
  case True
  then show ?thesis by (intro that [of "b\<lparr>bsize := sz, bfree := False\<rparr>"]) (simp_all add: carve_def)
next
  case False
  then show ?thesis
    using assms by (intro that [of "b\<lparr>bfree := False\<rparr>"]) (simp_all add: carve_def)
qed

lemma ALIGN_UP_8:
  assumes "unat sz + 8 \<le> 2 ^ 32"
  shows "8 dvd unat (ALIGN_UP sz 8)" and "unat sz \<le> unat (ALIGN_UP sz 8)"
    and "unat (ALIGN_UP sz 8) < unat sz + 8"
  using ALIGN_UP_props [of sz 3] assms by simp_all

lemma kmalloc_refines:
  assumes inv: "heap_inv h bs hi" and sz: "sz \<noteq> 0" "unat sz + 8 \<le> 2 ^ 32"
  shows "\<exists>h' p. kmalloc h sz = Some (h', p) \<and>
    (case first_fit (ALIGN_UP sz 8) bs of
       None \<Rightarrow> h' = h \<and> p = 0 \<and> (\<forall>b \<in> set bs. bfree b \<longrightarrow> bsize b < ALIGN_UP sz 8)
     | Some (bs', q) \<Rightarrow> p = q \<and> p \<noteq> 0 \<and> heap_inv h' bs' hi \<and>
         (\<forall>c \<in> set bs'. \<forall>x \<in> data_bytes c. hmem h' x = hmem h x))"
proof -
  let ?sz = "ALIGN_UP sz 8"
  have "8 dvd unat ?sz" using ALIGN_UP_8 sz by simp
  then have d: "4 dvd unat ?sz" by (rule dvd_trans [rotated]) simp
  have I: "lseg (hmem h) 0 bs 0" "tiles (unat (heap_start h)) bs hi" "hi \<le> 2 ^ 32"
      "32 \<le> unat (heap_start h)" "bs \<noteq> []" "block_head h = baddr (hd bs)" "block_head h = heap_start h"
    using inv by (auto simp: heap_inv_def)
  have hd: "first_addr bs 0 = block_head h" using I by (cases bs) auto
  obtain m' p where loop: "kmalloc_loop (hmem h) ?sz (block_head h) = Some (m', p)"
    and res: "case first_fit ?sz bs of None \<Rightarrow> m' = hmem h \<and> p = 0
     | Some (ys', q) \<Rightarrow> p = q \<and> lseg m' 0 ys' 0 \<and> tiles (unat (heap_start h)) ys' hi \<and>
         hdr_frame (hmem h) m' ys'"
    using kmalloc_loop_first_fit [of "hmem h" "[]" bs, unfolded append_Nil, OF I(1-4) d]
    unfolding hd by blast
  have k: "kmalloc h sz = Some (h\<lparr>hmem := m'\<rparr>, p)" using sz(1) loop by (simp add: kmalloc_def)
  show ?thesis
  proof (cases "first_fit ?sz bs")
    case None
    with res k first_fit_None show ?thesis by fastforce
  next
    case (Some r)
    obtain bs' q where r: "r = (bs', q)" by fastforce
    with Some res have R: "p = q" "lseg m' 0 bs' 0" "tiles (unat (heap_start h)) bs' hi"
      "hdr_frame (hmem h) m' bs'" by auto
    from Some r obtain xs b ys where ff: "bs = xs @ b # ys" "bs' = xs @ carve b ?sz @ ys"
      "q = baddr b + 20" "?sz \<le> bsize b" by (auto elim: first_fit_Some)
    have "?sz \<noteq> 0" using sz(1) ALIGN_UP_8(2) [OF sz(2)] by (auto simp: unat_eq_zero)
    then have bpos: "0 < unat (bsize b)" using ff(4) by (auto simp: unat_gt_0)
    have "heap_inv (h\<lparr>hmem := m'\<rparr>) bs' hi"
      using I(3-7) R(2,3) hd_carve [of b ?sz xs ys] by (simp add: heap_inv_def ff(1,2))
    moreover have "q \<noteq> 0"
      unfolding ff(3) by (rule data_addr_nonzero [OF I(2,3) _ bpos]) (simp add: ff(1))
    ultimately show ?thesis
      using k R(1) Some r hdr_frame_data [OF R(4,3) I(3)] by simp
  qed
qed

section \<open>Release coalesces with both neighbours\<close>

text \<open>Two adjacent blocks made one: what both coalescing steps of \<open>kfree\<close> do.\<close>

definition merge_blk :: "blk \<Rightarrow> blk \<Rightarrow> blk" where
  "merge_blk p q = p\<lparr>bsize := bsize p + (20 + bsize q)\<rparr>"

fun merge_next :: "blk \<Rightarrow> blk list \<Rightarrow> blk list" where
  "merge_next b [] = [b]"
| "merge_next b (y # ys) = (if bfree y then merge_blk b y # ys else b # y # ys)"

definition release :: "blk list \<Rightarrow> blk \<Rightarrow> blk list \<Rightarrow> blk list" where
  "release xs b ys =
     (let bys = merge_next (b\<lparr>bfree := True\<rparr>) ys
      in if xs \<noteq> [] \<and> bfree (last xs) then butlast xs @ merge_blk (last xs) (hd bys) # tl bys
         else xs @ bys)"

definition absorb :: "mem \<Rightarrow> u32 \<Rightarrow> u32 \<Rightarrow> mem" where
  "absorb m p q =
     (let m2 = set_next (set_size m p (blk_size m p + (20 + blk_size m q))) p (blk_next m q)
      in if blk_next m q \<noteq> 0 then set_prev m2 (blk_next m q) p else m2)"

lemma tiles_merge:
  assumes "tiles lo (xs @ p # q # ys) hi" and "hi \<le> 2 ^ 32"
  shows "tiles lo (xs @ merge_blk p q # ys) hi"
proof -
  obtain mid where xs: "tiles lo xs mid" and pq: "tiles mid (p # q # ys) hi"
    using assms(1) by (auto simp: tiles_append)
  have "unat (baddr p) + 20 + unat (bsize p) + 20 + unat (bsize q) \<le> 2 ^ 32"
    using tiles_bounds [OF pq, of q] pq assms(2) by simp
  then have "unat (bsize p + (20 + bsize q)) = unat (bsize p) + (20 + unat (bsize q))"
    by (simp add: unat_word_ariths)
  then have "tiles mid (merge_blk p q # ys) hi" using pq by (simp add: merge_blk_def ac_simps)
  with xs show ?thesis by (auto simp: tiles_append)
qed

lemma absorb_fields:
  assumes "hsep p c" "hsep p p" "blk_next m q \<noteq> 0 \<longrightarrow> hsep (blk_next m q) c"
  shows "blk_magic (absorb m p q) c = blk_magic m c"
    and "blk_size (absorb m p q) c = (if c = p then blk_size m p + (20 + blk_size m q) else blk_size m c)"
    and "blk_free (absorb m p q) c = blk_free m c"
    and "blk_next (absorb m p q) c = (if c = p then blk_next m q else blk_next m c)"
    and "blk_prev (absorb m p q) c =
       (if c = blk_next m q \<and> blk_next m q \<noteq> 0 then p else blk_prev m c)"
  using assms by (cases "blk_next m q = 0"; simp add: absorb_def Let_def get_set_hdr)+

lemma absorb_lseg:
  assumes L: "lseg m 0 (xs @ p # q # ys) 0" and T: "tiles lo (xs @ p # q # ys) hi"
    and hi: "hi \<le> 2 ^ 32" and lo: "32 \<le> lo"
  shows "lseg (absorb m (baddr p) (baddr q)) 0 (xs @ merge_blk p q # ys) 0"
proof -
  let ?m = "absorb m (baddr p) (baddr q)" and ?bs = "xs @ p # q # ys"
  have Lxs: "lseg m 0 xs (baddr p)" and Lp: "hdr_ok m p (last_addr 0 xs) (baddr q)"
    and Lq: "hdr_ok m q (baddr p) (first_addr ys 0)" and Lys: "lseg m (baddr q) ys 0"
    using L by (auto simp: lseg_mid)
  have sep: "hsep (baddr x) (baddr y)" if "x \<in> set ?bs" "y \<in> set ?bs" for x y
    by (rule tiles_hsep [OF T hi that])
  have dist: "distinct (map baddr ?bs)" by (rule tiles_distinct [OF T])
  have nxt: "blk_next m (baddr q) = first_addr ys 0" using Lq by (simp add: hdr_ok_def)
  have n: "first_addr ys 0 \<noteq> 0 \<longrightarrow> hsep (first_addr ys 0) (baddr x)" if "x \<in> set ?bs" for x
    using that sep by (cases ys) auto
  have fields: "blk_magic ?m (baddr x) = blk_magic m (baddr x)"
    "blk_size ?m (baddr x) = (if baddr x = baddr p then bsize p + (20 + bsize q) else blk_size m (baddr x))"
    "blk_free ?m (baddr x) = blk_free m (baddr x)"
    "blk_next ?m (baddr x) = (if baddr x = baddr p then first_addr ys 0 else blk_next m (baddr x))"
    "blk_prev ?m (baddr x) =
       (if baddr x = first_addr ys 0 \<and> first_addr ys 0 \<noteq> 0 then baddr p else blk_prev m (baddr x))"
    if x: "x \<in> set ?bs" for x
  proof -
    have "hsep (baddr p) (baddr x)" "hsep (baddr p) (baddr p)" using sep x by auto
    note f = absorb_fields [OF this n [OF x, folded nxt]]
    show "blk_magic ?m (baddr x) = blk_magic m (baddr x)"
      "blk_size ?m (baddr x) = (if baddr x = baddr p then bsize p + (20 + bsize q) else blk_size m (baddr x))"
      "blk_free ?m (baddr x) = blk_free m (baddr x)"
      "blk_next ?m (baddr x) = (if baddr x = baddr p then first_addr ys 0 else blk_next m (baddr x))"
      "blk_prev ?m (baddr x) =
         (if baddr x = first_addr ys 0 \<and> first_addr ys 0 \<noteq> 0 then baddr p else blk_prev m (baddr x))"
      unfolding f nxt using Lp Lq by (simp_all add: hdr_ok_def)
  qed
  have others: "same_hdr m ?m (baddr x)" if "x \<in> set (xs @ ys)" "baddr x \<noteq> first_addr ys 0" for x
  proof -
    have "baddr x \<noteq> baddr p" using that(1) dist by (auto dest: notin_image_neq)
    then show ?thesis using that fields [of x] by (simp add: same_hdr_def)
  qed
  have first: "baddr x \<noteq> first_addr ys 0" if "x \<in> set (xs @ [p])" for x
    using that dist tiles_bounds [OF T, of x] lo by (cases ys) (auto dest: notin_image_neq)
  have "lseg ?m 0 xs (baddr p)"
  proof (rule lseg_frame [OF Lxs])
    show "same_hdr m ?m (baddr x)" if "x \<in> set xs" for x
      using that first [of x] by (intro others) auto
  qed
  moreover have "hdr_ok ?m (merge_blk p q) (last_addr 0 xs) (first_addr ys 0)"
    using fields [of p] first [of p] Lp by (simp add: hdr_ok_def merge_blk_def)
  moreover have "lseg ?m (baddr p) ys 0"
  proof (rule lseg_new_prev [OF Lys])
    show "same_hdr m ?m (baddr y)" if "y \<in> set ys" "baddr y \<noteq> first_addr ys 0" for y
      using that by (intro others) auto
    show "distinct (map baddr ys)" using dist by simp
    show "hdr_ok ?m (hd ys) (baddr p) (first_addr (tl ys) 0)" if "ys \<noteq> []"
    proof -
      from \<open>ys \<noteq> []\<close> obtain y ys' where ys: "ys = y # ys'" by (cases ys) auto
      have "baddr y \<noteq> baddr p" "baddr y \<noteq> 0"
        using dist tiles_bounds [OF T, of y] lo by (auto simp: ys)
      then show ?thesis using fields [of y] Lys by (simp add: hdr_ok_def ys)
    qed
  qed
  ultimately show ?thesis by (simp add: lseg_mid merge_blk_def)
qed

lemma absorb_frame:
  assumes "lseg m 0 (xs @ p # q # ys) 0"
  shows "hdr_frame m (absorb m (baddr p) (baddr q)) (xs @ p # q # ys)"
proof -
  have "blk_next m (baddr q) = first_addr ys 0"
    using assms by (auto simp: lseg_mid hdr_ok_def)
  then show ?thesis
    by (cases ys) (auto simp: hdr_frame_def absorb_def Let_def set_hdr_outside)
qed

lemma coalesce_next_absorb:
  assumes "hsep b b" and "blk_next m b \<noteq> 0" and "hsep b (blk_next m b)" and "b \<noteq> blk_next m b"
  shows "coalesce_next m b =
     (if blk_free m (blk_next m b) then absorb m b (blk_next m b) else m)"
  using assms by (simp add: coalesce_next_def absorb_def Let_def get_set_hdr)

lemma coalesce_prev_absorb:
  assumes "hsep (blk_prev m b) (blk_prev m b)" and "blk_prev m b \<noteq> 0" and "hsep (blk_prev m b) b"
    and "b \<noteq> blk_prev m b"
  shows "coalesce_prev m b =
     (if blk_free m (blk_prev m b) then absorb m (blk_prev m b) b else m)"
  using assms by (simp add: coalesce_prev_def absorb_def Let_def get_set_hdr)

lemma absorb_step:
  assumes "lseg m 0 (xs @ p # q # ys) 0" and "tiles lo (xs @ p # q # ys) hi"
    and "hi \<le> 2 ^ 32" and "32 \<le> lo"
  shows "heap_step m (absorb m (baddr p) (baddr q)) lo (xs @ p # q # ys) (xs @ merge_blk p q # ys) hi"
  unfolding heap_step_def
  using absorb_lseg [OF assms] tiles_merge [OF assms(2,3)] absorb_frame [OF assms(1)]
  by (cases xs) (auto simp: merge_blk_def)

lemma coalesce_next_step:
  assumes L: "lseg m 0 (xs @ b # ys) 0" and T: "tiles lo (xs @ b # ys) hi"
    and hi: "hi \<le> 2 ^ 32" and lo: "32 \<le> lo"
  shows "heap_step m (coalesce_next m (baddr b)) lo (xs @ b # ys) (xs @ merge_next b ys) hi"
proof (cases ys)
  case Nil
  then have "blk_next m (baddr b) = 0" using L by (simp add: lseg_mid hdr_ok_def)
  with Nil L T show ?thesis
    by (cases xs) (auto simp: heap_step_def coalesce_next_def hdr_frame_def)
next
  case (Cons y ys')
  have f: "blk_next m (baddr b) = baddr y" "blk_free m (baddr y) = bfree y"
    using L by (simp_all add: lseg_mid Cons hdr_ok_def)
  have "baddr y \<noteq> 0" "hsep (baddr b) (baddr b)" "hsep (baddr b) (baddr y)" "baddr b \<noteq> baddr y"
    using tiles_bounds [OF T, of y] lo tiles_hsep [OF T hi, of b] tiles_distinct [OF T]
    by (auto simp: Cons)
  then have "coalesce_next m (baddr b) = (if bfree y then absorb m (baddr b) (baddr y) else m)"
    using coalesce_next_absorb [of "baddr b" m] f by simp
  then show ?thesis
    using absorb_step [of m xs b y ys' lo hi] L T hi lo
    by (auto simp: Cons heap_step_def hdr_frame_def)
qed

lemma coalesce_prev_step:
  assumes L: "lseg m 0 (xs @ b # ys) 0" and T: "tiles lo (xs @ b # ys) hi"
    and hi: "hi \<le> 2 ^ 32" and lo: "32 \<le> lo"
  shows "heap_step m (coalesce_prev m (baddr b)) lo (xs @ b # ys)
    (if xs \<noteq> [] \<and> bfree (last xs) then butlast xs @ merge_blk (last xs) b # ys else xs @ b # ys) hi"
proof (cases xs rule: rev_cases)
  case Nil
  then have "blk_prev m (baddr b) = 0" using L by (simp add: hdr_ok_def last_addr_def)
  with Nil L T show ?thesis by (auto simp: heap_step_def coalesce_prev_def hdr_frame_def)
next
  case (snoc xs' p)
  have f: "blk_prev m (baddr b) = baddr p" "blk_free m (baddr p) = bfree p"
    using L by (simp_all add: lseg_mid snoc hdr_ok_def)
  have "baddr p \<noteq> 0" "hsep (baddr p) (baddr p)" "hsep (baddr p) (baddr b)" "baddr b \<noteq> baddr p"
    using tiles_bounds [OF T, of p] lo tiles_hsep [OF T hi, of p] tiles_distinct [OF T]
    by (auto simp: snoc)
  then have "coalesce_prev m (baddr b) = (if bfree p then absorb m (baddr p) (baddr b) else m)"
    using coalesce_prev_absorb [of m "baddr b"] f by simp
  then show ?thesis
    using absorb_step [of m xs' p b ys lo hi] L T hi lo
    by (auto simp: snoc heap_step_def hdr_frame_def)
qed

lemma hdr_frame_mono:
  assumes "hdr_frame m m' bs1" and "baddr ` set bs1 \<subseteq> baddr ` set bs"
  shows "hdr_frame m m' bs"
  unfolding hdr_frame_def
proof (intro allI impI)
  fix x assume x: "\<forall>c \<in> set bs. x \<notin> hdr_bytes (baddr c)"
  have "x \<notin> hdr_bytes a" if "a \<in> baddr ` set bs" for a using that x by auto
  then have "\<forall>c \<in> set bs1. x \<notin> hdr_bytes (baddr c)" using assms(2) by blast
  with assms(1) show "m' x = m x" by (simp add: hdr_frame_def)
qed

lemma heap_step_trans:
  assumes "heap_step m m1 lo bs bs1 hi" and "heap_step m1 m2 lo bs1 bs2 hi"
  shows "heap_step m m2 lo bs bs2 hi"
proof -
  have "hdr_frame m1 m2 bs"
    using assms hdr_frame_mono [of m1 m2 bs1 bs] by (simp add: heap_step_def)
  then have "hdr_frame m m2 bs" using assms(1) by (simp add: heap_step_def hdr_frame_def)
  moreover have "baddr ` set bs2 \<subseteq> baddr ` set bs"
    using assms unfolding heap_step_def by (meson order_trans)
  ultimately show ?thesis using assms by (simp add: heap_step_def)
qed

lemma kfree_steps:
  assumes L: "lseg m 0 (xs @ b # ys) 0" and T: "tiles lo (xs @ b # ys) hi"
    and hi: "hi \<le> 2 ^ 32" and lo: "32 \<le> lo"
  shows "heap_step m (coalesce_prev (coalesce_next (set_free m (baddr b) True) (baddr b)) (baddr b))
     lo (xs @ b # ys) (release xs b ys) hi"
proof -
  let ?b = "b\<lparr>bfree := True\<rparr>" and ?m1 = "set_free m (baddr b) True"
  let ?m2 = "coalesce_next ?m1 (baddr b)"
  have s1: "heap_step m ?m1 lo (xs @ b # ys) (xs @ ?b # ys) hi" by (rule set_free_step [OF L T hi])
  have s2: "heap_step ?m1 ?m2 lo (xs @ ?b # ys) (xs @ merge_next ?b ys) hi"
    using s1 coalesce_next_step [of ?m1 xs ?b ys lo hi] hi lo by (simp add: heap_step_def)
  have "merge_next ?b ys \<noteq> [] \<and> baddr (hd (merge_next ?b ys)) = baddr b"
    by (cases ys) (simp_all add: merge_blk_def)
  then obtain c zs where c: "merge_next ?b ys = c # zs" "baddr c = baddr b"
    by (cases "merge_next ?b ys") auto
  have st: "heap_step ?m2 (coalesce_prev ?m2 (baddr c)) lo (xs @ c # zs)
      (if xs \<noteq> [] \<and> bfree (last xs) then butlast xs @ merge_blk (last xs) c # zs else xs @ c # zs) hi"
    using s2 c hi lo by (intro coalesce_prev_step) (auto simp: heap_step_def)
  have rel: "release xs b ys =
      (if xs \<noteq> [] \<and> bfree (last xs) then butlast xs @ merge_blk (last xs) c # zs else xs @ c # zs)"
    by (simp add: release_def Let_def c)
  have "heap_step ?m2 (coalesce_prev ?m2 (baddr b)) lo (xs @ merge_next ?b ys) (release xs b ys) hi"
    using st unfolding rel [symmetric] c .
  with s1 s2 show ?thesis by (blast intro: heap_step_trans)
qed

lemma kfree_refines:
  assumes inv: "heap_inv h (xs @ b # ys) hi" and b: "0 < unat (bsize b)"
  shows "heap_inv (kfree h (baddr b + 20)) (release xs b ys) hi
    \<and> (\<forall>c \<in> set (xs @ b # ys). \<forall>x \<in> data_bytes c. hmem (kfree h (baddr b + 20)) x = hmem h x)"
proof -
  let ?bs = "xs @ b # ys" and ?lo = "unat (heap_start h)"
  have I: "lseg (hmem h) 0 ?bs 0" "tiles ?lo ?bs hi" "hi \<le> 2 ^ 32" "32 \<le> ?lo"
    "block_head h = heap_start h" "block_head h = baddr (hd ?bs)"
    using inv by (auto simp: heap_inv_def)
  let ?m = "coalesce_prev (coalesce_next (set_free (hmem h) (baddr b) True) (baddr b)) (baddr b)"
  have nz: "baddr b + 20 \<noteq> 0" by (rule data_addr_nonzero [OF I(2,3) _ b]) simp
  have "blk_magic (hmem h) (baddr b) = HEAP_MAGIC" using I(1) by (simp add: lseg_mid hdr_ok_def)
  then have k: "kfree h (baddr b + 20) = h\<lparr>hmem := ?m\<rparr>"
    using nz by (simp add: kfree_def kfree_block_def)
  have S: "heap_step (hmem h) ?m ?lo ?bs (release xs b ys) hi" by (rule kfree_steps [OF I(1-4)])
  then have F: "hdr_frame (hmem h) ?m ?bs" by (simp add: heap_step_def)
  show ?thesis
    unfolding k using S I(3-6) hdr_frame_data [OF F I(2,3)] by (simp add: heap_inv_def heap_step_def)
qed

section \<open>No two free blocks are adjacent\<close>

definition coalesced :: "blk list \<Rightarrow> bool" where
  "coalesced bs \<longleftrightarrow> successively (\<lambda>x y. \<not> (bfree x \<and> bfree y)) bs"

lemma coalesced_carve:
  assumes "coalesced (xs @ b # ys)" and "bfree b"
  shows "coalesced (xs @ carve b sz @ ys)"
  using assms
  by (cases ys) (auto simp: coalesced_def carve_def successively_append_iff successively_Cons)

lemma coalesced_release:
  assumes "coalesced (xs @ b # ys)" and "\<not> bfree b"
  shows "coalesced (release xs b ys)"
proof (cases xs rule: rev_cases)
  case Nil
  with assms show ?thesis
    by (cases ys)
      (auto simp: coalesced_def release_def Let_def merge_blk_def successively_append_iff successively_Cons)
next
  case (snoc xs' p)
  with assms show ?thesis
    by (cases ys)
      (auto simp: coalesced_def release_def Let_def merge_blk_def successively_append_iff successively_Cons)
qed

end
