(* ===== verification/Heap_Alloc.thy ===== *)
theory Heap_Alloc
  imports Heap_Blocks
begin

text \<open>
  The contract the rest of the kernel relies on when it allocates, as a locale, and the heap of
  \<open>src/kernel/heap.c\<close> as its instance: allocations never overlap, releasing one leaves the
  others, and neither disturbs the contents of a live allocation. Then the remaining entry
  points: initialisation, statistics, aligned allocation.
\<close>

section \<open>The allocator interface\<close>

definition region :: "u32 \<Rightarrow> nat \<Rightarrow> u32 set" where
  "region p n = {x. unat (x - p) < n}"

locale allocator =
  fixes alloc :: "'h \<Rightarrow> u32 \<Rightarrow> ('h \<times> u32) option"
    and free :: "'h \<Rightarrow> u32 \<Rightarrow> 'h"
    and memory :: "'h \<Rightarrow> mem"
    and live :: "'h \<Rightarrow> (u32 \<times> nat) set"
    and ok :: "'h \<Rightarrow> bool"
  assumes alloc_returns: "ok h \<Longrightarrow> sz \<noteq> 0 \<Longrightarrow> unat sz + 8 \<le> 2 ^ 32 \<Longrightarrow> \<exists>h' p. alloc h sz = Some (h', p)"
    and alloc_ok: "ok h \<Longrightarrow> sz \<noteq> 0 \<Longrightarrow> unat sz + 8 \<le> 2 ^ 32 \<Longrightarrow> alloc h sz = Some (h', p) \<Longrightarrow> ok h'"
    and alloc_fails: "ok h \<Longrightarrow> sz \<noteq> 0 \<Longrightarrow> unat sz + 8 \<le> 2 ^ 32 \<Longrightarrow> alloc h sz = Some (h', 0) \<Longrightarrow> h' = h"
    and alloc_live: "ok h \<Longrightarrow> sz \<noteq> 0 \<Longrightarrow> unat sz + 8 \<le> 2 ^ 32 \<Longrightarrow> alloc h sz = Some (h', p) \<Longrightarrow> p \<noteq> 0 \<Longrightarrow>
      \<exists>n. unat sz \<le> n \<and> (p, n) \<notin> live h \<and> live h' = insert (p, n) (live h)"
    and alloc_memory: "ok h \<Longrightarrow> sz \<noteq> 0 \<Longrightarrow> unat sz + 8 \<le> 2 ^ 32 \<Longrightarrow> alloc h sz = Some (h', p) \<Longrightarrow>
      (q, n) \<in> live h \<Longrightarrow> x \<in> region q n \<Longrightarrow> memory h' x = memory h x"
    and free_ok: "ok h \<Longrightarrow> (p, n) \<in> live h \<Longrightarrow> ok (free h p)"
    and free_live: "ok h \<Longrightarrow> (p, n) \<in> live h \<Longrightarrow> live (free h p) = live h - {(p, n)}"
    and free_memory: "ok h \<Longrightarrow> (p, n) \<in> live h \<Longrightarrow> (q, k) \<in> live h \<Longrightarrow> x \<in> region q k \<Longrightarrow>
      memory (free h p) x = memory h x"
    and live_disjoint: "ok h \<Longrightarrow> (p, n) \<in> live h \<Longrightarrow> (q, k) \<in> live h \<Longrightarrow>
      (p, n) = (q, k) \<or> region p n \<inter> region q k = {}"
begin

text \<open>Two allocations in a row, both successful, do not overlap.\<close>

lemma alloc_twice:
  assumes "ok h" and "s \<noteq> 0" "unat s + 8 \<le> 2 ^ 32" "alloc h s = Some (h1, p)" "p \<noteq> 0"
    and "t \<noteq> 0" "unat t + 8 \<le> 2 ^ 32" "alloc h1 t = Some (h2, q)" "q \<noteq> 0"
  shows "region p (unat s) \<inter> region q (unat t) = {}"
proof -
  have ok1: "ok h1" and ok2: "ok h2" using assms alloc_ok by blast+
  obtain n where n: "unat s \<le> n" "live h1 = insert (p, n) (live h)"
    using alloc_live [OF assms(1-5)] by blast
  obtain k where k: "unat t \<le> k" "(q, k) \<notin> live h1" "live h2 = insert (q, k) (live h1)"
    using alloc_live [OF ok1 assms(6-9)] by blast
  have "(p, n) \<noteq> (q, k)" using n(2) k(2) by auto
  then have "region p n \<inter> region q k = {}"
    using live_disjoint [OF ok2, of p n q k] n(2) k(3) by auto
  moreover have "region p (unat s) \<subseteq> region p n" "region q (unat t) \<subseteq> region q k"
    using n(1) k(1) by (auto simp: region_def)
  ultimately show ?thesis by blast
qed

text \<open>Releasing what was just allocated gives back the live set.\<close>

lemma alloc_free:
  assumes "ok h" and "s \<noteq> 0" "unat s + 8 \<le> 2 ^ 32" "alloc h s = Some (h', p)" "p \<noteq> 0"
  shows "ok (free h' p) \<and> live (free h' p) = live h"
proof -
  have ok': "ok h'" using assms alloc_ok by blast
  obtain n where n: "(p, n) \<notin> live h" "live h' = insert (p, n) (live h)"
    using alloc_live [OF assms] by blast
  then have "(p, n) \<in> live h'" by simp
  with free_live [OF ok' this] free_ok [OF ok' this] n show ?thesis by auto
qed

end

section \<open>The kernel heap is an allocator\<close>

definition heap_ok :: "heap_state \<Rightarrow> bool" where
  "heap_ok h \<longleftrightarrow> (\<exists>bs hi. heap_inv h bs hi \<and> coalesced bs \<and> (\<forall>b \<in> set bs. \<not> bfree b \<longrightarrow> bsize b \<noteq> 0))"

definition heap_live :: "heap_state \<Rightarrow> (u32 \<times> nat) set" where
  "heap_live h = {(baddr b + 20, unat (bsize b)) | b. \<exists>bs hi. heap_inv h bs hi \<and> b \<in> set bs \<and> \<not> bfree b}"

lemma lseg_unique:
  "lseg m pv bs 0 \<Longrightarrow> lseg m pv bs' 0 \<Longrightarrow> first_addr bs 0 = first_addr bs' 0 \<Longrightarrow>
    (\<And>b. b \<in> set bs \<union> set bs' \<Longrightarrow> baddr b \<noteq> 0) \<Longrightarrow> bs = bs'"
proof (induction bs arbitrary: pv bs')
  case Nil
  then show ?case by (cases bs') auto
next
  case (Cons b bs)
  then obtain c cs where bs': "bs' = c # cs" by (cases bs') auto
  have "b = c" using Cons.prems(1-3) by (simp add: bs' hdr_ok_def)
  moreover have "bs = cs"
    using Cons.prems \<open>b = c\<close> by (intro Cons.IH [of "baddr b"]) (auto simp: bs' hdr_ok_def)
  ultimately show ?case by (simp add: bs')
qed

lemma heap_inv_unique:
  assumes "heap_inv h bs hi" and "heap_inv h bs' hi'"
  shows "bs = bs'"
proof -
  have nz: "baddr b \<noteq> 0" if "heap_inv h cs k" "b \<in> set cs" for cs k b
    using that tiles_bounds [of "unat (heap_start h)" cs k b] by (auto simp: heap_inv_def)
  have fa: "first_addr cs 0 = block_head h" if "heap_inv h cs k" for cs k
    using that by (cases cs) (auto simp: heap_inv_def)
  show ?thesis
  proof (rule lseg_unique [of "hmem h" 0])
    show "first_addr bs 0 = first_addr bs' 0" using fa [OF assms(1)] fa [OF assms(2)] by simp
    show "baddr b \<noteq> 0" if "b \<in> set bs \<union> set bs'" for b using that nz assms by blast
  qed (use assms in \<open>simp_all add: heap_inv_def\<close>)
qed

lemma heap_live_eq:
  assumes "heap_inv h bs hi"
  shows "heap_live h = (\<lambda>b. (baddr b + 20, unat (bsize b))) ` {b \<in> set bs. \<not> bfree b}"
  using assms heap_inv_unique [OF assms] unfolding heap_live_def by blast

lemma data_bytes_region: "data_bytes b = region (baddr b + 20) (unat (bsize b))"
  by (simp add: data_bytes_def region_def)

lemma data_bytes_disjoint:
  assumes "tiles lo bs hi" and "hi \<le> 2 ^ 32" and "b \<in> set bs" "c \<in> set bs" "b \<noteq> c"
  shows "data_bytes b \<inter> data_bytes c = {}"
proof -
  have in_range: "unat (baddr d) + 20 \<le> unat x \<and> unat x < unat (baddr d) + 20 + unat (bsize d)"
    if "d \<in> set bs" "x \<in> data_bytes d" for d x
  proof -
    have bd: "unat (baddr d) + 20 + unat (bsize d) \<le> 2 ^ 32"
      using tiles_bounds [OF assms(1) that(1)] assms(2) by linarith
    have "0 < unat (bsize d)" using that(2) by (auto simp: data_bytes_def)
    then have "unat (baddr d + 20) = unat (baddr d) + 20"
      using unat_add_of_nat [of "baddr d" 20] bd by simp
    then show ?thesis
      using unat_in_region [of x "baddr d + 20" "unat (bsize d)"] that(2) bd by (simp add: data_bytes_def)
  qed
  show ?thesis
    using tiles_apart [OF assms(1,3,4)] assms(5) in_range [OF assms(3)] in_range [OF assms(4)] by force
qed

definition used_blks :: "blk list \<Rightarrow> blk set" where
  "used_blks bs = {b \<in> set bs. \<not> bfree b}"

lemma used_carve:
  assumes "bfree b" and "sz \<le> bsize b"
  obtains c where "baddr c = baddr b" "\<not> bfree c" "sz \<le> bsize c"
    "used_blks (xs @ carve b sz @ ys) = insert c (used_blks (xs @ b # ys))"
proof (cases "unat sz + 36 \<le> unat (bsize b)")
  case True
  show ?thesis
    by (rule that [of "b\<lparr>bsize := sz, bfree := False\<rparr>"])
      (use True assms in \<open>auto simp: carve_def used_blks_def\<close>)
next
  case False
  show ?thesis
    by (rule that [of "b\<lparr>bfree := False\<rparr>"])
      (use False assms in \<open>auto simp: carve_def used_blks_def\<close>)
qed

lemma used_release: "used_blks (release xs b ys) = used_blks (xs @ ys)"
proof (cases xs rule: rev_cases)
  case Nil
  then show ?thesis by (cases ys) (auto simp: release_def Let_def used_blks_def merge_blk_def)
next
  case (snoc xs' p)
  then show ?thesis by (cases ys) (auto simp: release_def Let_def used_blks_def merge_blk_def)
qed

abbreviation blk_region :: "blk \<Rightarrow> u32 \<times> nat" where
  "blk_region b \<equiv> (baddr b + 20, unat (bsize b))"

lemma heap_live_used: "heap_inv h bs hi \<Longrightarrow> heap_live h = blk_region ` used_blks bs"
  by (simp add: heap_live_eq used_blks_def)

lemma heap_okI:
  "heap_inv h bs hi \<Longrightarrow> coalesced bs \<Longrightarrow> (\<And>b. b \<in> used_blks bs \<Longrightarrow> bsize b \<noteq> 0) \<Longrightarrow> heap_ok h"
  by (auto simp: heap_ok_def used_blks_def)

lemma kmalloc_ok_cases:
  assumes ok: "heap_ok h" and sz: "sz \<noteq> 0" "unat sz + 8 \<le> 2 ^ 32"
  obtains "kmalloc h sz = Some (h, 0)"
  | h' c bs bs' hi where "kmalloc h sz = Some (h', baddr c + 20)" "baddr c + 20 \<noteq> 0" "heap_ok h'"
      "heap_inv h bs hi" "heap_inv h' bs' hi" "c \<in> used_blks bs'" "unat sz \<le> unat (bsize c)"
      "baddr c \<notin> baddr ` used_blks bs" "used_blks bs' = insert c (used_blks bs)"
      "\<forall>d \<in> set bs'. \<forall>x \<in> data_bytes d. hmem h' x = hmem h x"
proof -
  let ?sz = "ALIGN_UP sz 8"
  obtain bs hi where inv: "heap_inv h bs hi" and co: "coalesced bs" and pos: "\<forall>b \<in> used_blks bs. bsize b \<noteq> 0"
    using ok by (auto simp: heap_ok_def used_blks_def)
  obtain h' p where k: "kmalloc h sz = Some (h', p)"
    and res: "case first_fit ?sz bs of None \<Rightarrow> h' = h \<and> p = 0 \<and> (\<forall>b \<in> set bs. bfree b \<longrightarrow> bsize b < ?sz)
     | Some (bs', q) \<Rightarrow> p = q \<and> p \<noteq> 0 \<and> heap_inv h' bs' hi \<and>
         (\<forall>c \<in> set bs'. \<forall>x \<in> data_bytes c. hmem h' x = hmem h x)"
    using kmalloc_refines [OF inv sz] by blast
  show thesis
  proof (cases "first_fit ?sz bs")
    case None
    with k res that(1) show ?thesis by simp
  next
    case (Some r)
    obtain bs' where r: "r = (bs', p)" and R: "p \<noteq> 0" "heap_inv h' bs' hi"
      "\<forall>c \<in> set bs'. \<forall>x \<in> data_bytes c. hmem h' x = hmem h x"
      using Some res by (cases r) auto
    from Some r obtain xs b ys where ff: "bs = xs @ b # ys" "bfree b" "?sz \<le> bsize b"
      "bs' = xs @ carve b ?sz @ ys" "p = baddr b + 20" by (auto elim: first_fit_Some)
    obtain c where c: "baddr c = baddr b" "\<not> bfree c" "?sz \<le> bsize c"
      "used_blks bs' = insert c (used_blks bs)"
      using used_carve [OF ff(2,3)] unfolding ff(1,4) by metis
    have cin: "c \<in> used_blks bs'" using c(4) by simp
    have szc: "unat sz \<le> unat (bsize c)"
      using c(3) ALIGN_UP_8(2) [OF sz(2)] by (simp add: word_le_nat_alt)
    then have "bsize c \<noteq> 0" using sz(1) by (auto simp: unat_eq_zero)
    then have "heap_ok h'"
      using R(2) coalesced_carve [of xs b ys ?sz] co ff pos c(4) by (intro heap_okI [of h' bs' hi]) auto
    moreover have "baddr c \<notin> baddr ` used_blks bs"
      using tiles_distinct [of "unat (heap_start h)" bs hi] inv ff(2) c(1)
      by (auto simp: heap_inv_def ff(1) used_blks_def dest: notin_image_neq)
    ultimately show ?thesis
      using that(2) [of h' c bs hi bs'] k inv R c cin szc ff(5) by simp
  qed
qed

lemma kfree_ok_cases:
  assumes ok: "heap_ok h" and pn: "(p, n) \<in> heap_live h"
  obtains xs b ys hi where "heap_inv h (xs @ b # ys) hi" "p = baddr b + 20" "n = unat (bsize b)"
    "heap_inv (kfree h p) (release xs b ys) hi" "heap_ok (kfree h p)" "\<not> bfree b"
    "\<forall>c \<in> set (xs @ b # ys). \<forall>x \<in> data_bytes c. hmem (kfree h p) x = hmem h x"
proof -
  obtain bs hi where inv: "heap_inv h bs hi" and co: "coalesced bs" and pos: "\<forall>b \<in> used_blks bs. bsize b \<noteq> 0"
    using ok by (auto simp: heap_ok_def used_blks_def)
  from pn obtain b where b: "b \<in> used_blks bs" "p = baddr b + 20" "n = unat (bsize b)"
    unfolding heap_live_used [OF inv] by auto
  then obtain xs ys where bs: "bs = xs @ b # ys" using split_list [of b bs] by (auto simp: used_blks_def)
  have nf: "\<not> bfree b" using b(1) by (simp add: used_blks_def)
  have sz: "0 < unat (bsize b)" using pos b(1) by (auto simp: unat_gt_0)
  note R = kfree_refines [OF inv [unfolded bs] sz]
  have "heap_ok (kfree h p)"
  proof (rule heap_okI)
    show "heap_inv (kfree h p) (release xs b ys) hi" using R b(2) by simp
    show "coalesced (release xs b ys)" using co nf by (intro coalesced_release) (simp_all add: bs)
    show "bsize c \<noteq> 0" if "c \<in> used_blks (release xs b ys)" for c
      using that pos unfolding used_release by (auto simp: bs used_blks_def)
  qed
  then show thesis using that [of xs b ys hi] inv R b nf by (simp add: bs)
qed

lemma heap_live_disjoint:
  assumes ok: "heap_ok h" and "(p, n) \<in> heap_live h" and "(q, k) \<in> heap_live h"
  shows "(p, n) = (q, k) \<or> region p n \<inter> region q k = {}"
proof -
  obtain bs hi where inv: "heap_inv h bs hi" using ok by (auto simp: heap_ok_def)
  obtain b c where b: "b \<in> set bs" "(p, n) = blk_region b" and c: "c \<in> set bs" "(q, k) = blk_region c"
    using assms(2,3) unfolding heap_live_used [OF inv] by (auto simp: used_blks_def)
  show ?thesis
  proof (cases "b = c")
    case False
    then have "data_bytes b \<inter> data_bytes c = {}"
      using data_bytes_disjoint [of "unat (heap_start h)" bs hi b c] inv b(1) c(1)
      by (simp add: heap_inv_def)
    then show ?thesis using b(2) c(2) by (simp add: data_bytes_region)
  qed (use b c in simp)
qed

lemma kmalloc_live:
  assumes ok: "heap_ok h" and sz: "sz \<noteq> 0" "unat sz + 8 \<le> 2 ^ 32" and k: "kmalloc h sz = Some (h', p)"
    and p: "p \<noteq> 0"
  shows "\<exists>n. unat sz \<le> n \<and> (p, n) \<notin> heap_live h \<and> heap_live h' = insert (p, n) (heap_live h)"
proof (rule kmalloc_ok_cases [OF ok sz])
  fix h2 c bs bs' hi
  assume a: "kmalloc h sz = Some (h2, baddr c + 20)" "heap_inv h bs hi" "heap_inv h2 bs' hi"
    "unat sz \<le> unat (bsize c)" "baddr c \<notin> baddr ` used_blks bs" "used_blks bs' = insert c (used_blks bs)"
  have "heap_live h' = insert (blk_region c) (heap_live h)"
    using a k heap_live_used [OF a(2)] heap_live_used [OF a(3)] by simp
  moreover have "blk_region c \<notin> heap_live h"
    using a(5) unfolding heap_live_used [OF a(2)] by force
  ultimately show ?thesis using a(1,4) k by auto
qed (use k p in simp)

lemma kmalloc_memory:
  assumes ok: "heap_ok h" and sz: "sz \<noteq> 0" "unat sz + 8 \<le> 2 ^ 32" and k: "kmalloc h sz = Some (h', p)"
    and q: "(q, n) \<in> heap_live h" "x \<in> region q n"
  shows "hmem h' x = hmem h x"
proof (rule kmalloc_ok_cases [OF ok sz])
  fix h2 c bs bs' hi
  assume a: "kmalloc h sz = Some (h2, baddr c + 20)" "heap_inv h bs hi"
    "used_blks bs' = insert c (used_blks bs)"
    "\<forall>d \<in> set bs'. \<forall>x \<in> data_bytes d. hmem h2 x = hmem h x"
  from q obtain d where "d \<in> used_blks bs'" "x \<in> data_bytes d"
    unfolding heap_live_used [OF a(2)] a(3) by (auto simp: data_bytes_region)
  then show ?thesis using a(1,4) k by (auto simp: used_blks_def)
qed (use k in simp)

lemma kfree_ok: "heap_ok h \<Longrightarrow> (p, n) \<in> heap_live h \<Longrightarrow> heap_ok (kfree h p)"
  by (rule kfree_ok_cases)

lemma kfree_live:
  assumes ok: "heap_ok h" and pn: "(p, n) \<in> heap_live h"
  shows "heap_live (kfree h p) = heap_live h - {(p, n)}"
proof (rule kfree_ok_cases [OF ok pn])
  fix xs b ys hi
  assume a: "heap_inv h (xs @ b # ys) hi" "p = baddr b + 20" "n = unat (bsize b)"
    "heap_inv (kfree h p) (release xs b ys) hi" "\<not> bfree b"
  have "distinct (map baddr (xs @ b # ys))"
    using tiles_distinct [of "unat (heap_start h)" "xs @ b # ys" hi] a(1) by (simp add: heap_inv_def)
  then have "blk_region b \<notin> blk_region ` used_blks (xs @ ys)"
    by (auto simp: used_blks_def dest: notin_image_neq)
  moreover have "used_blks (xs @ b # ys) = insert b (used_blks (xs @ ys))"
    using a(5) by (auto simp: used_blks_def)
  ultimately show ?thesis
    unfolding heap_live_used [OF a(1)] heap_live_used [OF a(4)] used_release by (simp add: a(2,3))
qed

lemma kfree_memory:
  assumes ok: "heap_ok h" and pn: "(p, n) \<in> heap_live h" and qk: "(q, k) \<in> heap_live h"
    and x: "x \<in> region q k"
  shows "hmem (kfree h p) x = hmem h x"
proof (rule kfree_ok_cases [OF ok pn])
  fix xs b ys hi
  assume a: "heap_inv h (xs @ b # ys) hi"
    "\<forall>c \<in> set (xs @ b # ys). \<forall>x \<in> data_bytes c. hmem (kfree h p) x = hmem h x"
  from qk obtain c where "c \<in> set (xs @ b # ys)" "(q, k) = blk_region c"
    unfolding heap_live_used [OF a(1)] by (auto simp: used_blks_def)
  then show ?thesis using a(2) x by (auto simp: data_bytes_region)
qed

interpretation kheap: allocator kmalloc kfree hmem heap_live heap_ok
proof unfold_locales
  fix h :: heap_state and sz :: u32 and h' p
  assume ok: "heap_ok h" and sz: "sz \<noteq> 0" "unat sz + 8 \<le> 2 ^ 32"
  show "\<exists>h' p. kmalloc h sz = Some (h', p)" by (rule kmalloc_ok_cases [OF ok sz]) auto
  show "heap_ok h'" if "kmalloc h sz = Some (h', p)"
    by (rule kmalloc_ok_cases [OF ok sz]) (use that ok in auto)
  show "h' = h" if "kmalloc h sz = Some (h', 0)"
    by (rule kmalloc_ok_cases [OF ok sz]) (use that in auto)
qed (rule kmalloc_live kmalloc_memory kfree_ok kfree_live kfree_memory heap_live_disjoint; assumption)+

section \<open>Initialisation\<close>

lemma hsep_self: "aligned4 a \<Longrightarrow> unat a + 20 \<le> 2 ^ 32 \<Longrightarrow> hsep a a"
  by (simp add: hsep_def)

lemma heap_init_inv:
  assumes "unat start_addr + 16 \<le> 2 ^ 32" and "32 \<le> unat (ALIGN_UP start_addr 16)"
    and "20 \<le> unat sz" and "unat (ALIGN_UP start_addr 16) + unat sz \<le> 2 ^ 32"
  shows "heap_inv (heap_init h start_addr sz)
      [\<lparr>baddr = ALIGN_UP start_addr 16, bsize = sz - 20, bfree = True\<rparr>]
      (unat (ALIGN_UP start_addr 16) + unat sz)
    \<and> heap_ok (heap_init h start_addr sz) \<and> heap_live (heap_init h start_addr sz) = {}"
proof -
  let ?st = "ALIGN_UP start_addr 16" and ?h = "heap_init h start_addr sz"
  let ?b = "\<lparr>baddr = ?st, bsize = sz - 20, bfree = True\<rparr>"
  have "16 dvd unat ?st" using ALIGN_UP_props(1) [of start_addr 4] assms(1) by simp
  then have a: "4 dvd unat ?st" by (rule dvd_trans [rotated]) simp
  have sz: "unat (sz - 20) = unat sz - 20" using assms(3) by (simp add: unat_sub_if_size)
  have "hsep ?st ?st" using a assms(3,4) by (intro hsep_self) (simp_all add: aligned4_def)
  then have "lseg (hmem ?h) 0 [?b] 0"
    by (simp add: hdr_ok_def heap_init_def Let_def get_set_hdr)
  then have inv: "heap_inv ?h [?b] (unat ?st + unat sz)"
    using a sz assms by (simp add: heap_inv_def) (simp add: heap_init_def Let_def)
  then show ?thesis
    using heap_live_used [OF inv] by (auto intro!: heap_okI [OF inv] simp: coalesced_def used_blks_def)
qed

section \<open>Statistics\<close>

lemma heap_stats_loop_sums:
  assumes "lseg m pv bs 0" and "\<And>b. b \<in> set bs \<Longrightarrow> baddr b \<noteq> 0"
  shows "heap_stats_loop m u f (first_addr bs 0) =
    Some (u + sum_list (map bsize (filter (\<lambda>b. \<not> bfree b) bs)), f + sum_list (map bsize (filter bfree bs)))"
  using assms
proof (induction bs arbitrary: pv u f)
  case Nil
  then show ?case by (simp add: heap_stats_loop.simps)
next
  case (Cons b bs)
  then have h: "hdr_ok m b pv (first_addr bs 0)" "lseg m (baddr b) bs 0" "baddr b \<noteq> 0" by auto
  have "heap_stats_loop m u f (baddr b) =
      heap_stats_loop m (if bfree b then u else u + bsize b) (if bfree b then f + bsize b else f) (first_addr bs 0)"
    using h by (simp add: heap_stats_loop.simps [of m u f "baddr b"] hdr_ok_def)
  then show ?case using Cons.IH [OF h(2)] Cons.prems(2) by (simp add: add.assoc)
qed

lemma tiles_sum:
  "tiles lo bs hi \<Longrightarrow> hi = lo + 20 * length bs +
     (\<Sum>b \<leftarrow> filter (\<lambda>b. \<not> bfree b) bs. unat (bsize b)) + (\<Sum>b \<leftarrow> filter bfree bs. unat (bsize b))"
proof (induction bs arbitrary: lo)
  case (Cons b bs)
  have "tiles (lo + 20 + unat (bsize b)) bs hi" using Cons.prems by simp
  from Cons.IH [OF this] show ?case by (cases "bfree b") simp_all
qed simp

lemma sum_list_bound_u32:
  "(\<Sum>b \<leftarrow> bs. unat (f b :: u32)) < 2 ^ 32 \<Longrightarrow> unat (sum_list (map f bs)) = (\<Sum>b \<leftarrow> bs. unat (f b))"
proof (induction bs)
  case (Cons b bs)
  then have "unat (f b) + unat (sum_list (map f bs)) < 2 ^ 32" by simp
  then show ?case using Cons by (simp add: unat_word_ariths)
qed simp

text \<open>\<open>heap_stats\<close> accounts for every byte: on a well-formed heap it returns, and the used and
  free sizes it reports, with one header per block, add up to the heap area.\<close>

theorem heap_stats_accounts:
  assumes inv: "heap_inv h bs hi"
  shows "\<exists>u f. heap_stats h = Some (heap_total_size h, u, f) \<and>
    unat u = (\<Sum>b \<leftarrow> filter (\<lambda>b. \<not> bfree b) bs. unat (bsize b)) \<and>
    unat f = (\<Sum>b \<leftarrow> filter bfree bs. unat (bsize b)) \<and>
    unat (heap_start h) + unat u + unat f + 20 * length bs = hi"
proof -
  have I: "lseg (hmem h) 0 bs 0" "tiles (unat (heap_start h)) bs hi" "hi \<le> 2 ^ 32"
    "32 \<le> unat (heap_start h)" "bs \<noteq> []" "block_head h = baddr (hd bs)"
    using inv by (auto simp: heap_inv_def)
  have nz: "baddr b \<noteq> 0" if "b \<in> set bs" for b
    using tiles_bounds [OF I(2) that] I(4) by auto
  have hd: "first_addr bs 0 = block_head h" using I(5,6) by (cases bs) auto
  let ?u = "sum_list (map bsize (filter (\<lambda>b. \<not> bfree b) bs))" and ?f = "sum_list (map bsize (filter bfree bs))"
  have st: "heap_stats h = Some (heap_total_size h, ?u, ?f)"
    using heap_stats_loop_sums [OF I(1) nz, of 0 0] by (simp add: heap_stats_def hd)
  have sum: "hi = unat (heap_start h) + 20 * length bs +
     (\<Sum>b \<leftarrow> filter (\<lambda>b. \<not> bfree b) bs. unat (bsize b)) + (\<Sum>b \<leftarrow> filter bfree bs. unat (bsize b))"
    by (rule tiles_sum [OF I(2)])
  have "unat ?u = (\<Sum>b \<leftarrow> filter (\<lambda>b. \<not> bfree b) bs. unat (bsize b))"
    and "unat ?f = (\<Sum>b \<leftarrow> filter bfree bs. unat (bsize b))"
    using sum I(3,4) by (intro sum_list_bound_u32; linarith)+
  with st sum show ?thesis by simp
qed

section \<open>Writing to live allocations\<close>

text \<open>What a client does with its memory does not disturb the allocator.\<close>

locale writable_allocator = allocator alloc free memory live ok
  for alloc :: "'h \<Rightarrow> u32 \<Rightarrow> ('h \<times> u32) option" and free memory live ok +
  fixes with_memory :: "'h \<Rightarrow> mem \<Rightarrow> 'h"
  assumes memory_with: "memory (with_memory h m) = m"
    and write_ok: "ok h \<Longrightarrow> (p, n) \<in> live h \<Longrightarrow> (\<And>x. x \<notin> region p n \<Longrightarrow> m x = memory h x) \<Longrightarrow>
      ok (with_memory h m) \<and> live (with_memory h m) = live h"
begin

text \<open>An allocation filled by its owner and released again leaves the other contents alone.\<close>

lemma write_free:
  assumes "ok h" and "(p, n) \<in> live h" and "(\<And>x. x \<notin> region p n \<Longrightarrow> m x = memory h x)"
    and "(q, k) \<in> live h" and "(q, k) \<noteq> (p, n)" and "x \<in> region q k"
  shows "memory (free (with_memory h m) p) x = memory h x"
proof -
  have w: "ok (with_memory h m)" "live (with_memory h m) = live h" using write_ok assms(1-3) by blast+
  have "x \<notin> region p n" using live_disjoint [OF assms(1,2,4)] assms(5,6) by auto
  then show ?thesis
    using free_memory [OF w(1), of p n q k x] w(2) assms(2-4,6) by (simp add: memory_with)
qed

end

lemma ld32_hdr_cong:
  assumes "\<And>x. x \<in> hdr_bytes a \<Longrightarrow> m' x = m x" and "i + 4 \<le> 20"
  shows "ld32 m' (a + of_nat i) = ld32 m (a + of_nat i)"
proof (rule ld32_cong)
  fix x assume "unat (x - (a + of_nat i)) < 4"
  then have "unat (x - a) < i + 4"
    using word_region_shift [of i 4 "x - a"] assms(2) by (simp add: diff_diff_eq)
  then show "m' x = m x" using assms by (simp add: hdr_bytes_def)
qed

lemma same_hdr_cong:
  assumes "\<And>x. x \<in> hdr_bytes a \<Longrightarrow> m' x = m x"
  shows "same_hdr m m' a"
proof -
  have "ld32 m' (a + of_nat i) = ld32 m (a + of_nat i)" if "i + 4 \<le> 20" for i
    using assms that by (rule ld32_hdr_cong)
  from this [of 0] this [of 4] this [of 8] this [of 12] this [of 16]
  show ?thesis by (simp add: same_hdr_def hdr_defs)
qed

lemma heap_inv_write:
  assumes "heap_inv h bs hi" and "\<And>b x. b \<in> set bs \<Longrightarrow> x \<in> hdr_bytes (baddr b) \<Longrightarrow> m x = hmem h x"
  shows "heap_inv (h\<lparr>hmem := m\<rparr>) bs hi"
proof -
  have "lseg m 0 bs 0"
    using assms lseg_frame [of "hmem h" 0 bs 0 m] same_hdr_cong by (simp add: heap_inv_def)
  then show ?thesis using assms(1) by (auto simp: heap_inv_def)
qed

lemma live_write_ok:
  assumes ok: "heap_ok h" and pn: "(p, n) \<in> heap_live h" and m: "\<And>x. x \<notin> region p n \<Longrightarrow> m x = hmem h x"
  shows "heap_ok (h\<lparr>hmem := m\<rparr>) \<and> heap_live (h\<lparr>hmem := m\<rparr>) = heap_live h"
proof -
  obtain bs hi where inv: "heap_inv h bs hi" and co: "coalesced bs" and pos: "\<forall>b \<in> used_blks bs. bsize b \<noteq> 0"
    using ok by (auto simp: heap_ok_def used_blks_def)
  from pn obtain b where b: "b \<in> set bs" "(p, n) = blk_region b"
    unfolding heap_live_used [OF inv] by (auto simp: used_blks_def)
  have "heap_inv (h\<lparr>hmem := m\<rparr>) bs hi"
  proof (rule heap_inv_write [OF inv])
    fix c x assume c: "c \<in> set bs" and x: "x \<in> hdr_bytes (baddr c)"
    have "x \<notin> data_bytes b"
      using data_not_hdr [of "unat (heap_start h)" bs hi b c x] inv b(1) c x by (auto simp: heap_inv_def)
    then show "m x = hmem h x" using m b(2) by (simp add: data_bytes_region)
  qed
  with co pos inv show ?thesis by (auto intro: heap_okI simp: heap_live_used)
qed

interpretation wheap: writable_allocator kmalloc kfree hmem heap_live heap_ok "\<lambda>h m. h\<lparr>hmem := m\<rparr>"
  by unfold_locales (simp, rule live_write_ok)

lemma heap_live_bounds:
  assumes "heap_ok h" and "(p, n) \<in> heap_live h"
  shows "52 \<le> unat p \<and> unat p + n \<le> 2 ^ 32 \<and> 0 < n \<and> aligned4 p"
proof -
  obtain bs hi where inv: "heap_inv h bs hi" and pos: "\<forall>b \<in> used_blks bs. bsize b \<noteq> 0"
    using assms(1) by (auto simp: heap_ok_def used_blks_def)
  obtain b where b: "b \<in> set bs" "p = baddr b + 20" "n = unat (bsize b)" "bsize b \<noteq> 0"
    using assms(2) pos unfolding heap_live_used [OF inv] by (auto simp: used_blks_def)
  have bd: "unat (heap_start h) \<le> unat (baddr b)" "unat (baddr b) + 20 + n \<le> hi" "4 dvd unat (baddr b)"
    using tiles_bounds [of _ bs hi b] inv b(1,3) by (auto simp: heap_inv_def)
  have "0 < n" using b by (simp add: unat_gt_0)
  then have "unat p = unat (baddr b) + 20"
    using unat_add_of_nat [of "baddr b" 20] bd(2) inv b(2) by (simp add: heap_inv_def)
  then show ?thesis using bd \<open>0 < n\<close> inv by (auto simp: heap_inv_def aligned4_def)
qed

section \<open>Aligned and zeroed allocation\<close>

lemma region_sub:
  assumes "unat p \<le> unat q" and "unat q + k \<le> unat p + n" and "unat p + n \<le> 2 ^ 32"
  shows "region q k \<subseteq> region p n"
proof
  fix x assume "x \<in> region q k"
  then have "unat q \<le> unat x \<and> unat x < unat q + k"
    using unat_in_region [of x q k] assms by (simp add: region_def)
  then have "unat p \<le> unat x" and "unat x < unat p + n" using assms by linarith+
  then show "x \<in> region p n" by (auto simp: region_def unat_sub_if_size)
qed

lemma ALIGN_UP_in_allocation:
  assumes "unat raw + unat sz + 2 ^ k + 4 \<le> 2 ^ 32" and "2 \<le> k" and "k < 32"
  shows "2 ^ k dvd unat (ALIGN_UP (raw + 4) (2 ^ k))"
    and "unat raw + 4 \<le> unat (ALIGN_UP (raw + 4) (2 ^ k))"
    and "unat (ALIGN_UP (raw + 4) (2 ^ k)) + unat sz \<le> unat raw + unat sz + 2 ^ k + 4"
proof -
  have "(0 :: nat) < 2 ^ k" by simp
  then have "unat raw + 4 < 2 ^ 32" using assms(1) by linarith
  then have r: "unat (raw + 4) = unat raw + 4" using unat_add_of_nat [of raw 4] by simp
  have "unat (raw + 4) + 2 ^ k \<le> 2 ^ 32" using r assms(1) by linarith
  note A = ALIGN_UP_props [OF this assms(3)]
  show "2 ^ k dvd unat (ALIGN_UP (raw + 4) (2 ^ k))" by (rule A(1))
  show "unat raw + 4 \<le> unat (ALIGN_UP (raw + 4) (2 ^ k))" using A(2) r by simp
  show "unat (ALIGN_UP (raw + 4) (2 ^ k)) + unat sz \<le> unat raw + unat sz + 2 ^ k + 4"
    using A(3) r by linarith
qed

text \<open>For a power-of-two alignment above 8, \<open>kmalloc_aligned\<close> returns, and what it returns is
  aligned, lies with all its requested bytes inside one fresh allocation, carries that
  allocation's address in the word before it (where \<open>kfree\<close> looks for it), and leaves the contents
  of every earlier allocation as they were.\<close>

theorem kmalloc_aligned_ok:
  assumes ok: "heap_ok h" and k: "4 \<le> k" "k < 32" and sz: "unat sz + 2 ^ k + 12 \<le> 2 ^ 32"
  shows "\<exists>h' p. kmalloc_aligned h sz (2 ^ k) = Some (h', p) \<and> heap_ok h' \<and> (p = 0 \<longrightarrow> h' = h) \<and>
    (p \<noteq> 0 \<longrightarrow> 2 ^ k dvd unat p \<and>
      (\<exists>raw n. heap_live h' = insert (raw, n) (heap_live h) \<and> region p (unat sz) \<subseteq> region raw n \<and>
        ld32 (hmem h') (p - 4) = raw) \<and>
      (\<forall>(q, n) \<in> heap_live h. \<forall>x \<in> region q n. hmem h' x = hmem h x))"
proof -
  let ?t = "sz + 2 ^ k + 4"
  have "unat (sz + 2 ^ k) = unat sz + 2 ^ k"
    using unat_power2 [OF k(2)] sz by (simp add: unat_word_ariths)
  then have t: "unat ?t = unat sz + 2 ^ k + 4" using sz by (simp add: unat_word_ariths)
  have t0: "?t \<noteq> 0" using t by (metis add_is_0 unat_0 zero_neq_numeral)
  have t8: "unat ?t + 8 \<le> 2 ^ 32" using t sz by simp
  have big: "\<not> (2 :: u32) ^ k \<le> 8"
    using unat_power2 [OF k(2)] power_increasing [OF k(1), of "2 :: nat"] by (simp add: word_le_nat_alt)
  obtain h1 raw where m: "kmalloc h ?t = Some (h1, raw)" using kheap.alloc_returns [OF ok t0 t8] by blast
  show ?thesis
  proof (cases "raw = 0")
    case True
    then show ?thesis
      using m big ok kheap.alloc_fails [OF ok t0 t8, of h1] by (simp add: kmalloc_aligned_def)
  next
    case False
    define p where "p = ALIGN_UP (raw + 4) (2 ^ k)"
    have ok1: "heap_ok h1" by (rule kheap.alloc_ok [OF ok t0 t8 m])
    obtain n where n: "unat ?t \<le> n" "(raw, n) \<notin> heap_live h" "heap_live h1 = insert (raw, n) (heap_live h)"
      using kheap.alloc_live [OF ok t0 t8 m False] by blast
    have bd: "unat raw + n \<le> 2 ^ 32" using heap_live_bounds [OF ok1, of raw n] n(3) by simp
    have fits: "unat raw + unat sz + 2 ^ k + 4 \<le> 2 ^ 32" using bd n(1) t by linarith
    have k2: "2 \<le> k" using k(1) by simp
    note A = ALIGN_UP_in_allocation [OF fits k2 k(2), folded p_def]
    have p4: "unat (p - 4) = unat p - 4" using A(2) by (simp add: unat_sub_if_size)
    let ?m = "st32 (hmem h1) (p - 4) raw"
    have slot: "region (p - 4) 4 \<subseteq> region raw n"
      using A p4 n(1) t bd by (intro region_sub) linarith+
    have outside: "?m x = hmem h1 x" if "x \<notin> region raw n" for x
      using that slot by (intro st32_outside) (auto simp: region_def)
    have W: "heap_ok (h1\<lparr>hmem := ?m\<rparr>)" "heap_live (h1\<lparr>hmem := ?m\<rparr>) = heap_live h1"
      using wheap.write_ok [OF ok1, of raw n ?m] outside n(3) by auto
    have "hmem (h1\<lparr>hmem := ?m\<rparr>) x = hmem h x" if q: "(q, l) \<in> heap_live h" "x \<in> region q l" for q l x
    proof -
      have "x \<notin> region raw n"
        using kheap.live_disjoint [OF ok1, of q l raw n] q n(2,3) by auto
      then show ?thesis using outside kheap.alloc_memory [OF ok t0 t8 m q] by simp
    qed
    moreover have "region p (unat sz) \<subseteq> region raw n"
      using A n(1) t bd by (intro region_sub) linarith+
    moreover have "kmalloc_aligned h sz (2 ^ k) = Some (h1\<lparr>hmem := ?m\<rparr>, p)"
      using m big False by (simp add: kmalloc_aligned_def p_def Let_def)
    moreover have "p \<noteq> 0" using A(2) by auto
    ultimately show ?thesis using W A(1) n(3) by auto
  qed
qed

section \<open>Properties of the heap\<close>

text \<open>A heap as the kernel has it after boot, for concrete instances.\<close>

definition boot_heap :: heap_state where
  "boot_heap = heap_init \<lparr>hmem = (\<lambda>_. 0), heap_start = 0, heap_total_size = 0, block_head = 0\<rparr>
     0x200000 0x100000"

lemma boot_heap_inv:
  "heap_inv boot_heap [\<lparr>baddr = 0x200000, bsize = 0xFFFEC, bfree = True\<rparr>] 0x300000"
  "heap_ok boot_heap" "heap_live boot_heap = {}"
proof -
  have a: "ALIGN_UP 0x200000 16 = 0x200000" by (simp add: ALIGN_UP_def)
  have "heap_inv boot_heap [\<lparr>baddr = 0x200000, bsize = 0x100000 - 20, bfree = True\<rparr>] (0x200000 + 0x100000)
    \<and> heap_ok boot_heap \<and> heap_live boot_heap = {}"
    using heap_init_inv [of "0x200000" "0x100000"] unfolding a by (simp add: boot_heap_def)
  then show "heap_inv boot_heap [\<lparr>baddr = 0x200000, bsize = 0xFFFEC, bfree = True\<rparr>] 0x300000"
    "heap_ok boot_heap" "heap_live boot_heap = {}" by simp_all
qed

text \<open>\<open>heap_init\<close> sets up one free block that spans the whole area, from the aligned start.\<close>

theorem heap_init_ok:
  assumes "unat start_addr + 16 \<le> 2 ^ 32" and "32 \<le> unat (ALIGN_UP start_addr 16)"
    and "20 \<le> unat sz" and "unat (ALIGN_UP start_addr 16) + unat sz \<le> 2 ^ 32"
  shows "heap_inv (heap_init h start_addr sz)
      [\<lparr>baddr = ALIGN_UP start_addr 16, bsize = sz - 20, bfree = True\<rparr>]
      (unat (ALIGN_UP start_addr 16) + unat sz)
    \<and> heap_ok (heap_init h start_addr sz) \<and> heap_live (heap_init h start_addr sz) = {}"
  by (rule heap_init_inv [OF assms])

theorem heap_init_ok_witness: "heap_ok (heap_init boot_heap 0x200004 0x1000)"
proof -
  have a: "ALIGN_UP 0x200004 16 = 0x200010" by (simp add: ALIGN_UP_def)
  show ?thesis using heap_init_ok [of "0x200004" "0x1000"] unfolding a by simp
qed



text \<open>C2. Release coalesces. On a well-formed heap, \<open>kfree\<close> of the data address of a block
  marks it free and merges it with a free right and a free left neighbour; the heap stays
  well-formed over the same area, and no byte of any block's data changes.\<close>

theorem kfree_release:
  assumes "heap_inv h (xs @ b # ys) hi" and "0 < unat (bsize b)"
  shows "heap_inv (kfree h (baddr b + 20)) (release xs b ys) hi
    \<and> (\<forall>c \<in> set (xs @ b # ys). \<forall>x \<in> data_bytes c. hmem (kfree h (baddr b + 20)) x = hmem h x)"
  by (rule kfree_refines [OF assms])

theorem kfree_release_witness:
  "heap_inv (kfree boot_heap 0x200014) [\<lparr>baddr = 0x200000, bsize = 0xFFFEC, bfree = True\<rparr>] 0x300000"
  using kfree_release [of boot_heap "[]" _ "[]", unfolded append_Nil, OF boot_heap_inv(1)]
  by (simp add: release_def)

text \<open>Allocations never overlap: two successful calls of \<open>kmalloc\<close> give disjoint regions of at
  least the requested sizes.\<close>

theorem kmalloc_disjoint:
  assumes "heap_ok h" and "s \<noteq> 0" "unat s + 8 \<le> 2 ^ 32" "kmalloc h s = Some (h1, p)" "p \<noteq> 0"
    and "t \<noteq> 0" "unat t + 8 \<le> 2 ^ 32" "kmalloc h1 t = Some (h2, q)" "q \<noteq> 0"
  shows "region p (unat s) \<inter> region q (unat t) = {}"
  using assms by (rule kheap.alloc_twice)

text \<open>\<open>kfree\<close> undoes \<open>kmalloc\<close>: the heap is well-formed again and the live allocations are
  those from before.\<close>

theorem kmalloc_kfree_roundtrip:
  assumes "heap_ok h" and "s \<noteq> 0" "unat s + 8 \<le> 2 ^ 32" "kmalloc h s = Some (h', p)" "p \<noteq> 0"
  shows "heap_ok (kfree h' p) \<and> heap_live (kfree h' p) = heap_live h"
  using assms by (rule kheap.alloc_free)

lemma boot_heap_twice:
  obtains h1 h2 where "kmalloc boot_heap 100 = Some (h1, 0x200014)" "kmalloc h1 50 = Some (h2, 0x200090)"
    "heap_inv h1 [\<lparr>baddr = 0x200000, bsize = 104, bfree = False\<rparr>,
                  \<lparr>baddr = 0x20007C, bsize = 0xFFF70, bfree = True\<rparr>] 0x300000"
proof -
  have a: "ALIGN_UP 100 8 = 104" "ALIGN_UP 50 8 = 56" by (simp_all add: ALIGN_UP_def)
  obtain h1 where h1: "kmalloc boot_heap 100 = Some (h1, 0x200014)"
    and inv1: "heap_inv h1 [\<lparr>baddr = 0x200000, bsize = 104, bfree = False\<rparr>,
                  \<lparr>baddr = 0x20007C, bsize = 0xFFF70, bfree = True\<rparr>] 0x300000"
    using kmalloc_refines [OF boot_heap_inv(1), of 100] unfolding a by (auto simp: carve_def)
  obtain h2 where "kmalloc h1 50 = Some (h2, 0x200090)"
    using kmalloc_refines [OF inv1, of 50] unfolding a by (auto simp: carve_def)
  with h1 inv1 that show thesis by blast
qed

theorem kmalloc_disjoint_witness:
  "\<exists>h1 h2. kmalloc boot_heap 100 = Some (h1, 0x200014) \<and> kmalloc h1 50 = Some (h2, 0x200090) \<and>
    region 0x200014 100 \<inter> region 0x200090 50 = {}"
proof (rule boot_heap_twice)
  fix h1 h2
  assume k: "kmalloc boot_heap 100 = Some (h1, 0x200014)" "kmalloc h1 50 = Some (h2, 0x200090)"
  with kmalloc_disjoint [OF boot_heap_inv(2) _ _ k(1) _ _ _ k(2)] show ?thesis by auto
qed

theorem kmalloc_kfree_roundtrip_witness:
  "\<exists>h1. kmalloc boot_heap 100 = Some (h1, 0x200014) \<and> heap_live (kfree h1 0x200014) = {}"
proof (rule boot_heap_twice)
  fix h1
  assume k: "kmalloc boot_heap 100 = Some (h1, 0x200014)"
  with kmalloc_kfree_roundtrip [OF boot_heap_inv(2) _ _ k] boot_heap_inv(3) show ?thesis by auto
qed

theorem heap_stats_accounts_witness:
  "\<exists>h1. kmalloc boot_heap 100 = Some (h1, 0x200014) \<and>
    (\<exists>u f. heap_stats h1 = Some (heap_total_size h1, u, f) \<and> unat u = 104 \<and> unat f = 0xFFF70)"
proof (rule boot_heap_twice)
  fix h1
  assume k: "kmalloc boot_heap 100 = Some (h1, 0x200014)"
    "heap_inv h1 [\<lparr>baddr = 0x200000, bsize = 104, bfree = False\<rparr>,
                  \<lparr>baddr = 0x20007C, bsize = 0xFFF70, bfree = True\<rparr>] 0x300000"
  show ?thesis using heap_stats_accounts [OF k(2)] k(1) by auto
qed

theorem kmalloc_aligned_ok_witness:
  "\<exists>h' p. kmalloc_aligned boot_heap 4096 (2 ^ 12) = Some (h', p) \<and> heap_ok h'"
proof -
  have "(2 :: nat) ^ 12 = 4096" by simp
  then show ?thesis using kmalloc_aligned_ok [OF boot_heap_inv(2), of 12 4096] by auto
qed

text \<open>Up to an alignment of 8, \<open>kmalloc_aligned\<close> hands out what \<open>kmalloc\<close> does, and that is
  not 8-aligned: the first allocation from a freshly initialised heap, whose start is a multiple
  of 16, is 4 modulo 8 whenever it succeeds.\<close>

theorem kmalloc_aligned_8_misaligned:
  assumes "unat start_addr + 16 \<le> 2 ^ 32" and "32 \<le> unat (ALIGN_UP start_addr 16)"
    and "20 \<le> unat area" and "unat (ALIGN_UP start_addr 16) + unat area \<le> 2 ^ 32"
    and "sz \<noteq> 0" and "unat sz + 8 \<le> 2 ^ 32"
    and "kmalloc_aligned (heap_init h start_addr area) sz 8 = Some (h', p)" and "p \<noteq> 0"
  shows "unat p mod 8 = 4"
proof -
  let ?st = "ALIGN_UP start_addr 16"
  have d: "16 dvd unat ?st" using ALIGN_UP_props(1) [of start_addr 4] assms(1) by simp
  have k: "kmalloc (heap_init h start_addr area) sz = Some (h', p)"
    using assms(7) by (simp add: kmalloc_aligned_def)
  have inv: "heap_inv (heap_init h start_addr area)
      [\<lparr>baddr = ?st, bsize = area - 20, bfree = True\<rparr>] (unat ?st + unat area)"
    using heap_init_inv [OF assms(1-4)] by blast
  have "p = ?st + 20"
    using kmalloc_refines [OF inv assms(5,6)] k assms(8) by (auto split: if_splits)
  moreover have "unat (?st + 20) = unat ?st + 20 \<or> p = 0"
  proof -
    have "unat ?st + 20 < 2 ^ 32 \<or> unat ?st + 20 = 2 ^ 32" using assms(3,4) by linarith
    then show ?thesis using unat_add_of_nat [of ?st 20] \<open>p = ?st + 20\<close>
      by (auto simp: unat_word_ariths unat_eq_zero [symmetric])
  qed
  ultimately show ?thesis using d assms(8) by simp presburger
qed

theorem kmalloc_aligned_8_misaligned_witness:
  "\<exists>h' p. kmalloc_aligned (heap_init boot_heap 0x200000 0x1000) 64 8 = Some (h', p) \<and> unat p mod 8 = 4"
proof -
  have a: "ALIGN_UP 0x200000 16 = 0x200000" "ALIGN_UP 64 8 = 64" by (simp_all add: ALIGN_UP_def)
  have inv: "heap_inv (heap_init boot_heap 0x200000 0x1000)
      [\<lparr>baddr = 0x200000, bsize = 0x1000 - 20, bfree = True\<rparr>] (0x200000 + 0x1000)"
    using heap_init_inv [of "0x200000" "0x1000" boot_heap] unfolding a by simp
  obtain h' where k: "kmalloc_aligned (heap_init boot_heap 0x200000 0x1000) 64 8 = Some (h', 0x200014)"
    using kmalloc_refines [OF inv, of 64] unfolding a by (auto simp: kmalloc_aligned_def)
  show ?thesis
    using kmalloc_aligned_8_misaligned [OF _ _ _ _ _ _ k] k unfolding a by auto
qed

end
