(* ===== verification/Pmm.thy ===== *)
theory Pmm
  imports Memory
begin

text \<open>
  The physical page allocator, \<open>src/kernel/mmu.c\<close>: a bitmap of 32-bit words, one bit per page,
  that lies in memory right after the kernel image. The static variables are the record
  \<open>pmm_state\<close>; the linker symbol \<open>_kernel_end\<close> is an argument of \<open>pmm_init\<close>. Loops whose end
  depends on data read from memory, or whose counter can wrap, are
  \<^theory_text>\<open>partial_function (option)\<close>.
\<close>

section \<open>State and bitmap macros\<close>

unbundle bit_operations_syntax

definition PAGE_SIZE :: u32 where
  "PAGE_SIZE = 4096"

record pmm_state =
  pmem :: mem
  pmm_bitmap :: u32
  total_pages :: u32
  used_pages :: u32
  pmm_start_addr :: u32

definition BITMAP_SET :: "pmm_state \<Rightarrow> u32 \<Rightarrow> pmm_state" where
  "BITMAP_SET s b = s\<lparr>pmem := st32 (pmem s) (pmm_bitmap s + 4 * (b div 32))
     (ld32 (pmem s) (pmm_bitmap s + 4 * (b div 32)) OR push_bit (unat (b mod 32)) 1)\<rparr>"

definition BITMAP_CLEAR :: "pmm_state \<Rightarrow> u32 \<Rightarrow> pmm_state" where
  "BITMAP_CLEAR s b = s\<lparr>pmem := st32 (pmem s) (pmm_bitmap s + 4 * (b div 32))
     (ld32 (pmem s) (pmm_bitmap s + 4 * (b div 32)) AND NOT (push_bit (unat (b mod 32)) 1))\<rparr>"

definition BITMAP_TEST :: "pmm_state \<Rightarrow> u32 \<Rightarrow> bool" where
  "BITMAP_TEST s b \<longleftrightarrow>
     ld32 (pmem s) (pmm_bitmap s + 4 * (b div 32)) AND push_bit (unat (b mod 32)) 1 \<noteq> 0"

section \<open>Operations\<close>

text \<open>The body \<open>BITMAP_SET(p); used_pages++\<close> and its converse, run over \<open>n\<close> consecutive pages.\<close>

definition take_page :: "pmm_state \<Rightarrow> u32 \<Rightarrow> pmm_state" where
  "take_page s p = (BITMAP_SET s p)\<lparr>used_pages := used_pages s + 1\<rparr>"

definition give_page :: "pmm_state \<Rightarrow> u32 \<Rightarrow> pmm_state" where
  "give_page s p = (BITMAP_CLEAR s p)\<lparr>used_pages := used_pages s - 1\<rparr>"

fun take_pages :: "nat \<Rightarrow> u32 \<Rightarrow> pmm_state \<Rightarrow> pmm_state" where
  "take_pages 0 p s = s"
| "take_pages (Suc n) p s = take_pages n (p + 1) (take_page s p)"

fun give_pages :: "nat \<Rightarrow> u32 \<Rightarrow> pmm_state \<Rightarrow> pmm_state" where
  "give_pages 0 p s = s"
| "give_pages (Suc n) p s = give_pages n (p + 1) (give_page s p)"

text \<open>\<open>struct multiboot_mmap_entry\<close>: size, low and high base, low and high length, type.\<close>

definition mmap_usable :: "mem \<Rightarrow> u32 \<Rightarrow> bool" where
  "mmap_usable m entry \<longleftrightarrow> ld32 m (entry + 20) = 1 \<and> ld32 m (entry + 8) = 0"

definition mmap_end :: "mem \<Rightarrow> u32 \<Rightarrow> u32" where
  "mmap_end m entry = ld32 m (entry + 4) + ld32 m (entry + 12)"

partial_function (option) mmap_max_addr :: "mem \<Rightarrow> u32 \<Rightarrow> u32 \<Rightarrow> u32 \<Rightarrow> u32 \<Rightarrow> u32 option" where
  "mmap_max_addr m mmap_addr mmap_length mmap_offset max_addr =
     (if mmap_offset < mmap_length
      then mmap_max_addr m mmap_addr mmap_length
             (mmap_offset + (ld32 m (mmap_addr + mmap_offset) + 4))
             (if mmap_usable m (mmap_addr + mmap_offset) \<and> mmap_end m (mmap_addr + mmap_offset) > max_addr
              then mmap_end m (mmap_addr + mmap_offset) else max_addr)
      else Some max_addr)"

definition mmap_release_entry :: "pmm_state \<Rightarrow> u32 \<Rightarrow> pmm_state" where
  "mmap_release_entry s entry =
     (if mmap_usable (pmem s) entry
      then (let start0 = ld32 (pmem s) (entry + 4);
                end0 = mmap_end (pmem s) entry;
                start1 = (if start0 < pmm_start_addr s then pmm_start_addr s else start0)
            in if start1 < end0
               then (let start_p = start1 div PAGE_SIZE;
                         end_p = min (end0 div PAGE_SIZE) (total_pages s)
                     in give_pages (unat end_p - unat start_p) start_p s)
               else s)
      else s)"

partial_function (option) mmap_release :: "u32 \<Rightarrow> u32 \<Rightarrow> u32 \<Rightarrow> pmm_state \<Rightarrow> pmm_state option" where
  "mmap_release mmap_addr mmap_length mmap_offset s =
     (if mmap_offset < mmap_length
      then (let s' = mmap_release_entry s (mmap_addr + mmap_offset)
            in mmap_release mmap_addr mmap_length
                 (mmap_offset + (ld32 (pmem s') (mmap_addr + mmap_offset) + 4)) s')
      else Some s)"

definition pmm_page_count :: "mem \<Rightarrow> u32 \<Rightarrow> u32 \<Rightarrow> u32 \<Rightarrow> u32 option" where
  "pmm_page_count m mem_size_kb mmap_addr mmap_length =
     (if mmap_addr \<noteq> 0 \<and> mmap_length > 0
      then map_option (\<lambda>max_addr. if max_addr > 0 then max_addr div PAGE_SIZE
                                  else mem_size_kb * 1024 div PAGE_SIZE)
             (mmap_max_addr m mmap_addr mmap_length 0 0)
      else Some ((if mem_size_kb = 0 then 128 * 1024 else mem_size_kb) * 1024 div PAGE_SIZE))"

text \<open>All pages marked used in a fresh bitmap after the kernel image.\<close>

definition pmm_reserve_all :: "u32 \<Rightarrow> u32 \<Rightarrow> pmm_state \<Rightarrow> pmm_state" where
  "pmm_reserve_all kernel_end npages s =
     (let bitmap_size = DIV_ROUND_UP npages 8;
          bitmap = ALIGN_UP kernel_end 4096
      in \<lparr>pmem = memset (pmem s) bitmap 0xFF bitmap_size, pmm_bitmap = bitmap, total_pages = npages,
          used_pages = npages, pmm_start_addr = ALIGN_UP (bitmap + bitmap_size) PAGE_SIZE\<rparr>)"

definition pmm_init :: "u32 \<Rightarrow> pmm_state \<Rightarrow> u32 \<Rightarrow> u32 \<Rightarrow> u32 \<Rightarrow> pmm_state option" where
  "pmm_init kernel_end s mem_size_kb mmap_addr mmap_length =
     Option.bind (pmm_page_count (pmem s) mem_size_kb mmap_addr mmap_length) (\<lambda>npages.
       let s1 = pmm_reserve_all kernel_end npages s
       in if mmap_addr \<noteq> 0 \<and> mmap_length > 0
          then mmap_release mmap_addr mmap_length 0 s1
          else (let start_page = pmm_start_addr s1 div PAGE_SIZE
                in Some (give_pages (unat (total_pages s1) - unat start_page) start_page s1)))"

function pmm_scan :: "pmm_state \<Rightarrow> u32 \<Rightarrow> u32 \<Rightarrow> u32 \<Rightarrow> u32 \<Rightarrow> pmm_state \<times> u32" where
  "pmm_scan s count p contiguous found_start =
     (if p < total_pages s
      then if \<not> BITMAP_TEST s p
           then (let found = (if contiguous = 0 then p else found_start);
                     contig = contiguous + 1
                 in if contig = count
                    then (take_pages (unat count) found s, found * PAGE_SIZE)
                    else pmm_scan s count (p + 1) contig found)
           else pmm_scan s count (p + 1) 0 found_start
      else (s, 0))"
  by pat_completeness auto
termination
  by (relation "measure (\<lambda>(s, count, p, contiguous, found_start). unat (total_pages s - p))")
    (simp_all add: word_countdown)

declare pmm_scan.simps [simp del]

definition pmm_alloc_pages :: "pmm_state \<Rightarrow> u32 \<Rightarrow> pmm_state \<times> u32" where
  "pmm_alloc_pages s count =
     (if count = 0 then (s, 0) else pmm_scan s count (pmm_start_addr s div PAGE_SIZE) 0 0)"

definition pmm_alloc_page :: "pmm_state \<Rightarrow> pmm_state \<times> u32" where
  "pmm_alloc_page s = pmm_alloc_pages s 1"

fun pages_match :: "nat \<Rightarrow> u32 \<Rightarrow> pmm_state \<Rightarrow> bool" where
  "pages_match 0 p s = True"
| "pages_match (Suc n) p s = (if BITMAP_TEST s p then False else pages_match n (p + 1) s)"

partial_function (option) pmm_scan_aligned :: "pmm_state \<Rightarrow> u32 \<Rightarrow> u32 \<Rightarrow> u32 \<Rightarrow> (pmm_state \<times> u32) option" where
  "pmm_scan_aligned s count align_pages p =
     (if p + count \<le> total_pages s
      then if pages_match (unat count) p s
           then Some (take_pages (unat count) p s, p * PAGE_SIZE)
           else pmm_scan_aligned s count align_pages (p + align_pages)
      else Some (s, 0))"

definition pmm_alloc_pages_aligned :: "pmm_state \<Rightarrow> u32 \<Rightarrow> u32 \<Rightarrow> (pmm_state \<times> u32) option" where
  "pmm_alloc_pages_aligned s count alignment =
     (if count = 0 then Some (s, 0)
      else (let align_pages = (if alignment < PAGE_SIZE then PAGE_SIZE else alignment) div PAGE_SIZE
            in pmm_scan_aligned s count align_pages (ALIGN_UP (pmm_start_addr s div PAGE_SIZE) align_pages)))"

fun release_pages :: "nat \<Rightarrow> u32 \<Rightarrow> pmm_state \<Rightarrow> pmm_state" where
  "release_pages 0 p s = s"
| "release_pages (Suc n) p s =
     release_pages n (p + 1) (if p < total_pages s \<and> BITMAP_TEST s p then give_page s p else s)"

definition pmm_free_pages :: "pmm_state \<Rightarrow> u32 \<Rightarrow> u32 \<Rightarrow> pmm_state" where
  "pmm_free_pages s addr count =
     (if addr = 0 \<or> count = 0 then s else release_pages (unat count) (addr div PAGE_SIZE) s)"

definition pmm_free_page :: "pmm_state \<Rightarrow> u32 \<Rightarrow> pmm_state" where
  "pmm_free_page s addr = pmm_free_pages s addr 1"

definition pmm_get_total_pages :: "pmm_state \<Rightarrow> u32" where
  "pmm_get_total_pages s = total_pages s"

definition pmm_get_free_pages :: "pmm_state \<Rightarrow> u32" where
  "pmm_get_free_pages s = total_pages s - used_pages s"

definition pmm_get_used_pages :: "pmm_state \<Rightarrow> u32" where
  "pmm_get_used_pages s = used_pages s"

end
