(* ===== verification/Pmm_Alloc.thy ===== *)
theory Pmm_Alloc
  imports Pmm
begin

text \<open>
  What the page allocator does, in terms of the set of used pages: the bitmap macros are a bit
  array, allocation is the lowest run of free pages, release undoes it, and the count of used
  pages is the number of bits set.
\<close>

section \<open>The bitmap is a bit array\<close>

text \<open>The interface the loops of the allocator rely on, and what they derive from it: marking or
  unmarking a run of consecutive elements.\<close>

locale bit_array =
  fixes tst :: "'s \<Rightarrow> u32 \<Rightarrow> bool" and put :: "'s \<Rightarrow> u32 \<Rightarrow> 's" and ok :: "'s \<Rightarrow> bool" and v :: bool
    and run :: "nat \<Rightarrow> u32 \<Rightarrow> 's \<Rightarrow> 's"
  assumes put_ok: "ok s \<Longrightarrow> ok (put s b)"
    and tst_put: "ok s \<Longrightarrow> tst (put s b) c = (if b = c then v else tst s c)"
    and run_0: "run 0 p s = s"
    and run_Suc: "run (Suc n) p s = run n (p + 1) (put s p)"
begin

lemma run_ok: "ok s \<Longrightarrow> ok (run n p s)"
  by (induction n arbitrary: p s) (simp_all add: run_0 run_Suc put_ok)

lemma tst_run:
  "ok s \<Longrightarrow> n < 2 ^ 32 \<Longrightarrow> tst (run n p s) c = (if unat (c - p) < n then v else tst s c)"
proof (induction n arbitrary: p s)
  case (Suc n)
  have "unat (c - (p + 1)) < n \<longleftrightarrow> c \<noteq> p \<and> unat (c - p) < Suc n"
  proof (cases "c = p")
    case True
    have "unat (- 1 :: u32) = 2 ^ 32 - 1" by (simp add: unsigned_minus_1_eq_mask mask_eq_exp_minus_1)
    then show ?thesis using True Suc.prems(2) by simp
  next
    case False
    then have "unat (c - p) \<noteq> 0" by (simp add: unat_eq_zero)
    then have "unat (c - p - 1) = unat (c - p) - 1" by (simp add: unat_sub_if_size)
    then show ?thesis using False \<open>unat (c - p) \<noteq> 0\<close> by (auto simp: diff_diff_eq)
  qed
  then show ?case
    using Suc.IH [OF put_ok [OF Suc.prems(1)], of "p + 1" p] Suc.prems by (auto simp: run_Suc tst_put)
qed (simp add: run_0)

end

definition bitmap_ok :: "pmm_state \<Rightarrow> bool" where
  "bitmap_ok s \<longleftrightarrow> aligned4 (pmm_bitmap s)"

lemma bitmap_word_aligned: "aligned4 a \<Longrightarrow> aligned4 (a + 4 * i)"
  by (simp add: aligned4_def unat_word_ariths mod_add_right_eq dvd_mod)

lemma bitmap_word_eq: "a + 4 * (b div 32) = a + 4 * (c div 32) \<longleftrightarrow> b div 32 = (c div 32 :: u32)"
proof
  assume "a + 4 * (b div 32) = a + 4 * (c div 32)"
  then have "unat (4 * (b div 32)) = unat (4 * (c div 32))" by simp
  moreover have "unat (4 * (x div 32)) = 4 * unat (x div 32)" for x :: u32
    using unat_times_div [of 4 32 x] by (simp add: unat_word_ariths unat_div)
  ultimately show "b div 32 = c div 32" by (simp add: word_unat_eq_iff)
qed simp

lemma BITMAP_TEST_bit:
  "BITMAP_TEST s b \<longleftrightarrow> bit (ld32 (pmem s) (pmm_bitmap s + 4 * (b div 32))) (unat (b mod 32))"
  by (simp add: BITMAP_TEST_def bit_iff_and_push_bit_not_eq_0)

lemma page_eq_iff: "b = c \<longleftrightarrow> b div 32 = c div 32 \<and> unat (b mod 32) = unat (c mod (32 :: u32))"
  by (metis div_mult_mod_eq word_unat_eq_iff)

lemma test_take_page:
  assumes "bitmap_ok s"
  shows "BITMAP_TEST (take_page s b) c \<longleftrightarrow> b = c \<or> BITMAP_TEST s c"
proof -
  have "unat (c mod 32) < 32" by (simp add: unat_mod)
  then show ?thesis
    using assms bitmap_word_eq [of "pmm_bitmap s" b c] page_eq_iff [of b c]
    by (auto simp: take_page_def BITMAP_SET_def BITMAP_TEST_bit bitmap_ok_def mem_simps
        bitmap_word_aligned bit_simps)
qed

lemma test_give_page:
  assumes "bitmap_ok s"
  shows "BITMAP_TEST (give_page s b) c \<longleftrightarrow> b \<noteq> c \<and> BITMAP_TEST s c"
proof -
  have "unat (c mod 32) < 32" by (simp add: unat_mod)
  then show ?thesis
    using assms bitmap_word_eq [of "pmm_bitmap s" b c] page_eq_iff [of b c]
    by (auto simp: give_page_def BITMAP_CLEAR_def BITMAP_TEST_bit bitmap_ok_def mem_simps
        bitmap_word_aligned bit_simps)
qed

lemma take_page_simps [simp]:
  "pmm_bitmap (take_page s p) = pmm_bitmap s" "total_pages (take_page s p) = total_pages s"
  "used_pages (take_page s p) = used_pages s + 1" "pmm_start_addr (take_page s p) = pmm_start_addr s"
  by (simp_all add: take_page_def BITMAP_SET_def)

lemma give_page_simps [simp]:
  "pmm_bitmap (give_page s p) = pmm_bitmap s" "total_pages (give_page s p) = total_pages s"
  "used_pages (give_page s p) = used_pages s - 1" "pmm_start_addr (give_page s p) = pmm_start_addr s"
  by (simp_all add: give_page_def BITMAP_CLEAR_def)

interpretation taking: bit_array BITMAP_TEST take_page bitmap_ok True take_pages
  by unfold_locales (auto simp: test_take_page bitmap_ok_def)

interpretation giving: bit_array BITMAP_TEST give_page bitmap_ok False give_pages
  by unfold_locales (auto simp: test_give_page bitmap_ok_def)

section \<open>Used pages and the invariant\<close>

definition pmm_used :: "pmm_state \<Rightarrow> nat set" where
  "pmm_used s = {r. r < unat (total_pages s) \<and> BITMAP_TEST s (of_nat r)}"

definition pmm_inv :: "pmm_state \<Rightarrow> bool" where
  "pmm_inv s \<longleftrightarrow> bitmap_ok s \<and> unat (total_pages s) \<le> 2 ^ 20 \<and> used_pages s = of_nat (card (pmm_used s))"

definition free_run :: "pmm_state \<Rightarrow> nat \<Rightarrow> nat \<Rightarrow> bool" where
  "free_run s q n \<longleftrightarrow> q + n \<le> unat (total_pages s) \<and> {q..<q + n} \<inter> pmm_used s = {}"

lemma finite_pmm_used [simp]: "finite (pmm_used s)"
  by (simp add: pmm_used_def)

lemma take_pages_simps [simp]:
  "pmm_bitmap (take_pages n p s) = pmm_bitmap s" "total_pages (take_pages n p s) = total_pages s"
  "used_pages (take_pages n p s) = used_pages s + of_nat n"
  "pmm_start_addr (take_pages n p s) = pmm_start_addr s"
  by (induction n arbitrary: p s) (simp_all add: algebra_simps)

lemma give_pages_simps [simp]:
  "pmm_bitmap (give_pages n p s) = pmm_bitmap s" "total_pages (give_pages n p s) = total_pages s"
  "used_pages (give_pages n p s) = used_pages s - of_nat n"
  "pmm_start_addr (give_pages n p s) = pmm_start_addr s"
  by (induction n arbitrary: p s) (simp_all add: algebra_simps)

lemma in_run_iff:
  assumes "q + n \<le> 2 ^ 20" and "r < 2 ^ 32"
  shows "unat (of_nat r - of_nat q :: u32) < n \<longleftrightarrow> q \<le> r \<and> r < q + n"
proof -
  have "q + n < 2 ^ 32" using assms(1) by simp
  then show ?thesis using word_region_shift [of q n "of_nat r"] assms(2) by (simp add: unat_of_nat)
qed

lemma used_take_pages:
  assumes "bitmap_ok s" and "q + n \<le> unat (total_pages s)" and "unat (total_pages s) \<le> 2 ^ 20"
  shows "pmm_used (take_pages n (of_nat q) s) = pmm_used s \<union> {q..<q + n}"
proof -
  have "BITMAP_TEST (take_pages n (of_nat q) s) (of_nat r) \<longleftrightarrow>
      q \<le> r \<and> r < q + n \<or> BITMAP_TEST s (of_nat r)" if "r < unat (total_pages s)" for r
  proof -
    have "unat (of_nat r - of_nat q :: u32) < n \<longleftrightarrow> q \<le> r \<and> r < q + n"
      using assms(2,3) that by (intro in_run_iff) simp_all
    moreover have "n < 2 ^ 32" using assms(2,3) by simp
    ultimately show ?thesis using taking.tst_run [OF assms(1), of n "of_nat q" "of_nat r"] by auto
  qed
  then show ?thesis using assms(2) by (auto simp: pmm_used_def)
qed

lemma used_give_pages:
  assumes "bitmap_ok s" and "q + n \<le> 2 ^ 20" and "unat (total_pages s) \<le> 2 ^ 20"
  shows "pmm_used (give_pages n (of_nat q) s) = pmm_used s - {q..<q + n}"
proof -
  have "BITMAP_TEST (give_pages n (of_nat q) s) (of_nat r) \<longleftrightarrow>
      \<not> (q \<le> r \<and> r < q + n) \<and> BITMAP_TEST s (of_nat r)" if "r < unat (total_pages s)" for r
  proof -
    have "unat (of_nat r - of_nat q :: u32) < n \<longleftrightarrow> q \<le> r \<and> r < q + n"
      using assms(2,3) that by (intro in_run_iff) simp_all
    moreover have "n < 2 ^ 32" using assms(2,3) by simp
    ultimately show ?thesis using giving.tst_run [OF assms(1), of n "of_nat q" "of_nat r"] by simp
  qed
  then show ?thesis by (auto simp: pmm_used_def)
qed

lemma take_pages_inv:
  assumes inv: "pmm_inv s" and run: "free_run s q n"
  shows "pmm_inv (take_pages n (of_nat q) s) \<and>
    pmm_used (take_pages n (of_nat q) s) = pmm_used s \<union> {q..<q + n}"
proof -
  have u: "pmm_used (take_pages n (of_nat q) s) = pmm_used s \<union> {q..<q + n}"
    using inv run by (intro used_take_pages) (auto simp: pmm_inv_def free_run_def)
  moreover have "card (pmm_used s \<union> {q..<q + n}) = card (pmm_used s) + n"
    using run by (subst card_Un_disjoint) (auto simp: free_run_def)
  moreover have "bitmap_ok (take_pages n (of_nat q) s)"
    using inv by (simp add: pmm_inv_def taking.run_ok)
  ultimately show ?thesis using inv by (simp add: pmm_inv_def)
qed

lemma give_pages_inv:
  assumes inv: "pmm_inv s" and sub: "{q..<q + n} \<subseteq> pmm_used s" and "q + n \<le> 2 ^ 20"
  shows "pmm_inv (give_pages n (of_nat q) s) \<and>
    pmm_used (give_pages n (of_nat q) s) = pmm_used s - {q..<q + n}"
proof -
  have u: "pmm_used (give_pages n (of_nat q) s) = pmm_used s - {q..<q + n}"
    using inv assms(3) by (intro used_give_pages) (auto simp: pmm_inv_def)
  moreover have "card (pmm_used s - {q..<q + n}) = card (pmm_used s) - n"
    using sub by (subst card_Diff_subset) auto
  moreover have "n \<le> card (pmm_used s)" using card_mono [OF finite_pmm_used sub] by simp
  moreover have "bitmap_ok (give_pages n (of_nat q) s)"
    using inv by (simp add: pmm_inv_def giving.run_ok)
  ultimately show ?thesis using inv by (simp add: pmm_inv_def of_nat_diff)
qed

section \<open>Allocation\<close>

lemma free_run_iff:
  "free_run s q n \<longleftrightarrow> q + n \<le> unat (total_pages s) \<and> (\<forall>r. q \<le> r \<and> r < q + n \<longrightarrow> \<not> BITMAP_TEST s (of_nat r))"
  by (auto simp: free_run_def pmm_used_def)

text \<open>The state of the scan: pages from \<open>p - c\<close> to \<open>p\<close> are free and no run starts before.\<close>

definition scanned :: "pmm_state \<Rightarrow> nat \<Rightarrow> nat \<Rightarrow> nat \<Rightarrow> nat \<Rightarrow> bool" where
  "scanned s S n p c \<longleftrightarrow> c \<le> p \<and> c < n \<and> S \<le> p - c \<and> p \<le> unat (total_pages s) \<and>
     (\<forall>r. p - c \<le> r \<and> r < p \<longrightarrow> \<not> BITMAP_TEST s (of_nat r)) \<and>
     (\<forall>q. S \<le> q \<and> q < p - c \<longrightarrow> \<not> free_run s q n)"

lemma scanned_free:
  assumes "scanned s S n p c" and "p < unat (total_pages s)" and "\<not> BITMAP_TEST s (of_nat p)"
  shows "if c + 1 = n then S \<le> p - c \<and> free_run s (p - c) n \<and> (\<forall>q. S \<le> q \<and> q < p - c \<longrightarrow> \<not> free_run s q n)
    else scanned s S n (p + 1) (c + 1)"
  using assms by (auto simp: scanned_def free_run_iff less_Suc_eq)

lemma scanned_used:
  assumes "scanned s S n p c" and "p < unat (total_pages s)" and "BITMAP_TEST s (of_nat p)"
  shows "scanned s S n (p + 1) 0"
proof -
  have "\<not> free_run s q n" if "S \<le> q" "q < p + 1" for q
  proof (cases "q < p - c")
    case True
    then show ?thesis using assms(1) that by (auto simp: scanned_def)
  next
    case False
    then have "q \<le> p" "p < q + n" using that assms(1) by (auto simp: scanned_def)
    then show ?thesis using assms(3) by (auto simp: free_run_iff)
  qed
  then show ?thesis using assms by (auto simp: scanned_def)
qed

lemma scanned_end:
  assumes "scanned s S n p c" and "\<not> p < unat (total_pages s)" and "S \<le> q"
  shows "\<not> free_run s q n"
proof (cases "q < p - c")
  case True
  then show ?thesis using assms by (auto simp: scanned_def)
next
  case False
  then have "unat (total_pages s) < q + n" using assms by (auto simp: scanned_def)
  then show ?thesis by (simp add: free_run_def)
qed

lemma pmm_scan_spec:
  assumes "scanned s S (unat count) p c" and "unat (total_pages s) \<le> 2 ^ 20"
    and "c \<noteq> 0 \<longrightarrow> found = of_nat (p - c)"
  shows "(\<exists>q. S \<le> q \<and> free_run s q (unat count) \<and> (\<forall>q'. S \<le> q' \<and> q' < q \<longrightarrow> \<not> free_run s q' (unat count)) \<and>
      pmm_scan s count (of_nat p) (of_nat c) found = (take_pages (unat count) (of_nat q) s, of_nat q * PAGE_SIZE))
    \<or> (\<forall>q \<ge> S. \<not> free_run s q (unat count)) \<and> pmm_scan s count (of_nat p) (of_nat c) found = (s, 0)"
  using assms
proof (induction "unat (total_pages s) - p" arbitrary: p c found)
  case 0
  then have "\<not> (of_nat p :: u32) < total_pages s"
    by (simp add: scanned_def word_less_nat_alt unat_of_nat)
  then show ?case using scanned_end [OF 0(2)] 0(1) by (simp add: pmm_scan.simps)
next
  case (Suc d)
  then have p: "p < unat (total_pages s)" "p < 2 ^ 32" by simp_all
  have c: "c < 2 ^ 32" using Suc.prems(1) p(2) by (simp add: scanned_def)
  have lt: "(of_nat p :: u32) < total_pages s" using p by (simp add: word_less_nat_alt unat_of_nat)
  have d: "d = unat (total_pages s) - (p + 1)" using Suc.hyps(2) by simp
  have c0: "(of_nat c :: u32) = 0 \<longleftrightarrow> c = 0" using c by (simp add: unat_eq_zero [symmetric] unat_of_nat)
  have p1: "of_nat p + 1 = (of_nat (p + 1) :: u32)" "of_nat c + 1 = (of_nat (c + 1) :: u32)" by simp_all
  show ?case
  proof (cases "BITMAP_TEST s (of_nat p)")
    case True
    then have "pmm_scan s count (of_nat p) (of_nat c) found = pmm_scan s count (of_nat (p + 1)) (of_nat 0) found"
      using lt by (subst pmm_scan.simps) (simp add: add.commute)
    moreover note Suc.hyps(1) [OF d scanned_used [OF Suc.prems(1) p(1) True] Suc.prems(2), of found]
    ultimately show ?thesis by simp
  next
    case False
    let ?f = "of_nat (p - c) :: u32"
    have f: "(if of_nat c = (0 :: u32) then of_nat p else found) = ?f" using c0 Suc.prems(3) by auto
    have eq: "of_nat c + 1 = count \<longleftrightarrow> c + 1 = unat count"
    proof -
      have "c + 1 \<le> unat count" using Suc.prems(1) by (simp add: scanned_def)
      then have "c + 1 < 4294967296" using unat_less_4G [of count] by (rule le_less_trans)
      then have "unat (of_nat (c + 1) :: u32) = c + 1" by (simp only: unat_of_nat) simp
      then have "unat (of_nat c + 1 :: u32) = c + 1" by (simp only: p1)
      then show ?thesis by (auto simp: word_unat_eq_iff)
    qed
    have step: "pmm_scan s count (of_nat p) (of_nat c) found =
        (if c + 1 = unat count then (take_pages (unat count) ?f s, ?f * PAGE_SIZE)
         else pmm_scan s count (of_nat (p + 1)) (of_nat (c + 1)) ?f)"
      unfolding p1 [symmetric] by (subst pmm_scan.simps) (use False lt eq f in \<open>simp add: Let_def\<close>)
    note S = scanned_free [OF Suc.prems(1) p(1) False]
    show ?thesis
    proof (cases "c + 1 = unat count")
      case True
      then show ?thesis using S step by auto
    next
      case False
      then have sc: "scanned s S (unat count) (p + 1) (c + 1)" using S by simp
      have "p + 1 - (c + 1) = p - c" by simp
      then show ?thesis using Suc.hyps(1) [OF d sc Suc.prems(2), of ?f] step False by simp
    qed
  qed
qed

lemma of_nat_times_page: "q \<le> 2 ^ 20 - 1 \<Longrightarrow> unat (of_nat q * PAGE_SIZE) = q * 4096"
  by (simp add: PAGE_SIZE_def unat_word_ariths unat_of_nat)

abbreviation start_page :: "pmm_state \<Rightarrow> nat" where
  "start_page s \<equiv> unat (pmm_start_addr s div PAGE_SIZE)"

lemma pmm_alloc_pages_cases:
  assumes inv: "pmm_inv s" and "count \<noteq> 0"
  obtains (run) q where "start_page s \<le> q" "free_run s q (unat count)"
      "\<forall>q'. start_page s \<le> q' \<and> q' < q \<longrightarrow> \<not> free_run s q' (unat count)"
      "pmm_alloc_pages s count = (take_pages (unat count) (of_nat q) s, of_nat q * PAGE_SIZE)"
  | (none) "\<forall>q \<ge> start_page s. \<not> free_run s q (unat count)" "pmm_alloc_pages s count = (s, 0)"
proof (cases "start_page s \<le> unat (total_pages s)")
  case True
  have sc: "scanned s (start_page s) (unat count) (start_page s) 0"
    using True assms(2) by (auto simp: scanned_def unat_gt_0)
  have "of_nat (start_page s) = pmm_start_addr s div PAGE_SIZE" by simp
  then have eq: "pmm_alloc_pages s count = pmm_scan s count (of_nat (start_page s)) (of_nat 0) 0"
    using assms(2) by (simp add: pmm_alloc_pages_def)
  have b: "unat (total_pages s) \<le> 2 ^ 20" using inv by (simp add: pmm_inv_def)
  show ?thesis using pmm_scan_spec [OF sc b, of 0] that unfolding eq by blast
next
  case False
  then have "pmm_alloc_pages s count = (s, 0)"
    using assms(2) by (simp add: pmm_alloc_pages_def pmm_scan.simps word_less_nat_alt)
  moreover have "\<forall>q \<ge> start_page s. \<not> free_run s q (unat count)"
    using False by (auto simp: free_run_def)
  ultimately show ?thesis by (rule that(2) [rotated])
qed

text \<open>C17. \<open>pmm_alloc_pages\<close> takes the lowest run of free pages: when there is a run of the
  requested length at or after the first managed page, the result is the address of the lowest
  one and exactly its pages become used; otherwise the result is 0 and nothing changes. The count
  of used pages stays equal to the number of bits set.\<close>

theorem pmm_alloc_pages_lowest:
  assumes "pmm_inv s" and "count \<noteq> 0"
  shows "let (s', a) = pmm_alloc_pages s count; n = unat count; S = start_page s in
    if \<exists>q \<ge> S. free_run s q n
    then (let q = (LEAST q. S \<le> q \<and> free_run s q n)
          in unat a = q * 4096 \<and> pmm_used s' = pmm_used s \<union> {q..<q + n} \<and> pmm_inv s')
    else a = 0 \<and> s' = s"
  using assms
proof (cases rule: pmm_alloc_pages_cases)
  case (run q)
  have least: "(LEAST q. start_page s \<le> q \<and> free_run s q (unat count)) = q"
    using run(1-3) by (intro Least_equality) (auto simp: linorder_not_less [symmetric])
  have "q \<le> 2 ^ 20 - 1"
    using run(2) assms unat_gt_0 [of count] by (simp add: free_run_def pmm_inv_def)
  then have "unat (of_nat q * PAGE_SIZE) = q * 4096" by (rule of_nat_times_page)
  moreover have "\<exists>q \<ge> start_page s. free_run s q (unat count)" using run(1,2) by blast
  ultimately show ?thesis
    using run(4) take_pages_inv [OF assms(1) run(2)] least by (simp add: Let_def)
next
  case none
  then show ?thesis by (simp add: Let_def) blast
qed

section \<open>Release\<close>

lemma give_page_used:
  assumes "bitmap_ok s" and "q < 2 ^ 32"
  shows "pmm_used (give_page s (of_nat q)) = pmm_used s - {q}"
proof -
  have "(of_nat q :: u32) = of_nat r \<longleftrightarrow> q = r" if "r < unat (total_pages s)" for r
  proof -
    have "r < 4294967296" using that by (rule below_unat_4G)
    then show ?thesis using assms(2) by (auto simp: word_unat_eq_iff unat_of_nat)
  qed
  then show ?thesis using assms(1) by (auto simp: pmm_used_def test_give_page)
qed

lemma release_pages_inv:
  assumes "pmm_inv s" and "q + n \<le> 2 ^ 32"
  shows "pmm_inv (release_pages n (of_nat q) s) \<and>
    pmm_used (release_pages n (of_nat q) s) = pmm_used s - {q..<q + n} \<and>
    pmm_start_addr (release_pages n (of_nat q) s) = pmm_start_addr s \<and>
    total_pages (release_pages n (of_nat q) s) = total_pages s"
  using assms
proof (induction n arbitrary: q s)
  case (Suc n)
  let ?s = "if of_nat q < total_pages s \<and> BITMAP_TEST s (of_nat q) then give_page s (of_nat q) else s"
  have q: "q < 2 ^ 32" using Suc.prems by simp
  have lt: "(of_nat q :: u32) < total_pages s \<longleftrightarrow> q < unat (total_pages s)"
    using q by (simp add: word_less_nat_alt unat_of_nat)
  have mem: "of_nat q < total_pages s \<and> BITMAP_TEST s (of_nat q) \<longleftrightarrow> q \<in> pmm_used s"
    by (simp add: lt pmm_used_def)
  have ok: "bitmap_ok s" using Suc.prems by (simp add: pmm_inv_def)
  have step: "pmm_inv ?s \<and> pmm_used ?s = pmm_used s - {q}"
  proof (cases "q \<in> pmm_used s")
    case True
    have "card (pmm_used s - {q}) = card (pmm_used s) - 1" "0 < card (pmm_used s)"
      using True by (auto simp: card_gt_0_iff)
    then have "pmm_inv (give_page s (of_nat q))"
      using Suc.prems(1) give_page_used [OF ok q] by (auto simp: pmm_inv_def bitmap_ok_def of_nat_diff)
    then show ?thesis using True give_page_used [OF ok q] unfolding mem by simp
  next
    case False
    then show ?thesis using Suc.prems(1) unfolding mem by simp
  qed
  have "of_nat q + 1 = (of_nat (Suc q) :: u32)" by simp
  then have eq: "release_pages (Suc n) (of_nat q) s = release_pages n (of_nat (Suc q)) ?s"
    by (simp only: release_pages.simps)
  have "{q..<q + Suc n} = insert q {Suc q..<Suc q + n}" by auto
  then show ?case
    using Suc.IH [of ?s "Suc q"] step Suc.prems(2) unfolding eq by (auto split: if_splits)
qed simp

text \<open>\<open>pmm_free_pages\<close> makes exactly the pages of its range free, whatever their state
  before: pages already free and pages past the end of memory are skipped, so that a double
  release does not disturb the count of used pages.\<close>

theorem pmm_free_pages_exact:
  assumes "pmm_inv s" and "addr \<noteq> 0" and "count \<noteq> 0" and "unat addr div 4096 + unat count \<le> 2 ^ 32"
  shows "pmm_inv (pmm_free_pages s addr count) \<and>
    pmm_used (pmm_free_pages s addr count) = pmm_used s - {unat addr div 4096..<unat addr div 4096 + unat count}"
proof -
  have "addr div PAGE_SIZE = of_nat (unat addr div 4096)"
    by (simp add: word_unat_eq_iff PAGE_SIZE_def unat_div unat_of_nat_u32 below_unat_4G div_less_dividend
        le_less_trans [OF div_le_dividend])
  then show ?thesis
    using release_pages_inv [OF assms(1,4)] assms(2,3) by (simp add: pmm_free_pages_def)
qed

text \<open>Releasing what was allocated gives back the same used pages and the same count.\<close>

theorem pmm_alloc_free_roundtrip:
  assumes inv: "pmm_inv s" and "pmm_alloc_pages s count = (s', a)" and "a \<noteq> 0"
  shows "pmm_used (pmm_free_pages s' a count) = pmm_used s \<and> used_pages (pmm_free_pages s' a count) = used_pages s
    \<and> pmm_inv (pmm_free_pages s' a count)"
proof -
  have c: "count \<noteq> 0" using assms(2,3) by (auto simp: pmm_alloc_pages_def)
  obtain q where q: "free_run s q (unat count)" "s' = take_pages (unat count) (of_nat q) s"
    "a = of_nat q * PAGE_SIZE"
    by (rule pmm_alloc_pages_cases [OF inv c]) (use assms(2,3) in auto)
  have b: "q + unat count \<le> 2 ^ 20" "q \<le> 2 ^ 20 - 1"
    using q(1) inv c unat_gt_0 [of count] by (auto simp: free_run_def pmm_inv_def)
  have "a div PAGE_SIZE = of_nat q"
    using of_nat_times_page [OF b(2)] b by (simp add: word_unat_eq_iff q(3) unat_div PAGE_SIZE_def unat_of_nat)
  then have f: "pmm_free_pages s' a count = release_pages (unat count) (of_nat q) s'"
    using assms(3) c by (simp add: pmm_free_pages_def)
  have "q + unat count \<le> 2 ^ 32" using b by simp
  note R = release_pages_inv [of s' q "unat count", OF _ this]
  have T: "pmm_inv s'" "pmm_used s' = pmm_used s \<union> {q..<q + unat count}"
    using take_pages_inv [OF inv q(1)] by (simp_all add: q(2))
  have "pmm_used (pmm_free_pages s' a count) = pmm_used s" "pmm_inv (pmm_free_pages s' a count)"
    using R [OF T(1)] T(2) q(1) by (auto simp: f free_run_def)
  then show ?thesis using inv by (auto simp: pmm_inv_def)
qed

section \<open>Aligned allocation\<close>

lemma pages_match_iff:
  "pages_match n (of_nat q) s \<longleftrightarrow> (\<forall>r. q \<le> r \<and> r < q + n \<longrightarrow> \<not> BITMAP_TEST s (of_nat r))"
proof (induction n arbitrary: q)
  case (Suc n)
  have e: "(of_nat (Suc q) :: u32) = of_nat q + 1" by simp
  have m: "pages_match (Suc n) (of_nat q) s \<longleftrightarrow>
      \<not> BITMAP_TEST s (of_nat q) \<and> pages_match n (of_nat (Suc q)) s" unfolding e by simp
  have r: "q \<le> r \<and> r < q + Suc n \<longleftrightarrow> r = q \<or> Suc q \<le> r \<and> r < Suc q + n" for r by auto
  show ?case unfolding m r Suc.IH by blast
qed auto

lemma pmm_scan_aligned_spec:
  assumes b: "unat (total_pages s) \<le> 2 ^ 20" and A: "0 < A" "A \<le> 2 ^ 20"
    and n: "unat count + 2 ^ 22 \<le> 2 ^ 32" and p: "p \<le> 2 ^ 21" "A dvd p"
    and below: "\<forall>q. S \<le> q \<and> q < p \<and> A dvd q \<longrightarrow> \<not> free_run s q (unat count)" and "S \<le> p"
  shows "(\<exists>q. S \<le> q \<and> A dvd q \<and> free_run s q (unat count) \<and>
      (\<forall>q'. S \<le> q' \<and> q' < q \<and> A dvd q' \<longrightarrow> \<not> free_run s q' (unat count)) \<and>
      pmm_scan_aligned s count (of_nat A) (of_nat p) =
        Some (take_pages (unat count) (of_nat q) s, of_nat q * PAGE_SIZE))
    \<or> (\<forall>q \<ge> S. A dvd q \<longrightarrow> \<not> free_run s q (unat count)) \<and>
      pmm_scan_aligned s count (of_nat A) (of_nat p) = Some (s, 0)"
  using p below \<open>S \<le> p\<close>
proof (induction "2 ^ 21 - p" arbitrary: p rule: less_induct)
  case less
  have pc: "unat (of_nat p + count :: u32) = p + unat count"
    using less.prems(1) n unat_add_of_nat [of count p] by (simp add: add.commute)
  then have fits: "of_nat p + count \<le> total_pages s \<longleftrightarrow> p + unat count \<le> unat (total_pages s)"
    by (simp add: word_le_nat_alt)
  note unfold = pmm_scan_aligned.simps [of s count "of_nat A" "of_nat p"]
  consider (out) "\<not> p + unat count \<le> unat (total_pages s)"
    | (hit) "free_run s p (unat count)"
    | (miss) "p + unat count \<le> unat (total_pages s)" "\<not> free_run s p (unat count)" by blast
  then show ?case
  proof cases
    case out
    then have "\<not> free_run s q (unat count)" if "S \<le> q" "A dvd q" for q
      using less.prems(3) that by (cases "q < p") (auto simp: free_run_def)
    then show ?thesis using unfold fits out by simp
  next
    case hit
    then have "pages_match (unat count) (of_nat p) s" "p + unat count \<le> unat (total_pages s)"
      by (auto simp: pages_match_iff free_run_iff)
    then show ?thesis using unfold fits hit less.prems by auto
  next
    case miss
    then have "\<not> pages_match (unat count) (of_nat p) s" by (auto simp: pages_match_iff free_run_iff)
    then have eq: "pmm_scan_aligned s count (of_nat A) (of_nat p) = pmm_scan_aligned s count (of_nat A) (of_nat (p + A))"
      using unfold fits miss(1) by simp
    have pA: "p + A \<le> 2 ^ 21" using miss(1) b A by simp
    have "\<not> free_run s q (unat count)" if "S \<le> q" "q < p + A" "A dvd q" for q
    proof -
      have "q \<le> p"
      proof (rule ccontr)
        assume "\<not> q \<le> p"
        then have "A \<le> q - p" using less.prems(2) that(3) by (intro dvd_imp_le) auto
        then show False using that(2) \<open>\<not> q \<le> p\<close> by simp
      qed
      then show ?thesis using less.prems(3) that miss(2) by (cases "q = p") auto
    qed
    moreover have "2 ^ 21 - (p + A) < 2 ^ 21 - p" using pA A by simp
    ultimately show ?thesis
      using less.hyps [of "p + A"] pA less.prems unfolding eq by simp
  qed
qed

text \<open>For an alignment that is a power of two of at least a page, \<open>pmm_alloc_pages_aligned\<close>
  returns, and it takes the lowest run of free pages that starts at a multiple of the alignment;
  when there is none it returns 0 and changes nothing.\<close>

theorem pmm_alloc_pages_aligned_lowest:
  assumes "pmm_inv s" and "count \<noteq> 0" and "unat count + 2 ^ 22 \<le> 2 ^ 32" and "k \<le> 19"
  shows "\<exists>s' a. pmm_alloc_pages_aligned s count (2 ^ (12 + k)) = Some (s', a) \<and>
    (let n = unat count; aligned_run = (\<lambda>q. start_page s \<le> q \<and> 2 ^ k dvd q \<and> free_run s q n) in
     if \<exists>q. aligned_run q
     then (let q = (LEAST q. aligned_run q)
           in unat a = q * 4096 \<and> pmm_used s' = pmm_used s \<union> {q..<q + n} \<and> pmm_inv s')
     else a = 0 \<and> s' = s)"
proof -
  let ?S = "start_page s" and ?n = "unat count"
  let ?R = "\<lambda>q. ?S \<le> q \<and> 2 ^ k dvd q \<and> free_run s q ?n"
  have pow: "unat ((2 :: u32) ^ (12 + k)) = 2 ^ (12 + k)" "unat ((2 :: u32) ^ k) = 2 ^ k"
    using assms(4) by (intro unat_power2; simp)+
  have k20: "(2 :: nat) ^ k \<le> 2 ^ 19" using assms(4) by (intro power_increasing) auto
  have ap: "(if (2 :: u32) ^ (12 + k) < PAGE_SIZE then PAGE_SIZE else 2 ^ (12 + k)) div PAGE_SIZE = of_nat (2 ^ k)"
  proof -
    have "\<not> (2 :: u32) ^ (12 + k) < PAGE_SIZE" using pow by (simp add: word_less_nat_alt PAGE_SIZE_def power_add)
    moreover have "(2 :: u32) ^ (12 + k) div PAGE_SIZE = 2 ^ k"
      using pow by (simp add: word_unat_eq_iff unat_div PAGE_SIZE_def power_add)
    ultimately show ?thesis by simp
  qed
  have S20: "?S < 2 ^ 20" using unat_less_4G [of "pmm_start_addr s"]
    by (simp add: PAGE_SIZE_def unat_div less_mult_imp_div_less)
  define p where "p = unat (ALIGN_UP (pmm_start_addr s div PAGE_SIZE) (2 ^ k))"
  have P: "2 ^ k dvd p" "?S \<le> p" "p < ?S + 2 ^ k"
    using ALIGN_UP_props [of "pmm_start_addr s div PAGE_SIZE" k] S20 k20 assms(4) by (simp_all add: p_def)
  have below: "\<not> free_run s q ?n" if "?S \<le> q \<and> q < p \<and> 2 ^ k dvd q" for q
  proof -
    have "2 ^ k \<le> p - q" using P(1) that by (intro dvd_imp_le) auto
    then have False using P(3) that by linarith
    then show ?thesis ..
  qed
  have eq: "pmm_alloc_pages_aligned s count (2 ^ (12 + k)) = pmm_scan_aligned s count (of_nat (2 ^ k)) (of_nat p)"
    using assms(2) ap by (simp add: pmm_alloc_pages_aligned_def Let_def p_def)
  have p21: "p \<le> 2 ^ 21" "(2 :: nat) ^ k \<le> 2 ^ 20" using P(3) S20 k20 by simp_all
  have t20: "unat (total_pages s) \<le> 2 ^ 20" using assms(1) by (simp add: pmm_inv_def)
  have below': "\<forall>q. ?S \<le> q \<and> q < p \<and> 2 ^ k dvd q \<longrightarrow> \<not> free_run s q ?n" using below by blast
  from pmm_scan_aligned_spec [OF t20 _ p21(2) assms(3) p21(1) P(1) below' P(2)]
  consider q where "?R q" "\<forall>q'. ?S \<le> q' \<and> q' < q \<and> 2 ^ k dvd q' \<longrightarrow> \<not> free_run s q' ?n"
      "pmm_alloc_pages_aligned s count (2 ^ (12 + k)) = Some (take_pages ?n (of_nat q) s, of_nat q * PAGE_SIZE)"
    | "\<forall>q. \<not> ?R q" "pmm_alloc_pages_aligned s count (2 ^ (12 + k)) = Some (s, 0)"
    unfolding eq by auto
  then show ?thesis
  proof cases
    case (1 q)
    have least: "(LEAST q. ?R q) = q"
      using 1(1,2) by (intro Least_equality) (auto simp: linorder_not_less [symmetric])
    have "q \<le> 2 ^ 20 - 1" using 1(1) t20 assms(2) unat_gt_0 [of count] by (simp add: free_run_def)
    then have "unat (of_nat q * PAGE_SIZE) = q * 4096" by (rule of_nat_times_page)
    moreover have "\<exists>q. ?R q" using 1(1) by blast
    ultimately show ?thesis
      using 1(3) take_pages_inv [OF assms(1)] 1(1) least by (simp add: Let_def)
  next
    case 2
    then show ?thesis by (simp add: Let_def) blast
  qed
qed

section \<open>Initialisation\<close>

lemma bit_ld32:
  assumes "n < 32"
  shows "bit (ld32 m a) n = bit (m (a + of_nat (n div 8))) (n mod 8)"
proof -
  consider "n < 8" | "8 \<le> n" "n < 16" | "16 \<le> n" "n < 24" | "24 \<le> n" using assms by linarith
  then show ?thesis
  proof cases
    case 1
    then show ?thesis by (simp add: ld32_def bit_simps)
  next
    case 2
    then have "n div 8 = 1" "n mod 8 = n - 8" by presburger+
    then show ?thesis using 2 by (auto simp: ld32_def bit_simps bit_u8_beyond)
  next
    case 3
    then have "n div 8 = 2" "n mod 8 = n - 16" by presburger+
    then show ?thesis using 3 by (auto simp: ld32_def bit_simps bit_u8_beyond)
  next
    case 4
    then have "n div 8 = 3" "n mod 8 = n - 24" using assms by presburger+
    then show ?thesis using 4 assms by (auto simp: ld32_def bit_simps bit_u8_beyond)
  qed
qed

lemma BITMAP_TEST_byte:
  assumes "r < 4294967296"
  shows "BITMAP_TEST s (of_nat r) = bit (pmem s (pmm_bitmap s + of_nat (r div 8))) (r mod 8)"
proof -
  have d: "(of_nat r :: u32) div 32 = of_nat (r div 32)"
    using assms by (simp add: word_unat_eq_iff unat_div unat_of_nat_u32)
  have m: "unat ((of_nat r :: u32) mod 32) = r mod 32" using assms by (simp add: unat_mod unat_of_nat_u32)
  have a: "pmm_bitmap s + 4 * of_nat (r div 32) + of_nat (r mod 32 div 8) = pmm_bitmap s + of_nat (r div 8)"
  proof -
    have "r div 8 = (8 * (4 * (r div 32)) + r mod 32) div 8" by simp
    also have "\<dots> = 4 * (r div 32) + r mod 32 div 8" by (rule div_mult_self4) simp
    finally have "r div 8 = 4 * (r div 32) + r mod 32 div 8" .
    then have "(of_nat (r div 8) :: u32) = 4 * of_nat (r div 32) + of_nat (r mod 32 div 8)"
      by (simp only: of_nat_add of_nat_mult of_nat_numeral)
    then show ?thesis by simp
  qed
  have "r mod 32 mod 8 = r mod 8" by (rule mod_mod_cancel) simp
  then show ?thesis
    using bit_ld32 [of "r mod 32" "pmem s" "pmm_bitmap s + 4 * of_nat (r div 32)", unfolded a]
    by (simp add: BITMAP_TEST_bit d m)
qed

lemma bit_0xFF: "n < 8 \<Longrightarrow> bit (0xFF :: u8) n"
proof -
  assume "n < 8"
  then have "n \<in> {0, 1, 2, 3, 4, 5, 6, 7}" by auto
  then show ?thesis by auto
qed

text \<open>The kernel image leaves room for the bitmap below the end of the address space.\<close>

definition kernel_fits :: "u32 \<Rightarrow> u32 \<Rightarrow> bool" where
  "kernel_fits kernel_end npages \<longleftrightarrow> unat npages \<le> 2 ^ 20 \<and> unat kernel_end + 2 ^ 19 \<le> 2 ^ 32"

lemma reserve_all_bitmap:
  assumes "kernel_fits kernel_end npages"
  shows "bitmap_ok (pmm_reserve_all kernel_end npages s)"
    and "unat (DIV_ROUND_UP npages 8) = (unat npages + 7) div 8"
    and "pmem (pmm_reserve_all kernel_end npages s) =
      filled (pmem s) (ALIGN_UP kernel_end 4096) 0xFF ((unat npages + 7) div 8)"
proof -
  have k: "unat kernel_end + 2 ^ 12 \<le> 2 ^ 32" using assms by (simp add: kernel_fits_def)
  have "(4096 :: nat) dvd unat (ALIGN_UP kernel_end 4096)" using ALIGN_UP_props(1) [of kernel_end 12] k by simp
  then have "4 dvd unat (ALIGN_UP kernel_end 4096)" by (rule dvd_trans [rotated]) simp
  then show "bitmap_ok (pmm_reserve_all kernel_end npages s)"
    by (simp add: bitmap_ok_def aligned4_def pmm_reserve_all_def Let_def)
  have n7: "unat (npages + 7) = unat npages + 7"
    using assms unat_add_of_nat [of npages 7] by (simp add: kernel_fits_def)
  then show d: "unat (DIV_ROUND_UP npages 8) = (unat npages + 7) div 8"
    by (simp add: DIV_ROUND_UP_def unat_div add_diff_eq [symmetric])
  have "(unat npages + 7) div 8 \<le> unat npages + 7" by (rule div_le_dividend)
  moreover have "unat npages + 7 < 2 ^ 32" using assms by (simp add: kernel_fits_def)
  ultimately have "(unat npages + 7) div 8 < 2 ^ 32" by (rule le_less_trans)
  then show "pmem (pmm_reserve_all kernel_end npages s) =
      filled (pmem s) (ALIGN_UP kernel_end 4096) 0xFF ((unat npages + 7) div 8)"
    using d memset_loop_filled by (simp add: pmm_reserve_all_def Let_def memset_def)
qed

lemma reserve_all_inv:
  assumes "kernel_fits kernel_end npages"
  shows "pmm_inv (pmm_reserve_all kernel_end npages s)"
    and "pmm_used (pmm_reserve_all kernel_end npages s) = {..<unat npages}"
proof -
  let ?s = "pmm_reserve_all kernel_end npages s"
  note R = reserve_all_bitmap [OF assms]
  have t: "total_pages ?s = npages" "used_pages ?s = npages" "pmm_bitmap ?s = ALIGN_UP kernel_end 4096"
    by (simp_all add: pmm_reserve_all_def Let_def)
  have "BITMAP_TEST ?s (of_nat r)" if r: "r < unat npages" for r
  proof -
    have "r div 8 < (unat npages + 7) div 8" using r by (simp add: div_less_iff_less_mult)
    moreover have "r div 8 < 4294967296" using below_unat_4G [OF r] by simp
    ultimately show ?thesis
      using BITMAP_TEST_byte [OF below_unat_4G [OF r], of ?s] bit_0xFF [of "r mod 8"]
      by (simp add: t R(3) filled_def unat_of_nat_u32)
  qed
  then show u: "pmm_used ?s = {..<unat npages}" by (auto simp: pmm_used_def t)
  show "pmm_inv ?s" using assms R(1) by (simp add: pmm_inv_def t u kernel_fits_def)
qed

text \<open>Without a memory map every page from the first managed one on is free.\<close>

lemma pmm_init_plain:
  assumes "mmap_addr = 0 \<or> mmap_length = 0"
    and n: "npages = (if mem_size_kb = 0 then 128 * 1024 else mem_size_kb) * 1024 div PAGE_SIZE"
    and fits: "kernel_fits kernel_end npages"
  shows "\<exists>s'. pmm_init kernel_end s mem_size_kb mmap_addr mmap_length = Some s' \<and> pmm_inv s' \<and>
    total_pages s' = npages \<and> pmm_used s' = {..<min (start_page s') (unat npages)}"
proof -
  let ?s = "pmm_reserve_all kernel_end npages s"
  have t: "total_pages ?s = npages" by (simp add: pmm_reserve_all_def Let_def)
  let ?S = "start_page ?s"
  have np: "\<not> (mmap_addr \<noteq> 0 \<and> 0 < mmap_length)" using assms(1) by (auto simp: word_gt_0)
  have eq: "pmm_init kernel_end s mem_size_kb mmap_addr mmap_length =
      Some (give_pages (unat npages - ?S) (of_nat ?S) ?s)"
    unfolding pmm_init_def pmm_page_count_def n [symmetric] if_not_P [OF np] by (simp add: t Let_def)
  have sub: "{?S..<?S + (unat npages - ?S)} \<subseteq> pmm_used ?s" using reserve_all_inv(2) [OF fits] by auto
  show ?thesis
  proof (cases "?S \<le> unat npages")
    case True
    then have "?S + (unat npages - ?S) \<le> 2 ^ 20" using fits by (simp add: kernel_fits_def)
    with give_pages_inv [OF reserve_all_inv(1) [OF fits, of s] sub] reserve_all_inv(2) [OF fits]
    show ?thesis using True eq t by auto
  next
    case False
    then show ?thesis using eq t reserve_all_inv [OF fits, of s] by auto
  qed
qed

section \<open>Initialisation from a memory map\<close>

definition bitmap_area :: "u32 \<Rightarrow> u32 \<Rightarrow> u32 set" where
  "bitmap_area bitmap npages = {x. unat (x - bitmap) < 4 * ((unat npages + 31) div 32)}"

lemma give_pages_frame:
  assumes "q + n \<le> unat (total_pages s)" and "x \<notin> bitmap_area (pmm_bitmap s) (total_pages s)"
  shows "pmem (give_pages n (of_nat q) s) x = pmem s x"
  using assms
proof (induction n arbitrary: q s)
  case (Suc n)
  let ?w = "pmm_bitmap s + 4 * (of_nat q div 32)"
  have q: "q < 4294967296" using Suc.prems(1) by (intro below_unat_4G [of q "total_pages s"]) simp
  have d: "4 * ((of_nat q :: u32) div 32) = of_nat (4 * (q div 32))"
    using q by (simp add: word_unat_eq_iff unat_word_ariths unat_div unat_of_nat)
  have "\<not> unat (x - ?w) < 4"
  proof
    assume "unat (x - ?w) < 4"
    then have "unat (x - pmm_bitmap s - of_nat (4 * (q div 32))) < 4" by (simp only: d diff_diff_eq)
    then have "unat (x - pmm_bitmap s) < 4 * (q div 32) + 4"
      using word_region_shift [of "4 * (q div 32)" 4 "x - pmm_bitmap s"] q by simp
    moreover have "q div 32 + 1 \<le> (unat (total_pages s) + 31) div 32"
      using Suc.prems(1) by simp
    ultimately show False using Suc.prems(2) by (simp add: bitmap_area_def)
  qed
  then have "pmem (give_page s (of_nat q)) x = pmem s x"
    by (simp add: give_page_def BITMAP_CLEAR_def st32_outside)
  moreover have "of_nat q + 1 = (of_nat (Suc q) :: u32)" by simp
  ultimately show ?case
    using Suc.IH [of "Suc q" "give_page s (of_nat q)"] Suc.prems by (simp only: give_pages.simps) simp
qed simp

text \<open>The pages a map entry contributes, given the first managed address and the page count.\<close>

definition entry_pages :: "mem \<Rightarrow> u32 \<Rightarrow> u32 \<Rightarrow> u32 \<Rightarrow> nat set" where
  "entry_pages m first npages entry =
     (let lo = max (ld32 m (entry + 4)) first; hi = mmap_end m entry
      in if mmap_usable m entry \<and> lo < hi
         then {unat (lo div PAGE_SIZE)..<min (unat (hi div PAGE_SIZE)) (unat npages)} else {})"

lemma mmap_release_entry_effect:
  fixes e :: u32
  assumes ok: "bitmap_ok s" and t: "unat (total_pages s) \<le> 2 ^ 20"
    and E_def: "E = entry_pages (pmem s) (pmm_start_addr s) (total_pages s) e"
    and s'_def: "s' = mmap_release_entry s e"
  shows "bitmap_ok s' \<and> total_pages s' = total_pages s \<and> pmm_bitmap s' = pmm_bitmap s \<and>
    pmm_start_addr s' = pmm_start_addr s \<and> pmm_used s' = pmm_used s - E \<and>
    used_pages s' = used_pages s - of_nat (card E) \<and>
    (\<forall>x. x \<notin> bitmap_area (pmm_bitmap s) (total_pages s) \<longrightarrow> pmem s' x = pmem s x)"
proof -
  let ?lo = "max (ld32 (pmem s) (e + 4)) (pmm_start_addr s)" and ?hi = "mmap_end (pmem s) e"
  let ?ep = "min (?hi div PAGE_SIZE) (total_pages s)" and ?sp = "?lo div PAGE_SIZE"
  have lo: "(if ld32 (pmem s) (e + 4) < pmm_start_addr s then pmm_start_addr s else ld32 (pmem s) (e + 4)) = ?lo"
    by (auto simp: max_def)
  have ep: "unat ?ep = min (unat (?hi div PAGE_SIZE)) (unat (total_pages s))"
    by (simp add: min_def word_le_nat_alt)
  show ?thesis
  proof (cases "mmap_usable (pmem s) e \<and> ?lo < ?hi \<and> unat ?sp \<le> unat ?ep")
    case True
    define q n where "q = unat ?sp" and "n = unat ?ep - unat ?sp"
    have E: "E = {q..<q + n}" using True by (simp add: E_def entry_pages_def Let_def q_def n_def ep)
    have s': "s' = give_pages n (of_nat q) s"
      using True by (simp add: s'_def mmap_release_entry_def Let_def lo q_def n_def)
    have qn: "q + n \<le> unat (total_pages s)" using True by (simp add: q_def n_def ep)
    then have "q + n \<le> 2 ^ 20" using t by linarith
    then show ?thesis
      unfolding s' E using used_give_pages [OF ok _ t] giving.run_ok [OF ok] give_pages_frame [OF qn] by simp
  next
    case False
    then have "E = {}" by (auto simp: E_def entry_pages_def Let_def ep)
    moreover have "s' = s"
    proof (cases "mmap_usable (pmem s) e \<and> ?lo < ?hi")
      case True
      then have "unat ?ep - unat ?sp = 0" using False by simp
      then show ?thesis by (simp add: s'_def mmap_release_entry_def Let_def lo)
    next
      case False
      then show ?thesis unfolding s'_def mmap_release_entry_def Let_def lo by auto
    qed
    ultimately show ?thesis using ok by simp
  qed
qed

text \<open>A memory map in memory, as the addresses of its entries, and memories that agree on it.\<close>

fun mmap_walk :: "mem \<Rightarrow> u32 \<Rightarrow> u32 \<Rightarrow> u32 \<Rightarrow> u32 list \<Rightarrow> bool" where
  "mmap_walk m addr len off [] \<longleftrightarrow> \<not> off < len"
| "mmap_walk m addr len off (e # es) \<longleftrightarrow>
     off < len \<and> e = addr + off \<and> mmap_walk m addr len (off + (ld32 m e + 4)) es"

definition entry_bytes :: "u32 \<Rightarrow> u32 set" where
  "entry_bytes e = {x. unat (x - e) < 24}"

lemma entry_field_cong:
  assumes "\<And>x. x \<in> entry_bytes e \<Longrightarrow> m x = m' x" and "k \<le> 20"
  shows "ld32 m (e + of_nat k) = ld32 m' (e + of_nat k)"
proof (rule ld32_cong)
  fix x assume "unat (x - (e + of_nat k)) < 4"
  then have "unat (x - e) < k + 4"
    using word_region_shift [of k 4 "x - e"] assms(2) by (simp add: diff_diff_eq)
  then show "m x = m' x" using assms by (simp add: entry_bytes_def)
qed

lemma entry_cong:
  assumes "\<And>x. x \<in> entry_bytes e \<Longrightarrow> m x = m' x"
  shows "ld32 m e = ld32 m' e" and "entry_pages m first npages e = entry_pages m' first npages e"
proof -
  have f: "ld32 m (e + of_nat k) = ld32 m' (e + of_nat k)" if "k \<le> 20" for k
    using assms that by (rule entry_field_cong)
  show "ld32 m e = ld32 m' e" using f [of 0] by simp
  show "entry_pages m first npages e = entry_pages m' first npages e"
    using f [of 4] f [of 8] f [of 12] f [of 20] by (simp add: entry_pages_def mmap_usable_def mmap_end_def)
qed

lemma mmap_release_effect:
  assumes "bitmap_ok s" and "unat (total_pages s) \<le> 2 ^ 20" and "mmap_walk m addr len off es"
    and "\<forall>e \<in> set es. entry_bytes e \<inter> bitmap_area (pmm_bitmap s) (total_pages s) = {}"
    and "\<And>e x. e \<in> set es \<Longrightarrow> x \<in> entry_bytes e \<Longrightarrow> pmem s x = m x"
    and "E = entry_pages m (pmm_start_addr s) (total_pages s)"
  shows "\<exists>s'. mmap_release addr len off s = Some s' \<and> bitmap_ok s' \<and> total_pages s' = total_pages s \<and>
    pmm_used s' = pmm_used s - \<Union> (E ` set es) \<and> used_pages s' = used_pages s - of_nat (\<Sum>e \<leftarrow> es. card (E e))"
  using assms
proof (induction es arbitrary: off s)
  case Nil
  then show ?case by (simp add: mmap_release.simps [of addr len off s])
next
  case (Cons e es)
  let ?s = "mmap_release_entry s e"
  have w: "off < len" "e = addr + off" "mmap_walk m addr len (off + (ld32 m e + 4)) es"
    using Cons.prems(3) by auto
  have ag: "pmem s x = m x" if "x \<in> entry_bytes e" for x using Cons.prems(5) [of e x] that by simp
  note eff = mmap_release_entry_effect [OF Cons.prems(1,2) refl refl, of e]
  have keep: "pmem ?s x = m x" if "e' \<in> set (e # es)" "x \<in> entry_bytes e'" for e' x
  proof -
    have "x \<notin> bitmap_area (pmm_bitmap s) (total_pages s)" using Cons.prems(4) that by blast
    then have "pmem ?s x = pmem s x" using eff by simp
    then show ?thesis using Cons.prems(5) [OF that] by simp
  qed
  have sz: "ld32 (pmem ?s) e = ld32 m e" by (rule entry_cong(1)) (use keep in auto)
  have E: "entry_pages (pmem s) (pmm_start_addr s) (total_pages s) e = E e"
    unfolding Cons.prems(6) by (rule entry_cong(2)) (use ag in auto)
  have step: "mmap_release addr len off s = mmap_release addr len (off + (ld32 m e + 4)) ?s"
    using w sz by (subst mmap_release.simps) (simp add: Let_def)
  have "\<exists>s'. mmap_release addr len (off + (ld32 m e + 4)) ?s = Some s' \<and> bitmap_ok s' \<and>
      total_pages s' = total_pages ?s \<and> pmm_used s' = pmm_used ?s - \<Union> (E ` set es) \<and>
      used_pages s' = used_pages ?s - of_nat (\<Sum>e \<leftarrow> es. card (E e))"
  proof (rule Cons.IH [OF _ _ w(3)])
    show "bitmap_ok ?s" "unat (total_pages ?s) \<le> 2 ^ 20"
      "\<forall>e \<in> set es. entry_bytes e \<inter> bitmap_area (pmm_bitmap ?s) (total_pages ?s) = {}"
      using eff Cons.prems(2,4) by auto
    show "E = entry_pages m (pmm_start_addr ?s) (total_pages ?s)" using eff Cons.prems(6) by simp
    show "pmem ?s x = m x" if "e' \<in> set es" "x \<in> entry_bytes e'" for e' x using keep [of e' x] that by simp
  qed
  then show ?case unfolding step using eff E by auto
qed

definition mmap_max_end :: "mem \<Rightarrow> u32 list \<Rightarrow> u32 \<Rightarrow> u32" where
  "mmap_max_end m es a = fold (\<lambda>e mx. if mmap_usable m e \<and> mmap_end m e > mx then mmap_end m e else mx) es a"

lemma mmap_max_addr_walk:
  "mmap_walk m addr len off es \<Longrightarrow> mmap_max_addr m addr len off a = Some (mmap_max_end m es a)"
  by (induction es arbitrary: off a)
    (simp_all add: mmap_max_addr.simps [of m addr len] mmap_max_end_def)

lemma bitmap_bytes_in_area: "(unat npages + 7) div 8 \<le> 4 * ((unat npages + 31) div 32)"
  by presburger

text \<open>Initialisation from a memory map that the walk gets through and that does not lie in the
  bitmap: \<open>pmm_init\<close> returns; the pages that are free afterwards are exactly those of the usable
  entries, above the bitmap and below the highest usable address; the count of used pages goes
  down by the length of every entry. When the entries do not overlap that count is the number of
  used pages; pages listed by two entries are subtracted twice.\<close>

theorem pmm_init_mmap:
  assumes map: "mmap_addr \<noteq> 0" "mmap_length \<noteq> 0" "mmap_walk (pmem s) mmap_addr mmap_length 0 es"
    and n: "npages = (if mmap_max_end (pmem s) es 0 > 0 then mmap_max_end (pmem s) es 0 div PAGE_SIZE
                      else mem_size_kb * 1024 div PAGE_SIZE)"
    and fits: "kernel_fits kernel_end npages"
    and apart: "\<forall>e \<in> set es. entry_bytes e \<inter> bitmap_area (ALIGN_UP kernel_end 4096) npages = {}"
    and E: "E = entry_pages (pmem s) (pmm_start_addr (pmm_reserve_all kernel_end npages s)) npages"
  shows "\<exists>s'. pmm_init kernel_end s mem_size_kb mmap_addr mmap_length = Some s' \<and> total_pages s' = npages \<and>
    pmm_used s' = {..<unat npages} - (\<Union>e \<in> set es. E e) \<and>
    used_pages s' = npages - of_nat (\<Sum>e \<leftarrow> es. card (E e)) \<and>
    (distinct es \<and> (\<forall>e \<in> set es. \<forall>e' \<in> set es. e \<noteq> e' \<longrightarrow> E e \<inter> E e' = {}) \<longrightarrow> pmm_inv s')"
proof -
  let ?s = "pmm_reserve_all kernel_end npages s"
  have f: "total_pages ?s = npages" "used_pages ?s = npages" "pmm_bitmap ?s = ALIGN_UP kernel_end 4096"
    by (simp_all add: pmm_reserve_all_def Let_def)
  note R = reserve_all_bitmap [OF fits] and I = reserve_all_inv [OF fits, of s]
  have init: "pmm_init kernel_end s mem_size_kb mmap_addr mmap_length = mmap_release mmap_addr mmap_length 0 ?s"
    using map n mmap_max_addr_walk [OF map(3), of 0]
    by (simp add: pmm_init_def pmm_page_count_def word_gt_0 Let_def)
  have same: "pmem ?s x = pmem s x" if "e \<in> set es" "x \<in> entry_bytes e" for e x
  proof -
    have "x \<notin> bitmap_area (ALIGN_UP kernel_end 4096) npages" using apart that by blast
    then show ?thesis
      using bitmap_bytes_in_area [of npages] by (simp add: R(3) filled_def bitmap_area_def)
  qed
  have t20: "unat (total_pages ?s) \<le> 2 ^ 20" using fits by (simp add: f kernel_fits_def)
  have E': "E = entry_pages (pmem s) (pmm_start_addr ?s) (total_pages ?s)" by (simp add: E f)
  have apart': "\<forall>e \<in> set es. entry_bytes e \<inter> bitmap_area (pmm_bitmap ?s) (total_pages ?s) = {}"
    using apart by (simp add: f)
  obtain s' where s': "mmap_release mmap_addr mmap_length 0 ?s = Some s'" "bitmap_ok s'" "total_pages s' = npages"
    "pmm_used s' = {..<unat npages} - \<Union> (E ` set es)"
    "used_pages s' = npages - of_nat (\<Sum>e \<leftarrow> es. card (E e))"
  proof -
    have "\<exists>s'. mmap_release mmap_addr mmap_length 0 ?s = Some s' \<and> bitmap_ok s' \<and>
      total_pages s' = total_pages ?s \<and> pmm_used s' = pmm_used ?s - \<Union> (E ` set es) \<and>
      used_pages s' = used_pages ?s - of_nat (\<Sum>e \<leftarrow> es. card (E e))"
      by (rule mmap_release_effect [OF R(1) t20 map(3) apart' _ E']) (rule same)
    then show thesis using that by (auto simp: f I(2))
  qed
  have "pmm_inv s'" if d: "distinct es" "\<forall>e \<in> set es. \<forall>e' \<in> set es. e \<noteq> e' \<longrightarrow> E e \<inter> E e' = {}"
  proof -
    have sub: "\<Union> (E ` set es) \<subseteq> {..<unat npages}"
      by (auto simp: E entry_pages_def Let_def split: if_splits)
    have fin: "\<forall>e \<in> set es. finite (E e)" by (auto simp: E entry_pages_def Let_def)
    have "(\<Sum>e \<leftarrow> es. card (E e)) = card (\<Union> (E ` set es))"
      using d fin by (simp add: sum_list_distinct_conv_sum_set card_UN_disjoint)
    moreover have "card ({..<unat npages} - \<Union> (E ` set es)) = unat npages - card (\<Union> (E ` set es))"
      using sub by (subst card_Diff_subset) (auto intro: finite_subset)
    moreover have "card (\<Union> (E ` set es)) \<le> unat npages" using card_mono [OF _ sub] by simp
    ultimately show ?thesis
      using s' fits by (simp add: pmm_inv_def kernel_fits_def of_nat_diff)
  qed
  with s' init show ?thesis by auto
qed

section \<open>Instances\<close>

text \<open>A small memory of 64 pages, all of them free, of which the first two are not managed.\<close>

definition small_pmm :: pmm_state where
  "small_pmm = \<lparr>pmem = (\<lambda>_. 0), pmm_bitmap = 0x1000, total_pages = 64, used_pages = 0, pmm_start_addr = 0x2000\<rparr>"

lemma small_pmm_facts:
  "pmm_used small_pmm = {}" "pmm_inv small_pmm" "start_page small_pmm = 2"
  "free_run small_pmm q n \<longleftrightarrow> q + n \<le> 64"
proof -
  show u: "pmm_used small_pmm = {}" by (simp add: pmm_used_def BITMAP_TEST_def small_pmm_def ld32_def)
  show "pmm_inv small_pmm"
    by (simp add: pmm_inv_def u) (simp add: small_pmm_def bitmap_ok_def aligned4_def)
  show "start_page small_pmm = 2" by (simp add: small_pmm_def PAGE_SIZE_def)
  show "free_run small_pmm q n \<longleftrightarrow> q + n \<le> 64" by (simp add: free_run_def u) (simp add: small_pmm_def)
qed

lemma small_pmm_least: "(LEAST q. 2 \<le> q \<and> q \<le> (61 :: nat)) = 2"
  by (rule Least_equality) auto

theorem pmm_alloc_pages_lowest_witness:
  "\<exists>s'. pmm_alloc_pages small_pmm 3 = (s', 0x2000) \<and> pmm_used s' = {2..<5} \<and> pmm_inv s'"
proof -
  have "\<exists>q \<ge> 2. q + 3 \<le> (64 :: nat)" by (rule exI [of _ 2]) simp
  then show ?thesis
    using pmm_alloc_pages_lowest [OF small_pmm_facts(2), of 3]
    by (cases "pmm_alloc_pages small_pmm 3")
      (simp add: small_pmm_facts small_pmm_least Let_def word_unat_eq_iff)
qed

theorem pmm_free_pages_exact_witness: "pmm_inv (pmm_free_pages small_pmm 0x3000 2)"
  using pmm_free_pages_exact [OF small_pmm_facts(2), of "0x3000" 2] by simp

theorem pmm_alloc_free_roundtrip_witness:
  "\<exists>s'. pmm_alloc_pages small_pmm 3 = (s', 0x2000) \<and> pmm_used (pmm_free_pages s' 0x2000 3) = {}"
proof -
  obtain q where q: "2 \<le> q" "q + 3 \<le> 64" "\<forall>q'. 2 \<le> q' \<and> q' < q \<longrightarrow> \<not> q' + 3 \<le> 64"
    "pmm_alloc_pages small_pmm 3 = (take_pages 3 (of_nat q) small_pmm, of_nat q * PAGE_SIZE)"
  proof (rule pmm_alloc_pages_cases [OF small_pmm_facts(2), of 3])
    assume "\<forall>q \<ge> start_page small_pmm. \<not> free_run small_pmm q (unat (3 :: u32))"
    then have "\<not> free_run small_pmm 2 3" by (simp add: small_pmm_facts(3))
    then show thesis by (simp add: small_pmm_facts(4))
  qed (use that in \<open>auto simp: small_pmm_facts\<close>)
  have "\<not> 2 < q" using q(2) q(3) [rule_format, of 2] by auto
  with q(1) have "q = 2" by simp
  then have a: "pmm_alloc_pages small_pmm 3 = (take_pages 3 2 small_pmm, 0x2000)"
    using q(4) by (simp add: PAGE_SIZE_def)
  show ?thesis using pmm_alloc_free_roundtrip [OF small_pmm_facts(2) a] a small_pmm_facts(1) by auto
qed

lemma small_pmm_least_aligned: "(LEAST q. 2 \<le> q \<and> 4 dvd q \<and> q \<le> (61 :: nat)) = 4"
proof (rule Least_equality)
  fix y :: nat
  assume "2 \<le> y \<and> 4 dvd y \<and> y \<le> 61"
  then show "4 \<le> y" by (auto dest: dvd_imp_le)
qed simp

theorem pmm_alloc_pages_aligned_lowest_witness:
  "\<exists>s' a. pmm_alloc_pages_aligned small_pmm 3 0x4000 = Some (s', a) \<and> unat a = 0x4000 \<and> pmm_used s' = {4..<7}"
proof -
  have "\<exists>q \<ge> 2. 4 dvd q \<and> q + 3 \<le> (64 :: nat)" by (rule exI [of _ 4]) simp
  then show ?thesis
    using pmm_alloc_pages_aligned_lowest [OF small_pmm_facts(2), of 3 2]
    by (simp add: small_pmm_facts small_pmm_least_aligned Let_def) blast
qed

text \<open>A map of one usable entry, the first four megabytes, at address 0x9000.\<close>

definition small_map :: pmm_state where
  "small_map = \<lparr>pmem = (\<lambda>_. 0)(0x9000 := 20, 0x900E := 0x40, 0x9014 := 1), pmm_bitmap = 0, total_pages = 0,
     used_pages = 0, pmm_start_addr = 0\<rparr>"

lemma small_map_facts:
  "mmap_walk (pmem small_map) 0x9000 24 0 [0x9000]"
  "mmap_max_end (pmem small_map) [0x9000] 0 = 0x400000"
  by (simp_all add: small_map_def ld32_def mmap_max_end_def mmap_usable_def mmap_end_def)

theorem pmm_init_mmap_witness:
  "\<exists>s'. pmm_init 0x100000 small_map 0 0x9000 24 = Some s' \<and> total_pages s' = 1024 \<and> pmm_inv s'"
proof -
  have a: "ALIGN_UP 0x100000 4096 = 0x100000" by (simp add: ALIGN_UP_def)
  have "entry_bytes 0x9000 \<inter> bitmap_area 0x100000 1024 = {}"
  proof (rule equals0I)
    fix x assume "x \<in> entry_bytes 0x9000 \<inter> bitmap_area 0x100000 1024"
    then have x: "unat (x - 0x9000) < 24" "unat (x - 0x100000) < 128"
      by (auto simp: entry_bytes_def bitmap_area_def)
    have "unat x < 0x9018" using unat_in_region [of x "0x9000" 24] x(1) by simp
    moreover have "0x100000 \<le> unat x" using unat_in_region [of x "0x100000" 128] x(2) by simp
    ultimately show False by simp
  qed
  then show ?thesis
    using pmm_init_mmap [OF _ _ small_map_facts(1), of 1024 0 "0x100000"]
    by (simp add: small_map_facts(2) a kernel_fits_def PAGE_SIZE_def) blast
qed

end
