(* ===== verification/Rtos.thy ===== *)
theory Rtos
  imports Heap "HOL-Library.Monad_Syntax"
begin

text \<open>
  Tasks and the scheduler: \<open>src/rtos/task.c\<close>, \<open>src/rtos/sched.c\<close> and \<open>src/rtos/time.c\<close>. The
  task table is a list of 32 control blocks and a task pointer an index into it (\<open>None\<close> is the
  null pointer); the static variables and the heap the stacks come from are the record \<open>rtos\<close>.

  Interrupts are masked while the code changes this state, so an operation is atomic up to the
  point where it yields: \<open>int 0x80\<close> enters the scheduler, which the argument \<open>regs\<close>, the address
  of the interrupt frame on the caller's stack, stands for. The state an operation returns is
  the one after that switch; the value it returns is what the caller sees once it runs again.
  \<open>None\<close> is a fault (a null pointer followed) or a loop that does not end.
\<close>

section \<open>Tasks\<close>

datatype task_state = TASK_STATE_UNUSED | TASK_STATE_READY | TASK_STATE_RUNNING
  | TASK_STATE_SLEEPING | TASK_STATE_BLOCKED | TASK_STATE_TERMINATED

record task =
  esp :: u32
  task_id :: u32
  task_name :: "u8 list"
  state :: task_state
  priority :: u8
  base_priority :: u8
  sleep_ticks :: u32
  runtime_ticks :: u32
  wait_object :: u32
  stack_base :: u32
  stack_size :: u32
  next_wait :: "nat option"

record rtos =
  task_table :: "task list"
  next_task_id :: u32
  current_task :: "nat option"
  idle_task :: "nat option"
  scheduler_running :: bool
  last_scheduled_idx :: nat
  rheap :: heap_state

definition MAX_TASKS :: nat where "MAX_TASKS = 32"
definition DEFAULT_STACK_SIZE :: u32 where "DEFAULT_STACK_SIZE = 16384"
definition RTOS_PRIORITY_IDLE :: u8 where "RTOS_PRIORITY_IDLE = 0"
definition RTOS_MAX_PRIORITY :: u8 where "RTOS_MAX_PRIORITY = 15"

abbreviation task_at :: "rtos \<Rightarrow> nat \<Rightarrow> task" where
  "task_at s k \<equiv> task_table s ! k"

definition upd_task :: "nat \<Rightarrow> (task \<Rightarrow> task) \<Rightarrow> rtos \<Rightarrow> rtos" where
  "upd_task k f s = s\<lparr>task_table := (task_table s)[k := f (task_at s k)]\<rparr>"

fun count_used :: "task list \<Rightarrow> nat" where
  "count_used [] = 0"
| "count_used (t # ts) = (if state t \<noteq> TASK_STATE_UNUSED then count_used ts + 1 else count_used ts)"

definition rtos_get_task_count :: "rtos \<Rightarrow> nat" where
  "rtos_get_task_count s = count_used (task_table s)"

text \<open>The \<open>index\<close>-th control block in use; \<open>i\<close> is the position of the head of the list.\<close>

fun nth_used :: "nat \<Rightarrow> nat \<Rightarrow> task list \<Rightarrow> nat option" where
  "nth_used i index [] = None"
| "nth_used i index (t # ts) =
     (if state t \<noteq> TASK_STATE_UNUSED
      then (if index = 0 then Some i else nth_used (i + 1) (index - 1) ts)
      else nth_used (i + 1) index ts)"

definition rtos_get_task_by_index :: "rtos \<Rightarrow> nat \<Rightarrow> nat option" where
  "rtos_get_task_by_index s index = nth_used 0 index (task_table s)"

fun find_id :: "nat \<Rightarrow> u32 \<Rightarrow> task list \<Rightarrow> nat option" where
  "find_id i n [] = None"
| "find_id i n (t # ts) =
     (if state t \<noteq> TASK_STATE_UNUSED \<and> task_id t = n then Some i else find_id (i + 1) n ts)"

definition rtos_get_task :: "rtos \<Rightarrow> u32 \<Rightarrow> nat option" where
  "rtos_get_task s n = find_id 0 n (task_table s)"

fun rtos_task_state_str :: "task_state \<Rightarrow> string" where
  "rtos_task_state_str TASK_STATE_READY = ''READY''"
| "rtos_task_state_str TASK_STATE_RUNNING = ''RUNNING''"
| "rtos_task_state_str TASK_STATE_SLEEPING = ''SLEEP''"
| "rtos_task_state_str TASK_STATE_BLOCKED = ''BLOCKED''"
| "rtos_task_state_str TASK_STATE_TERMINATED = ''TERM''"
| "rtos_task_state_str TASK_STATE_UNUSED = ''UNUSED''"

section \<open>Scheduler\<close>

definition rtos_is_running :: "rtos \<Rightarrow> bool" where
  "rtos_is_running s = scheduler_running s"

definition rtos_current_task :: "rtos \<Rightarrow> nat option" where
  "rtos_current_task s = current_task s"

definition runnable :: "task \<Rightarrow> bool" where
  "runnable t \<longleftrightarrow> state t = TASK_STATE_READY \<or> state t = TASK_STATE_RUNNING"

text \<open>One iteration of the selection loop: the state, the highest priority so far, the best task
  and its index.\<close>

fun find_step :: "nat \<Rightarrow> nat \<Rightarrow> nat \<Rightarrow> rtos \<times> int \<times> nat option \<times> nat \<Rightarrow> rtos \<times> int \<times> nat option \<times> nat" where
  "find_step count start_idx i (s, highest, best, best_idx) =
     (let idx = (start_idx + i) mod count
      in case rtos_get_task_by_index s idx of
           None \<Rightarrow> (s, highest, best, best_idx)
         | Some k \<Rightarrow>
             if runnable (task_at s k)
             then (let t = task_at s k;
                       (highest', best', best_idx') =
                         (if uint (priority t) > highest then (uint (priority t), Some k, idx)
                          else (highest, best, best_idx));
                       s' = (if uint (priority t) < 15
                             then upd_task k (\<lambda>t. t\<lparr>priority := priority t + 1\<rparr>) s else s)
                   in (s', highest', best', best_idx'))
             else (s, highest, best, best_idx))"

definition find_next_ready_task :: "rtos \<Rightarrow> rtos \<times> nat option" where
  "find_next_ready_task s =
     (let count = rtos_get_task_count s
      in if count = 0 then (s, idle_task s)
         else (let start_idx = (last_scheduled_idx s + 1) mod count;
                   (s1, _, best, best_idx) = fold (find_step count start_idx) [0..<count] (s, -1, None, 0)
               in case best of
                    Some k \<Rightarrow> ((upd_task k (\<lambda>t. t\<lparr>priority := base_priority t\<rparr>) s1)
                                 \<lparr>last_scheduled_idx := best_idx\<rparr>, Some k)
                  | None \<Rightarrow> (s1, idle_task s1)))"

text \<open>Waking the sleepers on a timer tick.\<close>

definition tick_task :: "task \<Rightarrow> task" where
  "tick_task t =
     (if state t = TASK_STATE_SLEEPING
      then (if sleep_ticks t > 0
            then (let t' = t\<lparr>sleep_ticks := sleep_ticks t - 1\<rparr>
                  in if sleep_ticks t' = 0 then t'\<lparr>state := TASK_STATE_READY\<rparr> else t')
            else t)
      else t)"

definition tick_step :: "nat \<Rightarrow> rtos \<Rightarrow> rtos" where
  "tick_step i s = (case rtos_get_task_by_index s i of None \<Rightarrow> s | Some k \<Rightarrow> upd_task k tick_task s)"

definition tick_sleepers :: "rtos \<Rightarrow> rtos" where
  "tick_sleepers s = fold tick_step [0..<rtos_get_task_count s] s"

definition charge_current :: "rtos \<Rightarrow> rtos" where
  "charge_current s =
     (case current_task s of None \<Rightarrow> s
      | Some k \<Rightarrow> upd_task k (\<lambda>t. t\<lparr>runtime_ticks := runtime_ticks t + 1\<rparr>) s)"

text \<open>The switch from the interrupted task to the selected one; the result is the stack pointer
  to return to.\<close>

definition switch_to :: "rtos \<Rightarrow> u32 \<Rightarrow> nat option \<Rightarrow> (rtos \<times> u32) option" where
  "switch_to s regs next =
     (if current_task s \<noteq> next
      then (let s1 = (case current_task s of None \<Rightarrow> s
                      | Some p \<Rightarrow> upd_task p (\<lambda>t. (t\<lparr>esp := regs\<rparr>)
                          \<lparr>state := if state t = TASK_STATE_RUNNING then TASK_STATE_READY else state t\<rparr>) s)
            in case next of None \<Rightarrow> None
               | Some k \<Rightarrow> (let s2 = (upd_task k (\<lambda>t. t\<lparr>state := TASK_STATE_RUNNING\<rparr>) s1)\<lparr>current_task := Some k\<rparr>
                            in Some (s2, esp (task_at s2 k))))
      else Some (s, regs))"

definition rtos_schedule_from_isr :: "rtos \<Rightarrow> u32 \<Rightarrow> u32 \<Rightarrow> (rtos \<times> u32) option" where
  "rtos_schedule_from_isr s regs int_no =
     (if \<not> scheduler_running s then Some (s, regs)
      else (let s1 = (if int_no = 32 then tick_sleepers s else s);
                s2 = charge_current s1;
                (s3, next) = find_next_ready_task s2;
                next' = (if next = None then idle_task s3 else next)
            in switch_to s3 regs next'))"

definition rtos_yield :: "rtos \<Rightarrow> u32 \<Rightarrow> rtos option" where
  "rtos_yield s regs =
     (if scheduler_running s then map_option fst (rtos_schedule_from_isr s regs 128) else Some s)"

definition rtos_reschedule :: "rtos \<Rightarrow> u32 \<Rightarrow> rtos option" where
  "rtos_reschedule s regs = rtos_yield s regs"

definition rtos_task_block :: "rtos \<Rightarrow> u32 \<Rightarrow> nat option \<Rightarrow> u32 \<Rightarrow> rtos option" where
  "rtos_task_block s regs task wait_obj =
     (case (if task = None then current_task s else task) of
        None \<Rightarrow> Some s
      | Some k \<Rightarrow> rtos_yield (upd_task k (\<lambda>t. t\<lparr>state := TASK_STATE_BLOCKED, wait_object := wait_obj\<rparr>) s) regs)"

definition rtos_task_unblock :: "rtos \<Rightarrow> u32 \<Rightarrow> nat option \<Rightarrow> rtos option" where
  "rtos_task_unblock s regs task =
     (case task of None \<Rightarrow> Some s
      | Some k \<Rightarrow>
          (let s1 = upd_task k (\<lambda>t. t\<lparr>state := TASK_STATE_READY, wait_object := 0\<rparr>) s
           in case current_task s1 of
                None \<Rightarrow> Some s1
              | Some c \<Rightarrow> if priority (task_at s1 k) > priority (task_at s1 c) then rtos_yield s1 regs else Some s1))"

text \<open>The state in which the first task starts, and its stack pointer.\<close>

definition rtos_sched_start :: "rtos \<Rightarrow> (rtos \<times> u32) option" where
  "rtos_sched_start s =
     (let (s1, first) = find_next_ready_task (s\<lparr>scheduler_running := True\<rparr>);
          first' = (if first = None then idle_task s1 else first)
      in case first' of None \<Rightarrow> None
         | Some k \<Rightarrow> (let s2 = (upd_task k (\<lambda>t. t\<lparr>state := TASK_STATE_RUNNING\<rparr>) s1)\<lparr>current_task := Some k\<rparr>
                      in Some (s2, esp (task_at s2 k))))"

section \<open>Creating and ending tasks\<close>

fun find_free_slot :: "nat \<Rightarrow> task list \<Rightarrow> nat option" where
  "find_free_slot i [] = None"
| "find_free_slot i (t # ts) =
     (if state t = TASK_STATE_UNUSED \<or> state t = TASK_STATE_TERMINATED then Some i else find_free_slot (i + 1) ts)"

text \<open>The array \<open>char name[32]\<close> after \<open>strncpy\<close> of at most 31 bytes and the final zero; the
  argument is the string without its terminator, \<open>None\<close> the null pointer.\<close>

definition task_name_field :: "u8 list option \<Rightarrow> u8 list" where
  "task_name_field name =
     (let src = take 31 (case name of Some n \<Rightarrow> n | None \<Rightarrow> map (of_nat \<circ> of_char) ''task'')
      in src @ replicate (31 - length src) 0 @ [0])"

text \<open>The stack of a new task: the arguments of \<open>task_entry_wrapper\<close> and the interrupt frame below
  them, whose fields are \<open>ds\<close> (0), eight registers, \<open>int_no\<close>, \<open>err_code\<close>, \<open>eip\<close> (44), \<open>cs\<close> (48)
  and \<open>eflags\<close> (52). \<open>wrapper\<close> and \<open>exit_fn\<close> are the addresses of \<open>task_entry_wrapper\<close> and
  \<open>rtos_task_exit\<close>.\<close>

definition initial_frame :: "mem \<Rightarrow> u32 \<Rightarrow> u32 \<Rightarrow> u32 \<Rightarrow> u32 \<Rightarrow> u32 \<Rightarrow> mem \<times> u32" where
  "initial_frame m stk_top arg entry wrapper exit_fn =
     (let stk1 = stk_top - 4; m1 = st32 m stk1 arg;
          stk2 = stk1 - 4; m2 = st32 m1 stk2 entry;
          stk3 = stk2 - 4; m3 = st32 m2 stk3 exit_fn;
          stk = stk3 - 56; m4 = memset m3 stk 0 56;
          m5 = st32 m4 stk 0x10;
          m6 = st32 m5 (stk + 44) wrapper;
          m7 = st32 m6 (stk + 48) 0x08;
          m8 = st32 m7 (stk + 52) 0x0202
      in (m8, stk))"

text \<open>The stack of a slot is kept when it is large enough and replaced otherwise.\<close>

definition provide_stack :: "rtos \<Rightarrow> nat \<Rightarrow> u32 \<Rightarrow> (rtos \<times> bool) option" where
  "provide_stack s k stack_sz =
     (let t = task_at s k
      in if stack_base t = 0 \<or> stack_size t < stack_sz
         then (let h = (if stack_base t \<noteq> 0 then kfree (rheap s) (stack_base t) else rheap s)
               in do {
                 (h', p) \<leftarrow> kmalloc_aligned h stack_sz 16;
                 let s1 = (upd_task k (\<lambda>t. t\<lparr>stack_base := p\<rparr>) s)\<lparr>rheap := h'\<rparr>;
                 if p = 0 then Some (s1, False)
                 else Some (upd_task k (\<lambda>t. t\<lparr>stack_size := stack_sz\<rparr>) s1, True)
               })
         else Some (s, True))"

definition init_tcb :: "rtos \<Rightarrow> nat \<Rightarrow> u8 list option \<Rightarrow> u32 \<Rightarrow> u32 \<Rightarrow> u8 \<Rightarrow> u32 \<Rightarrow> u32 \<Rightarrow> rtos" where
  "init_tcb s k name entry arg prio wrapper exit_fn =
     (let s1 = (upd_task k (\<lambda>t. t\<lparr>task_id := next_task_id s, task_name := task_name_field name,
                  priority := prio, base_priority := prio, sleep_ticks := 0, runtime_ticks := 0,
                  wait_object := 0, next_wait := None\<rparr>) s)\<lparr>next_task_id := next_task_id s + 1\<rparr>;
          t = task_at s1 k;
          (m, stk) = initial_frame (hmem (rheap s1)) (stack_base t + stack_size t) arg entry wrapper exit_fn
      in (upd_task k (\<lambda>t. t\<lparr>esp := stk, state := TASK_STATE_READY\<rparr>) s1)\<lparr>rheap := (rheap s1)\<lparr>hmem := m\<rparr>\<rparr>)"

definition rtos_task_create ::
    "rtos \<Rightarrow> u32 \<Rightarrow> u32 \<Rightarrow> u32 \<Rightarrow> u8 list option \<Rightarrow> u32 \<Rightarrow> u32 \<Rightarrow> u8 \<Rightarrow> u32 \<Rightarrow> (rtos \<times> nat option) option" where
  "rtos_task_create s regs wrapper exit_fn name entry arg prio0 stack_sz0 =
     (let prio = (if prio0 > RTOS_MAX_PRIORITY then RTOS_MAX_PRIORITY else prio0);
          stack_sz = (if stack_sz0 = 0 then DEFAULT_STACK_SIZE else stack_sz0)
      in case find_free_slot 0 (task_table s) of
           None \<Rightarrow> Some (s, None)
         | Some k \<Rightarrow> do {
             (s1, ok) \<leftarrow> provide_stack s k stack_sz;
             if \<not> ok then Some (s1, None)
             else do {
               let s2 = init_tcb s1 k name entry arg prio wrapper exit_fn;
               s3 \<leftarrow> (if rtos_is_running s2 then rtos_reschedule s2 regs else Some s2);
               Some (s3, Some k)
             }
           })"

definition rtos_sched_init :: "rtos \<Rightarrow> u32 \<Rightarrow> u32 \<Rightarrow> u32 \<Rightarrow> u32 \<Rightarrow> rtos option" where
  "rtos_sched_init s regs wrapper exit_fn idle_task_func = do {
     (s1, k) \<leftarrow> rtos_task_create (s\<lparr>scheduler_running := False, current_task := None, last_scheduled_idx := 0\<rparr>)
                 regs wrapper exit_fn (Some (map (of_nat \<circ> of_char) ''idle'')) idle_task_func 0 RTOS_PRIORITY_IDLE 4096;
     Some (s1\<lparr>idle_task := k\<rparr>)
   }"

definition rtos_task_exit :: "rtos \<Rightarrow> u32 \<Rightarrow> rtos option" where
  "rtos_task_exit s regs =
     rtos_reschedule (case rtos_current_task s of None \<Rightarrow> s
       | Some k \<Rightarrow> upd_task k (\<lambda>t. t\<lparr>state := TASK_STATE_TERMINATED\<rparr>) s) regs"

definition rtos_task_kill :: "rtos \<Rightarrow> u32 \<Rightarrow> u32 \<Rightarrow> rtos option" where
  "rtos_task_kill s regs n =
     rtos_reschedule (case find_id 0 n (task_table s) of None \<Rightarrow> s
       | Some k \<Rightarrow> upd_task k (\<lambda>t. t\<lparr>state := TASK_STATE_TERMINATED\<rparr>) s) regs"

section \<open>Time\<close>

definition PIT_FREQUENCY :: u32 where "PIT_FREQUENCY = 1000"

definition rtos_ticks_to_ms :: "u32 \<Rightarrow> u32" where
  "rtos_ticks_to_ms ticks = (ticks * 1000) div PIT_FREQUENCY"

definition rtos_ms_to_ticks :: "u32 \<Rightarrow> u32" where
  "rtos_ms_to_ticks ms = (ms * PIT_FREQUENCY) div 1000"

text \<open>\<open>timer_delay_ms\<close>, the hardware delay used before the scheduler runs, does not touch this
  state.\<close>

definition rtos_delay_ticks :: "rtos \<Rightarrow> u32 \<Rightarrow> u32 \<Rightarrow> rtos option" where
  "rtos_delay_ticks s regs ticks =
     (if ticks = 0 then Some s
      else if \<not> rtos_is_running s then Some s
      else case rtos_current_task s of
             None \<Rightarrow> Some s
           | Some k \<Rightarrow> rtos_reschedule (upd_task k (\<lambda>t. t\<lparr>sleep_ticks := ticks, state := TASK_STATE_SLEEPING\<rparr>) s) regs)"

definition rtos_sleep_ms :: "rtos \<Rightarrow> u32 \<Rightarrow> u32 \<Rightarrow> rtos option" where
  "rtos_sleep_ms s regs ms =
     (if ms = 0 then rtos_yield s regs
      else if \<not> rtos_is_running s then Some s
      else (let ticks = rtos_ms_to_ticks ms
            in rtos_delay_ticks s regs (if ticks = 0 then 1 else ticks)))"

end
