(* ===== verification/Sync.thy ===== *)
theory Sync
  imports Rtos
begin

text \<open>
  Synchronisation: \<open>src/rtos/sync.c\<close>. A synchronisation object is a record, its address (what
  \<open>wait_object\<close> holds) an argument. Wait queues are threaded through the \<open>next_wait\<close> fields of
  the task table. Each operation is one atomic section, ending with the switch when it blocks or
  wakes a task of higher priority; the message queue operations are sequences of such sections,
  between which other tasks may run.
\<close>

section \<open>Semaphores\<close>

record rtos_sem =
  sem_count :: int
  sem_max_count :: int
  sem_wait_head :: "nat option"
  sem_wait_tail :: "nat option"

definition rtos_sem_init :: "int \<Rightarrow> int \<Rightarrow> rtos_sem" where
  "rtos_sem_init initial_count max_cnt =
     \<lparr>sem_count = initial_count, sem_max_count = max_cnt, sem_wait_head = None, sem_wait_tail = None\<rparr>"

text \<open>The state with the two queue pointers.\<close>

type_synonym waitq = "rtos \<times> nat option \<times> nat option"

fun add_waiter :: "waitq \<Rightarrow> nat \<Rightarrow> waitq option" where
  "add_waiter (s, head, tail) task =
     (let s1 = upd_task task (\<lambda>t. t\<lparr>next_wait := None\<rparr>) s
      in if head = None then Some (s1, Some task, Some task)
         else case tail of None \<Rightarrow> None
              | Some l \<Rightarrow> Some (upd_task l (\<lambda>t. t\<lparr>next_wait := Some task\<rparr>) s1, head, Some task))"

fun pop_waiter :: "waitq \<Rightarrow> waitq \<times> nat option" where
  "pop_waiter (s, None, tail) = ((s, None, tail), None)"
| "pop_waiter (s, Some task, tail) =
     (let head' = next_wait (task_at s task);
          tail' = (if head' = None then None else tail)
      in ((upd_task task (\<lambda>t. t\<lparr>next_wait := None\<rparr>) s, head', tail'), Some task))"

definition rtos_sem_wait :: "rtos \<Rightarrow> u32 \<Rightarrow> u32 \<Rightarrow> rtos_sem \<Rightarrow> u32 \<Rightarrow> (rtos \<times> rtos_sem \<times> bool) option" where
  "rtos_sem_wait s regs addr sem timeout_ms =
     (if sem_count sem > 0 then Some (s, sem\<lparr>sem_count := sem_count sem - 1\<rparr>, True)
      else if timeout_ms = 0 then Some (s, sem, False)
      else case rtos_current_task s of
             None \<Rightarrow> Some (s, sem, False)
           | Some cur \<Rightarrow> do {
               (s1, hd', tl') \<leftarrow> add_waiter (s, sem_wait_head sem, sem_wait_tail sem) cur;
               s2 \<leftarrow> rtos_task_block s1 regs (Some cur) addr;
               Some (s2, sem\<lparr>sem_wait_head := hd', sem_wait_tail := tl'\<rparr>, True)
             })"

definition rtos_sem_signal :: "rtos \<Rightarrow> u32 \<Rightarrow> rtos_sem \<Rightarrow> (rtos \<times> rtos_sem) option" where
  "rtos_sem_signal s regs sem =
     (let ((s1, hd', tl'), waiter) = pop_waiter (s, sem_wait_head sem, sem_wait_tail sem);
          sem1 = sem\<lparr>sem_wait_head := hd', sem_wait_tail := tl'\<rparr>
      in if waiter \<noteq> None then do { s2 \<leftarrow> rtos_task_unblock s1 regs waiter; Some (s2, sem1) }
         else Some (s1, if sem_count sem1 < sem_max_count sem1 then sem1\<lparr>sem_count := sem_count sem1 + 1\<rparr> else sem1))"

section \<open>Mutexes\<close>

record rtos_mutex =
  locked :: bool
  recursion_count :: u32
  owner :: "nat option"
  mtx_wait_head :: "nat option"
  mtx_wait_tail :: "nat option"

definition rtos_mutex_init :: rtos_mutex where
  "rtos_mutex_init = \<lparr>locked = False, recursion_count = 0, owner = None, mtx_wait_head = None, mtx_wait_tail = None\<rparr>"

text \<open>Priority inheritance: the owner gets the priority of the waiter when that is higher.\<close>

definition boost_owner :: "rtos \<Rightarrow> nat option \<Rightarrow> nat option \<Rightarrow> rtos" where
  "boost_owner s cur own =
     (case (cur, own) of
        (Some c, Some w) \<Rightarrow>
          if priority (task_at s c) > priority (task_at s w)
          then upd_task w (\<lambda>t. t\<lparr>priority := priority (task_at s c)\<rparr>) s else s
      | _ \<Rightarrow> s)"

definition rtos_mutex_lock :: "rtos \<Rightarrow> u32 \<Rightarrow> u32 \<Rightarrow> rtos_mutex \<Rightarrow> u32 \<Rightarrow> (rtos \<times> rtos_mutex \<times> bool) option" where
  "rtos_mutex_lock s regs addr mutex timeout_ms =
     (if \<not> rtos_is_running s then Some (s, mutex, True)
      else let cur = rtos_current_task s in
        if \<not> locked mutex then Some (s, mutex\<lparr>locked := True, recursion_count := 1, owner := cur\<rparr>, True)
        else if cur \<noteq> None \<and> owner mutex = cur
             then Some (s, mutex\<lparr>recursion_count := recursion_count mutex + 1\<rparr>, True)
        else if timeout_ms = 0 then Some (s, mutex, False)
        else (let s1 = boost_owner s cur (owner mutex)
              in case cur of
                   None \<Rightarrow> Some (s1, mutex, True)
                 | Some c \<Rightarrow> do {
                     (s2, hd', tl') \<leftarrow> add_waiter (s1, mtx_wait_head mutex, mtx_wait_tail mutex) c;
                     s3 \<leftarrow> rtos_task_block s2 regs (Some c) addr;
                     Some (s3, mutex\<lparr>mtx_wait_head := hd', mtx_wait_tail := tl'\<rparr>, True)
                   }))"

definition restore_owner :: "rtos \<Rightarrow> nat option \<Rightarrow> rtos" where
  "restore_owner s own =
     (case own of None \<Rightarrow> s | Some w \<Rightarrow> upd_task w (\<lambda>t. t\<lparr>priority := base_priority t\<rparr>) s)"

definition rtos_mutex_unlock :: "rtos \<Rightarrow> u32 \<Rightarrow> rtos_mutex \<Rightarrow> (rtos \<times> rtos_mutex) option" where
  "rtos_mutex_unlock s regs mutex =
     (if \<not> rtos_is_running s then Some (s, mutex)
      else let cur = rtos_current_task s in
        if \<not> locked mutex \<or> cur \<noteq> None \<and> owner mutex \<noteq> cur then Some (s, mutex)
        else if recursion_count mutex > 1
             then Some (s, mutex\<lparr>recursion_count := recursion_count mutex - 1\<rparr>)
        else (let s1 = restore_owner s (owner mutex);
                  ((s2, hd', tl'), waiter) = pop_waiter (s1, mtx_wait_head mutex, mtx_wait_tail mutex);
                  mutex1 = mutex\<lparr>mtx_wait_head := hd', mtx_wait_tail := tl'\<rparr>
              in if waiter \<noteq> None
                 then do { s3 \<leftarrow> rtos_task_unblock s2 regs waiter;
                           Some (s3, mutex1\<lparr>owner := waiter, recursion_count := 1\<rparr>) }
                 else Some (s2, mutex1\<lparr>locked := False, recursion_count := 0, owner := None\<rparr>)))"

section \<open>Message queues\<close>

text \<open>The control block is allocated on the heap; the addresses of its semaphores and its lock are
  at offsets 24, 40 and 56 from it.\<close>

record rtos_queue =
  q_buffer :: u32
  item_size :: u32
  capacity :: u32
  q_count :: u32
  q_head :: u32
  q_tail :: u32
  sem_items :: rtos_sem
  sem_spaces :: rtos_sem
  q_lock :: rtos_mutex

definition rtos_queue_create :: "rtos \<Rightarrow> u32 \<Rightarrow> u32 \<Rightarrow> (rtos \<times> (u32 \<times> rtos_queue) option) option" where
  "rtos_queue_create s isize cap = do {
     (h1, q) \<leftarrow> kmalloc (rheap s) 76;
     if q = 0 then Some (s\<lparr>rheap := h1\<rparr>, None)
     else do {
       (h2, buf) \<leftarrow> kmalloc h1 (isize * cap);
       if buf = 0 then Some (s\<lparr>rheap := kfree h2 q\<rparr>, None)
       else Some (s\<lparr>rheap := h2\<rparr>,
         Some (q, \<lparr>q_buffer = buf, item_size = isize, capacity = cap, q_count = 0, q_head = 0, q_tail = 0,
                   sem_items = rtos_sem_init 0 (sint cap), sem_spaces = rtos_sem_init (sint cap) (sint cap),
                   q_lock = rtos_mutex_init\<rparr>))
     }
   }"

definition rtos_queue_destroy :: "rtos \<Rightarrow> u32 \<Rightarrow> rtos_queue \<Rightarrow> rtos" where
  "rtos_queue_destroy s qaddr q =
     (if qaddr \<noteq> 0
      then (let h = (if q_buffer q \<noteq> 0 then kfree (rheap s) (q_buffer q) else rheap s)
            in s\<lparr>rheap := kfree h qaddr\<rparr>)
      else s)"

text \<open>The copy under the lock.\<close>

definition queue_put :: "rtos \<Rightarrow> rtos_queue \<Rightarrow> u32 \<Rightarrow> rtos \<times> rtos_queue" where
  "queue_put s q item =
     (s\<lparr>rheap := (rheap s)\<lparr>hmem := memcpy (hmem (rheap s)) (q_buffer q + q_tail q * item_size q) item (item_size q)\<rparr>\<rparr>,
      q\<lparr>q_tail := (q_tail q + 1) mod capacity q, q_count := q_count q + 1\<rparr>)"

definition queue_get :: "rtos \<Rightarrow> rtos_queue \<Rightarrow> u32 \<Rightarrow> rtos \<times> rtos_queue" where
  "queue_get s q item =
     (s\<lparr>rheap := (rheap s)\<lparr>hmem := memcpy (hmem (rheap s)) item (q_buffer q + q_head q * item_size q) (item_size q)\<rparr>\<rparr>,
      q\<lparr>q_head := (q_head q + 1) mod capacity q, q_count := q_count q - 1\<rparr>)"

text \<open>A call of send or receive goes through atomic sections; \<open>queue_pc\<close> is the next one. A section
  that switches to another task leaves the call suspended at the next section, which it takes
  when its task runs again.\<close>

datatype queue_pc = Q_Wait | Q_Lock | Q_Copy | Q_Unlock | Q_Signal | Q_Done bool

fun queue_send_step ::
    "u32 \<Rightarrow> u32 \<Rightarrow> u32 \<Rightarrow> u32 \<Rightarrow> rtos \<times> rtos_queue \<times> queue_pc \<Rightarrow> (rtos \<times> rtos_queue \<times> queue_pc) option" where
  "queue_send_step regs qaddr item timeout_ms (s, q, Q_Wait) =
     (if qaddr = 0 \<or> item = 0 then Some (s, q, Q_Done False)
      else do {
        (s1, sem, ok) \<leftarrow> rtos_sem_wait s regs (qaddr + 40) (sem_spaces q) timeout_ms;
        Some (s1, q\<lparr>sem_spaces := sem\<rparr>, if ok then Q_Lock else Q_Done False)
      })"
| "queue_send_step regs qaddr item timeout_ms (s, q, Q_Lock) = do {
     (s1, lck, _) \<leftarrow> rtos_mutex_lock s regs (qaddr + 56) (q_lock q) 0xFFFFFFFF;
     Some (s1, q\<lparr>q_lock := lck\<rparr>, Q_Copy)
   }"
| "queue_send_step regs qaddr item timeout_ms (s, q, Q_Copy) =
     (let (s1, q1) = queue_put s q item in Some (s1, q1, Q_Unlock))"
| "queue_send_step regs qaddr item timeout_ms (s, q, Q_Unlock) = do {
     (s1, lck) \<leftarrow> rtos_mutex_unlock s regs (q_lock q);
     Some (s1, q\<lparr>q_lock := lck\<rparr>, Q_Signal)
   }"
| "queue_send_step regs qaddr item timeout_ms (s, q, Q_Signal) = do {
     (s1, sem) \<leftarrow> rtos_sem_signal s regs (sem_items q);
     Some (s1, q\<lparr>sem_items := sem\<rparr>, Q_Done True)
   }"
| "queue_send_step regs qaddr item timeout_ms (s, q, Q_Done r) = Some (s, q, Q_Done r)"

fun queue_receive_step ::
    "u32 \<Rightarrow> u32 \<Rightarrow> u32 \<Rightarrow> u32 \<Rightarrow> rtos \<times> rtos_queue \<times> queue_pc \<Rightarrow> (rtos \<times> rtos_queue \<times> queue_pc) option" where
  "queue_receive_step regs qaddr item timeout_ms (s, q, Q_Wait) =
     (if qaddr = 0 \<or> item = 0 then Some (s, q, Q_Done False)
      else do {
        (s1, sem, ok) \<leftarrow> rtos_sem_wait s regs (qaddr + 24) (sem_items q) timeout_ms;
        Some (s1, q\<lparr>sem_items := sem\<rparr>, if ok then Q_Lock else Q_Done False)
      })"
| "queue_receive_step regs qaddr item timeout_ms (s, q, Q_Lock) = do {
     (s1, lck, _) \<leftarrow> rtos_mutex_lock s regs (qaddr + 56) (q_lock q) 0xFFFFFFFF;
     Some (s1, q\<lparr>q_lock := lck\<rparr>, Q_Copy)
   }"
| "queue_receive_step regs qaddr item timeout_ms (s, q, Q_Copy) =
     (let (s1, q1) = queue_get s q item in Some (s1, q1, Q_Unlock))"
| "queue_receive_step regs qaddr item timeout_ms (s, q, Q_Unlock) = do {
     (s1, lck) \<leftarrow> rtos_mutex_unlock s regs (q_lock q);
     Some (s1, q\<lparr>q_lock := lck\<rparr>, Q_Signal)
   }"
| "queue_receive_step regs qaddr item timeout_ms (s, q, Q_Signal) = do {
     (s1, sem) \<leftarrow> rtos_sem_signal s regs (sem_spaces q);
     Some (s1, q\<lparr>sem_spaces := sem\<rparr>, Q_Done True)
   }"
| "queue_receive_step regs qaddr item timeout_ms (s, q, Q_Done r) = Some (s, q, Q_Done r)"

text \<open>Sections one after the other as long as the caller keeps the processor; a call has five.\<close>

fun queue_run ::
    "(rtos \<times> rtos_queue \<times> queue_pc \<Rightarrow> (rtos \<times> rtos_queue \<times> queue_pc) option) \<Rightarrow> nat \<Rightarrow>
     rtos \<times> rtos_queue \<times> queue_pc \<Rightarrow> (rtos \<times> rtos_queue \<times> queue_pc) option" where
  "queue_run step 0 c = Some c"
| "queue_run step (Suc n) c = do {
     c' \<leftarrow> step c;
     if current_task (fst c') = current_task (fst c) then queue_run step n c' else Some c'
   }"

definition rtos_queue_send ::
    "rtos \<Rightarrow> u32 \<Rightarrow> u32 \<Rightarrow> rtos_queue \<Rightarrow> u32 \<Rightarrow> u32 \<Rightarrow> (rtos \<times> rtos_queue \<times> queue_pc) option" where
  "rtos_queue_send s regs qaddr q item timeout_ms =
     queue_run (queue_send_step regs qaddr item timeout_ms) 5 (s, q, Q_Wait)"

definition rtos_queue_receive ::
    "rtos \<Rightarrow> u32 \<Rightarrow> u32 \<Rightarrow> rtos_queue \<Rightarrow> u32 \<Rightarrow> u32 \<Rightarrow> (rtos \<times> rtos_queue \<times> queue_pc) option" where
  "rtos_queue_receive s regs qaddr q item timeout_ms =
     queue_run (queue_receive_step regs qaddr item timeout_ms) 5 (s, q, Q_Wait)"

definition rtos_queue_count :: "u32 \<Rightarrow> rtos_queue \<Rightarrow> u32" where
  "rtos_queue_count qaddr q = (if qaddr \<noteq> 0 then q_count q else 0)"

section \<open>Event flags\<close>

record rtos_event =
  ev_flags :: u32
  ev_wait_head :: "nat option"

definition rtos_event_init :: rtos_event where
  "rtos_event_init = \<lparr>ev_flags = 0, ev_wait_head = None\<rparr>"

text \<open>One pass of the waiting loop: either the flags are there (or nobody can wait for them) and the
  call returns them, or the caller blocks, to try again (\<open>None\<close> in the last component) when it
  next runs.\<close>

definition rtos_event_wait ::
    "rtos \<Rightarrow> u32 \<Rightarrow> u32 \<Rightarrow> rtos_event \<Rightarrow> u32 \<Rightarrow> bool \<Rightarrow> (rtos \<times> rtos_event \<times> u32 option) option" where
  "rtos_event_wait s regs addr ev flag_mask clear_on_exit =
     (let res = ev_flags ev AND flag_mask;
          finish = Some (s, if clear_on_exit then ev\<lparr>ev_flags := ev_flags ev AND NOT flag_mask\<rparr> else ev, Some res)
      in if res \<noteq> 0 then finish
         else case rtos_current_task s of
                None \<Rightarrow> finish
              | Some cur \<Rightarrow> do {
                  s' \<leftarrow> rtos_reschedule (upd_task cur (\<lambda>t. t\<lparr>wait_object := addr, state := TASK_STATE_BLOCKED\<rparr>) s) regs;
                  Some (s', ev, None)
                })"

definition wake_waiter :: "u32 \<Rightarrow> task \<Rightarrow> task" where
  "wake_waiter addr t =
     (if state t = TASK_STATE_BLOCKED \<and> wait_object t = addr
      then t\<lparr>state := TASK_STATE_READY, wait_object := 0\<rparr> else t)"

definition event_wake_step :: "u32 \<Rightarrow> nat \<Rightarrow> rtos \<Rightarrow> rtos" where
  "event_wake_step addr i s =
     (case rtos_get_task_by_index s i of None \<Rightarrow> s | Some k \<Rightarrow> upd_task k (wake_waiter addr) s)"

definition rtos_event_set :: "rtos \<Rightarrow> u32 \<Rightarrow> u32 \<Rightarrow> rtos_event \<Rightarrow> u32 \<Rightarrow> (rtos \<times> rtos_event) option" where
  "rtos_event_set s regs addr ev flag_mask = do {
     s' \<leftarrow> rtos_reschedule (fold (event_wake_step addr) [0..<rtos_get_task_count s] s) regs;
     Some (s', ev\<lparr>ev_flags := ev_flags ev OR flag_mask\<rparr>)
   }"

definition rtos_event_clear :: "rtos_event \<Rightarrow> u32 \<Rightarrow> rtos_event" where
  "rtos_event_clear ev flag_mask = ev\<lparr>ev_flags := ev_flags ev AND NOT flag_mask\<rparr>"

end
