(* ===== verification/Sched.thy ===== *)
theory Sched
  imports Rtos
begin

text \<open>
  The scheduler's guarantees: which task \<open>find_next_ready_task\<close> selects, the invariant every
  operation keeps, that a runnable task is selected within a bounded number of rounds, and that
  a sleeping task wakes exactly when its ticks are over.
\<close>

section \<open>The control blocks in use\<close>

fun used_from :: "nat \<Rightarrow> task list \<Rightarrow> nat list" where
  "used_from i [] = []"
| "used_from i (t # ts) = (if state t \<noteq> TASK_STATE_UNUSED then i # used_from (i + 1) ts else used_from (i + 1) ts)"

definition used_tasks :: "rtos \<Rightarrow> nat list" where
  "used_tasks s = used_from 0 (task_table s)"

lemma count_used_length: "count_used ts = length (used_from i ts)"
  by (induction ts arbitrary: i) simp_all

lemma nth_used_nth: "nth_used i n ts = (if n < length (used_from i ts) then Some (used_from i ts ! n) else None)"
  by (induction i n ts rule: nth_used.induct) (auto simp: nth_Cons')

lemma set_used_from: "set (used_from i ts) = {i + k | k. k < length ts \<and> state (ts ! k) \<noteq> TASK_STATE_UNUSED}"
proof (induction ts arbitrary: i)
  case (Cons t ts)
  have "{i + k | k. k < length (t # ts) \<and> state ((t # ts) ! k) \<noteq> TASK_STATE_UNUSED} =
      (if state t \<noteq> TASK_STATE_UNUSED then {i} else {}) \<union>
      {Suc i + k | k. k < length ts \<and> state (ts ! k) \<noteq> TASK_STATE_UNUSED}"
    by (auto simp: less_Suc_eq_0_disj)
  then show ?case using Cons.IH [of "Suc i"] by simp
qed simp

lemma distinct_used_from: "distinct (used_from i ts)"
proof (induction ts arbitrary: i)
  case (Cons t ts)
  then show ?case using set_used_from [of "Suc i" ts] by auto
qed simp

lemma used_from_cong:
  "length ts = length ts' \<Longrightarrow> (\<And>k. k < length ts \<Longrightarrow> (state (ts ! k) = TASK_STATE_UNUSED) = (state (ts' ! k) = TASK_STATE_UNUSED))
    \<Longrightarrow> used_from i ts = used_from i ts'"
proof (induction ts arbitrary: i ts')
  case (Cons t ts)
  then obtain t' us where ts': "ts' = t' # us" by (cases ts') auto
  have "used_from (i + 1) ts = used_from (i + 1) us"
    using Cons.prems(1) Cons.prems(2) [of "Suc _"] by (intro Cons.IH) (auto simp: ts')
  then show ?case using Cons.prems(2) [of 0] by (simp add: ts')
qed simp

lemma used_tasks_cong:
  assumes "length (task_table s) = length (task_table s')"
    and "\<And>k. k < length (task_table s) \<Longrightarrow>
      (state (task_at s k) = TASK_STATE_UNUSED) = (state (task_at s' k) = TASK_STATE_UNUSED)"
  shows "used_tasks s = used_tasks s'"
  unfolding used_tasks_def using assms by (rule used_from_cong)

lemma task_count: "rtos_get_task_count s = length (used_tasks s)"
  by (simp add: rtos_get_task_count_def used_tasks_def count_used_length [of _ 0])

lemma task_by_index:
  "rtos_get_task_by_index s i = (if i < length (used_tasks s) then Some (used_tasks s ! i) else None)"
  by (simp add: rtos_get_task_by_index_def used_tasks_def nth_used_nth)

lemma in_used_tasks: "k \<in> set (used_tasks s) \<longleftrightarrow> k < length (task_table s) \<and> state (task_at s k) \<noteq> TASK_STATE_UNUSED"
  by (auto simp: used_tasks_def set_used_from)

lemma distinct_used_tasks: "distinct (used_tasks s)"
  by (simp add: used_tasks_def distinct_used_from)

section \<open>Selection\<close>

text \<open>The order in which the loop visits the tasks.\<close>

definition sched_order :: "rtos \<Rightarrow> nat list" where
  "sched_order s = rotate ((last_scheduled_idx s + 1) mod length (used_tasks s)) (used_tasks s)"

lemma sched_order_nth:
  "i < length (used_tasks s) \<Longrightarrow>
    sched_order s ! i = used_tasks s ! (((last_scheduled_idx s + 1) mod length (used_tasks s) + i) mod length (used_tasks s))"
  by (simp add: sched_order_def nth_rotate)

lemma sched_order_props [simp]:
  "length (sched_order s) = length (used_tasks s)" "set (sched_order s) = set (used_tasks s)"
  "distinct (sched_order s)"
  by (simp_all add: sched_order_def distinct_used_tasks)

text \<open>Applying a function to the tasks of a set.\<close>

definition on_tasks :: "(task \<Rightarrow> task) \<Rightarrow> nat set \<Rightarrow> rtos \<Rightarrow> rtos" where
  "on_tasks f K s = s\<lparr>task_table := map (\<lambda>k. if k \<in> K then f (task_at s k) else task_at s k) [0..<length (task_table s)]\<rparr>"

lemma on_tasks_simps [simp]:
  "length (task_table (on_tasks f K s)) = length (task_table s)"
  "k < length (task_table s) \<Longrightarrow> task_at (on_tasks f K s) k = (if k \<in> K then f (task_at s k) else task_at s k)"
  "last_scheduled_idx (on_tasks f K s) = last_scheduled_idx s" "current_task (on_tasks f K s) = current_task s"
  "idle_task (on_tasks f K s) = idle_task s" "scheduler_running (on_tasks f K s) = scheduler_running s"
  "rheap (on_tasks f K s) = rheap s"
  by (simp_all add: on_tasks_def)

lemma on_tasks_empty [simp]: "on_tasks f {} s = s"
  by (simp add: on_tasks_def map_nth)

lemma upd_task_simps [simp]:
  "length (task_table (upd_task k f s)) = length (task_table s)"
  "j < length (task_table s) \<Longrightarrow> task_at (upd_task k f s) j = (if j = k then f (task_at s k) else task_at s j)"
  "last_scheduled_idx (upd_task k f s) = last_scheduled_idx s" "current_task (upd_task k f s) = current_task s"
  "idle_task (upd_task k f s) = idle_task s" "scheduler_running (upd_task k f s) = scheduler_running s"
  "rheap (upd_task k f s) = rheap s"
  by (simp_all add: upd_task_def nth_list_update)

lemma on_tasks_insert:
  assumes "k < length (task_table s)" and "k \<notin> K"
  shows "on_tasks f (insert k K) s = upd_task k f (on_tasks f K s)"
proof -
  have "map (\<lambda>j. if j \<in> insert k K then f (task_at s j) else task_at s j) [0..<length (task_table s)] =
      (map (\<lambda>j. if j \<in> K then f (task_at s j) else task_at s j) [0..<length (task_table s)])
        [k := f (task_at s k)]"
    using assms by (intro nth_equalityI) (auto simp: nth_list_update)
  then show ?thesis using assms by (simp add: on_tasks_def upd_task_def)
qed

lemma used_tasks_on_tasks:
  "(\<And>t. (state (f t) = TASK_STATE_UNUSED) = (state t = TASK_STATE_UNUSED)) \<Longrightarrow> used_tasks (on_tasks f K s) = used_tasks s"
  by (rule used_tasks_cong) auto

definition age_task :: "task \<Rightarrow> task" where
  "age_task t = (if runnable t \<and> uint (priority t) < 15 then t\<lparr>priority := priority t + 1\<rparr> else t)"

lemma age_task_simps [simp]: "state (age_task t) = state t" "base_priority (age_task t) = base_priority t"
  by (simp_all add: age_task_def)

abbreviation aged :: "nat set \<Rightarrow> rtos \<Rightarrow> rtos" where
  "aged \<equiv> on_tasks age_task"

lemma used_tasks_aged: "used_tasks (aged K s) = used_tasks s"
  by (rule used_tasks_on_tasks) simp

definition prio :: "rtos \<Rightarrow> nat \<Rightarrow> int" where
  "prio s k = uint (priority (task_at s k))"

text \<open>The best candidate among the first \<open>n\<close> tasks of the order.\<close>

definition best_among :: "rtos \<Rightarrow> nat \<Rightarrow> nat \<Rightarrow> bool" where
  "best_among s n m \<longleftrightarrow> m < n \<and> runnable (task_at s (sched_order s ! m)) \<and>
     (\<forall>j < n. runnable (task_at s (sched_order s ! j)) \<longrightarrow> prio s (sched_order s ! j) \<le> prio s (sched_order s ! m)) \<and>
     (\<forall>j < m. runnable (task_at s (sched_order s ! j)) \<longrightarrow> prio s (sched_order s ! j) < prio s (sched_order s ! m))"

definition none_among :: "rtos \<Rightarrow> nat \<Rightarrow> bool" where
  "none_among s n \<longleftrightarrow> (\<forall>j < n. \<not> runnable (task_at s (sched_order s ! j)))"

definition loop_result :: "rtos \<Rightarrow> nat \<Rightarrow> rtos \<times> int \<times> nat option \<times> nat \<Rightarrow> bool" where
  "loop_result s n r \<longleftrightarrow>
     none_among s n \<and> r = (aged (set (take n (sched_order s))) s, -1, None, 0) \<or>
     (\<exists>m. best_among s n m \<and> r = (aged (set (take n (sched_order s))) s, prio s (sched_order s ! m),
        Some (sched_order s ! m),
        ((last_scheduled_idx s + 1) mod length (used_tasks s) + m) mod length (used_tasks s)))"

lemma find_step_order:
  assumes "n < length (used_tasks s)" and "used_tasks s' = used_tasks s"
  defines "k \<equiv> sched_order s ! n" and "c \<equiv> length (used_tasks s)"
  shows "find_step c ((last_scheduled_idx s + 1) mod c) n (s', h, b, bi) =
    (upd_task k age_task s',
     if runnable (task_at s' k) \<and> uint (priority (task_at s' k)) > h
     then (uint (priority (task_at s' k)), Some k, ((last_scheduled_idx s + 1) mod c + n) mod c) else (h, b, bi))"
proof -
  let ?idx = "((last_scheduled_idx s + 1) mod c + n) mod c"
  have "0 < c" using assms(1) by (auto simp: c_def)
  then have "?idx < c" by (rule mod_less_divisor)
  then have g: "rtos_get_task_by_index s' ?idx = Some k"
    using assms(1,2) by (simp add: task_by_index k_def c_def sched_order_nth)
  have same: "upd_task k age_task s' = s'" if "age_task (task_at s' k) = task_at s' k"
    using that by (simp add: upd_task_def)
  show ?thesis
    using g same by (auto simp: Let_def age_task_def upd_task_def split: option.splits)
qed

declare find_step.simps [simp del]

lemma best_among_Suc:
  assumes "best_among s n m" and "k = sched_order s ! n"
  shows "if runnable (task_at s k) \<and> prio s k > prio s (sched_order s ! m) then best_among s (Suc n) n
    else best_among s (Suc n) m"
  using assms unfolding best_among_def by (auto simp: less_Suc_eq not_less)

lemma none_among_Suc:
  assumes "none_among s n" and "k = sched_order s ! n"
  shows "if runnable (task_at s k) then best_among s (Suc n) n else none_among s (Suc n)"
  using assms unfolding best_among_def none_among_def by (auto simp: less_Suc_eq)

lemma find_loop:
  assumes "n \<le> length (used_tasks s)"
  defines "c \<equiv> length (used_tasks s)"
  shows "loop_result s n (fold (find_step c ((last_scheduled_idx s + 1) mod c)) [0..<n] (s, -1, None, 0))"
  using assms(1)
proof (induction n)
  case 0
  then show ?case by (simp add: loop_result_def none_among_def)
next
  case (Suc n)
  let ?L = "sched_order s" let ?K = "set (take n ?L)" let ?k = "?L ! n"
  have n: "n < length (used_tasks s)" using Suc.prems by simp
  have k: "?k < length (task_table s)" "?k \<notin> ?K"
  proof -
    have "?k \<in> set (used_tasks s)" using n by (metis nth_mem sched_order_props(1,2))
    then show "?k < length (task_table s)" by (simp add: in_used_tasks)
    show "?k \<notin> ?K" using n sched_order_props(1,3) [of s] by (auto simp: in_set_conv_nth nth_eq_iff_index_eq)
  qed
  have K: "set (take (Suc n) ?L) = insert ?k ?K" using n by (simp add: take_Suc_conv_app_nth)
  have aged': "upd_task ?k age_task (aged ?K s) = aged (set (take (Suc n) ?L)) s"
    unfolding K using on_tasks_insert [OF k] by simp
  have at: "task_at (aged ?K s) ?k = task_at s ?k" using k by simp
  note step = find_step_order [OF n used_tasks_aged, of ?K, folded c_def, unfolded at aged']
  have p: "-1 < uint (priority (task_at s ?k))"
    using unsigned_greater_eq [of "priority (task_at s ?k)", where 'a = int] by linarith
  have "loop_result s n (fold (find_step c ((last_scheduled_idx s + 1) mod c)) [0..<n] (s, -1, None, 0))"
    using Suc.IH n by simp
  then consider
      (none) "none_among s n"
        "fold (find_step c ((last_scheduled_idx s + 1) mod c)) [0..<n] (s, -1, None, 0) = (aged ?K s, -1, None, 0)"
    | (best) m where "best_among s n m"
        "fold (find_step c ((last_scheduled_idx s + 1) mod c)) [0..<n] (s, -1, None, 0) =
          (aged ?K s, prio s (?L ! m), Some (?L ! m), ((last_scheduled_idx s + 1) mod c + m) mod c)"
    by (auto simp: loop_result_def c_def)
  then have "loop_result s (Suc n) (find_step c ((last_scheduled_idx s + 1) mod c) n
      (fold (find_step c ((last_scheduled_idx s + 1) mod c)) [0..<n] (s, -1, None, 0)))"
  proof cases
    case none
    note none_among_Suc [OF none(1) refl]
    then show ?thesis
      unfolding none(2) step by (cases "runnable (task_at s ?k)") (auto simp: p loop_result_def prio_def c_def)
  next
    case (best m)
    note best_among_Suc [OF best(1) refl]
    then show ?thesis
      unfolding best(2) step prio_def [symmetric]
      by (cases "runnable (task_at s ?k) \<and> prio s ?k > prio s (?L ! m)") (auto simp: loop_result_def c_def)
  qed
  then show ?case by simp
qed

definition reset_priority :: "task \<Rightarrow> task" where
  "reset_priority t = t\<lparr>priority := base_priority t\<rparr>"

text \<open>What one selection does: nothing but ageing when no task is runnable; otherwise it takes the
  first of the highest priority in the order.\<close>

lemma find_next_cases:
  obtains (idle) "\<forall>k \<in> set (used_tasks s). \<not> runnable (task_at s k)"
      "find_next_ready_task s = (s, idle_task s)"
  | (pick) m where "best_among s (length (used_tasks s)) m"
      "find_next_ready_task s = ((upd_task (sched_order s ! m) reset_priority (aged (set (used_tasks s)) s))
         \<lparr>last_scheduled_idx := ((last_scheduled_idx s + 1) mod length (used_tasks s) + m) mod length (used_tasks s)\<rparr>,
         Some (sched_order s ! m))"
proof (cases "length (used_tasks s) = 0")
  case True
  then show ?thesis using that(1) by (simp add: find_next_ready_task_def task_count)
next
  case False
  let ?c = "length (used_tasks s)"
  have "set (take ?c (sched_order s)) = set (used_tasks s)" by simp
  then consider
      (none) "none_among s ?c"
        "fold (find_step ?c ((last_scheduled_idx s + 1) mod ?c)) [0..<?c] (s, -1, None, 0) =
          (aged (set (used_tasks s)) s, -1, None, 0)"
    | (best) m where "best_among s ?c m"
        "fold (find_step ?c ((last_scheduled_idx s + 1) mod ?c)) [0..<?c] (s, -1, None, 0) =
          (aged (set (used_tasks s)) s, prio s (sched_order s ! m), Some (sched_order s ! m),
           ((last_scheduled_idx s + 1) mod ?c + m) mod ?c)"
    using find_loop [of ?c s] by (auto simp: loop_result_def)
  then show ?thesis
  proof cases
    case none
    have nr: "\<forall>k \<in> set (used_tasks s). \<not> runnable (task_at s k)"
    proof
      fix k assume "k \<in> set (used_tasks s)"
      then have "k \<in> set (sched_order s)" by simp
      then obtain j where "j < length (used_tasks s)" "k = sched_order s ! j"
        unfolding in_set_conv_nth by auto
      then show "\<not> runnable (task_at s k)" using none(1) by (simp add: none_among_def)
    qed
    have "aged (set (used_tasks s)) s = s"
    proof -
      have "(if k \<in> set (used_tasks s) then age_task (task_at s k) else task_at s k) = task_at s k" for k
        using nr by (auto simp: age_task_def)
      then show ?thesis by (simp add: on_tasks_def map_nth)
    qed
    then show ?thesis using that(1) nr none(2) False by (simp add: find_next_ready_task_def task_count Let_def)
  next
    case (best m)
    then show ?thesis
      using that(2) False by (simp add: find_next_ready_task_def task_count Let_def reset_priority_def [abs_def])
  qed
qed

section \<open>The timer tick\<close>

lemma tick_unused [simp]: "(state (tick_task t) = TASK_STATE_UNUSED) = (state t = TASK_STATE_UNUSED)"
  by (auto simp: tick_task_def Let_def)

text \<open>A loop over all tasks in use that applies a function to each.\<close>

lemma visit_loop:
  assumes f: "\<And>t. (state (f t) = TASK_STATE_UNUSED) = (state t = TASK_STATE_UNUSED)"
  shows "n \<le> length (used_tasks s) \<Longrightarrow>
    fold (\<lambda>i s. case rtos_get_task_by_index s i of None \<Rightarrow> s | Some k \<Rightarrow> upd_task k f s) [0..<n] s
      = on_tasks f (set (take n (used_tasks s))) s"
proof (induction n)
  case (Suc n)
  let ?k = "used_tasks s ! n" and ?K = "set (take n (used_tasks s))"
  have n: "n < length (used_tasks s)" using Suc.prems by simp
  have "?k \<in> set (used_tasks s)" using n by (rule nth_mem)
  then have k: "?k < length (task_table s)" by (simp add: in_used_tasks)
  have "?k \<notin> ?K" using n distinct_used_tasks [of s] by (auto simp: in_set_conv_nth nth_eq_iff_index_eq)
  moreover have "set (take (Suc n) (used_tasks s)) = insert ?k ?K" using n by (simp add: take_Suc_conv_app_nth)
  ultimately have "on_tasks f (set (take (Suc n) (used_tasks s))) s = upd_task ?k f (on_tasks f ?K s)"
    using on_tasks_insert [OF k] by simp
  moreover have "used_tasks (on_tasks f ?K s) = used_tasks s" by (rule used_tasks_on_tasks) (rule f)
  ultimately show ?case using Suc n by (simp add: task_by_index)
qed simp

lemma visit_all:
  assumes "\<And>t. (state (f t) = TASK_STATE_UNUSED) = (state t = TASK_STATE_UNUSED)"
    and "\<And>t. state t = TASK_STATE_UNUSED \<Longrightarrow> f t = t"
  shows "fold (\<lambda>i s. case rtos_get_task_by_index s i of None \<Rightarrow> s | Some k \<Rightarrow> upd_task k f s)
      [0..<rtos_get_task_count s] s = s\<lparr>task_table := map f (task_table s)\<rparr>"
proof -
  have "f (task_at s k) = task_at s k" if "k \<notin> set (used_tasks s)" "k < length (task_table s)" for k
    using that assms(2) by (auto simp: in_used_tasks)
  then have "map (\<lambda>k. if k \<in> set (used_tasks s) then f (task_at s k) else task_at s k) [0..<length (task_table s)]
      = map f (task_table s)"
    by (intro nth_equalityI) simp_all
  then show ?thesis
    using visit_loop [OF assms(1), of "length (used_tasks s)" s] by (simp add: task_count on_tasks_def)
qed

lemma tick_sleepers_eq: "tick_sleepers s = s\<lparr>task_table := map tick_task (task_table s)\<rparr>"
  unfolding tick_sleepers_def tick_step_def [abs_def] by (rule visit_all) (auto simp: tick_task_def Let_def)

section \<open>The invariant\<close>

definition sched_inv :: "rtos \<Rightarrow> bool" where
  "sched_inv s \<longleftrightarrow> length (task_table s) = MAX_TASKS \<and>
     (\<forall>k < MAX_TASKS. priority (task_at s k) \<le> 15 \<and> base_priority (task_at s k) \<le> 15 \<and>
        (state (task_at s k) = TASK_STATE_RUNNING \<longrightarrow> current_task s = Some k)) \<and>
     (\<exists>i < MAX_TASKS. idle_task s = Some i \<and> runnable (task_at s i)) \<and>
     (\<forall>k. current_task s = Some k \<longrightarrow> k < MAX_TASKS \<and> state (task_at s k) \<noteq> TASK_STATE_UNUSED)"

lemma age_task_bound: "priority t \<le> 15 \<Longrightarrow> priority (age_task t) \<le> 15"
proof -
  assume "priority t \<le> 15"
  moreover have "priority t + 1 \<le> 15" if "uint (priority t) < 15"
    using that by (intro inc_le) (simp add: word_less_alt)
  ultimately show ?thesis by (simp add: age_task_def)
qed

lemma runnable_age [simp]: "runnable (age_task t) = runnable t"
  by (simp add: runnable_def)

lemma runnable_used: "k < length (task_table s) \<Longrightarrow> runnable (task_at s k) \<Longrightarrow> k \<in> set (used_tasks s)"
  by (auto simp: in_used_tasks runnable_def)

text \<open>A selected task: runnable, of the highest priority, and the first such after the one selected
  last.\<close>

definition selected :: "rtos \<Rightarrow> nat \<Rightarrow> bool" where
  "selected s k \<longleftrightarrow> k < length (task_table s) \<and> runnable (task_at s k) \<and>
     (\<forall>j < length (task_table s). runnable (task_at s j) \<longrightarrow> prio s j \<le> prio s k) \<and>
     (\<exists>m < length (used_tasks s). sched_order s ! m = k \<and>
        (\<forall>j < m. runnable (task_at s (sched_order s ! j)) \<longrightarrow> prio s (sched_order s ! j) < prio s k))"

lemma best_among_selected:
  assumes "best_among s (length (used_tasks s)) m"
  shows "selected s (sched_order s ! m)"
proof -
  let ?k = "sched_order s ! m"
  have m: "m < length (used_tasks s)" using assms by (simp add: best_among_def)
  have le: "prio s j \<le> prio s ?k" if j: "j < length (task_table s)" "runnable (task_at s j)" for j
  proof -
    have "j \<in> set (sched_order s)" using runnable_used [OF j] by simp
    then obtain i where "i < length (used_tasks s)" "j = sched_order s ! i" unfolding in_set_conv_nth by auto
    then show ?thesis using assms j(2) by (simp add: best_among_def)
  qed
  have "?k \<in> set (sched_order s)" using m by (intro nth_mem) simp
  then have "?k < length (task_table s)" by (simp add: in_used_tasks)
  then show ?thesis using assms le m by (auto simp: selected_def best_among_def)
qed

lemma sched_invD:
  assumes "sched_inv s"
  shows "length (task_table s) = MAX_TASKS"
    and "k < MAX_TASKS \<Longrightarrow> priority (task_at s k) \<le> 15"
    and "k < MAX_TASKS \<Longrightarrow> base_priority (task_at s k) \<le> 15"
    and "k < MAX_TASKS \<Longrightarrow> state (task_at s k) = TASK_STATE_RUNNING \<Longrightarrow> current_task s = Some k"
    and "current_task s = Some k \<Longrightarrow> k < MAX_TASKS \<and> state (task_at s k) \<noteq> TASK_STATE_UNUSED"
    and "\<exists>i < MAX_TASKS. idle_task s = Some i \<and> runnable (task_at s i)"
  using assms unfolding sched_inv_def by blast+

text \<open>Changes that leave the invariant alone: those that keep the priorities in range, do not make a
  task running or unused, and keep the idle task runnable.\<close>

lemma sched_inv_update:
  assumes inv: "sched_inv s"
    and len: "length (task_table s') = length (task_table s)" "current_task s' = current_task s" "idle_task s' = idle_task s"
    and pr: "\<And>k. k < length (task_table s) \<Longrightarrow> priority (task_at s k) \<le> 15 \<Longrightarrow> base_priority (task_at s k) \<le> 15 \<Longrightarrow>
      priority (task_at s' k) \<le> 15 \<and> base_priority (task_at s' k) \<le> 15"
    and st: "\<And>k. k < length (task_table s) \<Longrightarrow>
      (state (task_at s' k) = TASK_STATE_RUNNING \<longrightarrow> state (task_at s k) = TASK_STATE_RUNNING) \<and>
      (state (task_at s' k) = TASK_STATE_UNUSED \<longrightarrow> state (task_at s k) = TASK_STATE_UNUSED)"
    and idle: "\<And>k. k < length (task_table s) \<Longrightarrow> idle_task s = Some k \<Longrightarrow> runnable (task_at s k) \<Longrightarrow> runnable (task_at s' k)"
  shows "sched_inv s'"
proof -
  note I = sched_invD [OF inv]
  have "\<exists>i < MAX_TASKS. idle_task s' = Some i \<and> runnable (task_at s' i)"
    using I(6) idle unfolding len I(1) by blast
  moreover have "current_task s' = Some k" if "k < MAX_TASKS" "state (task_at s' k) = TASK_STATE_RUNNING" for k
    using I(4) [OF that(1)] st [of k] that unfolding len I(1) by blast
  moreover have "k < MAX_TASKS \<and> state (task_at s' k) \<noteq> TASK_STATE_UNUSED" if "current_task s' = Some k" for k
    using I(5) [of k] st [of k] that unfolding len I(1) by blast
  moreover have "priority (task_at s' k) \<le> 15 \<and> base_priority (task_at s' k) \<le> 15" if "k < MAX_TASKS" for k
    using I(2,3) [OF that] pr [of k] that unfolding I(1) by blast
  moreover have "length (task_table s') = MAX_TASKS" using len(1) I(1) by simp
  ultimately show ?thesis unfolding sched_inv_def by blast
qed

lemma tick_task_simps [simp]:
  "priority (tick_task t) = priority t" "base_priority (tick_task t) = base_priority t" "esp (tick_task t) = esp t"
  "state (tick_task t) = TASK_STATE_RUNNING \<longleftrightarrow> state t = TASK_STATE_RUNNING"
  "runnable t \<Longrightarrow> tick_task t = t"
  by (auto simp: tick_task_def Let_def runnable_def)

lemma tick_sleepers_inv: "sched_inv s \<Longrightarrow> sched_inv (tick_sleepers s)"
  by (erule sched_inv_update) (simp_all add: tick_sleepers_eq)

lemma charge_current_simps [simp]:
  "length (task_table (charge_current s)) = length (task_table s)" "current_task (charge_current s) = current_task s"
  "idle_task (charge_current s) = idle_task s" "last_scheduled_idx (charge_current s) = last_scheduled_idx s"
  "scheduler_running (charge_current s) = scheduler_running s"
  by (simp_all add: charge_current_def split: option.splits)

lemma charge_current_task:
  assumes "k < length (task_table s)"
  shows "state (task_at (charge_current s) k) = state (task_at s k)"
    "priority (task_at (charge_current s) k) = priority (task_at s k)"
    "base_priority (task_at (charge_current s) k) = base_priority (task_at s k)"
    "esp (task_at (charge_current s) k) = esp (task_at s k)"
    "sleep_ticks (task_at (charge_current s) k) = sleep_ticks (task_at s k)"
  using assms by (auto simp: charge_current_def split: option.splits)

lemma charge_current_inv: "sched_inv s \<Longrightarrow> sched_inv (charge_current s)"
  by (erule sched_inv_update) (simp_all add: charge_current_task runnable_def)

lemma find_next_selects:
  assumes inv: "sched_inv s"
  obtains m where "m < length (used_tasks s)" "selected s (sched_order s ! m)"
    "find_next_ready_task s = ((upd_task (sched_order s ! m) reset_priority (aged (set (used_tasks s)) s))
       \<lparr>last_scheduled_idx := ((last_scheduled_idx s + 1) mod length (used_tasks s) + m) mod length (used_tasks s)\<rparr>,
       Some (sched_order s ! m))"
proof (cases rule: find_next_cases [of s])
  case idle
  obtain i where "i < MAX_TASKS" "runnable (task_at s i)" using sched_invD(6) [OF inv] by blast
  then show ?thesis using idle(1) runnable_used [of i s] sched_invD(1) [OF inv] by auto
next
  case (pick m)
  have "m < length (used_tasks s)" using pick(1) by (simp add: best_among_def)
  from that [OF this best_among_selected [OF pick(1)] pick(2)] show ?thesis .
qed

lemma select_inv:
  assumes inv: "sched_inv s" and k: "k < MAX_TASKS"
  shows "sched_inv ((upd_task k reset_priority (aged K s))\<lparr>last_scheduled_idx := n\<rparr>)"
  by (rule sched_inv_update [OF inv])
    (use k in \<open>auto simp: reset_priority_def runnable_def age_task_bound sched_invD(1) [OF inv]\<close>)

lemma switch_to_inv:
  assumes inv: "sched_inv s" and k: "k < MAX_TASKS" "runnable (task_at s k)"
  obtains s' where "switch_to s regs (Some k) = Some (s', if current_task s = Some k then regs else esp (task_at s k))"
    "sched_inv s'" "current_task s' = Some k" "last_scheduled_idx s' = last_scheduled_idx s"
    "\<forall>j < MAX_TASKS. priority (task_at s' j) = priority (task_at s j) \<and> base_priority (task_at s' j) = base_priority (task_at s j)
       \<and> runnable (task_at s' j) = runnable (task_at s j) \<and> sleep_ticks (task_at s' j) = sleep_ticks (task_at s j)
       \<and> (\<not> runnable (task_at s j) \<longrightarrow> state (task_at s' j) = state (task_at s j))"
    "scheduler_running s' = scheduler_running s"
proof (cases "current_task s = Some k")
  case True
  then show ?thesis using that [of s] inv by (simp add: switch_to_def)
next
  case False
  note I = sched_invD [OF inv]
  define s1 where "s1 = (case current_task s of None \<Rightarrow> s
    | Some p \<Rightarrow> upd_task p (\<lambda>t. (t\<lparr>esp := regs\<rparr>)\<lparr>state := if state t = TASK_STATE_RUNNING then TASK_STATE_READY else state t\<rparr>) s)"
  define s2 where "s2 = (upd_task k (\<lambda>t. t\<lparr>state := TASK_STATE_RUNNING\<rparr>) s1)\<lparr>current_task := Some k\<rparr>"
  have len: "length (task_table s1) = MAX_TASKS" using I(1) by (simp add: s1_def split: option.splits)
  have same: "idle_task s1 = idle_task s" "last_scheduled_idx s1 = last_scheduled_idx s"
    "scheduler_running s1 = scheduler_running s"
    by (simp_all add: s1_def split: option.splits)
  have t1: "priority (task_at s1 j) = priority (task_at s j)" "base_priority (task_at s1 j) = base_priority (task_at s j)"
    "runnable (task_at s1 j) = runnable (task_at s j)" "sleep_ticks (task_at s1 j) = sleep_ticks (task_at s j)"
    "state (task_at s1 j) \<noteq> TASK_STATE_RUNNING" "state (task_at s1 j) = TASK_STATE_UNUSED \<longleftrightarrow> state (task_at s j) = TASK_STATE_UNUSED"
    "\<not> runnable (task_at s j) \<Longrightarrow> state (task_at s1 j) = state (task_at s j)"
    "Some j \<noteq> current_task s \<Longrightarrow> esp (task_at s1 j) = esp (task_at s j)"
    if j: "j < MAX_TASKS" for j
  proof -
    have nr: "state (task_at s j) \<noteq> TASK_STATE_RUNNING" if "current_task s \<noteq> Some j" using I(4) [OF j] that by blast
    have t: "task_at s1 j = (if current_task s = Some j then (task_at s j)\<lparr>esp := regs,
        state := if state (task_at s j) = TASK_STATE_RUNNING then TASK_STATE_READY else state (task_at s j)\<rparr>
      else task_at s j)"
      using j I(1) by (auto simp: s1_def split: option.splits)
    show "priority (task_at s1 j) = priority (task_at s j)" "base_priority (task_at s1 j) = base_priority (task_at s j)"
      "sleep_ticks (task_at s1 j) = sleep_ticks (task_at s j)" "runnable (task_at s1 j) = runnable (task_at s j)"
      "state (task_at s1 j) = TASK_STATE_UNUSED \<longleftrightarrow> state (task_at s j) = TASK_STATE_UNUSED"
      unfolding t by (simp_all add: runnable_def)
    show "state (task_at s1 j) \<noteq> TASK_STATE_RUNNING" unfolding t using nr by simp
    show "state (task_at s1 j) = state (task_at s j)" if "\<not> runnable (task_at s j)"
      unfolding t using that by (simp add: runnable_def)
    show "esp (task_at s1 j) = esp (task_at s j)" if "Some j \<noteq> current_task s" unfolding t using that by simp
  qed
  have sw: "switch_to s regs (Some k) = Some (s2, esp (task_at s k))"
    using False k t1(8) [OF k(1)] len by (simp add: switch_to_def s1_def [symmetric] s2_def Let_def)
  have "sched_inv s2"
    unfolding sched_inv_def
  proof (intro conjI allI impI)
    fix j assume j: "j < MAX_TASKS"
    show "priority (task_at s2 j) \<le> 15" "base_priority (task_at s2 j) \<le> 15"
      using j len k t1(1,2) [OF j] I(2,3) [OF j] by (auto simp: s2_def)
    show "current_task s2 = Some j" if "state (task_at s2 j) = TASK_STATE_RUNNING"
      using that j len t1(5) [OF j] by (auto simp: s2_def split: if_splits)
  next
    obtain i where i: "i < MAX_TASKS" "idle_task s = Some i" "runnable (task_at s i)" using I(6) by blast
    then have "runnable (task_at s2 i)" using len t1(3) [OF i(1)] by (auto simp: s2_def runnable_def)
    then show "\<exists>i < MAX_TASKS. idle_task s2 = Some i \<and> runnable (task_at s2 i)"
      using i same by (auto simp: s2_def)
  qed (use len k in \<open>auto simp: s2_def\<close>)
  then show ?thesis
  proof (rule that [of s2, rotated])
    show "\<forall>j < MAX_TASKS. priority (task_at s2 j) = priority (task_at s j) \<and> base_priority (task_at s2 j) = base_priority (task_at s j)
       \<and> runnable (task_at s2 j) = runnable (task_at s j) \<and> sleep_ticks (task_at s2 j) = sleep_ticks (task_at s j)
       \<and> (\<not> runnable (task_at s j) \<longrightarrow> state (task_at s2 j) = state (task_at s j))"
    proof (intro allI impI)
      fix j assume j: "j < MAX_TASKS"
      show "priority (task_at s2 j) = priority (task_at s j) \<and> base_priority (task_at s2 j) = base_priority (task_at s j)
       \<and> runnable (task_at s2 j) = runnable (task_at s j) \<and> sleep_ticks (task_at s2 j) = sleep_ticks (task_at s j)
       \<and> (\<not> runnable (task_at s j) \<longrightarrow> state (task_at s2 j) = state (task_at s j))"
        using t1(1-4,7) [OF j] j len k by (cases "j = k") (simp_all add: s2_def runnable_def)
    qed
  qed (use sw False same in \<open>simp_all add: s2_def\<close>)
qed

section \<open>One scheduling decision\<close>

text \<open>The state the selection starts from.\<close>

definition before_select :: "rtos \<Rightarrow> u32 \<Rightarrow> rtos" where
  "before_select s int_no = charge_current (if int_no = 32 then tick_sleepers s else s)"

lemma before_select_inv: "sched_inv s \<Longrightarrow> sched_inv (before_select s int_no)"
  by (simp add: before_select_def charge_current_inv tick_sleepers_inv)

lemma before_select_simps [simp]:
  "length (task_table (before_select s n)) = length (task_table s)" "current_task (before_select s n) = current_task s"
  "idle_task (before_select s n) = idle_task s" "last_scheduled_idx (before_select s n) = last_scheduled_idx s"
  "scheduler_running (before_select s n) = scheduler_running s"
  by (simp_all add: before_select_def tick_sleepers_eq)

lemma before_select_task:
  assumes "k < length (task_table s)"
  shows "state (task_at (before_select s n) k) = state (if n = 32 then tick_task (task_at s k) else task_at s k)"
    and "priority (task_at (before_select s n) k) = priority (task_at s k)"
    and "base_priority (task_at (before_select s n) k) = base_priority (task_at s k)"
    and "sleep_ticks (task_at (before_select s n) k) = sleep_ticks (if n = 32 then tick_task (task_at s k) else task_at s k)"
    and "esp (task_at (before_select s n) k) = esp (task_at s k)"
  using assms by (simp_all add: before_select_def tick_sleepers_eq charge_current_task)

lemma schedule_outcome:
  fixes int_no :: u32
  assumes inv: "sched_inv s" and run: "scheduler_running s"
  defines "s1 \<equiv> before_select s int_no"
  obtains s' m where "m < length (used_tasks s1)" "selected s1 (sched_order s1 ! m)"
    "rtos_schedule_from_isr s regs int_no =
       Some (s', if current_task s = Some (sched_order s1 ! m) then regs else esp (task_at s (sched_order s1 ! m)))"
    "sched_inv s'" "current_task s' = Some (sched_order s1 ! m)" "scheduler_running s'"
    "last_scheduled_idx s' = ((last_scheduled_idx s + 1) mod length (used_tasks s1) + m) mod length (used_tasks s1)"
    "\<forall>j < MAX_TASKS. priority (task_at s' j) =
       (if j = sched_order s1 ! m then base_priority (task_at s j) else priority (age_task (task_at s1 j)))"
    "\<forall>j < MAX_TASKS. base_priority (task_at s' j) = base_priority (task_at s j) \<and>
       runnable (task_at s' j) = runnable (task_at s1 j) \<and> sleep_ticks (task_at s' j) = sleep_ticks (task_at s1 j) \<and>
       (\<not> runnable (task_at s1 j) \<longrightarrow> state (task_at s' j) = state (task_at s1 j))"
proof -
  have inv1: "sched_inv s1" unfolding s1_def using inv by (rule before_select_inv)
  note I1 = sched_invD [OF inv1]
  obtain m where m: "m < length (used_tasks s1)" "selected s1 (sched_order s1 ! m)"
    and f: "find_next_ready_task s1 = ((upd_task (sched_order s1 ! m) reset_priority (aged (set (used_tasks s1)) s1))
       \<lparr>last_scheduled_idx := ((last_scheduled_idx s1 + 1) mod length (used_tasks s1) + m) mod length (used_tasks s1)\<rparr>,
       Some (sched_order s1 ! m))"
    by (rule find_next_selects [OF inv1])
  let ?k = "sched_order s1 ! m"
  define s2 where "s2 = (upd_task ?k reset_priority (aged (set (used_tasks s1)) s1))
    \<lparr>last_scheduled_idx := ((last_scheduled_idx s1 + 1) mod length (used_tasks s1) + m) mod length (used_tasks s1)\<rparr>"
  have k: "?k < MAX_TASKS" "runnable (task_at s1 ?k)" using m(2) I1(1) by (auto simp: selected_def)
  have inv2: "sched_inv s2" unfolding s2_def by (rule select_inv [OF inv1 k(1)])
  have t2: "priority (task_at s2 j) = (if j = ?k then base_priority (task_at s1 j) else priority (age_task (task_at s1 j)))"
    "base_priority (task_at s2 j) = base_priority (task_at s1 j)" "runnable (task_at s2 j) = runnable (task_at s1 j)"
    "sleep_ticks (task_at s2 j) = sleep_ticks (task_at s1 j)" "state (task_at s2 j) = state (task_at s1 j)"
    "esp (task_at s2 j) = esp (task_at s1 j)"
    if j: "j < MAX_TASKS" for j
  proof -
    have "age_task (task_at s1 j) = task_at s1 j" if "j \<notin> set (used_tasks s1)"
      using that j I1(1) by (auto simp: in_used_tasks age_task_def runnable_def)
    then show "priority (task_at s2 j) = (if j = ?k then base_priority (task_at s1 j) else priority (age_task (task_at s1 j)))"
      using j I1(1) by (simp add: s2_def reset_priority_def)
    show "base_priority (task_at s2 j) = base_priority (task_at s1 j)" "runnable (task_at s2 j) = runnable (task_at s1 j)"
      "sleep_ticks (task_at s2 j) = sleep_ticks (task_at s1 j)" "state (task_at s2 j) = state (task_at s1 j)"
      "esp (task_at s2 j) = esp (task_at s1 j)"
      using j I1(1) by (simp_all add: s2_def reset_priority_def runnable_def age_task_def)
  qed
  have len: "?k < length (task_table s)" using k(1) sched_invD(1) [OF inv] by simp
  have c2: "current_task s2 = current_task s" "esp (task_at s2 ?k) = esp (task_at s ?k)" "scheduler_running s2"
    "last_scheduled_idx s2 = ((last_scheduled_idx s + 1) mod length (used_tasks s1) + m) mod length (used_tasks s1)"
    using t2(6) [OF k(1)] before_select_task(5) [OF len] run by (simp_all add: s2_def s1_def)
  have sched: "rtos_schedule_from_isr s regs int_no = switch_to s2 regs (Some ?k)"
  proof -
    have "find_next_ready_task s1 = (s2, Some ?k)" using f by (simp add: s2_def)
    then show ?thesis
      using run by (simp add: rtos_schedule_from_isr_def before_select_def [symmetric] s1_def [symmetric] Let_def)
  qed
  obtain s' where s': "switch_to s2 regs (Some ?k) = Some (s', if current_task s2 = Some ?k then regs else esp (task_at s2 ?k))"
    "sched_inv s'" "current_task s' = Some ?k" "last_scheduled_idx s' = last_scheduled_idx s2"
    and t': "\<forall>j < MAX_TASKS. priority (task_at s' j) = priority (task_at s2 j) \<and> base_priority (task_at s' j) = base_priority (task_at s2 j)
       \<and> runnable (task_at s' j) = runnable (task_at s2 j) \<and> sleep_ticks (task_at s' j) = sleep_ticks (task_at s2 j)
       \<and> (\<not> runnable (task_at s2 j) \<longrightarrow> state (task_at s' j) = state (task_at s2 j))"
    and r': "scheduler_running s' = scheduler_running s2"
    using k t2(3) [OF k(1)] by (blast intro: switch_to_inv [OF inv2, of ?k regs])
  have b: "base_priority (task_at s1 j) = base_priority (task_at s j)" if "j < MAX_TASKS" for j
    using that sched_invD(1) [OF inv] by (simp add: s1_def before_select_task)
  show thesis
  proof (rule that [OF m, of s'])
    show "\<forall>j < MAX_TASKS. priority (task_at s' j) =
       (if j = ?k then base_priority (task_at s j) else priority (age_task (task_at s1 j)))"
      using t' t2(1) b by simp
    show "\<forall>j < MAX_TASKS. base_priority (task_at s' j) = base_priority (task_at s j) \<and>
       runnable (task_at s' j) = runnable (task_at s1 j) \<and> sleep_ticks (task_at s' j) = sleep_ticks (task_at s1 j) \<and>
       (\<not> runnable (task_at s1 j) \<longrightarrow> state (task_at s' j) = state (task_at s1 j))"
      using t' t2(2-5) b by simp
  qed (use sched s' c2 r' in simp_all)
qed

text \<open>C13. A scheduling decision, on a timer tick or a yield, always returns and keeps the
  invariant. The task it switches to was runnable and of the highest priority, and the first such
  in round-robin order after the task selected last. Every other runnable task gains one
  priority level, up to 15, and the selected one falls back to its base priority. The stack
  pointer returned is the selected task's, or the interrupted frame when nothing changes.\<close>

theorem rtos_schedule_selects:
  assumes "sched_inv s" and "scheduler_running s"
  shows "\<exists>s' r k. rtos_schedule_from_isr s regs int_no = Some (s', r) \<and> sched_inv s' \<and>
    selected (before_select s int_no) k \<and> current_task s' = Some k \<and>
    r = (if current_task s = Some k then regs else esp (task_at s k)) \<and>
    (\<forall>j < MAX_TASKS. priority (task_at s' j) =
       (if j = k then base_priority (task_at s j) else priority (age_task (task_at (before_select s int_no) j))))"
  by (rule schedule_outcome [OF assms, of int_no regs]) blast

section \<open>Every operation keeps the invariant\<close>

lemma schedule_inv:
  assumes "sched_inv s" and "rtos_schedule_from_isr s regs int_no = Some (s', r)"
  shows "sched_inv s' \<and> (scheduler_running s \<longrightarrow> scheduler_running s')"
proof (cases "scheduler_running s")
  case True
  show ?thesis by (rule schedule_outcome [OF assms(1) True, of int_no regs]) (use assms(2) in simp)
next
  case False
  then show ?thesis using assms by (simp add: rtos_schedule_from_isr_def)
qed

lemma yield_inv:
  assumes "sched_inv s"
  shows "\<exists>s'. rtos_yield s regs = Some s' \<and> sched_inv s'"
proof (cases "scheduler_running s")
  case True
  show ?thesis by (rule schedule_outcome [OF assms True, of 128 regs]) (use True in \<open>auto simp: rtos_yield_def\<close>)
qed (use assms in \<open>simp add: rtos_yield_def\<close>)

text \<open>The steps the kernel takes: interrupts and the calls of the task that is running. The idle task
  only yields, and is not killed.\<close>

inductive sched_step :: "rtos \<Rightarrow> rtos \<Rightarrow> bool" where
  timer: "rtos_schedule_from_isr s regs 32 = Some (s', r) \<Longrightarrow> sched_step s s'"
| yield: "rtos_yield s regs = Some s' \<Longrightarrow> sched_step s s'"
| block: "current_task s \<noteq> idle_task s \<Longrightarrow> rtos_task_block s regs None obj = Some s' \<Longrightarrow> sched_step s s'"
| unblock: "k < MAX_TASKS \<Longrightarrow> rtos_task_unblock s regs (Some k) = Some s' \<Longrightarrow> sched_step s s'"
| delay: "current_task s \<noteq> idle_task s \<Longrightarrow> rtos_delay_ticks s regs ticks = Some s' \<Longrightarrow> sched_step s s'"
| sleep: "current_task s \<noteq> idle_task s \<Longrightarrow> rtos_sleep_ms s regs ms = Some s' \<Longrightarrow> sched_step s s'"
| exits: "current_task s \<noteq> idle_task s \<Longrightarrow> rtos_task_exit s regs = Some s' \<Longrightarrow> sched_step s s'"
| kill: "rtos_get_task s n \<noteq> idle_task s \<Longrightarrow> rtos_task_kill s regs n = Some s' \<Longrightarrow> sched_step s s'"
| create: "rtos_task_create s regs wrapper exit_fn name entry arg pr sz = Some (s', t) \<Longrightarrow> sched_step s s'"

text \<open>A task stopped for any reason, unless it is the idle task.\<close>

lemma stop_task_inv:
  assumes inv: "sched_inv s" and "idle_task s \<noteq> Some k"
    and f: "\<And>t. priority (f t) = priority t \<and> base_priority (f t) = base_priority t \<and>
      state (f t) \<noteq> TASK_STATE_RUNNING \<and> state (f t) \<noteq> TASK_STATE_UNUSED"
  shows "sched_inv (upd_task k f s)"
  by (rule sched_inv_update [OF inv]) (use assms in auto)

lemma ready_task_inv:
  assumes inv: "sched_inv s"
    and f: "\<And>t. priority (f t) = priority t \<and> base_priority (f t) = base_priority t \<and> state (f t) = TASK_STATE_READY"
  shows "sched_inv (upd_task k f s)"
  by (rule sched_inv_update [OF inv]) (use f in \<open>auto simp: runnable_def\<close>)

lemma yield_Some_inv: "sched_inv s \<Longrightarrow> rtos_yield s regs = Some s' \<Longrightarrow> sched_inv s'"
  using yield_inv [of s regs] by auto

lemma block_inv:
  assumes "sched_inv s" and "idle_task s \<noteq> (if task = None then current_task s else task)"
    and "rtos_task_block s regs task obj = Some s'"
  shows "sched_inv s'"
proof (cases "if task = None then current_task s else task")
  case None
  then show ?thesis using assms by (simp add: rtos_task_block_def)
next
  case (Some k)
  have "sched_inv (upd_task k (\<lambda>t. t\<lparr>state := TASK_STATE_BLOCKED, wait_object := obj\<rparr>) s)"
    using assms(1,2) Some by (intro stop_task_inv) auto
  then show ?thesis using assms(3) Some by (auto simp: rtos_task_block_def intro: yield_Some_inv)
qed

lemma unblock_inv:
  assumes "sched_inv s" and "rtos_task_unblock s regs (Some k) = Some s'"
  shows "sched_inv s'"
proof -
  have "sched_inv (upd_task k (\<lambda>t. t\<lparr>state := TASK_STATE_READY, wait_object := 0\<rparr>) s)"
    using assms(1) by (rule ready_task_inv) simp
  then show ?thesis
    using assms(2) by (auto simp: rtos_task_unblock_def Let_def intro: yield_Some_inv split: option.splits if_splits)
qed

lemma delay_inv:
  assumes "sched_inv s" and "current_task s \<noteq> idle_task s" and "rtos_delay_ticks s regs ticks = Some s'"
  shows "sched_inv s'"
proof (cases "current_task s")
  case None
  then show ?thesis using assms by (simp add: rtos_delay_ticks_def rtos_current_task_def split: if_splits)
next
  case (Some k)
  have "sched_inv (upd_task k (\<lambda>t. t\<lparr>sleep_ticks := ticks, state := TASK_STATE_SLEEPING\<rparr>) s)"
    using assms(1,2) Some by (intro stop_task_inv) auto
  then show ?thesis
    using assms Some by (auto simp: rtos_delay_ticks_def rtos_current_task_def rtos_reschedule_def intro: yield_Some_inv split: if_splits)
qed

lemma terminate_inv:
  assumes "sched_inv s" and "idle_task s \<noteq> k"
  shows "sched_inv (case k of None \<Rightarrow> s | Some k \<Rightarrow> upd_task k (\<lambda>t. t\<lparr>state := TASK_STATE_TERMINATED\<rparr>) s)"
  using assms by (cases k) (auto intro!: stop_task_inv)

lemma find_free_slot_Some:
  "find_free_slot i ts = Some k \<Longrightarrow> i \<le> k \<and> k < i + length ts \<and>
    (state (ts ! (k - i)) = TASK_STATE_UNUSED \<or> state (ts ! (k - i)) = TASK_STATE_TERMINATED)"
proof (induction i ts rule: find_free_slot.induct)
  case (2 i t ts)
  show ?case
  proof (cases "state t = TASK_STATE_UNUSED \<or> state t = TASK_STATE_TERMINATED")
    case True
    then show ?thesis using 2(2) by auto
  next
    case False
    then have "i + 1 \<le> k \<and> k < i + 1 + length ts \<and>
        (state (ts ! (k - (i + 1))) = TASK_STATE_UNUSED \<or> state (ts ! (k - (i + 1))) = TASK_STATE_TERMINATED)"
      using 2 by simp
    then show ?thesis by (auto simp: nth_Cons')
  qed
qed simp

lemma provide_stack_inv:
  assumes inv: "sched_inv s" and "provide_stack s k sz = Some (s', ok)"
  shows "sched_inv s' \<and> idle_task s' = idle_task s"
proof -
  have upd: "sched_inv ((upd_task k f r)\<lparr>rheap := h\<rparr>)"
    if "sched_inv r" "\<And>t. priority (f t) = priority t \<and> base_priority (f t) = base_priority t \<and> state (f t) = state t" for f h r
    by (rule sched_inv_update [OF that(1)]) (use that(2) in \<open>auto simp: runnable_def\<close>)
  have upd': "sched_inv (upd_task k f r)"
    if "sched_inv r" "\<And>t. priority (f t) = priority t \<and> base_priority (f t) = base_priority t \<and> state (f t) = state t" for f r
    by (rule sched_inv_update [OF that(1)]) (use that(2) in \<open>auto simp: runnable_def\<close>)
  show ?thesis
    using assms by (auto simp: provide_stack_def Let_def bind_eq_Some_conv intro!: upd' upd split: if_splits)
qed

lemma init_tcb_inv:
  assumes inv: "sched_inv s" and "pr \<le> 15"
  shows "sched_inv (init_tcb s k name entry arg pr wrapper exit_fn)"
proof -
  show ?thesis
  proof (cases "k < length (task_table s)")
    case True
    then show ?thesis
      by (intro sched_inv_update [OF inv])
        (use assms(2) in \<open>simp_all add: init_tcb_def Let_def upd_task_def nth_list_update runnable_def split: prod.splits\<close>)
  next
    case False
    then show ?thesis
      by (intro sched_inv_update [OF inv])
        (simp_all add: init_tcb_def Let_def upd_task_def runnable_def split: prod.splits)
  qed
qed

lemma create_inv:
  assumes inv: "sched_inv s"
    and c: "rtos_task_create s regs wrapper exit_fn name entry arg pr sz = Some (s', t)"
  shows "sched_inv s'"
proof (cases "find_free_slot 0 (task_table s)")
  case None
  then show ?thesis using assms by (simp add: rtos_task_create_def Let_def)
next
  case (Some k)
  let ?prio = "if RTOS_MAX_PRIORITY < pr then RTOS_MAX_PRIORITY else pr"
  obtain s1 ok where p: "provide_stack s k (if sz = 0 then DEFAULT_STACK_SIZE else sz) = Some (s1, ok)"
    and rest: "if \<not> ok then s' = s1
      else (if rtos_is_running (init_tcb s1 k name entry arg ?prio wrapper exit_fn)
            then rtos_reschedule (init_tcb s1 k name entry arg ?prio wrapper exit_fn) regs
            else Some (init_tcb s1 k name entry arg ?prio wrapper exit_fn)) = Some s'"
    using c Some by (auto simp: rtos_task_create_def Let_def bind_eq_Some_conv split: if_splits)
  have inv1: "sched_inv s1" using provide_stack_inv [OF inv p] by simp
  have "?prio \<le> 15" by (simp add: RTOS_MAX_PRIORITY_def not_less)
  then have inv2: "sched_inv (init_tcb s1 k name entry arg ?prio wrapper exit_fn)" by (rule init_tcb_inv [OF inv1])
  show ?thesis
    using rest inv1 inv2 yield_Some_inv [OF inv2] unfolding rtos_reschedule_def
    by (cases ok; cases "rtos_is_running (init_tcb s1 k name entry arg ?prio wrapper exit_fn)") simp_all
qed

lemma sched_step_inv: "sched_step s s' \<Longrightarrow> sched_inv s \<Longrightarrow> sched_inv s'"
proof (induction rule: sched_step.induct)
  case (timer s regs s' r)
  then show ?case using schedule_inv by blast
next
  case (yield s regs s')
  then show ?case by (blast intro: yield_Some_inv)
next
  case (block s regs obj s')
  then show ?case using block_inv [of s None regs obj s'] by simp
next
  case (unblock k s regs s')
  then show ?case by (blast intro: unblock_inv)
next
  case (delay s regs ticks s')
  then show ?case by (blast intro: delay_inv)
next
  case (sleep s regs ms s')
  then show ?case by (auto simp: rtos_sleep_ms_def Let_def intro: delay_inv yield_Some_inv split: if_splits)
next
  case (exits s regs s')
  then show ?case
    using terminate_inv [of s "current_task s"]
    by (auto simp: rtos_task_exit_def rtos_reschedule_def rtos_current_task_def intro: yield_Some_inv)
next
  case (kill s n regs s')
  then show ?case
    using terminate_inv [of s "rtos_get_task s n"]
    by (auto simp: rtos_task_kill_def rtos_reschedule_def rtos_get_task_def intro: yield_Some_inv)
next
  case (create s regs wrapper exit_fn name entry arg pr sz s' t)
  then show ?case by (blast intro: create_inv)
qed


section \<open>No starvation\<close>

text \<open>The place of a task in the round-robin order, and how far a runnable task is from being
  selected: the levels it still has to gain, then the tasks before it in the order.\<close>

definition order_pos :: "rtos \<Rightarrow> nat \<Rightarrow> nat" where
  "order_pos s k = length (takeWhile (\<lambda>j. j \<noteq> k) (sched_order s))"

definition waiting :: "rtos \<Rightarrow> nat \<Rightarrow> nat" where
  "waiting s k = (if unat (priority (task_at s k)) < 15 then 15 - unat (priority (task_at s k)) + MAX_TASKS
     else order_pos s k)"

lemma order_pos_nth:
  assumes "k \<in> set (used_tasks s)"
  shows "order_pos s k < length (used_tasks s)" and "sched_order s ! order_pos s k = k"
proof -
  have k: "\<exists>x \<in> set (sched_order s). \<not> x \<noteq> k" using assms by simp
  then have "dropWhile (\<lambda>j. j \<noteq> k) (sched_order s) \<noteq> []" by simp
  then have "order_pos s k < length (sched_order s)"
    unfolding order_pos_def using takeWhile_dropWhile_id [of "\<lambda>j. j \<noteq> k" "sched_order s"]
    by (metis length_append length_greater_0_conv less_add_same_cancel1)
  then show "order_pos s k < length (used_tasks s)" by simp
  show "sched_order s ! order_pos s k = k"
    using nth_length_takeWhile [of "\<lambda>j. j \<noteq> k" "sched_order s"] \<open>order_pos s k < length (sched_order s)\<close>
    by (simp add: order_pos_def)
qed

lemma order_pos_eq:
  assumes "d < length (used_tasks s)" and "sched_order s ! d = k"
  shows "order_pos s k = d"
proof -
  have "k \<in> set (sched_order s)" using assms by (metis nth_mem sched_order_props(1))
  then have k: "k \<in> set (used_tasks s)" by simp
  show ?thesis
    using order_pos_nth [OF k] assms sched_order_props(1,3) [of s] by (metis nth_eq_iff_index_eq)
qed

lemma length_used_tasks: "length (used_tasks s) \<le> length (task_table s)"
proof -
  have "set (used_tasks s) \<subseteq> {..<length (task_table s)}" by (auto simp: in_used_tasks)
  from card_mono [OF _ this] show ?thesis by (simp add: distinct_card [OF distinct_used_tasks])
qed

lemma order_after_select:
  assumes u: "used_tasks s' = used_tasks s" and m: "m < d" and d: "d < length (used_tasks s)" "sched_order s ! d = k"
    and l: "last_scheduled_idx s' = ((last_scheduled_idx s + 1) mod length (used_tasks s) + m) mod length (used_tasks s)"
  shows "order_pos s' k < d"
proof -
  let ?c = "length (used_tasks s)" and ?st = "(last_scheduled_idx s + 1) mod length (used_tasks s)"
  have i: "d - m - 1 < ?c" using d by simp
  have mods: "(((x + m) mod c + 1) mod c + e) mod c = (x + m + 1 + e) mod c" for x e c :: nat
    by (simp only: mod_add_left_eq)
  have "((last_scheduled_idx s' + 1) mod ?c + (d - m - 1)) mod ?c = (?st + m + 1 + (d - m - 1)) mod ?c"
    unfolding l by (rule mods)
  also have "?st + m + 1 + (d - m - 1) = ?st + d" using m by simp
  finally have "sched_order s' ! (d - m - 1) = k"
    using sched_order_nth [of "d - m - 1" s'] sched_order_nth [of d s] i d u by simp
  then have "order_pos s' k = d - m - 1" using i u by (intro order_pos_eq) simp_all
  then show ?thesis using m by simp
qed

lemma age_task_unat:
  "runnable t \<Longrightarrow> unat (priority t) < 15 \<Longrightarrow> unat (priority (age_task t)) = unat (priority t) + 1"
proof -
  assume r: "runnable t" and u: "unat (priority t) < 15"
  then have "priority t < 15" by (simp add: word_less_nat_alt)
  then have "uint (priority t) < 15" by (simp add: word_less_alt)
  moreover have "unat (priority t + 1) = unat (priority t) + 1" using u by (simp add: unat_word_ariths)
  ultimately show ?thesis using r by (simp add: age_task_def)
qed

lemma used_tasks_before_select: "used_tasks (before_select s n) = used_tasks s"
  by (rule used_tasks_cong) (simp_all add: before_select_task)

lemma used_tasks_after:
  assumes "sched_inv s" "sched_inv s'"
    and "\<forall>j < MAX_TASKS. base_priority (task_at s' j) = b j \<and> runnable (task_at s' j) = runnable (task_at s j) \<and> P j \<and>
       (\<not> runnable (task_at s j) \<longrightarrow> state (task_at s' j) = state (task_at s j))"
  shows "used_tasks s' = used_tasks s"
proof (rule used_tasks_cong)
  show len: "length (task_table s') = length (task_table s)" using sched_invD(1) assms(1,2) by simp
  fix k assume "k < length (task_table s')"
  then have "k < MAX_TASKS" using sched_invD(1) [OF assms(2)] by simp
  then have "runnable (task_at s' k) = runnable (task_at s k)"
    "\<not> runnable (task_at s k) \<longrightarrow> state (task_at s' k) = state (task_at s k)" using assms(3) by blast+
  then show "(state (task_at s' k) = TASK_STATE_UNUSED) = (state (task_at s k) = TASK_STATE_UNUSED)"
    by (cases "runnable (task_at s k)") (auto simp: runnable_def)
qed

text \<open>A decision that does not select a runnable task brings it closer to being selected.\<close>

lemma waiting_decreases:
  assumes inv: "sched_inv s" and run: "scheduler_running s" and k: "k < MAX_TASKS" "runnable (task_at s k)"
    and sched: "rtos_schedule_from_isr s regs n = Some (s', r)" and not: "current_task s' \<noteq> Some k"
  shows "waiting s' k < waiting s k \<and> runnable (task_at s' k)"
proof (rule schedule_outcome [OF inv run, of n regs])
  let ?s = "before_select s n"
  fix s'' m
  assume m: "m < length (used_tasks ?s)" "selected ?s (sched_order ?s ! m)"
    and eq: "rtos_schedule_from_isr s regs n =
       Some (s'', if current_task s = Some (sched_order ?s ! m) then regs else esp (task_at s (sched_order ?s ! m)))"
    and inv': "sched_inv s''" and cur: "current_task s'' = Some (sched_order ?s ! m)"
    and l: "last_scheduled_idx s'' = ((last_scheduled_idx s + 1) mod length (used_tasks ?s) + m) mod length (used_tasks ?s)"
    and pr: "\<forall>j < MAX_TASKS. priority (task_at s'' j) =
       (if j = sched_order ?s ! m then base_priority (task_at s j) else priority (age_task (task_at ?s j)))"
    and fr: "\<forall>j < MAX_TASKS. base_priority (task_at s'' j) = base_priority (task_at s j) \<and>
       runnable (task_at s'' j) = runnable (task_at ?s j) \<and> sleep_ticks (task_at s'' j) = sleep_ticks (task_at ?s j) \<and>
       (\<not> runnable (task_at ?s j) \<longrightarrow> state (task_at s'' j) = state (task_at ?s j))"
  have s'': "s'' = s'" using eq sched by simp
  have len: "k < length (task_table s)" using k(1) sched_invD(1) [OF inv] by simp
  have rk: "runnable (task_at ?s k)" and pk: "priority (task_at ?s k) = priority (task_at s k)"
    using k(2) before_select_task(1,2) [OF len] by (auto simp: runnable_def tick_task_def)
  have nk: "k \<noteq> sched_order ?s ! m" using not cur s'' by auto
  have p': "priority (task_at s' k) = priority (age_task (task_at ?s k))" using pr k(1) nk s'' by auto
  have r': "runnable (task_at s' k)" using fr k(1) rk s'' by auto
  have u: "used_tasks s' = used_tasks ?s"
    using used_tasks_after [OF before_select_inv [OF inv] inv' fr] s'' by simp
  have kin: "k \<in> set (used_tasks ?s)" using runnable_used [of k ?s] len rk by simp
  have so: "sched_order ?s = sched_order s" by (simp add: sched_order_def used_tasks_before_select)
  show ?thesis
  proof (cases "unat (priority (task_at s k)) < 15")
    case True
    then have "unat (priority (task_at s' k)) = unat (priority (task_at s k)) + 1"
      using age_task_unat [OF rk] p' pk by simp
    moreover have "order_pos s' k < MAX_TASKS"
      using order_pos_nth(1) [of k s'] u kin length_used_tasks [of s'] sched_invD(1) [OF inv'] s'' by simp
    ultimately show ?thesis using True r' by (auto simp: waiting_def)
  next
    case False
    have p15: "priority (task_at s k) = 15"
      using False sched_invD(2) [OF inv k(1)] by (simp add: word_le_nat_alt word_unat_eq_iff)
    let ?d = "order_pos ?s k"
    have d: "?d < length (used_tasks ?s)" "sched_order ?s ! ?d = k" using order_pos_nth [OF kin] by auto
    have "m < ?d"
    proof (rule ccontr)
      assume "\<not> m < ?d"
      then have "?d < m" using d(2) nk by (cases "m = ?d") auto
      moreover have "prio ?s k \<ge> prio ?s (sched_order ?s ! m)"
      proof -
        have "sched_order ?s ! m < MAX_TASKS" using m(2) sched_invD(1) [OF before_select_inv [OF inv]] by (simp add: selected_def)
        then show ?thesis using sched_invD(2) [OF before_select_inv [OF inv], of "sched_order ?s ! m" n] p15 pk
          by (simp add: prio_def word_le_def)
      qed
      moreover obtain m' where m': "m' < length (used_tasks ?s)" "sched_order ?s ! m' = sched_order ?s ! m"
        "\<forall>j < m'. runnable (task_at ?s (sched_order ?s ! j)) \<longrightarrow> prio ?s (sched_order ?s ! j) < prio ?s (sched_order ?s ! m)"
        using m(2) by (auto simp: selected_def)
      moreover have "m' = m" using m'(1,2) m(1) sched_order_props(1,3) [of ?s] by (metis nth_eq_iff_index_eq)
      ultimately show False using d(2) rk by (metis not_less)
    qed
    then have "order_pos s' k < ?d" using order_after_select [OF u _ d] l s'' by simp
    moreover have "priority (task_at s' k) = 15" using p' pk p15 by (simp add: age_task_def)
    ultimately show ?thesis using r' p15 so by (simp add: waiting_def order_pos_def)
  qed
qed

text \<open>What may happen between two decisions while task \<open>k\<close> waits for the processor: anything that
  keeps the invariant, leaves the task runnable and its priority at least what it was, and does
  not add tasks to the table.\<close>

definition meanwhile :: "nat \<Rightarrow> rtos \<Rightarrow> rtos \<Rightarrow> bool" where
  "meanwhile k s s' \<longleftrightarrow> sched_inv s' \<and> scheduler_running s' \<and> runnable (task_at s' k) \<and>
     priority (task_at s k) \<le> priority (task_at s' k) \<and> used_tasks s' = used_tasks s \<and>
     last_scheduled_idx s' = last_scheduled_idx s"

definition sched_round :: "nat \<Rightarrow> rtos \<Rightarrow> rtos \<Rightarrow> bool" where
  "sched_round k s s' \<longleftrightarrow> (\<exists>t regs n r. meanwhile k s t \<and> rtos_schedule_from_isr t regs n = Some (s', r))"

lemma waiting_meanwhile:
  assumes "sched_inv s" "k < MAX_TASKS" "runnable (task_at s k)" "meanwhile k s t"
  shows "waiting t k \<le> waiting s k"
proof -
  have o: "order_pos t k = order_pos s k"
    using assms(4) by (simp add: meanwhile_def order_pos_def sched_order_def)
  have p: "unat (priority (task_at s k)) \<le> unat (priority (task_at t k))"
    using assms(4) by (simp add: meanwhile_def word_le_nat_alt)
  have "k \<in> set (used_tasks s)" using assms(1-3) sched_invD(1) [OF assms(1)] by (intro runnable_used) simp_all
  then have "order_pos s k < MAX_TASKS"
    using order_pos_nth(1) [of k s] length_used_tasks [of s] sched_invD(1) [OF assms(1)] by simp
  then show ?thesis using o p by (auto simp: waiting_def)
qed

lemma waiting_round:
  assumes "sched_inv s" "k < MAX_TASKS" "runnable (task_at s k)" "sched_round k s s'" "current_task s' \<noteq> Some k"
  shows "sched_inv s' \<and> runnable (task_at s' k) \<and> waiting s' k < waiting s k"
proof -
  obtain t regs n r where t: "meanwhile k s t" "rtos_schedule_from_isr t regs n = Some (s', r)"
    using assms(4) by (auto simp: sched_round_def)
  then have T: "sched_inv t" "scheduler_running t" "runnable (task_at t k)" by (auto simp: meanwhile_def)
  have "waiting s' k < waiting t k \<and> runnable (task_at s' k)"
    by (rule waiting_decreases [OF T(1,2) assms(2) T(3) t(2) assms(5)])
  moreover have "sched_inv s'" using schedule_inv [OF T(1) t(2)] by simp
  ultimately show ?thesis using waiting_meanwhile [OF assms(1-3) t(1)] by simp
qed

lemma rounds_waiting:
  assumes "sched_inv (\<sigma> 0)" "k < MAX_TASKS" "runnable (task_at (\<sigma> 0) k)"
    and "\<forall>i < n. sched_round k (\<sigma> i) (\<sigma> (Suc i))" and "\<forall>i < n. current_task (\<sigma> (Suc i)) \<noteq> Some k"
  shows "sched_inv (\<sigma> n) \<and> runnable (task_at (\<sigma> n) k) \<and> waiting (\<sigma> n) k + n \<le> waiting (\<sigma> 0) k"
  using assms(4,5)
proof (induction n)
  case (Suc n)
  then have IH: "sched_inv (\<sigma> n)" "runnable (task_at (\<sigma> n) k)" "waiting (\<sigma> n) k + n \<le> waiting (\<sigma> 0) k" by auto
  have "sched_inv (\<sigma> (Suc n)) \<and> runnable (task_at (\<sigma> (Suc n)) k) \<and> waiting (\<sigma> (Suc n)) k < waiting (\<sigma> n) k"
    using Suc.prems by (intro waiting_round [OF IH(1) assms(2) IH(2)]) simp_all
  then show ?case using IH(3) by simp
qed (use assms in simp)

text \<open>C14. No runnable task starves: whatever tick or yield interrupts occur and whatever else happens
  in between that leaves the task runnable and does not lower its priority or add tasks to the
  table, the task is selected within 48 scheduling decisions (15 levels to gain, at most 32 tasks
  ahead of it at the top level, and the decision itself).\<close>

theorem runnable_task_selected:
  assumes "sched_inv (\<sigma> 0)" and "k < MAX_TASKS" and "runnable (task_at (\<sigma> 0) k)"
    and "\<forall>i < 48. sched_round k (\<sigma> i) (\<sigma> (Suc i))"
  shows "\<exists>i \<le> 48. 0 < i \<and> current_task (\<sigma> i) = Some k"
proof (rule ccontr)
  assume no: "\<not> ?thesis"
  have "waiting (\<sigma> 48) k + 48 \<le> waiting (\<sigma> 0) k"
  proof -
    have "current_task (\<sigma> (Suc i)) \<noteq> Some k" if "i < 48" for i
      using no that by (metis Suc_leI zero_less_Suc)
    then show ?thesis using rounds_waiting [of \<sigma> k 48] assms by blast
  qed
  moreover have "waiting (\<sigma> 0) k < 48"
  proof -
    have "k \<in> set (used_tasks (\<sigma> 0))" using assms(1-3) sched_invD(1) [OF assms(1)] by (intro runnable_used) simp_all
    then have "order_pos (\<sigma> 0) k < 32"
      using order_pos_nth(1) [of k "\<sigma> 0"] length_used_tasks [of "\<sigma> 0"] sched_invD(1) [OF assms(1)] by (simp add: MAX_TASKS_def)
    then show ?thesis by (auto simp: waiting_def MAX_TASKS_def)
  qed
  ultimately show False by simp
qed

section \<open>Sleeping\<close>

text \<open>Interrupts arriving one after the other, each with its vector and the frame it pushed.\<close>

fun interrupts :: "rtos \<Rightarrow> (u32 \<times> u32) list \<Rightarrow> rtos option" where
  "interrupts s [] = Some s"
| "interrupts s ((n, regs) # is) = Option.bind (rtos_schedule_from_isr s regs n) (\<lambda>(s', _). interrupts s' is)"

definition timer_ticks :: "(u32 \<times> u32) list \<Rightarrow> nat" where
  "timer_ticks is = length (filter (\<lambda>i. fst i = 32) is)"

lemma sleep_step:
  assumes inv: "sched_inv s" and run: "scheduler_running s" and k: "k < MAX_TASKS" "state (task_at s k) = TASK_STATE_SLEEPING"
    and n: "unat (sleep_ticks (task_at s k)) = d" "0 < d"
  obtains s' r where "rtos_schedule_from_isr s regs n = Some (s', r)" "sched_inv s'" "scheduler_running s'"
    "if n = 32 \<and> d = 1 then runnable (task_at s' k)
     else state (task_at s' k) = TASK_STATE_SLEEPING \<and> unat (sleep_ticks (task_at s' k)) = (if n = 32 then d - 1 else d)"
proof (rule schedule_outcome [OF inv run, of n regs])
  let ?s = "before_select s n"
  fix s' m
  assume eq: "rtos_schedule_from_isr s regs n =
       Some (s', if current_task s = Some (sched_order ?s ! m) then regs else esp (task_at s (sched_order ?s ! m)))"
    and inv': "sched_inv s'" "scheduler_running s'"
    and fr: "\<forall>j < MAX_TASKS. base_priority (task_at s' j) = base_priority (task_at s j) \<and>
       runnable (task_at s' j) = runnable (task_at ?s j) \<and> sleep_ticks (task_at s' j) = sleep_ticks (task_at ?s j) \<and>
       (\<not> runnable (task_at ?s j) \<longrightarrow> state (task_at s' j) = state (task_at ?s j))"
  have len: "k < length (task_table s)" using k(1) sched_invD(1) [OF inv] by simp
  have pos: "0 < sleep_ticks (task_at s k)" using n by (simp add: word_less_nat_alt)
  then have d1: "unat (sleep_ticks (task_at s k) - 1) = d - 1" using n by (simp add: unat_sub_if_size)
  have z: "sleep_ticks (task_at s k) - 1 = 0 \<longleftrightarrow> d = 1" using d1 n(2) by (auto simp: word_unat_eq_iff)
  have T: "state (task_at ?s k) = (if n = 32 \<and> d = 1 then TASK_STATE_READY else TASK_STATE_SLEEPING)"
    "unat (sleep_ticks (task_at ?s k)) = (if n = 32 then d - 1 else d)"
    using before_select_task(1,4) [OF len, of n] k(2) pos d1 z n by (auto simp: tick_task_def Let_def)
  have F: "runnable (task_at s' k) = runnable (task_at ?s k)" "sleep_ticks (task_at s' k) = sleep_ticks (task_at ?s k)"
    "\<not> runnable (task_at ?s k) \<longrightarrow> state (task_at s' k) = state (task_at ?s k)" using fr k(1) by blast+
  show thesis
    by (rule that [OF eq inv']) (use T F in \<open>auto simp: runnable_def\<close>)
qed

lemma interrupts_append:
  "interrupts s (xs @ ys) = Option.bind (interrupts s xs) (\<lambda>s'. interrupts s' ys)"
proof (induction xs arbitrary: s)
  case (Cons i xs)
  then show ?case by (cases i; cases "rtos_schedule_from_isr s (snd i) (fst i)") auto
qed simp

lemma sleep_interrupts:
  assumes "sched_inv s" "scheduler_running s" "k < MAX_TASKS" "state (task_at s k) = TASK_STATE_SLEEPING"
    and "timer_ticks is < unat (sleep_ticks (task_at s k))"
  shows "\<exists>s'. interrupts s is = Some s' \<and> sched_inv s' \<and> scheduler_running s' \<and>
    state (task_at s' k) = TASK_STATE_SLEEPING \<and>
    unat (sleep_ticks (task_at s' k)) = unat (sleep_ticks (task_at s k)) - timer_ticks is"
  using assms
proof (induction s "is" rule: interrupts.induct)
  case (2 s n regs "is")
  let ?d = "unat (sleep_ticks (task_at s k))"
  have tt: "timer_ticks ((n, regs) # is) = (if n = 32 then 1 else 0) + timer_ticks is" by (simp add: timer_ticks_def)
  have d: "0 < ?d" using 2(6) by simp
  obtain s' r where s': "rtos_schedule_from_isr s regs n = Some (s', r)" "sched_inv s'" "scheduler_running s'"
    "if n = 32 \<and> ?d = 1 then runnable (task_at s' k)
     else state (task_at s' k) = TASK_STATE_SLEEPING \<and> unat (sleep_ticks (task_at s' k)) = (if n = 32 then ?d - 1 else ?d)"
    by (rule sleep_step [OF 2(2-5) refl d])
  have nd: "\<not> (n = 32 \<and> ?d = 1)" using 2(6) tt by auto
  then have st: "state (task_at s' k) = TASK_STATE_SLEEPING" "unat (sleep_ticks (task_at s' k)) = (if n = 32 then ?d - 1 else ?d)"
    using s'(4) by simp_all
  have "timer_ticks is < unat (sleep_ticks (task_at s' k))" using st(2) 2(6) tt by (auto split: if_splits)
  from 2(1) [OF s'(1) refl s'(2,3) 2(4) st(1) this] show ?case using s'(1) st(2) tt by auto
qed (simp add: timer_ticks_def)

lemma delay_sleeps:
  assumes inv: "sched_inv s" and run: "scheduler_running s" and cur: "current_task s = Some k" "idle_task s \<noteq> Some k"
    and t: "ticks \<noteq> 0"
  obtains s' where "rtos_delay_ticks s regs ticks = Some s'" "sched_inv s'" "scheduler_running s'"
    "state (task_at s' k) = TASK_STATE_SLEEPING" "sleep_ticks (task_at s' k) = ticks"
proof -
  let ?s = "upd_task k (\<lambda>t. t\<lparr>sleep_ticks := ticks, state := TASK_STATE_SLEEPING\<rparr>) s"
  have k: "k < MAX_TASKS" "k < length (task_table s)" using sched_invD(1,5) [OF inv] cur by auto
  have inv1: "sched_inv ?s" using inv cur(2) by (rule stop_task_inv) simp
  have st: "state (task_at ?s k) = TASK_STATE_SLEEPING" "sleep_ticks (task_at ?s k) = ticks" "scheduler_running ?s"
    using k(2) run by simp_all
  have pos: "0 < unat ticks" using t by (simp add: unat_gt_0)
  obtain s' r where s': "rtos_schedule_from_isr ?s regs 128 = Some (s', r)" "sched_inv s'" "scheduler_running s'"
    "if (128 :: u32) = 32 \<and> unat ticks = 1 then runnable (task_at s' k)
     else state (task_at s' k) = TASK_STATE_SLEEPING \<and> unat (sleep_ticks (task_at s' k)) = (if (128 :: u32) = 32 then unat ticks - 1 else unat ticks)"
    by (rule sleep_step [OF inv1 st(3) k(1) st(1) _ pos, of regs 128]) (simp add: st(2))
  then have "rtos_delay_ticks s regs ticks = Some s'"
    using t run cur(1) by (simp add: rtos_delay_ticks_def rtos_is_running_def rtos_current_task_def rtos_reschedule_def rtos_yield_def)
  with s' show thesis using that by (simp add: word_unat_eq_iff)
qed

text \<open>C34. A delay lasts exactly as long as asked: after \<open>rtos_delay_ticks\<close> the calling task sleeps
  through every sequence of timer and yield interrupts with fewer timer ticks than requested, and
  the tick that completes the number makes it runnable.\<close>

theorem rtos_delay_exact:
  assumes "sched_inv s" and "scheduler_running s" and "current_task s = Some k" and "idle_task s \<noteq> Some k" and "ticks \<noteq> 0"
  shows "\<exists>s1. rtos_delay_ticks s regs ticks = Some s1 \<and>
    (\<forall>is. timer_ticks is < unat ticks \<longrightarrow>
       (\<exists>s2. interrupts s1 is = Some s2 \<and> state (task_at s2 k) = TASK_STATE_SLEEPING)) \<and>
    (\<forall>is regs'. timer_ticks is = unat ticks - 1 \<longrightarrow>
       (\<exists>s2. interrupts s1 (is @ [(32, regs')]) = Some s2 \<and> runnable (task_at s2 k)))"
proof (rule delay_sleeps [OF assms, of regs])
  fix s1
  assume s1: "rtos_delay_ticks s regs ticks = Some s1" "sched_inv s1" "scheduler_running s1"
    "state (task_at s1 k) = TASK_STATE_SLEEPING" "sleep_ticks (task_at s1 k) = ticks"
  have k: "k < MAX_TASKS" using sched_invD(5) [OF assms(1,3)] by simp
  have pos: "0 < unat ticks" using assms(5) by (simp add: unat_gt_0)
  note sl = sleep_interrupts [OF s1(2,3) k s1(4), unfolded s1(5)]
  have "\<exists>s2. interrupts s1 (is @ [(32, regs')]) = Some s2 \<and> runnable (task_at s2 k)"
    if "timer_ticks is = unat ticks - 1" for "is" regs'
  proof -
    have lt: "timer_ticks is < unat ticks" using that pos by simp
    obtain s2 where s2: "interrupts s1 is = Some s2" "sched_inv s2" "scheduler_running s2"
      "state (task_at s2 k) = TASK_STATE_SLEEPING" "unat (sleep_ticks (task_at s2 k)) = unat ticks - timer_ticks is"
      using sl [OF lt] by blast
    have one: "unat (sleep_ticks (task_at s2 k)) = 1" using s2(5) that pos by simp
    obtain s3 r where "rtos_schedule_from_isr s2 regs' 32 = Some (s3, r)" "runnable (task_at s3 k)"
      by (rule sleep_step [OF s2(2,3) k s2(4) one, of regs' 32]) simp_all
    then show ?thesis using s2(1) by (simp add: interrupts_append)
  qed
  moreover have "\<exists>s2. interrupts s1 is = Some s2 \<and> state (task_at s2 k) = TASK_STATE_SLEEPING"
    if "timer_ticks is < unat ticks" for "is"
    using sl [OF that] by blast
  ultimately show ?thesis using s1(1) by blast
qed

text \<open>Conversion of milliseconds to ticks is the identity up to 4294967 ms; beyond that the 32-bit
  product wraps and the delay comes out shorter than asked.\<close>

theorem rtos_ms_to_ticks_range:
  "if unat ms \<le> 4294967 then rtos_ms_to_ticks ms = ms
   else rtos_ms_to_ticks ms < ms \<and> unat (rtos_ms_to_ticks ms) \<le> 4294967"
proof -
  have u: "unat (rtos_ms_to_ticks ms) = unat ms * 1000 mod 4294967296 div 1000"
    by (simp add: rtos_ms_to_ticks_def PIT_FREQUENCY_def unat_div unat_word_ariths)
  have "unat ms * 1000 mod 4294967296 < 4294967296" by simp
  then have b: "unat (rtos_ms_to_ticks ms) \<le> 4294967" unfolding u by simp
  show ?thesis
  proof (cases "unat ms \<le> 4294967")
    case True
    then have "unat (rtos_ms_to_ticks ms) = unat ms" unfolding u by simp
    then show ?thesis using True by (simp add: word_unat_eq_iff)
  next
    case False
    then show ?thesis using b by (simp add: word_less_nat_alt)
  qed
qed

section \<open>Instances\<close>

text \<open>The idle task and one worker that is running.\<close>

definition plain_task :: "task_state \<Rightarrow> u8 \<Rightarrow> task" where
  "plain_task st p = \<lparr>esp = 0x5000, task_id = 1, task_name = [], state = st, priority = p, base_priority = p,
     sleep_ticks = 0, runtime_ticks = 0, wait_object = 0, stack_base = 0x4000, stack_size = 0x1000, next_wait = None\<rparr>"

definition two_tasks :: rtos where
  "two_tasks = \<lparr>task_table = plain_task TASK_STATE_READY 0 # plain_task TASK_STATE_RUNNING 6 #
       replicate 30 (plain_task TASK_STATE_UNUSED 0),
     next_task_id = 3, current_task = Some 1, idle_task = Some 0, scheduler_running = True, last_scheduled_idx = 1,
     rheap = \<lparr>hmem = (\<lambda>_. 0), heap_start = 0, heap_total_size = 0, block_head = 0\<rparr>\<rparr>"

lemma two_tasks_at:
  assumes "k < 32"
  shows "task_at two_tasks k = (if k = 0 then plain_task TASK_STATE_READY 0
    else if k = 1 then plain_task TASK_STATE_RUNNING 6 else plain_task TASK_STATE_UNUSED 0)"
proof -
  consider "k = 0" | "k = 1" | j where "k = Suc (Suc j)" "j < 30"
    using assms by (cases k; cases "k - 1") auto
  then show ?thesis by cases (simp_all add: two_tasks_def)
qed

lemma two_tasks_inv: "sched_inv two_tasks"
proof -
  have "length (task_table two_tasks) = 32" "current_task two_tasks = Some 1" "idle_task two_tasks = Some 0"
    by (simp_all add: two_tasks_def)
  moreover have "\<exists>i < 32. i = 0 \<and> runnable (task_at two_tasks i)"
    by (rule exI [of _ 0]) (simp add: two_tasks_at plain_task_def runnable_def)
  ultimately show ?thesis
    by (auto simp: sched_inv_def MAX_TASKS_def two_tasks_at plain_task_def)
qed

lemma two_tasks_simps:
  "scheduler_running two_tasks" "current_task two_tasks = Some 1" "idle_task two_tasks = Some 0"
  "runnable (task_at two_tasks 0)"
  by (simp_all add: two_tasks_def plain_task_def runnable_def)

theorem rtos_schedule_selects_witness:
  "\<exists>s' r k. rtos_schedule_from_isr two_tasks 0x6000 32 = Some (s', r) \<and> current_task s' = Some k \<and> sched_inv s'"
  using rtos_schedule_selects [OF two_tasks_inv two_tasks_simps(1), of "0x6000" 32] by blast


fun spins :: "nat \<Rightarrow> rtos" where
  "spins 0 = two_tasks"
| "spins (Suc i) = (case rtos_schedule_from_isr (spins i) 0x6000 128 of Some (s, _) \<Rightarrow> s | None \<Rightarrow> spins i)"

lemma spins_ok:
  "sched_inv (spins i) \<and> scheduler_running (spins i) \<and> runnable (task_at (spins i) 0)"
  "\<exists>r. rtos_schedule_from_isr (spins i) 0x6000 128 = Some (spins (Suc i), r)"
proof -
  have step: "\<exists>r. rtos_schedule_from_isr (spins i) 0x6000 128 = Some (spins (Suc i), r) \<and>
      sched_inv (spins (Suc i)) \<and> scheduler_running (spins (Suc i)) \<and> runnable (task_at (spins (Suc i)) 0)"
    if ok: "sched_inv (spins i) \<and> scheduler_running (spins i) \<and> runnable (task_at (spins i) 0)" for i
  proof (rule schedule_outcome [of "spins i" 128 "0x6000"])
    fix s' m
    assume a: "rtos_schedule_from_isr (spins i) 0x6000 128 = Some (s', if current_task (spins i) =
        Some (sched_order (before_select (spins i) 128) ! m) then 0x6000
        else esp (task_at (spins i) (sched_order (before_select (spins i) 128) ! m)))"
      "sched_inv s'" "scheduler_running s'"
      and fr: "\<forall>j < MAX_TASKS. base_priority (task_at s' j) = base_priority (task_at (spins i) j) \<and>
        runnable (task_at s' j) = runnable (task_at (before_select (spins i) 128) j) \<and>
        sleep_ticks (task_at s' j) = sleep_ticks (task_at (before_select (spins i) 128) j) \<and>
        (\<not> runnable (task_at (before_select (spins i) 128) j) \<longrightarrow>
          state (task_at s' j) = state (task_at (before_select (spins i) 128) j))"
    have len: "0 < length (task_table (spins i))" using sched_invD(1) ok by (simp add: MAX_TASKS_def)
    have "runnable (task_at (before_select (spins i) 128) 0)"
      using ok before_select_task(1) [OF len, of 128] by (simp add: runnable_def)
    then have "runnable (task_at s' 0)" using fr by (simp add: MAX_TASKS_def)
    then show ?thesis using a by simp
  qed (use ok in simp_all)
  show ok: "sched_inv (spins i) \<and> scheduler_running (spins i) \<and> runnable (task_at (spins i) 0)"
    by (induction i) (use two_tasks_inv two_tasks_simps step in \<open>fastforce+\<close>)
  show "\<exists>r. rtos_schedule_from_isr (spins i) 0x6000 128 = Some (spins (Suc i), r)" using step [OF ok] by blast
qed

theorem runnable_task_selected_witness: "\<exists>i \<le> 48. 0 < i \<and> current_task (spins i) = Some 0"
proof -
  have "sched_round 0 (spins i) (spins (Suc i))" for i
    unfolding sched_round_def meanwhile_def using spins_ok [of i] by blast
  then show ?thesis
    using runnable_task_selected [of spins 0] spins_ok(1) [of 0] by (simp add: MAX_TASKS_def)
qed

theorem rtos_delay_exact_witness:
  "\<exists>s1. rtos_delay_ticks two_tasks 0x6000 1 = Some s1 \<and> (\<exists>s2. interrupts s1 ([] @ [(32, 0x7000)]) = Some s2 \<and> runnable (task_at s2 1))"
proof -
  have "timer_ticks [] = unat (1 :: u32) - 1" by (simp add: timer_ticks_def)
  moreover have "idle_task two_tasks \<noteq> Some 1" "(1 :: u32) \<noteq> 0" by (simp_all add: two_tasks_simps)
  ultimately show ?thesis
    using rtos_delay_exact [OF two_tasks_inv two_tasks_simps(1,2), of 1 "0x6000"] by blast
qed

end
