(* ===== verification/Wait_Queues.thy ===== *)
theory Wait_Queues
  imports Sync Sched
begin

text \<open>
  The wait queues of \<open>src/rtos/sync.c\<close> as first-in first-out queues, and the semaphores, mutexes
  and event flags built on them: who is woken, in which order, and what a blocked task waits for.
\<close>

section \<open>First-in first-out queues\<close>

locale fifo =
  fixes enq :: "'q \<Rightarrow> 'a \<Rightarrow> 'q option" and deq :: "'q \<Rightarrow> 'q \<times> 'a option"
    and contents :: "'q \<Rightarrow> 'a list \<Rightarrow> bool" and admits :: "'q \<Rightarrow> 'a \<Rightarrow> bool"
  assumes enq_contents: "contents q xs \<Longrightarrow> admits q a \<Longrightarrow> a \<notin> set xs \<Longrightarrow>
      \<exists>q'. enq q a = Some q' \<and> contents q' (xs @ [a])"
    and deq_empty: "contents q [] \<Longrightarrow> deq q = (q, None)"
    and deq_first: "contents q (x # xs) \<Longrightarrow> \<exists>q'. deq q = (q', Some x) \<and> contents q' xs"
begin

text \<open>The element that leaves next is the one that has waited longest, whatever is added.\<close>

lemma deq_after_enq:
  assumes "contents q xs" and "admits q a" and "a \<notin> set xs"
  shows "\<exists>q1 q2. enq q a = Some q1 \<and> deq q1 = (q2, Some (hd (xs @ [a]))) \<and> contents q2 (tl (xs @ [a]))"
proof -
  obtain q1 where q1: "enq q a = Some q1" "contents q1 (xs @ [a])" using enq_contents [OF assms] by blast
  obtain y ys where ys: "xs @ [a] = y # ys" by (cases "xs @ [a]") auto
  show ?thesis using q1 deq_first [of q1 y ys] ys by auto
qed

lemma deq_some_iff:
  assumes "contents q xs"
  shows "snd (deq q) = (if xs = [] then None else Some (hd xs))"
proof (cases xs)
  case Nil
  then show ?thesis using deq_empty assms by simp
next
  case (Cons y ys)
  then show ?thesis using deq_first [of q y ys] assms by auto
qed

end

section \<open>The linked wait queue\<close>

fun wlinks :: "rtos \<Rightarrow> nat option \<Rightarrow> nat list \<Rightarrow> bool" where
  "wlinks s p [] \<longleftrightarrow> p = None"
| "wlinks s p (k # ks) \<longleftrightarrow> p = Some k \<and> k < length (task_table s) \<and> wlinks s (next_wait (task_at s k)) ks"

fun waitq_is :: "waitq \<Rightarrow> nat list \<Rightarrow> bool" where
  "waitq_is (s, h, t) xs \<longleftrightarrow> wlinks s h xs \<and> distinct xs \<and> t = (if xs = [] then None else Some (last xs))"

lemma wlinks_cong:
  "length (task_table s') = length (task_table s) \<Longrightarrow>
   (\<And>k. k \<in> set xs \<Longrightarrow> k < length (task_table s) \<Longrightarrow> next_wait (task_at s' k) = next_wait (task_at s k)) \<Longrightarrow>
   wlinks s' p xs = wlinks s p xs"
  by (induction xs arbitrary: p) auto

lemma wlinks_bound: "wlinks s p xs \<Longrightarrow> k \<in> set xs \<Longrightarrow> k < length (task_table s)"
  by (induction xs arbitrary: p) auto

lemma wlinks_snoc:
  "wlinks s p (xs @ [l]) \<Longrightarrow> l \<notin> set xs \<Longrightarrow> a < length (task_table s) \<Longrightarrow> a \<notin> set (xs @ [l]) \<Longrightarrow>
   next_wait (task_at s a) = None \<Longrightarrow>
   wlinks (upd_task l (\<lambda>t. t\<lparr>next_wait := Some a\<rparr>) s) p (xs @ [l, a])"
proof (induction xs arbitrary: p)
  case (Cons x xs)
  then show ?case by auto
qed auto

lemma add_waiter_fifo:
  assumes "waitq_is q xs" and "a < length (task_table (fst q))" and "a \<notin> set xs"
  shows "\<exists>q'. add_waiter q a = Some q' \<and> waitq_is q' (xs @ [a])"
proof -
  obtain s h t where q: "q = (s, h, t)" by (cases q)
  let ?s = "upd_task a (\<lambda>t. t\<lparr>next_wait := None\<rparr>) s"
  have w: "wlinks s h xs" "distinct xs" "t = (if xs = [] then None else Some (last xs))" using assms(1) q by simp_all
  have "wlinks ?s h xs = wlinks s h xs" by (rule wlinks_cong) (use assms(3) in auto)
  then have w1: "wlinks ?s h xs" using w(1) by simp
  have a: "a < length (task_table s)" using assms(2) q by simp
  show ?thesis
  proof (cases xs rule: rev_cases)
    case Nil
    then show ?thesis using w a q by simp
  next
    case (snoc ys l)
    have "h \<noteq> None" using w(1) snoc by (cases ys) auto
    moreover have "wlinks (upd_task l (\<lambda>t. t\<lparr>next_wait := Some a\<rparr>) ?s) h (ys @ [l, a])"
      using w1 w(2) a assms(3) snoc by (intro wlinks_snoc) auto
    ultimately show ?thesis using w assms(3) snoc q by auto
  qed
qed

lemma pop_waiter_first:
  assumes "waitq_is q (x # xs)"
  shows "\<exists>q'. pop_waiter q = (q', Some x) \<and> waitq_is q' xs"
proof -
  obtain s h t where q: "q = (s, h, t)" by (cases q)
  let ?s = "upd_task x (\<lambda>t. t\<lparr>next_wait := None\<rparr>) s"
  have w: "h = Some x" "x < length (task_table s)" "wlinks s (next_wait (task_at s x)) xs" "x \<notin> set xs" "distinct xs"
    "t = Some (last (x # xs))" using assms q by auto
  have "wlinks ?s (next_wait (task_at s x)) xs = wlinks s (next_wait (task_at s x)) xs"
    by (rule wlinks_cong) (use w(4) in auto)
  then have "wlinks ?s (next_wait (task_at s x)) xs" using w(3) by simp
  moreover have "next_wait (task_at s x) = None \<longleftrightarrow> xs = []" using w(3) by (cases xs) auto
  ultimately show ?thesis using w q by (auto simp: Let_def)
qed

interpretation waitq: fifo add_waiter pop_waiter waitq_is "\<lambda>q a. a < length (task_table (fst q))"
proof
  show "\<exists>q'. add_waiter q a = Some q' \<and> waitq_is q' (xs @ [a])"
    if "waitq_is q xs" "a < length (task_table (fst q))" "a \<notin> set xs" for q xs a
    using that by (rule add_waiter_fifo)
  show "pop_waiter q = (q, None)" if "waitq_is q []" for q using that by (cases q) auto
  show "\<exists>q'. pop_waiter q = (q', Some x) \<and> waitq_is q' xs" if "waitq_is q (x # xs)" for q x xs
    using that by (rule pop_waiter_first)
qed

section \<open>Scheduling does not touch the queues\<close>

text \<open>What tasks wait for and how they are linked: the scheduler changes neither.\<close>

definition links :: "rtos \<Rightarrow> (nat option \<times> u32) list" where
  "links s = map (\<lambda>t. (next_wait t, wait_object t)) (task_table s)"

lemma links_upd_task [simp]:
  "(\<And>t. next_wait (f t) = next_wait t \<and> wait_object (f t) = wait_object t) \<Longrightarrow> links (upd_task k f s) = links s"
  by (cases "k < length (task_table s)") (simp_all add: links_def upd_task_def map_update list_update_same_conv list_update_beyond)

lemma links_on_tasks [simp]:
  "(\<And>t. next_wait (f t) = next_wait t \<and> wait_object (f t) = wait_object t) \<Longrightarrow> links (on_tasks f K s) = links s"
  by (simp add: links_def on_tasks_def) (auto intro: nth_equalityI)

lemma links_before_select [simp]: "links (before_select s n) = links s"
proof -
  have "links (charge_current r) = links r" for r by (simp add: charge_current_def split: option.splits)
  moreover have "links (tick_sleepers s) = links s"
    by (simp add: links_def tick_sleepers_eq tick_task_def Let_def)
  ultimately show ?thesis by (simp add: before_select_def)
qed

lemma links_find_next: "links (fst (find_next_ready_task s)) = links s"
proof (cases rule: find_next_cases [of s])
  case (pick m)
  have "links (r\<lparr>last_scheduled_idx := i\<rparr>) = links r" for r i by (simp add: links_def)
  then show ?thesis using pick(2) by (simp add: reset_priority_def age_task_def)
qed simp

lemma links_switch: "switch_to s regs k = Some (s', r) \<Longrightarrow> links s' = links s"
proof -
  have "links (r\<lparr>current_task := c\<rparr>) = links r" for r c by (simp add: links_def)
  moreover assume "switch_to s regs k = Some (s', r)"
  ultimately show ?thesis by (auto simp: switch_to_def Let_def split: if_splits option.splits)
qed

lemma links_schedule: "rtos_schedule_from_isr s regs n = Some (s', r) \<Longrightarrow> links s' = links s"
  using links_find_next [of "before_select s n"]
  by (auto simp: rtos_schedule_from_isr_def before_select_def [symmetric] Let_def case_prod_beta
      dest!: links_switch split: if_splits)

lemma links_yield: "rtos_yield s regs = Some s' \<Longrightarrow> links s' = links s"
  by (auto simp: rtos_yield_def dest: links_schedule split: if_splits)

lemma links_nth:
  assumes "links s' = links s"
  shows "length (task_table s') = length (task_table s)"
    and "k < length (task_table s) \<Longrightarrow> next_wait (task_at s' k) = next_wait (task_at s k) \<and> wait_object (task_at s' k) = wait_object (task_at s k)"
proof -
  show len: "length (task_table s') = length (task_table s)" using assms by (metis links_def length_map)
  assume k: "k < length (task_table s)"
  have "links s' ! k = links s ! k" using assms by simp
  then show "next_wait (task_at s' k) = next_wait (task_at s k) \<and> wait_object (task_at s' k) = wait_object (task_at s k)"
    using k len by (simp add: links_def)
qed

lemma waitq_is_links:
  assumes "waitq_is (s, h, t) xs" and "links s' = links s"
  shows "waitq_is (s', h, t) xs"
  using assms wlinks_cong [of s' s xs h] links_nth [OF assms(2)] by auto

section \<open>Blocking and waking\<close>

lemma current_runnable_or_stopped:
  assumes "sched_inv s" and "scheduler_running s" and "rtos_yield s regs = Some s'"
    and "k < MAX_TASKS" and "\<not> runnable (task_at s k)"
  shows "current_task s' \<noteq> Some k \<and> state (task_at s' k) = state (task_at s k)"
proof (rule schedule_outcome [OF assms(1,2), of 128 regs])
  let ?s = "before_select s 128"
  fix s'' m
  assume a: "selected ?s (sched_order ?s ! m)"
    "rtos_schedule_from_isr s regs 128 = Some (s'', if current_task s = Some (sched_order ?s ! m) then regs
       else esp (task_at s (sched_order ?s ! m)))"
    "current_task s'' = Some (sched_order ?s ! m)"
    "\<forall>j < MAX_TASKS. base_priority (task_at s'' j) = base_priority (task_at s j) \<and>
       runnable (task_at s'' j) = runnable (task_at ?s j) \<and> sleep_ticks (task_at s'' j) = sleep_ticks (task_at ?s j) \<and>
       (\<not> runnable (task_at ?s j) \<longrightarrow> state (task_at s'' j) = state (task_at ?s j))"
  have len: "k < length (task_table s)" using assms(4) sched_invD(1) [OF assms(1)] by simp
  have st: "state (task_at ?s k) = state (task_at s k)" using before_select_task(1) [OF len, of 128] by simp
  then have nr: "\<not> runnable (task_at ?s k)" using assms(5) by (simp add: runnable_def)
  have "s'' = s'" using a(2) assms(2,3) by (simp add: rtos_yield_def)
  moreover have "sched_order ?s ! m \<noteq> k" using a(1) nr by (auto simp: selected_def)
  moreover have "state (task_at s'' k) = state (task_at ?s k)" using a(4) nr assms(4) by blast
  ultimately show ?thesis using a(3) st by auto
qed

text \<open>Queueing and blocking the running task, as the semaphore and the mutex do it.\<close>

lemma queue_and_block:
  assumes inv: "sched_inv s" and run: "scheduler_running s" and cur: "current_task s = Some k" "idle_task s \<noteq> Some k"
    and q: "waitq_is (s, h, t) xs" "k \<notin> set xs"
  obtains s1 h' t' s' where "add_waiter (s, h, t) k = Some (s1, h', t')" "rtos_task_block s1 regs (Some k) addr = Some s'"
    "waitq_is (s', h', t') (xs @ [k])" "sched_inv s'" "current_task s' \<noteq> Some k"
    "state (task_at s' k) = TASK_STATE_BLOCKED" "wait_object (task_at s' k) = addr"
proof -
  have k: "k < MAX_TASKS" "k < length (task_table s)" using sched_invD(1,5) [OF inv] cur by auto
  obtain s1 h' t' where add: "add_waiter (s, h, t) k = Some (s1, h', t')" and q1: "waitq_is (s1, h', t') (xs @ [k])"
    using waitq.enq_contents [OF q(1) _ q(2)] k(2) by auto
  have keep: "sched_inv (upd_task j (\<lambda>t. t\<lparr>next_wait := v\<rparr>) r)" if "sched_inv r" for j v r
    by (rule sched_inv_update [OF that]) (auto simp: runnable_def)
  have inv1: "sched_inv s1" and eq1: "current_task s1 = current_task s" "idle_task s1 = idle_task s" "scheduler_running s1"
    using add inv run by (auto simp: Let_def keep split: if_splits option.splits)
  let ?s2 = "upd_task k (\<lambda>t. t\<lparr>state := TASK_STATE_BLOCKED, wait_object := addr\<rparr>) s1"
  have k1: "k < length (task_table s1)" using k(1) sched_invD(1) [OF inv1] by simp
  have inv2: "sched_inv ?s2" using inv1 cur(2) eq1 by (intro stop_task_inv) simp_all
  obtain s' where s': "rtos_yield ?s2 regs = Some s'" "sched_inv s'" using yield_inv [OF inv2] by blast
  have blk: "rtos_task_block s1 regs (Some k) addr = Some s'" using s'(1) by (simp add: rtos_task_block_def)
  have "waitq_is (?s2, h', t') (xs @ [k])" using q1 wlinks_cong [of ?s2 s1 "xs @ [k]" h'] by auto
  then have "waitq_is (s', h', t') (xs @ [k])" by (rule waitq_is_links) (rule links_yield [OF s'(1)])
  moreover have "current_task s' \<noteq> Some k" "state (task_at s' k) = TASK_STATE_BLOCKED"
    using current_runnable_or_stopped [OF inv2 _ s'(1) k(1)] eq1 k1 by (simp_all add: runnable_def)
  moreover have "wait_object (task_at s' k) = addr" using links_nth(2) [OF links_yield [OF s'(1)], of k] k1 by simp
  ultimately show thesis using that [OF add blk] s'(2) by blast
qed

text \<open>Taking the first waiter and waking it.\<close>

lemma unblock_wakes:
  assumes inv: "sched_inv s" and k: "k < MAX_TASKS"
  obtains s' where "rtos_task_unblock s regs (Some k) = Some s'" "sched_inv s'" "runnable (task_at s' k)"
    "\<And>h t xs. waitq_is (s, h, t) xs \<Longrightarrow> waitq_is (s', h, t) xs"
proof -
  let ?s = "upd_task k (\<lambda>t. t\<lparr>state := TASK_STATE_READY, wait_object := 0\<rparr>) s"
  have inv1: "sched_inv ?s" using inv by (rule ready_task_inv) simp
  have len: "k < length (task_table s)" using k sched_invD(1) [OF inv] by simp
  have r1: "runnable (task_at ?s k)" using len by (simp add: runnable_def)
  have w1: "waitq_is (?s, h, t) xs" if "waitq_is (s, h, t) xs" for h t xs
    using that wlinks_cong [of ?s s xs h] by auto
  have yields: "\<exists>s'. rtos_yield ?s regs = Some s' \<and> sched_inv s' \<and> runnable (task_at s' k)"
  proof (cases "scheduler_running s")
    case True
    show ?thesis
    proof (rule schedule_outcome [OF inv1, of 128 regs])
      show "scheduler_running ?s" using True by simp
      fix s'' m
      assume a: "rtos_schedule_from_isr ?s regs 128 = Some (s'', if current_task ?s = Some (sched_order (before_select ?s 128) ! m)
          then regs else esp (task_at ?s (sched_order (before_select ?s 128) ! m)))" "sched_inv s''"
        "\<forall>j < MAX_TASKS. base_priority (task_at s'' j) = base_priority (task_at ?s j) \<and>
          runnable (task_at s'' j) = runnable (task_at (before_select ?s 128) j) \<and>
          sleep_ticks (task_at s'' j) = sleep_ticks (task_at (before_select ?s 128) j) \<and>
          (\<not> runnable (task_at (before_select ?s 128) j) \<longrightarrow> state (task_at s'' j) = state (task_at (before_select ?s 128) j))"
      have "runnable (task_at (before_select ?s 128) k)"
        using before_select_task(1) [of k ?s 128] len r1 by (simp add: runnable_def)
      then have "runnable (task_at s'' k)" using a(3) k by blast
      then show ?thesis using a(1,2) True by (simp add: rtos_yield_def)
    qed
  next
    case False
    then show ?thesis using inv1 r1 by (simp add: rtos_yield_def)
  qed
  then obtain y where y: "rtos_yield ?s regs = Some y" "sched_inv y" "runnable (task_at y k)" by blast
  have wy: "waitq_is (y, h, t) xs" if "waitq_is (s, h, t) xs" for h t xs
    using w1 [OF that] by (rule waitq_is_links) (rule links_yield [OF y(1)])
  have "rtos_task_unblock s regs (Some k) = Some y \<or> rtos_task_unblock s regs (Some k) = Some ?s"
    using y(1) by (auto simp: rtos_task_unblock_def Let_def split: option.splits)
  then show thesis using that [of y] that [of ?s] y wy inv1 r1 w1 by blast
qed

section \<open>Semaphores\<close>

text \<open>A semaphore with \<open>n\<close> permits and the tasks that wait for one, longest waiting first.\<close>

definition sem_is :: "rtos \<Rightarrow> rtos_sem \<Rightarrow> int \<Rightarrow> nat list \<Rightarrow> bool" where
  "sem_is s sem n xs \<longleftrightarrow> sem_count sem = n \<and> 0 \<le> n \<and> n \<le> sem_max_count sem \<and> (n > 0 \<longrightarrow> xs = []) \<and>
     waitq_is (s, sem_wait_head sem, sem_wait_tail sem) xs"

lemma sem_wait_cases:
  assumes inv: "sched_inv s" and run: "scheduler_running s" and sem: "sem_is s sem n xs"
    and cur: "current_task s = Some k" "idle_task s \<noteq> Some k" "k \<notin> set xs"
  shows "if n > 0
    then (\<exists>sem'. rtos_sem_wait s regs addr sem timeout = Some (s, sem', True) \<and> sem_is s sem' (n - 1) [])
    else if timeout = 0 then rtos_sem_wait s regs addr sem timeout = Some (s, sem, False)
    else (\<exists>s' sem'. rtos_sem_wait s regs addr sem timeout = Some (s', sem', True) \<and> sem_is s' sem' 0 (xs @ [k]) \<and>
      sched_inv s' \<and> current_task s' \<noteq> Some k \<and> state (task_at s' k) = TASK_STATE_BLOCKED \<and>
      wait_object (task_at s' k) = addr)"
proof -
  have S: "sem_count sem = n" "0 \<le> n" "n \<le> sem_max_count sem" "waitq_is (s, sem_wait_head sem, sem_wait_tail sem) xs"
    using sem by (auto simp: sem_is_def)
  consider "n > 0" | "n = 0" "timeout = 0" | "n = 0" "timeout \<noteq> 0" using S(2) by linarith
  then show ?thesis
  proof cases
    case 1
    then show ?thesis using sem by (auto simp: rtos_sem_wait_def sem_is_def)
  next
    case 2
    then show ?thesis using S by (simp add: rtos_sem_wait_def)
  next
    case 3
    obtain s1 h' t' s' where b: "add_waiter (s, sem_wait_head sem, sem_wait_tail sem) k = Some (s1, h', t')"
      "rtos_task_block s1 regs (Some k) addr = Some s'" "waitq_is (s', h', t') (xs @ [k])" "sched_inv s'"
      "current_task s' \<noteq> Some k" "state (task_at s' k) = TASK_STATE_BLOCKED" "wait_object (task_at s' k) = addr"
      by (rule queue_and_block [OF inv run cur(1,2) S(4) cur(3)])
    have "rtos_sem_wait s regs addr sem timeout = Some (s', sem\<lparr>sem_wait_head := h', sem_wait_tail := t'\<rparr>, True)"
      using 3 S(1) b(1,2) cur(1) by (simp add: rtos_sem_wait_def rtos_current_task_def del: add_waiter.simps)
    moreover have "sem_is s' (sem\<lparr>sem_wait_head := h', sem_wait_tail := t'\<rparr>) 0 (xs @ [k])"
      using 3 S b(3) by (simp add: sem_is_def)
    ultimately show ?thesis using 3 b by auto
  qed
qed

text \<open>C24. Waiting on a semaphore: a permit is taken at once when there is one; without one a call with
  timeout 0 returns false and changes nothing, and any other call puts the caller at the end of
  the queue, blocked on the semaphore, and another task runs.\<close>

theorem rtos_sem_wait_spec:
  assumes "sched_inv s" and "scheduler_running s" and "sem_is s sem n xs"
    and "current_task s = Some k" "idle_task s \<noteq> Some k" "k \<notin> set xs"
  shows "if n > 0
    then (\<exists>sem'. rtos_sem_wait s regs addr sem timeout = Some (s, sem', True) \<and> sem_is s sem' (n - 1) [])
    else if timeout = 0 then rtos_sem_wait s regs addr sem timeout = Some (s, sem, False)
    else (\<exists>s' sem'. rtos_sem_wait s regs addr sem timeout = Some (s', sem', True) \<and> sem_is s' sem' 0 (xs @ [k]) \<and>
      sched_inv s' \<and> current_task s' \<noteq> Some k \<and> state (task_at s' k) = TASK_STATE_BLOCKED \<and>
      wait_object (task_at s' k) = addr)"
  by (rule sem_wait_cases [OF assms])

lemma pop_waiter_inv:
  assumes "sched_inv s" and "pop_waiter (s, h, t) = ((s', h', t'), w)"
  shows "sched_inv s' \<and> current_task s' = current_task s \<and> idle_task s' = idle_task s \<and>
    scheduler_running s' = scheduler_running s"
proof -
  have keep: "sched_inv (upd_task j (\<lambda>t. t\<lparr>next_wait := v\<rparr>) r)" if "sched_inv r" for j v r
    by (rule sched_inv_update [OF that]) (auto simp: runnable_def)
  show ?thesis using assms keep by (cases h) (auto simp: Let_def)
qed

lemma sem_signal_cases:
  assumes inv: "sched_inv s" and sem: "sem_is s sem n xs"
  shows "case xs of
      [] \<Rightarrow> (\<exists>sem'. rtos_sem_signal s regs sem = Some (s, sem') \<and> sem_is s sem' (min (n + 1) (sem_max_count sem)) [])
    | x # ys \<Rightarrow> (\<exists>s' sem'. rtos_sem_signal s regs sem = Some (s', sem') \<and> sem_is s' sem' 0 ys \<and>
        sched_inv s' \<and> runnable (task_at s' x))"
proof -
  have S: "sem_count sem = n" "0 \<le> n" "n \<le> sem_max_count sem" "n > 0 \<longrightarrow> xs = []"
    "waitq_is (s, sem_wait_head sem, sem_wait_tail sem) xs"
    using sem by (auto simp: sem_is_def)
  show ?thesis
  proof (cases xs)
    case Nil
    then have p: "pop_waiter (s, sem_wait_head sem, sem_wait_tail sem) = ((s, sem_wait_head sem, sem_wait_tail sem), None)"
      using waitq.deq_empty S(5) by blast
    show ?thesis using Nil S p by (auto simp: rtos_sem_signal_def sem_is_def Let_def min_def)
  next
    case (Cons x ys)
    obtain q' where "pop_waiter (s, sem_wait_head sem, sem_wait_tail sem) = (q', Some x)" "waitq_is q' ys"
      using waitq.deq_first S(5) unfolding Cons by blast
    then obtain s1 h' t' where p: "pop_waiter (s, sem_wait_head sem, sem_wait_tail sem) = ((s1, h', t'), Some x)"
      and q: "waitq_is (s1, h', t') ys" by (cases q') auto
    have inv1: "sched_inv s1" using pop_waiter_inv [OF inv p] by simp
    have x: "x < MAX_TASKS" using S(5) sched_invD(1) [OF inv] by (auto simp: Cons)
    obtain s' where u: "rtos_task_unblock s1 regs (Some x) = Some s'" "sched_inv s'" "runnable (task_at s' x)"
      "\<And>h t xs. waitq_is (s1, h, t) xs \<Longrightarrow> waitq_is (s', h, t) xs"
      using unblock_wakes [OF inv1 x, of regs] by metis
    have n0: "n = 0" using S(2,4) Cons by auto
    have "rtos_sem_signal s regs sem = Some (s', sem\<lparr>sem_wait_head := h', sem_wait_tail := t'\<rparr>)"
      using p u(1) by (simp add: rtos_sem_signal_def Let_def)
    moreover have "sem_is s' (sem\<lparr>sem_wait_head := h', sem_wait_tail := t'\<rparr>) 0 ys"
      using S(1,3) n0 u(4) [OF q] by (simp add: sem_is_def)
    ultimately show ?thesis using u(2,3) Cons by auto
  qed
qed

text \<open>C23. Signalling a semaphore: when tasks wait, the one that has waited longest becomes runnable
  and gets the permit directly; otherwise the permits grow by one, up to the maximum.\<close>

theorem rtos_sem_signal_spec:
  assumes "sched_inv s" and "sem_is s sem n xs"
  shows "case xs of
      [] \<Rightarrow> (\<exists>sem'. rtos_sem_signal s regs sem = Some (s, sem') \<and> sem_is s sem' (min (n + 1) (sem_max_count sem)) [])
    | x # ys \<Rightarrow> (\<exists>s' sem'. rtos_sem_signal s regs sem = Some (s', sem') \<and> sem_is s' sem' 0 ys \<and>
        sched_inv s' \<and> runnable (task_at s' x))"
  by (rule sem_signal_cases [OF assms])

section \<open>Mutexes\<close>

definition mutex_is :: "rtos \<Rightarrow> rtos_mutex \<Rightarrow> nat option \<Rightarrow> nat list \<Rightarrow> bool" where
  "mutex_is s m own xs \<longleftrightarrow> locked m = (own \<noteq> None) \<and> owner m = own \<and>
     (own = None \<longrightarrow> xs = [] \<and> recursion_count m = 0) \<and> (own \<noteq> None \<longrightarrow> recursion_count m \<noteq> 0) \<and>
     (\<forall>k. own = Some k \<longrightarrow> k \<notin> set xs \<and> k < MAX_TASKS) \<and> waitq_is (s, mtx_wait_head m, mtx_wait_tail m) xs"

lemma boost_owner_inv:
  assumes inv: "sched_inv s" and "c < MAX_TASKS"
  shows "sched_inv (boost_owner s (Some c) own)" and "links (boost_owner s (Some c) own) = links s"
    and "current_task (boost_owner s (Some c) own) = current_task s" "idle_task (boost_owner s (Some c) own) = idle_task s"
    "scheduler_running (boost_owner s (Some c) own) = scheduler_running s"
proof -
  have "priority (task_at s c) \<le> 15" using sched_invD(2) [OF inv assms(2)] .
  then have "sched_inv (upd_task w (\<lambda>t. t\<lparr>priority := priority (task_at s c)\<rparr>) s)" for w
    by (intro sched_inv_update [OF inv]) (auto simp: runnable_def)
  then show "sched_inv (boost_owner s (Some c) own)" using inv by (simp add: boost_owner_def split: option.splits)
qed (simp_all add: boost_owner_def split: option.splits)


lemma restore_owner_inv:
  assumes "sched_inv s"
  shows "sched_inv (restore_owner s own)"
proof -
  have "sched_inv (upd_task w (\<lambda>t. t\<lparr>priority := base_priority t\<rparr>) s)" for w
    by (rule sched_inv_update [OF assms]) (auto simp: runnable_def split: if_splits)
  then show ?thesis using assms by (simp add: restore_owner_def split: option.splits)
qed

text \<open>C26. Unlocking a mutex: only the owner's call has an effect; it undoes one level of nesting, and at
  the outermost level passes the mutex directly to the task that has waited longest, which
  becomes runnable, or frees it when nobody waits.\<close>

theorem rtos_mutex_unlock_spec:
  assumes inv: "sched_inv s" and run: "scheduler_running s" and m: "mutex_is s m own xs" and cur: "current_task s = Some k"
  shows "if own \<noteq> Some k then rtos_mutex_unlock s regs m = Some (s, m)
    else if recursion_count m > 1
    then (\<exists>m'. rtos_mutex_unlock s regs m = Some (s, m') \<and> mutex_is s m' own xs \<and> recursion_count m' = recursion_count m - 1)
    else (case xs of
        [] \<Rightarrow> (\<exists>s' m'. rtos_mutex_unlock s regs m = Some (s', m') \<and> mutex_is s' m' None [] \<and> sched_inv s' \<and>
          priority (task_at s' k) = base_priority (task_at s k))
      | x # ys \<Rightarrow> (\<exists>s' m'. rtos_mutex_unlock s regs m = Some (s', m') \<and> mutex_is s' m' (Some x) ys \<and> sched_inv s' \<and>
          runnable (task_at s' x)))"
proof -
  have M: "locked m = (own \<noteq> None)" "owner m = own" "own = None \<longrightarrow> xs = [] \<and> recursion_count m = 0"
    "own \<noteq> None \<longrightarrow> recursion_count m \<noteq> 0" "\<forall>k. own = Some k \<longrightarrow> k \<notin> set xs \<and> k < MAX_TASKS"
    "waitq_is (s, mtx_wait_head m, mtx_wait_tail m) xs" using m by (auto simp: mutex_is_def)
  note defs = rtos_mutex_unlock_def rtos_is_running_def rtos_current_task_def Let_def
  consider "own \<noteq> Some k" | "own = Some k" "recursion_count m > 1" | "own = Some k" "\<not> recursion_count m > 1" by blast
  then show ?thesis
  proof cases
    case 1
    then show ?thesis using M run cur by (cases own) (auto simp: defs)
  next
    case 2
    then have "recursion_count m - 1 \<noteq> 0" by auto
    then show ?thesis using 2 M run cur by (simp add: defs mutex_is_def)
  next
    case 3
    let ?s = "restore_owner s own"
    have k: "k < length (task_table s)" using sched_invD(1,5) [OF inv] cur by auto
    have inv1: "sched_inv ?s" using inv by (rule restore_owner_inv)
    have "links ?s = links s" by (simp add: restore_owner_def split: option.splits)
    with M(6) have q1: "waitq_is (?s, mtx_wait_head m, mtx_wait_tail m) xs" by (rule waitq_is_links)
    show ?thesis
    proof (cases xs)
      case Nil
      then have "pop_waiter (?s, mtx_wait_head m, mtx_wait_tail m) = ((?s, mtx_wait_head m, mtx_wait_tail m), None)"
        using waitq.deq_empty q1 by blast
      moreover have "priority (task_at ?s k) = base_priority (task_at s k)" using 3 k by (simp add: restore_owner_def)
      ultimately show ?thesis using 3 Nil M run cur inv1 q1 by (auto simp: defs mutex_is_def)
    next
      case (Cons x ys)
      obtain q' where "pop_waiter (?s, mtx_wait_head m, mtx_wait_tail m) = (q', Some x)" "waitq_is q' ys"
        using waitq.deq_first q1 unfolding Cons by blast
      then obtain s1 h' t' where p: "pop_waiter (?s, mtx_wait_head m, mtx_wait_tail m) = ((s1, h', t'), Some x)"
        and q: "waitq_is (s1, h', t') ys" by (cases q') auto
      have inv2: "sched_inv s1" using pop_waiter_inv [OF inv1 p] by simp
      have x: "x < MAX_TASKS" "x \<notin> set ys" using M(6) sched_invD(1) [OF inv] by (auto simp: Cons)
      obtain s' where u: "rtos_task_unblock s1 regs (Some x) = Some s'" "sched_inv s'" "runnable (task_at s' x)"
        "\<And>h t xs. waitq_is (s1, h, t) xs \<Longrightarrow> waitq_is (s', h, t) xs"
        using unblock_wakes [OF inv2 x(1), of regs] by metis
      have "rtos_mutex_unlock s regs m =
          Some (s', m\<lparr>mtx_wait_head := h', mtx_wait_tail := t', owner := Some x, recursion_count := 1\<rparr>)"
        using 3 M run cur p u(1) by (simp add: defs)
      moreover have "mutex_is s' (m\<lparr>mtx_wait_head := h', mtx_wait_tail := t', owner := Some x, recursion_count := 1\<rparr>) (Some x) ys"
        using 3 M x u(4) [OF q] by (simp add: mutex_is_def)
      ultimately show ?thesis using 3 Cons u(2,3) by auto
    qed
  qed
qed

text \<open>The boost of an owner does not last: once the owner is selected it runs at its base priority
  again, although the mutex is still held and the waiter still blocked.\<close>

lemma block_yields:
  assumes "rtos_task_block s regs (Some k) addr = Some s'" and "scheduler_running s"
  obtains r where "rtos_schedule_from_isr (upd_task k (\<lambda>t. t\<lparr>state := TASK_STATE_BLOCKED, wait_object := addr\<rparr>) s) regs 128 = Some (s', r)"
  using assms by (auto simp: rtos_task_block_def rtos_yield_def)

text \<open>Priority inheritance ends with the owner's next selection: when a task blocks on a mutex and
  the scheduler picks the owner, the owner runs at its base priority, not at the inherited one,
  although it still holds the mutex.\<close>

theorem mutex_boost_lost:
  assumes inv: "sched_inv s" and run: "scheduler_running s" and m: "mutex_is s m (Some w) xs"
    and cur: "current_task s = Some k" "idle_task s \<noteq> Some k" "k \<notin> set xs" "w \<noteq> k" and t: "timeout \<noteq> 0"
    and lock: "rtos_mutex_lock s regs addr m timeout = Some (s', m', r)" and picked: "current_task s' = Some w"
  shows "priority (task_at s' w) = base_priority (task_at s' w) \<and> owner m' = Some w"
proof -
  have M: "locked m" "owner m = Some w" "w < MAX_TASKS" "waitq_is (s, mtx_wait_head m, mtx_wait_tail m) xs"
    using m by (auto simp: mutex_is_def)
  have k: "k < MAX_TASKS" using sched_invD(5) [OF inv cur(1)] by simp
  let ?s = "boost_owner s (Some k) (Some w)"
  note B = boost_owner_inv [OF inv k, of "Some w"]
  have "waitq_is (?s, mtx_wait_head m, mtx_wait_tail m) xs" using M(4) B(2) by (rule waitq_is_links)
  then obtain q1 where "add_waiter (?s, mtx_wait_head m, mtx_wait_tail m) k = Some q1"
    using waitq.enq_contents [of "(?s, mtx_wait_head m, mtx_wait_tail m)" xs k] cur(3) k sched_invD(1) [OF B(1)]
    by (simp del: add_waiter.simps) blast
  then obtain s1 h' t' where add: "add_waiter (?s, mtx_wait_head m, mtx_wait_tail m) k = Some (s1, h', t')"
    by (cases q1) (simp del: add_waiter.simps)
  have keep: "sched_inv (upd_task j (\<lambda>t. t\<lparr>next_wait := v\<rparr>) r)" if "sched_inv r" for j v r
    by (rule sched_inv_update [OF that]) (auto simp: runnable_def)
  have inv1: "sched_inv s1" and eq1: "idle_task s1 = idle_task s" "scheduler_running s1"
    using add B run by (auto simp: Let_def keep split: if_splits option.splits)
  let ?s2 = "upd_task k (\<lambda>t. t\<lparr>state := TASK_STATE_BLOCKED, wait_object := addr\<rparr>) s1"
  have inv2: "sched_inv ?s2" using inv1 cur(2) eq1 by (intro stop_task_inv) simp_all
  have l: "rtos_task_block s1 regs (Some k) addr = Some s'" "m' = m\<lparr>mtx_wait_head := h', mtx_wait_tail := t'\<rparr>"
    using lock M(1,2) run cur t add
    by (auto simp: rtos_mutex_lock_def rtos_is_running_def rtos_current_task_def Let_def bind_eq_Some_conv
        simp del: add_waiter.simps)
  have run2: "scheduler_running ?s2" using eq1 by simp
  obtain r' where y: "rtos_schedule_from_isr ?s2 regs 128 = Some (s', r')" by (rule block_yields [OF l(1) eq1(2)])
  show ?thesis
  proof (rule schedule_outcome [OF inv2 run2, of 128 regs])
    fix s'' j
    let ?k = "sched_order (before_select ?s2 128) ! j"
    assume a: "rtos_schedule_from_isr ?s2 regs 128 = Some (s'', if current_task ?s2 = Some ?k then regs else esp (task_at ?s2 ?k))"
      "current_task s'' = Some ?k"
      "\<forall>j < MAX_TASKS. priority (task_at s'' j) =
       (if j = ?k then base_priority (task_at ?s2 j) else priority (age_task (task_at (before_select ?s2 128) j)))"
      "\<forall>j < MAX_TASKS. base_priority (task_at s'' j) = base_priority (task_at ?s2 j) \<and>
       runnable (task_at s'' j) = runnable (task_at (before_select ?s2 128) j) \<and> sleep_ticks (task_at s'' j) = sleep_ticks (task_at (before_select ?s2 128) j) \<and>
       (\<not> runnable (task_at (before_select ?s2 128) j) \<longrightarrow> state (task_at s'' j) = state (task_at (before_select ?s2 128) j))"
    have eq: "s'' = s'" using a(1) y by simp
    then have "?k = w" using a(2) picked by simp
    then have "priority (task_at s' w) = base_priority (task_at ?s2 w)" using a(3) M(3) eq by auto
    moreover have "base_priority (task_at s' w) = base_priority (task_at ?s2 w)" using a(4) M(3) eq by blast
    ultimately show ?thesis using l(2) M(2) by simp
  qed
qed

section \<open>Event flags\<close>

lemma event_wake_all:
  "fold (event_wake_step addr) [0..<rtos_get_task_count s] s = s\<lparr>task_table := map (wake_waiter addr) (task_table s)\<rparr>"
  unfolding event_wake_step_def [abs_def] by (rule visit_all) (auto simp: wake_waiter_def)

lemma wake_waiter_inv: "sched_inv s \<Longrightarrow> sched_inv (s\<lparr>task_table := map (wake_waiter addr) (task_table s)\<rparr>)"
  by (erule sched_inv_update) (auto simp: wake_waiter_def runnable_def)

text \<open>Setting event flags: every task that was blocked on the event is runnable afterwards, every task
  blocked on something else stays blocked, and the flags of the mask are set. A task that then
  retries its wait finds the flags it asked for and gets them, cleared or not as it asked.\<close>

theorem rtos_event_set_wakes:
  assumes inv: "sched_inv s" and run: "scheduler_running s"
  shows "\<exists>s' ev'. rtos_event_set s regs addr ev flag_mask = Some (s', ev') \<and> sched_inv s' \<and>
    ev_flags ev' = ev_flags ev OR flag_mask \<and>
    (\<forall>k < MAX_TASKS. state (task_at s k) = TASK_STATE_BLOCKED \<longrightarrow>
       (if wait_object (task_at s k) = addr then runnable (task_at s' k) else state (task_at s' k) = TASK_STATE_BLOCKED)) \<and>
    (\<forall>want clr. flag_mask AND want \<noteq> 0 \<longrightarrow>
       (\<exists>ev''. rtos_event_wait s' regs addr ev' want clr = Some (s', ev'', Some (ev_flags ev' AND want)) \<and>
          ev_flags ev'' = (if clr then ev_flags ev' AND NOT want else ev_flags ev')))"
proof -
  let ?s = "s\<lparr>task_table := map (wake_waiter addr) (task_table s)\<rparr>"
  have inv1: "sched_inv ?s" using inv by (rule wake_waiter_inv)
  have run1: "scheduler_running ?s" using run by simp
  have fl: "(ev_flags ev OR flag_mask) AND want \<noteq> 0" if "flag_mask AND want \<noteq> 0" for want
    using that by (metis bit.conj_disj_distrib2 or_eq_0_iff)
  show ?thesis
  proof (rule schedule_outcome [OF inv1 run1, of 128 regs])
    let ?b = "before_select ?s 128"
    fix s' m
    assume a: "rtos_schedule_from_isr ?s regs 128 = Some (s', if current_task ?s = Some (sched_order ?b ! m) then regs
        else esp (task_at ?s (sched_order ?b ! m)))" "sched_inv s'"
      "\<forall>j < MAX_TASKS. base_priority (task_at s' j) = base_priority (task_at ?s j) \<and>
       runnable (task_at s' j) = runnable (task_at ?b j) \<and> sleep_ticks (task_at s' j) = sleep_ticks (task_at ?b j) \<and>
       (\<not> runnable (task_at ?b j) \<longrightarrow> state (task_at s' j) = state (task_at ?b j))"
    have set_eq: "rtos_event_set s regs addr ev flag_mask = Some (s', ev\<lparr>ev_flags := ev_flags ev OR flag_mask\<rparr>)"
      using a(1) run by (simp add: rtos_event_set_def event_wake_all rtos_reschedule_def rtos_yield_def)
    have woken: "if wait_object (task_at s k) = addr then runnable (task_at s' k) else state (task_at s' k) = TASK_STATE_BLOCKED"
      if k: "k < MAX_TASKS" "state (task_at s k) = TASK_STATE_BLOCKED" for k
    proof -
      have len: "k < length (task_table ?s)" "k < length (task_table s)" using k(1) sched_invD(1) [OF inv] by simp_all
      have "state (task_at ?b k) = state (wake_waiter addr (task_at s k))" using before_select_task(1) [OF len(1), of 128] len by simp
      then have st: "state (task_at ?b k) = (if wait_object (task_at s k) = addr then TASK_STATE_READY else TASK_STATE_BLOCKED)"
        using k(2) by (simp add: wake_waiter_def)
      have "runnable (task_at s' k) = runnable (task_at ?b k)" "\<not> runnable (task_at ?b k) \<longrightarrow> state (task_at s' k) = state (task_at ?b k)"
        using a(3) k(1) by blast+
      then show ?thesis using st by (auto simp: runnable_def)
    qed
    let ?ev = "ev\<lparr>ev_flags := ev_flags ev OR flag_mask\<rparr>"
    have waits: "\<forall>want clr. flag_mask AND want \<noteq> 0 \<longrightarrow> (\<exists>ev''. rtos_event_wait s' regs addr ?ev want clr =
        Some (s', ev'', Some (ev_flags ?ev AND want)) \<and>
        ev_flags ev'' = (if clr then ev_flags ?ev AND NOT want else ev_flags ?ev))"
      using fl by (simp add: rtos_event_wait_def Let_def)
    have "\<forall>k < MAX_TASKS. state (task_at s k) = TASK_STATE_BLOCKED \<longrightarrow>
       (if wait_object (task_at s k) = addr then runnable (task_at s' k) else state (task_at s' k) = TASK_STATE_BLOCKED)"
      using woken by blast
    moreover have "ev_flags ?ev = ev_flags ev OR flag_mask" by simp
    ultimately show ?thesis using set_eq a(2) waits by blast
  qed
qed

section \<open>Instances\<close>

lemma two_tasks_worker: "current_task two_tasks = Some 1" "idle_task two_tasks \<noteq> Some 1" "1 \<notin> set []"
  by (simp_all add: two_tasks_simps)

theorem rtos_sem_wait_spec_witness:
  "\<exists>s' sem'. rtos_sem_wait two_tasks 0x6000 0x9000 (rtos_sem_init 0 1) 5 = Some (s', sem', True) \<and> sem_is s' sem' 0 ([] @ [1])"
proof -
  have "sem_is two_tasks (rtos_sem_init 0 1) 0 []" by (simp add: sem_is_def rtos_sem_init_def)
  from rtos_sem_wait_spec [OF two_tasks_inv two_tasks_simps(1) this two_tasks_worker, of "0x6000" "0x9000" 5]
  show ?thesis by auto
qed

theorem rtos_sem_signal_spec_witness:
  "\<exists>sem'. rtos_sem_signal two_tasks 0x6000 (rtos_sem_init 0 1) = Some (two_tasks, sem') \<and> sem_is two_tasks sem' 1 []"
proof -
  have "sem_is two_tasks (rtos_sem_init 0 1) 0 []" by (simp add: sem_is_def rtos_sem_init_def)
  from rtos_sem_signal_spec [OF two_tasks_inv this, of "0x6000"] show ?thesis by (simp add: rtos_sem_init_def)
qed


definition held_mutex :: "nat \<Rightarrow> rtos_mutex" where
  "held_mutex k = \<lparr>locked = True, recursion_count = 1, owner = Some k, mtx_wait_head = None, mtx_wait_tail = None\<rparr>"

lemma held_mutex_is: "k < 32 \<Longrightarrow> mutex_is two_tasks (held_mutex k) (Some k) []"
  by (simp add: mutex_is_def held_mutex_def MAX_TASKS_def)

theorem rtos_mutex_unlock_spec_witness:
  "\<exists>s' m'. rtos_mutex_unlock two_tasks 0x6000 (held_mutex 1) = Some (s', m') \<and> mutex_is s' m' None []"
proof -
  have "\<not> 1 < recursion_count (held_mutex 1)" by (simp add: held_mutex_def)
  then show ?thesis
    using rtos_mutex_unlock_spec [OF two_tasks_inv two_tasks_simps(1) held_mutex_is, of 1 1 "0x6000"]
    by (auto simp: two_tasks_simps)
qed

theorem rtos_event_set_wakes_witness:
  "\<exists>s' ev'. rtos_event_set two_tasks 0x6000 0x9000 rtos_event_init 4 = Some (s', ev') \<and> ev_flags ev' = 4"
  using rtos_event_set_wakes [OF two_tasks_inv two_tasks_simps(1), of "0x6000" "0x9000" rtos_event_init 4]
  by (auto simp: rtos_event_init_def)

lemma boost_example:
  "map_option (\<lambda>(s, m, r). current_task s) (rtos_mutex_lock two_tasks 0x6000 0x9000 (held_mutex 0) 5) = Some (Some 0)"
  by code_simp

theorem mutex_boost_lost_witness:
  "\<exists>s' m' r. rtos_mutex_lock two_tasks 0x6000 0x9000 (held_mutex 0) 5 = Some (s', m', r) \<and>
    priority (task_at s' 0) = base_priority (task_at s' 0) \<and> owner m' = Some 0"
proof -
  obtain s' m' r where l: "rtos_mutex_lock two_tasks 0x6000 0x9000 (held_mutex 0) 5 = Some (s', m', r)"
    "current_task s' = Some 0"
    using boost_example by (auto simp: map_option_case split: option.splits)
  have m: "mutex_is two_tasks (held_mutex 0) (Some 0) []" by (rule held_mutex_is) simp
  show ?thesis
    using mutex_boost_lost [OF two_tasks_inv two_tasks_simps(1) m two_tasks_worker _ _ l] l(1) by simp
qed

end
