(* ===== verification/Msg_Queue.thy ===== *)
theory Msg_Queue
  imports Wait_Queues Heap_Alloc
begin

text \<open>
  The message queue of \<open>src/rtos/sync.c\<close>: the buffer is a ring of fixed-size items, and sending
  and receiving are adding to and taking from a bounded first-in first-out list of items.
\<close>

section \<open>The ring\<close>

definition bytes_at :: "mem \<Rightarrow> u32 \<Rightarrow> nat \<Rightarrow> u8 list" where
  "bytes_at m p n = map (\<lambda>i. m (p + of_nat i)) [0..<n]"

definition slot_addr :: "rtos_queue \<Rightarrow> nat \<Rightarrow> u32" where
  "slot_addr q i = q_buffer q + of_nat i * item_size q"

text \<open>The queue is consistent: its indices are in range, the tail is the head plus the count, and
  the buffer does not run past the end of memory.\<close>

definition ring_ok :: "rtos_queue \<Rightarrow> bool" where
  "ring_ok q \<longleftrightarrow> 0 < unat (capacity q) \<and> unat (q_count q) \<le> unat (capacity q) \<and> unat (q_head q) < unat (capacity q) \<and>
     unat (q_tail q) = (unat (q_head q) + unat (q_count q)) mod unat (capacity q) \<and>
     unat (q_buffer q) + unat (capacity q) * unat (item_size q) < 2 ^ 32 \<and> unat (capacity q) < 2 ^ 31"

text \<open>Its items, first to leave first.\<close>

definition ring_items :: "mem \<Rightarrow> rtos_queue \<Rightarrow> u8 list list" where
  "ring_items m q = map (\<lambda>i. bytes_at m (slot_addr q ((unat (q_head q) + i) mod unat (capacity q))) (unat (item_size q)))
     [0..<unat (q_count q)]"

lemma bytes_at_copied: "n < 2 ^ 32 \<Longrightarrow> bytes_at (copied m d s n) d n = bytes_at m s n"
  by (auto simp: bytes_at_def copied_def unat_of_nat intro!: map_cong)

lemma bytes_at_outside:
  assumes "region p k \<inter> region d n = {}" and "k < 2 ^ 32"
  shows "bytes_at (copied m d s n) p k = bytes_at m p k"
proof -
  have "p + of_nat i \<notin> region d n" if "i < k" for i
  proof -
    have "p + of_nat i \<in> region p k" using that assms(2) by (simp add: region_def unat_of_nat)
    then show ?thesis using assms(1) by blast
  qed
  then show ?thesis by (auto simp: bytes_at_def region_def copied_def intro!: map_cong)
qed

lemma memcpy_disjoint:
  assumes "region d (unat n) \<inter> region s (unat n) = {}"
  shows "memcpy m d s n = copied m d s (unat n)"
proof (rule memcpy_copied)
  show "d = s \<or> n \<le> d - s"
  proof (rule ccontr)
    assume "\<not> ?thesis"
    then have "unat (d - s) < unat n" by (simp add: word_le_nat_alt not_le)
    then have "d \<in> region s (unat n)" "d \<in> region d (unat n)" by (simp_all add: region_def)
    then show False using assms by blast
  qed
qed

lemma slot_bound:
  assumes "ring_ok q" and "i < unat (capacity q)"
  shows "unat (slot_addr q i) = unat (q_buffer q) + i * unat (item_size q)"
    and "i * unat (item_size q) + unat (item_size q) \<le> unat (capacity q) * unat (item_size q)"
proof -
  have "(i + 1) * unat (item_size q) \<le> unat (capacity q) * unat (item_size q)"
    using assms(2) by (intro mult_le_mono1) simp
  then show le: "i * unat (item_size q) + unat (item_size q) \<le> unat (capacity q) * unat (item_size q)" by simp
  have eq: "of_nat i * item_size q = of_nat (i * unat (item_size q))" by simp
  have "unat (q_buffer q) + i * unat (item_size q) < 2 ^ 32" using le assms(1) unfolding ring_ok_def by linarith
  then show "unat (slot_addr q i) = unat (q_buffer q) + i * unat (item_size q)"
    unfolding slot_addr_def eq by (rule unat_add_of_nat)
qed

lemma slot_in_buffer:
  assumes "ring_ok q" and "i < unat (capacity q)"
  shows "region (slot_addr q i) (unat (item_size q)) \<subseteq> region (q_buffer q) (unat (capacity q) * unat (item_size q))"
  using slot_bound [OF assms] assms(1) unfolding ring_ok_def by (intro region_sub) linarith+

lemma slots_disjoint:
  assumes "ring_ok q" and "i < unat (capacity q)" "j < unat (capacity q)" "i \<noteq> j"
  shows "region (slot_addr q i) (unat (item_size q)) \<inter> region (slot_addr q j) (unat (item_size q)) = {}"
proof -
  let ?z = "unat (item_size q)"
  note I = slot_bound [OF assms(1,2)] and J = slot_bound [OF assms(1,3)]
  have top: "unat (slot_addr q i) + ?z \<le> 2 ^ 32" "unat (slot_addr q j) + ?z \<le> 2 ^ 32"
    using I J assms(1) unfolding ring_ok_def by linarith+
  have "i * ?z + ?z \<le> j * ?z \<or> j * ?z + ?z \<le> i * ?z"
  proof (cases "i < j")
    case True
    then have "(i + 1) * ?z \<le> j * ?z" by (intro mult_le_mono1) simp
    then show ?thesis by simp
  next
    case False
    then have "(j + 1) * ?z \<le> i * ?z" using assms(4) by (intro mult_le_mono1) simp
    then show ?thesis by simp
  qed
  moreover have "unat (slot_addr q i) \<le> unat x \<and> unat x < unat (slot_addr q i) + ?z"
    if "x \<in> region (slot_addr q i) ?z" for x
    using unat_in_region [OF _ top(1), of x] that by (simp add: region_def)
  moreover have "unat (slot_addr q j) \<le> unat x \<and> unat x < unat (slot_addr q j) + ?z"
    if "x \<in> region (slot_addr q j) ?z" for x
    using unat_in_region [OF _ top(2), of x] that by (simp add: region_def)
  ultimately show ?thesis using I(1) J(1) by fastforce
qed

lemma ring_next:
  assumes "ring_ok q" and "x < capacity q"
  shows "unat ((x + 1) mod capacity q) = (unat x + 1) mod unat (capacity q)"
proof -
  have "unat (x + 1) = unat x + 1" using assms(2) by (rule unat_plus_1_less)
  then show ?thesis by (simp add: unat_mod)
qed

lemma ring_tail_bound: "ring_ok q \<Longrightarrow> q_tail q < capacity q"
  by (simp add: ring_ok_def word_less_nat_alt)

text \<open>The slot at the tail is none of the occupied ones while there is room.\<close>

lemma tail_slot_free:
  fixes h i n c :: nat
  assumes "(h + i) mod c = (h + n) mod c" and "i < n" "n < c"
  shows False
proof -
  have "c dvd (h + n) - (h + i)" using assms by (intro mod_eq_dvd_iff_nat [THEN iffD1]) auto
  then have "c dvd n - i" by simp
  then have "c \<le> n - i" using assms(2) by (intro dvd_imp_le) auto
  then show False using assms(3) by simp
qed

abbreviation qmem :: "rtos \<Rightarrow> mem" where
  "qmem s \<equiv> hmem (rheap s)"

abbreviation buffer_region :: "rtos_queue \<Rightarrow> u32 set" where
  "buffer_region q \<equiv> region (q_buffer q) (unat (capacity q) * unat (item_size q))"

lemma slot_word: "q_buffer q + x * item_size q = slot_addr q (unat x)"
  by (simp add: slot_addr_def)

lemma queue_put_ring:
  fixes s :: rtos
  assumes ok: "ring_ok q" and room: "unat (q_count q) < unat (capacity q)"
    and apart: "region item (unat (item_size q)) \<inter> buffer_region q = {}"
  defines "s' \<equiv> fst (queue_put s q item)" and "q' \<equiv> snd (queue_put s q item)"
  shows "ring_ok q'" and "ring_items (qmem s') q' = ring_items (qmem s) q @ [bytes_at (qmem s) item (unat (item_size q))]"
    and "x \<notin> buffer_region q \<Longrightarrow> qmem s' x = qmem s x"
proof -
  let ?z = "unat (item_size q)" and ?c = "unat (capacity q)" and ?h = "unat (q_head q)" and ?n = "unat (q_count q)"
  let ?t = "unat (q_tail q)"
  have R: "?h < ?c" "?t = (?h + ?n) mod ?c" "?c < 2 ^ 31" using ok by (auto simp: ring_ok_def)
  have t: "?t < ?c" using ring_tail_bound [OF ok] by (simp add: word_less_nat_alt)
  have z: "?z < 2 ^ 32" by simp
  have slot: "region (slot_addr q ?t) ?z \<subseteq> buffer_region q" by (rule slot_in_buffer [OF ok t])
  have "region (slot_addr q ?t) ?z \<inter> region item ?z = {}" using slot apart by blast
  then have m': "qmem s' = copied (qmem s) (slot_addr q ?t) item ?z"
    unfolding s'_def queue_put_def slot_word by (simp add: memcpy_disjoint)
  have q': "q' = q\<lparr>q_tail := (q_tail q + 1) mod capacity q, q_count := q_count q + 1\<rparr>"
    by (simp add: q'_def queue_put_def)
  have n1: "unat (q_count q + 1) = ?n + 1"
    using room by (intro unat_plus_1_less [of _ "capacity q"]) (simp add: word_less_nat_alt)
  have t1: "unat ((q_tail q + 1) mod capacity q) = (?h + (?n + 1)) mod ?c"
    using ring_next [OF ok ring_tail_bound [OF ok]] R(2) by (simp add: mod_Suc_eq)
  show "ring_ok q'" using ok room n1 t1 by (simp add: ring_ok_def q')
  have sl: "slot_addr q' i = slot_addr q i" for i by (simp add: slot_addr_def q')
  have old: "bytes_at (qmem s') (slot_addr q ((?h + i) mod ?c)) ?z = bytes_at (qmem s) (slot_addr q ((?h + i) mod ?c)) ?z"
    if "i < ?n" for i
  proof -
    have "(?h + i) mod ?c \<noteq> ?t" using tail_slot_free [OF _ that room] R(2) by metis
    then have "region (slot_addr q ((?h + i) mod ?c)) ?z \<inter> region (slot_addr q ?t) ?z = {}"
      using R(1) t by (intro slots_disjoint [OF ok]) simp_all
    then show ?thesis unfolding m' using z by (rule bytes_at_outside)
  qed
  have new: "bytes_at (qmem s') (slot_addr q ((?h + ?n) mod ?c)) ?z = bytes_at (qmem s) item ?z"
    unfolding m' R(2) [symmetric] by (rule bytes_at_copied [OF z])
  show "ring_items (qmem s') q' = ring_items (qmem s) q @ [bytes_at (qmem s) item ?z]"
    using old new by (simp add: ring_items_def q' n1 sl [unfolded q'])
  show "qmem s' x = qmem s x" if "x \<notin> buffer_region q"
    using that slot unfolding m' by (intro copied_outside) (auto simp: region_def)
qed

lemma queue_get_ring:
  fixes s :: rtos
  assumes ok: "ring_ok q" and some: "0 < unat (q_count q)"
    and apart: "region item (unat (item_size q)) \<inter> buffer_region q = {}"
  defines "s' \<equiv> fst (queue_get s q item)" and "q' \<equiv> snd (queue_get s q item)"
  shows "ring_ok q'" and "ring_items (qmem s') q' = tl (ring_items (qmem s) q)"
    and "bytes_at (qmem s') item (unat (item_size q)) = hd (ring_items (qmem s) q)"
    and "x \<notin> region item (unat (item_size q)) \<Longrightarrow> qmem s' x = qmem s x"
proof -
  let ?z = "unat (item_size q)" and ?c = "unat (capacity q)" and ?h = "unat (q_head q)" and ?n = "unat (q_count q)"
  have R: "?h < ?c" "unat (q_tail q) = (?h + ?n) mod ?c" using ok by (auto simp: ring_ok_def)
  have z: "?z < 2 ^ 32" by simp
  have "region (slot_addr q ?h) ?z \<subseteq> buffer_region q" by (rule slot_in_buffer [OF ok R(1)])
  then have "region item ?z \<inter> region (slot_addr q ?h) ?z = {}" using apart by blast
  then have m': "qmem s' = copied (qmem s) item (slot_addr q ?h) ?z"
    unfolding s'_def queue_get_def slot_word by (simp add: memcpy_disjoint)
  have q': "q' = q\<lparr>q_head := (q_head q + 1) mod capacity q, q_count := q_count q - 1\<rparr>"
    by (simp add: q'_def queue_get_def)
  have n1: "unat (q_count q - 1) = ?n - 1" using some by (simp add: unat_sub_if_size)
  have h1: "unat ((q_head q + 1) mod capacity q) = (?h + 1) mod ?c"
    using R(1) by (intro ring_next [OF ok]) (simp add: word_less_nat_alt)
  have wrap: "((?h + 1) mod ?c + i) mod ?c = (?h + Suc i) mod ?c" for i by (simp add: mod_add_left_eq)
  show "ring_ok q'" using ok some n1 h1 wrap [of "?n - 1"] by (auto simp: ring_ok_def q')
  have sl: "slot_addr q' i = slot_addr q i" for i by (simp add: slot_addr_def q')
  have keep: "bytes_at (qmem s') (slot_addr q i) ?z = bytes_at (qmem s) (slot_addr q i) ?z" if "i < ?c" for i
    unfolding m' using slot_in_buffer [OF ok that] apart z by (intro bytes_at_outside) auto
  have split: "[0..<?n] = 0 # map Suc [0..<?n - 1]" using some by (simp add: map_Suc_upt upt_conv_Cons)
  have items: "ring_items (qmem s) q = bytes_at (qmem s) (slot_addr q ?h) ?z #
      map (\<lambda>i. bytes_at (qmem s) (slot_addr q ((?h + Suc i) mod ?c)) ?z) [0..<?n - 1]"
    unfolding ring_items_def split using R(1) by simp
  have "(?h + Suc i) mod ?c < ?c" for i using R(1) by simp
  then show "ring_items (qmem s') q' = tl (ring_items (qmem s) q)"
    unfolding items using keep by (simp add: ring_items_def q' n1 h1 wrap [unfolded One_nat_def] sl [unfolded q'] del: add_Suc_right)
  show "bytes_at (qmem s') item ?z = hd (ring_items (qmem s) q)"
    unfolding items m' by (simp add: bytes_at_copied)
  show "qmem s' x = qmem s x" if "x \<notin> region item ?z" using that unfolding m' by (intro copied_outside) (simp add: region_def)
qed

section \<open>Send and receive\<close>

text \<open>A queue nobody waits on, in terms of the items it holds: the semaphores count the items and the
  free slots.\<close>

definition queue_is :: "rtos \<Rightarrow> rtos_queue \<Rightarrow> u8 list list \<Rightarrow> bool" where
  "queue_is s q items \<longleftrightarrow> ring_ok q \<and> ring_items (qmem s) q = items \<and>
     sem_is s (sem_items q) (int (length items)) [] \<and>
     sem_is s (sem_spaces q) (int (unat (capacity q)) - int (length items)) [] \<and>
     sem_max_count (sem_items q) = int (unat (capacity q)) \<and> sem_max_count (sem_spaces q) = int (unat (capacity q)) \<and>
     mutex_is s (q_lock q) None []"

lemma queue_is_length: "queue_is s q items \<Longrightarrow> length items = unat (q_count q)"
  by (auto simp: queue_is_def ring_items_def)

lemma sem_is_Nil: "sem_is s sem n [] \<longleftrightarrow> sem_count sem = n \<and> 0 \<le> n \<and> n \<le> sem_max_count sem \<and>
    sem_wait_head sem = None \<and> sem_wait_tail sem = None"
  by (auto simp: sem_is_def)

lemma mutex_is_free: "mutex_is s m None [] \<longleftrightarrow> m = rtos_mutex_init"
  by (cases m) (auto simp: mutex_is_def rtos_mutex_init_def)

lemma lock_free:
  assumes "scheduler_running s" and "current_task s = Some k"
  shows "rtos_mutex_lock s regs addr rtos_mutex_init timeout =
    Some (s, rtos_mutex_init\<lparr>locked := True, recursion_count := 1, owner := Some k\<rparr>, True)"
  using assms by (simp add: rtos_mutex_lock_def rtos_mutex_init_def rtos_is_running_def rtos_current_task_def)

lemma unlock_free:
  assumes "scheduler_running s" and "current_task s = Some k"
  shows "rtos_mutex_unlock s regs (rtos_mutex_init\<lparr>locked := True, recursion_count := 1, owner := Some k\<rparr>) =
    Some (restore_owner s (Some k), rtos_mutex_init)"
  using assms by (simp add: rtos_mutex_unlock_def rtos_mutex_init_def rtos_is_running_def rtos_current_task_def)

lemma signal_free:
  assumes "sem_is s sem n []"
  shows "rtos_sem_signal s' regs sem =
    Some (s', if n < sem_max_count sem then sem\<lparr>sem_count := n + 1\<rparr> else sem)"
  using assms by (auto simp: rtos_sem_signal_def sem_is_Nil Let_def)

lemma wait_free:
  assumes "sem_is s sem n []" and "0 < n"
  shows "rtos_sem_wait s' regs addr sem timeout = Some (s', sem\<lparr>sem_count := n - 1\<rparr>, True)"
  using assms by (auto simp: rtos_sem_wait_def sem_is_Nil)

lemma restore_owner_simps [simp]:
  "current_task (restore_owner s own) = current_task s" "scheduler_running (restore_owner s own) = scheduler_running s"
  "rheap (restore_owner s own) = rheap s"
  by (simp_all add: restore_owner_def split: option.splits)

lemma queue_run_numeral: "queue_run step 5 c = queue_run step (Suc (Suc (Suc (Suc (Suc 0))))) c"
  by (simp add: eval_nat_numeral)

text \<open>C21. Sending to a message queue appends: with room, and nobody waiting, the call completes without
  giving up the processor and the bytes of the item are the new last item; into a full queue with
  timeout 0 it returns false and changes nothing.\<close>

theorem rtos_queue_send_spec:
  assumes q: "queue_is s q items" and run: "scheduler_running s" and cur: "current_task s = Some k"
    and ptr: "qaddr \<noteq> 0" "item \<noteq> 0" and apart: "region item (unat (item_size q)) \<inter> buffer_region q = {}"
  shows "if length items < unat (capacity q)
    then (\<exists>s' q'. rtos_queue_send s regs qaddr q item timeout = Some (s', q', Q_Done True) \<and>
      queue_is s' q' (items @ [bytes_at (qmem s) item (unat (item_size q))]) \<and> current_task s' = Some k)
    else timeout = 0 \<longrightarrow> rtos_queue_send s regs qaddr q item timeout = Some (s, q, Q_Done False)"
proof -
  let ?c = "unat (capacity q)" and ?n = "length items"
  have Q: "ring_ok q" "ring_items (qmem s) q = items" "sem_is s (sem_items q) (int ?n) []"
    "sem_is s (sem_spaces q) (int ?c - int ?n) []" "sem_max_count (sem_items q) = int ?c"
    "sem_max_count (sem_spaces q) = int ?c" "q_lock q = rtos_mutex_init"
    using q by (simp_all add: queue_is_def mutex_is_free)
  have len: "?n = unat (q_count q)" using q by (rule queue_is_length)
  show ?thesis
  proof (cases "?n < ?c")
    case True
    then have pos: "0 < int ?c - int ?n" and lt: "int ?n < sem_max_count (sem_items q)"
      unfolding Q(5) by linarith+
    define q1 where "q1 = q\<lparr>sem_spaces := (sem_spaces q)\<lparr>sem_count := int ?c - int ?n - 1\<rparr>,
      q_lock := rtos_mutex_init\<lparr>locked := True, recursion_count := 1, owner := Some k\<rparr>\<rparr>"
    obtain s3 q3 where p: "queue_put s q1 item = (s3, q3)" by (cases "queue_put s q1 item")
    have f: "current_task s3 = Some k" "scheduler_running s3" "sem_items q3 = sem_items q" "sem_spaces q3 = sem_spaces q1"
      "q_lock q3 = q_lock q1" "capacity q3 = capacity q"
      using p run cur by (auto simp: queue_put_def q1_def)
    have same: "ring_ok q1 = ring_ok q" "ring_items m q1 = ring_items m q" "buffer_region q1 = buffer_region q"
      "item_size q1 = item_size q" "q_count q1 = q_count q" "capacity q1 = capacity q" for m
      by (simp_all add: ring_ok_def ring_items_def slot_addr_def q1_def)
    have room: "unat (q_count q1) < unat (capacity q1)" using True len same by simp
    have ok1: "ring_ok q1" and apart1: "region item (unat (item_size q1)) \<inter> buffer_region q1 = {}"
      using Q(1) apart same by simp_all
    note P = queue_put_ring [OF ok1 room apart1, where s = s, unfolded p fst_conv snd_conv]
    let ?s = "restore_owner s3 (Some k)"
    let ?q = "q3\<lparr>q_lock := rtos_mutex_init, sem_items := (sem_items q)\<lparr>sem_count := int ?n + 1\<rparr>\<rparr>"
    have "rtos_queue_send s regs qaddr q item timeout = Some (?s, ?q, Q_Done True)"
      unfolding rtos_queue_send_def queue_run_numeral
      using ptr wait_free [OF Q(4) pos] lock_free [OF run cur] unlock_free [OF f(2,1)] signal_free [OF Q(3)] lt cur f p Q(7)
      by (simp add: q1_def)
    moreover have "queue_is ?s ?q (items @ [bytes_at (qmem s) item (unat (item_size q))])"
    proof -
      have r: "ring_ok ?q = ring_ok q3" "ring_items m ?q = ring_items m q3" for m
        by (simp_all add: ring_ok_def ring_items_def slot_addr_def)
      show ?thesis
        unfolding queue_is_def mutex_is_free r
        using P(1,2) Q f same pos by (simp add: sem_is_Nil q1_def)
    qed
    ultimately show ?thesis using True f by auto
  next
    case False
    then have "\<not> int ?c - int ?n > 0" by linarith
    then have "\<not> sem_count (sem_spaces q) > 0" using Q(4) unfolding sem_is_Nil by argo
    then have "rtos_queue_send s regs qaddr q item 0 = Some (s, q, Q_Done False)"
      unfolding rtos_queue_send_def queue_run_numeral using ptr by (auto simp: rtos_sem_wait_def)
    then show ?thesis using False by auto
  qed
qed

text \<open>C22. Receiving from a message queue takes the oldest item: when there is one, and nobody waits, its
  bytes arrive at the given address and the rest of the queue is unchanged; from an empty queue
  with timeout 0 the call returns false and changes nothing.\<close>

theorem rtos_queue_receive_spec:
  assumes q: "queue_is s q items" and run: "scheduler_running s" and cur: "current_task s = Some k"
    and ptr: "qaddr \<noteq> 0" "item \<noteq> 0" and apart: "region item (unat (item_size q)) \<inter> buffer_region q = {}"
  shows "if items \<noteq> []
    then (\<exists>s' q'. rtos_queue_receive s regs qaddr q item timeout = Some (s', q', Q_Done True) \<and>
      queue_is s' q' (tl items) \<and> bytes_at (qmem s') item (unat (item_size q)) = hd items \<and> current_task s' = Some k)
    else timeout = 0 \<longrightarrow> rtos_queue_receive s regs qaddr q item timeout = Some (s, q, Q_Done False)"
proof -
  let ?c = "unat (capacity q)" and ?n = "length items"
  have Q: "ring_ok q" "ring_items (qmem s) q = items" "sem_is s (sem_items q) (int ?n) []"
    "sem_is s (sem_spaces q) (int ?c - int ?n) []" "sem_max_count (sem_items q) = int ?c"
    "sem_max_count (sem_spaces q) = int ?c" "q_lock q = rtos_mutex_init"
    using q by (simp_all add: queue_is_def mutex_is_free)
  have len: "?n = unat (q_count q)" using q by (rule queue_is_length)
  show ?thesis
  proof (cases "items = []")
    case False
    then have pos: "0 < int ?n" by simp
    have lt: "int ?c - int ?n < sem_max_count (sem_spaces q)" using Q(6) pos by simp
    define q1 where "q1 = q\<lparr>sem_items := (sem_items q)\<lparr>sem_count := int ?n - 1\<rparr>,
      q_lock := rtos_mutex_init\<lparr>locked := True, recursion_count := 1, owner := Some k\<rparr>\<rparr>"
    obtain s3 q3 where p: "queue_get s q1 item = (s3, q3)" by (cases "queue_get s q1 item")
    have f: "current_task s3 = Some k" "scheduler_running s3" "sem_spaces q3 = sem_spaces q" "sem_items q3 = sem_items q1"
      "q_lock q3 = q_lock q1" "capacity q3 = capacity q"
      using p run cur by (auto simp: queue_get_def q1_def)
    have same: "ring_ok q1 = ring_ok q" "ring_items m q1 = ring_items m q" "buffer_region q1 = buffer_region q"
      "item_size q1 = item_size q" "q_count q1 = q_count q" "capacity q1 = capacity q" for m
      by (simp_all add: ring_ok_def ring_items_def slot_addr_def q1_def)
    have some: "0 < unat (q_count q1)" using False unfolding same len [symmetric] by simp
    have ok1: "ring_ok q1" and apart1: "region item (unat (item_size q1)) \<inter> buffer_region q1 = {}"
      using Q(1) apart same by simp_all
    note P = queue_get_ring [OF ok1 some apart1, where s = s, unfolded p fst_conv snd_conv]
    let ?s = "restore_owner s3 (Some k)"
    let ?q = "q3\<lparr>q_lock := rtos_mutex_init, sem_spaces := (sem_spaces q)\<lparr>sem_count := int ?c - int ?n + 1\<rparr>\<rparr>"
    have "rtos_queue_receive s regs qaddr q item timeout = Some (?s, ?q, Q_Done True)"
      unfolding rtos_queue_receive_def queue_run_numeral
      using ptr wait_free [OF Q(3) pos] lock_free [OF run cur] unlock_free [OF f(2,1)] signal_free [OF Q(4)] lt cur f p Q(7)
      by (simp add: q1_def)
    moreover have "queue_is ?s ?q (tl items)"
    proof -
      have r: "ring_ok ?q = ring_ok q3" "ring_items m ?q = ring_items m q3" for m
        by (simp_all add: ring_ok_def ring_items_def slot_addr_def)
      have n: "int (length (tl items)) = int ?n - 1" using False by (cases items) auto
      show ?thesis
        unfolding queue_is_def mutex_is_free r n
        using P(1,2) Q f same lt by (simp add: sem_is_Nil q1_def) (cases items; simp)
    qed
    ultimately show ?thesis using False f P(3) Q(2) same by auto
  next
    case True
    then have "rtos_queue_receive s regs qaddr q item 0 = Some (s, q, Q_Done False)"
      unfolding rtos_queue_receive_def queue_run_numeral using ptr Q(3) by (auto simp: rtos_sem_wait_def sem_is_Nil)
    then show ?thesis using True by auto
  qed
qed

section \<open>Instances\<close>

definition small_queue :: rtos_queue where
  "small_queue = \<lparr>q_buffer = 0x1000, item_size = 4, capacity = 8, q_count = 0, q_head = 0, q_tail = 0,
     sem_items = rtos_sem_init 0 8, sem_spaces = rtos_sem_init 8 8, q_lock = rtos_mutex_init\<rparr>"

lemma small_queue_is: "queue_is two_tasks small_queue []"
  by (simp add: queue_is_def ring_ok_def ring_items_def small_queue_def sem_is_Nil rtos_sem_init_def mutex_is_free)

lemma small_queue_apart: "region 0x2000 (unat (item_size small_queue)) \<inter> buffer_region small_queue = {}"
proof (rule equals0I)
  fix x assume "x \<in> region 0x2000 (unat (item_size small_queue)) \<inter> buffer_region small_queue"
  then have x: "unat (x - 0x2000) < 4" "unat (x - 0x1000) < 32" by (auto simp: region_def small_queue_def)
  have "0x2000 \<le> unat x" using unat_in_region [of x "0x2000" 4] x(1) by simp
  moreover have "unat x < 0x1020" using unat_in_region [of x "0x1000" 32] x(2) by simp
  ultimately show False by simp
qed

theorem rtos_queue_send_spec_witness:
  "\<exists>s' q'. rtos_queue_send two_tasks 0x6000 0x8000 small_queue 0x2000 0 = Some (s', q', Q_Done True) \<and> queue_is s' q' [[0, 0, 0, 0]]"
proof -
  have "bytes_at (qmem two_tasks) 0x2000 (unat (item_size small_queue)) = [0, 0, 0, 0]"
    by (simp add: bytes_at_def two_tasks_def small_queue_def upt_rec)
  then show ?thesis
    using rtos_queue_send_spec [OF small_queue_is two_tasks_simps(1,2) _ _ small_queue_apart, of "0x8000" "0x6000" 0]
    by (auto simp: small_queue_def)
qed

theorem rtos_queue_receive_spec_witness:
  "rtos_queue_receive two_tasks 0x6000 0x8000 small_queue 0x2000 0 = Some (two_tasks, small_queue, Q_Done False)"
  using rtos_queue_receive_spec [OF small_queue_is two_tasks_simps(1,2) _ _ small_queue_apart, of "0x8000" "0x6000" 0] by simp

end
