(* ===== verification/Printf.thy ===== *)
theory Printf
  imports Prelude
begin

text \<open>
  Formatted output, \<open>src/lib/printf.c\<close>: \<open>format_number\<close>, \<open>vsnprintf\<close> and its wrappers.

  The output buffer is the pair of the bytes stored so far and \<open>rem\<close>, the room left for them and
  the terminator. A format is the list of its bytes before the terminating NUL. Variadic arguments
  are a list; fetching an argument that is missing or of the wrong kind, and reading the format
  beyond its terminator, are undefined in C and are the value \<open>None\<close> here.
\<close>

section \<open>Model\<close>

text \<open>Character literals and string literals of the C sources, as bytes.\<close>

abbreviation asc :: "char \<Rightarrow> u8" where
  "asc c \<equiv> of_char c"

abbreviation bytes :: "string \<Rightarrow> u8 list" where
  "bytes s \<equiv> map of_char s"

type_synonym out = "u8 list \<times> nat"

definition emit :: "u8 \<Rightarrow> out \<Rightarrow> out" where
  "emit c s = (case s of (b, r) \<Rightarrow> if 1 < r then (b @ [c], r - 1) else (b, r))"

text \<open>The padding loops: \<open>n\<close> is how far the width exceeds the length.\<close>

fun pad_while :: "nat \<Rightarrow> u8 \<Rightarrow> out \<Rightarrow> out" where
  "pad_while 0 c s = s"
| "pad_while (Suc n) c s = (if 1 < snd s then pad_while n c (emit c s) else s)"

definition digit_char :: "bool \<Rightarrow> u32 \<Rightarrow> u8" where
  "digit_char uppercase d =
     (if uppercase then bytes ''0123456789ABCDEF'' else bytes ''0123456789abcdef'') ! unat d"

text \<open>The digits in the order \<open>temp\<close> receives them, the lowest first. The callers pass base 10
  or 16; for a base below 2 the C loop would not end.\<close>

function digits_rev :: "u32 \<Rightarrow> u32 \<Rightarrow> bool \<Rightarrow> u8 list" where
  "digits_rev num base uppercase =
     (if num = 0 \<or> base < 2 then []
      else digit_char uppercase (num mod base) # digits_rev (num div base) base uppercase)"
  by auto
termination
  by (relation "measure (\<lambda>(num, base, up). unat num)")
    (auto simp: unat_div word_less_nat_alt unat_gt_0 intro!: div_less_dividend)

declare digits_rev.simps [simp del]

definition temp_digits :: "u32 \<Rightarrow> u32 \<Rightarrow> bool \<Rightarrow> u8 list" where
  "temp_digits num base uppercase = (if num = 0 then [asc CHR ''0''] else digits_rev num base uppercase)"

definition format_number ::
  "out \<Rightarrow> u32 \<Rightarrow> u32 \<Rightarrow> int \<Rightarrow> u8 \<Rightarrow> bool \<Rightarrow> bool \<Rightarrow> bool \<Rightarrow> out" where
  "format_number s num base width pad_char uppercase is_signed left_align =
    (let negative = (is_signed \<and> num <s 0);
         num' = (if negative then - num else num);
         temp = temp_digits num' base uppercase;
         sign_first = (negative \<and> pad_char = asc CHR ''0'' \<and> \<not> left_align);
         s1 = (if sign_first then emit (asc CHR ''-'') s else s);
         negative' = (negative \<and> \<not> sign_first);
         width' = (if sign_first \<and> 0 < width then width - 1 else width);
         temp' = (if negative' then temp @ [asc CHR ''-''] else temp);
         gap = nat (width' - int (length temp'));
         s2 = (if left_align then s1 else pad_while gap pad_char s1);
         s3 = fold emit (rev temp') s2
     in if left_align then pad_while gap (asc CHR '' '') s3 else s3)"

text \<open>One variadic argument: a 32-bit value or a pointer to a string.\<close>

datatype varg = Word_Arg u32 | Str_Arg "u8 list"

fun va_word :: "varg list \<Rightarrow> (u32 \<times> varg list) option" where
  "va_word (Word_Arg w # ap) = Some (w, ap)"
| "va_word _ = None"

text \<open>A \<open>const char *\<close> argument; the null pointer prints as \<open>(null)\<close>.\<close>

fun va_str :: "varg list \<Rightarrow> (u8 list \<times> varg list) option" where
  "va_str (Str_Arg s # ap) = Some (s, ap)"
| "va_str (Word_Arg w # ap) = (if w = 0 then Some (bytes ''(null)'', ap) else None)"
| "va_str [] = None"

definition format_string :: "out \<Rightarrow> u8 list \<Rightarrow> int \<Rightarrow> bool \<Rightarrow> out" where
  "format_string st s width left_align =
    (let gap = nat (width - int (length s));
         s1 = (if left_align then st else pad_while gap (asc CHR '' '') st);
         s2 = fold emit s s1
     in if left_align then pad_while gap (asc CHR '' '') s2 else s2)"

text \<open>The \<open>switch\<close> on the conversion character.\<close>

definition conversion ::
  "u8 \<Rightarrow> bool \<Rightarrow> u8 \<Rightarrow> int \<Rightarrow> varg list \<Rightarrow> out \<Rightarrow> (varg list \<times> out) option" where
  "conversion c left_align pad_char width ap s =
    (if c = asc CHR ''c'' then
       map_option (\<lambda>(v, ap). (ap, emit (ucast v) s)) (va_word ap)
     else if c = asc CHR ''s'' then
       map_option (\<lambda>(str, ap). (ap, format_string s str width left_align)) (va_str ap)
     else if c = asc CHR ''d'' \<or> c = asc CHR ''i'' then
       map_option (\<lambda>(v, ap). (ap, format_number s v 10 width pad_char False True left_align)) (va_word ap)
     else if c = asc CHR ''u'' then
       map_option (\<lambda>(v, ap). (ap, format_number s v 10 width pad_char False False left_align)) (va_word ap)
     else if c = asc CHR ''x'' then
       map_option (\<lambda>(v, ap). (ap, format_number s v 16 width pad_char False False left_align)) (va_word ap)
     else if c = asc CHR ''X'' then
       map_option (\<lambda>(v, ap). (ap, format_number s v 16 width pad_char True False left_align)) (va_word ap)
     else if c = asc CHR ''p'' then
       map_option (\<lambda>(v, ap). (ap,
         format_number (if 3 < snd s then emit (asc CHR ''x'') (emit (asc CHR ''0'') s) else s)
           v 16 8 (asc CHR ''0'') False False False)) (va_word ap)
     else Some (ap, emit c s))"

fun parse_width :: "u8 list \<Rightarrow> int \<Rightarrow> int \<times> u8 list" where
  "parse_width (c # fmt) width =
     (if asc CHR ''0'' \<le> c \<and> c \<le> asc CHR ''9''
      then parse_width fmt (width * 10 + uint (c - asc CHR ''0'')) else (width, c # fmt))"
| "parse_width [] width = (width, [])"

text \<open>Skip one expected byte, if it is there.\<close>

definition accept :: "u8 \<Rightarrow> u8 list \<Rightarrow> bool \<times> u8 list" where
  "accept c fmt = (case fmt of x # fmt' \<Rightarrow> if x = c then (True, fmt') else (False, fmt) | [] \<Rightarrow> (False, []))"

text \<open>The flags, the width and the length modifier after a percent sign.\<close>

definition parse_spec :: "u8 list \<Rightarrow> bool \<times> u8 \<times> int \<times> u8 list" where
  "parse_spec fmt =
    (let (left_align, f1) = accept (asc CHR ''-'') fmt;
         (zero, f2) = (if left_align then (False, f1) else accept (asc CHR ''0'') f1);
         (width, f3) = parse_width f2 0;
         (is_long, f4) = accept (asc CHR ''l'') f3;
         f5 = (if is_long then snd (accept (asc CHR ''l'') f4) else f4)
     in (left_align, if zero then asc CHR ''0'' else asc CHR '' '', width, f5))"

lemma accept_length: "length (snd (accept c fmt)) \<le> length fmt"
  by (auto simp: accept_def split: list.splits)

lemma parse_width_length: "length (snd (parse_width fmt w)) \<le> length fmt"
  by (induction fmt w rule: parse_width.induct) auto

lemma parse_spec_length: "parse_spec fmt = (l, p, w, rest) \<Longrightarrow> length rest \<le> length fmt"
proof -
  assume eq: "parse_spec fmt = (l, p, w, rest)"
  obtain l1 f1 where 1: "accept (asc CHR ''-'') fmt = (l1, f1)" by (cases "accept (asc CHR ''-'') fmt")
  define a where "a = (if l1 then (False, f1) else accept (asc CHR ''0'') f1)"
  obtain z f2 where 2: "a = (z, f2)" by (cases a)
  obtain v f3 where 3: "parse_width f2 0 = (v, f3)" by (cases "parse_width f2 0")
  obtain i f4 where 4: "accept (asc CHR ''l'') f3 = (i, f4)" by (cases "accept (asc CHR ''l'') f3")
  have "length f1 \<le> length fmt" using accept_length [of "asc CHR ''-''" fmt] 1 by simp
  moreover have "length f2 \<le> length f1"
    using accept_length [of "asc CHR ''0''" f1] 2 by (auto simp: a_def split: if_splits)
  moreover have "length f3 \<le> length f2" using parse_width_length [of f2 0] 3 by simp
  moreover have "length f4 \<le> length f3" using accept_length [of "asc CHR ''l''" f3] 4 by simp
  moreover have "length rest \<le> length f4"
    using eq accept_length [of "asc CHR ''l''" f4] 1 2 3 4
    by (auto simp: parse_spec_def Let_def a_def [symmetric] split: if_splits)
  ultimately show ?thesis by linarith
qed

function vsn_loop :: "u8 list \<Rightarrow> varg list \<Rightarrow> out \<Rightarrow> out option" where
  "vsn_loop fmt ap s =
    (if fmt = [] \<or> \<not> 1 < snd s then Some s
     else if hd fmt \<noteq> asc CHR ''%'' then vsn_loop (tl fmt) ap (emit (hd fmt) s)
     else case parse_spec (tl fmt) of
         (left_align, pad_char, width, []) \<Rightarrow> None
       | (left_align, pad_char, width, c # rest) \<Rightarrow>
           (case conversion c left_align pad_char width ap s of
              None \<Rightarrow> None | Some (ap', s') \<Rightarrow> vsn_loop rest ap' s'))"
  by auto
termination
  by (relation "measure (\<lambda>(fmt, ap, s). length fmt)")
    (auto dest!: parse_spec_length [OF sym] simp: neq_Nil_conv)

declare vsn_loop.simps [simp del]

text \<open>The bytes stored at \<open>str\<close>, with the terminator, and the value returned.\<close>

definition vsnprintf :: "nat \<Rightarrow> u8 list \<Rightarrow> varg list \<Rightarrow> (u8 list \<times> nat) option" where
  "vsnprintf sz format ap =
    (if sz = 0 then Some ([], 0)
     else map_option (\<lambda>(b, r). (b @ [0], length b)) (vsn_loop format ap ([], sz)))"

definition snprintf :: "nat \<Rightarrow> u8 list \<Rightarrow> varg list \<Rightarrow> (u8 list \<times> nat) option" where
  "snprintf sz format ap = vsnprintf sz format ap"

text \<open>The text left in a buffer of \<open>n\<close> bytes.\<close>

definition snprintf_text :: "nat \<Rightarrow> u8 list \<Rightarrow> varg list \<Rightarrow> u8 list" where
  "snprintf_text n fmt args = (case snprintf n fmt args of None \<Rightarrow> [] | Some (b, len) \<Rightarrow> b)"

definition sprintf :: "u8 list \<Rightarrow> varg list \<Rightarrow> (u8 list \<times> nat) option" where
  "sprintf format ap = vsnprintf 1024 format ap"

text \<open>\<open>kprintf\<close> and \<open>kprint_color\<close> send the same text to the screen and to the serial line: it is
  what they format into their buffer of 512 bytes.\<close>

definition kprintf_text :: "u8 list \<Rightarrow> varg list \<Rightarrow> u8 list option" where
  "kprintf_text format ap = map_option (\<lambda>(b, n). take n b) (vsnprintf 512 format ap)"

text \<open>The text \<open>hexdump\<close> prints: sixteen bytes a line, the last line padded.\<close>

definition printable :: "u8 \<Rightarrow> u8" where
  "printable c = (if 32 \<le> c \<and> c \<le> 126 then c else asc CHR ''.'')"

definition hexdump_line :: "u8 list \<Rightarrow> nat \<Rightarrow> u8 list" where
  "hexdump_line data i =
    the (kprintf_text (bytes ''%04x: '') [Word_Arg (of_nat i)])
    @ concat (map (\<lambda>j. if i + j < length data
        then the (kprintf_text (bytes ''%02x '') [Word_Arg (ucast (data ! (i + j)))])
        else the (kprintf_text (bytes ''   '') [])) [0..<16])
    @ the (kprintf_text (bytes '' |'') [])
    @ concat (map (\<lambda>j. if i + j < length data
        then the (kprintf_text (bytes ''%c'') [Word_Arg (ucast (printable (data ! (i + j))))])
        else []) [0..<16])
    @ the (kprintf_text (bytes ''|'' @ [10]) [])"

definition hexdump :: "u8 list \<Rightarrow> u8 list" where
  "hexdump data = concat (map (\<lambda>k. hexdump_line data (16 * k)) [0..<(length data + 15) div 16])"

section \<open>Rendering without a bound\<close>

text \<open>What a conversion prints when the room is unlimited, written as the documentation of
  \<open>printf\<close> describes it: sign and digits, padded to the field width.\<close>

definition show_number :: "u32 \<Rightarrow> u32 \<Rightarrow> int \<Rightarrow> u8 \<Rightarrow> bool \<Rightarrow> bool \<Rightarrow> bool \<Rightarrow> u8 list" where
  "show_number num base width pad_char uppercase is_signed left_align =
    (let negative = (is_signed \<and> sint num < 0);
         digits = rev (temp_digits (if negative then - num else num) base uppercase);
         sign = (if negative then [asc CHR ''-''] else []);
         gap = nat (width - int (length sign + length digits))
     in if left_align then sign @ digits @ replicate gap (asc CHR '' '')
        else if pad_char = asc CHR ''0'' then sign @ replicate gap pad_char @ digits
        else replicate gap pad_char @ sign @ digits)"

definition show_string :: "u8 list \<Rightarrow> int \<Rightarrow> bool \<Rightarrow> u8 list" where
  "show_string s width left_align =
    (let gap = replicate (nat (width - int (length s))) (asc CHR '' '')
     in if left_align then s @ gap else gap @ s)"

definition show_conversion ::
  "u8 \<Rightarrow> bool \<Rightarrow> u8 \<Rightarrow> int \<Rightarrow> varg list \<Rightarrow> (varg list \<times> u8 list) option" where
  "show_conversion c left_align pad_char width ap =
    (if c = asc CHR ''c'' then map_option (\<lambda>(v, ap). (ap, [ucast v])) (va_word ap)
     else if c = asc CHR ''s'' then
       map_option (\<lambda>(s, ap). (ap, show_string s width left_align)) (va_str ap)
     else if c \<in> {asc CHR ''d'', asc CHR ''i'', asc CHR ''u'', asc CHR ''x'', asc CHR ''X''} then
       map_option (\<lambda>(v, ap). (ap, show_number v
           (if c \<in> {asc CHR ''x'', asc CHR ''X''} then 16 else 10) width pad_char
           (c = asc CHR ''X'') (c \<in> {asc CHR ''d'', asc CHR ''i''}) left_align)) (va_word ap)
     else Some (ap, [c]))"

text \<open>The whole text of a format without \<open>%p\<close>, whose prefix depends on the room left.\<close>

function render :: "u8 list \<Rightarrow> varg list \<Rightarrow> u8 list option" where
  "render fmt ap =
    (if fmt = [] then Some []
     else if hd fmt \<noteq> asc CHR ''%'' then map_option ((#) (hd fmt)) (render (tl fmt) ap)
     else case parse_spec (tl fmt) of
         (left_align, pad_char, width, []) \<Rightarrow> None
       | (left_align, pad_char, width, c # rest) \<Rightarrow>
           if c = asc CHR ''p'' then None
           else (case show_conversion c left_align pad_char width ap of
              None \<Rightarrow> None
            | Some (ap', t) \<Rightarrow> map_option ((@) t) (render rest ap')))"
  by auto
termination
  by (relation "measure (\<lambda>(fmt, ap). length fmt)")
    (auto dest!: parse_spec_length [OF sym] simp: neq_Nil_conv)

declare render.simps [simp del]

section \<open>The bounded output is the unbounded one cut off\<close>

text \<open>Storing the bytes \<open>t\<close> while there is room.\<close>

definition stored :: "u8 list \<Rightarrow> out \<Rightarrow> out" where
  "stored t s = (fst s @ take (snd s - 1) t, snd s - min (snd s - 1) (length t))"

lemma stored_Nil [simp]: "stored [] s = s"
  by (simp add: stored_def)

lemma emit_stored: "emit c s = stored [c] s"
  by (cases s) (auto simp: emit_def stored_def take_Cons' min_def)

lemma stored_stored [simp]: "stored u (stored t s) = stored (t @ u) s"
  by (cases s) (auto simp: stored_def min_def)

lemma fold_emit: "fold emit t s = stored t s"
  by (induction t arbitrary: s) (simp_all add: emit_stored)

lemma stored_full: "\<not> 1 < snd s \<Longrightarrow> stored t s = s"
  by (cases s) (simp add: stored_def)

lemma pad_while_stored: "pad_while n c s = stored (replicate n c) s"
  by (induction n arbitrary: s) (simp_all add: emit_stored stored_full)

lemmas storing = emit_stored fold_emit pad_while_stored

lemma format_string_stored: "format_string s t width l = stored (show_string t width l) s"
  by (simp add: format_string_def show_string_def storing Let_def)

lemma format_number_stored:
  "format_number s num base width pad up sg l = stored (show_number num base width pad up sg l) s"
proof -
  have "num <s 0 \<longleftrightarrow> sint num < 0" by (simp add: word_sless_alt)
  then show ?thesis
    unfolding format_number_def show_number_def Let_def storing
    by (auto simp: nat_diff_distrib' intro!: arg_cong2 [where f = stored] arg_cong [where f = "\<lambda>n. replicate n _"])
qed

lemma conversion_stored:
  assumes "c \<noteq> asc CHR ''p''"
  shows "conversion c l p w ap s = map_option (\<lambda>(ap', t). (ap', stored t s)) (show_conversion c l p w ap)"
  using assms unfolding conversion_def show_conversion_def
  by (simp add: format_string_stored format_number_stored emit_stored option.map_comp comp_def case_prod_unfold)

lemma vsn_loop_render:
  "render fmt ap = Some t \<Longrightarrow> vsn_loop fmt ap s = Some (stored t s)"
proof (induction fmt ap arbitrary: s t rule: render.induct)
  case (1 fmt ap)
  show ?case
  proof (cases "fmt = [] \<or> \<not> 1 < snd s")
    case True
    then show ?thesis using "1.prems"
      by (auto simp: vsn_loop.simps [of fmt] render.simps [of fmt] stored_full)
  next
    case open1: False
    show ?thesis
    proof (cases "hd fmt = asc CHR ''%''")
      case False
      with open1 "1.prems" obtain u where "render (tl fmt) ap = Some u" "t = hd fmt # u"
        by (auto simp: render.simps [of fmt])
      with "1.IH"(1) open1 False show ?thesis
        by (simp add: vsn_loop.simps [of fmt] emit_stored)
    next
      case True
      obtain l p w r where spec: "parse_spec (tl fmt) = (l, p, w, r)"
        by (cases "parse_spec (tl fmt)")
      with open1 True "1.prems" obtain c rest where r: "r = c # rest" and c: "c \<noteq> asc CHR ''p''"
        by (auto simp: render.simps [of fmt] split: list.splits if_splits)
      with open1 True "1.prems" spec obtain ap' u v where
        conv: "show_conversion c l p w ap = Some (ap', u)" and v: "render rest ap' = Some v" and "t = u @ v"
        by (auto simp: render.simps [of fmt] split: option.splits)
      moreover have "vsn_loop rest ap' s' = Some (stored v s')" for s'
        using open1 True spec r c conv v
        by (intro "1.IH"(2) [OF _ _ spec [symmetric] refl refl r c conv refl]) simp_all
      ultimately show ?thesis using open1 True spec r by (simp add: vsn_loop.simps [of fmt] conversion_stored [OF c])
    qed
  qed
qed

lemma conversion_stores:
  assumes "conversion c l p w ap s = Some (ap', s')"
  shows "\<exists>t. s' = stored t s"
proof (cases "c = asc CHR ''p''")
  case True
  with assms show ?thesis
    by (auto simp: conversion_def format_number_stored emit_stored split: if_splits)
next
  case False
  with assms show ?thesis by (auto simp: conversion_stored)
qed

lemma vsn_loop_stores: "vsn_loop fmt ap s = Some s' \<Longrightarrow> \<exists>t. s' = stored t s"
proof (induction fmt ap s arbitrary: s' rule: vsn_loop.induct)
  case (1 fmt ap s)
  show ?case
  proof (cases "fmt = [] \<or> \<not> 1 < snd s")
    case True
    with "1.prems" have "s' = stored [] s" by (auto simp: vsn_loop.simps [of fmt])
    then show ?thesis by blast
  next
    case more: False
    show ?thesis
    proof (cases "hd fmt = asc CHR ''%''")
      case False
      with more "1.IH"(1) [of s'] "1.prems" obtain t where "s' = stored t (emit (hd fmt) s)"
        by (auto simp: vsn_loop.simps [of fmt])
      then show ?thesis by (auto simp: emit_stored)
    next
      case True
      with more "1.prems" obtain l p w c rest where spec: "parse_spec (tl fmt) = (l, p, w, c # rest)"
        by (auto simp: vsn_loop.simps [of fmt] split: list.splits prod.splits)
      with more True "1.prems" obtain ap1 s1 where
        conv: "conversion c l p w ap s = Some (ap1, s1)" and v: "vsn_loop rest ap1 s1 = Some s'"
        by (auto simp: vsn_loop.simps [of fmt] split: option.splits)
      from "1.IH"(2) [OF _ _ spec [symmetric] refl refl refl conv refl v] more True
      obtain t where "s' = stored t s1" by auto
      with conversion_stores [OF conv] show ?thesis by auto
    qed
  qed
qed





section \<open>Numbers read back\<close>

definition digit_val :: "u8 \<Rightarrow> nat" where
  "digit_val c = (if c \<le> asc CHR ''9'' then unat (c - asc CHR ''0'')
     else if c \<le> asc CHR ''F'' then unat (c - asc CHR ''A'') + 10 else unat (c - asc CHR ''a'') + 10)"

definition digits_value :: "nat \<Rightarrow> u8 list \<Rightarrow> nat" where
  "digits_value base ds = foldl (\<lambda>v c. v * base + digit_val c) 0 ds"

definition signed_value :: "u8 list \<Rightarrow> int" where
  "signed_value s = (if hd s = asc CHR ''-'' then - int (digits_value 10 (tl s)) else int (digits_value 10 s))"

lemma digit_val_char: "unat d < 16 \<Longrightarrow> digit_val (digit_char up d) = unat d"
proof -
  assume "unat d < 16"
  then have "unat d \<in> set [0..<16]" by simp
  then show ?thesis unfolding digit_char_def
    by (cases up) (auto simp: digit_val_def upt_rec)
qed

lemma digits_rev_0 [simp]: "digits_rev 0 base up = []"
  by (simp add: digits_rev.simps [of 0])

lemma digit_small: "2 \<le> unat base \<Longrightarrow> unat base \<le> 16 \<Longrightarrow> unat (num mod base) < 16" for base :: u32
proof -
  assume "2 \<le> unat base" and "unat base \<le> 16"
  moreover have "unat num mod unat base < unat base" using \<open>2 \<le> unat base\<close> by (intro mod_less_divisor) linarith
  ultimately show "unat (num mod base) < 16" unfolding unat_mod by linarith
qed

lemma digits_rev_value:
  assumes "2 \<le> unat base" and "unat base \<le> 16"
  shows "digits_value (unat base) (rev (digits_rev num base up)) = unat num"
  using assms
proof (induction num base up rule: digits_rev.induct)
  case (1 num base up)
  show ?case
  proof (cases "num = 0")
    case True
    then show ?thesis by (simp add: digits_value_def)
  next
    case False
    have small: "unat (num mod base) < 16" by (rule digit_small [OF 1(2,3)])
    from False 1 show ?thesis
      by (simp add: digits_rev.simps [of num] digits_value_def digit_val_char [OF small]
        word_less_nat_alt unat_mod unat_div)
  qed
qed

lemma digits_rev_length:
  "unat num < unat base ^ k \<Longrightarrow> length (digits_rev num base up) \<le> k"
proof (induction k arbitrary: num)
  case 0
  then show ?case by (simp add: unat_eq_zero)
next
  case (Suc k)
  show ?case
  proof (cases "num = 0 \<or> base < 2")
    case False
    have "unat (num div base) < unat base ^ k"
      using Suc.prems by (simp add: unat_div less_mult_imp_div_less mult.commute)
    with Suc.IH False show ?thesis by (simp add: digits_rev.simps [of num])
  qed (auto simp: digits_rev.simps [of num])
qed

lemma temp_digits_value:
  assumes "2 \<le> unat base" and "unat base \<le> 16"
  shows "digits_value (unat base) (rev (temp_digits num base up)) = unat num"
  using digits_rev_value [OF assms, of num up]
  by (simp add: temp_digits_def) (simp add: digits_value_def digit_val_def)

lemma temp_digits_length:
  "unat num < unat base ^ k \<Longrightarrow> 0 < k \<Longrightarrow> length (temp_digits num base up) \<le> k"
  using digits_rev_length [of num base k up] by (simp add: temp_digits_def)

lemma digit_char_not_minus: "unat d < 16 \<Longrightarrow> digit_char up d \<noteq> asc CHR ''-''"
proof -
  assume "unat d < 16"
  then have "unat d \<in> set [0..<16]" by simp
  then show ?thesis unfolding digit_char_def by (cases up) (auto simp: upt_rec)
qed

lemma digits_rev_no_minus:
  "2 \<le> unat base \<Longrightarrow> unat base \<le> 16 \<Longrightarrow> asc CHR ''-'' \<notin> set (digits_rev num base up)"
proof (induction num base up rule: digits_rev.induct)
  case (1 num base up)
  have "digit_char up (num mod base) \<noteq> asc CHR ''-''"
    by (rule digit_char_not_minus [OF digit_small [OF 1(2,3)]])
  with 1 show ?case by (auto simp: digits_rev.simps [of num])
qed

lemma temp_digits_hd:
  assumes "2 \<le> unat base" and "unat base \<le> 16"
  shows "rev (temp_digits num base up) \<noteq> [] \<and> hd (rev (temp_digits num base up)) \<noteq> asc CHR ''-''"
proof (cases "num = 0")
  case False
  then have "digits_rev num base up \<noteq> []"
    using assms by (simp add: digits_rev.simps [of num] word_less_nat_alt)
  moreover have "asc CHR ''-'' \<notin> set (rev (digits_rev num base up))"
    using digits_rev_no_minus [OF assms] by simp
  ultimately show ?thesis using False by (metis hd_in_set rev_is_Nil_conv temp_digits_def)
qed (simp add: temp_digits_def)

lemma sint_u32: "sint (v :: u32) = uint v - (if bit v 31 then 4294967296 else 0)"
proof -
  have "take_bit 32 (uint v) = uint v" using uint_lt2p [of v] by (intro take_bit_int_eq_self) simp_all
  then show ?thesis by (simp add: sint_uint signed_take_bit_eq_take_bit_minus bit_uint_iff)
qed

lemma sint_negative: "sint (v :: u32) < 0 \<longleftrightarrow> bit v 31"
  by (simp add: sint_uint bit_uint_iff)

lemma minus_unat: "sint (v :: u32) < 0 \<Longrightarrow> int (unat (- v)) = - sint v"
proof -
  assume neg: "sint v < 0"
  then have sv: "sint v = uint v - 4294967296" unfolding sint_negative by (simp add: sint_u32)
  have "v \<noteq> 0" using neg by auto
  then have "uint v \<noteq> 0" by (simp add: unsigned_eq_0_iff)
  moreover have "uint v < 4294967296" using neg sv by linarith
  ultimately show ?thesis unfolding sv by (simp add: uint_word_ariths zmod_zminus1_eq_if)
qed

lemma pos_unat: "\<not> sint (v :: u32) < 0 \<Longrightarrow> int (unat v) = sint v"
  unfolding sint_negative by (simp add: sint_u32)

lemma render_number:
  "render [37, c] [Word_Arg v] = Some (show_number v (if c \<in> {120, 88} then 16 else 10) 0 32
      (c = 88) (c \<in> {100, 105}) False)" if "c \<in> {100, 105, 117, 120, 88}"
  using that by (auto simp: render.simps [of "[37, c]"] render.simps [of "[]"] parse_spec_def
      accept_def show_conversion_def)

lemma show_number_plain:
  "show_number v base 0 32 up sg False =
    (if sg \<and> sint v < 0 then asc CHR ''-'' # rev (temp_digits (- v) base up) else rev (temp_digits v base up))"
  by (simp add: show_number_def Let_def)

text \<open>Numbers print so that they read back: \<open>%d\<close> into any buffer of 12 bytes or more stores
  decimal digits, with a minus sign for a negative value (the most negative one included), whose
  value is the argument read as a signed integer; \<open>%x\<close> into 9 bytes or more stores hexadecimal
  digits whose value is the argument read unsigned. Nothing is cut off, and the digits need at most
  11 of the 32 bytes of \<open>temp\<close>.\<close>

theorem printf_number_roundtrip:
  "(\<exists>s. vsnprintf (12 + k) (bytes ''%d'') [Word_Arg v] = Some (s @ [0], length s)
        \<and> signed_value s = sint v \<and> length s \<le> 11)
   \<and> (\<exists>s. vsnprintf (9 + k) (bytes ''%x'') [Word_Arg v] = Some (s @ [0], length s)
        \<and> digits_value 16 s = unat v \<and> length s \<le> 8)"
proof (intro conjI exI)
  let ?d = "show_number v 10 0 32 False True False" and ?x = "show_number v 16 0 32 False False False"
  have "length (temp_digits w 10 False) \<le> 10" for w :: u32
    using temp_digits_length [of w 10 10] unat_less_4G [of w] by simp
  from this [of v] this [of "- v"] show len: "length ?d \<le> 11" by (simp add: show_number_plain)
  show "length ?x \<le> 8"
    using temp_digits_length [of v 16 8] unat_less_4G [of v] by (simp add: show_number_plain)
  then show "vsnprintf (9 + k) (bytes ''%x'') [Word_Arg v] = Some (?x @ [0], length ?x)"
    using vsn_loop_render [OF render_number [of 120 v], of "([], 9 + k)"]
    by (simp add: vsnprintf_def stored_def min_def)
  show "vsnprintf (12 + k) (bytes ''%d'') [Word_Arg v] = Some (?d @ [0], length ?d)"
    using vsn_loop_render [OF render_number [of 100 v], of "([], 12 + k)"] len
    by (simp add: vsnprintf_def stored_def min_def)
  show "digits_value 16 ?x = unat v"
    using temp_digits_value [of 16 v] by (simp add: show_number_plain)
  show "signed_value ?d = sint v"
    using temp_digits_value [of 10 v False] temp_digits_value [of 10 "- v" False]
      temp_digits_hd [of 10 v False] minus_unat [of v] pos_unat [of v]
    by (auto simp: show_number_plain signed_value_def)
qed

end
