(* ===== verification/Fat_Names.thy ===== *)
theory Fat_Names
  imports Printf "HOL-Library.Sublist"
begin

text \<open>
  File names of the FAT driver, the first part of \<open>src/fs/fat.c\<close>: short 8.3 names, the VFAT
  long-name entries that precede a short entry, the parser that reassembles them, and the wildcard
  matcher of \<open>fat_remove\<close>.

  A C string is the list of its bytes before the NUL. A directory entry is the list of its 32
  bytes: the sources view the same bytes as \<open>fat_dir_entry_t\<close> and as \<open>fat_lfn_entry_t\<close>, so the
  fields of the two structs are projections.
\<close>

section \<open>Bytes and characters\<close>

text \<open>A byte of a buffer; beyond the buffer, which the sources never read on a well-formed volume,
  the model reads 0.\<close>

definition byte_at :: "u8 list \<Rightarrow> nat \<Rightarrow> u8" where
  "byte_at s i = (if i < length s then s ! i else 0)"

definition to_upper_char :: "u8 \<Rightarrow> u8" where
  "to_upper_char c = (if asc CHR ''a'' \<le> c \<and> c \<le> asc CHR ''z'' then c - asc CHR ''a'' + asc CHR ''A'' else c)"

text \<open>Two strings compare equal up to case. A NUL inside a list ends the string there.\<close>

fun fat_name_equals :: "u8 list \<Rightarrow> u8 list \<Rightarrow> bool" where
  "fat_name_equals (a # s1) (b # s2) =
     (if a = 0 \<or> b = 0 then a = 0 \<and> b = 0
      else if to_upper_char a \<noteq> to_upper_char b then False else fat_name_equals s1 s2)"
| "fat_name_equals s1 s2 = (byte_at s1 0 = 0 \<and> byte_at s2 0 = 0)"

definition fat_read_le16 :: "u8 list \<Rightarrow> nat \<Rightarrow> u16" where
  "fat_read_le16 p i = ucast (byte_at p i) OR push_bit 8 (ucast (byte_at p (i + 1)))"

definition fat_read_le32 :: "u8 list \<Rightarrow> nat \<Rightarrow> u32" where
  "fat_read_le32 p i = ucast (byte_at p i) OR push_bit 8 (ucast (byte_at p (i + 1)))
     OR push_bit 16 (ucast (byte_at p (i + 2))) OR push_bit 24 (ucast (byte_at p (i + 3)))"

text \<open>The C string that starts a buffer.\<close>

definition cstr :: "u8 list \<Rightarrow> u8 list" where
  "cstr = takeWhile (\<lambda>c. c \<noteq> 0)"

section \<open>Directory entries\<close>

definition FAT_ATTR_READ_ONLY :: u8 where "FAT_ATTR_READ_ONLY = 0x01"
definition FAT_ATTR_HIDDEN :: u8 where "FAT_ATTR_HIDDEN = 0x02"
definition FAT_ATTR_SYSTEM :: u8 where "FAT_ATTR_SYSTEM = 0x04"
definition FAT_ATTR_VOLUME_ID :: u8 where "FAT_ATTR_VOLUME_ID = 0x08"
definition FAT_ATTR_DIRECTORY :: u8 where "FAT_ATTR_DIRECTORY = 0x10"
definition FAT_ATTR_ARCHIVE :: u8 where "FAT_ATTR_ARCHIVE = 0x20"

definition FAT_ATTR_LFN :: u8 where
  "FAT_ATTR_LFN = FAT_ATTR_READ_ONLY OR FAT_ATTR_HIDDEN OR FAT_ATTR_SYSTEM OR FAT_ATTR_VOLUME_ID"

definition FAT_LFN_LAST_MASK :: u8 where "FAT_LFN_LAST_MASK = 0x40"
definition FAT_LFN_SEQ_MASK :: u8 where "FAT_LFN_SEQ_MASK = 0x1F"

type_synonym fat_entry = "u8 list"

definition de_name :: "fat_entry \<Rightarrow> u8 list" where "de_name e = take 11 e"
definition de_attr :: "fat_entry \<Rightarrow> u8" where "de_attr e = byte_at e 11"
definition de_fst_clus_hi :: "fat_entry \<Rightarrow> u16" where "de_fst_clus_hi e = fat_read_le16 e 20"
definition de_fst_clus_lo :: "fat_entry \<Rightarrow> u16" where "de_fst_clus_lo e = fat_read_le16 e 26"
definition de_file_size :: "fat_entry \<Rightarrow> u32" where "de_file_size e = fat_read_le32 e 28"

definition lfn_order :: "fat_entry \<Rightarrow> u8" where "lfn_order e = byte_at e 0"
definition lfn_name1 :: "fat_entry \<Rightarrow> u8 list" where "lfn_name1 e = take 10 (drop 1 e)"
definition lfn_checksum :: "fat_entry \<Rightarrow> u8" where "lfn_checksum e = byte_at e 13"
definition lfn_name2 :: "fat_entry \<Rightarrow> u8 list" where "lfn_name2 e = take 12 (drop 14 e)"
definition lfn_name3 :: "fat_entry \<Rightarrow> u8 list" where "lfn_name3 e = take 4 (drop 28 e)"

section \<open>Long names\<close>

definition fat_lfn_checksum :: "u8 list \<Rightarrow> u8" where
  "fat_lfn_checksum short_name =
     fold (\<lambda>i sum. (if sum AND 1 \<noteq> 0 then 0x80 else 0) + drop_bit 1 sum + byte_at short_name i) [0..<11] 0"

text \<open>\<open>decode_lfn_chars src count dst\<close> where \<open>dst\<close> points into a buffer at \<open>pos\<close>.\<close>

fun decode_lfn_chars :: "u8 list \<Rightarrow> nat \<Rightarrow> u8 list \<Rightarrow> nat \<Rightarrow> u8 list" where
  "decode_lfn_chars src 0 buf pos = buf"
| "decode_lfn_chars src (Suc count) buf pos =
    (let u = fat_read_le16 src 0
     in if u = 0 \<or> u = 0xFFFF then buf[pos := 0]
        else decode_lfn_chars (drop 2 src) count (buf[pos := ucast (u AND 0xFF)]) (pos + 1))"

definition lfn_unit :: "u8 list \<Rightarrow> nat \<Rightarrow> nat \<Rightarrow> u16" where
  "lfn_unit src src_len idx = (if idx < src_len then ucast (byte_at src idx)
     else if idx = src_len then 0x0000 else 0xFFFF)"

definition encode_lfn_chars :: "u8 list \<Rightarrow> nat \<Rightarrow> nat \<Rightarrow> nat \<Rightarrow> u8 list" where
  "encode_lfn_chars src src_len start_idx count =
     concat (map (\<lambda>i. let u = lfn_unit src src_len (start_idx + i)
        in [ucast (u AND 0xFF), ucast (drop_bit 8 u AND 0xFF)]) [0..<count])"

record lfn_parser =
  lp_name :: "u8 list"
  lp_checksum :: u8
  lp_expected_seq :: u8
  lp_has_lfn :: bool
  lp_is_valid :: bool
  lp_start_sec :: u32
  lp_start_slot :: int
  lp_total :: int

definition lfn_parser_reset :: lfn_parser where
  "lfn_parser_reset = \<lparr> lp_name = replicate 256 0, lp_checksum = 0, lp_expected_seq = 0,
     lp_has_lfn = False, lp_is_valid = False, lp_start_sec = 0, lp_start_slot = -1, lp_total = 0 \<rparr>"

definition decode_entry :: "fat_entry \<Rightarrow> nat \<Rightarrow> u8 list \<Rightarrow> u8 list" where
  "decode_entry e base_idx buf =
    (if base_idx + 13 < 256 then
       decode_lfn_chars (lfn_name3 e) 2
         (decode_lfn_chars (lfn_name2 e) 6
           (decode_lfn_chars (lfn_name1 e) 5 buf base_idx) (base_idx + 5)) (base_idx + 11)
     else buf)"

definition lfn_parser_feed :: "lfn_parser \<Rightarrow> fat_entry \<Rightarrow> u32 \<Rightarrow> int \<Rightarrow> lfn_parser" where
  "lfn_parser_feed p entry sec slot =
    (if byte_at entry 0 = 0x00 \<or> byte_at entry 0 = 0xE5 then lfn_parser_reset
     else if de_attr entry = FAT_ATTR_LFN then
       (let seq = lfn_order entry AND FAT_LFN_SEQ_MASK;
            store = (\<lambda>p. p \<lparr> lp_name := decode_entry entry ((unat seq - 1) * 13) (lp_name p),
              lp_expected_seq := lp_expected_seq p - 1 \<rparr>)
        in if seq = 0 \<or> 20 < seq then lfn_parser_reset
           else if lfn_order entry AND FAT_LFN_LAST_MASK \<noteq> 0 then
             store (lfn_parser_reset \<lparr> lp_expected_seq := seq, lp_checksum := lfn_checksum entry,
               lp_has_lfn := True, lp_is_valid := True, lp_start_sec := sec, lp_start_slot := slot,
               lp_total := uint seq \<rparr>)
           else if \<not> lp_is_valid p \<or> lp_checksum p \<noteq> lfn_checksum entry \<or> seq \<noteq> lp_expected_seq p then
             p \<lparr> lp_is_valid := False, lp_has_lfn := False \<rparr>
           else store p)
     else if lp_has_lfn p \<and> lp_is_valid p \<and> lp_expected_seq p = 0
             \<and> lp_checksum p = fat_lfn_checksum (de_name entry) then
       p \<lparr> lp_name := (lp_name p)[255 := 0] \<rparr>
     else p \<lparr> lp_has_lfn := False, lp_is_valid := False, lp_total := 0 \<rparr>)"

text \<open>The long-name entry number \<open>seq\<close> as \<open>fat_write_lfn_and_short_entry\<close> fills it in.\<close>

definition lfn_entry :: "u8 list \<Rightarrow> u8 \<Rightarrow> nat \<Rightarrow> nat \<Rightarrow> fat_entry" where
  "lfn_entry long_name chk num_lfn seq =
    [if seq = num_lfn then FAT_LFN_LAST_MASK OR of_nat seq else of_nat seq]
    @ encode_lfn_chars long_name (length long_name) ((seq - 1) * 13 + 0) 5
    @ [FAT_ATTR_LFN, 0, chk]
    @ encode_lfn_chars long_name (length long_name) ((seq - 1) * 13 + 5) 6
    @ [0, 0]
    @ encode_lfn_chars long_name (length long_name) ((seq - 1) * 13 + 11) 2"

section \<open>Short names\<close>

definition format_fat_name :: "u8 list \<Rightarrow> u8 list" where
  "format_fat_name raw =
    (if byte_at raw 0 = asc CHR ''.'' \<and> byte_at raw 1 = asc CHR '' '' then bytes ''.''
     else if byte_at raw 0 = asc CHR ''.'' \<and> byte_at raw 1 = asc CHR ''.'' \<and> byte_at raw 2 = asc CHR '' ''
     then bytes ''..''
     else takeWhile (\<lambda>c. c \<noteq> asc CHR '' '') (take 8 raw)
       @ (if byte_at raw 8 \<noteq> asc CHR '' ''
          then asc CHR ''.'' # takeWhile (\<lambda>c. c \<noteq> asc CHR '' '') (take 3 (drop 8 raw)) else []))"

text \<open>The fixed-width field that holds the string \<open>s\<close>, filled up with spaces.\<close>

definition field :: "nat \<Rightarrow> u8 list \<Rightarrow> u8 list" where
  "field n s = take n s @ replicate (n - length s) (asc CHR '' '')"

definition is_slash :: "u8 \<Rightarrow> bool" where
  "is_slash c \<longleftrightarrow> c = asc CHR ''/'' \<or> c = 0x5C"

definition to_fat_83_name :: "u8 list \<Rightarrow> u8 list" where
  "to_fat_83_name src =
    (if src = bytes ''.'' then field 11 (bytes ''.'')
     else if src = bytes ''..'' then field 11 (bytes ''..'')
     else let stop = (\<lambda>c. c = asc CHR ''.'' \<or> is_slash c);
              base = takeWhile (\<lambda>c. \<not> stop c) src;
              rest = dropWhile (\<lambda>c. \<not> stop c) src;
              rest' = (if rest \<noteq> [] \<and> hd rest = asc CHR ''.'' then tl rest else rest);
              ext = takeWhile (\<lambda>c. \<not> is_slash c) rest'
          in field 8 (map to_upper_char (take 8 base)) @ field 3 (map to_upper_char (take 3 ext)))"

text \<open>The scan of \<open>fat_needs_lfn\<close>: \<open>None\<close> when the loop returns true, otherwise the position of the
  dot.\<close>

fun needs_lfn_scan :: "u8 list \<Rightarrow> nat \<Rightarrow> nat option \<Rightarrow> nat option option" where
  "needs_lfn_scan [] i dot = Some dot"
| "needs_lfn_scan (c # name) i dot =
    (if asc CHR ''a'' \<le> c \<and> c \<le> asc CHR ''z'' then None
     else if c \<in> set (bytes '' +,;=[]'') then None
     else if c = asc CHR ''.'' then (if dot \<noteq> None then None else needs_lfn_scan name (i + 1) (Some i))
     else needs_lfn_scan name (i + 1) dot)"

definition fat_needs_lfn :: "u8 list \<Rightarrow> bool" where
  "fat_needs_lfn name =
    (if length name > 12 then True
     else if name = bytes ''.'' \<or> name = bytes ''..'' then False
     else case needs_lfn_scan name 0 None of
         None \<Rightarrow> True
       | Some None \<Rightarrow> length name > 8
       | Some (Some dot) \<Rightarrow> dot > 8 \<or> length name - dot - 1 > 3 \<or> dot = 0)"

text \<open>The characters an alias keeps, and the alias itself: base and extension in upper case, and a
  numeric tail after the tilde.\<close>

definition alias_char :: "u8 \<Rightarrow> bool" where
  "alias_char c \<longleftrightarrow> asc CHR ''A'' \<le> c \<and> c \<le> asc CHR ''Z'' \<or> asc CHR ''0'' \<le> c \<and> c \<le> asc CHR ''9''
     \<or> c = asc CHR ''_'' \<or> c = asc CHR ''-''"

definition alias_chars :: "nat \<Rightarrow> u8 list \<Rightarrow> u8 list" where
  "alias_chars n s = take n (filter alias_char (map to_upper_char s))"

text \<open>The name before and after its last dot.\<close>

definition split_last_dot :: "u8 list \<Rightarrow> u8 list \<times> u8 list" where
  "split_last_dot s = (if asc CHR ''.'' \<in> set s
     then (rev (tl (dropWhile (\<lambda>c. c \<noteq> asc CHR ''.'') (rev s))),
           rev (takeWhile (\<lambda>c. c \<noteq> asc CHR ''.'') (rev s)))
     else (s, []))"

definition fat_generate_short_alias :: "u8 list \<Rightarrow> u32 \<Rightarrow> u8 list" where
  "fat_generate_short_alias long_name tail_num =
    (let (stem, suffix) = split_last_dot long_name;
         base0 = alias_chars 8 stem;
         base = (if base0 = [] then bytes ''FILE'' else base0);
         ext = alias_chars 3 suffix;
         tail_str = (case snprintf 8 (bytes ''~%d'') [Word_Arg tail_num] of
                       Some (b, n) \<Rightarrow> take n b | None \<Rightarrow> []);
         b = (if length base + length tail_str > 8 then 8 - length tail_str else length base)
     in field 8 (take b base @ tail_str) @ field 3 ext)"

section \<open>Wildcards\<close>

text \<open>The recursion on the string is the inner loop of the star; the byte compared beyond the end
  of the string is its NUL.\<close>

function fat_pattern_match :: "u8 list \<Rightarrow> u8 list \<Rightarrow> bool"
  and star_loop :: "u8 list \<Rightarrow> u8 list \<Rightarrow> bool" where
  "fat_pattern_match pattern str =
    (case pattern of
       [] \<Rightarrow> str = []
     | c # pattern' \<Rightarrow>
         if c = asc CHR ''*'' then (if pattern' = [] then True else star_loop pattern' str)
         else if c = asc CHR ''?'' then (if str = [] then False else fat_pattern_match pattern' (tl str))
         else if str = [] then False
         else if to_upper_char c \<noteq> to_upper_char (hd str) then False
         else fat_pattern_match pattern' (tl str))"
| "star_loop pattern str =
    (if str = [] then False
     else if fat_pattern_match pattern str then True else star_loop pattern (tl str))"
  by pat_completeness auto
termination
  by (relation "measures [\<lambda>x. case x of Inl (p, s) \<Rightarrow> length p | Inr (p, s) \<Rightarrow> length p,
      \<lambda>x. case x of Inl (p, s) \<Rightarrow> 0 | Inr (p, s) \<Rightarrow> Suc (length s)]") auto

declare fat_pattern_match.simps [simp del] star_loop.simps [simp del]

end
