(* ===== verification/Blockdev.thy ===== *)
theory Blockdev
  imports Fat_Names
begin

text \<open>
  Block devices, \<open>src/fs/blockdev.c\<close> and \<open>blockdev.h\<close>: the device object with its two callbacks, and
  the registry of at most eight devices.

  The callbacks are functions on the state \<open>'w\<close> of the outside world (all devices together), so
  that two volumes may share one device. A read that fails is \<open>None\<close>; a write returns the new state
  and its status, 0 for success. What a working device promises is the predicate \<open>device_ok\<close>.
\<close>

section \<open>Devices\<close>

record 'w block_dev =
  bd_name :: "u8 list"
  bd_block_size :: u32
  bd_total_blocks :: u32
  bd_read :: "'w \<Rightarrow> u32 \<Rightarrow> u32 \<Rightarrow> u8 list option"
  bd_write :: "'w \<Rightarrow> u32 \<Rightarrow> u32 \<Rightarrow> u8 list \<Rightarrow> 'w \<times> int"

text \<open>A device that works: it holds \<open>nsec\<close> sectors of 512 bytes, \<open>sect w l\<close> is what sector \<open>l\<close>
  holds in the state \<open>w\<close>, reads of at least one sector inside the device return the sectors in
  order, and writes of at least one sector inside it succeed and change exactly the sectors written.\<close>

definition device_ok :: "'w block_dev \<Rightarrow> ('w \<Rightarrow> u32 \<Rightarrow> u8 list) \<Rightarrow> nat \<Rightarrow> bool" where
  "device_ok bd sect nsec \<longleftrightarrow>
    (\<forall>w l. length (sect w l) = 512)
    \<and> (\<forall>w lba n. 0 < unat n \<and> unat lba + unat n \<le> nsec \<longrightarrow>
         bd_read bd w lba n = Some (concat (map (\<lambda>i. sect w (lba + of_nat i)) [0..<unat n])))
    \<and> (\<forall>w lba n buf. 0 < unat n \<and> unat lba + unat n \<le> nsec \<and> length buf = 512 * unat n \<longrightarrow>
         snd (bd_write bd w lba n buf) = 0
         \<and> (\<forall>l. sect (fst (bd_write bd w lba n buf)) l =
              (if unat lba \<le> unat l \<and> unat l < unat lba + unat n
               then take 512 (drop (512 * (unat l - unat lba)) buf) else sect w l)))"

lemma device_length: "device_ok bd sect nsec \<Longrightarrow> length (sect w l) = 512"
  by (simp add: device_ok_def)

lemma device_read:
  "device_ok bd sect nsec \<Longrightarrow> 0 < unat n \<Longrightarrow> unat lba + unat n \<le> nsec \<Longrightarrow>
     bd_read bd w lba n = Some (concat (map (\<lambda>i. sect w (lba + of_nat i)) [0..<unat n]))"
  unfolding device_ok_def by blast

lemma device_read_1:
  "device_ok bd sect nsec \<Longrightarrow> unat lba < nsec \<Longrightarrow> bd_read bd w lba 1 = Some (sect w lba)"
  using device_read [where n = 1 and bd = bd and lba = lba] by simp

lemma device_write:
  assumes "device_ok bd sect nsec" and "0 < unat n" and "unat lba + unat n \<le> nsec" and "length buf = 512 * unat n"
  shows "snd (bd_write bd w lba n buf) = 0"
    "sect (fst (bd_write bd w lba n buf)) l =
       (if unat lba \<le> unat l \<and> unat l < unat lba + unat n
        then take 512 (drop (512 * (unat l - unat lba)) buf) else sect w l)"
  using assms unfolding device_ok_def by blast+

lemma device_write_1:
  assumes "device_ok bd sect nsec" and "unat lba < nsec" and "length buf = 512"
  shows "snd (bd_write bd w lba 1 buf) = 0"
    "sect (fst (bd_write bd w lba 1 buf)) l = (if l = lba then buf else sect w l)"
  using device_write [OF assms(1), where n = 1 and lba = lba and buf = buf] assms(2,3)
  by (auto simp: word_unat_eq_iff less_Suc_eq_le intro: antisym)

section \<open>The registry\<close>

definition MAX_BLOCK_DEVS :: nat where "MAX_BLOCK_DEVS = 8"

text \<open>The array of device pointers and the number of slots in use.\<close>

record bdev_registry =
  registered_bdevs :: "u32 list"
  bdev_count :: nat

definition blockdev_init :: bdev_registry where
  "blockdev_init = \<lparr> registered_bdevs = replicate MAX_BLOCK_DEVS 0, bdev_count = 0 \<rparr>"

definition blockdev_register :: "bdev_registry \<Rightarrow> u32 \<Rightarrow> bdev_registry \<times> int" where
  "blockdev_register r bdev =
    (if bdev = 0 \<or> bdev_count r \<ge> MAX_BLOCK_DEVS then (r, -1)
     else (r \<lparr> registered_bdevs := (registered_bdevs r)[bdev_count r := bdev],
             bdev_count := bdev_count r + 1 \<rparr>, 0))"

text \<open>The inner loop moves the entries behind position \<open>j\<close> one place down.\<close>

fun shift_down :: "u32 list \<Rightarrow> nat \<Rightarrow> nat \<Rightarrow> u32 list" where
  "shift_down a j 0 = a"
| "shift_down a j (Suc n) = shift_down (a[j := a ! (j + 1)]) (j + 1) n"

fun unregister_loop :: "bdev_registry \<Rightarrow> u32 \<Rightarrow> nat \<Rightarrow> nat \<Rightarrow> bdev_registry" where
  "unregister_loop r bdev i 0 = r"
| "unregister_loop r bdev i (Suc n) =
    (if registered_bdevs r ! i = bdev
     then r \<lparr> registered_bdevs := shift_down (registered_bdevs r) i (bdev_count r - 1 - i),
              bdev_count := bdev_count r - 1 \<rparr>
     else unregister_loop r bdev (i + 1) n)"

definition blockdev_unregister :: "bdev_registry \<Rightarrow> u32 \<Rightarrow> bdev_registry" where
  "blockdev_unregister r bdev = unregister_loop r bdev 0 (bdev_count r)"

text \<open>The search by name; \<open>name_of\<close> reads the name field of a device object.\<close>

fun blockdev_get_loop :: "(u32 \<Rightarrow> u8 list) \<Rightarrow> u32 list \<Rightarrow> u8 list \<Rightarrow> u32" where
  "blockdev_get_loop name_of [] name = 0"
| "blockdev_get_loop name_of (b # bs) name =
    (if name_of b = name then b else blockdev_get_loop name_of bs name)"

definition blockdev_get :: "(u32 \<Rightarrow> u8 list) \<Rightarrow> bdev_registry \<Rightarrow> u8 list \<Rightarrow> u32" where
  "blockdev_get name_of r name = blockdev_get_loop name_of (take (bdev_count r) (registered_bdevs r)) name"

definition blockdev_get_by_index :: "bdev_registry \<Rightarrow> nat \<Rightarrow> u32" where
  "blockdev_get_by_index r index = (if index < bdev_count r then registered_bdevs r ! index else 0)"

definition blockdev_count :: "bdev_registry \<Rightarrow> nat" where
  "blockdev_count r = bdev_count r"

section \<open>The registry is a list of devices\<close>

definition registry_ok :: "bdev_registry \<Rightarrow> bool" where
  "registry_ok r \<longleftrightarrow> length (registered_bdevs r) = MAX_BLOCK_DEVS \<and> bdev_count r \<le> MAX_BLOCK_DEVS"

definition devices :: "bdev_registry \<Rightarrow> u32 list" where
  "devices r = take (bdev_count r) (registered_bdevs r)"

lemma shift_down_nth:
  "j + n < length a \<Longrightarrow> length (shift_down a j n) = length a
     \<and> take (j + n) (shift_down a j n) = take j a @ take n (drop (Suc j) a)"
proof (induction n arbitrary: j a)
  case (Suc n)
  let ?a = "a[j := a ! (j + 1)]"
  have j: "Suc j < length a" using Suc.prems by simp
  from Suc have "length (shift_down ?a (j + 1) n) = length a
     \<and> take (j + 1 + n) (shift_down ?a (j + 1) n) = take (j + 1) ?a @ take n (drop (Suc (j + 1)) ?a)"
    using Suc.IH [of "j + 1" ?a] by simp
  moreover have "take (j + 1) ?a = take j a @ [a ! Suc j]"
    using j by (simp add: take_Suc_conv_app_nth)
  moreover have "drop (Suc (j + 1)) ?a = drop (Suc (j + 1)) a" by simp
  moreover have "drop (Suc j) a = a ! Suc j # drop (Suc (Suc j)) a"
    using j by (simp add: Cons_nth_drop_Suc)
  ultimately show ?case by simp
qed simp

lemma unregister_loop_remove1:
  assumes "registry_ok r" and "i + n = bdev_count r"
    and "bdev \<notin> set (take i (registered_bdevs r))"
  shows "registry_ok (unregister_loop r bdev i n)
    \<and> devices (unregister_loop r bdev i n) = remove1 bdev (devices r)"
  using assms(2,3)
proof (induction n arbitrary: i)
  case 0
  then show ?case using assms(1) by (simp add: devices_def remove1_idem)
next
  case (Suc n)
  let ?a = "registered_bdevs r"
  have i: "i < length ?a" using assms(1) Suc.prems(1) by (simp add: registry_ok_def)
  show ?case
  proof (cases "?a ! i = bdev")
    case True
    have "take (Suc (i + n)) ?a = take i ?a @ bdev # take n (drop (Suc i) ?a)"
      using i True by (metis Cons_nth_drop_Suc add_Suc_right take_Suc_Cons take_add)
    then have "remove1 bdev (devices r) = take i ?a @ take n (drop (Suc i) ?a)"
      using Suc.prems by (simp add: devices_def remove1_append)
    moreover have "bdev_count r - 1 - i = n" using Suc.prems(1) by simp
    moreover have "i + n < length ?a" using assms(1) Suc.prems(1) by (simp add: registry_ok_def)
    ultimately show ?thesis using True assms(1) Suc.prems(1) shift_down_nth [of i n ?a]
      by (auto simp: devices_def registry_ok_def)
  next
    case False
    with i Suc show ?thesis by (simp add: take_Suc_conv_app_nth)
  qed
qed

text \<open>The registry refines a list of at most eight devices: registering appends and fails
  exactly for a null device or a full registry, unregistering removes the first occurrence and
  closes the gap, lookup by index returns the list's elements and null beyond its end, and the
  registry stays well formed.\<close>

theorem blockdev_registry_refines:
  assumes "registry_ok r"
  shows "(let (r', res) = blockdev_register r d in registry_ok r' \<and>
      (if d = 0 \<or> length (devices r) = 8 then res = -1 \<and> r' = r
       else res = 0 \<and> devices r' = devices r @ [d]))
    \<and> registry_ok (blockdev_unregister r d) \<and> devices (blockdev_unregister r d) = remove1 d (devices r)
    \<and> blockdev_get_by_index r i = (if i < length (devices r) then devices r ! i else 0)
    \<and> blockdev_count r = length (devices r)"
proof (intro conjI)
  have len: "length (devices r) = bdev_count r"
    using assms by (simp add: registry_ok_def devices_def)
  show "let (r', res) = blockdev_register r d in registry_ok r' \<and>
      (if d = 0 \<or> length (devices r) = 8 then res = -1 \<and> r' = r
       else res = 0 \<and> devices r' = devices r @ [d])"
    using assms len unfolding blockdev_register_def
    by (auto simp: registry_ok_def MAX_BLOCK_DEVS_def devices_def take_Suc_conv_app_nth)
  show "registry_ok (blockdev_unregister r d)" "devices (blockdev_unregister r d) = remove1 d (devices r)"
    using unregister_loop_remove1 [OF assms, of 0 "bdev_count r" d]
    by (simp_all add: blockdev_unregister_def)
  show "blockdev_get_by_index r i = (if i < length (devices r) then devices r ! i else 0)"
    unfolding blockdev_get_by_index_def len by (simp add: devices_def)
  show "blockdev_count r = length (devices r)" by (simp add: blockdev_count_def len)
qed

theorem blockdev_registry_refines_witness:
  "let r = fst (blockdev_register (fst (blockdev_register blockdev_init 0x1000)) 0x2000)
   in devices (blockdev_unregister r 0x1000) = [0x2000]"
proof -
  define r where "r = fst (blockdev_register (fst (blockdev_register blockdev_init 0x1000)) 0x2000)"
  have "registry_ok r \<and> devices r = [0x1000, 0x2000]" unfolding r_def by code_simp
  then show ?thesis using blockdev_registry_refines [of r "0x1000" 0] by (simp add: Let_def r_def [symmetric])
qed

end
