(* ===== verification/Fat_Volume.thy ===== *)
theory Fat_Volume
  imports Blockdev
begin

text \<open>
  The FAT volume, the second part of \<open>src/fs/fat.c\<close>: recognising and mounting a volume, the cluster
  entries of the file allocation table, and reading and writing clusters.

  Sector buffers are byte lists. The sources read every sector into a buffer of 512 bytes; the model
  keeps what the device returns, and the proofs are for sectors of 512 bytes.
\<close>

section \<open>Mounting\<close>

datatype fat_type = FAT_TYPE_UNKNOWN | FAT_TYPE_FAT12 | FAT_TYPE_FAT16 | FAT_TYPE_FAT32

record 'w fat_fs =
  fs_bdev :: "'w block_dev"
  fs_type :: fat_type
  fs_lba_offset :: u32
  fs_bytes_per_sector :: u32
  fs_sectors_per_cluster :: u32
  fs_bytes_per_cluster :: u32
  fs_reserved_sectors :: u32
  fs_num_fats :: u32
  fs_fat_start_sector :: u32
  fs_fat_size_sectors :: u32
  fs_root_dir_start_sector :: u32
  fs_root_dir_sectors :: u32
  fs_data_start_sector :: u32
  fs_total_clusters :: u32
  fs_root_cluster :: u32

text \<open>The number of sectors the boot sector announces, if it is one.\<close>

definition is_valid_fat_bpb :: "u8 list \<Rightarrow> u32 option" where
  "is_valid_fat_bpb sector =
    (let bytes_per_sec = fat_read_le16 sector 11;
         sec_per_clus = byte_at sector 13;
         num_fats = byte_at sector 16;
         tot_sec_16 = fat_read_le16 sector 19;
         nsecs = (if tot_sec_16 \<noteq> 0 then ucast tot_sec_16 else fat_read_le32 sector 32)
     in if byte_at sector 0 \<noteq> 0xEB \<and> byte_at sector 0 \<noteq> 0xE9 then None
        else if bytes_per_sec \<noteq> 512 \<and> bytes_per_sec \<noteq> 1024 \<and> bytes_per_sec \<noteq> 2048 \<and> bytes_per_sec \<noteq> 4096
        then None
        else if sec_per_clus = 0 \<or> (sec_per_clus AND (sec_per_clus - 1)) \<noteq> 0 then None
        else if fat_read_le16 sector 14 = 0 then None
        else if num_fats = 0 \<or> num_fats > 4 then None
        else if byte_at sector 510 \<noteq> 0x55 \<or> byte_at sector 511 \<noteq> 0xAA then None
        else if nsecs = 0 then None
        else Some nsecs)"

text \<open>The search through the four entries of the partition table: the start, the boot sector and
  the size of the first partition that holds a FAT volume.\<close>

fun find_partition :: "'w block_dev \<Rightarrow> 'w \<Rightarrow> u8 list \<Rightarrow> nat \<Rightarrow> nat \<Rightarrow> (u32 \<times> u8 list \<times> u32) option" where
  "find_partition bdev w sector p 0 = None"
| "find_partition bdev w sector p (Suc n) =
    (let part_start = fat_read_le32 sector (0x1BE + p * 16 + 8);
         part_size = fat_read_le32 sector (0x1BE + p * 16 + 12);
         continue = find_partition bdev w sector (p + 1) n
     in if part_start > 0 \<and> part_size > 0 then
          (case bd_read bdev w part_start 1 of
             Some part_sector \<Rightarrow>
               (case is_valid_fat_bpb part_sector of
                  Some nsecs \<Rightarrow> Some (part_start, part_sector, nsecs)
                | None \<Rightarrow> continue)
           | None \<Rightarrow> continue)
        else continue)"

definition boot_sector :: "'w block_dev \<Rightarrow> 'w \<Rightarrow> (u32 \<times> u8 list \<times> u32) option" where
  "boot_sector bdev w =
    (case bd_read bdev w 0 1 of
       None \<Rightarrow> None
     | Some sector \<Rightarrow>
        (case is_valid_fat_bpb sector of
           Some nsecs \<Rightarrow> Some (0, sector, nsecs)
         | None \<Rightarrow>
             if byte_at sector 510 = 0x55 \<and> byte_at sector 511 = 0xAA
             then find_partition bdev w sector 0 4 else None))"

text \<open>The geometry computed from a boot sector: all the fields but the type.\<close>

definition fat_geometry :: "'w block_dev \<Rightarrow> u32 \<Rightarrow> u8 list \<Rightarrow> u32 \<Rightarrow> 'w fat_fs" where
  "fat_geometry bdev lba_offset sector nsecs =
    (let bps = ucast (fat_read_le16 sector 11);
         spc = ucast (byte_at sector 13);
         rsvd = ucast (fat_read_le16 sector 14);
         nfats = ucast (byte_at sector 16);
         fat_sz16 = fat_read_le16 sector 22;
         root_ent_cnt = ucast (fat_read_le16 sector 17);
         fat_start = lba_offset + rsvd;
         fat_size = (if fat_sz16 \<noteq> 0 then ucast fat_sz16 else fat_read_le32 sector 36);
         root_start = (if fat_sz16 \<noteq> 0 then fat_start + nfats * fat_size else 0);
         root_sectors = (if fat_sz16 \<noteq> 0 then (root_ent_cnt * 32 + (bps - 1)) div bps else 0);
         data_start = (if fat_sz16 \<noteq> 0 then root_start + root_sectors else fat_start + nfats * fat_size);
         data_start_relative = data_start - lba_offset;
         data_sectors = (if nsecs > data_start_relative then nsecs - data_start_relative else 0)
     in \<lparr> fs_bdev = bdev, fs_type = FAT_TYPE_UNKNOWN, fs_lba_offset = lba_offset,
          fs_bytes_per_sector = bps, fs_sectors_per_cluster = spc, fs_bytes_per_cluster = bps * spc,
          fs_reserved_sectors = rsvd, fs_num_fats = nfats, fs_fat_start_sector = fat_start,
          fs_fat_size_sectors = fat_size, fs_root_dir_start_sector = root_start,
          fs_root_dir_sectors = root_sectors, fs_data_start_sector = data_start,
          fs_total_clusters = data_sectors div spc,
          fs_root_cluster = (if fat_sz16 \<noteq> 0 then 0 else fat_read_le32 sector 44) \<rparr>)"

definition fat_set_type :: "'w fat_fs \<Rightarrow> 'w fat_fs" where
  "fat_set_type fs =
    (if fs_total_clusters fs < 4085 then fs \<lparr> fs_type := FAT_TYPE_FAT12 \<rparr>
     else if fs_total_clusters fs < 65525 then fs \<lparr> fs_type := FAT_TYPE_FAT16 \<rparr>
     else fs \<lparr> fs_type := FAT_TYPE_FAT32,
               fs_root_cluster := (if fs_root_cluster fs < 2 then 2 else fs_root_cluster fs) \<rparr>)"

definition fat_mount :: "'w block_dev \<Rightarrow> 'w \<Rightarrow> 'w fat_fs option" where
  "fat_mount bdev w =
    (case boot_sector bdev w of
       None \<Rightarrow> None
     | Some (lba_offset, sector, nsecs) \<Rightarrow>
         (let fs = fat_geometry bdev lba_offset sector nsecs
          in if fs_fat_size_sectors fs = 0 \<or> fs_bytes_per_cluster fs = 0 then None
             else Some (fat_set_type fs)))"

section \<open>The file allocation table\<close>

text \<open>Stores of 16 and 32 bits into a sector buffer.\<close>

definition put16 :: "u8 list \<Rightarrow> nat \<Rightarrow> u16 \<Rightarrow> u8 list" where
  "put16 s i v = s[i := ucast v, i + 1 := ucast (drop_bit 8 v)]"

definition put32 :: "u8 list \<Rightarrow> nat \<Rightarrow> u32 \<Rightarrow> u8 list" where
  "put32 s i v = s[i := ucast v, i + 1 := ucast (drop_bit 8 v),
     i + 2 := ucast (drop_bit 16 v), i + 3 := ucast (drop_bit 24 v)]"

text \<open>The sector of the table that holds the entry of a cluster, and the offset there, for entries
  of \<open>width\<close> bytes.\<close>

definition fat_sector_of :: "'w fat_fs \<Rightarrow> u32 \<Rightarrow> u32 \<Rightarrow> u32" where
  "fat_sector_of fs width cluster = fs_fat_start_sector fs + (cluster * width) div fs_bytes_per_sector fs"

definition fat_offset_of :: "'w fat_fs \<Rightarrow> u32 \<Rightarrow> u32 \<Rightarrow> nat" where
  "fat_offset_of fs width cluster = unat ((cluster * width) mod fs_bytes_per_sector fs)"

definition get_next_cluster :: "'w fat_fs \<Rightarrow> 'w \<Rightarrow> u32 \<Rightarrow> u32" where
  "get_next_cluster fs w cluster =
    (if cluster < 2 then 0xFFFFFFFF
     else case fs_type fs of
       FAT_TYPE_FAT16 \<Rightarrow>
         (case bd_read (fs_bdev fs) w (fat_sector_of fs 2 cluster) 1 of
            None \<Rightarrow> 0xFFFFFFFF
          | Some sector \<Rightarrow>
              (let next = fat_read_le16 sector (fat_offset_of fs 2 cluster)
               in if next < 2 \<or> next \<ge> 0xFFF8 \<or> ucast next = cluster then 0xFFFFFFFF else ucast next))
     | FAT_TYPE_FAT32 \<Rightarrow>
         (case bd_read (fs_bdev fs) w (fat_sector_of fs 4 cluster) 1 of
            None \<Rightarrow> 0xFFFFFFFF
          | Some sector \<Rightarrow>
              (let next = fat_read_le32 sector (fat_offset_of fs 4 cluster) AND 0x0FFFFFFF
               in if next < 2 \<or> next \<ge> 0x0FFFFFF8 \<or> next = cluster then 0xFFFFFFFF else next))
     | _ \<Rightarrow> 0xFFFFFFFF)"

text \<open>The two writes that end \<open>set_fat_entry\<close>: the status of the second copy is ignored.\<close>

definition write_fat_sector :: "'w fat_fs \<Rightarrow> 'w \<Rightarrow> u32 \<Rightarrow> u8 list \<Rightarrow> 'w \<times> int" where
  "write_fat_sector fs w fat_sector sector =
    (let (w1, res) = bd_write (fs_bdev fs) w fat_sector 1 sector
     in if res \<noteq> 0 then (w1, -1)
        else if fs_num_fats fs > 1 \<and> fs_fat_size_sectors fs > 0
        then (fst (bd_write (fs_bdev fs) w1 (fat_sector + fs_fat_size_sectors fs) 1 sector), 0)
        else (w1, 0))"

definition set_fat_entry :: "'w fat_fs \<Rightarrow> 'w \<Rightarrow> u32 \<Rightarrow> u32 \<Rightarrow> 'w \<times> int" where
  "set_fat_entry fs w cluster value =
    (if cluster < 2 then (w, -1)
     else case fs_type fs of
       FAT_TYPE_FAT16 \<Rightarrow>
         (case bd_read (fs_bdev fs) w (fat_sector_of fs 2 cluster) 1 of
            None \<Rightarrow> (w, -1)
          | Some sector \<Rightarrow> write_fat_sector fs w (fat_sector_of fs 2 cluster)
              (put16 sector (fat_offset_of fs 2 cluster) (ucast value)))
     | FAT_TYPE_FAT32 \<Rightarrow>
         (case bd_read (fs_bdev fs) w (fat_sector_of fs 4 cluster) 1 of
            None \<Rightarrow> (w, -1)
          | Some sector \<Rightarrow>
              (let orig = fat_read_le32 sector (fat_offset_of fs 4 cluster)
               in write_fat_sector fs w (fat_sector_of fs 4 cluster)
                    (put32 sector (fat_offset_of fs 4 cluster)
                      ((orig AND 0xF0000000) OR (value AND 0x0FFFFFFF)))))
     | _ \<Rightarrow> (w, -1))"

definition fat_eof_val :: "'w fat_fs \<Rightarrow> u32" where
  "fat_eof_val fs = (if fs_type fs = FAT_TYPE_FAT32 then 0x0FFFFFFF else 0xFFFF)"

definition fat_eof_limit :: "'w fat_fs \<Rightarrow> u32" where
  "fat_eof_limit fs = (if fs_type fs = FAT_TYPE_FAT32 then 0x0FFFFFF8 else 0xFFF8)"

text \<open>The scan for a free entry, with the last table sector read kept in \<open>cache\<close>; \<open>n\<close> is how many
  clusters are left to look at.\<close>

fun alloc_scan :: "'w fat_fs \<Rightarrow> 'w \<Rightarrow> u32 \<Rightarrow> nat \<Rightarrow> u32 \<times> u8 list \<Rightarrow> 'w \<times> u32" where
  "alloc_scan fs w c 0 cache = (w, 0)"
| "alloc_scan fs w c (Suc n) cache =
    (if fs_type fs = FAT_TYPE_FAT16 \<or> fs_type fs = FAT_TYPE_FAT32 then
       (let width = (if fs_type fs = FAT_TYPE_FAT16 then 2 else 4);
            fat_sector = fat_sector_of fs width c;
            ent_offset = fat_offset_of fs width c
        in case (if fat_sector = fst cache then Some (snd cache)
                 else bd_read (fs_bdev fs) w fat_sector 1) of
             None \<Rightarrow> (w, 0)
           | Some sector \<Rightarrow>
               if (if fs_type fs = FAT_TYPE_FAT16 then fat_read_le16 sector ent_offset = 0
                   else fat_read_le32 sector ent_offset AND 0x0FFFFFFF = 0)
               then (fst (set_fat_entry fs w c (fat_eof_val fs)), c)
               else alloc_scan fs w (c + 1) n (fat_sector, sector))
     else alloc_scan fs w (c + 1) n cache)"

definition alloc_free_cluster :: "'w fat_fs \<Rightarrow> 'w \<Rightarrow> 'w \<times> u32" where
  "alloc_free_cluster fs w =
    (let max_scan = (if fs_total_clusters fs > 0 \<and> fs_total_clusters fs < 32768
                     then fs_total_clusters fs else 32768)
     in alloc_scan fs w 2 (unat max_scan) (0xFFFFFFFF, []))"

section \<open>Clusters\<close>

definition cluster_sector :: "'w fat_fs \<Rightarrow> u32 \<Rightarrow> u32" where
  "cluster_sector fs cluster = fs_data_start_sector fs + (cluster - 2) * fs_sectors_per_cluster fs"

definition read_cluster :: "'w fat_fs \<Rightarrow> 'w \<Rightarrow> u32 \<Rightarrow> u8 list option" where
  "read_cluster fs w cluster =
    (if cluster < 2 \<or> fs_sectors_per_cluster fs = 0 then None
     else bd_read (fs_bdev fs) w (cluster_sector fs cluster) (fs_sectors_per_cluster fs))"

definition write_cluster :: "'w fat_fs \<Rightarrow> 'w \<Rightarrow> u32 \<Rightarrow> u8 list \<Rightarrow> 'w \<times> int" where
  "write_cluster fs w cluster buf =
    (if cluster < 2 \<or> fs_sectors_per_cluster fs = 0 then (w, -1)
     else bd_write (fs_bdev fs) w (cluster_sector fs cluster) (fs_sectors_per_cluster fs) buf)"

text \<open>The loop of \<open>fat_free_cluster_chain\<close>, with the bound of 65536 on the clusters visited.\<close>

fun free_chain_loop :: "'w fat_fs \<Rightarrow> nat \<Rightarrow> 'w \<Rightarrow> u32 \<Rightarrow> 'w" where
  "free_chain_loop fs 0 w cur = w"
| "free_chain_loop fs (Suc n) w cur =
    (if cur \<ge> 2 \<and> cur < fat_eof_limit fs then
       (let next = get_next_cluster fs w cur;
            w' = fst (set_fat_entry fs w cur 0)
        in if next = cur \<or> next < 2 then w' else free_chain_loop fs n w' next)
     else w)"

definition fat_free_cluster_chain :: "'w fat_fs \<Rightarrow> 'w \<Rightarrow> u32 \<Rightarrow> 'w" where
  "fat_free_cluster_chain fs w start_cluster =
    (if start_cluster < 2 then w else free_chain_loop fs 65536 w start_cluster)"

end
