(* ===== verification/Fat_Store.thy ===== *)
theory Fat_Store
  imports Fat_Volume
begin

text \<open>
  The volume as a store of linked clusters. The interface \<open>cluster_store\<close> says what the table
  entries and the contents of clusters are after an entry or a cluster is written; it is proved for
  the driver's \<open>set_fat_entry\<close> and \<open>write_cluster\<close> on a FAT16 or FAT32 volume whose layout fits the
  device. On it rest the proofs about chains, allocation and file data.
\<close>

section \<open>Bytes of a sector\<close>

lemma ucast_and_FF [simp]:
  "(ucast (x AND 0xFF) :: u8) = ucast (x :: u16)" "(ucast (y AND 0xFF) :: u8) = ucast (y :: u32)"
proof -
  have "x AND 0xFF = take_bit 8 x" "y AND 0xFF = take_bit 8 y"
    by (simp_all add: take_bit_eq_mask mask_eq_exp_minus_1)
  then show "(ucast (x AND 0xFF) :: u8) = ucast x" "(ucast (y AND 0xFF) :: u8) = ucast y"
    by (auto intro!: bit_word_eqI simp: bit_simps)
qed

lemma ucast_bytes16:
  "(ucast (ucast v :: u8) :: u16) OR push_bit 8 (ucast (ucast (drop_bit 8 v) :: u8)) = (v :: u16)"
  by (rule bit_word_eqI) (auto simp: bit_simps bit_u8_beyond)

lemma ucast_bytes32:
  "(ucast (ucast v :: u8) :: u32) OR push_bit 8 (ucast (ucast (drop_bit 8 v) :: u8))
     OR push_bit 16 (ucast (ucast (drop_bit 16 v) :: u8))
     OR push_bit 24 (ucast (ucast (drop_bit 24 v) :: u8)) = (v :: u32)"
proof (rule bit_word_eqI)
  fix n
  assume "n < LENGTH(32)"
  then have "n < 8 \<or> 8 \<le> n \<and> n < 16 \<or> 16 \<le> n \<and> n < 24 \<or> 24 \<le> n \<and> n < 32" by auto
  then show "bit ((ucast (ucast v :: u8) :: u32) OR push_bit 8 (ucast (ucast (drop_bit 8 v) :: u8))
     OR push_bit 16 (ucast (ucast (drop_bit 16 v) :: u8))
     OR push_bit 24 (ucast (ucast (drop_bit 24 v) :: u8))) n = bit v n"
    by (elim disjE) (auto simp: bit_simps)
qed

lemma put_length [simp]: "length (put16 s i v) = length s" "length (put32 s i u) = length s"
  by (simp_all add: put16_def put32_def)

lemma byte_at_update:
  "byte_at (s[i := v]) j = (if j = i \<and> i < length s then v else byte_at s j)"
  by (simp add: byte_at_def nth_list_update)

lemma le16_put16:
  "i + 1 < length s \<Longrightarrow> fat_read_le16 (put16 s i v) i = v"
  "j + 1 < i \<or> i + 1 < j \<Longrightarrow> fat_read_le16 (put16 s i v) j = fat_read_le16 s j"
  by (auto simp: fat_read_le16_def put16_def byte_at_update ucast_bytes16)

lemma le32_put32:
  "i + 3 < length s \<Longrightarrow> fat_read_le32 (put32 s i u) i = u"
  "j + 3 < i \<or> i + 3 < j \<Longrightarrow> fat_read_le32 (put32 s i u) j = fat_read_le32 s j"
  by (auto simp: fat_read_le32_def put32_def byte_at_update ucast_bytes32)

section \<open>The interface\<close>

locale cluster_store =
  fixes valid :: "u32 \<Rightarrow> bool"
    and entry :: "'w \<Rightarrow> u32 \<Rightarrow> u32"
    and content :: "'w \<Rightarrow> u32 \<Rightarrow> u8 list"
    and norm :: "u32 \<Rightarrow> u32"
    and csize :: nat
    and link :: "'w \<Rightarrow> u32 \<Rightarrow> u32 \<Rightarrow> 'w"
    and store :: "'w \<Rightarrow> u32 \<Rightarrow> u8 list \<Rightarrow> 'w"
  assumes entry_link: "valid c \<Longrightarrow> valid d \<Longrightarrow> entry (link w c v) d = (if d = c then norm v else entry w d)"
    and content_link: "valid c \<Longrightarrow> valid d \<Longrightarrow> content (link w c v) d = content w d"
    and entry_store: "valid c \<Longrightarrow> valid d \<Longrightarrow> length buf = csize \<Longrightarrow> entry (store w c buf) d = entry w d"
    and content_store: "valid c \<Longrightarrow> valid d \<Longrightarrow> length buf = csize \<Longrightarrow>
      content (store w c buf) d = (if d = c then buf else content w d)"
    and content_length: "valid c \<Longrightarrow> length (content w c) = csize"

text \<open>The clusters \<open>cs\<close> are linked one to the next by the entries \<open>e\<close>, and the last one's entry
  marks the end.\<close>

fun chain :: "(u32 \<Rightarrow> u32) \<Rightarrow> (u32 \<Rightarrow> bool) \<Rightarrow> u32 list \<Rightarrow> bool" where
  "chain e eof [] = False"
| "chain e eof [c] = eof (e c)"
| "chain e eof (c # d # cs) = (e c = d \<and> chain e eof (d # cs))"

lemma chain_cong: "(\<And>c. c \<in> set cs \<Longrightarrow> e c = e' c) \<Longrightarrow> chain e eof cs = chain e' eof cs"
  by (induction e eof cs rule: chain.induct) auto

lemma chain_append:
  "chain e eof (xs @ c # cs) \<Longrightarrow> chain e eof (c # cs)"
  by (induction xs rule: induct_list012) (auto elim: chain.elims)

lemma chain_cut:
  assumes "chain e eof (xs @ c # cs)" and "\<And>x. x \<in> set xs \<Longrightarrow> e' x = e x" and "eof (e' c)"
  shows "chain e' eof (xs @ [c])"
  using assms(1,2)
proof (induction xs)
  case (Cons x xs)
  then show ?case by (cases xs) (simp_all add: assms(3))
qed (simp add: assms(3))

lemma chain_snoc:
  assumes "chain e eof (xs @ [c])" and "\<And>x. x \<in> set xs \<Longrightarrow> e' x = e x" and "e' c = d" and "eof (e' d)"
  shows "chain e' eof (xs @ [c, d])"
  using assms(1,2)
proof (induction xs)
  case (Cons x xs)
  then show ?case by (cases xs) (simp_all add: assms(3,4))
qed (simp add: assms(3,4))

context cluster_store
begin

text \<open>Ending a chain at one of its clusters, and hanging a new cluster behind its last one.\<close>

lemma chain_end_at:
  assumes "chain (entry w) eof (xs @ c # cs)" and "\<And>d. d \<in> set (xs @ [c]) \<Longrightarrow> valid d"
    and "c \<notin> set xs" and "eof (norm v)"
  shows "chain (entry (link w c v)) eof (xs @ [c])"
  using assms by (intro chain_cut [OF assms(1)]) (auto simp: entry_link)

lemma chain_extend:
  assumes "chain (entry w) eof (xs @ [c])" and "\<And>d. d \<in> set (xs @ [c, n]) \<Longrightarrow> valid d"
    and "distinct (xs @ [c, n])" and "eof (norm v)" and "norm n = n"
  shows "chain (entry (link (link w n v) c n)) eof (xs @ [c, n])"
  using assms by (intro chain_snoc [OF assms(1)]) (auto simp: entry_link)

lemma chain_link_outside:
  assumes "\<And>d. d \<in> set cs \<Longrightarrow> valid d" and "valid c" and "c \<notin> set cs"
  shows "chain (entry (link w c v)) eof cs = chain (entry w) eof cs"
  using assms by (intro chain_cong) (auto simp: entry_link)

lemma chain_store:
  assumes "\<And>d. d \<in> set cs \<Longrightarrow> valid d" and "valid c" and "length buf = csize"
  shows "chain (entry (store w c buf)) eof cs = chain (entry w) eof cs"
  using assms by (intro chain_cong) (auto simp: entry_store)

text \<open>Unlinking a run of clusters clears their entries and nothing else.\<close>

lemma unlink_all:
  assumes "\<And>d. d \<in> set cs \<Longrightarrow> valid d" and "valid d"
  shows "entry (fold (\<lambda>c w. link w c v) cs w) d = (if d \<in> set cs then norm v else entry w d)"
    "content (fold (\<lambda>c w. link w c v) cs w) d = content w d"
  using assms by (induction cs arbitrary: w) (auto simp: entry_link content_link)

end

section \<open>Volumes that fit their device\<close>

definition ent_width :: "'w fat_fs \<Rightarrow> nat" where
  "ent_width fs = (if fs_type fs = FAT_TYPE_FAT16 then 2 else 4)"

text \<open>The layout of a volume on a device of \<open>nsec\<close> sectors: the tables lie before the data, the
  data inside the device, and the table has an entry for every cluster.\<close>

definition volume_ok :: "'w fat_fs \<Rightarrow> nat \<Rightarrow> bool" where
  "volume_ok fs nsec \<longleftrightarrow>
    fs_type fs \<in> {FAT_TYPE_FAT16, FAT_TYPE_FAT32}
    \<and> fs_bytes_per_sector fs = 512 \<and> 0 < unat (fs_sectors_per_cluster fs)
    \<and> unat (fs_bytes_per_cluster fs) = 512 * unat (fs_sectors_per_cluster fs)
    \<and> 1 \<le> unat (fs_num_fats fs) \<and> 0 < unat (fs_total_clusters fs)
    \<and> unat (fs_fat_start_sector fs) + unat (fs_num_fats fs) * unat (fs_fat_size_sectors fs)
        \<le> unat (fs_data_start_sector fs)
    \<and> unat (fs_data_start_sector fs) + unat (fs_total_clusters fs) * unat (fs_sectors_per_cluster fs) \<le> nsec
    \<and> nsec < 2 ^ 32
    \<and> (unat (fs_total_clusters fs) + 2) * ent_width fs \<le> 512 * unat (fs_fat_size_sectors fs)
    \<and> unat (fs_total_clusters fs) + 2 \<le> unat (fat_eof_limit fs)"

definition valid_cluster :: "'w fat_fs \<Rightarrow> ('w \<Rightarrow> u32 \<Rightarrow> u8 list) \<Rightarrow> nat \<Rightarrow> u32 \<Rightarrow> bool" where
  "valid_cluster fs sect nsec c \<longleftrightarrow> device_ok (fs_bdev fs) sect nsec \<and> volume_ok fs nsec
     \<and> 2 \<le> unat c \<and> unat c < unat (fs_total_clusters fs) + 2"

text \<open>The table entry of a cluster and the bytes of a cluster, read off the sectors.\<close>

definition fat_entry_of :: "'w fat_fs \<Rightarrow> ('w \<Rightarrow> u32 \<Rightarrow> u8 list) \<Rightarrow> 'w \<Rightarrow> u32 \<Rightarrow> u32" where
  "fat_entry_of fs sect w c =
    (if fs_type fs = FAT_TYPE_FAT16
     then ucast (fat_read_le16 (sect w (fat_sector_of fs 2 c)) (fat_offset_of fs 2 c))
     else fat_read_le32 (sect w (fat_sector_of fs 4 c)) (fat_offset_of fs 4 c) AND 0x0FFFFFFF)"

definition cluster_bytes :: "'w fat_fs \<Rightarrow> ('w \<Rightarrow> u32 \<Rightarrow> u8 list) \<Rightarrow> 'w \<Rightarrow> u32 \<Rightarrow> u8 list" where
  "cluster_bytes fs sect w c =
     concat (map (\<lambda>i. sect w (cluster_sector fs c + of_nat i)) [0..<unat (fs_sectors_per_cluster fs)])"

definition fat_norm :: "'w fat_fs \<Rightarrow> u32 \<Rightarrow> u32" where
  "fat_norm fs v = (if fs_type fs = FAT_TYPE_FAT16 then ucast (ucast v :: u16) else v AND 0x0FFFFFFF)"

lemma valid_clusterD:
  assumes "valid_cluster fs sect nsec c"
  shows "device_ok (fs_bdev fs) sect nsec" "volume_ok fs nsec" "2 \<le> unat c" "\<not> c < 2"
    "unat c < unat (fs_total_clusters fs) + 2"
  using assms by (auto simp: valid_cluster_def word_less_nat_alt)

lemma volume_type: "volume_ok fs nsec \<Longrightarrow> fs_type fs = FAT_TYPE_FAT16 \<or> fs_type fs = FAT_TYPE_FAT32"
  by (auto simp: volume_ok_def)

lemma valid_cluster_limit:
  "valid_cluster fs sect nsec c \<Longrightarrow> c < fat_eof_limit fs \<and> unat c * ent_width fs < 2 ^ 30"
proof -
  assume v: "valid_cluster fs sect nsec c"
  then have "unat c < unat (fat_eof_limit fs)" by (auto simp: valid_cluster_def volume_ok_def)
  then show ?thesis
    by (auto simp: word_less_nat_alt fat_eof_limit_def ent_width_def split: if_splits)
qed

text \<open>Where the entry of a valid cluster lies, in natural numbers.\<close>

lemma entry_place:
  assumes "valid_cluster fs sect nsec c" and "unat width = ent_width fs"
  shows "unat (fat_sector_of fs width c) = unat (fs_fat_start_sector fs) + unat c * ent_width fs div 512"
    "fat_offset_of fs width c = unat c * ent_width fs mod 512"
    "unat c * ent_width fs div 512 < unat (fs_fat_size_sectors fs)"
proof -
  note v = valid_clusterD [OF assms(1)]
  have prod: "unat (c * width) = unat c * ent_width fs"
    using valid_cluster_limit [OF assms(1)] assms(2) by (simp add: unat_word_ariths)
  have "(unat c + 1) * ent_width fs \<le> (unat (fs_total_clusters fs) + 2) * ent_width fs"
    using v(5) by (intro mult_le_mono1) linarith
  also have "\<dots> \<le> 512 * unat (fs_fat_size_sectors fs)" using v(2) by (simp add: volume_ok_def)
  finally have "unat c * ent_width fs < 512 * unat (fs_fat_size_sectors fs)"
    by (simp add: ent_width_def split: if_splits)
  then show size: "unat c * ent_width fs div 512 < unat (fs_fat_size_sectors fs)"
    by (simp add: less_mult_imp_div_less mult.commute)
  have bps: "fs_bytes_per_sector fs = 512" using v(2) by (simp add: volume_ok_def)
  then show "fat_offset_of fs width c = unat c * ent_width fs mod 512"
    by (simp add: fat_offset_of_def unat_mod prod)
  have "unat (fs_fat_size_sectors fs) \<le> unat (fs_num_fats fs) * unat (fs_fat_size_sectors fs)"
    using v(2) by (simp add: volume_ok_def)
  then have "unat (fs_fat_start_sector fs) + unat c * ent_width fs div 512 < 2 ^ 32"
    using v(2) size unfolding volume_ok_def by linarith
  then show "unat (fat_sector_of fs width c) = unat (fs_fat_start_sector fs) + unat c * ent_width fs div 512"
    unfolding fat_sector_of_def bps unat_word_ariths(1) unat_div prod by simp
qed

text \<open>Two clusters have their entries in different sectors, or far enough apart in one.\<close>

lemma entries_apart:
  assumes "a \<noteq> b" and "k = 2 \<or> k = (4 :: nat)"
  shows "a * k div 512 \<noteq> b * k div 512 \<or> a * k mod 512 + k \<le> b * k mod 512 \<or> b * k mod 512 + k \<le> a * k mod 512"
proof (rule ccontr)
  assume no: "\<not> ?thesis"
  then have eq: "a * k div 512 = b * k div 512" by simp
  have k: "k dvd 512" using assms(2) by auto
  then have "k dvd a * k mod 512" "k dvd b * k mod 512" by (simp_all add: dvd_mod)
  then obtain x y where xy: "a * k mod 512 = k * x" "b * k mod 512 = k * y" by (elim dvdE)
  have "x = y" using no unfolding xy using assms(2) by auto
  then have "a * k = b * k" using eq xy by (metis div_mult_mod_eq)
  with assms show False by auto
qed

lemma offset_fits:
  assumes "k = 2 \<or> k = (4 :: nat)"
  shows "a * k mod 512 + k \<le> 512"
proof -
  have "k dvd 512" using assms by auto
  then have "k dvd 512 - a * k mod 512" by (intro dvd_diff_nat dvd_mod) simp_all
  moreover have "a * k mod 512 < 512" by simp
  ultimately show ?thesis using dvd_imp_le [of k "512 - a * k mod 512"] by linarith
qed

lemma valid_width:
  "valid_cluster fs sect nsec c \<Longrightarrow> ent_width fs = 2 \<or> ent_width fs = 4"
  by (simp add: ent_width_def)

text \<open>The table sectors lie inside the device, before the data.\<close>

lemma table_sector:
  assumes "valid_cluster fs sect nsec c" and "unat width = ent_width fs"
  shows "unat (fat_sector_of fs width c) < unat (fs_data_start_sector fs)"
    "unat (fat_sector_of fs width c) < nsec"
    "fs_num_fats fs > 1 \<Longrightarrow> unat (fat_sector_of fs width c + fs_fat_size_sectors fs)
       = unat (fat_sector_of fs width c) + unat (fs_fat_size_sectors fs)"
    "fs_num_fats fs > 1 \<Longrightarrow> unat (fat_sector_of fs width c) + unat (fs_fat_size_sectors fs)
       < unat (fs_data_start_sector fs)"
proof -
  note v = valid_clusterD [OF assms(1)] and e = entry_place [OF assms]
  have ok: "unat (fs_fat_start_sector fs) + unat (fs_num_fats fs) * unat (fs_fat_size_sectors fs)
      \<le> unat (fs_data_start_sector fs)" "unat (fs_data_start_sector fs) \<le> nsec" "nsec < 4294967296"
    "1 \<le> unat (fs_num_fats fs)"
    using v(2) by (auto simp: volume_ok_def)
  have "1 * unat (fs_fat_size_sectors fs) \<le> unat (fs_num_fats fs) * unat (fs_fat_size_sectors fs)"
    using ok(4) by (rule mult_le_mono1)
  then show "unat (fat_sector_of fs width c) < unat (fs_data_start_sector fs)"
    "unat (fat_sector_of fs width c) < nsec" using e ok by linarith+
  assume "fs_num_fats fs > 1"
  then have "2 \<le> unat (fs_num_fats fs)" by (simp add: word_less_nat_alt)
  then have "2 * unat (fs_fat_size_sectors fs) \<le> unat (fs_num_fats fs) * unat (fs_fat_size_sectors fs)"
    by (rule mult_le_mono1)
  then show less: "unat (fat_sector_of fs width c) + unat (fs_fat_size_sectors fs) < unat (fs_data_start_sector fs)"
    using e ok by linarith
  then show "unat (fat_sector_of fs width c + fs_fat_size_sectors fs)
       = unat (fat_sector_of fs width c) + unat (fs_fat_size_sectors fs)"
    using ok by (simp add: unat_word_ariths)
qed

text \<open>Writing a table sector: success, and the sectors afterwards.\<close>

lemma write_fat_sector_spec:
  assumes "valid_cluster fs sect nsec c" and "unat width = ent_width fs" and "length buf = 512"
  shows "snd (write_fat_sector fs w (fat_sector_of fs width c) buf) = 0"
    "sect (fst (write_fat_sector fs w (fat_sector_of fs width c) buf)) l =
      (if l = fat_sector_of fs width c
          \<or> (fs_num_fats fs > 1 \<and> l = fat_sector_of fs width c + fs_fat_size_sectors fs)
       then buf else sect w l)"
proof -
  note v = valid_clusterD [OF assms(1)] and t = table_sector [OF assms(1,2)]
  define b where "b = fat_sector_of fs width c"
  obtain w1 r1 where w1: "bd_write (fs_bdev fs) w b 1 buf = (w1, r1)" by fastforce
  note d1 = device_write_1 [OF v(1) t(2) assms(3), of w, folded b_def, unfolded w1]
  have pos: "fs_fat_size_sectors fs > 0"
    using entry_place(3) [OF assms(1,2)] by (simp add: word_less_nat_alt)
  have "unat (fs_data_start_sector fs) \<le> nsec" using v(2) by (auto simp: volume_ok_def)
  then have mir: "fs_num_fats fs > 1 \<Longrightarrow> unat (b + fs_fat_size_sectors fs) < nsec"
    using t(3,4) unfolding b_def by linarith
  note d2 = device_write_1 [OF v(1) mir assms(3), of w1]
  show "snd (write_fat_sector fs w (fat_sector_of fs width c) buf) = 0"
    using d1 by (auto simp: write_fat_sector_def b_def [symmetric] w1)
  show "sect (fst (write_fat_sector fs w (fat_sector_of fs width c) buf)) l =
      (if l = fat_sector_of fs width c
          \<or> (fs_num_fats fs > 1 \<and> l = fat_sector_of fs width c + fs_fat_size_sectors fs)
       then buf else sect w l)"
    using d1 d2 pos by (auto simp: write_fat_sector_def b_def [symmetric] w1)
qed

section \<open>The driver implements the interface\<close>

definition wid :: "'w fat_fs \<Rightarrow> u32" where
  "wid fs = (if fs_type fs = FAT_TYPE_FAT16 then 2 else 4)"

lemma unat_wid [simp]: "unat (wid fs) = ent_width fs"
  by (simp add: wid_def ent_width_def)

text \<open>The table sector after the entry of \<open>c\<close> is set to \<open>v\<close>.\<close>

definition entry_sector :: "'w fat_fs \<Rightarrow> u8 list \<Rightarrow> u32 \<Rightarrow> u32 \<Rightarrow> u8 list" where
  "entry_sector fs s c v =
    (if fs_type fs = FAT_TYPE_FAT16 then put16 s (fat_offset_of fs 2 c) (ucast v)
     else put32 s (fat_offset_of fs 4 c)
       ((fat_read_le32 s (fat_offset_of fs 4 c) AND 0xF0000000) OR (v AND 0x0FFFFFFF)))"

definition read_entry :: "'w fat_fs \<Rightarrow> u8 list \<Rightarrow> u32 \<Rightarrow> u32" where
  "read_entry fs s c =
    (if fs_type fs = FAT_TYPE_FAT16 then ucast (fat_read_le16 s (fat_offset_of fs 2 c))
     else fat_read_le32 s (fat_offset_of fs 4 c) AND 0x0FFFFFFF)"

lemma fat_entry_read: "fat_entry_of fs sect w c = read_entry fs (sect w (fat_sector_of fs (wid fs) c)) c"
  by (simp add: fat_entry_of_def read_entry_def wid_def)

lemma entry_sector_length [simp]: "length (entry_sector fs s c v) = length s"
  by (simp add: entry_sector_def)

lemma nibble_merge: "((a AND 0xF0000000) OR (v AND 0x0FFFFFFF)) AND 0x0FFFFFFF = (v AND 0x0FFFFFFF :: u32)"
proof -
  have "((a AND 0xF0000000) OR (v AND 0x0FFFFFFF)) AND 0x0FFFFFFF
      = (a AND (0xF0000000 AND 0x0FFFFFFF)) OR (v AND (0x0FFFFFFF AND 0x0FFFFFFF))"
    by (simp only: bit.conj_disj_distrib2 and.assoc)
  then show ?thesis by simp
qed

lemma read_entry_same:
  assumes "valid_cluster fs sect nsec c" and "length s = 512"
  shows "read_entry fs (entry_sector fs s c v) c = fat_norm fs v"
proof -
  have "fat_offset_of fs (wid fs) c + ent_width fs \<le> 512"
    using entry_place(2) [OF assms(1) unat_wid] offset_fits [of "ent_width fs" "unat c"]
      valid_width [OF assms(1)] by simp
  then show ?thesis using assms(2)
    by (auto simp: read_entry_def entry_sector_def fat_norm_def le16_put16 le32_put32 wid_def
        ent_width_def nibble_merge split: if_splits)
qed

lemma read_entry_other:
  assumes "valid_cluster fs sect nsec c" "valid_cluster fs sect nsec d" "c \<noteq> d"
    and "fat_sector_of fs (wid fs) c = fat_sector_of fs (wid fs) d"
  shows "read_entry fs (entry_sector fs s c v) d = read_entry fs s d"
proof -
  have "unat c \<noteq> unat d" using assms(3) by (simp add: word_unat_eq_iff)
  moreover have "unat c * ent_width fs div 512 = unat d * ent_width fs div 512"
    using entry_place(1) [OF assms(1) unat_wid] entry_place(1) [OF assms(2) unat_wid] assms(4) by simp
  ultimately have "fat_offset_of fs (wid fs) c + ent_width fs \<le> fat_offset_of fs (wid fs) d
      \<or> fat_offset_of fs (wid fs) d + ent_width fs \<le> fat_offset_of fs (wid fs) c"
    using entries_apart [of "unat c" "unat d" "ent_width fs"] valid_width [OF assms(1)]
      entry_place(2) [OF assms(1) unat_wid] entry_place(2) [OF assms(2) unat_wid] by auto
  then show ?thesis
    by (auto simp: read_entry_def entry_sector_def le16_put16 le32_put32 wid_def ent_width_def
        split: if_splits)
qed

lemma set_fat_entry_eq:
  assumes "valid_cluster fs sect nsec c"
  shows "set_fat_entry fs w c v = write_fat_sector fs w (fat_sector_of fs (wid fs) c)
    (entry_sector fs (sect w (fat_sector_of fs (wid fs) c)) c v)"
proof -
  note v = valid_clusterD [OF assms] and t = table_sector [OF assms unat_wid]
  have "bd_read (fs_bdev fs) w (fat_sector_of fs (wid fs) c) 1 = Some (sect w (fat_sector_of fs (wid fs) c))"
    using device_read_1 [OF v(1) t(2)] by simp
  then show ?thesis using volume_type [OF v(2)] v(4)
    by (auto simp: set_fat_entry_def entry_sector_def wid_def Let_def)
qed

lemma set_fat_entry_ok: "valid_cluster fs sect nsec c \<Longrightarrow> snd (set_fat_entry fs w c v) = 0"
  by (simp add: set_fat_entry_eq write_fat_sector_spec(1) [OF _ unat_wid]
      device_length [OF valid_clusterD(1)])

lemma set_fat_entry_sect:
  assumes "valid_cluster fs sect nsec c"
  shows "sect (fst (set_fat_entry fs w c v)) l =
    (if l = fat_sector_of fs (wid fs) c
        \<or> (fs_num_fats fs > 1 \<and> l = fat_sector_of fs (wid fs) c + fs_fat_size_sectors fs)
     then entry_sector fs (sect w (fat_sector_of fs (wid fs) c)) c v else sect w l)"
  unfolding set_fat_entry_eq [OF assms]
  by (rule write_fat_sector_spec(2) [OF assms unat_wid])
    (simp add: device_length [OF valid_clusterD(1) [OF assms]])

lemma set_fat_entry_entry:
  assumes "valid_cluster fs sect nsec c" "valid_cluster fs sect nsec d"
  shows "fat_entry_of fs sect (fst (set_fat_entry fs w c v)) d
    = (if d = c then fat_norm fs v else fat_entry_of fs sect w d)"
proof -
  let ?S = "fat_sector_of fs (wid fs)"
  have far: "fs_num_fats fs > 1 \<Longrightarrow> ?S d \<noteq> ?S c + fs_fat_size_sectors fs"
    using entry_place(1,3) [OF assms(2) unat_wid] entry_place(1) [OF assms(1) unat_wid]
      table_sector(3) [OF assms(1) unat_wid] by auto
  show ?thesis
    using far assms read_entry_same [OF assms(1), of "sect w (?S c)" v]
      read_entry_other [OF assms] device_length [OF valid_clusterD(1) [OF assms(1)]]
    by (auto simp: fat_entry_read set_fat_entry_sect [OF assms(1)])
qed

text \<open>The sectors of a valid cluster, in natural numbers.\<close>

lemma cluster_place:
  assumes "valid_cluster fs sect nsec c"
  shows "unat (cluster_sector fs c)
      = unat (fs_data_start_sector fs) + (unat c - 2) * unat (fs_sectors_per_cluster fs)"
    "unat (cluster_sector fs c) + unat (fs_sectors_per_cluster fs) \<le> nsec"
    "nsec < 4294967296" "0 < unat (fs_sectors_per_cluster fs)"
proof -
  note v = valid_clusterD [OF assms]
  let ?spc = "unat (fs_sectors_per_cluster fs)" and ?ds = "unat (fs_data_start_sector fs)"
  have "(unat c - 2 + 1) * ?spc \<le> unat (fs_total_clusters fs) * ?spc"
    using v(3,5) by (intro mult_le_mono1) linarith
  then have fits: "?ds + (unat c - 2) * ?spc + ?spc \<le> nsec"
    using v(2) unfolding volume_ok_def by simp
  show n: "nsec < 4294967296" "0 < ?spc" using v(2) by (simp_all add: volume_ok_def)
  have c2: "unat (c - 2) = unat c - 2"
    using v(3) by (simp add: unat_sub_if_size)
  have "unat ((c - 2) * fs_sectors_per_cluster fs) = (unat c - 2) * ?spc"
    unfolding unat_word_ariths(2) c2 using fits n by simp
  then show p: "unat (cluster_sector fs c) = ?ds + (unat c - 2) * ?spc"
    unfolding cluster_sector_def unat_word_ariths(1) using fits n by simp
  show "unat (cluster_sector fs c) + ?spc \<le> nsec" unfolding p by (rule fits)
qed

lemma cluster_sector_nth:
  assumes "valid_cluster fs sect nsec c" and "i < unat (fs_sectors_per_cluster fs)"
  shows "unat (cluster_sector fs c + of_nat i) = unat (cluster_sector fs c) + i"
  using cluster_place [OF assms(1)] assms(2) by (intro unat_add_of_nat) simp

lemma cluster_bytes_cong:
  "(\<And>i. i < unat (fs_sectors_per_cluster fs) \<Longrightarrow>
      sect w (cluster_sector fs c + of_nat i) = sect w' (cluster_sector fs c + of_nat i)) \<Longrightarrow>
   cluster_bytes fs sect w c = cluster_bytes fs sect w' c"
  unfolding cluster_bytes_def by (intro arg_cong [where f = concat] map_cong) auto

lemma set_fat_entry_content:
  assumes "valid_cluster fs sect nsec c" "valid_cluster fs sect nsec d"
  shows "cluster_bytes fs sect (fst (set_fat_entry fs w c v)) d = cluster_bytes fs sect w d"
proof (rule cluster_bytes_cong)
  fix i
  assume i: "i < unat (fs_sectors_per_cluster fs)"
  have "unat (fs_data_start_sector fs) \<le> unat (cluster_sector fs d + of_nat i)"
    using cluster_sector_nth [OF assms(2) i] cluster_place(1) [OF assms(2)] by simp
  then have "cluster_sector fs d + of_nat i \<noteq> fat_sector_of fs (wid fs) c"
    "fs_num_fats fs > 1 \<Longrightarrow> cluster_sector fs d + of_nat i \<noteq> fat_sector_of fs (wid fs) c + fs_fat_size_sectors fs"
    using table_sector [OF assms(1) unat_wid] by auto
  then show "sect (fst (set_fat_entry fs w c v)) (cluster_sector fs d + of_nat i)
      = sect w (cluster_sector fs d + of_nat i)"
    by (auto simp: set_fat_entry_sect [OF assms(1)])
qed

lemma concat_sectors:
  "length buf = 512 * n \<Longrightarrow> concat (map (\<lambda>i. take 512 (drop (512 * i) buf)) [0..<n]) = buf"
proof (induction n arbitrary: buf)
  case (Suc n)
  have "concat (map (\<lambda>i. take 512 (drop (512 * i) buf)) [0..<n])
      = concat (map (\<lambda>i. take 512 (drop (512 * i) (take (512 * n) buf))) [0..<n])"
    by (intro arg_cong [where f = concat] map_cong) (auto simp: drop_take min_def)
  with Suc.IH [of "take (512 * n) buf"] Suc.prems show ?case
    by simp
qed simp

lemma cluster_bytes_length: "valid_cluster fs sect nsec c \<Longrightarrow>
    length (cluster_bytes fs sect w c) = 512 * unat (fs_sectors_per_cluster fs)"
  by (simp add: cluster_bytes_def length_concat comp_def sum_list_triv device_length [OF valid_clusterD(1)])

lemma write_cluster_eq:
  assumes "valid_cluster fs sect nsec c"
  shows "write_cluster fs w c buf
    = bd_write (fs_bdev fs) w (cluster_sector fs c) (fs_sectors_per_cluster fs) buf"
  using valid_clusterD(4) [OF assms] cluster_place(4) [OF assms]
  by (auto simp: write_cluster_def)

lemma read_cluster_eq:
  assumes "valid_cluster fs sect nsec c"
  shows "read_cluster fs w c = Some (cluster_bytes fs sect w c)"
  using valid_clusterD(4) [OF assms] cluster_place(2,4) [OF assms]
    device_read [OF valid_clusterD(1) [OF assms] cluster_place(4) [OF assms]]
  by (auto simp: read_cluster_def cluster_bytes_def)

lemma write_cluster_spec:
  assumes "valid_cluster fs sect nsec c" and "length buf = 512 * unat (fs_sectors_per_cluster fs)"
  shows "snd (write_cluster fs w c buf) = 0"
    "sect (fst (write_cluster fs w c buf)) l =
      (if unat (cluster_sector fs c) \<le> unat l
          \<and> unat l < unat (cluster_sector fs c) + unat (fs_sectors_per_cluster fs)
       then take 512 (drop (512 * (unat l - unat (cluster_sector fs c))) buf) else sect w l)"
  using device_write [OF valid_clusterD(1) [OF assms(1)] cluster_place(4) [OF assms(1)]
      cluster_place(2) [OF assms(1)] assms(2)]
  by (simp_all add: write_cluster_eq [OF assms(1)])

lemma write_cluster_content:
  assumes "valid_cluster fs sect nsec c" "valid_cluster fs sect nsec d"
    and "length buf = 512 * unat (fs_sectors_per_cluster fs)"
  shows "cluster_bytes fs sect (fst (write_cluster fs w c buf)) d
    = (if d = c then buf else cluster_bytes fs sect w d)"
proof (cases "d = c")
  case True
  then have "cluster_bytes fs sect (fst (write_cluster fs w c buf)) d
      = concat (map (\<lambda>i. take 512 (drop (512 * i) buf)) [0..<unat (fs_sectors_per_cluster fs)])"
    unfolding cluster_bytes_def
    by (intro arg_cong [where f = concat] map_cong)
      (auto simp: write_cluster_spec(2) [OF assms(1,3)] cluster_sector_nth [OF assms(1)])
  then show ?thesis using True concat_sectors [OF assms(3)] by simp
next
  case False
  let ?spc = "unat (fs_sectors_per_cluster fs)"
  have apart: "x * ?spc + ?spc \<le> y * ?spc" if "x < y" for x y
    using mult_le_mono1 [of "x + 1" y ?spc] that by simp
  have "unat c - 2 \<noteq> unat d - 2"
    using False valid_clusterD(3) [OF assms(1)] valid_clusterD(3) [OF assms(2)]
    by (auto simp: word_unat_eq_iff)
  then have "unat (cluster_sector fs c) + ?spc \<le> unat (cluster_sector fs d)
      \<or> unat (cluster_sector fs d) + ?spc \<le> unat (cluster_sector fs c)"
    using apart [of "unat c - 2" "unat d - 2"] apart [of "unat d - 2" "unat c - 2"]
    unfolding cluster_place(1) [OF assms(1)] cluster_place(1) [OF assms(2)] by linarith
  then have "cluster_bytes fs sect (fst (write_cluster fs w c buf)) d = cluster_bytes fs sect w d"
    by (intro cluster_bytes_cong)
      (auto simp: write_cluster_spec(2) [OF assms(1,3)] cluster_sector_nth [OF assms(2)])
  then show ?thesis using False by simp
qed

lemma write_cluster_entry:
  assumes "valid_cluster fs sect nsec c" "valid_cluster fs sect nsec d"
    and "length buf = 512 * unat (fs_sectors_per_cluster fs)"
  shows "fat_entry_of fs sect (fst (write_cluster fs w c buf)) d = fat_entry_of fs sect w d"
proof -
  have "unat (fat_sector_of fs (wid fs) d) < unat (cluster_sector fs c)"
    using table_sector(1) [OF assms(2) unat_wid] cluster_place(1) [OF assms(1)] by simp
  then show ?thesis by (simp add: fat_entry_read write_cluster_spec(2) [OF assms(1,3)])
qed

interpretation volume: cluster_store "valid_cluster fs sect nsec" "fat_entry_of fs sect" "cluster_bytes fs sect"
  "fat_norm fs" "512 * unat (fs_sectors_per_cluster fs)"
  "\<lambda>w c v. fst (set_fat_entry fs w c v)" "\<lambda>w c buf. fst (write_cluster fs w c buf)"
  for fs :: "'w fat_fs" and sect nsec
  by unfold_locales (simp_all add: set_fat_entry_entry set_fat_entry_content write_cluster_content
      write_cluster_entry cluster_bytes_length)

end
