(* ===== verification/Fat_Chains.thy ===== *)
theory Fat_Chains
  imports Fat_Store
begin

text \<open>
  Chains of clusters: reading and setting table entries, allocating the lowest free cluster, and
  giving a chain back, on a volume that fits its device.
\<close>

section \<open>Entries\<close>

definition fat_end :: "'w fat_fs \<Rightarrow> u32 \<Rightarrow> bool" where
  "fat_end fs e \<longleftrightarrow> e < 2 \<or> fat_eof_limit fs \<le> e"

text \<open>What \<open>get_next_cluster\<close> makes of an entry.\<close>

definition next_of :: "'w fat_fs \<Rightarrow> u32 \<Rightarrow> u32 \<Rightarrow> u32" where
  "next_of fs c e = (if fat_end fs e \<or> e = c then 0xFFFFFFFF else e)"

lemma unat_ucast_u16: "unat (ucast (e :: u16) :: u32) = unat e"
  using order_less_trans [OF unat_less_64K [of e], of "2 ^ 32"]
  by (simp add: unsigned_ucast_eq take_bit_nat_eq_self_iff)

lemma ucast_u16_order:
  "(ucast (e :: u16) :: u32) < 2 \<longleftrightarrow> e < 2" "0xFFF8 \<le> (ucast e :: u32) \<longleftrightarrow> 0xFFF8 \<le> e"
  "(ucast e :: u32) = 0 \<longleftrightarrow> e = 0"
  by (simp_all add: word_less_nat_alt word_le_nat_alt word_unat_eq_iff unat_ucast_u16)

lemma get_next_eq:
  assumes "valid_cluster fs sect nsec c"
  shows "get_next_cluster fs w c = next_of fs c (fat_entry_of fs sect w c)"
proof -
  note v = valid_clusterD [OF assms] and t = table_sector [OF assms unat_wid]
  have r: "bd_read (fs_bdev fs) w (fat_sector_of fs (wid fs) c) 1 = Some (sect w (fat_sector_of fs (wid fs) c))"
    using device_read_1 [OF v(1) t(2)] by simp
  from volume_type [OF v(2)] show ?thesis
  proof
    assume "fs_type fs = FAT_TYPE_FAT16"
    with r v(4) show ?thesis
      by (simp add: get_next_cluster_def next_of_def fat_end_def fat_eof_limit_def fat_entry_of_def
          wid_def Let_def ucast_u16_order)
  next
    assume "fs_type fs = FAT_TYPE_FAT32"
    with r v(4) show ?thesis
      by (simp add: get_next_cluster_def next_of_def fat_end_def fat_eof_limit_def fat_entry_of_def
          wid_def Let_def)
  qed
qed

text \<open>A next cluster that is itself a valid cluster is followed.\<close>

lemma next_of_valid:
  "valid_cluster fs sect nsec d \<Longrightarrow> d \<noteq> c \<Longrightarrow> next_of fs c d = d"
  using valid_cluster_limit [of fs sect nsec d] valid_clusterD(4) [of fs sect nsec d]
  by (auto simp: next_of_def fat_end_def not_le [symmetric])

lemma next_of_end: "fat_end fs e \<Longrightarrow> next_of fs c e = 0xFFFFFFFF"
  by (simp add: next_of_def)

text \<open>C19. Setting a table entry on a working volume succeeds and is read back: the successor of the
  cluster becomes what the value says (the end of the chain for a value below 2, at or above the
  end-of-chain mark, or naming the cluster itself), the successor of every other cluster and the
  contents of all clusters stay, and with two tables the copies of the sector agree.\<close>

theorem set_fat_entry_get_next:
  assumes "valid_cluster fs sect nsec c" and "valid_cluster fs sect nsec d"
  shows "let (w', res) = set_fat_entry fs w c v in res = 0
    \<and> get_next_cluster fs w' d = (if d = c then next_of fs c (fat_norm fs v) else get_next_cluster fs w d)
    \<and> read_cluster fs w' d = read_cluster fs w d
    \<and> (fs_num_fats fs > 1 \<longrightarrow> sect w' (fat_sector_of fs (wid fs) c + fs_fat_size_sectors fs)
         = sect w' (fat_sector_of fs (wid fs) c))"
proof -
  obtain w' res where w': "set_fat_entry fs w c v = (w', res)" by fastforce
  have res: "res = 0" using set_fat_entry_ok [OF assms(1), of w v] w' by simp
  have nxt: "get_next_cluster fs w' d = (if d = c then next_of fs c (fat_norm fs v) else get_next_cluster fs w d)"
    using set_fat_entry_entry [OF assms, of w v] w' by (simp add: get_next_eq [OF assms(2)])
  have dat: "read_cluster fs w' d = read_cluster fs w d"
    using set_fat_entry_content [OF assms, of w v] w' by (simp add: read_cluster_eq [OF assms(2)])
  have "fs_num_fats fs > 1 \<longrightarrow> sect w' (fat_sector_of fs (wid fs) c + fs_fat_size_sectors fs)
         = sect w' (fat_sector_of fs (wid fs) c)"
    using set_fat_entry_sect [OF assms(1), of w v] w' by simp
  with res nxt dat show ?thesis by (simp add: w')
qed

section \<open>A volume for the witnesses\<close>

text \<open>A device kept in memory, its sectors as a function of their number, and on it a FAT16 volume
  of 16384 one-sector clusters with two tables.\<close>

definition ram_sect :: "(u32 \<Rightarrow> u8 list) \<Rightarrow> u32 \<Rightarrow> u8 list" where
  "ram_sect w l = take 512 (w l @ replicate 512 0)"

definition ram_dev :: "(u32 \<Rightarrow> u8 list) block_dev" where
  "ram_dev = \<lparr> bd_name = bytes ''ram0'', bd_block_size = 512, bd_total_blocks = 17000,
    bd_read = (\<lambda>w lba n. Some (concat (map (\<lambda>i. ram_sect w (lba + of_nat i)) [0..<unat n]))),
    bd_write = (\<lambda>w lba n buf. (\<lambda>l. if unat lba \<le> unat l \<and> unat l < unat lba + unat n
      then take 512 (drop (512 * (unat l - unat lba)) buf) else w l, 0)) \<rparr>"

definition ram_fs :: "(u32 \<Rightarrow> u8 list) fat_fs" where
  "ram_fs = \<lparr> fs_bdev = ram_dev, fs_type = FAT_TYPE_FAT16, fs_lba_offset = 0, fs_bytes_per_sector = 512,
    fs_sectors_per_cluster = 1, fs_bytes_per_cluster = 512, fs_reserved_sectors = 1, fs_num_fats = 2,
    fs_fat_start_sector = 1, fs_fat_size_sectors = 65, fs_root_dir_start_sector = 131,
    fs_root_dir_sectors = 32, fs_data_start_sector = 163, fs_total_clusters = 16384, fs_root_cluster = 0 \<rparr>"

lemma ram_device_ok: "device_ok ram_dev ram_sect nsec"
proof -
  have slice: "length (take 512 (drop (512 * (m - a)) buf)) = 512"
    if "length buf = 512 * n" "a \<le> m" "m < a + n" for buf :: "u8 list" and m a n :: nat
  proof -
    have "(m - a + 1) * 512 \<le> n * 512" using that by (intro mult_le_mono1) linarith
    then show ?thesis using that(1) by simp
  qed
  show ?thesis unfolding device_ok_def
    by (auto simp: ram_dev_def ram_sect_def slice)
qed

lemma ram_volume_ok: "volume_ok ram_fs 17000"
  by (simp add: volume_ok_def ram_fs_def ent_width_def fat_eof_limit_def)

lemma ram_valid: "2 \<le> unat c \<Longrightarrow> unat c < 16386 \<Longrightarrow> valid_cluster ram_fs ram_sect 17000 c"
  using ram_device_ok [of 17000] ram_volume_ok by (simp add: valid_cluster_def ram_fs_def)

theorem set_fat_entry_get_next_witness:
  "get_next_cluster ram_fs (fst (set_fat_entry ram_fs (\<lambda>l. []) 5 9)) 5 = 9"
  using set_fat_entry_get_next [OF ram_valid [of 5] ram_valid [of 5], of "\<lambda>l. []" 9]
  by (simp add: case_prod_unfold Let_def next_of_def fat_norm_def fat_end_def ram_fs_def fat_eof_limit_def)

section \<open>Allocation\<close>

text \<open>The lowest of the clusters \<open>c\<close>, \<open>c + 1\<close>, \dots, \<open>n\<close> of them, whose entry is free.\<close>

definition first_free :: "(u32 \<Rightarrow> u32) \<Rightarrow> u32 \<Rightarrow> nat \<Rightarrow> u32 option" where
  "first_free e c n = find (\<lambda>c. e c = 0) (map (\<lambda>i. c + of_nat i) [0..<n])"

lemma first_free_Suc:
  "first_free e c (Suc n) = (if e c = 0 then Some c else first_free e (c + 1) n)"
proof -
  have "map (\<lambda>i. c + of_nat i) [0..<Suc n] = c # map (\<lambda>i. c + 1 + of_nat i) [0..<n]"
    by (simp add: upt_conv_Cons map_Suc_upt [symmetric] add.assoc del: upt_Suc)
  then show ?thesis unfolding first_free_def by simp
qed

text \<open>The result of an allocation that found \<open>r\<close>.\<close>

definition allocated :: "'w fat_fs \<Rightarrow> 'w \<Rightarrow> u32 option \<Rightarrow> 'w \<times> u32" where
  "allocated fs w r = (case r of None \<Rightarrow> (w, 0) | Some c \<Rightarrow> (fst (set_fat_entry fs w c (fat_eof_val fs)), c))"

lemma entry_zero:
  "(if fs_type fs = FAT_TYPE_FAT16 then fat_read_le16 s (fat_offset_of fs (wid fs) c) = 0
    else fat_read_le32 s (fat_offset_of fs (wid fs) c) AND 0x0FFFFFFF = 0) \<longleftrightarrow> read_entry fs s c = 0"
  by (simp add: read_entry_def wid_def ucast_u16_order)

lemma alloc_scan_step:
  assumes "volume_ok fs nsec"
  shows "alloc_scan fs w c (Suc n) cache =
    (case (if fat_sector_of fs (wid fs) c = fst cache then Some (snd cache)
           else bd_read (fs_bdev fs) w (fat_sector_of fs (wid fs) c) 1) of
       None \<Rightarrow> (w, 0)
     | Some sector \<Rightarrow> if read_entry fs sector c = 0 then (fst (set_fat_entry fs w c (fat_eof_val fs)), c)
         else alloc_scan fs w (c + 1) n (fat_sector_of fs (wid fs) c, sector))"
  using volume_type [OF assms]
  by (simp only: alloc_scan.simps Let_def wid_def [symmetric] entry_zero if_True)

lemma alloc_scan_eq:
  assumes "device_ok (fs_bdev fs) sect nsec" "volume_ok fs nsec"
    and "2 \<le> unat c" "unat c + n \<le> unat (fs_total_clusters fs) + 2"
    and "cache = (0xFFFFFFFF, []) \<or> snd cache = sect w (fst cache)"
  shows "alloc_scan fs w c n cache = allocated fs w (first_free (fat_entry_of fs sect w) c n)"
  using assms(3-5)
proof (induction n arbitrary: c cache)
  case 0
  then show ?case by (simp add: allocated_def first_free_def)
next
  case (Suc n)
  let ?S = "fat_sector_of fs (wid fs) c"
  have v: "valid_cluster fs sect nsec c" using assms(1,2) Suc.prems by (simp add: valid_cluster_def)
  have S: "unat ?S < nsec" "nsec < 2 ^ 32"
    using table_sector(2) [OF v unat_wid] assms(2) by (auto simp: volume_ok_def)
  then have "?S \<noteq> 0xFFFFFFFF" by auto
  then have sec: "(if ?S = fst cache then Some (snd cache) else bd_read (fs_bdev fs) w ?S 1) = Some (sect w ?S)"
    using Suc.prems(3) device_read_1 [OF assms(1) S(1)] by auto
  have nx: "unat (c + 1) = unat c + 1"
    using Suc.prems(2) assms(2) unat_add_of_nat [of c 1] valid_cluster_limit [OF v] ent_width_def
    by (auto simp: volume_ok_def ent_width_def split: if_splits)
  have ih: "alloc_scan fs w (c + 1) n (?S, sect w ?S)
      = allocated fs w (first_free (fat_entry_of fs sect w) (c + 1) n)"
    using Suc.prems nx by (intro Suc.IH) auto
  show ?case
    unfolding alloc_scan_step [OF assms(2)] sec
    by (simp add: ih fat_entry_read [symmetric] first_free_Suc) (simp add: allocated_def)
qed

lemma first_free_Some:
  assumes "first_free e c n = Some d"
  shows "e d = 0 \<and> (\<exists>i<n. d = c + of_nat i \<and> (\<forall>j<i. e (c + of_nat j) \<noteq> 0))"
  using assms unfolding first_free_def find_Some_iff by auto

lemma first_free_None: "first_free e c n = None \<longleftrightarrow> (\<forall>i<n. e (c + of_nat i) \<noteq> 0)"
  by (auto simp: first_free_def find_None_iff)

text \<open>The number of clusters \<open>alloc_free_cluster\<close> looks at.\<close>

definition scan_width :: "'w fat_fs \<Rightarrow> nat" where
  "scan_width fs = min (unat (fs_total_clusters fs)) 32768"

lemma alloc_free_cluster_eq:
  assumes "device_ok (fs_bdev fs) sect nsec" "volume_ok fs nsec"
  shows "alloc_free_cluster fs w
    = allocated fs w (first_free (fat_entry_of fs sect w) 2 (scan_width fs))"
proof -
  have "unat (if fs_total_clusters fs > 0 \<and> fs_total_clusters fs < 32768
      then fs_total_clusters fs else 32768) = scan_width fs"
    using assms(2) by (auto simp: scan_width_def volume_ok_def word_less_nat_alt)
  then show ?thesis unfolding alloc_free_cluster_def Let_def
    using alloc_scan_eq [OF assms, of 2 "scan_width fs"] by (simp add: scan_width_def)
qed

lemma scanned_valid:
  assumes "device_ok (fs_bdev fs) sect nsec" "volume_ok fs nsec" and "i < scan_width fs"
  shows "valid_cluster fs sect nsec (2 + of_nat i)" "unat (2 + of_nat i :: u32) = 2 + i"
proof -
  have "i < 32768" using assms(3) by (simp add: scan_width_def)
  then show "unat (2 + of_nat i :: u32) = 2 + i" using unat_add_of_nat [of 2 i] by simp
  then show "valid_cluster fs sect nsec (2 + of_nat i)"
    using assms by (simp add: valid_cluster_def scan_width_def)
qed

text \<open>What an allocation does, as the other proofs use it.\<close>

lemma alloc_cases:
  assumes "device_ok (fs_bdev fs) sect nsec" "volume_ok fs nsec"
  obtains (full) "alloc_free_cluster fs w = (w, 0)" "\<forall>i < scan_width fs. fat_entry_of fs sect w (2 + of_nat i) \<noteq> 0"
  | (found) c where "alloc_free_cluster fs w = (fst (set_fat_entry fs w c (fat_eof_val fs)), c)"
      "valid_cluster fs sect nsec c" "unat c < scan_width fs + 2" "fat_entry_of fs sect w c = 0"
      "\<forall>d. valid_cluster fs sect nsec d \<and> d < c \<longrightarrow> fat_entry_of fs sect w d \<noteq> 0"
proof (cases "first_free (fat_entry_of fs sect w) 2 (scan_width fs)")
  case None
  with full alloc_free_cluster_eq [OF assms, of w] show ?thesis
    by (simp add: allocated_def first_free_None)
next
  case (Some c)
  from first_free_Some [OF Some] obtain i where
    i: "i < scan_width fs" "c = 2 + of_nat i" "fat_entry_of fs sect w c = 0"
    "\<forall>j<i. fat_entry_of fs sect w (2 + of_nat j) \<noteq> 0" by auto
  have uc: "unat c = 2 + i" using scanned_valid(2) [OF assms i(1)] i(2) by simp
  have "fat_entry_of fs sect w d \<noteq> 0" if "valid_cluster fs sect nsec d" "d < c" for d
  proof -
    have "unat d - 2 < i" "2 + of_nat (unat d - 2) = d"
      using valid_clusterD(3) [OF that(1)] that(2) uc
      by (auto simp: word_less_nat_alt of_nat_diff)
    with i(4) show ?thesis by metis
  qed
  with found [of c] Some alloc_free_cluster_eq [OF assms, of w] scanned_valid [OF assms i(1)] i uc
  show ?thesis by (simp add: allocated_def)
qed

lemma norm_eof: "volume_ok fs nsec \<Longrightarrow> fat_norm fs (fat_eof_val fs) = fat_eof_val fs"
  using volume_type [of fs nsec] by (auto simp: fat_norm_def fat_eof_val_def)

lemma eof_is_end: "volume_ok fs nsec \<Longrightarrow> fat_end fs (fat_eof_val fs) \<and> fat_eof_val fs \<noteq> 0"
  using volume_type [of fs nsec] by (auto simp: fat_end_def fat_eof_val_def fat_eof_limit_def)

lemma norm_valid: "valid_cluster fs sect nsec c \<Longrightarrow> fat_norm fs c = c"
proof -
  assume v: "valid_cluster fs sect nsec c"
  have lim: "unat c < unat (fat_eof_limit fs)"
    using valid_cluster_limit [OF v] by (simp add: word_less_nat_alt)
  show "fat_norm fs c = c"
  proof (cases "fs_type fs = FAT_TYPE_FAT16")
    case True
    then have "unat c < 2 ^ 16" using lim by (simp add: fat_eof_limit_def)
    then have "take_bit 16 c = c" by (simp add: word_unat_eq_iff unsigned_take_bit_eq take_bit_nat_eq_self)
    moreover have "ucast (ucast c :: u16) = take_bit 16 c"
      by (rule bit_word_eqI) (auto simp: bit_simps)
    ultimately show ?thesis using True by (simp add: fat_norm_def)
  next
    case False
    then have "unat c < 2 ^ 28"
      using lim volume_type [OF valid_clusterD(2) [OF v]] by (simp add: fat_eof_limit_def)
    then have "take_bit 28 c = c" by (simp add: word_unat_eq_iff unsigned_take_bit_eq take_bit_nat_eq_self)
    moreover have "c AND 0x0FFFFFFF = take_bit 28 c" by (simp add: take_bit_eq_mask mask_eq_exp_minus_1)
    ultimately show ?thesis using False by (simp add: fat_norm_def)
  qed
qed

text \<open>C20. Allocation on a working volume takes the lowest free cluster among the first 32768: it
  fails, changing nothing, exactly when none of these is free; otherwise the cluster it returns was
  free and becomes the end of a chain, all clusters below it were in use, and no other entry and
  no cluster's contents change.\<close>

theorem alloc_free_cluster_lowest:
  assumes "device_ok (fs_bdev fs) sect nsec" and "volume_ok fs nsec"
  shows "let (w', c) = alloc_free_cluster fs w in
    if c = 0 then w' = w \<and> (\<forall>i < min (unat (fs_total_clusters fs)) 32768. fat_entry_of fs sect w (2 + of_nat i) \<noteq> 0)
    else valid_cluster fs sect nsec c \<and> unat c < 32770 \<and> fat_entry_of fs sect w c = 0
      \<and> (\<forall>d. valid_cluster fs sect nsec d \<and> d < c \<longrightarrow> fat_entry_of fs sect w d \<noteq> 0)
      \<and> get_next_cluster fs w' c = 0xFFFFFFFF \<and> fat_entry_of fs sect w' c \<noteq> 0
      \<and> (\<forall>d. valid_cluster fs sect nsec d \<longrightarrow> cluster_bytes fs sect w' d = cluster_bytes fs sect w d
           \<and> (d \<noteq> c \<longrightarrow> fat_entry_of fs sect w' d = fat_entry_of fs sect w d))"
  using assms
proof (cases rule: alloc_cases [where w = w])
  case full
  then show ?thesis by (simp add: scan_width_def)
next
  case (found c)
  have "c \<noteq> 0" using valid_clusterD(3) [OF found(2)] by auto
  moreover have "unat c < 32770" using found(3) by (simp add: scan_width_def)
  moreover have "fat_entry_of fs sect (fst (set_fat_entry fs w c (fat_eof_val fs))) c = fat_eof_val fs"
    using found(2) by (simp add: set_fat_entry_entry norm_eof [OF assms(2)])
  ultimately show ?thesis using found(2,4,5) eof_is_end [OF assms(2)]
    by (simp add: found(1) get_next_eq [OF found(2)] next_of_end set_fat_entry_entry set_fat_entry_content)
qed

theorem alloc_free_cluster_lowest_witness:
  "let (w', c) = alloc_free_cluster ram_fs (fst (set_fat_entry ram_fs (\<lambda>l. []) 2 0xFFFF))
   in c = 3 \<and> get_next_cluster ram_fs w' 3 = 0xFFFFFFFF"
proof -
  define w where "w = fst (set_fat_entry ram_fs (\<lambda>l. []) 2 0xFFFF)"
  obtain w' c where al: "alloc_free_cluster ram_fs w = (w', c)" by fastforce
  have v: "valid_cluster ram_fs ram_sect 17000 2" "valid_cluster ram_fs ram_sect 17000 3"
    by (simp_all add: ram_valid)
  have e: "fat_entry_of ram_fs ram_sect w 3 = 0" "fat_entry_of ram_fs ram_sect w 2 \<noteq> 0"
    unfolding w_def set_fat_entry_entry [OF v(1) v(1)] set_fat_entry_entry [OF v]
    by (simp_all add: fat_entry_of_def fat_norm_def ram_fs_def ram_sect_def fat_read_le16_def byte_at_def)
  have dev: "device_ok (fs_bdev ram_fs) ram_sect 17000" using v(1) by (rule valid_clusterD)
  from alloc_free_cluster_lowest [OF dev ram_volume_ok, of w] al
  have main: "if c = 0 then \<forall>i < 16384. fat_entry_of ram_fs ram_sect w (2 + of_nat i) \<noteq> 0
    else valid_cluster ram_fs ram_sect 17000 c \<and> fat_entry_of ram_fs ram_sect w c = 0
      \<and> (\<forall>d. valid_cluster ram_fs ram_sect 17000 d \<and> d < c \<longrightarrow> fat_entry_of ram_fs ram_sect w d \<noteq> 0)
      \<and> get_next_cluster ram_fs w' c = 0xFFFFFFFF"
    by (auto simp: ram_fs_def split: if_splits)
  have "c \<noteq> 0"
  proof
    assume "c = 0"
    with main have "fat_entry_of ram_fs ram_sect w (2 + of_nat 1) \<noteq> 0" by (metis one_less_numeral_iff semiring_norm(76))
    with e(1) show False by simp
  qed
  with main e v have "\<not> 3 < c" "c \<noteq> 2" "valid_cluster ram_fs ram_sect 17000 c" by auto
  then have "c = 3" using valid_clusterD(3) [of ram_fs ram_sect 17000 c]
    by (auto simp: word_less_nat_alt word_unat_eq_iff)
  with main al \<open>c \<noteq> 0\<close> show ?thesis by (simp add: w_def [symmetric])
qed

section \<open>Giving a chain back\<close>

text \<open>The clusters of a well-formed chain: valid, distinct, linked, and ended.\<close>

definition fat_chain :: "'w fat_fs \<Rightarrow> ('w \<Rightarrow> u32 \<Rightarrow> u8 list) \<Rightarrow> nat \<Rightarrow> 'w \<Rightarrow> u32 list \<Rightarrow> bool" where
  "fat_chain fs sect nsec w cs \<longleftrightarrow> chain (fat_entry_of fs sect w) (fat_end fs) cs \<and> distinct cs
     \<and> (\<forall>c\<in>set cs. valid_cluster fs sect nsec c)"

lemma fat_chain_next:
  assumes "fat_chain fs sect nsec w (c # cs)"
  shows "get_next_cluster fs w c = (if cs = [] then 0xFFFFFFFF else hd cs)"
proof (cases cs)
  case Nil
  with assms show ?thesis
    using get_next_eq [of fs sect nsec c w] by (simp add: fat_chain_def next_of_end)
next
  case (Cons d ds)
  with assms have "valid_cluster fs sect nsec d" "d \<noteq> c" "valid_cluster fs sect nsec c"
    "fat_entry_of fs sect w c = d" by (auto simp: fat_chain_def)
  with Cons show ?thesis using get_next_eq [of fs sect nsec c w] by (simp add: next_of_valid)
qed

lemma fat_chain_tl: "fat_chain fs sect nsec w (c # d # cs) \<Longrightarrow> fat_chain fs sect nsec w (d # cs)"
  by (simp add: fat_chain_def)

lemma fat_chain_hd:
  assumes "fat_chain fs sect nsec w (c # cs)"
  shows "valid_cluster fs sect nsec c" "\<not> c < 2" "2 \<le> c" "c < fat_eof_limit fs"
  using assms valid_clusterD(4) [of fs sect nsec c] valid_cluster_limit [of fs sect nsec c]
  by (auto simp: fat_chain_def)

lemma free_chain_loop_eq:
  "fat_chain fs sect nsec w cs \<Longrightarrow> length cs \<le> n \<Longrightarrow>
     free_chain_loop fs n w (hd cs) = fold (\<lambda>c w. fst (set_fat_entry fs w c 0)) cs w"
proof (induction cs arbitrary: n w)
  case Nil
  then show ?case by (simp add: fat_chain_def)
next
  case (Cons c cs)
  then obtain m where n: "n = Suc m" by (cases n) auto
  note h = fat_chain_hd [OF Cons.prems(1)]
  let ?w = "fst (set_fat_entry fs w c 0)"
  show ?case
  proof (cases cs)
    case Nil
    with fat_chain_next [OF Cons.prems(1)] h n show ?thesis by (cases m) (simp_all add: Let_def fat_eof_limit_def)
  next
    case (Cons d ds)
    have "fat_chain fs sect nsec ?w cs"
      using Cons.prems(1) fat_chain_tl [of fs sect nsec w c d ds] \<open>cs = d # ds\<close>
        volume.chain_link_outside [of cs fs sect nsec c w 0 "fat_end fs"]
      by (auto simp: fat_chain_def)
    moreover have "\<not> d < 2" "d \<noteq> c"
      using Cons.prems(1) \<open>cs = d # ds\<close> by (auto simp: fat_chain_def dest: valid_clusterD)
    ultimately show ?thesis
      using Cons.IH [of ?w m] Cons.prems(2) n h fat_chain_next [OF Cons.prems(1)] \<open>cs = d # ds\<close>
      by (simp add: Let_def)
  qed
qed

text \<open>C28. Giving back a well-formed chain of up to 65536 clusters frees exactly its clusters: their
  entries become 0, and every other entry and the contents of all clusters stay.\<close>

theorem fat_free_cluster_chain_frees:
  assumes "fat_chain fs sect nsec w cs" and "length cs \<le> 65536" and "valid_cluster fs sect nsec d"
  shows "let w' = fat_free_cluster_chain fs w (hd cs) in
    fat_entry_of fs sect w' d = (if d \<in> set cs then 0 else fat_entry_of fs sect w d)
    \<and> cluster_bytes fs sect w' d = cluster_bytes fs sect w d"
proof -
  obtain c cs' where cs: "cs = c # cs'" using assms(1) by (cases cs) (auto simp: fat_chain_def)
  have "fat_free_cluster_chain fs w (hd cs) = fold (\<lambda>c w. fst (set_fat_entry fs w c 0)) cs w"
    using free_chain_loop_eq [OF assms(1,2)] fat_chain_hd(2) [OF assms(1) [unfolded cs]] cs
    by (simp add: fat_free_cluster_chain_def)
  moreover have "fat_norm fs 0 = 0" by (simp add: fat_norm_def)
  moreover have "\<And>c. c \<in> set cs \<Longrightarrow> valid_cluster fs sect nsec c"
    using assms(1) by (simp add: fat_chain_def)
  ultimately show ?thesis
    using volume.unlink_all [of cs fs sect nsec d 0 w] assms(3) by (simp add: Let_def)
qed

theorem fat_free_cluster_chain_frees_witness:
  "let w = fst (set_fat_entry ram_fs (fst (set_fat_entry ram_fs (\<lambda>l. []) 9 0xFFFF)) 5 9);
       w' = fat_free_cluster_chain ram_fs w 5
   in fat_entry_of ram_fs ram_sect w' 5 = 0 \<and> fat_entry_of ram_fs ram_sect w 5 = 9"
proof -
  define w where "w = fst (set_fat_entry ram_fs (fst (set_fat_entry ram_fs (\<lambda>l. []) 9 0xFFFF)) 5 9)"
  have v: "valid_cluster ram_fs ram_sect 17000 5" "valid_cluster ram_fs ram_sect 17000 9"
    by (simp_all add: ram_valid)
  have n: "fat_norm ram_fs 9 = 9" "fat_norm ram_fs 0xFFFF = 0xFFFF" by (simp_all add: fat_norm_def ram_fs_def)
  have e: "fat_entry_of ram_fs ram_sect w 5 = 9" "fat_entry_of ram_fs ram_sect w 9 = 0xFFFF"
    unfolding w_def by (simp_all add: set_fat_entry_entry [OF v(1) v(1)] set_fat_entry_entry [OF v(1) v(2)]
        set_fat_entry_entry [OF v(2) v(2)] n)
  then have "fat_chain ram_fs ram_sect 17000 w [5, 9]"
    using v by (simp add: fat_chain_def fat_end_def fat_eof_limit_def ram_fs_def)
  from fat_free_cluster_chain_frees [OF this _ v(1)] e show ?thesis
    by (simp add: w_def [symmetric] Let_def)
qed

end
