(* ===== verification/Fat_Dir.thy ===== *)
theory Fat_Dir
  imports Fat_Volume
begin

text \<open>
  Directories of the FAT driver, the third part of \<open>src/fs/fat.c\<close>: walking the slots of a directory,
  finding an entry, finding room for a new one, writing it, and resolving paths.

  \<open>km\<close> is the answer of the kernel heap: whether \<open>kmalloc\<close> of that many bytes succeeds. The buffers
  the driver allocates are freed before it returns.
\<close>

section \<open>Walking a directory\<close>

record fat_dir =
  is_root_fixed :: bool
  dir_cluster :: u32

text \<open>An entry with the sector and the slot it stands at.\<close>

type_synonym slot = "fat_entry \<times> u32 \<times> nat"

definition fat_root_dir :: "'w fat_fs \<Rightarrow> fat_dir" where
  "fat_root_dir fs = (if fs_type fs = FAT_TYPE_FAT32
     then \<lparr> is_root_fixed = False, dir_cluster = fs_root_cluster fs \<rparr>
     else \<lparr> is_root_fixed = True, dir_cluster = 0 \<rparr>)"

definition entry_at :: "u8 list \<Rightarrow> nat \<Rightarrow> fat_entry" where
  "entry_at buf e = take 32 (drop (32 * e) buf)"

text \<open>The slots of a root sector and of a directory cluster.\<close>

definition sector_slots :: "u32 \<Rightarrow> u8 list \<Rightarrow> slot list" where
  "sector_slots cur_sec sector = map (\<lambda>e. (entry_at sector e, cur_sec, e)) [0..<16]"

definition cluster_slots :: "'w fat_fs \<Rightarrow> u32 \<Rightarrow> u8 list \<Rightarrow> slot list" where
  "cluster_slots fs cluster buf =
    map (\<lambda>e. (entry_at buf e, cluster_sector fs cluster + of_nat (e * 32 div unat (fs_bytes_per_sector fs)),
              e mod (unat (fs_bytes_per_sector fs) div 32)))
      [0..<unat (fs_bytes_per_cluster fs) div 32]"

definition max_root_sectors :: "'w fat_fs \<Rightarrow> nat" where
  "max_root_sectors fs = (if fs_root_dir_sectors fs < 1024 then unat (fs_root_dir_sectors fs) else 1024)"

text \<open>The slots of the fixed root directory, sector after sector until one cannot be read.\<close>

fun root_slots :: "'w fat_fs \<Rightarrow> 'w \<Rightarrow> u32 \<Rightarrow> nat \<Rightarrow> slot list" where
  "root_slots fs w cur_sec 0 = []"
| "root_slots fs w cur_sec (Suc n) =
    (case bd_read (fs_bdev fs) w cur_sec 1 of
       None \<Rightarrow> []
     | Some sector \<Rightarrow> sector_slots cur_sec sector @ root_slots fs w (cur_sec + 1) n)"

text \<open>The slots of a directory stored in clusters, along its chain, at most \<open>n\<close> clusters.\<close>

fun chain_slots :: "'w fat_fs \<Rightarrow> 'w \<Rightarrow> nat \<Rightarrow> u32 \<Rightarrow> slot list" where
  "chain_slots fs w 0 cur = []"
| "chain_slots fs w (Suc n) cur =
    (if cur \<ge> 2 \<and> cur < fat_eof_limit fs then
       (case read_cluster fs w cur of
          None \<Rightarrow> []
        | Some buf \<Rightarrow> cluster_slots fs cur buf @
            (let next = get_next_cluster fs w cur
             in if next = cur \<or> next < 2 then [] else chain_slots fs w n next))
     else [])"

text \<open>The slots a reading loop over a directory sees, or \<open>None\<close> where the sources return at once.\<close>

definition dir_slots :: "(u32 \<Rightarrow> bool) \<Rightarrow> 'w fat_fs \<Rightarrow> 'w \<Rightarrow> fat_dir \<Rightarrow> slot list option" where
  "dir_slots km fs w dir =
    (if is_root_fixed dir then Some (root_slots fs w (fs_root_dir_start_sector fs) (max_root_sectors fs))
     else if dir_cluster dir < 2 \<or> fs_bytes_per_cluster fs = 0 \<or> \<not> km (fs_bytes_per_cluster fs) then None
     else Some (chain_slots fs w 65536 (dir_cluster dir)))"

section \<open>Finding an entry\<close>

record fat_entry_loc =
  loc_entry :: fat_entry
  loc_sector :: u32
  loc_slot :: nat
  loc_has_lfn :: bool
  loc_lfn_start_sec :: u32
  loc_lfn_start_slot :: int
  loc_lfn_count :: int
  loc_lfn_name :: "u8 list"

definition lfn_ready :: "lfn_parser \<Rightarrow> bool" where
  "lfn_ready p \<longleftrightarrow> lp_has_lfn p \<and> lp_is_valid p"

text \<open>Entries that are not files: long-name parts and the volume label.\<close>

definition not_a_file :: "fat_entry \<Rightarrow> bool" where
  "not_a_file e \<longleftrightarrow> de_attr e = FAT_ATTR_LFN \<or> de_attr e AND FAT_ATTR_VOLUME_ID \<noteq> 0"

definition name_matches :: "lfn_parser \<Rightarrow> fat_entry \<Rightarrow> u8 list \<Rightarrow> bool" where
  "name_matches p e name \<longleftrightarrow>
     lfn_ready p \<and> fat_name_equals (lp_name p) name \<or> fat_name_equals (format_fat_name (de_name e)) name"

definition entry_location :: "lfn_parser \<Rightarrow> slot \<Rightarrow> fat_entry_loc" where
  "entry_location p s = (case s of (e, sec, slot) \<Rightarrow>
    \<lparr> loc_entry = e, loc_sector = sec, loc_slot = slot, loc_has_lfn = lfn_ready p,
      loc_lfn_start_sec = lp_start_sec p, loc_lfn_start_slot = lp_start_slot p, loc_lfn_count = lp_total p,
      loc_lfn_name = take 255 (cstr (if lfn_ready p then lp_name p else format_fat_name (de_name e))) \<rparr>)"

fun find_in_slots :: "u8 list \<Rightarrow> lfn_parser \<Rightarrow> slot list \<Rightarrow> fat_entry_loc option" where
  "find_in_slots name p [] = None"
| "find_in_slots name p ((e, sec, slot) # rest) =
    (if byte_at e 0 = 0x00 then None
     else if byte_at e 0 = 0xE5 then find_in_slots name lfn_parser_reset rest
     else let p' = lfn_parser_feed p e sec (int slot)
       in if not_a_file e then find_in_slots name p' rest
          else if name_matches p' e name then Some (entry_location p' (e, sec, slot))
          else find_in_slots name lfn_parser_reset rest)"

definition fat_dir_find_entry ::
  "(u32 \<Rightarrow> bool) \<Rightarrow> 'w fat_fs \<Rightarrow> 'w \<Rightarrow> fat_dir \<Rightarrow> u8 list \<Rightarrow> fat_entry_loc option" where
  "fat_dir_find_entry km fs w dir name =
    (case dir_slots km fs w dir of None \<Rightarrow> None | Some ss \<Rightarrow> find_in_slots name lfn_parser_reset ss)"

definition entry_cluster :: "fat_entry \<Rightarrow> u32" where
  "entry_cluster e = push_bit 16 (ucast (de_fst_clus_hi e)) OR ucast (de_fst_clus_lo e)"

section \<open>Room for a new entry\<close>

text \<open>The first run of free slots that is long enough; \<open>run\<close> is where the current run began and how
  many slots it has.\<close>

fun find_run :: "nat \<Rightarrow> (u32 \<times> nat) \<times> nat \<Rightarrow> slot list \<Rightarrow> (u32 \<times> nat) option" where
  "find_run num_slots run [] = None"
| "find_run num_slots (start, count) ((e, sec, slot) # rest) =
    (if byte_at e 0 = 0x00 \<or> byte_at e 0 = 0xE5 then
       (let start' = (if count = 0 then (sec, slot) else start)
        in if count + 1 \<ge> num_slots then Some start' else find_run num_slots (start', count + 1) rest)
     else find_run num_slots (start, 0) rest)"

text \<open>The last cluster the walk along a directory entered.\<close>

fun chain_last :: "'w fat_fs \<Rightarrow> 'w \<Rightarrow> nat \<Rightarrow> u32 \<Rightarrow> u32 \<Rightarrow> u32" where
  "chain_last fs w 0 cur prev = prev"
| "chain_last fs w (Suc n) cur prev =
    (if cur \<ge> 2 \<and> cur < fat_eof_limit fs then
       (case read_cluster fs w cur of
          None \<Rightarrow> cur
        | Some buf \<Rightarrow>
            (let next = get_next_cluster fs w cur
             in if next = cur \<or> next < 2 then cur else chain_last fs w n next cur))
     else prev)"

text \<open>A new cluster, zeroed and linked behind the directory.\<close>

definition grow_dir :: "(u32 \<Rightarrow> bool) \<Rightarrow> 'w fat_fs \<Rightarrow> 'w \<Rightarrow> u32 \<Rightarrow> 'w \<times> (u32 \<times> nat) option" where
  "grow_dir km fs w last_cluster =
    (case alloc_free_cluster fs w of (w1, new_c) \<Rightarrow>
      if new_c = 0 then (w1, None)
      else let w2 = fst (set_fat_entry fs w1 last_cluster new_c);
               w3 = (if km (fs_bytes_per_cluster fs)
                     then fst (write_cluster fs w2 new_c (replicate (unat (fs_bytes_per_cluster fs)) 0))
                     else w2)
           in (w3, Some (cluster_sector fs new_c, 0)))"

text \<open>The slot to write to, and the entry that is already there: \<open>None\<close> for a failure.\<close>

definition fat_dir_find_or_alloc_lfn_slots ::
  "(u32 \<Rightarrow> bool) \<Rightarrow> 'w fat_fs \<Rightarrow> 'w \<Rightarrow> fat_dir \<Rightarrow> u8 list \<Rightarrow> nat
     \<Rightarrow> 'w \<times> ((u32 \<times> nat) \<times> fat_entry_loc option) option" where
  "fat_dir_find_or_alloc_lfn_slots km fs w dir name num_slots =
    (case fat_dir_find_entry km fs w dir name of
       Some loc \<Rightarrow> (w, Some ((loc_sector loc, loc_slot loc), Some loc))
     | None \<Rightarrow>
        (case dir_slots km fs w dir of
           None \<Rightarrow> (w, None)
         | Some ss \<Rightarrow>
            (case find_run num_slots ((0, 0), 0) ss of
               Some place \<Rightarrow> (w, Some (place, None))
             | None \<Rightarrow>
                 if is_root_fixed dir then (w, None)
                 else (case grow_dir km fs w (chain_last fs w 65536 (dir_cluster dir) 0) of
                         (w', None) \<Rightarrow> (w', None)
                       | (w', Some place) \<Rightarrow> (w', Some (place, None))))))"

section \<open>Writing an entry\<close>

definition put_entry :: "u8 list \<Rightarrow> nat \<Rightarrow> fat_entry \<Rightarrow> u8 list" where
  "put_entry buf slot e = take (32 * slot) buf @ e @ drop (32 * slot + 32) buf"

text \<open>The loop over the long-name entries, from the last to the first, with the sector buffered; the
  sector is written when its slots are used up. \<open>None\<close> is a device error.\<close>

fun write_lfn_loop ::
  "'w fat_fs \<Rightarrow> u8 list \<Rightarrow> u8 \<Rightarrow> nat \<Rightarrow> nat \<Rightarrow> 'w \<Rightarrow> u32 \<Rightarrow> nat \<Rightarrow> u8 list
     \<Rightarrow> 'w \<times> (u32 \<times> nat \<times> u8 list) option" where
  "write_lfn_loop fs name chk num_lfn 0 w sec slot buf = (w, Some (sec, slot, buf))"
| "write_lfn_loop fs name chk num_lfn (Suc k) w sec slot buf =
    (let buf' = put_entry buf slot (lfn_entry name chk num_lfn (Suc k))
     in if slot + 1 \<ge> unat (fs_bytes_per_sector fs) div 32 then
          (case bd_write (fs_bdev fs) w sec 1 buf' of (w', res) \<Rightarrow>
             if res \<noteq> 0 then (w', None)
             else (case bd_read (fs_bdev fs) w' (sec + 1) 1 of
                     None \<Rightarrow> (w', None)
                   | Some buf'' \<Rightarrow> write_lfn_loop fs name chk num_lfn k w' (sec + 1) 0 buf''))
        else write_lfn_loop fs name chk num_lfn k w sec (slot + 1) buf')"

definition num_lfn_slots :: "u8 list \<Rightarrow> nat" where
  "num_lfn_slots name = (if fat_needs_lfn name then (length name + 12) div 13 else 0)"

definition fat_write_lfn_and_short_entry ::
  "'w fat_fs \<Rightarrow> 'w \<Rightarrow> u32 \<Rightarrow> nat \<Rightarrow> u8 list \<Rightarrow> u8 list \<Rightarrow> fat_entry \<Rightarrow> 'w \<times> int" where
  "fat_write_lfn_and_short_entry fs w start_sec start_slot long_name short_11 short_entry =
    (let num_lfn = num_lfn_slots long_name;
         chk = fat_lfn_checksum short_11
     in case bd_read (fs_bdev fs) w start_sec 1 of
          None \<Rightarrow> (w, -1)
        | Some buf \<Rightarrow>
           (case write_lfn_loop fs long_name chk num_lfn num_lfn w start_sec start_slot buf of
              (w', None) \<Rightarrow> (w', -1)
            | (w', Some (sec, slot, buf')) \<Rightarrow>
                bd_write (fs_bdev fs) w' sec 1 (put_entry buf' slot (short_11 @ drop 11 short_entry))))"

text \<open>A fresh directory entry with an empty name: its attribute, first cluster and size.\<close>

definition new_entry :: "u8 \<Rightarrow> u32 \<Rightarrow> u32 \<Rightarrow> fat_entry" where
  "new_entry attr cluster sz =
     put32 (put16 (put16 ((replicate 32 0)[11 := attr]) 26 (ucast (cluster AND 0xFFFF)))
       20 (ucast (drop_bit 16 cluster AND 0xFFFF))) 28 sz"

text \<open>The search for an unused alias: at most 99 tries, the last one kept if none is free. The name
  looked up is the padded field itself.\<close>

fun alias_loop :: "(u32 \<Rightarrow> bool) \<Rightarrow> 'w fat_fs \<Rightarrow> 'w \<Rightarrow> fat_dir \<Rightarrow> u8 list \<Rightarrow> nat \<Rightarrow> nat \<Rightarrow> u8 list \<Rightarrow> u8 list" where
  "alias_loop km fs w dir name k 0 prev = prev"
| "alias_loop km fs w dir name k (Suc n) prev =
    (let a = fat_generate_short_alias name (of_nat k)
     in if fat_dir_find_entry km fs w dir a = None then a else alias_loop km fs w dir name (k + 1) n a)"

definition choose_short_name :: "(u32 \<Rightarrow> bool) \<Rightarrow> 'w fat_fs \<Rightarrow> 'w \<Rightarrow> fat_dir \<Rightarrow> u8 list \<Rightarrow> u8 list" where
  "choose_short_name km fs w dir name =
    (if num_lfn_slots name > 0 then alias_loop km fs w dir name 1 99 [] else to_fat_83_name name)"

section \<open>Paths\<close>

text \<open>The directory an entry points to; cluster numbers below 2 stand for the root.\<close>

definition enter_dir :: "'w fat_fs \<Rightarrow> u32 \<Rightarrow> fat_dir" where
  "enter_dir fs clus = (if clus < 2 then fat_root_dir fs else \<lparr> is_root_fixed = False, dir_cluster = clus \<rparr>)"

definition is_root :: "'w fat_fs \<Rightarrow> fat_dir \<Rightarrow> bool" where
  "is_root fs d \<longleftrightarrow> is_root_fixed d \<or> fs_type fs = FAT_TYPE_FAT32 \<and> dir_cluster d = fs_root_cluster fs"

text \<open>The step of the component \<open>..\<close>.\<close>

definition parent_dir :: "(u32 \<Rightarrow> bool) \<Rightarrow> 'w fat_fs \<Rightarrow> 'w \<Rightarrow> fat_dir \<Rightarrow> fat_dir" where
  "parent_dir km fs w cur_dir =
    (if is_root fs cur_dir then fat_root_dir fs
     else case fat_dir_find_entry km fs w cur_dir (bytes ''..'') of
         Some ploc \<Rightarrow>
           (let pclus = entry_cluster (loc_entry ploc)
            in if pclus = 0 \<or> (fs_type fs = FAT_TYPE_FAT32 \<and> pclus = fs_root_cluster fs) then fat_root_dir fs
               else \<lparr> is_root_fixed = False, dir_cluster = pclus \<rparr>)
       | None \<Rightarrow> fat_root_dir fs)"

lemma component_shrinks:
  assumes "p \<noteq> []" and "co = take 255 (takeWhile (\<lambda>c. \<not> is_slash c) p)"
  shows "length (dropWhile is_slash (drop (length co) p)) < length p"
proof (cases "is_slash (hd p)")
  case True
  then show ?thesis using assms length_dropWhile_le [of is_slash "tl p"] by (cases p) auto
next
  case False
  then have "0 < length co" using assms by (cases p) auto
  moreover have "length (dropWhile is_slash (drop (length co) p)) \<le> length p - length co"
    using length_dropWhile_le [of is_slash "drop (length co) p"] by simp
  moreover have "0 < length p" using assms(1) by simp
  ultimately show ?thesis by linarith
qed

text \<open>The loop over the components of a path, at most 255 bytes each.\<close>

function resolve_loop :: "(u32 \<Rightarrow> bool) \<Rightarrow> 'w fat_fs \<Rightarrow> 'w \<Rightarrow> u8 list \<Rightarrow> fat_dir \<Rightarrow> fat_dir option" where
  "resolve_loop km fs w p cur_dir =
    (if p = [] then Some cur_dir
     else let comp = take 255 (takeWhile (\<lambda>c. \<not> is_slash c) p);
              p' = dropWhile is_slash (drop (length comp) p)
          in if comp = [] \<or> comp = bytes ''.'' then resolve_loop km fs w p' cur_dir
             else if comp = bytes ''..'' then resolve_loop km fs w p' (parent_dir km fs w cur_dir)
             else case fat_dir_find_entry km fs w cur_dir comp of
                 None \<Rightarrow> None
               | Some loc \<Rightarrow>
                   if de_attr (loc_entry loc) AND FAT_ATTR_DIRECTORY = 0 then None
                   else resolve_loop km fs w p' (enter_dir fs (entry_cluster (loc_entry loc))))"
  by auto
termination
  by (relation "measure (\<lambda>(km, fs, w, p, d). length p)") (simp_all only: in_measure split_conv wf_measure component_shrinks not_False_eq_True)

declare resolve_loop.simps [simp del]

definition fat_resolve_dir :: "(u32 \<Rightarrow> bool) \<Rightarrow> 'w fat_fs \<Rightarrow> 'w \<Rightarrow> u8 list \<Rightarrow> fat_dir option" where
  "fat_resolve_dir km fs w path = resolve_loop km fs w (dropWhile is_slash path) (fat_root_dir fs)"

text \<open>The loop that strips trailing slashes keeps a single character.\<close>

fun strip_slashes :: "u8 list \<Rightarrow> u8 list" where
  "strip_slashes (c # d # p) = c # rev (dropWhile is_slash (rev (d # p)))"
| "strip_slashes p = p"

definition fat_resolve_parent_and_name ::
  "(u32 \<Rightarrow> bool) \<Rightarrow> 'w fat_fs \<Rightarrow> 'w \<Rightarrow> u8 list \<Rightarrow> (fat_dir \<times> u8 list) option" where
  "fat_resolve_parent_and_name km fs w path =
    (if path = [] then None
     else let clean_path = strip_slashes (take 511 path);
              name = rev (takeWhile (\<lambda>c. \<not> is_slash c) (rev clean_path));
              parent = rev (tl (dropWhile (\<lambda>c. \<not> is_slash c) (rev clean_path)))
          in if \<not> (\<exists>c\<in>set clean_path. is_slash c) then Some (fat_root_dir fs, take 255 clean_path)
             else if parent = [] then Some (fat_root_dir fs, take 255 name)
             else map_option (\<lambda>d. (d, take 255 name)) (fat_resolve_dir km fs w parent))"

end
