(* ===== verification/Fat_Files.thy ===== *)
theory Fat_Files
  imports Fat_Dir
begin

text \<open>
  The file operations of the FAT driver, the rest of \<open>src/fs/fat.c\<close>: listing, status, reading,
  writing, copying, making directories and removing.

  Results follow the sources' return values: an optional value where a negative result is the only
  other outcome, the new state with the status otherwise. The recursions over directory trees
  carry a depth; \<open>None\<close> means that the tree is deeper.
\<close>

section \<open>Listing and status\<close>

text \<open>What the listing shows of an entry: name, directory flag, size.\<close>

type_synonym dir_item = "u8 list \<times> bool \<times> u32"

definition display_name :: "lfn_parser \<Rightarrow> fat_entry \<Rightarrow> u8 list" where
  "display_name p e = (if lfn_ready p \<and> byte_at (lp_name p) 0 \<noteq> 0 then cstr (lp_name p)
     else format_fat_name (de_name e))"

definition is_directory :: "fat_entry \<Rightarrow> bool" where
  "is_directory e \<longleftrightarrow> de_attr e AND FAT_ATTR_DIRECTORY \<noteq> 0"

fun list_slots :: "lfn_parser \<Rightarrow> slot list \<Rightarrow> dir_item list" where
  "list_slots p [] = []"
| "list_slots p ((e, sec, slot) # rest) =
    (if byte_at e 0 = 0x00 then []
     else if byte_at e 0 = 0xE5 then list_slots lfn_parser_reset rest
     else let p' = lfn_parser_feed p e sec (int slot)
       in if not_a_file e then list_slots p' rest
          else (display_name p' e, is_directory e, de_file_size e) # list_slots lfn_parser_reset rest)"

definition fat_list_items :: "(u32 \<Rightarrow> bool) \<Rightarrow> 'w fat_fs \<Rightarrow> 'w \<Rightarrow> u8 list \<Rightarrow> dir_item list option" where
  "fat_list_items km fs w path =
    (case (if path = [] \<or> path = bytes ''/'' then Some (fat_root_dir fs) else fat_resolve_dir km fs w path) of
       None \<Rightarrow> None
     | Some dir \<Rightarrow> map_option (list_slots lfn_parser_reset) (dir_slots km fs w dir))"

definition fat_list_dir :: "(u32 \<Rightarrow> bool) \<Rightarrow> 'w fat_fs \<Rightarrow> 'w \<Rightarrow> u8 list \<Rightarrow> int" where
  "fat_list_dir km fs w path = (case fat_list_items km fs w path of None \<Rightarrow> -1 | Some items \<Rightarrow> int (length items))"

definition fat_list_root :: "(u32 \<Rightarrow> bool) \<Rightarrow> 'w fat_fs \<Rightarrow> 'w \<Rightarrow> int" where
  "fat_list_root km fs w = fat_list_dir km fs w (bytes ''/'')"

definition fat_is_dir :: "(u32 \<Rightarrow> bool) \<Rightarrow> 'w fat_fs \<Rightarrow> 'w \<Rightarrow> u8 list \<Rightarrow> int" where
  "fat_is_dir km fs w path = (if fat_resolve_dir km fs w path \<noteq> None then 1 else 0)"

text \<open>The entry a path names, with the directory it stands in.\<close>

definition lookup_path :: "(u32 \<Rightarrow> bool) \<Rightarrow> 'w fat_fs \<Rightarrow> 'w \<Rightarrow> u8 list \<Rightarrow> fat_entry_loc option" where
  "lookup_path km fs w path =
    (case fat_resolve_parent_and_name km fs w path of
       None \<Rightarrow> None | Some (dir, name) \<Rightarrow> fat_dir_find_entry km fs w dir name)"

definition fat_stat :: "(u32 \<Rightarrow> bool) \<Rightarrow> 'w fat_fs \<Rightarrow> 'w \<Rightarrow> u8 list \<Rightarrow> (u32 \<times> u8) option" where
  "fat_stat km fs w path =
    (if path = [] \<or> path = bytes ''/'' \<or> path = [0x5C] then Some (0, FAT_ATTR_DIRECTORY)
     else map_option (\<lambda>loc. (de_file_size (loc_entry loc), de_attr (loc_entry loc))) (lookup_path km fs w path))"

section \<open>Reading\<close>

text \<open>The loop that copies cluster after cluster: \<open>acc\<close> is what has been copied, \<open>n\<close> bounds the
  clusters visited.\<close>

primrec read_loop :: "'w fat_fs \<Rightarrow> 'w \<Rightarrow> nat \<Rightarrow> nat \<Rightarrow> u32 \<Rightarrow> u8 list \<Rightarrow> u8 list" where
  "read_loop fs w to_read 0 cur acc = acc"
| "read_loop fs w to_read (Suc n) cur acc =
    (if cur \<ge> 2 \<and> cur < fat_eof_limit fs \<and> length acc < to_read then
       (case read_cluster fs w cur of
          None \<Rightarrow> acc
        | Some buf \<Rightarrow>
           (let chunk = min (unat (fs_bytes_per_cluster fs)) (to_read - length acc);
                acc' = acc @ take chunk buf
            in if chunk = 0 then acc
               else if length acc' \<ge> to_read then acc'
               else let next = get_next_cluster fs w cur
                    in if next = cur \<or> next < 2 then acc' else read_loop fs w to_read n next acc'))
     else acc)"

definition fat_read_file :: "(u32 \<Rightarrow> bool) \<Rightarrow> 'w fat_fs \<Rightarrow> 'w \<Rightarrow> u8 list \<Rightarrow> nat \<Rightarrow> u8 list option" where
  "fat_read_file km fs w path max_len =
    (case lookup_path km fs w path of
       None \<Rightarrow> None
     | Some loc \<Rightarrow>
        (let e = loc_entry loc;
             to_read = min (unat (de_file_size e)) max_len
         in if is_directory e then None
            else if to_read = 0 \<or> entry_cluster e < 2 then Some []
            else if fs_bytes_per_cluster fs = 0 \<or> \<not> km (fs_bytes_per_cluster fs) then None
            else Some (read_loop fs w to_read 65536 (entry_cluster e) [])))"

section \<open>Writing\<close>

text \<open>The loop that writes \<open>data\<close>, following the chain of the file and extending it where it ends.
  It makes at most one step per byte and one more, so \<open>length data + 1\<close> steps are enough; \<open>None\<close>
  would be a loop that needs more.\<close>

primrec write_loop :: "'w fat_fs \<Rightarrow> u8 list \<Rightarrow> nat \<Rightarrow> 'w \<Rightarrow> nat \<Rightarrow> u32 \<Rightarrow> ('w \<times> int) option" where
  "write_loop fs data 0 w written cur = None"
| "write_loop fs data (Suc n) w written cur =
    (if written < length data \<or> written = 0 then
       (let bpc = unat (fs_bytes_per_cluster fs);
            chunk = min bpc (length data - written);
            buf = take chunk (drop written data) @ replicate (bpc - chunk) 0;
            written' = written + (if chunk > 0 then chunk else bpc)
        in case write_cluster fs w cur buf of (w1, res) \<Rightarrow>
             if res \<noteq> 0 then Some (w1, -1)
             else if written' \<ge> length data then Some (fst (set_fat_entry fs w1 cur (fat_eof_val fs)), 0)
             else let next = get_next_cluster fs w1 cur
                  in if next < 2 \<or> next \<ge> fat_eof_limit fs then
                       (case alloc_free_cluster fs w1 of (w2, new) \<Rightarrow>
                          if new = 0 then Some (w2, -1)
                          else write_loop fs data n (fst (set_fat_entry fs w2 cur new)) written' new)
                     else write_loop fs data n w1 written' next)
     else Some (w, 0))"

text \<open>The directory entry of an existing file, rewritten in its sector.\<close>

definition update_entry :: "'w fat_fs \<Rightarrow> 'w \<Rightarrow> fat_entry_loc \<Rightarrow> u32 \<Rightarrow> u32 \<Rightarrow> 'w \<times> int" where
  "update_entry fs w loc first_cluster len =
    (case bd_read (fs_bdev fs) w (loc_sector loc) 1 of
       None \<Rightarrow> (w, -1)
     | Some sec_buf \<Rightarrow>
        (let o' = 32 * loc_slot loc
         in bd_write (fs_bdev fs) w (loc_sector loc) 1
              (put32 (put16 (put16 (sec_buf[o' + 11 := FAT_ATTR_ARCHIVE])
                (o' + 26) (ucast (first_cluster AND 0xFFFF)))
                (o' + 20) (ucast (drop_bit 16 first_cluster AND 0xFFFF))) (o' + 28) len)))"

definition fat_write_file :: "(u32 \<Rightarrow> bool) \<Rightarrow> 'w fat_fs \<Rightarrow> 'w \<Rightarrow> u8 list \<Rightarrow> u8 list \<Rightarrow> 'w \<times> int" where
  "fat_write_file km fs w path data =
    (case fat_resolve_parent_and_name km fs w path of
       None \<Rightarrow> (w, -1)
     | Some (dir, name) \<Rightarrow>
        (case fat_dir_find_or_alloc_lfn_slots km fs w dir name (num_lfn_slots name + 1) of
           (w1, None) \<Rightarrow> (w1, -1)
         | (w1, Some ((sec, slot), existing)) \<Rightarrow>
            if (case existing of Some loc \<Rightarrow> is_directory (loc_entry loc) | None \<Rightarrow> False) then (w1, -1)
            else
             (let old = (case existing of Some loc \<Rightarrow> entry_cluster (loc_entry loc) | None \<Rightarrow> 0);
                  (w2, first) = (if old < 2 then alloc_free_cluster fs w1 else (w1, old))
              in if old < 2 \<and> first = 0 then (w2, -1)
                 else if \<not> km (fs_bytes_per_cluster fs) then (w2, -1)
                 else case write_loop fs data (length data + 1) w2 0 first of
                     None \<Rightarrow> (w2, -1)
                   | Some (w3, res) \<Rightarrow>
                      if res \<noteq> 0 then (w3, -1)
                      else (case existing of
                          Some loc \<Rightarrow> update_entry fs w3 loc first (of_nat (length data))
                        | None \<Rightarrow>
                            fat_write_lfn_and_short_entry fs w3 sec slot name (choose_short_name km fs w3 dir name)
                              (new_entry FAT_ATTR_ARCHIVE first (of_nat (length data)))))))"

definition fat_copy_file ::
  "(u32 \<Rightarrow> bool) \<Rightarrow> 'w \<Rightarrow> 'w fat_fs \<Rightarrow> u8 list \<Rightarrow> 'w fat_fs \<Rightarrow> u8 list \<Rightarrow> 'w \<times> int" where
  "fat_copy_file km w src_fs src_path dst_fs dst_path =
    (case fat_stat km src_fs w src_path of
       None \<Rightarrow> (w, -1)
     | Some (sz, attr) \<Rightarrow>
        if attr AND FAT_ATTR_DIRECTORY \<noteq> 0 then (w, -2)
        else if sz = 0 then fat_write_file km dst_fs w dst_path []
        else if \<not> km sz then (w, -3)
        else (case fat_read_file km src_fs w src_path (unat sz) of
                None \<Rightarrow> (w, -1)
              | Some data \<Rightarrow> fat_write_file km dst_fs w dst_path data))"

text \<open>The two dot entries at the start of a new directory's cluster.\<close>

definition dot_entries :: "u32 \<Rightarrow> u32 \<Rightarrow> u8 list" where
  "dot_entries new_cluster parent_cluster =
     field 11 (bytes ''.'') @ drop 11 (new_entry FAT_ATTR_DIRECTORY new_cluster 0)
     @ field 11 (bytes ''..'') @ drop 11 (new_entry FAT_ATTR_DIRECTORY parent_cluster 0)"

definition fat_mkdir :: "(u32 \<Rightarrow> bool) \<Rightarrow> 'w fat_fs \<Rightarrow> 'w \<Rightarrow> u8 list \<Rightarrow> 'w \<times> int" where
  "fat_mkdir km fs w path =
    (if path = [] then (w, -1)
     else case fat_resolve_parent_and_name km fs w path of
       None \<Rightarrow> (w, -1)
     | Some (dir, name) \<Rightarrow>
        if name = [] \<or> name = bytes ''.'' \<or> name = bytes ''..'' then (w, -1)
        else (case fat_dir_find_or_alloc_lfn_slots km fs w dir name (num_lfn_slots name + 1) of
           (w1, None) \<Rightarrow> (w1, -1)
         | (w1, Some ((sec, slot), Some loc)) \<Rightarrow> (w1, -2)
         | (w1, Some ((sec, slot), None)) \<Rightarrow>
            (case alloc_free_cluster fs w1 of (w2, new) \<Rightarrow>
               if new = 0 then (w2, -1)
               else if \<not> km (fs_bytes_per_cluster fs) then (w2, -1)
               else
                (let parent = (if is_root fs dir then 0 else dir_cluster dir);
                     buf = dot_entries new parent
                 in case write_cluster fs w2 new (buf @ replicate (unat (fs_bytes_per_cluster fs) - length buf) 0) of
                      (w3, res) \<Rightarrow>
                        if res \<noteq> 0 then (w3, -1)
                        else fat_write_lfn_and_short_entry fs w3 sec slot name
                          (choose_short_name km fs w3 dir name) (new_entry FAT_ATTR_DIRECTORY new 0)))))"

end
