(* ===== verification/Fat_Data.thy ===== *)
theory Fat_Data
  imports Fat_Chains Fat_Files
begin

text \<open>
  The data of files: what \<open>fat_read_file\<close> copies is the contents of the file's chain, and what
  \<open>fat_write_file\<close> stores is read back.
\<close>

section \<open>Reading along a chain\<close>

definition chain_bytes :: "'w fat_fs \<Rightarrow> ('w \<Rightarrow> u32 \<Rightarrow> u8 list) \<Rightarrow> 'w \<Rightarrow> u32 list \<Rightarrow> u8 list" where
  "chain_bytes fs sect w cs = concat (map (cluster_bytes fs sect w) cs)"

lemma chain_bytes_simps [simp]:
  "chain_bytes fs sect w [] = []"
  "chain_bytes fs sect w (c # cs) = cluster_bytes fs sect w c @ chain_bytes fs sect w cs"
  "chain_bytes fs sect w (cs @ ds) = chain_bytes fs sect w cs @ chain_bytes fs sect w ds"
  by (simp_all add: chain_bytes_def)

lemma valid_csize:
  "valid_cluster fs sect nsec c \<Longrightarrow> length (cluster_bytes fs sect w c) = unat (fs_bytes_per_cluster fs)"
  "valid_cluster fs sect nsec c \<Longrightarrow> 512 * unat (fs_sectors_per_cluster fs) = unat (fs_bytes_per_cluster fs)"
  "valid_cluster fs sect nsec c \<Longrightarrow> 0 < unat (fs_bytes_per_cluster fs)"
  using cluster_bytes_length [of fs sect nsec c w] valid_clusterD(2) [of fs sect nsec c]
  by (simp_all add: volume_ok_def)

lemma chain_bytes_length:
  "\<forall>c\<in>set cs. valid_cluster fs sect nsec c \<Longrightarrow>
     length (chain_bytes fs sect w cs) = unat (fs_bytes_per_cluster fs) * length cs"
  by (induction cs) (auto simp: valid_csize(1))

lemma read_loop_chain:
  assumes "fat_chain fs sect nsec w (c # cs)" and "length (c # cs) \<le> n" and "length acc < to_read"
    and "to_read - length acc \<le> unat (fs_bytes_per_cluster fs) * length (c # cs)"
  shows "read_loop fs w to_read n c acc
    = acc @ take (to_read - length acc) (chain_bytes fs sect w (c # cs))"
  using assms
proof (induction cs arbitrary: c n acc)
  case Nil
  then obtain m where n: "n = Suc m" by (cases n) auto
  note h = fat_chain_hd [OF Nil.prems(1)] and v = valid_csize [OF fat_chain_hd(1) [OF Nil.prems(1)]]
  let ?k = "to_read - length acc"
  have k: "min (unat (fs_bytes_per_cluster fs)) ?k = ?k" "0 < ?k" using Nil.prems(3,4) by auto
  have "length (take ?k (cluster_bytes fs sect w c)) = ?k" using v(1) [of w] Nil.prems(4) by simp
  with k n h Nil.prems(3) read_cluster_eq [OF h(1), of w] show ?case by (simp add: Let_def)
next
  case (Cons d ds)
  then obtain m where n: "n = Suc m" by (cases n) auto
  note h = fat_chain_hd [OF Cons.prems(1)] and v = valid_csize [OF fat_chain_hd(1) [OF Cons.prems(1)]]
  let ?b = "unat (fs_bytes_per_cluster fs)" and ?k = "to_read - length acc"
  note nxt = fat_chain_next [OF Cons.prems(1), simplified]
  have tl: "fat_chain fs sect nsec w (d # ds)" using Cons.prems(1) by (rule fat_chain_tl)
  have d: "d \<noteq> c" "\<not> d < 2" using Cons.prems(1) fat_chain_hd(2) [OF tl] by (auto simp: fat_chain_def)
  show ?case
  proof (cases "?k \<le> ?b")
    case True
    then have "length (take ?k (cluster_bytes fs sect w c)) = ?k" using v(1) [of w] by simp
    with True n h Cons.prems(3) read_cluster_eq [OF h(1), of w] v(1) [of w] show ?thesis
      by (simp add: Let_def min_absorb2)
  next
    case False
    let ?acc = "acc @ cluster_bytes fs sect w c"
    have "\<not> to_read \<le> length acc + ?b" using False by linarith
    then have "read_loop fs w to_read n c acc = read_loop fs w to_read m d ?acc"
      using False n h Cons.prems(3) read_cluster_eq [OF h(1), of w] v(1) [of w] v(3) nxt d
      by (simp add: Let_def min_absorb1)
    also have "\<dots> = ?acc @ take (to_read - length ?acc) (chain_bytes fs sect w (d # ds))"
      using Cons.prems n False v(1) [of w] by (intro Cons.IH [OF tl]) auto
    finally show ?thesis using False v(1) [of w] by simp
  qed
qed

section \<open>Writing along a chain\<close>

text \<open>The chain of a file: well formed, its last entry the end-of-chain mark.\<close>

definition file_chain :: "'w fat_fs \<Rightarrow> ('w \<Rightarrow> u32 \<Rightarrow> u8 list) \<Rightarrow> nat \<Rightarrow> 'w \<Rightarrow> u32 list \<Rightarrow> bool" where
  "file_chain fs sect nsec w cs \<longleftrightarrow>
     chain (fat_entry_of fs sect w) (\<lambda>e. fat_eof_limit fs \<le> e) cs \<and> distinct cs
     \<and> (\<forall>c\<in>set cs. valid_cluster fs sect nsec c)"

lemma chain_weaken: "chain e P cs \<Longrightarrow> (\<And>x. P x \<Longrightarrow> Q x) \<Longrightarrow> chain e Q cs"
  by (induction e P cs rule: chain.induct) auto

lemma file_chain_fat: "file_chain fs sect nsec w cs \<Longrightarrow> fat_chain fs sect nsec w cs"
  by (auto simp: file_chain_def fat_chain_def fat_end_def elim: chain_weaken)

lemma chain_entries:
  "chain e P cs \<Longrightarrow> c \<in> set cs \<Longrightarrow> P (e c) \<or> e c \<in> set cs"
  by (induction e P cs rule: chain.induct) auto

lemma file_chain_used:
  assumes "file_chain fs sect nsec w cs" and "c \<in> set cs"
  shows "fat_entry_of fs sect w c \<noteq> 0"
proof
  assume z: "fat_entry_of fs sect w c = 0"
  have "fat_eof_limit fs \<le> 0 \<or> 0 \<in> set cs"
    using chain_entries [of _ _ cs c] assms z by (fastforce simp: file_chain_def)
  moreover have "\<not> fat_eof_limit fs \<le> 0" by (simp add: fat_eof_limit_def)
  moreover have "\<not> valid_cluster fs sect nsec 0" by (simp add: valid_cluster_def)
  ultimately show False using assms(1) by (auto simp: file_chain_def)
qed

lemma file_chain_suffix:
  "file_chain fs sect nsec w (xs @ c # cs) \<Longrightarrow> file_chain fs sect nsec w (c # cs)"
  by (auto simp: file_chain_def dest: chain_append)

text \<open>What one round of the loop stores in the current cluster.\<close>

definition data_block :: "'w fat_fs \<Rightarrow> u8 list \<Rightarrow> nat \<Rightarrow> u8 list" where
  "data_block fs data written =
    (let bpc = unat (fs_bytes_per_cluster fs); chunk = min bpc (length data - written)
     in take chunk (drop written data) @ replicate (bpc - chunk) 0)"

lemma data_block_length [simp]: "length (data_block fs data written) = unat (fs_bytes_per_cluster fs)"
  by (simp add: data_block_def Let_def)

text \<open>The clusters of \<open>cs\<close> hold the first \<open>written\<close> bytes of the data, in full clusters.\<close>

definition holds_prefix :: "'w fat_fs \<Rightarrow> ('w \<Rightarrow> u32 \<Rightarrow> u8 list) \<Rightarrow> 'w \<Rightarrow> u32 list \<Rightarrow> u8 list \<Rightarrow> nat \<Rightarrow> bool" where
  "holds_prefix fs sect w cs data written \<longleftrightarrow>
     written = unat (fs_bytes_per_cluster fs) * length cs \<and> chain_bytes fs sect w cs = take written data"

text \<open>The state at the head of the loop: the clusters \<open>pre\<close> are written, \<open>cur\<close> is next, and the
  clusters \<open>rest\<close> of the old file follow it.\<close>

definition writing :: "'w fat_fs \<Rightarrow> ('w \<Rightarrow> u32 \<Rightarrow> u8 list) \<Rightarrow> nat \<Rightarrow> 'w \<Rightarrow> u32 list \<Rightarrow> u32 \<Rightarrow> u32 list \<Rightarrow> u8 list \<Rightarrow> nat \<Rightarrow> bool" where
  "writing fs sect nsec w pre cur rest data written \<longleftrightarrow>
     file_chain fs sect nsec w (pre @ cur # rest) \<and> holds_prefix fs sect w pre data written
     \<and> (written < length data \<or> written = 0)"

lemma chain_bytes_cong:
  "(\<And>c. c \<in> set cs \<Longrightarrow> cluster_bytes fs sect w c = cluster_bytes fs sect w' c) \<Longrightarrow>
     chain_bytes fs sect w cs = chain_bytes fs sect w' cs"
  unfolding chain_bytes_def by (intro arg_cong [where f = concat] map_cong) auto

lemma store_block:
  assumes "file_chain fs sect nsec w (pre @ cur # rest)" and "holds_prefix fs sect w pre data written"
    and "w1 = fst (write_cluster fs w cur (data_block fs data written))"
  shows "snd (write_cluster fs w cur (data_block fs data written)) = 0"
    "file_chain fs sect nsec w1 (pre @ cur # rest)"
    "chain_bytes fs sect w1 (pre @ [cur]) = take written data @ data_block fs data written"
    "\<And>d. valid_cluster fs sect nsec d \<Longrightarrow> fat_entry_of fs sect w1 d = fat_entry_of fs sect w d"
    "\<And>d. valid_cluster fs sect nsec d \<Longrightarrow> d \<noteq> cur \<Longrightarrow> cluster_bytes fs sect w1 d = cluster_bytes fs sect w d"
proof -
  have v: "valid_cluster fs sect nsec cur" "\<And>d. d \<in> set (pre @ cur # rest) \<Longrightarrow> valid_cluster fs sect nsec d"
    and cur: "cur \<notin> set pre"
    using assms(1) by (auto simp: file_chain_def)
  have len: "length (data_block fs data written) = 512 * unat (fs_sectors_per_cluster fs)"
    using valid_csize(2) [OF v(1)] by simp
  show "snd (write_cluster fs w cur (data_block fs data written)) = 0"
    by (rule write_cluster_spec(1) [OF v(1) len])
  show "\<And>d. valid_cluster fs sect nsec d \<Longrightarrow> fat_entry_of fs sect w1 d = fat_entry_of fs sect w d"
    unfolding assms(3) by (rule write_cluster_entry [OF v(1) _ len])
  show other: "\<And>d. valid_cluster fs sect nsec d \<Longrightarrow> d \<noteq> cur \<Longrightarrow>
      cluster_bytes fs sect w1 d = cluster_bytes fs sect w d"
    unfolding assms(3) using write_cluster_content [OF v(1) _ len] by simp
  show "file_chain fs sect nsec w1 (pre @ cur # rest)"
    using assms(1) volume.chain_store [OF v(2,1) len] unfolding assms(3) file_chain_def by blast
  have "chain_bytes fs sect w1 pre = chain_bytes fs sect w pre"
    using cur v(2) other by (intro chain_bytes_cong) auto
  moreover have "cluster_bytes fs sect w1 cur = data_block fs data written"
    unfolding assms(3) using write_cluster_content [OF v(1) v(1) len] by simp
  ultimately show "chain_bytes fs sect w1 (pre @ [cur]) = take written data @ data_block fs data written"
    using assms(2) by (simp add: holds_prefix_def)
qed

lemma write_loop_step:
  assumes "written < length data \<or> written = 0" and "0 < unat (fs_bytes_per_cluster fs)"
    and "write_cluster fs w cur (data_block fs data written) = (w1, 0)"
  shows "write_loop fs data (Suc n) w written cur =
    (if length data - written \<le> unat (fs_bytes_per_cluster fs)
     then Some (fst (set_fat_entry fs w1 cur (fat_eof_val fs)), 0)
     else let next = get_next_cluster fs w1 cur; written' = written + unat (fs_bytes_per_cluster fs)
       in if next < 2 \<or> next \<ge> fat_eof_limit fs then
            (case alloc_free_cluster fs w1 of (w2, new) \<Rightarrow>
               if new = 0 then Some (w2, -1)
               else write_loop fs data n (fst (set_fat_entry fs w2 cur new)) written' new)
          else write_loop fs data n w1 written' next)"
proof (cases "length data - written \<le> unat (fs_bytes_per_cluster fs)")
  case True
  then have "length data \<le> written + (if 0 < min (unat (fs_bytes_per_cluster fs)) (length data - written)
      then min (unat (fs_bytes_per_cluster fs)) (length data - written) else unat (fs_bytes_per_cluster fs))"
    using assms(1,2) by auto
  with True assms(1) assms(3) [unfolded data_block_def Let_def] show ?thesis
    by (simp add: Let_def)
next
  case False
  then have m: "min (unat (fs_bytes_per_cluster fs)) (length data - written) = unat (fs_bytes_per_cluster fs)"
    and "\<not> length data \<le> written + unat (fs_bytes_per_cluster fs)" by auto
  with False assms(1,2) assms(3) [unfolded data_block_def Let_def m] show ?thesis
    unfolding write_loop.simps Let_def m by simp
qed

declare write_loop.simps(2) [simp del]

text \<open>How the loop left the volume: the file's clusters hold the data, in as few clusters as it
  needs, and nothing outside them changed.\<close>

definition file_written ::
  "'w fat_fs \<Rightarrow> ('w \<Rightarrow> u32 \<Rightarrow> u8 list) \<Rightarrow> nat \<Rightarrow> 'w \<Rightarrow> 'w \<Rightarrow> u32 list \<Rightarrow> u8 list \<Rightarrow> bool" where
  "file_written fs sect nsec w w' cs data \<longleftrightarrow>
     file_chain fs sect nsec w' cs
     \<and> (\<exists>pad. chain_bytes fs sect w' cs = data @ pad
          \<and> (if data = [] then length cs = 1 else length pad < unat (fs_bytes_per_cluster fs)))
     \<and> (\<forall>d. valid_cluster fs sect nsec d \<and> d \<notin> set cs \<longrightarrow>
          cluster_bytes fs sect w' d = cluster_bytes fs sect w d
          \<and> fat_entry_of fs sect w' d = fat_entry_of fs sect w d)"

definition volume_full :: "'w fat_fs \<Rightarrow> ('w \<Rightarrow> u32 \<Rightarrow> u8 list) \<Rightarrow> 'w \<Rightarrow> bool" where
  "volume_full fs sect w \<longleftrightarrow>
     (\<forall>i < min (unat (fs_total_clusters fs)) 32768. fat_entry_of fs sect w (2 + of_nat i) \<noteq> 0)"

lemma last_block:
  assumes "writing fs sect nsec w pre cur rest data written"
    and "length data - written \<le> unat (fs_bytes_per_cluster fs)"
    and "w1 = fst (write_cluster fs w cur (data_block fs data written))"
  shows "file_written fs sect nsec w (fst (set_fat_entry fs w1 cur (fat_eof_val fs))) (pre @ [cur]) data"
proof -
  let ?w = "fst (set_fat_entry fs w1 cur (fat_eof_val fs))" and ?b = "unat (fs_bytes_per_cluster fs)"
  have fc: "file_chain fs sect nsec w (pre @ cur # rest)" and hp: "holds_prefix fs sect w pre data written"
    and go: "written < length data \<or> written = 0" using assms(1) by (auto simp: writing_def)
  note st = store_block [OF fc hp assms(3)]
  have v: "\<And>d. d \<in> set (pre @ [cur]) \<Longrightarrow> valid_cluster fs sect nsec d" and cur: "valid_cluster fs sect nsec cur"
    and dist: "distinct (pre @ [cur])" using fc by (auto simp: file_chain_def)
  have "fat_eof_limit fs \<le> fat_norm fs (fat_eof_val fs)"
    using norm_eof [OF valid_clusterD(2) [OF cur]] by (simp add: fat_eof_val_def fat_eof_limit_def)
  then have ch: "file_chain fs sect nsec ?w (pre @ [cur])"
    using volume.chain_end_at [of fs sect w1 _ pre cur rest nsec "fat_eof_val fs"] st(2) v dist
    by (auto simp: file_chain_def)
  have "chain_bytes fs sect ?w (pre @ [cur]) = chain_bytes fs sect w1 (pre @ [cur])"
    using set_fat_entry_content [OF cur] v by (intro chain_bytes_cong) auto
  also have "\<dots> = data @ replicate (?b - (length data - written)) 0"
    unfolding st(3) using assms(2) by (simp add: data_block_def Let_def min_absorb2)
  finally have cb: "chain_bytes fs sect ?w (pre @ [cur]) = data @ replicate (?b - (length data - written)) 0" .
  have "data = [] \<Longrightarrow> pre = []"
    using hp go valid_csize(3) [OF cur] by (auto simp: holds_prefix_def)
  moreover have "data \<noteq> [] \<Longrightarrow> ?b - (length data - written) < ?b"
    using go valid_csize(3) [OF cur] by auto
  moreover have "cluster_bytes fs sect ?w d = cluster_bytes fs sect w d
      \<and> fat_entry_of fs sect ?w d = fat_entry_of fs sect w d"
    if "valid_cluster fs sect nsec d" "d \<notin> set (pre @ [cur])" for d
    using that st(4,5) set_fat_entry_content [OF cur that(1)] set_fat_entry_entry [OF cur that(1)] by auto
  ultimately show ?thesis unfolding file_written_def using ch cb by auto
qed

lemma next_block:
  assumes "writing fs sect nsec w pre cur rest data written"
    and "\<not> length data - written \<le> unat (fs_bytes_per_cluster fs)"
    and "w1 = fst (write_cluster fs w cur (data_block fs data written))"
  shows "holds_prefix fs sect w1 (pre @ [cur]) data (written + unat (fs_bytes_per_cluster fs))"
    "written + unat (fs_bytes_per_cluster fs) < length data"
proof -
  let ?b = "unat (fs_bytes_per_cluster fs)"
  have fc: "file_chain fs sect nsec w (pre @ cur # rest)" and hp: "holds_prefix fs sect w pre data written"
    using assms(1) by (auto simp: writing_def)
  have b: "?b \<le> length data - written" using assms(2) by simp
  have "data_block fs data written = take ?b (drop written data)"
    using b by (simp add: data_block_def Let_def min_absorb1)
  then show "holds_prefix fs sect w1 (pre @ [cur]) data (written + ?b)"
    using store_block(3) [OF fc hp assms(3)] hp unfolding holds_prefix_def
    by (simp add: take_add)
  show "written + ?b < length data" using assms(2) by linarith
qed

lemma hang_cluster:
  assumes "file_chain fs sect nsec w (pre @ [cur])" and "valid_cluster fs sect nsec new"
    and "fat_entry_of fs sect w new = 0"
    and "w' = fst (set_fat_entry fs (fst (set_fat_entry fs w new (fat_eof_val fs))) cur new)"
  shows "file_chain fs sect nsec w' (pre @ [cur, new])"
    "\<And>d. valid_cluster fs sect nsec d \<Longrightarrow> cluster_bytes fs sect w' d = cluster_bytes fs sect w d"
    "\<And>d. valid_cluster fs sect nsec d \<Longrightarrow> d \<noteq> cur \<Longrightarrow> d \<noteq> new \<Longrightarrow>
       fat_entry_of fs sect w' d = fat_entry_of fs sect w d"
proof -
  have cur: "valid_cluster fs sect nsec cur" and v: "\<And>d. d \<in> set (pre @ [cur, new]) \<Longrightarrow> valid_cluster fs sect nsec d"
    using assms(1,2) by (auto simp: file_chain_def)
  have "new \<notin> set (pre @ [cur])" using file_chain_used [OF assms(1)] assms(3) by blast
  then have dist: "distinct (pre @ [cur, new])" using assms(1) by (auto simp: file_chain_def)
  have eof: "fat_eof_limit fs \<le> fat_norm fs (fat_eof_val fs)"
    using norm_eof [OF valid_clusterD(2) [OF cur]] by (simp add: fat_eof_val_def fat_eof_limit_def)
  show "file_chain fs sect nsec w' (pre @ [cur, new])"
    using volume.chain_extend [of fs sect w "\<lambda>e. fat_eof_limit fs \<le> e" pre cur new nsec "fat_eof_val fs", OF _ v dist eof norm_valid [OF assms(2)]]
      assms(1) v dist unfolding assms(4) file_chain_def by blast
  show "\<And>d. valid_cluster fs sect nsec d \<Longrightarrow> cluster_bytes fs sect w' d = cluster_bytes fs sect w d"
    using set_fat_entry_content [OF cur] set_fat_entry_content [OF assms(2)] unfolding assms(4) by simp
  show "\<And>d. valid_cluster fs sect nsec d \<Longrightarrow> d \<noteq> cur \<Longrightarrow> d \<noteq> new \<Longrightarrow>
       fat_entry_of fs sect w' d = fat_entry_of fs sect w d"
    using set_fat_entry_entry [OF cur] set_fat_entry_entry [OF assms(2)] unfolding assms(4) by simp
qed

text \<open>Two rounds compose: what is outside the final chain was not touched by the first one.\<close>

lemma file_written_trans:
  assumes "file_written fs sect nsec w1 w2 cs data"
    and "\<And>d. valid_cluster fs sect nsec d \<Longrightarrow> d \<notin> set cs \<Longrightarrow>
      cluster_bytes fs sect w1 d = cluster_bytes fs sect w d \<and> fat_entry_of fs sect w1 d = fat_entry_of fs sect w d"
  shows "file_written fs sect nsec w w2 cs data"
  using assms unfolding file_written_def by auto

text \<open>How the loop ends: the data is stored in a chain that begins with the clusters written so far,
  or the volume is full.\<close>

definition write_outcome ::
  "'w fat_fs \<Rightarrow> ('w \<Rightarrow> u32 \<Rightarrow> u8 list) \<Rightarrow> nat \<Rightarrow> 'w \<Rightarrow> u32 list \<Rightarrow> u8 list \<Rightarrow> ('w \<times> int) option \<Rightarrow> bool" where
  "write_outcome fs sect nsec w pre data r \<longleftrightarrow>
    (\<exists>w' res. r = Some (w', res) \<and>
      (res = 0 \<and> (\<exists>post. file_written fs sect nsec w w' (pre @ post) data) \<or> res = -1 \<and> volume_full fs sect w'))"

lemma write_outcome_trans:
  assumes "write_outcome fs sect nsec w1 (pre @ new) data r"
    and "\<And>d. valid_cluster fs sect nsec d \<Longrightarrow> d \<notin> set (pre @ new) \<Longrightarrow>
      cluster_bytes fs sect w1 d = cluster_bytes fs sect w d \<and> fat_entry_of fs sect w1 d = fat_entry_of fs sect w d"
  shows "write_outcome fs sect nsec w pre data r"
proof -
  from assms(1) obtain w' res where r: "r = Some (w', res)" and
    o: "res = 0 \<and> (\<exists>post. file_written fs sect nsec w1 w' ((pre @ new) @ post) data) \<or> res = -1 \<and> volume_full fs sect w'"
    unfolding write_outcome_def by blast
  from o show ?thesis
  proof
    assume "res = 0 \<and> (\<exists>post. file_written fs sect nsec w1 w' ((pre @ new) @ post) data)"
    then obtain post where "res = 0" "file_written fs sect nsec w1 w' ((pre @ new) @ post) data" by blast
    then have "file_written fs sect nsec w w' (pre @ (new @ post)) data"
      using assms(2) by (auto intro: file_written_trans)
    then show ?thesis using r \<open>res = 0\<close> unfolding write_outcome_def by blast
  next
    assume "res = -1 \<and> volume_full fs sect w'"
    then show ?thesis using r unfolding write_outcome_def by blast
  qed
qed

lemma write_loop_outcome:
  assumes "writing fs sect nsec w pre cur rest data written" and "length data - written < n"
  shows "write_outcome fs sect nsec w (pre @ [cur]) data (write_loop fs data n w written cur)"
  using assms
proof (induction n arbitrary: w pre cur rest written)
  case (Suc n)
  let ?b = "unat (fs_bytes_per_cluster fs)"
  define w1 where "w1 = fst (write_cluster fs w cur (data_block fs data written))"
  have fc: "file_chain fs sect nsec w (pre @ cur # rest)" and hp: "holds_prefix fs sect w pre data written"
    and go: "written < length data \<or> written = 0" using Suc.prems(1) by (auto simp: writing_def)
  note st = store_block [OF fc hp w1_def]
  have cur: "valid_cluster fs sect nsec cur" using fc by (simp add: file_chain_def)
  have b: "0 < ?b" by (rule valid_csize(3) [OF cur])
  have wc: "write_cluster fs w cur (data_block fs data written) = (w1, 0)"
    using st(1) by (simp add: w1_def prod_eq_iff)
  note step = write_loop_step [OF go b wc, of n]
  note frame = st(4,5)
  show ?case
  proof (cases "length data - written \<le> ?b")
    case True
    then show ?thesis using step last_block [OF Suc.prems(1) True w1_def]
      unfolding write_outcome_def by (auto intro: exI [of _ "[]"])
  next
    case False
    note nb = next_block [OF Suc.prems(1) False w1_def]
    have fuel: "length data - (written + ?b) < n" using Suc.prems(2) b nb(2) by linarith
    have nxt: "get_next_cluster fs w1 cur = (if rest = [] then 0xFFFFFFFF else hd rest)"
      by (rule fat_chain_next [OF file_chain_fat [OF file_chain_suffix [OF st(2)]]])
    show ?thesis
    proof (cases rest)
      case (Cons r rs)
      then have r: "valid_cluster fs sect nsec r" using fc by (simp add: file_chain_def)
      then have "write_loop fs data (Suc n) w written cur = write_loop fs data n w1 (written + ?b) r"
        using step False nxt Cons valid_cluster_limit [OF r] valid_clusterD(4) [OF r]
        by (simp add: Let_def not_le [symmetric])
      moreover have "writing fs sect nsec w1 (pre @ [cur]) r rs data (written + ?b)"
        using nb st(2) Cons by (simp add: writing_def)
      ultimately show ?thesis using Suc.IH [of w1 "pre @ [cur]" r rs "written + ?b"] fuel frame
        by (auto intro!: write_outcome_trans [of fs sect nsec w1 "pre @ [cur]" "[r]"])
    next
      case Nil
      have dev: "device_ok (fs_bdev fs) sect nsec" "volume_ok fs nsec" using cur by (simp_all add: valid_cluster_def)
      have lim: "fat_eof_limit fs \<le> 0xFFFFFFFF" by (simp add: fat_eof_limit_def)
      show ?thesis using dev
      proof (cases rule: alloc_cases [where w = w1])
        case full
        then show ?thesis using step False nxt Nil lim
          by (simp add: Let_def write_outcome_def volume_full_def scan_width_def)
      next
        case (found c)
        define w3 where "w3 = fst (set_fat_entry fs (fst (set_fat_entry fs w1 c (fat_eof_val fs))) cur c)"
        have "c \<noteq> 0" using valid_clusterD(3) [OF found(2)] by auto
        then have loop: "write_loop fs data (Suc n) w written cur = write_loop fs data n w3 (written + ?b) c"
          using step False nxt Nil lim found(1) by (simp add: Let_def w3_def)
        note hc = hang_cluster [OF st(2) [unfolded Nil] found(2,4) w3_def]
        have "chain_bytes fs sect w3 (pre @ [cur]) = chain_bytes fs sect w1 (pre @ [cur])"
          using hc(2) fc by (intro chain_bytes_cong) (auto simp: file_chain_def)
        then have "writing fs sect nsec w3 (pre @ [cur]) c [] data (written + ?b)"
          using nb hc(1) by (simp add: writing_def holds_prefix_def)
        then show ?thesis using Suc.IH [of w3 "pre @ [cur]" c "[]" "written + ?b"] fuel frame hc(2,3) loop
          by (auto intro!: write_outcome_trans [of fs sect nsec w3 "pre @ [cur]" "[c]"])
      qed
    qed
  qed
qed simp

section \<open>What is read\<close>

text \<open>C29. Reading a file returns its data: for a path that names a file whose chain is well formed
  and long enough for its size (at most 65536 clusters), with memory for one cluster, the result is
  the first \<open>min size max_len\<close> bytes of the clusters of the chain in order.\<close>

theorem fat_read_file_contents:
  assumes "lookup_path km fs w path = Some loc" and "\<not> is_directory (loc_entry loc)"
    and "fat_chain fs sect nsec w (entry_cluster (loc_entry loc) # cs)" and "length cs < 65536"
    and "unat (de_file_size (loc_entry loc)) \<le> unat (fs_bytes_per_cluster fs) * (length cs + 1)"
    and "km (fs_bytes_per_cluster fs)"
  shows "fat_read_file km fs w path max_len =
    Some (take (min (unat (de_file_size (loc_entry loc))) max_len)
      (chain_bytes fs sect w (entry_cluster (loc_entry loc) # cs)))"
proof -
  let ?n = "min (unat (de_file_size (loc_entry loc))) max_len"
  note h = fat_chain_hd [OF assms(3)]
  have b: "fs_bytes_per_cluster fs \<noteq> 0" using valid_csize(3) [OF h(1)] by auto
  show ?thesis
  proof (cases "?n = 0")
    case True
    then show ?thesis using assms(1,2) by (simp add: fat_read_file_def Let_def)
  next
    case False
    then have "read_loop fs w ?n 65536 (entry_cluster (loc_entry loc)) []
        = take ?n (chain_bytes fs sect w (entry_cluster (loc_entry loc) # cs))"
      using read_loop_chain [OF assms(3), of 65536 "[]" ?n] assms(4,5) by simp
    then show ?thesis using False assms(1,2,6) h(2) b by (simp add: fat_read_file_def Let_def)
  qed
qed

text \<open>A volume with a root directory of one sector that holds the file \<open>A\<close> of five bytes.\<close>

definition demo_fs :: "(u32 \<Rightarrow> u8 list) fat_fs" where
  "demo_fs = ram_fs \<lparr> fs_root_dir_sectors := 1 \<rparr>"

definition demo_disk :: "u32 \<Rightarrow> u8 list" where
  "demo_disk l = (if l = 131 then field 11 (bytes ''A'') @ drop 11 (new_entry FAT_ATTR_ARCHIVE 7 5)
     else if l = 1 then replicate 14 0 @ [0xFF, 0xFF] else if l = 168 then bytes ''hello'' else [])"

theorem fat_read_file_contents_witness:
  "fat_read_file (\<lambda>n. True) demo_fs demo_disk (bytes ''/a'') 100 = Some (bytes ''hello'')"
proof -
  let ?km = "\<lambda>n :: u32. True"
  have look: "(case lookup_path ?km demo_fs demo_disk (bytes ''/a'') of None \<Rightarrow> False
    | Some loc \<Rightarrow> \<not> is_directory (loc_entry loc) \<and> entry_cluster (loc_entry loc) = 7
        \<and> de_file_size (loc_entry loc) = 5)" by code_simp
  then obtain loc where loc: "lookup_path ?km demo_fs demo_disk (bytes ''/a'') = Some loc"
    "\<not> is_directory (loc_entry loc)" "entry_cluster (loc_entry loc) = 7" "de_file_size (loc_entry loc) = 5"
    by (auto split: option.splits)
  have "volume_ok demo_fs 17000"
    using ram_volume_ok by (simp add: volume_ok_def demo_fs_def ent_width_def fat_eof_limit_def)
  then have v: "valid_cluster demo_fs ram_sect 17000 7"
    using ram_device_ok [of 17000] by (simp add: valid_cluster_def demo_fs_def ram_fs_def)
  have "fat_entry_of demo_fs ram_sect demo_disk 7 = 0xFFFF" by code_simp
  with v have ch: "fat_chain demo_fs ram_sect 17000 demo_disk [7]"
    by (simp add: fat_chain_def fat_end_def fat_eof_limit_def demo_fs_def ram_fs_def)
  have "take 5 (chain_bytes demo_fs ram_sect demo_disk [7]) = bytes ''hello''" by code_simp
  then show ?thesis
    using fat_read_file_contents [OF loc(1,2) ch [folded loc(3)], of 100] loc(3,4)
    by (simp add: demo_fs_def ram_fs_def)
qed

lemma written_read:
  assumes "file_written fs sect nsec w w' cs data" and "data \<noteq> []"
    and "length data \<le> 65536 * unat (fs_bytes_per_cluster fs)"
  shows "read_loop fs w' (length data) 65536 (hd cs) [] = data"
proof -
  let ?b = "unat (fs_bytes_per_cluster fs)"
  obtain pad where fc: "file_chain fs sect nsec w' cs" and cb: "chain_bytes fs sect w' cs = data @ pad"
    and pad: "length pad < ?b"
    using assms(1,2) unfolding file_written_def by auto
  from fc obtain c cs' where cs: "cs = c # cs'" by (cases cs) (auto simp: file_chain_def)
  have len: "?b * length cs = length data + length pad"
    using chain_bytes_length [of cs fs sect nsec w'] fc cb by (simp add: file_chain_def)
  then have "?b * length cs < ?b * 65537" using pad assms(3) by linarith
  then have "length cs \<le> 65536" by simp
  moreover have "length data \<le> ?b * length cs" using len by simp
  ultimately have "read_loop fs w' (length data) 65536 (hd cs) [] = take (length data) (chain_bytes fs sect w' cs)"
    using read_loop_chain [of fs sect nsec w' c cs' 65536 "[]" "length data"] file_chain_fat [OF fc] assms(2)
    unfolding cs by (simp del: chain_bytes_simps)
  then show ?thesis using cb by simp
qed

text \<open>C3. Data written to a file is read back. Starting from a well-formed chain, the old file's or a
  newly allocated cluster's, the loop of \<open>fat_write_file\<close> always ends: either with an error on a full
  volume, or with the data in a chain that starts at the same cluster, padded to whole clusters, with
  every cluster outside it and its table entry unchanged; the loop of \<open>fat_read_file\<close> then returns
  the data (up to the 65536 clusters it visits).\<close>

theorem file_data_roundtrip:
  assumes "file_chain fs sect nsec w (c # cs)"
  shows "\<exists>w' res. write_loop fs data (length data + 1) w 0 c = Some (w', res) \<and>
    (res = -1 \<and> volume_full fs sect w' \<or>
     res = 0 \<and> (\<exists>cs'. file_written fs sect nsec w w' (c # cs') data)
       \<and> (data \<noteq> [] \<and> length data \<le> 65536 * unat (fs_bytes_per_cluster fs)
            \<longrightarrow> read_loop fs w' (length data) 65536 c [] = data))"
proof -
  have "writing fs sect nsec w [] c cs data 0"
    using assms by (simp add: writing_def holds_prefix_def)
  from write_loop_outcome [OF this, of "length data + 1"] show ?thesis
    unfolding write_outcome_def using written_read [of fs sect nsec w _ "c # _" data] by fastforce
qed

theorem file_data_roundtrip_witness:
  "\<exists>w' res. write_loop ram_fs (bytes ''hello'') 6 (fst (set_fat_entry ram_fs (\<lambda>l. []) 7 0xFFFF)) 0 7 = Some (w', res)
     \<and> (res = -1 \<and> volume_full ram_fs ram_sect w' \<or> res = 0 \<and> read_loop ram_fs w' 5 65536 7 [] = bytes ''hello'')"
proof -
  define w where "w = fst (set_fat_entry ram_fs (\<lambda>l. []) 7 0xFFFF)"
  have v: "valid_cluster ram_fs ram_sect 17000 7" by (simp add: ram_valid)
  have bpc: "unat (fs_bytes_per_cluster ram_fs) = 512" by (simp add: ram_fs_def)
  have "fat_entry_of ram_fs ram_sect w 7 = 0xFFFF"
    unfolding w_def set_fat_entry_entry [OF v v] by (simp add: fat_norm_def ram_fs_def)
  then have "file_chain ram_fs ram_sect 17000 w [7]"
    using v by (simp add: file_chain_def fat_eof_limit_def ram_fs_def)
  moreover have len: "length (bytes ''hello'') = 5" and six: "5 + 1 = (6 :: nat)" by simp_all
  ultimately have main: "\<exists>w' res. write_loop ram_fs (bytes ''hello'') 6 w 0 7 = Some (w', res) \<and>
    (res = -1 \<and> volume_full ram_fs ram_sect w' \<or>
     res = 0 \<and> (\<exists>cs'. file_written ram_fs ram_sect 17000 w w' (7 # cs') (bytes ''hello''))
       \<and> (bytes ''hello'' \<noteq> [] \<and> 5 \<le> 65536 * unat (fs_bytes_per_cluster ram_fs)
            \<longrightarrow> read_loop ram_fs w' 5 65536 7 [] = bytes ''hello''))"
    using file_data_roundtrip [of ram_fs ram_sect 17000 w 7 "[]" "bytes ''hello''"] unfolding len six by blast
  have small: "bytes ''hello'' \<noteq> [] \<and> 5 \<le> 65536 * unat (fs_bytes_per_cluster ram_fs)" by (simp add: bpc)
  from main small
  obtain w' res where r: "write_loop ram_fs (bytes ''hello'') 6 w 0 7 = Some (w', res)" and
    o: "res = -1 \<and> volume_full ram_fs ram_sect w' \<or>
      res = 0 \<and> read_loop ram_fs w' 5 65536 7 [] = bytes ''hello''"
    by blast
  from r o show ?thesis unfolding w_def [symmetric] by blast
qed

end
