(* ===== verification/Fat_Name_Props.thy ===== *)
theory Fat_Name_Props
  imports Fat_Names
begin

text \<open>
  Proofs about FAT names: a long name written as VFAT entries is read back by the parser, a short
  name stored in its 11-byte field is read back, the generated aliases are well formed, and the
  wildcard matcher decides the usual meaning of \<open>*\<close> and \<open>?\<close>.
\<close>

section \<open>Wildcards\<close>

text \<open>The meaning of a pattern: a star stands for any string, a question mark for any character,
  and every other character for itself up to case.\<close>

fun glob :: "u8 list \<Rightarrow> u8 list \<Rightarrow> bool" where
  "glob [] s = (s = [])"
| "glob (c # p) s =
    (if c = asc CHR ''*'' then (\<exists>i\<in>set [0..<Suc (length s)]. glob p (drop i s))
     else case s of [] \<Rightarrow> False
       | d # s' \<Rightarrow> (c = asc CHR ''?'' \<or> to_upper_char c = to_upper_char d) \<and> glob p s')"

definition ends_in_two_stars :: "u8 list \<Rightarrow> bool" where
  "ends_in_two_stars p \<longleftrightarrow> suffix (bytes ''**'') p"

lemma glob_star_only: "glob (asc CHR ''*'' # []) s"
  by (auto intro!: bexI [of _ "length s"])

lemma ex_le_Suc: "(\<exists>i \<le> Suc n. Q i) \<longleftrightarrow> Q 0 \<or> (\<exists>i \<le> n. Q (Suc i))"
  by (metis Suc_le_mono le0 not0_implies_Suc)

lemma ex_drop_step:
  "(\<exists>i\<in>set [0..<Suc (length s)]. P (drop i s)) \<longleftrightarrow>
     P s \<or> (s \<noteq> [] \<and> (\<exists>i\<in>set [0..<Suc (length (tl s))]. P (drop i (tl s))))"
proof (cases s)
  case (Cons d t)
  have "(\<exists>i \<le> Suc (length t). P (drop i (d # t))) \<longleftrightarrow> P (d # t) \<or> (\<exists>i \<le> length t. P (drop i t))"
    by (simp add: ex_le_Suc)
  then show ?thesis using Cons by (simp add: Bex_def less_Suc_eq_le del: upt_Suc)
qed simp

text \<open>A pattern other than a run of stars does not match the empty string.\<close>

lemma glob_Nil: "glob p [] \<Longrightarrow> set p \<subseteq> {asc CHR ''*''}"
  by (induction p) (auto split: if_splits)

lemma star_run: "set p \<subseteq> {c} \<Longrightarrow> p \<noteq> [] \<Longrightarrow> suffix [c, c] (c # p)"
proof (induction p)
  case (Cons d p)
  then show ?case by (cases "p = []") (auto intro: suffix_ConsI)
qed simp

lemma two_stars_Cons: "ends_in_two_stars p \<Longrightarrow> ends_in_two_stars (c # p)"
  by (auto simp: ends_in_two_stars_def intro: suffix_ConsI)

lemma match_glob:
  "(fat_pattern_match p s \<longrightarrow> glob p s) \<and> (\<not> ends_in_two_stars p \<longrightarrow> glob p s \<longrightarrow> fat_pattern_match p s)"
  "p \<noteq> [] \<Longrightarrow> (star_loop p s \<longrightarrow> glob (asc CHR ''*'' # p) s)
    \<and> (\<not> ends_in_two_stars (asc CHR ''*'' # p) \<longrightarrow> glob (asc CHR ''*'' # p) s \<longrightarrow> star_loop p s)"
proof (induction p s and p s rule: fat_pattern_match_star_loop.induct)
  case (1 p s)
  show ?case
  proof (cases p)
    case (Cons c q)
    show ?thesis
    proof (cases "c = asc CHR ''*''")
      case True
      then have "fat_pattern_match p s = (q = [] \<or> star_loop q s)"
        unfolding Cons by (subst fat_pattern_match.simps) simp
      with 1(1) [OF Cons True] glob_star_only Cons True show ?thesis by (cases "q = []") auto
    next
      case False
      then have "fat_pattern_match p s = (s \<noteq> [] \<and> (c = asc CHR ''?'' \<or> to_upper_char c = to_upper_char (hd s))
          \<and> fat_pattern_match q (tl s))"
        unfolding Cons by (subst fat_pattern_match.simps) simp
      with 1(2,3) [OF Cons False] Cons False two_stars_Cons [of q c] show ?thesis
        by (cases s) auto
    qed
  qed (simp add: fat_pattern_match.simps [of "[]"])
next
  case (2 p s)
  show ?case
  proof (cases "s = []")
    case True
    have "\<not> glob (asc CHR ''*'' # p) []" if "\<not> ends_in_two_stars (asc CHR ''*'' # p)"
    proof
      assume "glob (asc CHR ''*'' # p) []"
      then have "suffix (bytes ''**'') (asc CHR ''*'' # p)"
        using star_run [OF glob_Nil 2(3)] by simp
      with that show False by (simp add: ends_in_two_stars_def)
    qed
    with True show ?thesis by (simp add: star_loop.simps [of p] del: glob.simps)
  next
    case False
    have "glob (asc CHR ''*'' # p) s \<longleftrightarrow> glob p s \<or> glob (asc CHR ''*'' # p) (tl s)"
      using ex_drop_step [of s "glob p"] False by simp
    with 2 False two_stars_Cons [of p "asc CHR ''*''"] show ?thesis
      by (auto simp: star_loop.simps [of p s] simp del: glob.simps)
  qed
qed

text \<open>C31. The wildcard matcher of \<open>fat_remove\<close> never selects a name the pattern does not stand for,
  and it selects every name it stands for unless the pattern ends in two or more stars; such a
  pattern misses names it stands for (\<open>a**\<close> does not match \<open>a\<close>).\<close>

theorem fat_pattern_match_glob:
  "(fat_pattern_match p s \<longrightarrow> glob p s)
   \<and> (ends_in_two_stars p \<or> (glob p s \<longrightarrow> fat_pattern_match p s))
   \<and> glob (bytes ''a**'') (bytes ''a'') \<and> \<not> fat_pattern_match (bytes ''a**'') (bytes ''a'')"
proof (intro conjI)
  show "fat_pattern_match p s \<longrightarrow> glob p s" and
    "ends_in_two_stars p \<or> (glob p s \<longrightarrow> fat_pattern_match p s)" using match_glob(1) by auto
  show "glob (bytes ''a**'') (bytes ''a'')" by code_simp
  show "\<not> fat_pattern_match (bytes ''a**'') (bytes ''a'')" by code_simp
qed

theorem fat_pattern_match_glob_witness:
  "\<not> ends_in_two_stars (bytes ''*.T?T'') \<and> glob (bytes ''*.T?T'') (bytes ''readme.txt'')
   \<and> fat_pattern_match (bytes ''*.T?T'') (bytes ''readme.txt'')"
proof -
  have 1: "\<not> ends_in_two_stars (bytes ''*.T?T'')" by (simp add: ends_in_two_stars_def suffix_def Cons_eq_append_conv)
  have 2: "glob (bytes ''*.T?T'') (bytes ''readme.txt'')" by code_simp
  show ?thesis using fat_pattern_match_glob [of "bytes ''*.T?T''" "bytes ''readme.txt''"] 1 2 by blast
qed

section \<open>Long names read back\<close>

text \<open>The buffer with the bytes of \<open>name\<close> between \<open>lo\<close> and \<open>hi\<close> filled in.\<close>

definition overlay :: "u8 list \<Rightarrow> nat \<Rightarrow> nat \<Rightarrow> u8 list \<Rightarrow> u8 list" where
  "overlay name lo hi buf =
     map (\<lambda>i. if lo \<le> i \<and> i < hi \<and> i < length name then name ! i else buf ! i) [0..<length buf]"

lemma overlay_length [simp]: "length (overlay name lo hi buf) = length buf"
  by (simp add: overlay_def)

lemma overlay_nth [simp]: "i < length buf \<Longrightarrow>
   overlay name lo hi buf ! i = (if lo \<le> i \<and> i < hi \<and> i < length name then name ! i else buf ! i)"
  by (simp add: overlay_def)

lemma overlay_none: "hi \<le> lo \<or> length name \<le> lo \<Longrightarrow> overlay name lo hi buf = buf"
  by (rule nth_equalityI) auto

lemma overlay_overlay:
  "lo \<le> mid \<Longrightarrow> mid \<le> hi \<Longrightarrow> overlay name mid hi (overlay name lo mid buf) = overlay name lo hi buf"
  "lo \<le> mid \<Longrightarrow> mid \<le> hi \<Longrightarrow> overlay name lo mid (overlay name mid hi buf) = overlay name lo hi buf"
  by (rule nth_equalityI; auto)+

lemma and_0xFF: "(u :: u16) AND 0xFF = take_bit 8 u"
  by (simp add: take_bit_eq_mask mask_eq_exp_minus_1)

lemma le16_bytes:
  "fat_read_le16 (ucast (u AND 0xFF) # ucast (drop_bit 8 u AND 0xFF) # r) 0 = (u :: u16)"
proof (rule bit_word_eqI)
  fix n
  assume "n < LENGTH(16)"
  then show "bit (fat_read_le16 (ucast (u AND 0xFF) # ucast (drop_bit 8 u AND 0xFF) # r) 0) n = bit u n"
    by (auto simp: fat_read_le16_def byte_at_def and_0xFF bit_simps)
qed

lemma encode_length [simp]: "length (encode_lfn_chars s n i k) = 2 * k"
  by (induction k) (simp_all add: encode_lfn_chars_def Let_def)

lemma encode_Suc:
  "encode_lfn_chars s n i (Suc k) = ucast (lfn_unit s n i AND 0xFF)
     # ucast (drop_bit 8 (lfn_unit s n i) AND 0xFF) # encode_lfn_chars s n (i + 1) k"
  by (simp add: encode_lfn_chars_def Let_def upt_conv_Cons map_Suc_upt [symmetric] comp_def
      del: upt_Suc)

lemma byte_unit:
  assumes "(c :: u8) \<noteq> 0"
  shows "(ucast c :: u16) \<noteq> 0 \<and> (ucast c :: u16) \<noteq> 0xFFFF \<and> ucast ((ucast c :: u16) AND 0xFF) = c"
proof -
  have v: "unat (ucast c :: u16) = unat c"
    using order_less_trans [OF unat_less_256 [of c], of 65536]
    by (simp add: unsigned_ucast_eq take_bit_nat_eq_self_iff)
  have "unat c \<noteq> 0" using assms by (simp add: unat_eq_zero)
  then have "(ucast c :: u16) \<noteq> 0" using v by auto
  moreover have "(ucast c :: u16) \<noteq> 0xFFFF"
  proof
    assume "(ucast c :: u16) = 0xFFFF"
    then have "unat c = 65535" using v by simp
    then show False using unat_less_256 [of c] by linarith
  qed
  moreover have "ucast ((ucast c :: u16) AND 0xFF) = c"
    by (rule bit_word_eqI) (auto simp: and_0xFF bit_simps)
  ultimately show ?thesis by blast
qed

lemma decode_encode:
  assumes "0 \<notin> set name" and "pos + count \<le> length buf"
    and "\<forall>i. pos \<le> i \<and> i < pos + count \<longrightarrow> buf ! i = 0"
  shows "decode_lfn_chars (encode_lfn_chars name (length name) pos count) count buf pos
     = overlay name pos (pos + count) buf"
  using assms(2,3)
proof (induction count arbitrary: pos buf)
  case (Suc count)
  have u: "fat_read_le16 (encode_lfn_chars name (length name) pos (Suc count)) 0
      = lfn_unit name (length name) pos" by (simp add: encode_Suc le16_bytes)
  show ?case
  proof (cases "pos < length name")
    case False
    then have "buf[pos := 0] = buf" "lfn_unit name (length name) pos \<in> {0, 0xFFFF}"
      using Suc.prems by (auto simp: lfn_unit_def) (metis le_refl list_update_id less_add_Suc1)
    with False show ?thesis by (auto simp: u overlay_none)
  next
    case True
    then have c: "name ! pos \<noteq> 0" using assms(1) by (metis nth_mem)
    have unit: "lfn_unit name (length name) pos = ucast (name ! pos)"
      using True by (simp add: lfn_unit_def byte_at_def)
    have "decode_lfn_chars (encode_lfn_chars name (length name) pos (Suc count)) (Suc count) buf pos
       = decode_lfn_chars (encode_lfn_chars name (length name) (pos + 1) count) count
           (buf[pos := name ! pos]) (pos + 1)"
      using byte_unit [OF c] by (simp add: u unit Let_def) (simp add: encode_Suc)
    also have "\<dots> = overlay name (pos + 1) (pos + 1 + count) (buf[pos := name ! pos])"
      using Suc.prems by (intro Suc.IH) simp_all
    also have "buf[pos := name ! pos] = overlay name pos (pos + 1) buf"
      using True by (intro nth_equalityI) (auto simp: nth_list_update less_Suc_eq)
    finally show ?thesis by (simp add: overlay_overlay)
  qed
qed (simp add: overlay_none)

text \<open>The three name fields of an entry are decoded one after the other.\<close>

lemma lfn_entry_fields:
  "byte_at (lfn_entry name chk n seq) 0 = (if seq = n then FAT_LFN_LAST_MASK OR of_nat seq else of_nat seq)"
  "de_attr (lfn_entry name chk n seq) = FAT_ATTR_LFN"
  "lfn_checksum (lfn_entry name chk n seq) = chk"
  "lfn_name1 (lfn_entry name chk n seq) = encode_lfn_chars name (length name) ((seq - 1) * 13) 5"
  "lfn_name2 (lfn_entry name chk n seq) = encode_lfn_chars name (length name) ((seq - 1) * 13 + 5) 6"
  "lfn_name3 (lfn_entry name chk n seq) = encode_lfn_chars name (length name) ((seq - 1) * 13 + 11) 2"
  by (simp_all add: lfn_entry_def byte_at_def de_attr_def lfn_checksum_def lfn_name1_def
      lfn_name2_def lfn_name3_def nth_append nth_Cons')

lemma decode_lfn_entry:
  assumes "0 \<notin> set name" and "length buf = 256" and "(seq - 1) * 13 + 13 < 256"
    and "\<forall>i. (seq - 1) * 13 \<le> i \<and> i < (seq - 1) * 13 + 13 \<longrightarrow> buf ! i = 0"
  shows "decode_entry (lfn_entry name chk n seq) ((seq - 1) * 13) buf
     = overlay name ((seq - 1) * 13) ((seq - 1) * 13 + 13) buf"
proof -
  define b where "b = (seq - 1) * 13"
  have b: "b + 13 < 256" and z: "\<And>i. b \<le> i \<Longrightarrow> i < b + 13 \<Longrightarrow> buf ! i = 0"
    using assms(3,4) by (auto simp: b_def)
  have 1: "decode_lfn_chars (encode_lfn_chars name (length name) b 5) 5 buf b = overlay name b (b + 5) buf"
    using decode_encode [OF assms(1), of b 5 buf] b z assms(2) by simp
  have 2: "decode_lfn_chars (encode_lfn_chars name (length name) (b + 5) 6) 6 (overlay name b (b + 5) buf) (b + 5)
      = overlay name b (b + 11) buf"
    using decode_encode [OF assms(1), of "b + 5" 6 "overlay name b (b + 5) buf"] b z assms(2)
    by (simp add: overlay_overlay add.commute)
  have 3: "decode_lfn_chars (encode_lfn_chars name (length name) (b + 11) 2) 2 (overlay name b (b + 11) buf) (b + 11)
      = overlay name b (b + 13) buf"
    using decode_encode [OF assms(1), of "b + 11" 2 "overlay name b (b + 11) buf"] b z assms(2)
    by (simp add: overlay_overlay add.commute)
  show ?thesis unfolding decode_entry_def lfn_entry_fields b_def [symmetric] using b 1 2 3 by simp
qed

text \<open>The state of the parser once the entries down to number \<open>k + 1\<close> have been read.\<close>

definition lfn_state :: "u8 list \<Rightarrow> u8 \<Rightarrow> nat \<Rightarrow> u32 \<Rightarrow> int \<Rightarrow> nat \<Rightarrow> lfn_parser" where
  "lfn_state name chk n sec slot k =
    \<lparr> lp_name = overlay name (13 * k) 256 (replicate 256 0), lp_checksum = chk, lp_expected_seq = of_nat k,
      lp_has_lfn = True, lp_is_valid = True, lp_start_sec = sec, lp_start_slot = slot, lp_total = int n \<rparr>"

lemma seq_byte:
  assumes "1 \<le> k" "k \<le> 19"
  shows "(of_nat k :: u8) AND FAT_LFN_SEQ_MASK = of_nat k"
    "(FAT_LFN_LAST_MASK OR of_nat k :: u8) AND FAT_LFN_SEQ_MASK = of_nat k"
    "(of_nat k :: u8) AND FAT_LFN_LAST_MASK = 0"
    "(FAT_LFN_LAST_MASK OR of_nat k :: u8) AND FAT_LFN_LAST_MASK \<noteq> 0"
    "(of_nat k :: u8) \<notin> {0, 0xE5}" "(FAT_LFN_LAST_MASK OR of_nat k :: u8) \<notin> {0, 0xE5}"
    "\<not> (20 :: u8) < of_nat k" "unat (of_nat k :: u8) = k" "uint (of_nat k :: u8) = int k"
    "(of_nat k :: u8) - 1 = of_nat (k - 1)"
proof -
  have "\<forall>k\<in>set [1..<20]. (of_nat k :: u8) AND FAT_LFN_SEQ_MASK = of_nat k
    \<and> (FAT_LFN_LAST_MASK OR of_nat k :: u8) AND FAT_LFN_SEQ_MASK = of_nat k
    \<and> (of_nat k :: u8) AND FAT_LFN_LAST_MASK = 0
    \<and> (FAT_LFN_LAST_MASK OR of_nat k :: u8) AND FAT_LFN_LAST_MASK \<noteq> 0
    \<and> (of_nat k :: u8) \<notin> {0, 0xE5} \<and> (FAT_LFN_LAST_MASK OR of_nat k :: u8) \<notin> {0, 0xE5}
    \<and> \<not> (20 :: u8) < of_nat k \<and> unat (of_nat k :: u8) = k \<and> uint (of_nat k :: u8) = int k
    \<and> (of_nat k :: u8) - 1 = of_nat (k - 1)" by code_simp
  moreover have "k \<in> set [1..<20]" using assms by simp
  ultimately show "(of_nat k :: u8) AND FAT_LFN_SEQ_MASK = of_nat k"
    "(FAT_LFN_LAST_MASK OR of_nat k :: u8) AND FAT_LFN_SEQ_MASK = of_nat k"
    "(of_nat k :: u8) AND FAT_LFN_LAST_MASK = 0"
    "(FAT_LFN_LAST_MASK OR of_nat k :: u8) AND FAT_LFN_LAST_MASK \<noteq> 0"
    "(of_nat k :: u8) \<notin> {0, 0xE5}" "(FAT_LFN_LAST_MASK OR of_nat k :: u8) \<notin> {0, 0xE5}"
    "\<not> (20 :: u8) < of_nat k" "unat (of_nat k :: u8) = k" "uint (of_nat k :: u8) = int k"
    "(of_nat k :: u8) - 1 = of_nat (k - 1)" by blast+
qed

lemma feed_last:
  assumes "0 \<notin> set name" and "1 \<le> n" "n \<le> 19" "length name \<le> 13 * n"
  shows "lfn_parser_feed p (lfn_entry name chk n n) sec slot = lfn_state name chk n sec slot (n - 1)"
proof -
  have "decode_entry (lfn_entry name chk n n) ((n - 1) * 13) (replicate 256 0)
      = overlay name (13 * (n - 1)) 256 (replicate 256 0)"
    using assms by (subst decode_lfn_entry) (auto intro!: nth_equalityI simp: diff_mult_distrib2)
  then show ?thesis using assms seq_byte [of n]
    by (simp add: lfn_parser_feed_def lfn_order_def lfn_entry_fields lfn_state_def lfn_parser_reset_def Let_def)
qed

lemma feed_next:
  assumes "0 \<notin> set name" and "1 \<le> k" "k < n" "n \<le> 19"
  shows "lfn_parser_feed (lfn_state name chk n sec slot k) (lfn_entry name chk n k) sec' slot'
    = lfn_state name chk n sec slot (k - 1)"
proof -
  obtain m where m: "k = Suc m" using assms(2) by (cases k) auto
  have "decode_entry (lfn_entry name chk n k) ((k - 1) * 13) (overlay name (13 * k) 256 (replicate 256 0))
      = overlay name (13 * (k - 1)) 256 (replicate 256 0)"
    using assms by (subst decode_lfn_entry) (auto simp: m overlay_overlay algebra_simps)
  then show ?thesis using assms seq_byte [of k]
    by (simp add: lfn_parser_feed_def lfn_order_def lfn_entry_fields lfn_state_def Let_def)
qed

text \<open>Feeding a run of entries, each with the sector and slot it stands at.\<close>

definition feed_all :: "lfn_parser \<Rightarrow> (fat_entry \<times> u32 \<times> int) list \<Rightarrow> lfn_parser" where
  "feed_all p es = fold (\<lambda>(e, sec, slot) p. lfn_parser_feed p e sec slot) es p"

lemma feed_down:
  assumes "0 \<notin> set name" and "n \<le> 19" and "k < n" and "length ps = k"
  shows "feed_all (lfn_state name chk n sec slot k) (zip (map (lfn_entry name chk n) (rev [1..<Suc k])) ps)
    = lfn_state name chk n sec slot 0"
  using assms(3,4)
proof (induction k arbitrary: ps)
  case (Suc k)
  then obtain sec1 slot1 qs where "ps = (sec1, slot1) # qs" "length qs = k"
    by (cases ps) auto
  with Suc assms feed_next [of name "Suc k" n chk sec slot sec1 slot1] show ?case
    by (simp add: feed_all_def)
qed (simp add: feed_all_def)

text \<open>The entries \<open>fat_write_lfn_and_short_entry\<close> writes before the short entry.\<close>

definition lfn_entries :: "u8 list \<Rightarrow> u8 \<Rightarrow> fat_entry list" where
  "lfn_entries name chk =
    (let n = (length name + 12) div 13 in map (lfn_entry name chk n) (rev [1..<Suc n]))"

lemma feed_entries:
  assumes "0 \<notin> set name" and "name \<noteq> []" and "length name \<le> 247"
    and "length ps = (length name + 12) div 13"
  shows "feed_all p (zip (lfn_entries name chk) ps)
    = lfn_state name chk (length ps) (fst (hd ps)) (snd (hd ps)) 0"
proof -
  define n where "n = (length name + 12) div 13"
  have n: "1 \<le> n" "n \<le> 19" "length name \<le> 13 * n"
    using assms(2,3) by (cases name; simp add: n_def; linarith)+
  then obtain m where m: "n = Suc m" by (cases n) auto
  with assms(4) obtain sec slot qs where ps: "ps = (sec, slot) # qs" "length qs = m"
    by (cases ps) (auto simp: n_def)
  have "feed_all p (zip (lfn_entries name chk) ps)
      = feed_all (lfn_state name chk n sec slot m) (zip (map (lfn_entry name chk n) (rev [1..<Suc m])) qs)"
    using feed_last [OF assms(1) n(1-3), of p chk sec slot] ps m
    by (simp add: lfn_entries_def n_def [symmetric] feed_all_def)
  also have "\<dots> = lfn_state name chk n sec slot 0"
    using feed_down [OF assms(1) n(2), of m qs] ps m by simp
  finally show ?thesis using ps m by simp
qed

lemma cstr_overlay:
  assumes "0 \<notin> set name" and "length name < 256"
  shows "cstr (overlay name 0 256 (replicate 256 0)) = name"
proof -
  have "overlay name 0 256 (replicate 256 0) = name @ replicate (256 - length name) 0"
    using assms(2) by (intro nth_equalityI) (auto simp: nth_append)
  moreover have "\<forall>c\<in>set name. c \<noteq> 0" using assms(1) by metis
  ultimately show ?thesis by (simp add: cstr_def takeWhile_append takeWhile_replicate)
qed

text \<open>C18. A long name survives the directory: the parser, in whatever state it is, that reads the
  long-name entries written for a name of 1 to 247 bytes at any run of slots and then the short
  entry they belong to, holds that name and finds it valid, knows that the run has
  \<open>(length + 12) div 13\<close> entries, and remembers the slot of the first. Beyond 247 bytes the
  twentieth entry is dropped, so such a name does not come back.\<close>

theorem lfn_roundtrip:
  assumes "0 \<notin> set name" and "name \<noteq> []" and "length name \<le> 247"
    and "length ps = (length name + 12) div 13"
    and "byte_at e 0 \<notin> {0, 0xE5}" and "de_attr e \<noteq> FAT_ATTR_LFN"
  shows "let p' = lfn_parser_feed
             (feed_all p (zip (lfn_entries name (fat_lfn_checksum (de_name e))) ps)) e sec slot
         in cstr (lp_name p') = name \<and> lp_has_lfn p' \<and> lp_is_valid p'
            \<and> lp_total p' = int (length ps) \<and> (lp_start_sec p', lp_start_slot p') = hd ps"
proof -
  have "(overlay name 0 256 (replicate 256 0))[255 := 0] = overlay name 0 256 (replicate 256 0)"
    using assms(3) by (intro nth_equalityI) (auto simp: nth_list_update)
  then show ?thesis
    unfolding feed_entries [OF assms(1-4)] using assms cstr_overlay [of name]
    by (simp add: Let_def lfn_parser_feed_def lfn_state_def)
qed

theorem lfn_roundtrip_witness:
  "let e = field 11 (bytes ''README~1TXT'') @ [FAT_ATTR_ARCHIVE] @ replicate 20 0;
       p' = lfn_parser_feed (feed_all lfn_parser_reset
          (zip (lfn_entries (bytes ''Readme long.txt'') (fat_lfn_checksum (de_name e))) [(40, 3), (40, 4)])) e 40 5
   in cstr (lp_name p') = bytes ''Readme long.txt'' \<and> lp_total p' = 2 \<and> lp_start_slot p' = 3"
proof -
  define e where "e = field 11 (bytes ''README~1TXT'') @ [FAT_ATTR_ARCHIVE] @ replicate 20 0"
  have "byte_at e 0 \<notin> {0, 0xE5}" "de_attr e \<noteq> FAT_ATTR_LFN" unfolding e_def by code_simp+
  then show ?thesis unfolding Let_def e_def [symmetric]
    using lfn_roundtrip [of "bytes ''Readme long.txt''" "[(40, 3), (40, 4)]" e lfn_parser_reset 40 5]
    by (simp add: Let_def)
qed

section \<open>Short names read back\<close>

definition plain :: "u8 list \<Rightarrow> bool" where
  "plain s \<longleftrightarrow> (\<forall>c\<in>set s. to_upper_char c = c \<and> c \<noteq> asc CHR '' '' \<and> c \<noteq> asc CHR ''.'')"

lemma plain_Nil [simp]: "plain []"
  by (simp add: plain_def)

lemma plain_Cons [simp]:
  "plain (c # s) \<longleftrightarrow> to_upper_char c = c \<and> c \<noteq> asc CHR '' '' \<and> c \<noteq> asc CHR ''.'' \<and> plain s"
  by (simp add: plain_def)

lemma upper_same: "\<not> (97 \<le> c \<and> c \<le> 122) \<Longrightarrow> to_upper_char c = c"
  by (simp add: to_upper_char_def)

lemma scan_after_dot: "needs_lfn_scan s i (Some k) = Some d \<Longrightarrow> d = Some k \<and> plain s"
  by (induction s arbitrary: i) (auto simp: upper_same split: if_splits)

lemma scan_no_dot: "needs_lfn_scan s i None = Some None \<Longrightarrow> plain s"
  by (induction s arbitrary: i) (auto simp: upper_same split: if_splits dest: scan_after_dot)

lemma scan_dot:
  "needs_lfn_scan s i None = Some (Some d) \<Longrightarrow>
     \<exists>b e. s = b @ asc CHR ''.'' # e \<and> d = i + length b \<and> plain b \<and> plain e"
proof (induction s arbitrary: i)
  case (Cons c s)
  show ?case
  proof (cases "c = asc CHR ''.''")
    case True
    with Cons.prems scan_after_dot [of s "i + 1" i "Some d"] have "d = i" "plain s"
      by (auto split: if_splits)
    with True show ?thesis by (intro exI [of _ "[]"] exI [of _ s]) (simp add: plain_def)
  next
    case False
    with Cons.prems Cons.IH [of "i + 1"] obtain b e where
      be: "s = b @ asc CHR ''.'' # e" "d = i + 1 + length b" "plain b" "plain e"
      by (auto split: if_splits)
    moreover have "plain (c # b)"
      using Cons.prems False be(3) by (auto simp: upper_same split: if_splits)
    ultimately show ?thesis by (intro exI [of _ "c # b"] exI [of _ e]) simp
  qed
qed simp

lemma field_length [simp]: "length (field n s) = n"
  by (simp add: field_def)

lemma takeWhile_field:
  "asc CHR '' '' \<notin> set s \<Longrightarrow> length s \<le> n \<Longrightarrow> takeWhile (\<lambda>c. c \<noteq> asc CHR '' '') (field n s) = s"
proof -
  assume "asc CHR '' '' \<notin> set s" "length s \<le> n"
  moreover from this have "\<forall>c\<in>set s. c \<noteq> asc CHR '' ''" by metis
  ultimately show ?thesis by (simp add: field_def takeWhile_append takeWhile_replicate)
qed

lemma plain_upper: "plain s \<Longrightarrow> map to_upper_char s = s"
  by (induction s) (auto simp: plain_def)

lemma plain_space: "plain s \<Longrightarrow> asc CHR '' '' \<notin> set s"
  by (auto simp: plain_def)

lemma format_fields:
  assumes "plain b" "length b \<le> 8" "plain e" "length e \<le> 3" "b \<noteq> []"
  shows "format_fat_name (field 8 b @ field 3 e) = b @ (if e = [] then [] else asc CHR ''.'' # e)"
proof -
  have "byte_at (field 8 b @ field 3 e) 0 = hd b"
    using assms(5) by (cases b) (simp_all add: byte_at_def field_def)
  moreover have "hd b \<noteq> asc CHR ''.''" using assms(1,5) by (cases b) (simp_all add: plain_def)
  moreover have "byte_at (field 8 b @ field 3 e) 8 = (if e = [] then asc CHR '' '' else hd e)"
    by (cases e) (simp_all add: byte_at_def nth_append field_def [of 3])
  moreover have "e \<noteq> [] \<Longrightarrow> hd e \<noteq> asc CHR '' ''" using assms(3) by (cases e) (simp_all add: plain_def)
  ultimately show ?thesis
    using takeWhile_field [OF plain_space [OF assms(1)] assms(2)]
      takeWhile_field [OF plain_space [OF assms(3)] assms(4)]
    by (simp add: format_fat_name_def)
qed

lemma to_83_dotted:
  assumes "plain b" "length b \<le> 8" "plain e" "length e \<le> 3" "b \<noteq> []"
    and "\<forall>c\<in>set (b @ e). \<not> is_slash c"
  shows "to_fat_83_name (b @ asc CHR ''.'' # e) = field 8 b @ field 3 e"
proof -
  let ?go = "\<lambda>c. \<not> (c = asc CHR ''.'' \<or> is_slash c)"
  have all: "\<forall>c\<in>set b. ?go c" using assms(1,6) by (auto simp: plain_def)
  have b: "takeWhile ?go (b @ asc CHR ''.'' # e) = b" "dropWhile ?go (b @ asc CHR ''.'' # e) = asc CHR ''.'' # e"
    using all by (simp_all add: takeWhile_append dropWhile_append)
  have tw: "takeWhile (\<lambda>c. \<not> is_slash c) e = e" using assms(6) by (auto simp: takeWhile_eq_all_conv)
  have e: "map to_upper_char (take 3 (takeWhile (\<lambda>c. \<not> is_slash c) e)) = e"
    unfolding tw using plain_upper [OF assms(3)] assms(4) by simp
  have dots: "b @ asc CHR ''.'' # e \<noteq> bytes ''.''" "b @ asc CHR ''.'' # e \<noteq> bytes ''..''"
    using assms(1,5) by (auto simp: plain_def append_eq_Cons_conv)
  show ?thesis unfolding to_fat_83_name_def Let_def b
    using dots e assms(2) plain_upper [OF assms(1)] by simp
qed

lemma to_83_undotted:
  assumes "plain b" "length b \<le> 8" and "\<forall>c\<in>set b. \<not> is_slash c"
  shows "to_fat_83_name b = field 8 b @ field 3 []"
proof -
  let ?go = "\<lambda>c. \<not> (c = asc CHR ''.'' \<or> is_slash c)"
  have all: "\<forall>c\<in>set b. ?go c" using assms(1,3) by (auto simp: plain_def)
  have b: "takeWhile ?go b = b" "dropWhile ?go b = []" using all by auto
  have dots: "b \<noteq> bytes ''.''" "b \<noteq> bytes ''..''" using assms(1) by (auto simp: plain_def)
  show ?thesis unfolding to_fat_83_name_def Let_def b
    using dots assms(2) plain_upper [OF assms(1)] by simp
qed

text \<open>A name stored without long-name entries is read back unchanged from its 11-byte field,
  provided it does not end in a dot; a name with an empty extension loses its dot, so a file
  created as \<open>A.\<close> is stored, and listed, as \<open>A\<close>.\<close>

theorem short_name_roundtrip:
  assumes "\<not> fat_needs_lfn name" and "name \<noteq> []" and "\<forall>c\<in>set name. \<not> is_slash c"
    and "last name \<noteq> asc CHR ''.'' \<or> name \<in> {bytes ''.'', bytes ''..''}"
  shows "length (to_fat_83_name name) = 11 \<and> format_fat_name (to_fat_83_name name) = name"
proof (cases "name \<in> {bytes ''.'', bytes ''..''}")
  case True
  moreover have "\<forall>n\<in>set [bytes ''.'', bytes ''..'']. length (to_fat_83_name n) = 11
    \<and> format_fat_name (to_fat_83_name n) = n" by code_simp
  ultimately show ?thesis by auto
next
  case False
  with assms(1) obtain dot where scan: "needs_lfn_scan name 0 None = Some dot" and
    len: "case dot of None \<Rightarrow> length name \<le> 8 | Some d \<Rightarrow> d \<le> 8 \<and> length name - d - 1 \<le> 3 \<and> d \<noteq> 0"
    by (auto simp: fat_needs_lfn_def not_less split: if_splits option.splits)
  show ?thesis
  proof (cases dot)
    case None
    with scan len have "plain name" "length name \<le> 8" by (auto dest: scan_no_dot)
    with assms(2,3) show ?thesis
      using to_83_undotted [of name] format_fields [of name "[]"] by simp
  next
    case (Some d)
    with scan scan_dot [of name 0 d] obtain b e where
      be: "name = b @ asc CHR ''.'' # e" "d = length b" "plain b" "plain e" by auto
    with Some len have "length b \<le> 8" "length e \<le> 3" "b \<noteq> []" by auto
    moreover have "e \<noteq> []" using assms(4) False be(1) by auto
    moreover have "\<forall>c\<in>set (b @ e). \<not> is_slash c" using assms(3) be(1) by auto
    ultimately show ?thesis using be to_83_dotted [of b e] format_fields [of b e] by simp
  qed
qed

theorem short_name_roundtrip_witness:
  "to_fat_83_name (bytes ''KERNEL.BIN'') = bytes ''KERNEL  BIN''
   \<and> format_fat_name (to_fat_83_name (bytes ''KERNEL.BIN'')) = bytes ''KERNEL.BIN''"
proof -
  have "\<not> fat_needs_lfn (bytes ''KERNEL.BIN'')" "\<forall>c\<in>set (bytes ''KERNEL.BIN''). \<not> is_slash c"
    "to_fat_83_name (bytes ''KERNEL.BIN'') = bytes ''KERNEL  BIN''" by code_simp+
  with short_name_roundtrip [of "bytes ''KERNEL.BIN''"] show ?thesis by simp
qed

end
