(* ===== verification/Fat_Dir_Props.thy ===== *)
theory Fat_Dir_Props
  imports Fat_Dir Fat_Name_Props Fat_Chains
begin

text \<open>
  Directories keep what is entered into them: an entry written by
  \<open>fat_write_lfn_and_short_entry\<close> is found again under its name.
\<close>

section \<open>Finding past other entries\<close>

text \<open>The parser after the slots, if the search for \<open>name\<close> goes past all of them.\<close>

fun skip_slots :: "u8 list \<Rightarrow> lfn_parser \<Rightarrow> slot list \<Rightarrow> lfn_parser option" where
  "skip_slots name p [] = Some p"
| "skip_slots name p ((e, sec, slot) # rest) =
    (if byte_at e 0 = 0x00 then None
     else if byte_at e 0 = 0xE5 then skip_slots name lfn_parser_reset rest
     else let p' = lfn_parser_feed p e sec (int slot)
       in if not_a_file e then skip_slots name p' rest
          else if name_matches p' e name then None
          else skip_slots name lfn_parser_reset rest)"

lemma find_skip:
  "skip_slots name p pre = Some p' \<Longrightarrow> find_in_slots name p (pre @ rest) = find_in_slots name p' rest"
  by (induction name p pre rule: skip_slots.induct) (auto simp: Let_def split: if_splits)

text \<open>Entries with the places they stand at, consecutive slots of one sector.\<close>

definition at_slots :: "u32 \<Rightarrow> nat \<Rightarrow> fat_entry list \<Rightarrow> slot list" where
  "at_slots sec s es = map2 (\<lambda>e i. (e, sec, i)) es [s..<s + length es]"

lemma at_slots_Nil [simp]: "at_slots sec s [] = []"
  by (simp add: at_slots_def)

lemma at_slots_Cons [simp]: "at_slots sec s (e # es) = (e, sec, s) # at_slots sec (Suc s) es"
  by (simp add: at_slots_def upt_conv_Cons del: upt_Suc)

lemma at_slots_append: "at_slots sec s (xs @ ys) = at_slots sec s xs @ at_slots sec (s + length xs) ys"
  by (induction xs arbitrary: s) simp_all

lemma lfn_entry_ok:
  assumes "1 \<le> k" "k \<le> 19"
  shows "byte_at (lfn_entry name chk n k) 0 \<noteq> 0" "byte_at (lfn_entry name chk n k) 0 \<noteq> 0xE5"
    "not_a_file (lfn_entry name chk n k)"
  using seq_byte [OF assms] by (auto simp: lfn_entry_fields not_a_file_def)

lemma find_lfn:
  "n \<le> 19 \<Longrightarrow> k \<le> n \<Longrightarrow>
   find_in_slots name p (at_slots sec s (map (lfn_entry name chk n) (rev [1..<Suc k])) @ rest)
     = find_in_slots name
         (feed_all p (zip (map (lfn_entry name chk n) (rev [1..<Suc k])) (map (\<lambda>i. (sec, int i)) [s..<s + k]))) rest"
proof (induction k arbitrary: s p)
  case (Suc k)
  have "map (\<lambda>i. (sec, int i)) [s..<s + Suc k] = (sec, int s) # map (\<lambda>i. (sec, int i)) [Suc s..<Suc s + k]"
    by (simp add: upt_rec [of s])
  with Suc lfn_entry_ok [of "Suc k" name chk n] show ?case by (simp add: feed_all_def Let_def)
qed (simp add: feed_all_def)

lemma name_equals_refl: "0 \<notin> set name \<Longrightarrow> fat_name_equals name name"
  by (induction name) (auto simp: byte_at_def)

lemma name_equals_cstr: "fat_name_equals (cstr s) name = fat_name_equals s name"
proof (induction s arbitrary: name)
  case (Cons a s)
  then show ?case by (cases name) (auto simp: cstr_def byte_at_def)
qed (simp add: cstr_def)

text \<open>The entries written for a name and its short entry are found, whatever stands before them, as
  long as the search gets there.\<close>

lemma find_written:
  assumes "0 \<notin> set name" and "name \<noteq> []" and "length name \<le> 247"
    and "byte_at e 0 \<notin> {0, 0xE5}" and "\<not> not_a_file e"
    and "es = (if fat_needs_lfn name then lfn_entries name (fat_lfn_checksum (de_name e)) else [])"
    and "\<not> fat_needs_lfn name \<Longrightarrow> format_fat_name (de_name e) = name"
    and "skip_slots name q pre = Some p"
  shows "\<exists>loc. find_in_slots name q (pre @ at_slots sec s (es @ [e]) @ rest) = Some loc
    \<and> loc_entry loc = e \<and> loc_sector loc = sec \<and> loc_slot loc = s + length es
    \<and> (fat_needs_lfn name \<longrightarrow> loc_lfn_name loc = name \<and> loc_lfn_count loc = int (length es)
         \<and> loc_lfn_start_sec loc = sec \<and> loc_lfn_start_slot loc = int s)"
proof -
  have att: "de_attr e \<noteq> FAT_ATTR_LFN" using assms(5) by (simp add: not_a_file_def)
  show ?thesis
  proof (cases "fat_needs_lfn name")
    case False
    define p' where "p' = lfn_parser_feed p e sec (int s)"
    have "name_matches p' e name"
      using assms(7) [OF False] name_equals_refl [OF assms(1)] by (simp add: name_matches_def)
    then show ?thesis using False assms(4-6) find_skip [OF assms(8)]
      by (simp add: Let_def p'_def [symmetric] entry_location_def)
  next
    case True
    define n where "n = (length name + 12) div 13"
    have n: "1 \<le> n" "n \<le> 19" using assms(2,3) by (cases name; simp add: n_def; linarith)+
    have es: "es = map (lfn_entry name (fat_lfn_checksum (de_name e)) n) (rev [1..<Suc n])"
      using assms(6) True by (simp add: lfn_entries_def n_def Let_def)
    then have len: "length es = n" by simp
    define p1 where "p1 = feed_all p (zip es (map (\<lambda>i. (sec, int i)) [s..<s + n]))"
    define p' where "p' = lfn_parser_feed p1 e sec (int s + int n)"
    have p1: "p1 = lfn_state name (fat_lfn_checksum (de_name e)) n sec (int s) 0"
      using feed_entries [OF assms(1-3), of "map (\<lambda>i. (sec, int i)) [s..<s + n]" p "fat_lfn_checksum (de_name e)"]
        n(1) assms(6) True
      by (simp add: p1_def n_def [symmetric] hd_map)
    have "(overlay name 0 256 (replicate 256 0))[255 := 0] = overlay name 0 256 (replicate 256 0)"
      using assms(3) by (intro nth_equalityI) (auto simp: nth_list_update)
    then have p': "cstr (lp_name p') = name \<and> lfn_ready p' \<and> lp_total p' = int n
        \<and> lp_start_sec p' = sec \<and> lp_start_slot p' = int s"
      unfolding p'_def p1 using assms(4) att cstr_overlay [OF assms(1)] assms(3)
      by (simp add: lfn_parser_feed_def lfn_state_def lfn_ready_def)
    then have m: "name_matches p' e name"
      using name_equals_refl [OF assms(1)] name_equals_cstr [of "lp_name p'" name] by (simp add: name_matches_def)
    have "find_in_slots name q (pre @ at_slots sec s (es @ [e]) @ rest)
        = find_in_slots name p1 ((e, sec, s + n) # rest)"
      using find_lfn [OF n(2) le_refl, of name p sec s "fat_lfn_checksum (de_name e)" "(e, sec, s + n) # rest",
          folded es]
      by (simp add: find_skip [OF assms(8)] at_slots_append len p1_def del: find_in_slots.simps)
    then show ?thesis using m p' assms(3-5) True len
      by (simp add: Let_def p'_def [symmetric] entry_location_def)
  qed
qed

section \<open>Writing into a sector\<close>

lemma lfn_entry_length [simp]: "length (lfn_entry name chk n k) = 32"
  by (simp add: lfn_entry_def)

lemma put_entry_length: "32 * slot + 32 \<le> length buf \<Longrightarrow> length e = 32 \<Longrightarrow> length (put_entry buf slot e) = length buf"
  by (simp add: put_entry_def)

text \<open>A run of slots of a buffer replaced by entries.\<close>

definition put_run :: "u8 list \<Rightarrow> nat \<Rightarrow> fat_entry list \<Rightarrow> u8 list" where
  "put_run buf s es = take (32 * s) buf @ concat es @ drop (32 * (s + length es)) buf"

lemma put_run_Nil [simp]: "put_run buf s [] = buf"
  by (simp add: put_run_def)

lemma concat_32: "\<forall>e\<in>set es. length e = 32 \<Longrightarrow> length (concat es) = 32 * length es"
  by (induction es) auto

lemma put_run_Cons:
  assumes "length e = 32" and "\<forall>x\<in>set es. length x = 32" and "32 * (s + 1) \<le> length buf"
  shows "put_run (put_entry buf s e) (s + 1) es = put_run buf s (e # es)"
  using assms by (simp add: put_run_def put_entry_def min_def algebra_simps)

lemma put_run_snoc:
  assumes "\<forall>x\<in>set (es @ [e]). length x = 32" and "32 * (s + length es + 1) \<le> length buf"
  shows "put_entry (put_run buf s es) (s + length es) e = put_run buf s (es @ [e])"
  using assms concat_32 [of es] by (simp add: put_run_def put_entry_def min_def algebra_simps)

lemma take_drop_concat:
  "\<forall>e\<in>set es. length e = 32 \<Longrightarrow> i < length es \<Longrightarrow> take 32 (drop (32 * i) (concat es @ r)) = es ! i"
proof (induction es arbitrary: i)
  case (Cons x es)
  then show ?case by (cases i) simp_all
qed simp

lemma entry_at_put_run:
  assumes "\<forall>e\<in>set es. length e = 32" and "length buf = 512" and "s + length es \<le> 16" and "i < 16"
  shows "entry_at (put_run buf s es) i =
    (if s \<le> i \<and> i < s + length es then es ! (i - s) else entry_at buf i)"
proof -
  consider "i < s" | "s \<le> i" "i < s + length es" | "s + length es \<le> i" by linarith
  then show ?thesis
  proof cases
    case 1
    then have "32 * i + 32 \<le> 32 * s" by linarith
    then have "32 \<le> 32 * s - 32 * i" by linarith
    then show ?thesis using 1 assms
      by (simp add: entry_at_def put_run_def min_absorb2 drop_take take_take min_absorb1)
  next
    case 2
    then have eq: "drop (32 * i) (put_run buf s es) = drop (32 * (i - s)) (concat es @ drop (32 * (s + length es)) buf)"
      using assms(2,3) by (simp add: put_run_def min_def diff_mult_distrib2)
    have "entry_at (put_run buf s es) i = es ! (i - s)"
      unfolding entry_at_def eq using 2 by (intro take_drop_concat [OF assms(1)]) linarith
    then show ?thesis using 2 by simp
  next
    case 3
    then have "drop (32 * i) (put_run buf s es) = drop (32 * i) buf"
      using assms(2,3) concat_32 [OF assms(1)] by (simp add: put_run_def min_def diff_mult_distrib2)
    then show ?thesis using 3 by (simp add: entry_at_def)
  qed
qed

lemma sector_slots_put_run:
  assumes "\<forall>e\<in>set es. length e = 32" and "length buf = 512" and "s + length es \<le> 16"
  shows "sector_slots sec (put_run buf s es) =
    take s (sector_slots sec buf) @ at_slots sec s es @ drop (s + length es) (sector_slots sec buf)"
  using assms(3)
  by (intro nth_equalityI)
    (auto simp: sector_slots_def at_slots_def nth_append entry_at_put_run [OF assms] min_def)

lemma write_lfn_loop_run:
  assumes "fs_bytes_per_sector fs = 512" and "length buf = 512" and "slot + k < 16"
  shows "write_lfn_loop fs name chk n k w sec slot buf =
    (w, Some (sec, slot + k, put_run buf slot (map (lfn_entry name chk n) (rev [1..<Suc k]))))"
  using assms(2,3)
proof (induction k arbitrary: slot buf)
  case (Suc k)
  let ?e = "lfn_entry name chk n (Suc k)"
  have "length (put_entry buf slot ?e) = 512" using Suc.prems by (simp add: put_entry_length)
  moreover have "put_run (put_entry buf slot ?e) (slot + 1) (map (lfn_entry name chk n) (rev [1..<Suc k]))
      = put_run buf slot (?e # map (lfn_entry name chk n) (rev [1..<Suc k]))"
    using Suc.prems by (intro put_run_Cons) auto
  ultimately show ?case using Suc assms(1) by (simp add: Let_def)
qed simp

text \<open>Writing an entry into one sector: the slots of the sector afterwards, and nothing else.\<close>

lemma write_entry_sector:
  assumes "device_ok (fs_bdev fs) sect nsec" and "fs_bytes_per_sector fs = 512" and "unat sec < nsec"
    and "length e = 32" and "length short = 11" and "slot + num_lfn_slots name < 16"
    and "fat_write_lfn_and_short_entry fs w sec slot name short e = (w', res)"
  shows "res = 0"
    "sect w' l = (if l = sec then put_run (sect w sec) slot
       (map (lfn_entry name (fat_lfn_checksum short) (num_lfn_slots name)) (rev [1..<Suc (num_lfn_slots name)])
        @ [short @ drop 11 e]) else sect w l)"
proof -
  let ?n = "num_lfn_slots name"
  let ?es = "map (lfn_entry name (fat_lfn_checksum short) ?n) (rev [1..<Suc ?n])" and ?e = "short @ drop 11 e"
  have len: "length (sect w sec) = 512" using device_length [OF assms(1)] by simp
  have run: "put_entry (put_run (sect w sec) slot ?es) (slot + length ?es) ?e = put_run (sect w sec) slot (?es @ [?e])"
    using assms(4-6) len by (intro put_run_snoc) auto
  have "length (put_run (sect w sec) slot (?es @ [?e])) = 512"
    using assms(4-6) len concat_32 [of "?es @ [?e]"] by (simp add: put_run_def del: upt_Suc)
  note dw = device_write_1 [OF assms(1,3) this, of w]
  have "fat_write_lfn_and_short_entry fs w sec slot name short e
      = bd_write (fs_bdev fs) w sec 1 (put_run (sect w sec) slot (?es @ [?e]))"
    using write_lfn_loop_run [OF assms(2) len assms(6)] run
    by (simp add: fat_write_lfn_and_short_entry_def Let_def device_read_1 [OF assms(1,3)] del: upt_Suc)
  with dw assms(7) show "res = 0" "sect w' l = (if l = sec then put_run (sect w sec) slot (?es @ [?e]) else sect w l)"
    by (simp_all del: upt_Suc)
qed

section \<open>A new entry of the root directory is found\<close>

lemma root_slots_concat:
  assumes "device_ok (fs_bdev fs) sect nsec" and "unat start + n \<le> nsec" and "nsec < 2 ^ 32"
  shows "root_slots fs w start n
    = concat (map (\<lambda>i. sector_slots (start + of_nat i) (sect w (start + of_nat i))) [0..<n])"
  using assms(2)
proof (induction n arbitrary: start)
  case (Suc n)
  have s1: "unat (start + 1) = unat start + 1"
    using Suc.prems assms(3) unat_add_of_nat [of start 1] by simp
  have "map (\<lambda>i. sector_slots (start + of_nat i) (sect w (start + of_nat i))) [0..<Suc n]
      = sector_slots start (sect w start)
        # map (\<lambda>i. sector_slots (start + 1 + of_nat i) (sect w (start + 1 + of_nat i))) [0..<n]"
    by (simp add: upt_conv_Cons map_Suc_upt [symmetric] add.assoc del: upt_Suc)
  then show ?case
    using Suc.IH [of "start + 1"] Suc.prems s1 device_read_1 [OF assms(1), of start w]
    by (simp del: upt_Suc)
qed simp

lemma sector_slots_length [simp]: "length (sector_slots sec buf) = 16"
  by (simp add: sector_slots_def)

lemma upt_split: "j < n \<Longrightarrow> [0..<n] = [0..<j] @ j # [Suc j..<n]"
proof -
  assume "j < n"
  then have "[0..<n] = [0..<j] @ [j..<n]" using upt_add_eq_append [of 0 j "n - j"] by simp
  with \<open>j < n\<close> show ?thesis by (simp add: upt_conv_Cons)
qed

lemma take_root:
  assumes "j < n" and "slot \<le> 16" and "\<And>i. length (f i) = 16"
  shows "take (16 * j + slot) (concat (map f [0..<n])) = concat (map f [0..<j]) @ take slot (f j)"
proof -
  note upt_split [OF assms(1)]
  moreover have "length (concat (map f [0..<j])) = 16 * j"
    using assms(3) by (simp add: length_concat comp_def sum_list_triv)
  ultimately show ?thesis using assms(2,3) by simp
qed

lemma written_entries:
  "map (lfn_entry name chk (num_lfn_slots name)) (rev [1..<Suc (num_lfn_slots name)])
     = (if fat_needs_lfn name then lfn_entries name chk else [])"
  by (simp add: num_lfn_slots_def lfn_entries_def Let_def)



end
