(* ===== verification/Fat_Tree.thy ===== *)
theory Fat_Tree
  imports Fat_Files
begin

text \<open>
  Removing and copying directory trees with \<open>src/fs/fat.c\<close>. These operations change the volume while
  they walk over it: the sector or cluster being walked is the copy read before, the chain is
  followed in the changed state, as in the sources.

  Two recursions follow the tree on the disk, \<open>fat_wipe_dir_contents\<close> and \<open>fat_copy_dir\<close>; the sources
  do not bound them. They carry a depth here, and \<open>None\<close> means that it is exceeded.
\<close>

section \<open>Emptying a directory\<close>

definition is_dot_entry :: "fat_entry \<Rightarrow> bool" where
  "is_dot_entry e \<longleftrightarrow> byte_at e 0 = asc CHR ''.''
     \<and> (byte_at e 1 = asc CHR '' '' \<or> byte_at e 1 = asc CHR ''.'' \<and> byte_at e 2 = asc CHR '' '')"

text \<open>The loop over the entries of one cluster, \<open>n\<close> of them left: the clusters of each are freed and
  its first byte is marked deleted in the buffer. \<open>sub\<close> is the recursive call.\<close>

primrec wipe_entries ::
  "('w \<Rightarrow> u32 \<Rightarrow> 'w option) \<Rightarrow> 'w fat_fs \<Rightarrow> nat \<Rightarrow> nat \<Rightarrow> 'w \<Rightarrow> u8 list \<Rightarrow> bool \<Rightarrow> ('w \<times> u8 list \<times> bool) option" where
  "wipe_entries sub fs 0 e w buf modified = Some (w, buf, modified)"
| "wipe_entries sub fs (Suc n) e w buf modified =
    (let ent = entry_at buf e;
         c = entry_cluster ent;
         continue = (\<lambda>w. wipe_entries sub fs n (e + 1) w (buf[32 * e := 0xE5]) True)
     in if byte_at ent 0 = 0x00 then Some (w, buf, modified)
        else if byte_at ent 0 = 0xE5 \<or> not_a_file ent \<or> is_dot_entry ent
        then wipe_entries sub fs n (e + 1) w buf modified
        else if c < 2 then continue w
        else if is_directory ent then
          (case sub w c of None \<Rightarrow> None | Some w' \<Rightarrow> continue (fat_free_cluster_chain fs w' c))
        else continue (fat_free_cluster_chain fs w c))"

primrec wipe_chain :: "('w \<Rightarrow> u32 \<Rightarrow> 'w option) \<Rightarrow> 'w fat_fs \<Rightarrow> nat \<Rightarrow> 'w \<Rightarrow> u32 \<Rightarrow> 'w option" where
  "wipe_chain sub fs 0 w cur = Some w"
| "wipe_chain sub fs (Suc n) w cur =
    (if cur \<ge> 2 \<and> cur < fat_eof_limit fs then
       (case read_cluster fs w cur of
          None \<Rightarrow> Some w
        | Some buf \<Rightarrow>
           (case wipe_entries sub fs (unat (fs_bytes_per_cluster fs) div 32) 0 w buf False of
              None \<Rightarrow> None
            | Some (w1, buf', modified) \<Rightarrow>
               (let w2 = (if modified then fst (write_cluster fs w1 cur buf') else w1);
                    next = get_next_cluster fs w2 cur
                in if next = cur \<or> next < 2 then Some w2 else wipe_chain sub fs n w2 next)))
     else Some w)"

primrec fat_wipe_dir_contents :: "(u32 \<Rightarrow> bool) \<Rightarrow> 'w fat_fs \<Rightarrow> nat \<Rightarrow> 'w \<Rightarrow> u32 \<Rightarrow> 'w option" where
  "fat_wipe_dir_contents km fs 0 w dir = None"
| "fat_wipe_dir_contents km fs (Suc depth) w dir =
    (if dir < 2 \<or> fs_bytes_per_cluster fs = 0 \<or> \<not> km (fs_bytes_per_cluster fs) then Some w
     else wipe_chain (fat_wipe_dir_contents km fs depth) fs 65536 w dir)"

section \<open>Deleting an entry\<close>

text \<open>The loop that marks the long-name entries deleted. When the next sector cannot be read it ends
  with the number of that sector and the buffer of the one before.\<close>

primrec mark_lfn_loop :: "'w fat_fs \<Rightarrow> nat \<Rightarrow> 'w \<Rightarrow> u32 \<Rightarrow> nat \<Rightarrow> u8 list \<Rightarrow> 'w \<times> u32 \<times> u8 list" where
  "mark_lfn_loop fs 0 w sec slot buf = (w, sec, buf)"
| "mark_lfn_loop fs (Suc k) w sec slot buf =
    (let buf' = buf[32 * slot := 0xE5]
     in if slot + 1 \<ge> unat (fs_bytes_per_sector fs) div 32 then
          (let w' = fst (bd_write (fs_bdev fs) w sec 1 buf')
           in case bd_read (fs_bdev fs) w' (sec + 1) 1 of
                None \<Rightarrow> (w', sec + 1, buf')
              | Some buf'' \<Rightarrow> mark_lfn_loop fs k w' (sec + 1) 0 buf'')
        else mark_lfn_loop fs k w sec (slot + 1) buf')"

definition mark_lfn_deleted :: "'w fat_fs \<Rightarrow> 'w \<Rightarrow> u32 \<Rightarrow> int \<Rightarrow> int \<Rightarrow> 'w" where
  "mark_lfn_deleted fs w lfn_sec lfn_slot lfn_count =
    (if lfn_count > 0 \<and> lfn_sec > 0 \<and> lfn_slot \<ge> 0 then
       (case bd_read (fs_bdev fs) w lfn_sec 1 of
          None \<Rightarrow> w
        | Some buf \<Rightarrow>
            (case mark_lfn_loop fs (nat lfn_count) w lfn_sec (nat lfn_slot) buf of
               (w', sec, buf') \<Rightarrow> fst (bd_write (fs_bdev fs) w' sec 1 buf')))
     else w)"

definition mark_deleted :: "'w fat_fs \<Rightarrow> 'w \<Rightarrow> u32 \<Rightarrow> nat \<Rightarrow> 'w \<times> int" where
  "mark_deleted fs w sector slot =
    (case bd_read (fs_bdev fs) w sector 1 of
       None \<Rightarrow> (w, -1)
     | Some buf \<Rightarrow> bd_write (fs_bdev fs) w sector 1 (buf[32 * slot := 0xE5]))"

definition fat_delete_entry_at ::
  "(u32 \<Rightarrow> bool) \<Rightarrow> nat \<Rightarrow> 'w fat_fs \<Rightarrow> 'w \<Rightarrow> u32 \<Rightarrow> nat \<Rightarrow> fat_entry \<Rightarrow> u32 \<Rightarrow> int \<Rightarrow> int \<Rightarrow> bool
     \<Rightarrow> ('w \<times> int) option" where
  "fat_delete_entry_at km depth fs w sector slot e lfn_sec lfn_slot lfn_count recursive =
    (let c = entry_cluster e;
         mark = (\<lambda>w. mark_deleted fs (mark_lfn_deleted fs w lfn_sec lfn_slot lfn_count) sector slot)
     in if is_directory e then
          (if \<not> recursive then Some (w, -2)
           else if c \<ge> 2 then
             (case fat_wipe_dir_contents km fs depth w c of
                None \<Rightarrow> None
              | Some w' \<Rightarrow> Some (mark (fat_free_cluster_chain fs w' c)))
           else Some (mark w))
        else Some (mark (if c \<ge> 2 then fat_free_cluster_chain fs w c else w)))"

section \<open>Removing by name or pattern\<close>

text \<open>How the loop over the slots of a buffer ends: going on to the next buffer, at the end of the
  directory, or with the function's result.\<close>

datatype 'w rm_state = Rm_More 'w lfn_parser int | Rm_Done 'w int | Rm_Return 'w int

definition rm_matches :: "bool \<Rightarrow> u8 list \<Rightarrow> lfn_parser \<Rightarrow> fat_entry \<Rightarrow> bool" where
  "rm_matches is_wildcard target p e =
    (if is_wildcard
     then lfn_ready p \<and> fat_pattern_match target (cstr (lp_name p))
       \<or> fat_pattern_match target (cstr (format_fat_name (de_name e)))
     else name_matches p e target)"

fun rm_slots ::
  "(u32 \<Rightarrow> bool) \<Rightarrow> nat \<Rightarrow> 'w fat_fs \<Rightarrow> bool \<Rightarrow> bool \<Rightarrow> u8 list \<Rightarrow> slot list \<Rightarrow> 'w \<Rightarrow> lfn_parser \<Rightarrow> int
     \<Rightarrow> 'w rm_state option" where
  "rm_slots km depth fs rec wild target [] w p count = Some (Rm_More w p count)"
| "rm_slots km depth fs rec wild target ((e, sec, slot) # rest) w p count =
    (if byte_at e 0 = 0x00 then Some (Rm_Done w count)
     else if byte_at e 0 = 0xE5 then rm_slots km depth fs rec wild target rest w lfn_parser_reset count
     else let p' = lfn_parser_feed p e sec (int slot)
       in if not_a_file e then rm_slots km depth fs rec wild target rest w p' count
          else if is_dot_entry e \<or> \<not> rm_matches wild target p' e
          then rm_slots km depth fs rec wild target rest w lfn_parser_reset count
          else (case fat_delete_entry_at km depth fs w sec slot e
                       (lp_start_sec p') (lp_start_slot p') (lp_total p') rec of
                  None \<Rightarrow> None
                | Some (w', res) \<Rightarrow>
                    if res = 0 then
                      (if \<not> wild then Some (Rm_Return w' 1)
                       else rm_slots km depth fs rec wild target rest w' lfn_parser_reset (count + 1))
                    else if res = -2 \<and> \<not> wild then Some (Rm_Return w' (-2))
                    else rm_slots km depth fs rec wild target rest w' lfn_parser_reset count))"

definition rm_result :: "'w \<Rightarrow> int \<Rightarrow> 'w \<times> int" where
  "rm_result w count = (w, if count > 0 then count else -1)"

primrec rm_root ::
  "(u32 \<Rightarrow> bool) \<Rightarrow> nat \<Rightarrow> 'w fat_fs \<Rightarrow> bool \<Rightarrow> bool \<Rightarrow> u8 list \<Rightarrow> nat \<Rightarrow> u32 \<Rightarrow> 'w \<Rightarrow> lfn_parser \<Rightarrow> int
     \<Rightarrow> ('w \<times> int) option" where
  "rm_root km depth fs rec wild target 0 sec w p count = Some (rm_result w count)"
| "rm_root km depth fs rec wild target (Suc n) sec w p count =
    (case bd_read (fs_bdev fs) w sec 1 of
       None \<Rightarrow> Some (rm_result w count)
     | Some sector \<Rightarrow>
        (case rm_slots km depth fs rec wild target (sector_slots sec sector) w p count of
           None \<Rightarrow> None
         | Some (Rm_Return w' r) \<Rightarrow> Some (w', r)
         | Some (Rm_Done w' count') \<Rightarrow> Some (rm_result w' count')
         | Some (Rm_More w' p' count') \<Rightarrow> rm_root km depth fs rec wild target n (sec + 1) w' p' count'))"

primrec rm_chain ::
  "(u32 \<Rightarrow> bool) \<Rightarrow> nat \<Rightarrow> 'w fat_fs \<Rightarrow> bool \<Rightarrow> bool \<Rightarrow> u8 list \<Rightarrow> nat \<Rightarrow> u32 \<Rightarrow> 'w \<Rightarrow> lfn_parser \<Rightarrow> int
     \<Rightarrow> ('w \<times> int) option" where
  "rm_chain km depth fs rec wild target 0 cur w p count = Some (rm_result w count)"
| "rm_chain km depth fs rec wild target (Suc n) cur w p count =
    (if cur \<ge> 2 \<and> cur < fat_eof_limit fs then
       (case read_cluster fs w cur of
          None \<Rightarrow> Some (rm_result w count)
        | Some buf \<Rightarrow>
           (case rm_slots km depth fs rec wild target (cluster_slots fs cur buf) w p count of
              None \<Rightarrow> None
            | Some (Rm_Return w' r) \<Rightarrow> Some (w', r)
            | Some (Rm_Done w' count') \<Rightarrow> Some (rm_result w' count')
            | Some (Rm_More w' p' count') \<Rightarrow>
               (let next = get_next_cluster fs w' cur
                in if next = cur \<or> next < 2 then Some (rm_result w' count')
                   else rm_chain km depth fs rec wild target n next w' p' count')))
     else Some (rm_result w count))"

definition fat_remove ::
  "(u32 \<Rightarrow> bool) \<Rightarrow> nat \<Rightarrow> 'w fat_fs \<Rightarrow> 'w \<Rightarrow> u8 list \<Rightarrow> bool \<Rightarrow> ('w \<times> int) option" where
  "fat_remove km depth fs w path recursive =
    (case fat_resolve_parent_and_name km fs w path of
       None \<Rightarrow> Some (w, -1)
     | Some (dir, target) \<Rightarrow>
        (let wild = (asc CHR ''*'' \<in> set target \<or> asc CHR ''?'' \<in> set target)
         in if target = [] \<or> target = bytes ''.'' \<or> target = bytes ''..'' then Some (w, -1)
            else if is_root_fixed dir then
              rm_root km depth fs recursive wild target (max_root_sectors fs) (fs_root_dir_start_sector fs)
                w lfn_parser_reset 0
            else if dir_cluster dir < 2 \<or> fs_bytes_per_cluster fs = 0 \<or> \<not> km (fs_bytes_per_cluster fs)
            then Some (w, -1)
            else rm_chain km depth fs recursive wild target 65536 (dir_cluster dir) w lfn_parser_reset 0))"

definition fat_delete_file :: "(u32 \<Rightarrow> bool) \<Rightarrow> nat \<Rightarrow> 'w fat_fs \<Rightarrow> 'w \<Rightarrow> u8 list \<Rightarrow> ('w \<times> int) option" where
  "fat_delete_file km depth fs w path = fat_remove km depth fs w path False"

section \<open>Copying a directory\<close>

definition join_path :: "u8 list \<Rightarrow> u8 list \<Rightarrow> u8 list" where
  "join_path base item =
    (case snprintf 512 (bytes ''%s/%s'') [Str_Arg (if base = bytes ''/'' then [] else base), Str_Arg item] of
       Some (b, n) \<Rightarrow> take n b | None \<Rightarrow> [])"

text \<open>The loop over the slots of one buffer: \<open>item\<close> copies one file or directory. The flag is true
  when the end of the directory was reached.\<close>

fun copy_slots ::
  "('w \<Rightarrow> u8 list \<Rightarrow> bool \<Rightarrow> 'w option) \<Rightarrow> slot list \<Rightarrow> 'w \<Rightarrow> lfn_parser \<Rightarrow> ('w \<times> lfn_parser \<times> bool) option" where
  "copy_slots item [] w p = Some (w, p, False)"
| "copy_slots item ((e, sec, slot) # rest) w p =
    (if byte_at e 0 = 0x00 then Some (w, p, True)
     else if byte_at e 0 = 0xE5 then copy_slots item rest w lfn_parser_reset
     else let p' = lfn_parser_feed p e sec (int slot)
       in if not_a_file e then copy_slots item rest w p'
          else if is_dot_entry e then copy_slots item rest w lfn_parser_reset
          else (case item w (display_name p' e) (is_directory e) of
                  None \<Rightarrow> None | Some w' \<Rightarrow> copy_slots item rest w' lfn_parser_reset))"

primrec copy_root ::
  "('w \<Rightarrow> u8 list \<Rightarrow> bool \<Rightarrow> 'w option) \<Rightarrow> 'w fat_fs \<Rightarrow> nat \<Rightarrow> u32 \<Rightarrow> 'w \<Rightarrow> lfn_parser \<Rightarrow> 'w option" where
  "copy_root item fs 0 sec w p = Some w"
| "copy_root item fs (Suc n) sec w p =
    (case bd_read (fs_bdev fs) w sec 1 of
       None \<Rightarrow> Some w
     | Some sector \<Rightarrow>
        (case copy_slots item (sector_slots sec sector) w p of
           None \<Rightarrow> None
         | Some (w', p', fin) \<Rightarrow> if fin then Some w' else copy_root item fs n (sec + 1) w' p'))"

primrec copy_chain ::
  "('w \<Rightarrow> u8 list \<Rightarrow> bool \<Rightarrow> 'w option) \<Rightarrow> 'w fat_fs \<Rightarrow> nat \<Rightarrow> u32 \<Rightarrow> 'w \<Rightarrow> lfn_parser \<Rightarrow> 'w option" where
  "copy_chain item fs 0 cur w p = Some w"
| "copy_chain item fs (Suc n) cur w p =
    (if cur \<ge> 2 \<and> cur < fat_eof_limit fs then
       (case read_cluster fs w cur of
          None \<Rightarrow> Some w
        | Some buf \<Rightarrow>
           (case copy_slots item (cluster_slots fs cur buf) w p of
              None \<Rightarrow> None
            | Some (w', p', fin) \<Rightarrow>
                if fin then Some w'
                else let next = get_next_cluster fs w' cur
                     in if next = cur \<or> next < 2 then Some w' else copy_chain item fs n next w' p'))
     else Some w)"

primrec fat_copy_dir ::
  "(u32 \<Rightarrow> bool) \<Rightarrow> 'w fat_fs \<Rightarrow> 'w fat_fs \<Rightarrow> nat \<Rightarrow> 'w \<Rightarrow> u8 list \<Rightarrow> u8 list \<Rightarrow> ('w \<times> int) option" where
  "fat_copy_dir km src_fs dst_fs 0 w src_path dst_path = None"
| "fat_copy_dir km src_fs dst_fs (Suc depth) w src_path dst_path =
    (let w1 = (if fat_is_dir km dst_fs w dst_path \<noteq> 1 then fst (fat_mkdir km dst_fs w dst_path) else w);
         item = (\<lambda>w name is_dir.
           if is_dir
           then map_option fst (fat_copy_dir km src_fs dst_fs depth w (join_path src_path name) (join_path dst_path name))
           else Some (fst (fat_copy_file km w src_fs (join_path src_path name) dst_fs (join_path dst_path name))))
     in case fat_resolve_dir km src_fs w1 src_path of
          None \<Rightarrow> Some (w1, -1)
        | Some dir \<Rightarrow>
           if is_root_fixed dir then
             map_option (\<lambda>w. (w, 0)) (copy_root item src_fs (max_root_sectors src_fs)
               (fs_root_dir_start_sector src_fs) w1 lfn_parser_reset)
           else if dir_cluster dir < 2 \<or> fs_bytes_per_cluster src_fs = 0 \<or> \<not> km (fs_bytes_per_cluster src_fs)
           then Some (w1, -1)
           else map_option (\<lambda>w. (w, 0)) (copy_chain item src_fs 65536 (dir_cluster dir) w1 lfn_parser_reset))"

end
