(* ===== verification/Fat_Mount.thy ===== *)
theory Fat_Mount
  imports Fat_Chains
begin

text \<open>
  Mounting: a boot sector whose numbers are consistent yields a volume that fits the device, so that
  what is proved of FAT16 and FAT32 volumes holds of it.
\<close>

definition bpb_fat_size :: "u8 list \<Rightarrow> nat" where
  "bpb_fat_size s = (if fat_read_le16 s 22 \<noteq> 0 then unat (fat_read_le16 s 22) else unat (fat_read_le32 s 36))"

definition bpb_root_sectors :: "u8 list \<Rightarrow> nat" where
  "bpb_root_sectors s = (if fat_read_le16 s 22 \<noteq> 0 then (unat (fat_read_le16 s 17) * 32 + 511) div 512 else 0)"

text \<open>The sectors before the data area, and the number of clusters.\<close>

definition bpb_meta :: "u8 list \<Rightarrow> nat" where
  "bpb_meta s = unat (fat_read_le16 s 14) + unat (byte_at s 16) * bpb_fat_size s + bpb_root_sectors s"

definition bpb_clusters :: "u8 list \<Rightarrow> u32 \<Rightarrow> nat" where
  "bpb_clusters s nsecs = (unat nsecs - bpb_meta s) div unat (byte_at s 13)"

text \<open>The metadata of a volume of \<open>nsecs\<close> sectors at \<open>lba\<close> fit into it and the volume into the
  device; the numbers in its boot sector are consistent with the FAT16 and FAT32 formats.\<close>

definition bpb_fits :: "u8 list \<Rightarrow> u32 \<Rightarrow> u32 \<Rightarrow> nat \<Rightarrow> bool" where
  "bpb_fits s lba nsecs nsec \<longleftrightarrow>
     fat_read_le16 s 11 = 512 \<and> unat lba + unat nsecs \<le> nsec \<and> nsec < 2 ^ 32 \<and> bpb_meta s < unat nsecs"

definition bpb_consistent :: "u8 list \<Rightarrow> u32 \<Rightarrow> u32 \<Rightarrow> nat \<Rightarrow> bool" where
  "bpb_consistent s lba nsecs nsec \<longleftrightarrow>
     bpb_fits s lba nsecs nsec \<and> 4085 \<le> bpb_clusters s nsecs \<and> bpb_clusters s nsecs + 2 \<le> 0x0FFFFFF8
     \<and> (bpb_clusters s nsecs + 2) * (if bpb_clusters s nsecs < 65525 then 2 else 4) \<le> 512 * bpb_fat_size s"

lemma unat_ucast_u8: "unat (ucast (c :: u8) :: u32) = unat c"
  using order_less_trans [OF unat_less_256 [of c], of "2 ^ 32"]
  by (simp add: unsigned_ucast_eq take_bit_nat_eq_self_iff)

lemma unat_add_fits: "unat a + unat b < 2 ^ 32 \<Longrightarrow> unat (a + b) = unat a + unat (b :: u32)"
  by (simp add: unat_word_ariths)

lemma unat_mult_fits: "unat a * unat b < 2 ^ 32 \<Longrightarrow> unat (a * b) = unat a * unat (b :: u32)"
  by (simp add: unat_word_ariths)

lemma root_sectors_word:
  assumes "fat_read_le16 s 22 \<noteq> 0"
  shows "unat ((ucast (fat_read_le16 s 17) * 32 + (512 - 1)) div 512 :: u32) = bpb_root_sectors s"
proof -
  let ?r = "unat (fat_read_le16 s 17)"
  have r: "?r < 65536" by (rule unat_less_64K)
  have "unat (ucast (fat_read_le16 s 17) * 32 :: u32) = ?r * 32"
    using unat_mult_fits [of "ucast (fat_read_le16 s 17)" 32] r by (simp add: unat_ucast_u16)
  then have "unat (ucast (fat_read_le16 s 17) * 32 + 511 :: u32) = ?r * 32 + 511"
    using unat_add_fits [of "ucast (fat_read_le16 s 17) * 32" 511] r by simp
  then show ?thesis using assms by (simp add: bpb_root_sectors_def unat_div)
qed

lemma geometry_numbers:
  assumes "bpb_fits s lba nsecs nsec" and "fs = fat_geometry bdev lba s nsecs"
  shows "unat (fs_fat_size_sectors fs) = bpb_fat_size s" "fs_bytes_per_sector fs = 512"
    "unat (fs_sectors_per_cluster fs) = unat (byte_at s 13)" "unat (fs_num_fats fs) = unat (byte_at s 16)"
    "unat (fs_fat_start_sector fs) = unat lba + unat (fat_read_le16 s 14)"
    "unat (fs_data_start_sector fs) = unat lba + bpb_meta s"
    "unat (fs_total_clusters fs) = bpb_clusters s nsecs"
    "unat (fs_bytes_per_cluster fs) = 512 * unat (byte_at s 13)" "fs_bdev fs = bdev"
proof -
  have c: "unat lba + unat nsecs < 2 ^ 32" "bpb_meta s < unat nsecs" "fat_read_le16 s 11 = 512"
    using assms(1) by (auto simp: bpb_fits_def)
  have meta: "unat (fat_read_le16 s 14) + unat (byte_at s 16) * bpb_fat_size s + bpb_root_sectors s = bpb_meta s"
    by (simp add: bpb_meta_def)
  show size: "unat (fs_fat_size_sectors fs) = bpb_fat_size s"
    by (simp add: assms(2) fat_geometry_def Let_def bpb_fat_size_def unat_ucast_u16)
  show bps: "fs_bytes_per_sector fs = 512" by (simp add: assms(2) fat_geometry_def Let_def c(3))
  show spc: "unat (fs_sectors_per_cluster fs) = unat (byte_at s 13)"
    by (simp add: assms(2) fat_geometry_def Let_def unat_ucast_u8)
  show nf: "unat (fs_num_fats fs) = unat (byte_at s 16)"
    by (simp add: assms(2) fat_geometry_def Let_def unat_ucast_u8)
  show "fs_bdev fs = bdev" by (simp add: assms(2) fat_geometry_def Let_def)
  have start_eq: "fs_fat_start_sector fs = lba + ucast (fat_read_le16 s 14)"
    by (simp add: assms(2) fat_geometry_def Let_def)
  show start: "unat (fs_fat_start_sector fs) = unat lba + unat (fat_read_le16 s 14)"
    unfolding start_eq using c meta by (subst unat_add_fits) (auto simp: unat_ucast_u16)
  have prod: "unat (fs_num_fats fs * fs_fat_size_sectors fs) = unat (byte_at s 16) * bpb_fat_size s"
    using c meta by (subst unat_mult_fits) (auto simp: nf size)
  then have tables: "unat (fs_fat_start_sector fs + fs_num_fats fs * fs_fat_size_sectors fs)
      = unat lba + unat (fat_read_le16 s 14) + unat (byte_at s 16) * bpb_fat_size s"
    using c meta by (subst unat_add_fits) (auto simp: start)
  have data_eq: "fs_data_start_sector fs = fs_fat_start_sector fs + fs_num_fats fs * fs_fat_size_sectors fs
      + (if fat_read_le16 s 22 \<noteq> 0 then (ucast (fat_read_le16 s 17) * 32 + (512 - 1)) div 512 else 0)"
    by (simp add: assms(2) fat_geometry_def Let_def c(3))
  have roots: "unat (if fat_read_le16 s 22 \<noteq> 0 then (ucast (fat_read_le16 s 17) * 32 + (512 - 1)) div 512 else 0 :: u32)
      = bpb_root_sectors s"
    using root_sectors_word [of s] by (simp add: bpb_root_sectors_def)
  have lt: "unat (fs_fat_start_sector fs + fs_num_fats fs * fs_fat_size_sectors fs)
      + unat (if fat_read_le16 s 22 \<noteq> 0 then (ucast (fat_read_le16 s 17) * 32 + (512 - 1)) div 512 else 0 :: u32) < 2 ^ 32"
    unfolding tables roots using c(1,2) meta by linarith
  show data: "unat (fs_data_start_sector fs) = unat lba + bpb_meta s"
    unfolding data_eq unat_add_fits [OF lt] tables roots using meta by linarith
  have rel: "unat (fs_data_start_sector fs - lba) = bpb_meta s"
    using data by (simp add: unat_sub_if_size)
  have tc_eq: "fs_total_clusters fs = (if nsecs > fs_data_start_sector fs - lba
      then nsecs - (fs_data_start_sector fs - lba) else 0) div fs_sectors_per_cluster fs"
    by (simp add: assms(2) fat_geometry_def Let_def)
  have less: "nsecs > fs_data_start_sector fs - lba" using rel c(2) by (simp add: word_less_nat_alt)
  then have "unat (nsecs - (fs_data_start_sector fs - lba)) = unat nsecs - bpb_meta s"
    using rel c(2) by (simp add: unat_sub_if_size)
  then show "unat (fs_total_clusters fs) = bpb_clusters s nsecs"
    unfolding tc_eq using less by (simp add: unat_div spc bpb_clusters_def)
  have bpc_eq: "fs_bytes_per_cluster fs = fs_bytes_per_sector fs * fs_sectors_per_cluster fs"
    by (simp add: assms(2) fat_geometry_def Let_def)
  show "unat (fs_bytes_per_cluster fs) = 512 * unat (byte_at s 13)"
    unfolding bpc_eq bps by (subst unat_mult_fits) (simp_all add: spc order_less_trans [OF unat_less_256])
qed

text \<open>What the checks of a boot sector guarantee.\<close>

lemma valid_bpb:
  assumes "is_valid_fat_bpb s = Some nsecs"
  shows "byte_at s 13 \<noteq> 0" "1 \<le> unat (byte_at s 16)"
  using assms by (auto simp: is_valid_fat_bpb_def Let_def unat_gt_0 Suc_le_eq split: if_splits)

lemma boot_sector_valid:
  assumes "boot_sector bdev w = Some (lba, s, nsecs)"
  shows "is_valid_fat_bpb s = Some nsecs"
proof -
  have part: "is_valid_fat_bpb s = Some nsecs"
    if "find_partition bdev w sec p n = Some (lba, s, nsecs)" for sec p n
    using that by (induction bdev w sec p n rule: find_partition.induct)
      (auto simp: Let_def split: if_splits option.splits)
  show ?thesis using assms part
    by (auto simp: boot_sector_def split: option.splits if_splits)
qed

lemma mount_consistent:
  assumes "boot_sector bdev w = Some (lba, s, nsecs)" and "bpb_consistent s lba nsecs nsec"
    and fs_def: "fs = fat_geometry bdev lba s nsecs"
  shows "fat_mount bdev w = Some (fat_set_type fs)" "volume_ok (fat_set_type fs) nsec"
    "fs_type (fat_set_type fs) = (if bpb_clusters s nsecs < 65525 then FAT_TYPE_FAT16 else FAT_TYPE_FAT32)"
    "fs_type (fat_set_type fs) = FAT_TYPE_FAT32 \<Longrightarrow> 2 \<le> fs_root_cluster (fat_set_type fs)"
proof -
  have fits: "bpb_fits s lba nsecs nsec" using assms(2) by (simp add: bpb_consistent_def)
  note g = geometry_numbers [OF fits fs_def]
  note v = valid_bpb [OF boot_sector_valid [OF assms(1)]]
  have c: "4085 \<le> bpb_clusters s nsecs" "unat lba + unat nsecs \<le> nsec" "nsec < 2 ^ 32" "bpb_meta s < unat nsecs"
    "bpb_clusters s nsecs + 2 \<le> 0x0FFFFFF8"
    "(bpb_clusters s nsecs + 2) * (if bpb_clusters s nsecs < 65525 then 2 else 4) \<le> 512 * bpb_fat_size s"
    using assms(2) by (auto simp: bpb_consistent_def bpb_fits_def)
  have spc: "0 < unat (byte_at s 13)" using v(1) by (simp add: unat_gt_0)
  have size: "fs_fat_size_sectors fs \<noteq> 0" "fs_bytes_per_cluster fs \<noteq> 0"
    using g(1,8) spc c(1,6) by (auto split: if_splits)
  show "fat_mount bdev w = Some (fat_set_type fs)"
    using assms(1) size by (simp add: fat_mount_def fs_def Let_def)
  have dat: "unat lba + bpb_meta s + bpb_clusters s nsecs * unat (byte_at s 13) \<le> nsec"
  proof -
    have "bpb_clusters s nsecs * unat (byte_at s 13) \<le> unat nsecs - bpb_meta s"
      by (simp add: bpb_clusters_def)
    then show ?thesis using c(2,4) by linarith
  qed
  have tab: "unat lba + unat (fat_read_le16 s 14) + unat (byte_at s 16) * bpb_fat_size s \<le> unat lba + bpb_meta s"
    by (simp add: bpb_meta_def)
  have ty: "fs_total_clusters fs < 4085 \<longleftrightarrow> False" "fs_total_clusters fs < 65525 \<longleftrightarrow> bpb_clusters s nsecs < 65525"
    using g(7) c(1) by (simp_all add: word_less_nat_alt)
  show "volume_ok (fat_set_type fs) nsec"
    using g c spc dat tab v(2) ty
    by (auto simp: volume_ok_def fat_set_type_def ent_width_def fat_eof_limit_def split: if_splits)
  show "fs_type (fat_set_type fs) = (if bpb_clusters s nsecs < 65525 then FAT_TYPE_FAT16 else FAT_TYPE_FAT32)"
    "fs_type (fat_set_type fs) = FAT_TYPE_FAT32 \<Longrightarrow> 2 \<le> fs_root_cluster (fat_set_type fs)"
    using ty by (auto simp: fat_set_type_def word_le_nat_alt word_less_nat_alt)
qed

text \<open>C27. Mounting a device, directly or through its partition table, whose boot sector is valid and
  has consistent numbers (512-byte sectors, the data area inside the device, at least 4085 clusters
  and a table with an entry for each) succeeds, and the volume it describes lies inside the device:
  FAT16 below 65525 clusters and FAT32 from there on, with a root cluster of at least 2.\<close>

theorem fat_mount_volume_ok:
  assumes "boot_sector bdev w = Some (lba, s, nsecs)" and "bpb_consistent s lba nsecs nsec"
  shows "\<exists>fs. fat_mount bdev w = Some fs \<and> volume_ok fs nsec \<and> fs_bdev fs = bdev
    \<and> fs_type fs = (if bpb_clusters s nsecs < 65525 then FAT_TYPE_FAT16 else FAT_TYPE_FAT32)
    \<and> (fs_type fs = FAT_TYPE_FAT32 \<longrightarrow> 2 \<le> fs_root_cluster fs)"
proof -
  let ?fs = "fat_geometry bdev lba s nsecs"
  have "fs_bdev (fat_set_type ?fs) = bdev"
    by (simp add: fat_set_type_def fat_geometry_def Let_def)
  then show ?thesis using mount_consistent [OF assms refl] by auto
qed

text \<open>A FAT16 boot sector: 512-byte sectors, 1 sector per cluster, 1 reserved sector, 2 tables of 21
  sectors, 16 root entries, 5200 sectors.\<close>

definition demo_bpb :: "u8 list" where
  "demo_bpb = [0xEB, 0x3C, 0x90] @ bytes ''GEMIOS  '' @ [0, 2, 1, 1, 0, 2, 16, 0, 0x50, 0x14, 0xF8, 21, 0]
     @ replicate 486 0 @ [0x55, 0xAA]"

lemma demo_fields: "fat_read_le16 demo_bpb 11 = 512" "byte_at demo_bpb 13 = 1" "fat_read_le16 demo_bpb 14 = 1"
  "byte_at demo_bpb 16 = 2" "fat_read_le16 demo_bpb 17 = 16" "fat_read_le16 demo_bpb 22 = 21" "is_valid_fat_bpb demo_bpb = Some 5200"
  by code_simp+

lemma demo_boot:
  "boot_sector ram_dev (\<lambda>l. demo_bpb) = Some (0, demo_bpb, 5200)" "bpb_consistent demo_bpb 0 5200 17000"
  "bpb_clusters demo_bpb 5200 = 5156"
proof -
  have "bd_read ram_dev (\<lambda>l. demo_bpb) 0 1 = Some demo_bpb" by code_simp
  then show "boot_sector ram_dev (\<lambda>l. demo_bpb) = Some (0, demo_bpb, 5200)"
    by (simp add: boot_sector_def demo_fields)
  have n: "bpb_clusters demo_bpb 5200 = 5156" "bpb_meta demo_bpb = 44" "bpb_fat_size demo_bpb = 21"
    by (simp_all add: bpb_clusters_def bpb_meta_def bpb_fat_size_def bpb_root_sectors_def demo_fields)
  with demo_fields(1) show "bpb_consistent demo_bpb 0 5200 17000" "bpb_clusters demo_bpb 5200 = 5156"
    by (simp_all add: bpb_consistent_def bpb_fits_def)
qed

theorem fat_mount_volume_ok_witness:
  "\<exists>fs. fat_mount ram_dev (\<lambda>l. demo_bpb) = Some fs \<and> volume_ok fs 17000 \<and> fs_type fs = FAT_TYPE_FAT16"
  using fat_mount_volume_ok [OF demo_boot(1,2)] demo_boot(3) by auto

end
