(* ===== verification/Mkfs.thy ===== *)
theory Mkfs
  imports Fat_Mount
begin

text \<open>
  The host tool \<open>tools/mkfs_fat.c\<close> that formats a disk image with a FAT file system: its argument
  parser, the choice of type and cluster size, the boot sector and the sectors it writes. The proofs
  give the fields of the boot sector and the contents of the image, sector by sector.

  A file is its size and its sectors as a function of their number: the tool writes whole sectors of
  512 bytes and seeks to multiples of 512 only, so the file position is a sector number. Messages
  are not modelled. Arguments are C strings as lists of their bytes.
\<close>

section \<open>Bytes\<close>

definition SECTOR_SIZE :: nat where "SECTOR_SIZE = 512"

definition wr_le16 :: "u8 list \<Rightarrow> nat \<Rightarrow> u16 \<Rightarrow> u8 list" where
  "wr_le16 p i val = p[i := ucast (val AND 0xFF), i + 1 := ucast (drop_bit 8 val AND 0xFF)]"

definition wr_le32 :: "u8 list \<Rightarrow> nat \<Rightarrow> u32 \<Rightarrow> u8 list" where
  "wr_le32 p i val = p[i := ucast (val AND 0xFF), i + 1 := ucast (drop_bit 8 val AND 0xFF),
     i + 2 := ucast (drop_bit 16 val AND 0xFF), i + 3 := ucast (drop_bit 24 val AND 0xFF)]"

text \<open>\<open>memcpy\<close> of the bytes \<open>src\<close> to offset \<open>i\<close> of a buffer that has room for them.\<close>

definition put_bytes :: "u8 list \<Rightarrow> nat \<Rightarrow> u8 list \<Rightarrow> u8 list" where
  "put_bytes p i src = take i p @ src @ drop (i + length src) p"

definition format_volume_label :: "u8 list option \<Rightarrow> u8 list" where
  "format_volume_label src =
    (case src of
       None \<Rightarrow> replicate 11 (asc CHR '' '')
     | Some s \<Rightarrow> map to_upper_char (take 11 s) @ replicate (11 - length s) (asc CHR '' ''))"

section \<open>The boot sector\<close>

text \<open>The fields all types share, then those of FAT12 and FAT16 and those of FAT32.\<close>

definition make_bpb_common :: "int \<Rightarrow> u32 \<Rightarrow> u8 \<Rightarrow> u16 \<Rightarrow> u16 \<Rightarrow> u32 \<Rightarrow> u8 list" where
  "make_bpb_common fat_type total_sectors sec_per_clus rsvd_sec_cnt root_ent_cnt fat_size =
    (let sec = replicate SECTOR_SIZE 0;
         sec = sec[0 := 0xEB, 1 := (if fat_type = 32 then 0x58 else 0x3C), 2 := 0x90];
         sec = put_bytes sec 3 (bytes ''GEMIOS  '');
         sec = wr_le16 sec 11 (of_nat SECTOR_SIZE);
         sec = sec[13 := sec_per_clus];
         sec = wr_le16 sec 14 rsvd_sec_cnt;
         sec = sec[16 := 2];
         sec = wr_le16 sec 17 root_ent_cnt;
         sec = (if fat_type = 32 \<or> total_sectors \<ge> 65536
                then wr_le32 (wr_le16 sec 19 0) 32 total_sectors
                else wr_le32 (wr_le16 sec 19 (ucast total_sectors)) 32 0);
         sec = sec[21 := 0xF8];
         sec = wr_le16 sec 22 (if fat_type = 32 then 0 else ucast fat_size);
         sec = wr_le16 sec 24 32;
         sec = wr_le16 sec 26 64
     in wr_le32 sec 28 0)"

definition make_bpb :: "int \<Rightarrow> u32 \<Rightarrow> u8 \<Rightarrow> u16 \<Rightarrow> u16 \<Rightarrow> u32 \<Rightarrow> u32 \<Rightarrow> u8 list option \<Rightarrow> u8 list" where
  "make_bpb fat_type total_sectors sec_per_clus rsvd_sec_cnt root_ent_cnt fat_size vol_id vol_name =
    (let sec = make_bpb_common fat_type total_sectors sec_per_clus rsvd_sec_cnt root_ent_cnt fat_size
     in if fat_type = 12 \<or> fat_type = 16 then
          (let sec = sec[36 := 0x80, 37 := 0, 38 := 0x29];
               sec = wr_le32 sec 39 vol_id;
               sec = put_bytes sec 43 (format_volume_label (Some (case vol_name of
                 Some v \<Rightarrow> v | None \<Rightarrow> if fat_type = 12 then bytes ''GEMIOS12'' else bytes ''GEMIOS16'')));
               sec = put_bytes sec 54 (if fat_type = 12 then bytes ''FAT12   '' else bytes ''FAT16   '')
           in sec[510 := 0x55, 511 := 0xAA])
        else
          (let sec = wr_le32 sec 36 fat_size;
               sec = wr_le16 sec 40 0;
               sec = wr_le16 sec 42 0;
               sec = wr_le32 sec 44 2;
               sec = wr_le16 sec 48 1;
               sec = wr_le16 sec 50 6;
               sec = sec[64 := 0x80, 65 := 0, 66 := 0x29];
               sec = wr_le32 sec 67 vol_id;
               sec = put_bytes sec 71 (format_volume_label (Some (case vol_name of
                 Some v \<Rightarrow> v | None \<Rightarrow> bytes ''GEMIOS32'')));
               sec = put_bytes sec 82 (bytes ''FAT32   '')
           in sec[510 := 0x55, 511 := 0xAA]))"

text \<open>\<open>struct fat32_fsinfo\<close> as \<open>main\<close> fills it, in memory order on a little-endian host.\<close>

definition fat32_fsinfo :: "u32 \<Rightarrow> u8 list" where
  "fat32_fsinfo free_count =
    (let s = wr_le32 (replicate SECTOR_SIZE 0) 0 0x41615252;
         s = wr_le32 s 484 0x61417272;
         s = wr_le32 s 488 free_count;
         s = wr_le32 s 492 3
     in wr_le32 s 508 0xAA550000)"

text \<open>The sector that holds the volume label as its first \<open>struct fat_dir_entry\<close>.\<close>

definition label_sector :: "u8 list \<Rightarrow> u8 list" where
  "label_sector vol_name = (put_bytes (replicate SECTOR_SIZE 0) 0 (format_volume_label (Some vol_name)))[11 := 0x08]"

section \<open>The command line\<close>

text \<open>The host's \<open>atoi\<close>: white space, a sign, and the digits that follow.\<close>

definition is_space :: "u8 \<Rightarrow> bool" where
  "is_space c \<longleftrightarrow> c = 32 \<or> (9 \<le> c \<and> c \<le> 13)"

definition is_digit :: "u8 \<Rightarrow> bool" where
  "is_digit c \<longleftrightarrow> asc CHR ''0'' \<le> c \<and> c \<le> asc CHR ''9''"

definition atoi_digits :: "u8 list \<Rightarrow> int" where
  "atoi_digits s = fold (\<lambda>c v. 10 * v + uint (c - asc CHR ''0'')) (takeWhile is_digit s) 0"

definition atoi :: "u8 list \<Rightarrow> int" where
  "atoi s =
    (let t = dropWhile is_space s
     in if byte_at t 0 = asc CHR ''-'' then - atoi_digits (tl t)
        else if byte_at t 0 = asc CHR ''+'' then atoi_digits (tl t)
        else atoi_digits t)"

record mkfs_opts =
  o_fat_type :: int
  o_vol_name :: "u8 list option"
  o_image_path :: "u8 list option"
  o_sec_per_clus :: int

definition default_opts :: mkfs_opts where
  "default_opts = \<lparr> o_fat_type = 0, o_vol_name = None, o_image_path = None, o_sec_per_clus = 0 \<rparr>"

text \<open>The loop over \<open>argv\<close>; \<open>None\<close> for an unknown option.\<close>

fun parse_args :: "u8 list list \<Rightarrow> mkfs_opts \<Rightarrow> mkfs_opts option" where
  "parse_args [] opt = Some opt"
| "parse_args (a # b # rest) opt =
    (if a = bytes ''-F'' then parse_args rest (opt \<lparr> o_fat_type := atoi b \<rparr>)
     else if a = bytes ''-n'' then parse_args rest (opt \<lparr> o_vol_name := Some b \<rparr>)
     else if a = bytes ''-s'' then parse_args rest (opt \<lparr> o_sec_per_clus := atoi b \<rparr>)
     else if byte_at a 0 = asc CHR ''-'' then None
     else parse_args (b # rest) (opt \<lparr> o_image_path := Some a \<rparr>))"
| "parse_args [a] opt =
    (if byte_at a 0 = asc CHR ''-'' then None else Some (opt \<lparr> o_image_path := Some a \<rparr>))"

text \<open>Type and cluster size, from the size of the file.\<close>

definition choose_fat_type :: "int \<Rightarrow> int \<Rightarrow> int" where
  "choose_fat_type fat_type file_size =
    (if fat_type = 0
     then (if file_size < 4 * 1024 * 1024 then 12
           else if file_size < 512 * 1024 * 1024 then 16 else 32)
     else fat_type)"

definition choose_sec_per_clus :: "int \<Rightarrow> int \<Rightarrow> int \<Rightarrow> u8" where
  "choose_sec_per_clus sec_per_clus_arg fat_type file_size =
    (if sec_per_clus_arg > 0 then of_int sec_per_clus_arg
     else if fat_type = 12 then 1
     else if fat_type = 16 then
       (if file_size \<le> 16 * 1024 * 1024 then 2
        else if file_size \<le> 32 * 1024 * 1024 then 4
        else if file_size \<le> 64 * 1024 * 1024 then 4
        else if file_size \<le> 128 * 1024 * 1024 then 8
        else 16)
     else
       (if file_size \<le> 64 * 1024 * 1024 then 1
        else if file_size \<le> 256 * 1024 * 1024 then 2
        else if file_size \<le> 1024 * 1024 * 1024 then 4
        else 8))"

section \<open>Writing the image\<close>

record host_file =
  hf_size :: int
  hf_sectors :: "nat \<Rightarrow> u8 list"
  hf_pos :: nat

definition fseek_sector :: "nat \<Rightarrow> host_file \<Rightarrow> host_file" where
  "fseek_sector s f = f \<lparr> hf_pos := s \<rparr>"

definition fwrite_sector :: "u8 list \<Rightarrow> host_file \<Rightarrow> host_file" where
  "fwrite_sector buf f = f \<lparr> hf_sectors := (hf_sectors f)(hf_pos f := buf), hf_pos := hf_pos f + 1,
     hf_size := max (hf_size f) (int ((hf_pos f + 1) * SECTOR_SIZE)) \<rparr>"

text \<open>The loops that write \<open>n\<close> sectors of zeros.\<close>

primrec fwrite_zeros :: "nat \<Rightarrow> host_file \<Rightarrow> host_file" where
  "fwrite_zeros 0 f = f"
| "fwrite_zeros (Suc n) f = fwrite_zeros n (fwrite_sector (replicate SECTOR_SIZE 0) f)"

text \<open>The first sector of a table.\<close>

definition fat_first_sector :: "int \<Rightarrow> u8 list" where
  "fat_first_sector fat_type =
    (let z = replicate SECTOR_SIZE 0
     in if fat_type = 12 then z[0 := 0xF8, 1 := 0xFF, 2 := 0xFF]
        else if fat_type = 16 then z[0 := 0xF8, 1 := 0xFF, 2 := 0xFF, 3 := 0xFF]
        else z[0 := 0xF8, 1 := 0xFF, 2 := 0xFF, 3 := 0x0F, 4 := 0xFF, 5 := 0xFF, 6 := 0xFF, 7 := 0x0F,
               8 := 0xFF, 9 := 0xFF, 10 := 0xFF, 11 := 0x0F])"

definition write_table :: "int \<Rightarrow> u32 \<Rightarrow> host_file \<Rightarrow> host_file" where
  "write_table fat_type fat_size f =
    fwrite_zeros (unat fat_size - 1) (fwrite_sector (fat_first_sector fat_type) f)"

text \<open>The root directory, \<open>n\<close> sectors of it.\<close>

definition write_root :: "u8 list option \<Rightarrow> nat \<Rightarrow> host_file \<Rightarrow> host_file" where
  "write_root vol_name n f =
    (case vol_name of
       Some (c # v) \<Rightarrow> fwrite_zeros (n - 1) (fwrite_sector (label_sector (c # v)) f)
     | _ \<Rightarrow> fwrite_zeros n f)"

text \<open>The two branches of \<open>main\<close>. A cluster size of zero is a division by zero, which stops the
  program: \<open>None\<close>.\<close>

definition format_fat16 :: "int \<Rightarrow> u32 \<Rightarrow> u8 \<Rightarrow> u32 \<Rightarrow> u8 list option \<Rightarrow> host_file \<Rightarrow> host_file option" where
  "format_fat16 fat_type total_sectors sec_per_clus vol_id vol_name f =
    (let rsvd_sec_cnt = 4;
         root_ent_cnt = 512;
         root_dir_sectors = (512 * 32 + 512 - 1) div 512;
         data_sec = total_sectors - (4 + root_dir_sectors)
     in if sec_per_clus = 0 then None else
        (let total_clusters = data_sec div ucast sec_per_clus;
             fat_size = (if fat_type = 12 then ((total_clusters + 2) * 3 div 2 + 512 - 1) div 512
                         else ((total_clusters + 2) * 2 + 512 - 1) div 512);
             boot_sec = make_bpb fat_type total_sectors sec_per_clus rsvd_sec_cnt root_ent_cnt fat_size vol_id vol_name;
             f = fwrite_sector boot_sec (fseek_sector 0 f);
             f = fwrite_zeros (unat rsvd_sec_cnt - 1) f;
             f = write_table fat_type fat_size f;
             f = write_table fat_type fat_size f
         in Some (write_root vol_name (unat root_dir_sectors) f)))"

definition format_fat32 :: "u32 \<Rightarrow> u8 \<Rightarrow> u32 \<Rightarrow> u8 list option \<Rightarrow> host_file \<Rightarrow> host_file option" where
  "format_fat32 total_sectors sec_per_clus vol_id vol_name f =
    (let rsvd_sec_cnt = 32;
         data_sec = total_sectors - 32
     in if sec_per_clus = 0 then None else
        (let total_clusters = data_sec div ucast sec_per_clus;
             fat_size = ((total_clusters + 2) * 4 + 512 - 1) div 512;
             boot_sec = make_bpb 32 total_sectors sec_per_clus rsvd_sec_cnt 0 fat_size vol_id vol_name;
             fsinfo = fat32_fsinfo (total_clusters - 1);
             f = fwrite_sector boot_sec (fseek_sector 0 f);
             f = fwrite_sector fsinfo (fseek_sector 1 f);
             f = fwrite_sector boot_sec (fseek_sector 6 f);
             f = fwrite_sector fsinfo (fseek_sector 7 f);
             f = write_table 32 fat_size (fseek_sector (unat rsvd_sec_cnt) f);
             f = write_table 32 fat_size f
         in Some (write_root vol_name (unat sec_per_clus) (fseek_sector (unat (32 + 2 * fat_size)) f))))"

text \<open>\<open>main\<close>, on the host's files. What the host decides is an argument: whether the seek to the
  end and the allocation of the buffer succeed, and the time. The result is the exit status and the
  files, or \<open>None\<close> when the program is stopped by the division.\<close>

definition generate_volume_id :: "u32 \<Rightarrow> u32" where
  "generate_volume_id now = now XOR 0x5A5AA5A5"

definition mkfs_main :: "(u8 list \<rightharpoonup> host_file) \<Rightarrow> bool \<Rightarrow> bool \<Rightarrow> u32 \<Rightarrow> u8 list list
    \<Rightarrow> ((u8 list \<rightharpoonup> host_file) \<times> int) option" where
  "mkfs_main files seek_ok calloc_ok now argv =
    (case parse_args argv default_opts of
       None \<Rightarrow> Some (files, 1)
     | Some opt \<Rightarrow>
    (case o_image_path opt of
       None \<Rightarrow> Some (files, 1)
     | Some image_path \<Rightarrow>
    (case files image_path of
       None \<Rightarrow> Some (files, 1)
     | Some f \<Rightarrow>
       (let file_size = hf_size f;
            total_sectors = of_int (file_size div int SECTOR_SIZE);
            fat_type = choose_fat_type (o_fat_type opt) file_size;
            sec_per_clus = choose_sec_per_clus (o_sec_per_clus opt) fat_type file_size;
            vol_id = generate_volume_id now
        in if \<not> seek_ok then Some (files, 1)
           else if file_size < 512 * 1024 then Some (files, 1)
           else if fat_type \<noteq> 12 \<and> fat_type \<noteq> 16 \<and> fat_type \<noteq> 32 then Some (files, 1)
           else if \<not> calloc_ok then Some (files, 1)
           else map_option (\<lambda>f'. (files(image_path \<mapsto> f'), 0))
             (if fat_type = 12 \<or> fat_type = 16
              then format_fat16 fat_type total_sectors sec_per_clus vol_id (o_vol_name opt) f
              else format_fat32 total_sectors sec_per_clus vol_id (o_vol_name opt) f)))))"

section \<open>The fields of the boot sector\<close>

lemma wr_le16_put16 [simp]: "wr_le16 p i v = put16 p i v"
  by (simp add: wr_le16_def put16_def)

lemma wr_le32_put32 [simp]: "wr_le32 p i v = put32 p i v"
  by (simp add: wr_le32_def put32_def)

lemma put_bytes_length [simp]: "i + length src \<le> length p \<Longrightarrow> length (put_bytes p i src) = length p"
  by (simp add: put_bytes_def)

lemma byte_at_put_bytes:
  "i + length src \<le> length p \<Longrightarrow>
     byte_at (put_bytes p i src) j = (if i \<le> j \<and> j < i + length src then src ! (j - i) else byte_at p j)"
  by (auto simp: byte_at_def put_bytes_def nth_append min_def)

lemma byte_at_put:
  "byte_at (put16 p i v) j = (if j = i + 1 \<and> i + 1 < length p then ucast (drop_bit 8 v)
     else if j = i \<and> i < length p then ucast v else byte_at p j)"
  "byte_at (put32 p i u) j = (if j = i + 3 \<and> i + 3 < length p then ucast (drop_bit 24 u)
     else if j = i + 2 \<and> i + 2 < length p then ucast (drop_bit 16 u)
     else if j = i + 1 \<and> i + 1 < length p then ucast (drop_bit 8 u)
     else if j = i \<and> i < length p then ucast u else byte_at p j)"
  by (simp_all add: put16_def put32_def byte_at_update)

lemma label_length [simp]: "length (format_volume_label v) = 11"
  by (auto simp: format_volume_label_def split: option.splits)

lemma make_bpb_common_length [simp]: "length (make_bpb_common t n c r e z) = 512"
  by (simp add: make_bpb_common_def SECTOR_SIZE_def Let_def)

lemma make_bpb_length [simp]: "length (make_bpb t n c r e z i v) = 512"
  by (simp add: make_bpb_def Let_def)

lemmas bpb_bytes = byte_at_put byte_at_put_bytes byte_at_update

lemma bpb_common_bytes:
  fixes t n c r e z
  defines "s \<equiv> make_bpb_common t n c r e z"
  shows "byte_at s 0 = 0xEB" "fat_read_le16 s 11 = 512" "byte_at s 13 = c" "fat_read_le16 s 14 = r"
    "byte_at s 16 = 2" "fat_read_le16 s 17 = e"
    "fat_read_le16 s 19 = (if t = 32 \<or> 65536 \<le> n then 0 else ucast n)"
    "fat_read_le16 s 22 = (if t = 32 then 0 else ucast z)"
    "fat_read_le32 s 32 = (if t = 32 \<or> 65536 \<le> n then n else 0)"
  unfolding s_def make_bpb_common_def Let_def fat_read_le16_def fat_read_le32_def
  by (simp_all add: SECTOR_SIZE_def bpb_bytes ucast_bytes16 ucast_bytes32 if_distrib [of "\<lambda>s. byte_at s _"] cong: if_cong)

lemma bpb_tail_bytes:
  assumes "j < 36"
  shows "byte_at (make_bpb t n c r e z i v) j = byte_at (make_bpb_common t n c r e z) j"
  using assms unfolding make_bpb_def Let_def by (simp add: bpb_bytes)

lemma bpb_signature:
  "byte_at (make_bpb t n c r e z i v) 510 = 0x55" "byte_at (make_bpb t n c r e z i v) 511 = 0xAA"
  unfolding make_bpb_def Let_def by (simp_all add: bpb_bytes)

lemma bpb32_bytes:
  "fat_read_le32 (make_bpb 32 n c r e z i v) 36 = z" "fat_read_le32 (make_bpb 32 n c r e z i v) 44 = 2"
  unfolding make_bpb_def Let_def fat_read_le32_def
  by (simp_all add: bpb_bytes ucast_bytes32)

lemma make_bpb_fields:
  fixes t n c r e z i v
  defines "s \<equiv> make_bpb t n c r e z i v"
  shows "byte_at s 0 = 0xEB" "fat_read_le16 s 11 = 512" "byte_at s 13 = c" "fat_read_le16 s 14 = r"
    "byte_at s 16 = 2" "fat_read_le16 s 17 = e"
    "fat_read_le16 s 19 = (if t = 32 \<or> 65536 \<le> n then 0 else ucast n)"
    "fat_read_le16 s 22 = (if t = 32 then 0 else ucast z)"
    "fat_read_le32 s 32 = (if t = 32 \<or> 65536 \<le> n then n else 0)"
    "byte_at s 510 = 0x55" "byte_at s 511 = 0xAA"
  using bpb_common_bytes [of t n c r e z]
  by (simp_all add: s_def fat_read_le16_def fat_read_le32_def bpb_tail_bytes bpb_signature)

text \<open>The driver takes the boot sector for one when the cluster size is a power of two.\<close>

lemma make_bpb_valid:
  assumes "c \<noteq> 0" "c AND (c - 1) = 0" "r \<noteq> 0" "n \<noteq> 0"
  shows "is_valid_fat_bpb (make_bpb t n c r e z i v) = Some n"
proof -
  have "ucast (ucast n :: u16) = n" if "n < 65536"
  proof -
    have "take_bit 16 n = n" using that
      by (simp add: word_unat_eq_iff unsigned_take_bit_eq take_bit_nat_eq_self word_less_nat_alt)
    moreover have "ucast (ucast n :: u16) = take_bit 16 n"
      by (rule bit_word_eqI) (auto simp: bit_simps)
    ultimately show ?thesis by simp
  qed
  then have "(if (if t = 32 \<or> 65536 \<le> n then 0 else ucast n :: u16) \<noteq> 0
      then ucast (if t = 32 \<or> 65536 \<le> n then 0 else ucast n :: u16)
      else if t = 32 \<or> 65536 \<le> n then n else 0) = n"
    using assms(4) by (auto simp: not_le)
  then show ?thesis using assms
    unfolding is_valid_fat_bpb_def Let_def make_bpb_fields by simp
qed

section \<open>The sectors of the image\<close>

lemma fwrite_zeros_eq:
  "hf_pos (fwrite_zeros n f) = hf_pos f + n"
  "hf_sectors (fwrite_zeros n f) l =
    (if hf_pos f \<le> l \<and> l < hf_pos f + n then replicate 512 0 else hf_sectors f l)"
  by (induction n arbitrary: f) (auto simp: fwrite_sector_def SECTOR_SIZE_def)

lemma write_table_eq:
  assumes "0 < unat z"
  shows "hf_pos (write_table t z f) = hf_pos f + unat z"
    "hf_sectors (write_table t z f) l =
      (if l = hf_pos f then fat_first_sector t
       else if hf_pos f < l \<and> l < hf_pos f + unat z then replicate 512 0 else hf_sectors f l)"
  using assms by (auto simp: write_table_def fwrite_zeros_eq fwrite_sector_def)

lemma write_root_eq:
  "0 < n \<Longrightarrow> hf_sectors (write_root v n f) l =
     (if hf_pos f \<le> l \<and> l < hf_pos f + n
      then (if l = hf_pos f \<and> v \<noteq> None \<and> v \<noteq> Some [] then label_sector (the v) else replicate 512 0)
      else hf_sectors f l)"
  by (auto simp: write_root_def fwrite_zeros_eq fwrite_sector_def split: option.splits list.splits)

text \<open>Sectors per table, in natural numbers.\<close>

definition fat16_size :: "nat \<Rightarrow> nat \<Rightarrow> nat" where
  "fat16_size n c = (((n - 36) div c + 2) * 2 + 511) div 512"

definition fat32_size :: "nat \<Rightarrow> nat \<Rightarrow> nat" where
  "fat32_size n c = (((n - 32) div c + 2) * 4 + 511) div 512"

lemma clusters_bound: "(n - k) div c \<le> (n :: nat)"
  by (meson div_le_dividend diff_le_self le_trans)

lemma fat16_size_word:
  assumes "36 \<le> unat n" "unat n < 2 ^ 30"
  shows "unat (((((n - 36) div ucast (c :: u8)) + 2) * 2 + 512 - 1) div 512 :: u32) = fat16_size (unat n) (unat c)"
proof -
  let ?d = "(unat n - 36) div unat c"
  have "unat (n - 36) = unat n - 36" using assms(1) by (simp add: unat_sub_if_size)
  then have d: "unat ((n - 36) div ucast c) = ?d" by (simp add: unat_div unat_ucast_u8)
  have b: "?d < 2 ^ 30" using clusters_bound [of "unat n" 36 "unat c"] assms(2) by linarith
  have d2: "unat ((n - 36) div ucast c + 2) = ?d + 2"
    using unat_add_fits [of "(n - 36) div ucast c" 2] b by (simp add: d)
  have "unat (((n - 36) div ucast c + 2) * 2) = (?d + 2) * 2"
    using unat_mult_fits [of "(n - 36) div ucast c + 2" 2] b by (simp add: d2)
  then have "unat (((n - 36) div ucast c + 2) * 2 + 511) = (?d + 2) * 2 + 511"
    using unat_add_fits [of "((n - 36) div ucast c + 2) * 2" 511] b by simp
  moreover have "((n - 36) div ucast c + 2) * 2 + 512 - 1 = ((n - 36) div ucast c + 2) * 2 + 511" by simp
  ultimately show ?thesis by (simp only: unat_div fat16_size_def) simp
qed

lemma fat32_size_word:
  assumes "32 \<le> unat n" "unat n < 2 ^ 29 * unat c"
  shows "unat (((((n - 32) div ucast (c :: u8)) + 2) * 4 + 512 - 1) div 512 :: u32) = fat32_size (unat n) (unat c)"
proof -
  let ?d = "(unat n - 32) div unat c"
  have "unat (n - 32) = unat n - 32" using assms(1) by (simp add: unat_sub_if_size)
  then have d: "unat ((n - 32) div ucast c) = ?d" by (simp add: unat_div unat_ucast_u8)
  have b: "?d < 2 ^ 29" using assms by (intro less_mult_imp_div_less) linarith
  have d2: "unat ((n - 32) div ucast c + 2) = ?d + 2"
    using unat_add_fits [of "(n - 32) div ucast c" 2] b by (simp add: d)
  have "unat (((n - 32) div ucast c + 2) * 4) = (?d + 2) * 4"
    using unat_mult_fits [of "(n - 32) div ucast c + 2" 4] b by (simp add: d2)
  then have "unat (((n - 32) div ucast c + 2) * 4 + 511) = (?d + 2) * 4 + 511"
    using unat_add_fits [of "((n - 32) div ucast c + 2) * 4" 511] b by simp
  moreover have "((n - 32) div ucast c + 2) * 4 + 512 - 1 = ((n - 32) div ucast c + 2) * 4 + 511" by simp
  ultimately show ?thesis by (simp only: unat_div fat32_size_def) simp
qed

text \<open>What the tool leaves in the image, by sector: \<open>k\<close> is the start of the tables, \<open>r\<close> the number
  of sectors of the root directory.\<close>

definition fat_image :: "int \<Rightarrow> nat \<Rightarrow> nat \<Rightarrow> nat \<Rightarrow> u8 list option \<Rightarrow> (nat \<Rightarrow> u8 list) \<Rightarrow> nat \<Rightarrow> u8 list" where
  "fat_image t k z r v before l =
    (if l < k then before l
     else if l < k + 2 * z then (if l = k \<or> l = k + z then fat_first_sector t else replicate 512 0)
     else if l < k + 2 * z + r then
       (if l = k + 2 * z \<and> v \<noteq> None \<and> v \<noteq> Some [] then label_sector (the v) else replicate 512 0)
     else before l)"

lemma tables_and_root:
  assumes "0 < unat z" "0 < r" "hf_pos f = k"
  shows "hf_sectors (write_root v r (write_table t z (write_table t z f))) l
    = fat_image t k (unat z) r v (hf_sectors f) l"
  using assms by (auto simp: write_root_eq write_table_eq fat_image_def)

lemma format_fat16_image:
  assumes "c \<noteq> 0" "36 \<le> unat n" "unat n < 2 ^ 30"
  shows "\<exists>z b f'. unat z = fat16_size (unat n) (unat c) \<and> format_fat16 16 n c i v f = Some f'
    \<and> b 0 = make_bpb 16 n c 4 512 z i v \<and> hf_sectors f' = fat_image 16 4 (unat z) 32 v b"
proof -
  define z where "z = ((((n - 36) div ucast c) + 2) * 2 + 512 - 1) div (512 :: u32)"
  note z = fat16_size_word [OF assms(2,3), of c, folded z_def]
  have zp: "0 < unat z" unfolding z by (simp add: fat16_size_def)
  define g where "g = fwrite_zeros 3 (fwrite_sector (make_bpb 16 n c 4 512 z i v) (fseek_sector 0 f))"
  have w: "(512 * 32 + 512 - 1) div 512 = (32 :: u32)" "n - (4 + 32) = n - 36" by simp_all
  have "format_fat16 16 n c i v f = Some (write_root v 32 (write_table 16 z (write_table 16 z g)))"
    using assms(1) unfolding format_fat16_def Let_def w by (simp add: z_def g_def)
  moreover have "hf_pos g = 4" "hf_sectors g 0 = make_bpb 16 n c 4 512 z i v"
    by (auto simp: g_def fwrite_zeros_eq fwrite_sector_def fseek_sector_def)
  ultimately show ?thesis using z tables_and_root [OF zp, of 32 g 4 v 16]
    by (intro exI [of _ z] exI [of _ "hf_sectors g"]) (auto simp: fun_eq_iff)
qed

lemma format_fat32_image:
  assumes "c \<noteq> 0" "32 \<le> unat n" "unat n < 2 ^ 29 * unat c" "fat32_size (unat n) (unat c) < 2 ^ 30"
  shows "\<exists>z b f'. unat z = fat32_size (unat n) (unat c) \<and> format_fat32 n c i v f = Some f'
    \<and> b 0 = make_bpb 32 n c 32 0 z i v \<and> hf_sectors f' = fat_image 32 32 (unat z) (unat c) v b"
proof -
  define z where "z = ((((n - 32) div ucast c) + 2) * 4 + 512 - 1) div (512 :: u32)"
  note z = fat32_size_word [OF assms(2,3), folded z_def]
  have zp: "0 < unat z" unfolding z by (simp add: fat32_size_def)
  define g where "g = (let b = make_bpb 32 n c 32 0 z i v; s = fat32_fsinfo ((n - 32) div ucast c - 1);
      f = fwrite_sector b (fseek_sector 0 f);
      f = fwrite_sector s (fseek_sector 1 f);
      f = fwrite_sector b (fseek_sector 6 f)
    in fseek_sector 32 (fwrite_sector s (fseek_sector 7 f)))"
  have "unat (2 * z) = 2 * unat z" using unat_mult_fits [of 2 z] assms(4) z by simp
  then have "unat (32 + 2 * z) = 32 + 2 * unat z"
    using unat_add_fits [of 32 "2 * z"] assms(4) z by simp
  moreover have gp: "hf_pos g = 32" by (simp add: g_def Let_def fseek_sector_def)
  ultimately have seek: "fseek_sector (unat (32 + 2 * z)) (write_table 32 z (write_table 32 z g))
      = write_table 32 z (write_table 32 z g)"
    using write_table_eq(1) [OF zp] by (simp add: fseek_sector_def)
  have "format_fat32 n c i v f = Some (write_root v (unat c) (write_table 32 z (write_table 32 z g)))"
    using assms(1) seek unfolding format_fat32_def Let_def by (simp add: z_def g_def Let_def)
  moreover have "hf_sectors g 0 = make_bpb 32 n c 32 0 z i v"
    by (simp add: g_def Let_def fwrite_sector_def fseek_sector_def)
  moreover have "0 < unat c" using assms(1) by (simp add: unat_gt_0)
  ultimately show ?thesis using z tables_and_root [OF zp _ gp, of "unat c" v 32]
    by (intro exI [of _ z] exI [of _ "hf_sectors g"]) (auto simp: fun_eq_iff)
qed

end
