(* ===== verification/Mkfs_Mount.thy ===== *)
theory Mkfs_Mount
  imports Mkfs Fat_Dir
begin

text \<open>
  The formatting tool joined to the kernel's driver: the image the tool leaves is mounted by
  \<open>fat_mount\<close> as an empty volume that fits its device, and images just above 4 MiB are not.
\<close>

section \<open>The driver accepts the image\<close>

lemma ucast_u16_fits: "unat z < 65536 \<Longrightarrow> unat (ucast (z :: u32) :: u16) = unat z"
  by (simp add: unsigned_ucast_eq take_bit_nat_eq_self_iff)

lemma bpb16_numbers:
  fixes n c z i v
  defines "s \<equiv> make_bpb 16 n c 4 512 z i v"
  assumes "0 < unat z" "unat z < 65536"
  shows "fat_read_le16 s 22 \<noteq> 0" "bpb_fat_size s = unat z" "bpb_meta s = 36 + 2 * unat z"
    "bpb_clusters s n = (unat n - (36 + 2 * unat z)) div unat c"
proof -
  have z: "unat (ucast z :: u16) = unat z" by (rule ucast_u16_fits) (rule assms(3))
  then have nz: "(ucast z :: u16) \<noteq> 0" using assms(2) by auto
  show "fat_read_le16 s 22 \<noteq> 0" using nz by (simp add: s_def make_bpb_fields)
  then show size: "bpb_fat_size s = unat z"
    using z by (simp add: bpb_fat_size_def) (simp add: s_def make_bpb_fields)
  have "bpb_root_sectors s = 32" using nz by (simp add: bpb_root_sectors_def s_def make_bpb_fields)
  then show meta: "bpb_meta s = 36 + 2 * unat z"
    by (simp add: bpb_meta_def size) (simp add: s_def make_bpb_fields)
  show "bpb_clusters s n = (unat n - (36 + 2 * unat z)) div unat c"
    by (simp add: bpb_clusters_def meta) (simp add: s_def make_bpb_fields)
qed

lemma bpb32_numbers:
  fixes n c z i v
  defines "s \<equiv> make_bpb 32 n c 32 0 z i v"
  shows "fat_read_le16 s 22 = 0" "bpb_fat_size s = unat z" "bpb_meta s = 32 + 2 * unat z"
    "bpb_clusters s n = (unat n - (32 + 2 * unat z)) div unat c"
proof -
  show f22: "fat_read_le16 s 22 = 0" by (simp add: s_def make_bpb_fields)
  then show size: "bpb_fat_size s = unat z" by (simp add: bpb_fat_size_def) (simp add: s_def bpb32_bytes)
  have "bpb_root_sectors s = 0" using f22 by (simp add: bpb_root_sectors_def)
  then show meta: "bpb_meta s = 32 + 2 * unat z"
    by (simp add: bpb_meta_def size) (simp add: s_def make_bpb_fields)
  show "bpb_clusters s n = (unat n - (32 + 2 * unat z)) div unat c"
    by (simp add: bpb_clusters_def meta) (simp add: s_def make_bpb_fields)
qed

text \<open>The table has room for the clusters that are left when its own sectors are taken away.\<close>

lemma round_up_512: "x \<le> 512 * ((x + 511) div 512)" for x :: nat
  using div_mult_mod_eq [of "x + 511" 512] mod_less_divisor [of 512 "x + 511"] by linarith

lemma fat16_room: "((n - (36 + 2 * fat16_size n c)) div c + 2) * 2 \<le> 512 * fat16_size n c"
proof -
  have "(n - (36 + 2 * fat16_size n c)) div c \<le> (n - 36) div c" by (rule div_le_mono) simp
  then have "((n - (36 + 2 * fat16_size n c)) div c + 2) * 2 \<le> ((n - 36) div c + 2) * 2" by simp
  also have "\<dots> \<le> 512 * fat16_size n c" unfolding fat16_size_def by (rule round_up_512)
  finally show ?thesis .
qed

lemma fat32_room: "((n - (32 + 2 * fat32_size n c)) div c + 2) * 4 \<le> 512 * fat32_size n c"
proof -
  have "(n - (32 + 2 * fat32_size n c)) div c \<le> (n - 32) div c" by (rule div_le_mono) simp
  then have "((n - (32 + 2 * fat32_size n c)) div c + 2) * 4 \<le> ((n - 32) div c + 2) * 4" by simp
  also have "\<dots> \<le> 512 * fat32_size n c" unfolding fat32_size_def by (rule round_up_512)
  finally show ?thesis .
qed

lemma fat16_range:
  assumes "c = 2 \<and> 8240 \<le> n \<and> n \<le> 32768 \<or> c = 4 \<and> 32768 \<le> n \<and> n \<le> 131072
    \<or> c = 8 \<and> 131072 \<le> n \<and> n \<le> 262144 \<or> c = 16 \<and> 262144 \<le> n \<and> n < 1048576"
  shows "fat16_size n c < 300" "36 + 2 * fat16_size n c < n"
    "4085 \<le> (n - (36 + 2 * fat16_size n c)) div c" "(n - (36 + 2 * fat16_size n c)) div c < 65525"
  using assms unfolding fat16_size_def by (auto; linarith)+

lemma fat32_range:
  assumes "c = 4 \<and> 1048576 \<le> n \<and> n \<le> 2097152 \<or> c = 8 \<and> 2097152 \<le> n \<and> n < 2 ^ 31"
  shows "fat32_size n c < 2 ^ 30" "32 + 2 * fat32_size n c < n"
    "65525 \<le> (n - (32 + 2 * fat32_size n c)) div c" "(n - (32 + 2 * fat32_size n c)) div c + 2 \<le> 0x0FFFFFF8"
  using assms unfolding fat32_size_def by (auto; linarith)+

lemma byte_at_replicate [simp]: "byte_at (replicate k 0) j = 0"
  by (simp add: byte_at_def)

lemma table_first_16: "4 \<le> j \<Longrightarrow> fat_read_le16 (fat_first_sector 16) j = 0"
  by (simp add: fat_first_sector_def Let_def fat_read_le16_def byte_at_update SECTOR_SIZE_def)

lemma table_first_32:
  "12 \<le> j \<Longrightarrow> fat_read_le32 (fat_first_sector 32) j = 0" "fat_read_le32 (fat_first_sector 32) 8 = 0x0FFFFFFF"
  by (simp_all add: fat_first_sector_def Let_def fat_read_le32_def byte_at_update SECTOR_SIZE_def)

lemma zero_sector: "fat_read_le16 (replicate 512 0) j = 0" "fat_read_le32 (replicate 512 0) j = 0"
  by (simp_all add: fat_read_le16_def fat_read_le32_def)

text \<open>A root directory that begins with a label or with nothing has no file.\<close>

lemma byte_at_entry: "j < 32 \<Longrightarrow> byte_at (entry_at s e) j = byte_at s (32 * e + j)"
  by (auto simp: byte_at_def entry_at_def)

definition fresh_root :: "u8 list \<Rightarrow> bool" where
  "fresh_root s \<longleftrightarrow> byte_at s 32 = 0 \<and> (byte_at s 0 = 0 \<or> byte_at s 11 = 8)"

lemma find_fresh:
  assumes "fresh_root s"
  shows "find_in_slots name p ((entry_at s 0, x) # (entry_at s 1, y) # rest) = None"
  using assms by (cases x; cases y)
    (auto simp: fresh_root_def byte_at_entry not_a_file_def de_attr_def FAT_ATTR_VOLUME_ID_def Let_def)

lemma fresh_root_sectors: "fresh_root (replicate 512 0 @ r)" "fresh_root (label_sector v @ r)"
  by (simp_all add: fresh_root_def label_sector_def byte_at_def nth_append put_bytes_def SECTOR_SIZE_def nth_list_update)

lemma upt_two: "2 \<le> n \<Longrightarrow> [0..<n] = 0 # 1 # [2..<n]"
  by (simp add: upt_conv_Cons numeral_2_eq_2)

text \<open>What a mounted volume looks like right after formatting: every cluster is free, the root
  directory of FAT32 apart, and no name is found in the root directory.\<close>

definition fresh_volume :: "'w fat_fs \<Rightarrow> ('w \<Rightarrow> u32 \<Rightarrow> u8 list) \<Rightarrow> nat \<Rightarrow> 'w \<Rightarrow> bool" where
  "fresh_volume fs sect nsec w \<longleftrightarrow>
    (\<forall>c. valid_cluster fs sect nsec c \<longrightarrow>
       fat_entry_of fs sect w c = (if fs_type fs = FAT_TYPE_FAT32 \<and> c = 2 then 0x0FFFFFFF else 0))
    \<and> (\<forall>km name. fat_dir_find_entry km fs w (fat_root_dir fs) name = None)"

lemma word_from_unat: "unat w = k \<Longrightarrow> w = of_nat k"
  by auto

lemma mkfs16_entries:
  assumes "valid_cluster fs sect nsec c" "fs_type fs = FAT_TYPE_FAT16" "unat (fs_fat_start_sector fs) = 4"
    and "\<And>l. l < unat (fs_fat_size_sectors fs) \<Longrightarrow>
      sect w (of_nat (4 + l)) = (if l = 0 then fat_first_sector 16 else replicate 512 0)"
  shows "fat_entry_of fs sect w c = 0"
proof -
  have wd: "ent_width fs = 2" using assms(2) by (simp add: ent_width_def)
  note p = entry_place [OF assms(1), of 2, unfolded wd]
  have "fat_sector_of fs 2 c = of_nat (4 + unat c * 2 div 512)"
    using p(1) assms(3) by (intro word_from_unat) simp
  then have "sect w (fat_sector_of fs 2 c) = (if unat c * 2 div 512 = 0 then fat_first_sector 16 else replicate 512 0)"
    using assms(4) [OF p(3)] by simp
  moreover have "4 \<le> unat c * 2 mod 512" if "unat c * 2 div 512 = 0"
    using that valid_clusterD(3) [OF assms(1)] by (simp add: div_eq_0_iff)
  ultimately show ?thesis
    using p(2) by (simp add: fat_entry_of_def assms(2) table_first_16 zero_sector)
qed

lemma mkfs32_entries:
  assumes "valid_cluster fs sect nsec c" "fs_type fs = FAT_TYPE_FAT32" "unat (fs_fat_start_sector fs) = 32"
    and "\<And>l. l < unat (fs_fat_size_sectors fs) \<Longrightarrow>
      sect w (of_nat (32 + l)) = (if l = 0 then fat_first_sector 32 else replicate 512 0)"
  shows "fat_entry_of fs sect w c = (if c = 2 then 0x0FFFFFFF else 0)"
proof -
  have wd: "ent_width fs = 4" using assms(2) by (simp add: ent_width_def)
  note p = entry_place [OF assms(1), of 4, unfolded wd]
  have "fat_sector_of fs 4 c = of_nat (32 + unat c * 4 div 512)"
    using p(1) assms(3) by (intro word_from_unat) simp
  then have s: "sect w (fat_sector_of fs 4 c) = (if unat c * 4 div 512 = 0 then fat_first_sector 32 else replicate 512 0)"
    using assms(4) [OF p(3)] by simp
  have "12 \<le> unat c * 4 mod 512" if "unat c * 4 div 512 = 0" "c \<noteq> 2"
  proof -
    have "unat c \<noteq> 2" using that(2) by (simp add: word_unat_eq_iff)
    with that(1) valid_clusterD(3) [OF assms(1)] show ?thesis by (simp add: div_eq_0_iff)
  qed
  with s p(2) show ?thesis
    by (auto simp: fat_entry_of_def assms(2) table_first_32 zero_sector)
qed

text \<open>A device that holds the image.\<close>

definition holds_image :: "'w block_dev \<Rightarrow> ('w \<Rightarrow> u32 \<Rightarrow> u8 list) \<Rightarrow> nat \<Rightarrow> 'w \<Rightarrow> (nat \<Rightarrow> u8 list) \<Rightarrow> bool" where
  "holds_image bd sect nsec w img \<longleftrightarrow>
     device_ok bd sect nsec \<and> (\<forall>l. unat l < nsec \<longrightarrow> sect w l = img (unat l))"

lemma image_boot_sector:
  assumes "holds_image bd sect (unat n) w (fat_image t k z r v b)" "0 < k" "b 0 = make_bpb t n c rs e zz i v"
    and "c \<noteq> 0" "c AND (c - 1) = 0" "rs \<noteq> 0" "0 < unat n"
  shows "boot_sector bd w = Some (0, make_bpb t n c rs e zz i v, n)"
proof -
  have "bd_read bd w 0 1 = Some (sect w 0)" "sect w 0 = make_bpb t n c rs e zz i v"
    using assms device_read_1 [of bd sect "unat n" 0 w] by (auto simp: holds_image_def fat_image_def)
  moreover have "n \<noteq> 0" using assms(7) by auto
  ultimately show ?thesis using make_bpb_valid [OF assms(4,5,6)] by (simp add: boot_sector_def)
qed

lemma image_sector:
  assumes "holds_image bd sect nsec w img" "l < nsec" "nsec < 2 ^ 32"
  shows "sect w (of_nat l) = img l"
proof -
  have "unat (of_nat l :: u32) = l" using assms(2,3) by (simp add: unat_of_nat take_bit_nat_eq_self)
  then show ?thesis using assms(1,2) by (simp add: holds_image_def)
qed

lemma image_root_fresh:
  "0 < r \<Longrightarrow> fresh_root (fat_image t k z r v b (k + 2 * z) @ x)"
  using fresh_root_sectors by (simp add: fat_image_def)

lemma image_table:
  "l < z \<Longrightarrow> fat_image t k z r v b (k + l) = (if l = 0 then fat_first_sector t else replicate 512 0)"
  by (simp add: fat_image_def)

lemma root_find_fresh:
  assumes "device_ok (fs_bdev fs) sect nsec" "unat start < nsec" "fresh_root (sect w start)" "0 < n"
  shows "find_in_slots name p (root_slots fs w start n) = None"
proof -
  obtain k where k: "n = Suc k" using assms(4) by (cases n) auto
  have "[0..<16] = 0 # 1 # [2..<16::nat]" by (rule upt_two) simp
  then have "sector_slots start (sect w start) = (entry_at (sect w start) 0, start, 0)
      # (entry_at (sect w start) 1, start, 1) # map (\<lambda>e. (entry_at (sect w start) e, start, e)) [2..<16]"
    unfolding sector_slots_def by (simp only: list.map)
  then show ?thesis
    using find_fresh [OF assms(3)] device_read_1 [OF assms(1,2)]
    by (simp only: k root_slots.simps option.case append_Cons)
qed

lemma mkfs16_mounts:
  assumes hold: "holds_image bd sect (unat n) w (fat_image 16 4 (unat z) 32 v b)"
    and b: "b 0 = make_bpb 16 n c 4 512 z i v" and z: "unat z = fat16_size (unat n) (unat c)"
    and c: "c \<noteq> 0" "c AND (c - 1) = 0"
    and r: "unat z < 300" "36 + 2 * unat z < unat n" "4085 \<le> (unat n - (36 + 2 * unat z)) div unat c"
      "(unat n - (36 + 2 * unat z)) div unat c < 65525"
  shows "\<exists>fs. fat_mount bd w = Some fs \<and> volume_ok fs (unat n) \<and> fs_type fs = FAT_TYPE_FAT16
    \<and> fresh_volume fs sect (unat n) w"
proof -
  let ?s = "make_bpb 16 n c 4 512 z i v"
  define fs where "fs = fat_geometry bd 0 ?s n"
  have zp: "0 < unat z" unfolding z by (simp add: fat16_size_def)
  have n: "0 < unat n" "unat n < 2 ^ 32" using r(2) unsigned_less [of n] by auto
  note boot = image_boot_sector [OF hold _ b c _ n(1), simplified]
  note nums = bpb16_numbers [OF zp, of n c i v]
  have con: "bpb_consistent ?s 0 n (unat n)"
    using r nums n fat16_room [of "unat n" "unat c"] z
    by (simp add: bpb_consistent_def bpb_fits_def make_bpb_fields)
  then have fits: "bpb_fits ?s 0 n (unat n)" by (simp add: bpb_consistent_def)
  note m = mount_consistent [OF boot con fs_def] and g = geometry_numbers [OF fits fs_def]
  define vol where "vol = fat_set_type fs"
  have ty: "fs_type vol = FAT_TYPE_FAT16" using m(3) nums(4) r by (simp add: vol_def)
  have dev: "device_ok bd sect (unat n)" using hold by (simp add: holds_image_def)
  have sets: "fs_fat_start_sector vol = fs_fat_start_sector fs" "fs_fat_size_sectors vol = fs_fat_size_sectors fs"
    "fs_bdev vol = bd" "fs_root_dir_start_sector vol = fs_root_dir_start_sector fs"
    "fs_root_dir_sectors vol = fs_root_dir_sectors fs"
    using g(9) by (simp_all add: vol_def fat_set_type_def)
  have start: "unat (fs_fat_start_sector vol) = 4" "unat (fs_fat_size_sectors vol) = unat z"
    using g(1,5) nums(2) r(1) by (simp_all add: sets make_bpb_fields)
  have ent: "fat_entry_of vol sect w c = 0" if "valid_cluster vol sect (unat n) c" for c
    using that ty start(1)
  proof (rule mkfs16_entries)
    fix l
    assume "l < unat (fs_fat_size_sectors vol)"
    then show "sect w (of_nat (4 + l)) = (if l = 0 then fat_first_sector 16 else replicate 512 0)"
      using image_sector [OF hold, of "4 + l"] r(2) n(2) start(2) by (simp add: image_table)
  qed
  have root: "unat (fs_root_dir_start_sector vol) = 4 + 2 * unat z" "fs_root_dir_sectors vol = 32"
  proof -
    have "fs_root_dir_start_sector vol = fs_fat_start_sector vol + 2 * fs_fat_size_sectors vol"
      "fs_root_dir_sectors vol = 32"
      using nums(1) r(1) by (simp_all add: sets fs_def fat_geometry_def Let_def make_bpb_fields)
    moreover have "unat (2 * fs_fat_size_sectors vol) = 2 * unat z"
      using unat_mult_fits [of 2 "fs_fat_size_sectors vol"] start(2) r(1) by simp
    ultimately show "unat (fs_root_dir_start_sector vol) = 4 + 2 * unat z" "fs_root_dir_sectors vol = 32"
      using unat_add_fits [of "fs_fat_start_sector vol" "2 * fs_fat_size_sectors vol"] start(1) r(1) by simp_all
  qed
  have "fresh_root (sect w (fs_root_dir_start_sector vol))"
    using hold root(1) r(2) image_root_fresh [of 32 16 4 "unat z" v b "[]"] by (simp add: holds_image_def)
  then have "find_in_slots name lfn_parser_reset
      (root_slots vol w (fs_root_dir_start_sector vol) (max_root_sectors vol)) = None" for name
    using dev root r(2) sets(3) by (intro root_find_fresh [where sect = sect]) (auto simp: max_root_sectors_def)
  then have "fat_dir_find_entry km vol w (fat_root_dir vol) name = None" for km name
    by (simp add: fat_dir_find_entry_def dir_slots_def fat_root_dir_def ty)
  with ent m(1,2) ty show ?thesis by (auto simp: fresh_volume_def vol_def)
qed

lemma chain_find_fresh:
  assumes v: "valid_cluster fs sect nsec c" and fresh: "fresh_root (cluster_bytes fs sect w c)" and "0 < n"
  shows "find_in_slots name p (chain_slots fs w n c) = None"
proof -
  let ?b = "cluster_bytes fs sect w c"
  obtain k where k: "n = Suc k" using assms(3) by (cases n) auto
  have lim: "c \<ge> 2 \<and> c < fat_eof_limit fs"
    using valid_clusterD(3) [OF v] valid_cluster_limit [OF v] by (simp add: word_le_nat_alt)
  have "2 \<le> unat (fs_bytes_per_cluster fs) div 32"
    using valid_clusterD(2) [OF v] by (auto simp: volume_ok_def)
  note two = upt_two [OF this]
  have "\<exists>x y r. cluster_slots fs c ?b = (entry_at ?b 0, x) # (entry_at ?b 1, y) # r"
    unfolding cluster_slots_def two list.map by blast
  then obtain x y r where "cluster_slots fs c ?b = (entry_at ?b 0, x) # (entry_at ?b 1, y) # r" by blast
  then show ?thesis
    using find_fresh [OF fresh] read_cluster_eq [OF v] lim
    by (simp only: k chain_slots.simps option.case append_Cons if_True simp_thms)
qed

lemma fresh_root_cluster:
  assumes "valid_cluster fs sect nsec c" "\<And>x. fresh_root (sect w (cluster_sector fs c) @ x)"
  shows "fresh_root (cluster_bytes fs sect w c)"
proof -
  have "0 < unat (fs_sectors_per_cluster fs)" by (rule cluster_place(4)) (rule assms(1))
  then show ?thesis using assms(2) by (simp add: cluster_bytes_def upt_conv_Cons)
qed

lemma mkfs32_mounts:
  assumes hold: "holds_image bd sect (unat n) w (fat_image 32 32 (unat z) (unat c) v b)"
    and b: "b 0 = make_bpb 32 n c 32 0 z i v" and z: "unat z = fat32_size (unat n) (unat c)"
    and c: "c \<noteq> 0" "c AND (c - 1) = 0"
    and r: "unat z < 2 ^ 30" "32 + 2 * unat z < unat n" "65525 \<le> (unat n - (32 + 2 * unat z)) div unat c"
      "(unat n - (32 + 2 * unat z)) div unat c + 2 \<le> 0x0FFFFFF8"
  shows "\<exists>fs. fat_mount bd w = Some fs \<and> volume_ok fs (unat n) \<and> fs_type fs = FAT_TYPE_FAT32
    \<and> fresh_volume fs sect (unat n) w"
proof -
  let ?s = "make_bpb 32 n c 32 0 z i v"
  define fs where "fs = fat_geometry bd 0 ?s n"
  have n: "0 < unat n" "unat n < 2 ^ 32" using r(2) unsigned_less [of n] by auto
  note boot = image_boot_sector [OF hold _ b c _ n(1), simplified]
  note nums = bpb32_numbers [of n c z i v]
  have con: "bpb_consistent ?s 0 n (unat n)"
    using r nums n fat32_room [of "unat n" "unat c"] z
    by (simp add: bpb_consistent_def bpb_fits_def make_bpb_fields)
  then have fits: "bpb_fits ?s 0 n (unat n)" by (simp add: bpb_consistent_def)
  note m = mount_consistent [OF boot con fs_def] and g = geometry_numbers [OF fits fs_def]
  define vol where "vol = fat_set_type fs"
  have ty: "fs_type vol = FAT_TYPE_FAT32" using m(3) nums(4) r by (simp add: vol_def)
  have dev: "device_ok bd sect (unat n)" using hold by (simp add: holds_image_def)
  have "fs_root_cluster fs = 2"
    using nums(1) by (simp add: fs_def fat_geometry_def Let_def bpb32_bytes)
  then have sets: "fs_fat_start_sector vol = fs_fat_start_sector fs" "fs_fat_size_sectors vol = fs_fat_size_sectors fs"
    "fs_bdev vol = bd" "fs_data_start_sector vol = fs_data_start_sector fs"
    "fs_root_cluster vol = 2" "fs_total_clusters vol = fs_total_clusters fs"
    using g(9) by (simp_all add: vol_def fat_set_type_def)
  have start: "unat (fs_fat_start_sector vol) = 32" "unat (fs_fat_size_sectors vol) = unat z"
    "unat (fs_data_start_sector vol) = 32 + 2 * unat z"
    using g(1,5,6) nums(2,3) by (simp_all add: sets make_bpb_fields)
  have ent: "fat_entry_of vol sect w c = (if c = 2 then 0x0FFFFFFF else 0)"
    if "valid_cluster vol sect (unat n) c" for c
    using that ty start(1)
  proof (rule mkfs32_entries)
    fix l
    assume "l < unat (fs_fat_size_sectors vol)"
    then show "sect w (of_nat (32 + l)) = (if l = 0 then fat_first_sector 32 else replicate 512 0)"
      using image_sector [OF hold, of "32 + l"] r(2) n(2) start(2) by (simp add: image_table)
  qed
  have v2: "valid_cluster vol sect (unat n) 2"
    using dev m(2) r(3) g(7) nums(4) by (simp add: valid_cluster_def sets vol_def [symmetric])
  have "cluster_sector vol 2 = fs_data_start_sector vol" by (simp add: cluster_sector_def)
  moreover have "sect w (fs_data_start_sector vol) = fat_image 32 32 (unat z) (unat c) v b (32 + 2 * unat z)"
    using hold start(3) r(2) by (simp add: holds_image_def)
  moreover have "0 < unat c" using c(1) by (simp add: unat_gt_0)
  ultimately have "fresh_root (sect w (cluster_sector vol 2) @ x)" for x
    using image_root_fresh [of "unat c" 32 32 "unat z" v b x] by simp
  note fresh = chain_find_fresh [OF v2 fresh_root_cluster [OF v2 this]]
  have "fat_dir_find_entry km vol w (fat_root_dir vol) name = None" for km name
    using fresh [of 65536 name lfn_parser_reset]
    by (simp add: fat_dir_find_entry_def dir_slots_def fat_root_dir_def ty sets(5))
  with ent m(1,2) ty show ?thesis by (auto simp: fresh_volume_def vol_def)
qed

text \<open>The defaults, in sectors.\<close>

lemma default_cluster_size16:
  fixes size :: int
  assumes "8240 * 512 \<le> size" "size < 512 * 1024 * 1024"
  defines "c \<equiv> choose_sec_per_clus 0 16 size" and "n \<equiv> nat (size div 512)"
  shows "c \<noteq> 0" "c AND (c - 1) = 0"
    "unat c = 2 \<and> 8240 \<le> n \<and> n \<le> 32768 \<or> unat c = 4 \<and> 32768 \<le> n \<and> n \<le> 131072
    \<or> unat c = 8 \<and> 131072 \<le> n \<and> n \<le> 262144 \<or> unat c = 16 \<and> 262144 \<le> n \<and> n < 1048576"
  using assms(1,2) unfolding c_def n_def choose_sec_per_clus_def
  by (auto simp: le_nat_iff nat_le_iff nat_less_iff)

lemma default_cluster_size32:
  fixes size :: int
  assumes "512 * 1024 * 1024 \<le> size" "size < 2 ^ 40"
  defines "c \<equiv> choose_sec_per_clus 0 32 size" and "n \<equiv> nat (size div 512)"
  shows "c \<noteq> 0" "c AND (c - 1) = 0"
    "unat c = 4 \<and> 1048576 \<le> n \<and> n \<le> 2097152 \<or> unat c = 8 \<and> 2097152 \<le> n \<and> n < 2 ^ 31"
  using assms(1,2) unfolding c_def n_def choose_sec_per_clus_def
  by (auto simp: le_nat_iff nat_le_iff nat_less_iff)

lemma mkfs_main_format:
  assumes "parse_args argv default_opts = Some opt" "o_image_path opt = Some path" "files path = Some f"
    and "o_fat_type opt = 0" "o_sec_per_clus opt = 0" "4 * 1024 * 1024 \<le> hf_size f"
  shows "mkfs_main files True True now argv = map_option (\<lambda>f'. (files(path \<mapsto> f'), 0))
    (let n = of_int (hf_size f div 512)
     in if hf_size f < 512 * 1024 * 1024
        then format_fat16 16 n (choose_sec_per_clus 0 16 (hf_size f)) (generate_volume_id now) (o_vol_name opt) f
        else format_fat32 n (choose_sec_per_clus 0 32 (hf_size f)) (generate_volume_id now) (o_vol_name opt) f)"
  using assms by (simp add: mkfs_main_def Let_def choose_fat_type_def SECTOR_SIZE_def)

text \<open>C7. Formatting and mounting agree: run with default type and cluster size on an image of at
  least 8240 sectors and less than 1 TiB, the tool succeeds, touches no other file, and a device that
  holds the image it leaves is mounted by the kernel's driver, as FAT16 below 512 MiB and as FAT32
  from there on, with a layout that fits the device, with every cluster free (the FAT32 root directory's
  apart) and with a root directory in which no name is found.\<close>

theorem mkfs_image_mounts:
  assumes "parse_args argv default_opts = Some opt" "o_image_path opt = Some path" "files path = Some f"
    and "o_fat_type opt = 0" "o_sec_per_clus opt = 0" "8240 * 512 \<le> hf_size f" "hf_size f < 2 ^ 40"
  shows "\<exists>f'. mkfs_main files True True now argv = Some (files(path \<mapsto> f'), 0)
    \<and> (\<forall>bd sect w nsec. nsec = nat (hf_size f div 512) \<and> holds_image bd sect nsec w (hf_sectors f') \<longrightarrow>
        (\<exists>fs. fat_mount bd w = Some fs \<and> volume_ok fs nsec
          \<and> fs_type fs = (if hf_size f < 512 * 1024 * 1024 then FAT_TYPE_FAT16 else FAT_TYPE_FAT32)
          \<and> fresh_volume fs sect nsec w))"
proof -
  let ?size = "hf_size f" and ?v = "o_vol_name opt" and ?i = "generate_volume_id now"
  define n :: u32 where "n = of_int (?size div 512)"
  have n: "unat n = nat (?size div 512)"
    using assms(6,7) by (simp add: n_def unat_eq_nat_uint uint_word_of_int)
  note main = mkfs_main_format [where files = files and path = path and f = f and now = now,
      OF assms(1-5), unfolded Let_def, folded n_def]
  show ?thesis
  proof (cases "?size < 512 * 1024 * 1024")
    case True
    let ?c = "choose_sec_per_clus 0 16 ?size"
    note c = default_cluster_size16 [OF assms(6) True, folded n]
    note r = fat16_range [OF c(3)]
    obtain z b f' where f': "unat z = fat16_size (unat n) (unat ?c)" "format_fat16 16 n ?c ?i ?v f = Some f'"
      "b 0 = make_bpb 16 n ?c 4 512 z ?i ?v" "hf_sectors f' = fat_image 16 4 (unat z) 32 ?v b"
      using format_fat16_image [OF c(1), of n ?i ?v f] r c(3) by auto
    note mnt = mkfs16_mounts [where b = b, OF _ f'(3,1) c(1,2) r [folded f'(1)]]
    from f'(2) main True assms(6) have "mkfs_main files True True now argv = Some (files(path \<mapsto> f'), 0)"
      by (simp add: Let_def)
    with mnt True show ?thesis by (intro exI [of _ f']) (auto simp: f'(4) n)
  next
    case False
    let ?c = "choose_sec_per_clus 0 32 ?size"
    note c = default_cluster_size32 [OF _ assms(7), folded n]
    note r = fat32_range [OF c(3)]
    obtain z b f' where f': "unat z = fat32_size (unat n) (unat ?c)" "format_fat32 n ?c ?i ?v f = Some f'"
      "b 0 = make_bpb 32 n ?c 32 0 z ?i ?v" "hf_sectors f' = fat_image 32 32 (unat z) (unat ?c) ?v b"
      using format_fat32_image [OF c(1), of n ?i ?v f] r c(3) False by auto
    note mnt = mkfs32_mounts [where b = b, OF _ f'(3,1) c(1,2) r [folded f'(1)]]
    from f'(2) main False assms(6) have "mkfs_main files True True now argv = Some (files(path \<mapsto> f'), 0)"
      by (simp add: Let_def)
    with mnt False show ?thesis by (intro exI [of _ f']) (auto simp: f'(4) n)
  qed
qed

text \<open>All sectors written are 512 bytes long.\<close>

definition sectors_512 :: "host_file \<Rightarrow> bool" where
  "sectors_512 f \<longleftrightarrow> (\<forall>l. length (hf_sectors f l) = 512)"

lemma sectors_512_write:
  "sectors_512 f \<Longrightarrow> length buf = 512 \<Longrightarrow> sectors_512 (fwrite_sector buf f)"
  "sectors_512 f \<Longrightarrow> sectors_512 (fseek_sector k f)"
  "sectors_512 f \<Longrightarrow> sectors_512 (fwrite_zeros m f)"
  by (simp_all add: sectors_512_def fwrite_sector_def fseek_sector_def fwrite_zeros_eq)

lemma sectors_512_parts:
  "sectors_512 f \<Longrightarrow> sectors_512 (write_table t z f)" "sectors_512 f \<Longrightarrow> sectors_512 (write_root v r f)"
  by (auto simp: write_table_def write_root_def intro!: sectors_512_write split: option.splits list.splits)
    (auto simp: fat_first_sector_def SECTOR_SIZE_def label_sector_def Let_def)

lemma format_sectors_512:
  "sectors_512 f \<Longrightarrow> format_fat16 t n c i v f = Some f' \<Longrightarrow> sectors_512 f'"
  "sectors_512 f \<Longrightarrow> format_fat32 n c i v f = Some f' \<Longrightarrow> sectors_512 f'"
  by (auto simp: format_fat16_def format_fat32_def Let_def fat32_fsinfo_def SECTOR_SIZE_def
      intro!: sectors_512_write sectors_512_parts split: if_splits)

lemma mkfs_main_512:
  assumes "parse_args argv default_opts = Some opt" "o_image_path opt = Some path" "files path = Some f"
    and "o_fat_type opt = 0" "o_sec_per_clus opt = 0" "4 * 1024 * 1024 \<le> hf_size f"
    and "mkfs_main files True True now argv = Some (files(path \<mapsto> f'), 0)" "sectors_512 f"
  shows "sectors_512 f'"
proof -
  define r where "r = (if hf_size f < 512 * 1024 * 1024
    then format_fat16 16 (of_int (hf_size f div 512)) (choose_sec_per_clus 0 16 (hf_size f)) (generate_volume_id now) (o_vol_name opt) f
    else format_fat32 (of_int (hf_size f div 512)) (choose_sec_per_clus 0 32 (hf_size f)) (generate_volume_id now) (o_vol_name opt) f)"
  have "map_option (\<lambda>g. (files(path \<mapsto> g), 0 :: int)) r = Some (files(path \<mapsto> f'), 0)"
    using mkfs_main_format [where files = files and path = path and f = f and now = now, OF assms(1-6)] assms(7)
    by (simp only: r_def Let_def)
  then obtain g where g: "r = Some g" "files(path \<mapsto> g) = files(path \<mapsto> f')" by auto
  have "g = f'" using map_upd_eqD1 [OF g(2)] .
  then show ?thesis using g(1) format_sectors_512 [OF assms(8)] by (auto simp: r_def split: if_splits)
qed

definition demo_image :: host_file where
  "demo_image = \<lparr> hf_size = 16 * 1024 * 1024, hf_sectors = \<lambda>l. replicate 512 0, hf_pos = 0 \<rparr>"

lemma ram_holds_image:
  "sectors_512 f \<Longrightarrow> holds_image ram_dev ram_sect nsec (\<lambda>l. hf_sectors f (unat l)) (hf_sectors f)"
  using ram_device_ok by (simp add: holds_image_def ram_sect_def sectors_512_def)

theorem mkfs_image_mounts_witness:
  "\<exists>f' fs. mkfs_main [bytes ''disk.img'' \<mapsto> demo_image] True True 7 [bytes ''-n'', bytes ''Data'', bytes ''disk.img'']
       = Some ([bytes ''disk.img'' \<mapsto> f'], 0)
     \<and> fat_mount ram_dev (\<lambda>l. hf_sectors f' (unat l)) = Some fs \<and> fs_type fs = FAT_TYPE_FAT16
     \<and> volume_ok fs 32768 \<and> fresh_volume fs ram_sect 32768 (\<lambda>l. hf_sectors f' (unat l))"
proof -
  let ?argv = "[bytes ''-n'', bytes ''Data'', bytes ''disk.img'']" and ?p = "bytes ''disk.img''"
  let ?opt = "default_opts \<lparr> o_vol_name := Some (bytes ''Data''), o_image_path := Some ?p \<rparr>"
  let ?files = "[?p \<mapsto> demo_image]"
  have size: "hf_size demo_image = 16 * 1024 * 1024" "sectors_512 demo_image"
    by (simp_all add: demo_image_def sectors_512_def)
  have opt: "parse_args ?argv default_opts = Some ?opt" by code_simp
  have fields: "o_image_path ?opt = Some ?p" "?files ?p = Some demo_image" "o_fat_type ?opt = 0" "o_sec_per_clus ?opt = 0"
    by (simp_all add: default_opts_def)
  from mkfs_image_mounts [where files = ?files and path = ?p and f = demo_image and now = 7, OF opt fields]
  obtain f' where f': "mkfs_main ?files True True 7 ?argv = Some (?files(?p \<mapsto> f'), 0)"
    "\<forall>(bd :: (u32 \<Rightarrow> u8 list) block_dev) sect w nsec. nsec = nat (hf_size demo_image div 512) \<and> holds_image bd sect nsec w (hf_sectors f') \<longrightarrow>
        (\<exists>fs. fat_mount bd w = Some fs \<and> volume_ok fs nsec
          \<and> fs_type fs = (if hf_size demo_image < 512 * 1024 * 1024 then FAT_TYPE_FAT16 else FAT_TYPE_FAT32)
          \<and> fresh_volume fs sect nsec w)"
    unfolding size(1) by force
  have "sectors_512 f'"
    by (rule mkfs_main_512 [where files = ?files and path = ?p, OF opt fields _ f'(1) size(2)]) (simp add: size(1))
  then have hold: "holds_image ram_dev ram_sect 32768 (\<lambda>l. hf_sectors f' (unat l)) (hf_sectors f')"
    by (rule ram_holds_image)
  have nsec: "nat (hf_size demo_image div 512) = 32768" "hf_size demo_image < 512 * 1024 * 1024" by (simp_all add: size(1))
  obtain fs where "fat_mount ram_dev (\<lambda>l. hf_sectors f' (unat l)) = Some fs" "volume_ok fs 32768"
    "fs_type fs = FAT_TYPE_FAT16" "fresh_volume fs ram_sect 32768 (\<lambda>l. hf_sectors f' (unat l))"
    using f'(2) [rule_format, OF conjI [OF nsec(1) [symmetric] hold]] nsec(2) by auto
  moreover have "?files(?p \<mapsto> f') = [?p \<mapsto> f']" by (rule fun_upd_upd)
  ultimately show ?thesis using f'(1) by metis
qed

section \<open>Images of 4 MiB\<close>

lemma bpb16_type_label: "map (byte_at (make_bpb 16 n c r e z i v)) [54..<62] = bytes ''FAT16   ''"
proof -
  have "[54..<62::nat] = [54, 55, 56, 57, 58, 59, 60, 61]" by (simp add: upt_rec)
  then show ?thesis unfolding make_bpb_def Let_def by (simp add: bpb_bytes)
qed

lemma small_range:
  assumes "8192 \<le> n" "n < 8240"
  shows "fat16_size n 2 < 300" "36 + 2 * fat16_size n 2 < n" "(n - (36 + 2 * fat16_size n 2)) div 2 < 4085"
proof -
  have z: "512 * fat16_size n 2 \<le> 2 * ((n - 36) div 2) + 515" "2 * ((n - 36) div 2) + 515 < 512 * fat16_size n 2 + 512"
    unfolding fat16_size_def by (simp_all add: algebra_simps)
  have d: "2 * ((n - 36) div 2) \<le> n - 36" "n - 36 < 2 * ((n - 36) div 2) + 2" by linarith+
  from z d assms have cases: "fat16_size n 2 = 16 \<and> n < 8228 \<or> fat16_size n 2 = 17" by linarith
  then show "fat16_size n 2 < 300" "36 + 2 * fat16_size n 2 < n" using assms(1) by auto
  from cases show "(n - (36 + 2 * fat16_size n 2)) div 2 < 4085"
    using assms(2) by (intro less_mult_imp_div_less) auto
qed

lemma mkfs16_small:
  assumes hold: "holds_image bd sect (unat n) w (fat_image 16 4 (unat z) 32 v b)"
    and b: "b 0 = make_bpb 16 n 2 4 512 z i v" and z: "unat z = fat16_size (unat n) 2"
    and r: "unat z < 300" "36 + 2 * unat z < unat n" "(unat n - (36 + 2 * unat z)) div 2 < 4085"
  shows "\<exists>fs. fat_mount bd w = Some fs \<and> fs_type fs = FAT_TYPE_FAT12 \<and> sect w 0 = make_bpb 16 n 2 4 512 z i v"
proof -
  let ?s = "make_bpb 16 n 2 4 512 z i v"
  define fs where "fs = fat_geometry bd 0 ?s n"
  have zp: "0 < unat z" unfolding z by (simp add: fat16_size_def)
  have n: "0 < unat n" "unat n < 2 ^ 32" using r(2) unsigned_less [of n] by auto
  note boot = image_boot_sector [OF hold _ b _ _ _ n(1), simplified]
  note nums = bpb16_numbers [OF zp, of n 2 i v]
  have "bpb_fits ?s 0 n (unat n)" using r nums n by (simp add: bpb_fits_def make_bpb_fields)
  note g = geometry_numbers [OF this fs_def]
  have "unat (fs_total_clusters fs) < 4085" using g(7) nums(4) r(1,3) by simp
  then have ty: "fat_set_type fs = fs \<lparr> fs_type := FAT_TYPE_FAT12 \<rparr>"
    by (simp add: fat_set_type_def word_less_nat_alt)
  have "unat (fs_fat_size_sectors fs) \<noteq> 0" "unat (fs_bytes_per_cluster fs) \<noteq> 0"
    using g(1,8) nums(2) zp r(1) by (simp_all add: make_bpb_fields)
  then have "fs_fat_size_sectors fs \<noteq> 0" "fs_bytes_per_cluster fs \<noteq> 0" by auto
  then have "fat_mount bd w = Some (fs \<lparr> fs_type := FAT_TYPE_FAT12 \<rparr>)"
    using boot ty by (simp add: fat_mount_def fs_def Let_def)
  moreover have "sect w 0 = ?s" using hold b n(1) by (simp add: holds_image_def fat_image_def)
  ultimately show ?thesis by simp
qed

text \<open>An image from 4 MiB up to 8239 sectors is formatted with defaults as FAT16, and says so, but
  it has fewer than 4085 clusters: the kernel's driver takes it for FAT12, for which it can neither
  change nor follow a table entry, so no file can be stored on it.\<close>

theorem mkfs_small_image_fat12:
  assumes "parse_args argv default_opts = Some opt" "o_image_path opt = Some path" "files path = Some f"
    and "o_fat_type opt = 0" "o_sec_per_clus opt = 0" "4 * 1024 * 1024 \<le> hf_size f" "hf_size f < 8240 * 512"
  shows "\<exists>f'. mkfs_main files True True now argv = Some (files(path \<mapsto> f'), 0)
    \<and> (\<forall>bd sect w nsec. nsec = nat (hf_size f div 512) \<and> holds_image bd sect nsec w (hf_sectors f') \<longrightarrow>
        map (byte_at (sect w 0)) [54..<62] = bytes ''FAT16   ''
        \<and> (\<exists>fs. fat_mount bd w = Some fs \<and> fs_type fs = FAT_TYPE_FAT12
          \<and> (\<forall>c v. set_fat_entry fs w c v = (w, -1) \<and> get_next_cluster fs w c = 0xFFFFFFFF)))"
proof -
  let ?size = "hf_size f" and ?v = "o_vol_name opt" and ?i = "generate_volume_id now"
  define n :: u32 where "n = of_int (?size div 512)"
  have n: "unat n = nat (?size div 512)"
    using assms(6,7) by (simp add: n_def unat_eq_nat_uint uint_word_of_int)
  have c: "choose_sec_per_clus 0 16 ?size = 2" using assms(7) by (simp add: choose_sec_per_clus_def)
  have "8192 \<le> unat n" "unat n < 8240" using assms(6,7) by (simp_all add: n le_nat_iff nat_less_iff)
  note r = small_range [OF this] and nb = this
  obtain z b f' where f': "unat z = fat16_size (unat n) 2" "format_fat16 16 n 2 ?i ?v f = Some f'"
    "b 0 = make_bpb 16 n 2 4 512 z ?i ?v" "hf_sectors f' = fat_image 16 4 (unat z) 32 ?v b"
    using format_fat16_image [of 2 n ?i ?v f] nb by auto
  note mnt = mkfs16_small [where b = b, OF _ f'(3,1) r [folded f'(1)], folded f'(4)]
  have "?size < 512 * 1024 * 1024" using assms(7) by simp
  then have main: "mkfs_main files True True now argv = Some (files(path \<mapsto> f'), 0)"
    using mkfs_main_format [where files = files and path = path and f = f and now = now, OF assms(1-6)] f'(2)
    by (simp add: Let_def n_def c)
  have dev: "map (byte_at (sect w 0)) [54..<62] = bytes ''FAT16   ''
        \<and> (\<exists>fs. fat_mount bd w = Some fs \<and> fs_type fs = FAT_TYPE_FAT12
          \<and> (\<forall>c v. set_fat_entry fs w c v = (w, -1) \<and> get_next_cluster fs w c = 0xFFFFFFFF))"
    if hold: "holds_image bd sect (unat n) w (hf_sectors f')" for bd sect w
  proof -
    obtain fs where "fat_mount bd w = Some fs" "fs_type fs = FAT_TYPE_FAT12"
      and s: "sect w 0 = make_bpb 16 n 2 4 512 z ?i ?v" using mnt [OF hold] by blast
    moreover from this(2) have "set_fat_entry fs w c v = (w, -1) \<and> get_next_cluster fs w c = 0xFFFFFFFF" for c v
      by (simp add: set_fat_entry_def get_next_cluster_def)
    ultimately show ?thesis unfolding s bpb16_type_label by blast
  qed
  show ?thesis unfolding n [symmetric]
    by (intro exI [of _ f'] conjI [OF main] allI impI) (erule conjE, hypsubst, rule dev)
qed

theorem mkfs_small_image_fat12_witness:
  "\<exists>f'. mkfs_main [bytes ''a.img'' \<mapsto> demo_image \<lparr> hf_size := 4 * 1024 * 1024 \<rparr>] True True 7 [bytes ''a.img'']
       = Some ([bytes ''a.img'' \<mapsto> f'], 0)
     \<and> (\<exists>fs. fat_mount ram_dev (\<lambda>l. hf_sectors f' (unat l)) = Some fs \<and> fs_type fs = FAT_TYPE_FAT12)"
proof -
  let ?argv = "[bytes ''a.img'']" and ?p = "bytes ''a.img''" and ?f = "demo_image \<lparr> hf_size := 4 * 1024 * 1024 \<rparr>"
  let ?opt = "default_opts \<lparr> o_image_path := Some ?p \<rparr>"
  let ?files = "[?p \<mapsto> ?f]"
  have size: "hf_size ?f = 4 * 1024 * 1024" "sectors_512 ?f"
    by (simp_all add: demo_image_def sectors_512_def)
  have opt: "parse_args ?argv default_opts = Some ?opt" by code_simp
  have fields: "o_image_path ?opt = Some ?p" "?files ?p = Some ?f" "o_fat_type ?opt = 0" "o_sec_per_clus ?opt = 0"
    by (simp_all add: default_opts_def)
  from mkfs_small_image_fat12 [where files = ?files and path = ?p and f = ?f and now = 7, OF opt fields]
  obtain f' where f': "mkfs_main ?files True True 7 ?argv = Some (?files(?p \<mapsto> f'), 0)"
    "\<forall>(bd :: (u32 \<Rightarrow> u8 list) block_dev) sect w nsec.
      nsec = nat (hf_size ?f div 512) \<and> holds_image bd sect nsec w (hf_sectors f') \<longrightarrow>
        (\<exists>fs. fat_mount bd w = Some fs \<and> fs_type fs = FAT_TYPE_FAT12)"
    unfolding size(1) by force
  have "sectors_512 f'"
    by (rule mkfs_main_512 [where files = ?files and path = ?p, OF opt fields _ f'(1) size(2)]) (simp add: size(1))
  then have hold: "holds_image ram_dev ram_sect 8192 (\<lambda>l. hf_sectors f' (unat l)) (hf_sectors f')"
    by (rule ram_holds_image)
  have nsec: "nat (hf_size ?f div 512) = 8192" by (simp add: size(1))
  have "?files(?p \<mapsto> f') = [?p \<mapsto> f']" by (rule fun_upd_upd)
  then show ?thesis using f'(1) f'(2) [rule_format, OF conjI [OF nsec [symmetric] hold]] by metis
qed

end
