(* ===== verification/Usb_Msc.thy ===== *)
theory Usb_Msc
  imports Blockdev
begin

text \<open>
  The USB mass-storage driver, \<open>src/usb/usb_msc.c\<close>: the bulk-only transport that wraps SCSI commands,
  the commands themselves, block reads and writes in chunks with retries, and the table of drives.

  What the host controller and the drive answer is an argument, the record \<open>usb_bus\<close>: its functions
  stand for \<open>xhci_bulk_transfer\<close>, \<open>xhci_clear_endpoint_stall\<close>, \<open>usb_control_msg\<close>,
  \<open>usb_clear_feature_endpoint_halt\<close> and \<open>timer_delay_ms\<close>, on a state \<open>'u\<close> of the bus and the
  drives. The state the driver keeps for one command is the tag of the last command and that state.
  A pointer to an entry of \<open>msc_devs\<close> is its index; a pointer to a \<open>usb_device_t\<close> is an address.
  Messages on the console are not modelled.
\<close>

section \<open>The bus\<close>

record 'u usb_bus =
  ub_slot_id :: "'u \<Rightarrow> u32 \<Rightarrow> u8"
  ub_bulk_out :: "'u \<Rightarrow> u8 \<Rightarrow> u8 \<Rightarrow> u8 list \<Rightarrow> 'u \<times> int"
  ub_bulk_in :: "'u \<Rightarrow> u8 \<Rightarrow> u8 \<Rightarrow> u8 list \<Rightarrow> 'u \<times> int \<times> u8 list"
  ub_clear_stall :: "'u \<Rightarrow> u8 \<Rightarrow> u8 \<Rightarrow> u8 \<Rightarrow> 'u"
  ub_get_max_lun :: "'u \<Rightarrow> u32 \<Rightarrow> 'u \<times> int \<times> u8"
  ub_clear_halt :: "'u \<Rightarrow> u32 \<Rightarrow> u8 \<Rightarrow> 'u"
  ub_delay :: "'u \<Rightarrow> nat \<Rightarrow> 'u"

section \<open>Drives\<close>

text \<open>The embedded \<open>block_dev_t\<close>; both callbacks are the wrappers below and \<open>priv\<close> is the entry they
  work on.\<close>

record msc_bdev =
  mb_name :: "u8 list"
  mb_block_size :: u32
  mb_total_blocks :: u32
  mb_priv :: nat

record usb_msc_dev =
  m_dev :: u32
  m_in_dci :: u8
  m_out_dci :: u8
  m_ep_in_addr :: u8
  m_ep_out_addr :: u8
  m_max_packet_in :: u16
  m_max_packet_out :: u16
  m_max_lun :: u8
  m_vendor :: "u8 list"
  m_product :: "u8 list"
  m_revision :: "u8 list"
  m_block_count :: u32
  m_block_size :: u32
  m_ready :: bool
  m_bdev :: msc_bdev

definition zero_msc :: usb_msc_dev where
  "zero_msc = \<lparr> m_dev = 0, m_in_dci = 0, m_out_dci = 0, m_ep_in_addr = 0, m_ep_out_addr = 0,
     m_max_packet_in = 0, m_max_packet_out = 0, m_max_lun = 0, m_vendor = [], m_product = [],
     m_revision = [], m_block_count = 0, m_block_size = 0, m_ready = False,
     m_bdev = \<lparr> mb_name = [], mb_block_size = 0, mb_total_blocks = 0, mb_priv = 0 \<rparr> \<rparr>"

definition MAX_MSC_DEVS :: nat where "MAX_MSC_DEVS = 4"

definition USB_MSC_CSW_SIGNATURE :: u32 where "USB_MSC_CSW_SIGNATURE = 0x53425355"
definition USB_MSC_CBW_FLAG_IN :: u8 where "USB_MSC_CBW_FLAG_IN = 0x80"
definition USB_MSC_CBW_FLAG_OUT :: u8 where "USB_MSC_CBW_FLAG_OUT = 0x00"
definition SCSI_TEST_UNIT_READY :: u8 where "SCSI_TEST_UNIT_READY = 0x00"
definition SCSI_REQUEST_SENSE :: u8 where "SCSI_REQUEST_SENSE = 0x03"
definition SCSI_INQUIRY :: u8 where "SCSI_INQUIRY = 0x12"
definition SCSI_READ_CAPACITY10 :: u8 where "SCSI_READ_CAPACITY10 = 0x25"
definition SCSI_READ10 :: u8 where "SCSI_READ10 = 0x28"
definition SCSI_WRITE10 :: u8 where "SCSI_WRITE10 = 0x2A"

definition be32 :: "u32 \<Rightarrow> u32" where
  "be32 val = (drop_bit 24 val AND 0xFF) OR (drop_bit 8 val AND 0xFF00)
     OR (push_bit 8 val AND 0xFF0000) OR (push_bit 24 val AND 0xFF000000)"

section \<open>The bulk-only transport\<close>

type_synonym 'u msc_io = "u32 \<times> 'u"

definition le_bytes :: "u32 \<Rightarrow> u8 list" where
  "le_bytes v = [ucast (v AND 0xFF), ucast (drop_bit 8 v AND 0xFF), ucast (drop_bit 16 v AND 0xFF),
     ucast (drop_bit 24 v AND 0xFF)]"

text \<open>The command block wrapper, 31 bytes.\<close>

definition msc_cbw :: "u32 \<Rightarrow> u32 \<Rightarrow> bool \<Rightarrow> u8 list \<Rightarrow> u8 list" where
  "msc_cbw tag data_len dir_in cdb =
     [0x55, 0x53, 0x42, 0x43] @ le_bytes tag @ le_bytes data_len
     @ [if dir_in then USB_MSC_CBW_FLAG_IN else USB_MSC_CBW_FLAG_OUT, 0, of_nat (length cdb)]
     @ cdb @ replicate (16 - length cdb) 0"

text \<open>The data stage: nothing without data, else one transfer in the direction of the command. Its
  failure clears the stall and is otherwise ignored. Reading replaces the first \<open>data_len\<close> bytes of
  the buffer.\<close>

definition msc_data_stage ::
  "'u usb_bus \<Rightarrow> usb_msc_dev \<Rightarrow> u8 list option \<Rightarrow> u32 \<Rightarrow> bool \<Rightarrow> 'u \<Rightarrow> 'u \<times> u8 list" where
  "msc_data_stage bus msc data data_len dir_in u =
    (let slot = ub_slot_id bus u (m_dev msc); n = unat data_len
     in case data of
          None \<Rightarrow> (u, [])
        | Some buf \<Rightarrow>
            if data_len = 0 then (u, buf)
            else if dir_in then
              (let (u1, res, got) = ub_bulk_in bus u slot (m_in_dci msc) (take n buf);
                   buf' = got @ drop n buf
               in (if res < 0 then ub_clear_stall bus u1 slot (m_in_dci msc) (m_ep_in_addr msc) else u1, buf'))
            else
              (let (u1, res) = ub_bulk_out bus u slot (m_out_dci msc) (take n buf)
               in (if res < 0 then ub_clear_stall bus u1 slot (m_out_dci msc) (m_ep_out_addr msc) else u1, buf)))"

text \<open>Reading the status wrapper, with one retry after clearing a stall.\<close>

definition msc_read_csw :: "'u usb_bus \<Rightarrow> usb_msc_dev \<Rightarrow> 'u \<Rightarrow> 'u \<times> int \<times> u8 list" where
  "msc_read_csw bus msc u =
    (let slot = ub_slot_id bus u (m_dev msc);
         (u1, res, csw) = ub_bulk_in bus u slot (m_in_dci msc) (replicate 13 0)
     in if res < 0 then
          ub_bulk_in bus (ub_clear_stall bus u1 slot (m_in_dci msc) (m_ep_in_addr msc)) slot (m_in_dci msc)
            (replicate 13 0)
        else (u1, res, csw))"

definition msc_check_csw :: "u32 \<Rightarrow> u8 list \<Rightarrow> int" where
  "msc_check_csw tag csw =
    (let csw_sig = fat_read_le32 csw 0; csw_tag = fat_read_le32 csw 4; csw_status = byte_at csw 12
     in if csw_sig \<noteq> USB_MSC_CSW_SIGNATURE \<or> csw_tag \<noteq> tag then -1
        else if csw_status = 0 then 0 else - uint csw_status)"

definition msc_bot_transfer :: "'u usb_bus \<Rightarrow> usb_msc_dev \<Rightarrow> u8 list \<Rightarrow> u8 list option \<Rightarrow> u32 \<Rightarrow> bool
    \<Rightarrow> 'u msc_io \<Rightarrow> 'u msc_io \<times> int \<times> u8 list" where
  "msc_bot_transfer bus msc cdb data data_len dir_in io =
    (let (t, u) = io;
         tag = t + 1;
         slot = ub_slot_id bus u (m_dev msc);
         (u1, res) = ub_bulk_out bus u slot (m_out_dci msc) (msc_cbw tag data_len dir_in cdb)
     in if res < 0 then
          ((tag, ub_clear_stall bus u1 slot (m_out_dci msc) (m_ep_out_addr msc)), res, case data of None \<Rightarrow> [] | Some b \<Rightarrow> b)
        else
          (let (u2, buf) = msc_data_stage bus msc data data_len dir_in u1;
               (u3, res, csw) = msc_read_csw bus msc u2
           in if res < 0 then ((tag, u3), res, buf)
              else ((tag, u3), msc_check_csw tag csw, buf)))"

section \<open>SCSI commands\<close>

definition msc_get_max_lun :: "'u usb_bus \<Rightarrow> usb_msc_dev \<Rightarrow> 'u msc_io \<Rightarrow> usb_msc_dev \<times> 'u msc_io" where
  "msc_get_max_lun bus msc io =
    (let (t, u) = io; (u1, res, max_lun) = ub_get_max_lun bus u (m_dev msc)
     in if res = 0 then (msc \<lparr> m_max_lun := max_lun \<rparr>, (t, u1))
        else (msc \<lparr> m_max_lun := 0 \<rparr>, (t, ub_clear_halt bus u1 (m_dev msc) 0)))"

definition scsi_request_sense :: "'u usb_bus \<Rightarrow> usb_msc_dev \<Rightarrow> 'u msc_io \<Rightarrow> 'u msc_io \<times> int \<times> (u8 \<times> u8 \<times> u8) option" where
  "scsi_request_sense bus msc io =
    (let (io1, res, buffer) = msc_bot_transfer bus msc [SCSI_REQUEST_SENSE, 0, 0, 0, 18, 0]
       (Some (replicate 18 0)) 18 True io
     in (io1, res, if res = 0 then Some (byte_at buffer 2 AND 0x0F, byte_at buffer 12, byte_at buffer 13) else None))"

text \<open>A text field of the inquiry data: the bytes up to the first NUL, trailing spaces removed. The
  sources cut the spaces first and the string ends at the first NUL that is left.\<close>

definition inquiry_text :: "u8 list \<Rightarrow> u8 list" where
  "inquiry_text f = cstr (rev (dropWhile (\<lambda>c. c = 32) (rev f)))"

definition scsi_inquiry :: "'u usb_bus \<Rightarrow> usb_msc_dev \<Rightarrow> 'u msc_io \<Rightarrow> usb_msc_dev \<times> 'u msc_io \<times> int" where
  "scsi_inquiry bus msc io =
    (let (io1, res, buffer) = msc_bot_transfer bus msc [SCSI_INQUIRY, 0, 0, 0, 36, 0]
       (Some (replicate 36 0)) 36 True io
     in (if res = 0
         then msc \<lparr> m_vendor := inquiry_text (take 8 (drop 8 buffer)),
                    m_product := inquiry_text (take 16 (drop 16 buffer)),
                    m_revision := inquiry_text (take 4 (drop 32 buffer)) \<rparr>
         else msc, io1, res))"

definition scsi_test_unit_ready :: "'u usb_bus \<Rightarrow> usb_msc_dev \<Rightarrow> 'u msc_io \<Rightarrow> 'u msc_io \<times> int" where
  "scsi_test_unit_ready bus msc io =
    (let (io1, res, buffer) = msc_bot_transfer bus msc [SCSI_TEST_UNIT_READY, 0, 0, 0, 0, 0] None 0 False io
     in (io1, res))"

text \<open>The two words of the answer are read as little-endian words of the machine and swapped.\<close>

definition scsi_read_capacity :: "'u usb_bus \<Rightarrow> usb_msc_dev \<Rightarrow> 'u msc_io \<Rightarrow> usb_msc_dev \<times> 'u msc_io \<times> int" where
  "scsi_read_capacity bus msc io =
    (let (io1, res, buffer) = msc_bot_transfer bus msc (SCSI_READ_CAPACITY10 # replicate 9 0)
       (Some (replicate 8 0)) 8 True io
     in (if res = 0
         then (let last_lba = be32 (fat_read_le32 buffer 0); block_size = be32 (fat_read_le32 buffer 4)
               in msc \<lparr> m_block_count := last_lba + 1, m_block_size := block_size \<rparr>)
         else msc, io1, res))"

section \<open>Blocks\<close>

definition rw10_cdb :: "u8 \<Rightarrow> u32 \<Rightarrow> u32 \<Rightarrow> u8 list" where
  "rw10_cdb op cur_lba chunk =
    [op, 0, ucast (drop_bit 24 cur_lba AND 0xFF), ucast (drop_bit 16 cur_lba AND 0xFF),
     ucast (drop_bit 8 cur_lba AND 0xFF), ucast (cur_lba AND 0xFF), 0,
     ucast (drop_bit 8 chunk AND 0xFF), ucast (chunk AND 0xFF), 0]"

text \<open>At most \<open>n\<close> attempts, with a pause of 10 ms after each that fails; \<open>res\<close> is the result so far.\<close>

primrec msc_retry :: "nat \<Rightarrow> 'u usb_bus \<Rightarrow> usb_msc_dev \<Rightarrow> u8 list \<Rightarrow> u32 \<Rightarrow> bool \<Rightarrow> int \<Rightarrow> u8 list
    \<Rightarrow> 'u msc_io \<Rightarrow> 'u msc_io \<times> int \<times> u8 list" where
  "msc_retry 0 bus msc cdb len dir_in res buf io = (io, res, buf)"
| "msc_retry (Suc n) bus msc cdb len dir_in res buf io =
    (let (io1, res1, buf1) = msc_bot_transfer bus msc cdb (Some buf) len dir_in io
     in if res1 = 0 then (io1, 0, buf1)
        else msc_retry n bus msc cdb len dir_in res1 buf1 (fst io1, ub_delay bus (snd io1) 10))"

definition msc_chunk :: "u32 \<Rightarrow> u32" where
  "msc_chunk remaining = (if remaining > 64 then 64 else remaining)"

lemma msc_chunk_le: "unat (msc_chunk r) \<le> unat r" "r \<noteq> 0 \<Longrightarrow> 0 < unat (msc_chunk r)"
  by (auto simp: msc_chunk_def word_less_nat_alt unat_gt_0)

lemma msc_chunk_minus: "unat (r - msc_chunk r) = unat r - unat (msc_chunk r)"
  using msc_chunk_le(1) [of r] by (simp add: unat_sub_if_size)

lemma msc_chunk_less: "r \<noteq> 0 \<Longrightarrow> unat (r - msc_chunk r) < unat r"
  using msc_chunk_le(2) [of r] unat_gt_0 [of r] by (simp add: msc_chunk_minus)

text \<open>The loop over the chunks, for reads (\<open>dir_in\<close>) and writes; the buffer is the part not yet
  transferred.\<close>

function msc_blocks_loop :: "'u usb_bus \<Rightarrow> usb_msc_dev \<Rightarrow> bool \<Rightarrow> u32 \<Rightarrow> u32 \<Rightarrow> u8 list
    \<Rightarrow> 'u msc_io \<Rightarrow> 'u msc_io \<times> int \<times> u8 list" where
  "msc_blocks_loop bus msc dir_in cur_lba remaining ptr io =
    (if remaining = 0 then (io, 0, ptr)
     else
       (let chunk = msc_chunk remaining;
            len = chunk * m_block_size msc;
            cdb = rw10_cdb (if dir_in then SCSI_READ10 else SCSI_WRITE10) cur_lba chunk;
            (io1, res, buf) = msc_retry 3 bus msc cdb len dir_in (-1) ptr io
        in if res \<noteq> 0 then (io1, res, buf)
           else
             (let (io2, res2, rest) = msc_blocks_loop bus msc dir_in (cur_lba + chunk) (remaining - chunk)
                    (drop (unat len) buf) io1
              in (io2, res2, take (unat len) buf @ rest))))"
  by pat_completeness auto
termination
  by (relation "measure (\<lambda>(bus, msc, dir_in, cur_lba, remaining, ptr, io). unat remaining)")
    (auto intro: msc_chunk_less)

declare msc_blocks_loop.simps [simp del]

text \<open>\<open>None\<close> is the null pointer, for the drive and for the buffer.\<close>

definition usb_msc_read_blocks :: "'u usb_bus \<Rightarrow> usb_msc_dev option \<Rightarrow> u32 \<Rightarrow> u32 \<Rightarrow> u8 list option
    \<Rightarrow> 'u msc_io \<Rightarrow> 'u msc_io \<times> int \<times> u8 list" where
  "usb_msc_read_blocks bus msc lba count buf io =
    (case (msc, buf) of
       (Some m, Some b) \<Rightarrow> if \<not> m_ready m \<or> count = 0 then (io, -1, b) else msc_blocks_loop bus m True lba count b io
     | _ \<Rightarrow> (io, -1, case buf of None \<Rightarrow> [] | Some b \<Rightarrow> b))"

definition usb_msc_write_blocks :: "'u usb_bus \<Rightarrow> usb_msc_dev option \<Rightarrow> u32 \<Rightarrow> u32 \<Rightarrow> u8 list option
    \<Rightarrow> 'u msc_io \<Rightarrow> 'u msc_io \<times> int" where
  "usb_msc_write_blocks bus msc lba count buf io =
    (case (msc, buf) of
       (Some m, Some b) \<Rightarrow> if \<not> m_ready m \<or> count = 0 then (io, -1)
         else (let (io1, res, b1) = msc_blocks_loop bus m False lba count b io in (io1, res))
     | _ \<Rightarrow> (io, -1))"

section \<open>The table of drives\<close>

text \<open>The static data of the driver, with the registry of block devices, the state of the bus and the
  names of the USB devices (the field \<open>name\<close>, 48 bytes).\<close>

record 'u msc_state =
  msc_devs :: "usb_msc_dev list"
  msc_count :: nat
  msc_tag :: u32
  msc_registry :: bdev_registry
  msc_usb :: 'u
  usb_names :: "u32 \<Rightarrow> u8 list"

text \<open>The callbacks of the embedded block device at entry \<open>i\<close>.\<close>

definition bdev_read_wrapper :: "'u usb_bus \<Rightarrow> 'u msc_state \<Rightarrow> nat \<Rightarrow> u32 \<Rightarrow> u32 \<Rightarrow> u8 list option
    \<Rightarrow> 'u msc_state \<times> int \<times> u8 list" where
  "bdev_read_wrapper bus st i lba count buf =
    (let msc = msc_devs st ! mb_priv (m_bdev (msc_devs st ! i));
         ((t, u), res, b) = usb_msc_read_blocks bus (Some msc) lba count buf (msc_tag st, msc_usb st)
     in (st \<lparr> msc_tag := t, msc_usb := u \<rparr>, res, b))"

definition bdev_write_wrapper :: "'u usb_bus \<Rightarrow> 'u msc_state \<Rightarrow> nat \<Rightarrow> u32 \<Rightarrow> u32 \<Rightarrow> u8 list option
    \<Rightarrow> 'u msc_state \<times> int" where
  "bdev_write_wrapper bus st i lba count buf =
    (let msc = msc_devs st ! mb_priv (m_bdev (msc_devs st ! i));
         ((t, u), res) = usb_msc_write_blocks bus (Some msc) lba count buf (msc_tag st, msc_usb st)
     in (st \<lparr> msc_tag := t, msc_usb := u \<rparr>, res))"

record usb_endpoint =
  ep_address :: u8
  ep_attributes :: u8
  ep_max_packet_size :: u16
  ep_interval :: u8
  ep_dci :: u8

text \<open>The last bulk endpoint of each direction.\<close>

definition bulk_endpoint :: "bool \<Rightarrow> usb_endpoint \<Rightarrow> bool" where
  "bulk_endpoint dir_in e \<longleftrightarrow> ep_attributes e AND 0x03 = 0x02 \<and> (ep_address e AND 0x80 \<noteq> 0 \<longleftrightarrow> dir_in)"

definition find_endpoint :: "bool \<Rightarrow> usb_endpoint list \<Rightarrow> usb_endpoint option" where
  "find_endpoint dir_in eps = find (bulk_endpoint dir_in) (rev eps)"

primrec inquiry_loop :: "nat \<Rightarrow> 'u usb_bus \<Rightarrow> usb_msc_dev \<Rightarrow> 'u msc_io \<Rightarrow> usb_msc_dev \<times> 'u msc_io" where
  "inquiry_loop 0 bus msc io = (msc, io)"
| "inquiry_loop (Suc n) bus msc io =
    (let (msc1, io1, res) = scsi_inquiry bus msc io
     in if res = 0 then (msc1, io1)
        else inquiry_loop n bus msc1 (fst io1, ub_delay bus (snd io1) 50))"

text \<open>The wait for a ready drive only warns when it fails, so only the state of the bus matters.\<close>

primrec ready_loop :: "nat \<Rightarrow> 'u usb_bus \<Rightarrow> usb_msc_dev \<Rightarrow> 'u msc_io \<Rightarrow> 'u msc_io" where
  "ready_loop 0 bus msc io = io"
| "ready_loop (Suc n) bus msc io =
    (let (io1, res) = scsi_test_unit_ready bus msc io
     in if res = 0 then io1
        else (let (io2, res2, sense) = scsi_request_sense bus msc io1
              in ready_loop n bus msc (fst io2, ub_delay bus (snd io2) 100)))"

primrec capacity_loop :: "nat \<Rightarrow> 'u usb_bus \<Rightarrow> usb_msc_dev \<Rightarrow> 'u msc_io \<Rightarrow> usb_msc_dev \<times> 'u msc_io \<times> bool" where
  "capacity_loop 0 bus msc io = (msc, io, False)"
| "capacity_loop (Suc n) bus msc io =
    (let (msc1, io1, res) = scsi_read_capacity bus msc io
     in if res = 0 \<and> m_block_count msc1 > 0 then (msc1, io1, True)
        else capacity_loop n bus msc1 (fst io1, ub_delay bus (snd io1) 100))"

text \<open>\<open>bdev_addr i\<close> is the address of \<open>msc_devs[i].bdev\<close>. The texts written with \<open>snprintf\<close> are the
  vendor and product for the USB device, and \<open>usb0\<close> to \<open>usb3\<close> for the block device.\<close>

definition msc_finish :: "(nat \<Rightarrow> u32) \<Rightarrow> 'u msc_state \<Rightarrow> usb_msc_dev \<Rightarrow> 'u msc_state" where
  "msc_finish bdev_addr st msc =
    (let i = msc_count st;
         bs = (if m_block_size msc = 0 \<or> m_block_size msc > 4096 then 512 else m_block_size msc);
         name = snprintf_text 16 (bytes ''usb%u'') [Word_Arg (of_nat i)];
         msc1 = msc \<lparr> m_block_size := bs, m_ready := True,
                      m_bdev := \<lparr> mb_name = name, mb_block_size = bs, mb_total_blocks = m_block_count msc, mb_priv = i \<rparr> \<rparr>
     in st \<lparr> msc_devs := (msc_devs st)[i := msc1],
             usb_names := (usb_names st)(m_dev msc := snprintf_text 48 (bytes ''%s %s'') [Str_Arg (m_vendor msc), Str_Arg (m_product msc)]),
             msc_registry := fst (blockdev_register (msc_registry st) (bdev_addr i)),
             msc_count := i + 1 \<rparr>)"

definition usb_msc_init_device :: "'u usb_bus \<Rightarrow> (nat \<Rightarrow> u32) \<Rightarrow> 'u msc_state \<Rightarrow> u32 \<Rightarrow> usb_endpoint list
    \<Rightarrow> 'u msc_state \<times> int" where
  "usb_msc_init_device bus bdev_addr st dev eps =
    (if msc_count st \<ge> MAX_MSC_DEVS then (st, -1)
     else case (find_endpoint True eps, find_endpoint False eps) of
       (Some in_ep, Some out_ep) \<Rightarrow>
         (let i = msc_count st;
              msc0 = zero_msc \<lparr> m_dev := dev, m_in_dci := ep_dci in_ep, m_out_dci := ep_dci out_ep,
                m_ep_in_addr := ep_address in_ep, m_ep_out_addr := ep_address out_ep,
                m_max_packet_in := ep_max_packet_size in_ep, m_max_packet_out := ep_max_packet_size out_ep \<rparr>;
              (msc1, io1) = msc_get_max_lun bus msc0 (msc_tag st, msc_usb st);
              (msc2, io2) = inquiry_loop 3 bus msc1 io1;
              io3 = ready_loop 30 bus msc2 io2;
              (msc3, io4, cap_ok) = capacity_loop 5 bus msc2 io3;
              st1 = st \<lparr> msc_devs := (msc_devs st)[i := msc3], msc_tag := fst io4, msc_usb := snd io4 \<rparr>
          in if \<not> cap_ok then (st1, -1) else (msc_finish bdev_addr st1 msc3, 0))
     | _ \<Rightarrow> (st, -1))"

text \<open>Removal: unregister the block device of the entry, and move the entries behind it one down.\<close>

fun shift_msc :: "usb_msc_dev list \<Rightarrow> nat \<Rightarrow> nat \<Rightarrow> usb_msc_dev list" where
  "shift_msc a j 0 = a"
| "shift_msc a j (Suc n) = shift_msc (a[j := a ! (j + 1)]) (j + 1) n"

fun remove_loop :: "(nat \<Rightarrow> u32) \<Rightarrow> u32 \<Rightarrow> nat \<Rightarrow> nat \<Rightarrow> 'u msc_state \<Rightarrow> 'u msc_state \<times> int" where
  "remove_loop bdev_addr dev i 0 st = (st, -1)"
| "remove_loop bdev_addr dev i (Suc n) st =
    (if m_dev (msc_devs st ! i) = dev
     then (st \<lparr> msc_registry := blockdev_unregister (msc_registry st) (bdev_addr i),
                msc_devs := shift_msc (msc_devs st) i (msc_count st - 1 - i),
                msc_count := msc_count st - 1 \<rparr>, 0)
     else remove_loop bdev_addr dev (i + 1) n st)"

definition usb_msc_remove_device :: "(nat \<Rightarrow> u32) \<Rightarrow> 'u msc_state \<Rightarrow> u32 \<Rightarrow> 'u msc_state \<times> int" where
  "usb_msc_remove_device bdev_addr st dev =
    (if dev = 0 then (st, -1) else remove_loop bdev_addr dev 0 (msc_count st) st)"

definition usb_msc_get_count :: "'u msc_state \<Rightarrow> nat" where
  "usb_msc_get_count st = msc_count st"

definition usb_msc_get :: "'u msc_state \<Rightarrow> nat \<Rightarrow> nat option" where
  "usb_msc_get st index = (if index < msc_count st then Some index else None)"

end
