(* ===== verification/Usb_Msc_Props.thy ===== *)
theory Usb_Msc_Props
  imports Usb_Msc Fat_Store
begin

text \<open>
  The mass-storage driver against a drive that follows the bulk-only transport and the SCSI block
  commands. The drive is a state machine with the four phases of the transport; a bus is said to hold
  such a drive when its transfers answer as the machine does.
\<close>

section \<open>A drive\<close>

datatype bot_phase =
    Idle
  | Sending "u8 list" "u8 list"
  | Receiving nat nat "u8 list"
  | Reporting "u8 list"

record bot_drive =
  dr_blocks :: "nat \<Rightarrow> u8 list"
  dr_phase :: bot_phase

definition be_nat :: "u8 list \<Rightarrow> nat" where
  "be_nat bs = fold (\<lambda>b n. 256 * n + unat b) bs 0"

text \<open>The status wrapper for a command's tag.\<close>

definition drive_csw :: "u8 list \<Rightarrow> u8 \<Rightarrow> u8 list" where
  "drive_csw tag status = bytes ''USBS'' @ tag @ [0, 0, 0, 0, status]"

text \<open>A command: READ (10) and WRITE (10) inside the drive whose length and direction agree with the
  wrapper; anything else fails.\<close>

definition drive_command :: "nat \<Rightarrow> nat \<Rightarrow> bot_drive \<Rightarrow> u8 list \<Rightarrow> bot_drive" where
  "drive_command nsec bs d cbw =
    (let cdb = drop 15 cbw; tag = take 4 (drop 4 cbw); len = be_nat (rev (take 4 (drop 8 cbw)));
         lba = be_nat (take 4 (drop 2 cdb)); n = be_nat (take 2 (drop 7 cdb))
     in if byte_at cdb 0 = 0x28 \<and> lba + n \<le> nsec \<and> len = n * bs \<and> byte_at cbw 12 = 0x80
        then d \<lparr> dr_phase := Sending (concat (map (dr_blocks d) [lba..<lba + n])) (drive_csw tag 0) \<rparr>
        else if byte_at cdb 0 = 0x2A \<and> lba + n \<le> nsec \<and> len = n * bs \<and> byte_at cbw 12 = 0
        then d \<lparr> dr_phase := Receiving lba n (drive_csw tag 0) \<rparr>
        else d \<lparr> dr_phase := Reporting (drive_csw tag 1) \<rparr>)"

definition store_blocks :: "nat \<Rightarrow> nat \<Rightarrow> nat \<Rightarrow> u8 list \<Rightarrow> (nat \<Rightarrow> u8 list) \<Rightarrow> nat \<Rightarrow> u8 list" where
  "store_blocks bs lba n data blocks b =
    (if lba \<le> b \<and> b < lba + n then take bs (drop (bs * (b - lba)) data) else blocks b)"

text \<open>A transfer to the drive and one from it; \<open>None\<close> is a stall.\<close>

definition drive_out :: "nat \<Rightarrow> nat \<Rightarrow> bot_drive \<Rightarrow> u8 list \<Rightarrow> bot_drive option" where
  "drive_out nsec bs d data =
    (case dr_phase d of
       Idle \<Rightarrow> if length data = 31 \<and> take 4 data = bytes ''USBC'' then Some (drive_command nsec bs d data) else None
     | Receiving lba n csw \<Rightarrow>
         if length data = n * bs
         then Some (d \<lparr> dr_blocks := store_blocks bs lba n data (dr_blocks d), dr_phase := Reporting csw \<rparr>)
         else None
     | _ \<Rightarrow> None)"

definition drive_in :: "bot_drive \<Rightarrow> nat \<Rightarrow> (bot_drive \<times> u8 list) option" where
  "drive_in d len =
    (case dr_phase d of
       Sending data csw \<Rightarrow> if len = length data then Some (d \<lparr> dr_phase := Reporting csw \<rparr>, data) else None
     | Reporting csw \<Rightarrow> if len = length csw then Some (d \<lparr> dr_phase := Idle \<rparr>, csw) else None
     | _ \<Rightarrow> None)"

text \<open>The bus holds such a drive behind the two endpoints of \<open>msc\<close>: \<open>dr u\<close> is its state.\<close>

definition bus_drive :: "'u usb_bus \<Rightarrow> usb_msc_dev \<Rightarrow> ('u \<Rightarrow> bot_drive) \<Rightarrow> nat \<Rightarrow> nat \<Rightarrow> bool" where
  "bus_drive bus msc dr nsec bs \<longleftrightarrow>
    (\<forall>u data d. drive_out nsec bs (dr u) data = Some d \<longrightarrow>
       (let r = ub_bulk_out bus u (ub_slot_id bus u (m_dev msc)) (m_out_dci msc) data
        in dr (fst r) = d \<and> 0 \<le> snd r))
    \<and> (\<forall>u buf d got. drive_in (dr u) (length buf) = Some (d, got) \<longrightarrow>
       (let r = ub_bulk_in bus u (ub_slot_id bus u (m_dev msc)) (m_in_dci msc) buf
        in dr (fst r) = d \<and> 0 \<le> fst (snd r) \<and> snd (snd r) = got))"

section \<open>Wrappers\<close>

lemma ucast_low_unat: "unat (ucast (v :: u32) :: u8) = unat v mod 256"
  by (simp add: unsigned_ucast_eq take_bit_eq_mod)

lemma unat_drop_u32: "unat (drop_bit k (v :: u32)) = unat v div 2 ^ k"
  unfolding unat_drop_bit_eq by (simp add: drop_bit_eq_div)

lemma be_nat_word:
  "be_nat [ucast (drop_bit 24 v), ucast (drop_bit 16 v), ucast (drop_bit 8 v), ucast (v :: u32)] = unat v"
proof -
  let ?a = "unat v div 256" and ?b = "unat v div 256 div 256" and ?c = "unat v div 256 div 256 div 256"
  have "unat v < 2 ^ 32" using unsigned_less [of v] by simp
  then have c: "?c < 256" by (simp add: div_mult2_eq [symmetric] less_mult_imp_div_less)
  moreover have "unat v div 2 ^ 8 = ?a" "unat v div 2 ^ 16 = ?b" "unat v div 2 ^ 24 = ?c"
    by (simp_all add: div_mult2_eq [symmetric])
  ultimately have "256 * (256 * (256 * (unat v div 2 ^ 24 mod 256) + unat v div 2 ^ 16 mod 256)
      + unat v div 2 ^ 8 mod 256) + unat v mod 256 = unat v"
    using div_mult_mod_eq [of "unat v" 256] div_mult_mod_eq [of ?a 256] div_mult_mod_eq [of ?b 256] by simp
  then show ?thesis by (simp only: be_nat_def fold_simps id_apply comp_apply ucast_low_unat unat_drop_u32)
      (use c in \<open>simp add: div_mult2_eq [symmetric]\<close>)
qed

lemma be_nat_half:
  "unat v < 65536 \<Longrightarrow> be_nat [ucast (drop_bit 8 v), ucast (v :: u32)] = unat v"
  by (simp only: be_nat_def fold_simps ucast_low_unat unat_drop_u32) simp

lemma cbw_fields:
  assumes "length cdb = 10"
  shows "length (msc_cbw tag len dir_in cdb) = 31" "take 4 (msc_cbw tag len dir_in cdb) = bytes ''USBC''"
    "take 4 (drop 4 (msc_cbw tag len dir_in cdb)) = le_bytes tag"
    "be_nat (rev (take 4 (drop 8 (msc_cbw tag len dir_in cdb)))) = unat len"
    "byte_at (msc_cbw tag len dir_in cdb) 12 = (if dir_in then 0x80 else 0)"
    "drop 15 (msc_cbw tag len dir_in cdb) = cdb @ replicate 6 0"
  using assms by (simp_all add: msc_cbw_def le_bytes_def be_nat_word byte_at_def
      USB_MSC_CBW_FLAG_IN_def USB_MSC_CBW_FLAG_OUT_def)

lemma rw10_fields:
  assumes "unat n < 65536"
  shows "length (rw10_cdb op lba n) = 10" "byte_at (rw10_cdb op lba n @ x) 0 = op"
    "be_nat (take 4 (drop 2 (rw10_cdb op lba n @ x))) = unat lba"
    "be_nat (take 2 (drop 7 (rw10_cdb op lba n @ x))) = unat n"
  using assms by (simp_all add: rw10_cdb_def byte_at_def be_nat_word be_nat_half)

lemma csw_accepted: "length (drive_csw (le_bytes tag) s) = 13" "msc_check_csw tag (drive_csw (le_bytes tag) 0) = 0"
  by (simp_all add: drive_csw_def le_bytes_def msc_check_csw_def Let_def USB_MSC_CSW_SIGNATURE_def
      fat_read_le32_def byte_at_def ucast_bytes32)

section \<open>One command\<close>

lemma bus_drive_out:
  assumes "bus_drive bus msc dr nsec bs" "drive_out nsec bs (dr u) data = Some d"
  obtains u' res where "ub_bulk_out bus u (ub_slot_id bus u (m_dev msc)) (m_out_dci msc) data = (u', res)"
    "dr u' = d" "0 \<le> res"
proof (rule that)
  let ?r = "ub_bulk_out bus u (ub_slot_id bus u (m_dev msc)) (m_out_dci msc) data"
  show "?r = (fst ?r, snd ?r)" by simp
  show "dr (fst ?r) = d" "0 \<le> snd ?r" using assms by (simp_all add: bus_drive_def Let_def)
qed

lemma bus_drive_in:
  assumes "bus_drive bus msc dr nsec bs" "drive_in (dr u) (length buf) = Some (d, got)"
  obtains u' res where "ub_bulk_in bus u (ub_slot_id bus u (m_dev msc)) (m_in_dci msc) buf = (u', res, got)"
    "dr u' = d" "0 \<le> res"
proof (rule that)
  let ?r = "ub_bulk_in bus u (ub_slot_id bus u (m_dev msc)) (m_in_dci msc) buf"
  have "dr (fst ?r) = d \<and> 0 \<le> fst (snd ?r) \<and> snd (snd ?r) = got"
    using assms by (simp add: bus_drive_def Let_def)
  then show "dr (fst ?r) = d" "0 \<le> fst (snd ?r)" "?r = (fst ?r, fst (snd ?r), got)"
    by (auto simp: prod_eq_iff)
qed

text \<open>The status stage ends a command.\<close>

lemma read_csw_ok:
  assumes "bus_drive bus msc dr nsec bs" "dr_phase (dr u) = Reporting (drive_csw (le_bytes tag) 0)"
  obtains u' res where "msc_read_csw bus msc u = (u', res, drive_csw (le_bytes tag) 0)" "0 \<le> res"
    "dr u' = dr u \<lparr> dr_phase := Idle \<rparr>"
proof -
  have "drive_in (dr u) (length (replicate 13 (0 :: u8))) = Some (dr u \<lparr> dr_phase := Idle \<rparr>, drive_csw (le_bytes tag) 0)"
    using assms(2) by (simp add: drive_in_def csw_accepted)
  from bus_drive_in [OF assms(1) this] obtain u' res where
    "ub_bulk_in bus u (ub_slot_id bus u (m_dev msc)) (m_in_dci msc) (replicate 13 0) = (u', res, drive_csw (le_bytes tag) 0)"
    "dr u' = dr u \<lparr> dr_phase := Idle \<rparr>" "0 \<le> res" .
  then show ?thesis by (intro that [of u' res]) (simp_all add: msc_read_csw_def Let_def)
qed

lemma drive_read_command:
  assumes "dr_phase d = Idle" "unat n < 65536" "unat lba + unat n \<le> nsec" "unat len = unat n * bs"
  shows "drive_out nsec bs d (msc_cbw tag len True (rw10_cdb SCSI_READ10 lba n)) = Some (d \<lparr> dr_phase :=
    Sending (concat (map (dr_blocks d) [unat lba..<unat lba + unat n])) (drive_csw (le_bytes tag) 0) \<rparr>)"
proof -
  note f = cbw_fields [OF rw10_fields(1) [OF assms(2)], of tag len True SCSI_READ10 lba]
  show ?thesis using assms f rw10_fields [OF assms(2)]
    by (simp add: drive_out_def drive_command_def Let_def SCSI_READ10_def del: drop_append take_append)
qed

lemma drive_write_command:
  assumes "dr_phase d = Idle" "unat n < 65536" "unat lba + unat n \<le> nsec" "unat len = unat n * bs"
  shows "drive_out nsec bs d (msc_cbw tag len False (rw10_cdb SCSI_WRITE10 lba n)) = Some (d \<lparr> dr_phase :=
    Receiving (unat lba) (unat n) (drive_csw (le_bytes tag) 0) \<rparr>)"
proof -
  note f = cbw_fields [OF rw10_fields(1) [OF assms(2)], of tag len False SCSI_WRITE10 lba]
  show ?thesis using assms f rw10_fields [OF assms(2)]
    by (simp add: drive_out_def drive_command_def Let_def SCSI_WRITE10_def del: drop_append take_append)
qed

lemma blocks_length:
  "(\<And>b. length (f b) = k) \<Longrightarrow> length (concat (map f [i..<j])) = (j - i) * k"
  by (simp add: length_concat comp_def sum_list_triv)

lemma bot_read:
  assumes bd: "bus_drive bus msc dr nsec bs" and idle: "dr_phase (dr u) = Idle"
    and bl: "\<And>b. length (dr_blocks (dr u) b) = bs"
    and n: "unat n < 65536" "unat lba + unat n \<le> nsec" "unat len = unat n * bs" "len \<noteq> 0" "unat len \<le> length buf"
  obtains u' where "msc_bot_transfer bus msc (rw10_cdb SCSI_READ10 lba n) (Some buf) len True (t, u)
      = ((t + 1, u'), 0, concat (map (dr_blocks (dr u)) [unat lba..<unat lba + unat n]) @ drop (unat len) buf)"
    "dr u' = dr u"
proof -
  let ?data = "concat (map (dr_blocks (dr u)) [unat lba..<unat lba + unat n])"
  from bus_drive_out [OF bd drive_read_command [OF idle n(1-3), of "t + 1"]] obtain u1 r1 where
    1: "ub_bulk_out bus u (ub_slot_id bus u (m_dev msc)) (m_out_dci msc)
          (msc_cbw (t + 1) len True (rw10_cdb SCSI_READ10 lba n)) = (u1, r1)"
    "dr u1 = dr u \<lparr> dr_phase := Sending ?data (drive_csw (le_bytes (t + 1)) 0) \<rparr>" "0 \<le> r1" .
  have "drive_in (dr u1) (length (take (unat len) buf))
      = Some (dr u \<lparr> dr_phase := Reporting (drive_csw (le_bytes (t + 1)) 0) \<rparr>, ?data)"
    using n bl by (simp add: 1(2) drive_in_def blocks_length)
  from bus_drive_in [OF bd this] obtain u2 r2 where
    2: "ub_bulk_in bus u1 (ub_slot_id bus u1 (m_dev msc)) (m_in_dci msc) (take (unat len) buf) = (u2, r2, ?data)"
    "dr u2 = dr u \<lparr> dr_phase := Reporting (drive_csw (le_bytes (t + 1)) 0) \<rparr>" "0 \<le> r2" .
  have "dr_phase (dr u2) = Reporting (drive_csw (le_bytes (t + 1)) 0)" by (simp add: 2(2))
  from read_csw_ok [OF bd this] obtain u3 r3 where
    3: "msc_read_csw bus msc u2 = (u3, r3, drive_csw (le_bytes (t + 1)) 0)" "0 \<le> r3"
    "dr u3 = dr u2 \<lparr> dr_phase := Idle \<rparr>" .
  have "dr u3 = dr u" using 3(3) 2(2) idle by simp
  moreover have "msc_data_stage bus msc (Some buf) len True u1 = (u2, ?data @ drop (unat len) buf)"
    using 2 n(4) by (simp add: msc_data_stage_def Let_def)
  ultimately show ?thesis using 1 3
    by (intro that [of u3]) (simp_all add: msc_bot_transfer_def Let_def csw_accepted)
qed

lemma bot_write:
  assumes bd: "bus_drive bus msc dr nsec bs" and idle: "dr_phase (dr u) = Idle"
    and n: "unat n < 65536" "unat lba + unat n \<le> nsec" "unat len = unat n * bs" "len \<noteq> 0" "unat len \<le> length buf"
  obtains u' where "msc_bot_transfer bus msc (rw10_cdb SCSI_WRITE10 lba n) (Some buf) len False (t, u)
      = ((t + 1, u'), 0, buf)"
    "dr u' = dr u \<lparr> dr_blocks := store_blocks bs (unat lba) (unat n) (take (unat len) buf) (dr_blocks (dr u)) \<rparr>"
proof -
  let ?blocks = "store_blocks bs (unat lba) (unat n) (take (unat len) buf) (dr_blocks (dr u))"
  from bus_drive_out [OF bd drive_write_command [OF idle n(1-3), of "t + 1"]] obtain u1 r1 where
    1: "ub_bulk_out bus u (ub_slot_id bus u (m_dev msc)) (m_out_dci msc)
          (msc_cbw (t + 1) len False (rw10_cdb SCSI_WRITE10 lba n)) = (u1, r1)"
    "dr u1 = dr u \<lparr> dr_phase := Receiving (unat lba) (unat n) (drive_csw (le_bytes (t + 1)) 0) \<rparr>" "0 \<le> r1" .
  have "drive_out nsec bs (dr u1) (take (unat len) buf)
      = Some (dr u \<lparr> dr_blocks := ?blocks, dr_phase := Reporting (drive_csw (le_bytes (t + 1)) 0) \<rparr>)"
    using n by (simp add: 1(2) drive_out_def)
  from bus_drive_out [OF bd this] obtain u2 r2 where
    2: "ub_bulk_out bus u1 (ub_slot_id bus u1 (m_dev msc)) (m_out_dci msc) (take (unat len) buf) = (u2, r2)"
    "dr u2 = dr u \<lparr> dr_blocks := ?blocks, dr_phase := Reporting (drive_csw (le_bytes (t + 1)) 0) \<rparr>" "0 \<le> r2" .
  have "dr_phase (dr u2) = Reporting (drive_csw (le_bytes (t + 1)) 0)" by (simp add: 2(2))
  from read_csw_ok [OF bd this] obtain u3 r3 where
    3: "msc_read_csw bus msc u2 = (u3, r3, drive_csw (le_bytes (t + 1)) 0)" "0 \<le> r3"
    "dr u3 = dr u2 \<lparr> dr_phase := Idle \<rparr>" .
  have "dr u3 = dr u \<lparr> dr_blocks := ?blocks \<rparr>" using 3(3) 2(2) idle by simp
  moreover have "msc_data_stage bus msc (Some buf) len False u1 = (u2, buf)"
    using 2 n(4) by (simp add: msc_data_stage_def Let_def)
  ultimately show ?thesis using 1 3
    by (intro that [of u3]) (simp_all add: msc_bot_transfer_def Let_def csw_accepted)
qed

section \<open>Runs of blocks\<close>

lemma msc_retry_first:
  "msc_bot_transfer bus msc cdb (Some buf) len d io = (io1, 0, buf1) \<Longrightarrow>
     msc_retry 3 bus msc cdb len d r buf io = (io1, 0, buf1)"
  by (simp add: numeral_3_eq_3)

lemma unat_mult_small:
  assumes "unat c \<le> 64" "unat b \<le> 4096"
  shows "unat (c * b :: u32) = unat c * unat b"
proof -
  have "unat c * unat b \<le> 64 * 4096" using assms by (rule mult_le_mono)
  then show ?thesis by (simp add: unat_word_ariths)
qed

text \<open>The numbers of one round of the loop.\<close>

lemma chunk_numbers:
  assumes "r \<noteq> 0" "unat lba + unat r \<le> nsec" "nsec < 2 ^ 32" "unat (m_block_size msc) = bs" "0 < bs" "bs \<le> 4096"
    and "length buf = unat r * bs"
  defines "c \<equiv> msc_chunk r"
  shows "unat c < 65536" "unat lba + unat c \<le> nsec" "unat (c * m_block_size msc) = unat c * bs"
    "c * m_block_size msc \<noteq> 0" "unat (c * m_block_size msc) \<le> length buf"
    "unat (lba + c) = unat lba + unat c" "unat (r - c) = unat r - unat c" "unat c \<le> unat r" "0 < unat c"
proof -
  have c: "unat c \<le> 64" "unat c \<le> unat r" "0 < unat c"
    using msc_chunk_le [of r] assms(1) by (auto simp: c_def msc_chunk_def word_less_nat_alt)
  then show "unat c < 65536" "unat lba + unat c \<le> nsec" "unat c \<le> unat r" "0 < unat c" using assms(2) by auto
  show len: "unat (c * m_block_size msc) = unat c * bs"
    using unat_mult_small [OF c(1), of "m_block_size msc"] assms(4,6) by simp
  then have "0 < unat (c * m_block_size msc)" using c(3) assms(5) by simp
  then show "c * m_block_size msc \<noteq> 0" by auto
  show "unat (c * m_block_size msc) \<le> length buf" unfolding len assms(7) using c(2) by simp
  show "unat (lba + c) = unat lba + unat c" using c(2) assms(2,3) by (simp add: unat_word_ariths)
  show "unat (r - c) = unat r - unat c" unfolding c_def by (rule msc_chunk_minus)
qed

lemma msc_read_run:
  assumes bd: "bus_drive bus msc dr nsec bs" and ns: "nsec < 2 ^ 32"
    and bs: "unat (m_block_size msc) = bs" "0 < bs" "bs \<le> 4096"
    and st: "dr_phase (dr u) = Idle" "\<And>b. length (dr_blocks (dr u) b) = bs"
    and rg: "unat lba + unat r \<le> nsec" "length buf = unat r * bs"
  shows "\<exists>t' u'. msc_blocks_loop bus msc True lba r buf (t, u)
      = ((t', u'), 0, concat (map (dr_blocks (dr u)) [unat lba..<unat lba + unat r])) \<and> dr u' = dr u"
  using st rg
proof (induction "unat r" arbitrary: r lba buf t u rule: less_induct)
  case less
  show ?case
  proof (cases "r = 0")
    case True
    then show ?thesis using less.prems by (simp add: msc_blocks_loop.simps)
  next
    case False
    let ?c = "msc_chunk r" and ?B = "dr_blocks (dr u)"
    let ?len = "?c * m_block_size msc"
    note n = chunk_numbers [OF False less.prems(3) ns bs less.prems(4)]
    let ?d = "concat (map ?B [unat lba..<unat lba + unat ?c])"
    obtain u1 where u1: "msc_bot_transfer bus msc (rw10_cdb SCSI_READ10 lba ?c) (Some buf) ?len True (t, u)
        = ((t + 1, u1), 0, ?d @ drop (unat ?len) buf)" "dr u1 = dr u"
      by (rule bot_read [OF bd less.prems(1,2) n(1-5)])
    have dl: "length ?d = unat ?len" using less.prems(2) by (simp add: blocks_length n(3))
    have "length (drop (unat ?len) buf) = unat (r - ?c) * bs"
      using less.prems(4) by (simp add: n(3,7) diff_mult_distrib)
    moreover have "unat (r - ?c) < unat r" using msc_chunk_less [OF False] .
    moreover have "unat (lba + ?c) + unat (r - ?c) \<le> nsec" using less.prems(3) n(6,7,8) by simp
    ultimately obtain t' u' where u': "msc_blocks_loop bus msc True (lba + ?c) (r - ?c) (drop (unat ?len) buf) (t + 1, u1)
        = ((t', u'), 0, concat (map ?B [unat (lba + ?c)..<unat (lba + ?c) + unat (r - ?c)]))" "dr u' = dr u"
      using less.hyps [of "r - ?c" u1 "lba + ?c" "drop (unat ?len) buf" "t + 1"] less.prems(1,2) u1(2) by auto
    have "[unat lba..<unat lba + unat r]
        = [unat lba..<unat lba + unat ?c] @ [unat (lba + ?c)..<unat (lba + ?c) + unat (r - ?c)]"
      using n(6,7,8) upt_add_eq_append [of "unat lba" "unat lba + unat ?c" "unat r - unat ?c"] by simp
    then have "msc_blocks_loop bus msc True lba r buf (t, u)
        = ((t', u'), 0, concat (map ?B [unat lba..<unat lba + unat r]))"
      using False msc_retry_first [OF u1(1)] u'(1) dl
      by (subst msc_blocks_loop.simps) (simp add: Let_def)
    with u'(2) show ?thesis by blast
  qed
qed

lemma store_blocks_append:
  assumes "length x = bs * n"
  shows "store_blocks bs (lba + n) m y (store_blocks bs lba n x f) = store_blocks bs lba (n + m) (x @ y) f"
proof
  fix b
  have *: "take bs (drop (bs * (b - lba)) (x @ y)) = take bs (drop (bs * (b - lba)) x)" if "lba \<le> b" "b < lba + n"
  proof -
    have "(b - lba + 1) * bs \<le> n * bs" using that by (intro mult_le_mono1) linarith
    then have "bs * (b - lba) + bs \<le> length x" using assms by (simp add: algebra_simps)
    then show ?thesis by simp
  qed
  have **: "drop (bs * (b - lba)) (x @ y) = drop (bs * (b - (lba + n))) y" if "lba + n \<le> b"
  proof -
    have "bs * (b - lba) - length x = bs * (b - (lba + n))" "length x \<le> bs * (b - lba)"
      using that assms by (auto simp: diff_mult_distrib2 [symmetric])
    then show ?thesis by simp
  qed
  show "store_blocks bs (lba + n) m y (store_blocks bs lba n x f) b = store_blocks bs lba (n + m) (x @ y) f b"
    using * ** by (auto simp: store_blocks_def simp del: drop_append take_append)
qed

lemma msc_write_run:
  assumes bd: "bus_drive bus msc dr nsec bs" and ns: "nsec < 2 ^ 32"
    and bs: "unat (m_block_size msc) = bs" "0 < bs" "bs \<le> 4096"
    and st: "dr_phase (dr u) = Idle"
    and rg: "unat lba + unat r \<le> nsec" "length buf = unat r * bs"
  shows "\<exists>t' u' b. msc_blocks_loop bus msc False lba r buf (t, u) = ((t', u'), 0, b)
      \<and> dr u' = dr u \<lparr> dr_blocks := store_blocks bs (unat lba) (unat r) buf (dr_blocks (dr u)) \<rparr>"
  using st rg
proof (induction "unat r" arbitrary: r lba buf t u rule: less_induct)
  case less
  show ?case
  proof (cases "r = 0")
    case True
    have "store_blocks bs (unat lba) 0 buf (dr_blocks (dr u)) = dr_blocks (dr u)" by (rule ext) (auto simp: store_blocks_def)
    with True show ?thesis by (simp add: msc_blocks_loop.simps)
  next
    case False
    let ?c = "msc_chunk r" and ?B = "dr_blocks (dr u)"
    let ?len = "?c * m_block_size msc"
    note n = chunk_numbers [OF False less.prems(2) ns bs less.prems(3)]
    obtain u1 where u1: "msc_bot_transfer bus msc (rw10_cdb SCSI_WRITE10 lba ?c) (Some buf) ?len False (t, u)
        = ((t + 1, u1), 0, buf)"
      "dr u1 = dr u \<lparr> dr_blocks := store_blocks bs (unat lba) (unat ?c) (take (unat ?len) buf) ?B \<rparr>"
      by (rule bot_write [OF bd less.prems(1) n(1-5)])
    have "length (drop (unat ?len) buf) = unat (r - ?c) * bs"
      using less.prems(3) by (simp add: n(3,7) diff_mult_distrib)
    moreover have "unat (r - ?c) < unat r" using msc_chunk_less [OF False] .
    moreover have "unat (lba + ?c) + unat (r - ?c) \<le> nsec" using less.prems(2) n(6,7,8) by simp
    ultimately obtain t' u' b where u': "msc_blocks_loop bus msc False (lba + ?c) (r - ?c) (drop (unat ?len) buf) (t + 1, u1)
        = ((t', u'), 0, b)"
      "dr u' = dr u1 \<lparr> dr_blocks := store_blocks bs (unat (lba + ?c)) (unat (r - ?c)) (drop (unat ?len) buf) (dr_blocks (dr u1)) \<rparr>"
      using less.hyps [of "r - ?c" u1 "lba + ?c" "drop (unat ?len) buf" "t + 1"] less.prems(1) u1(2) by auto
    have "msc_blocks_loop bus msc False lba r buf (t, u) = ((t', u'), 0, take (unat ?len) buf @ b)"
      using False msc_retry_first [OF u1(1)] u'(1)
      by (subst msc_blocks_loop.simps) (simp add: Let_def)
    moreover have "length (take (unat ?len) buf) = bs * unat ?c" using n(3,5) by simp
    then have "dr u' = dr u \<lparr> dr_blocks := store_blocks bs (unat lba) (unat r) buf ?B \<rparr>"
      using u'(2) u1(2) n(8) by (simp add: n(6,7) store_blocks_append)
    ultimately show ?thesis by blast
  qed
qed

section \<open>Reading and writing a drive\<close>

text \<open>C8. Through the chunks of at most 64 blocks, the command wrappers and the status wrappers, the
  driver reads and writes a drive that follows the transport: a read inside the drive returns 0 with
  the blocks in order and leaves the drive as it was, a write returns 0 and stores exactly the blocks
  given, and the drive is ready for the next command. Without a drive or a buffer, for a drive that is
  not ready or a count of 0, both return -1 and send nothing.\<close>

theorem usb_msc_blocks:
  assumes "bus_drive bus msc dr nsec bs" and "nsec < 2 ^ 32" and "unat (m_block_size msc) = bs" "0 < bs" "bs \<le> 4096"
    and "dr_phase (dr u) = Idle" "\<forall>b. length (dr_blocks (dr u) b) = bs"
    and "unat lba + unat n \<le> nsec" "length buf = unat n * bs"
  shows "(if m_ready msc \<and> n \<noteq> 0
      then \<exists>t' u'. usb_msc_read_blocks bus (Some msc) lba n (Some buf) (t, u)
          = ((t', u'), 0, concat (map (dr_blocks (dr u)) [unat lba..<unat lba + unat n])) \<and> dr u' = dr u
      else usb_msc_read_blocks bus (Some msc) lba n (Some buf) (t, u) = ((t, u), -1, buf))
    \<and> (if m_ready msc \<and> n \<noteq> 0
      then \<exists>t' u'. usb_msc_write_blocks bus (Some msc) lba n (Some buf) (t, u) = ((t', u'), 0)
          \<and> dr u' = dr u \<lparr> dr_blocks := (\<lambda>b. if unat lba \<le> b \<and> b < unat lba + unat n
              then take bs (drop (bs * (b - unat lba)) buf) else dr_blocks (dr u) b) \<rparr>
      else usb_msc_write_blocks bus (Some msc) lba n (Some buf) (t, u) = ((t, u), -1))
    \<and> usb_msc_read_blocks bus None lba n (Some buf) (t, u) = ((t, u), -1, buf)
    \<and> usb_msc_write_blocks bus (Some msc) lba n None (t, u) = ((t, u), -1)"
proof -
  have "store_blocks bs (unat lba) (unat n) buf f = (\<lambda>b. if unat lba \<le> b \<and> b < unat lba + unat n
      then take bs (drop (bs * (b - unat lba)) buf) else f b)" for f
    by (rule ext) (simp add: store_blocks_def)
  then show ?thesis
    using msc_read_run [OF assms(1-6), of lba n buf t] msc_write_run [OF assms(1-6) assms(8,9), of t] assms(7-9)
    by (auto simp: usb_msc_read_blocks_def usb_msc_write_blocks_def)
qed

text \<open>A bus with one drive of 1000 blocks.\<close>

definition demo_bus :: "bot_drive usb_bus" where
  "demo_bus = \<lparr> ub_slot_id = (\<lambda>u d. 1),
    ub_bulk_out = (\<lambda>u slot dci data. case drive_out 1000 512 u data of None \<Rightarrow> (u, -6) | Some d \<Rightarrow> (d, int (length data))),
    ub_bulk_in = (\<lambda>u slot dci buf. case drive_in u (length buf) of
       None \<Rightarrow> (u, -6, buf) | Some (d, got) \<Rightarrow> (d, int (length got), got)),
    ub_clear_stall = (\<lambda>u slot dci a. u), ub_get_max_lun = (\<lambda>u d. (u, 0, 0)), ub_clear_halt = (\<lambda>u d a. u),
    ub_delay = (\<lambda>u ms. u) \<rparr>"

lemma demo_bus_drive: "bus_drive demo_bus msc id 1000 512"
  by (auto simp: bus_drive_def demo_bus_def Let_def split: option.splits)

theorem usb_msc_blocks_witness:
  "\<exists>t' u'. usb_msc_write_blocks demo_bus (Some (zero_msc \<lparr> m_block_size := 512, m_ready := True \<rparr>)) 5 100
      (Some (replicate 51200 7)) (0, \<lparr> dr_blocks = (\<lambda>b. replicate 512 0), dr_phase = Idle \<rparr>) = ((t', u'), 0)
    \<and> dr_blocks u' 104 = replicate 512 7 \<and> dr_blocks u' 105 = replicate 512 0"
proof -
  let ?m = "zero_msc \<lparr> m_block_size := 512, m_ready := True \<rparr>"
  let ?u = "\<lparr> dr_blocks = (\<lambda>b. replicate 512 (0 :: u8)), dr_phase = Idle \<rparr>"
  from usb_msc_blocks [OF demo_bus_drive [of ?m], of ?u 5 100 "replicate 51200 7" 0] show ?thesis
    by auto
qed

section \<open>Errors of the data stage\<close>

text \<open>A data stage that fails is forgotten: when the drive still reports a passed command, the transfer
  returns 0, with whatever the buffer holds.\<close>

lemma data_stage_error_ignored:
  assumes "ub_bulk_out bus u (ub_slot_id bus u (m_dev msc)) (m_out_dci msc) (msc_cbw (t + 1) len True cdb) = (u1, r1)" "0 \<le> r1"
    and "ub_bulk_in bus u1 (ub_slot_id bus u1 (m_dev msc)) (m_in_dci msc) (take (unat len) buf) = (u2, r2, got)"
      "r2 < 0" "len \<noteq> 0"
    and "ub_clear_stall bus u2 (ub_slot_id bus u1 (m_dev msc)) (m_in_dci msc) (m_ep_in_addr msc) = u3"
    and "ub_bulk_in bus u3 (ub_slot_id bus u3 (m_dev msc)) (m_in_dci msc) (replicate 13 0)
      = (u4, 13, drive_csw (le_bytes (t + 1)) 0)"
  shows "msc_bot_transfer bus msc cdb (Some buf) len True (t, u) = ((t + 1, u4), 0, got @ drop (unat len) buf)"
  using assms
  by (simp add: msc_bot_transfer_def msc_data_stage_def msc_read_csw_def Let_def csw_accepted)

section \<open>Removing drives\<close>

lemma unregister_devices:
  "registry_ok r \<Longrightarrow> registry_ok (blockdev_unregister r d) \<and> devices (blockdev_unregister r d) = remove1 d (devices r)"
  using unregister_loop_remove1 [of r 0 "bdev_count r" d] by (simp add: blockdev_unregister_def)

text \<open>C35. Removal leaves a stale block device behind. With two drives registered, removing the first
  moves the entry of the second down while the registry keeps the address of its old place, so that
  removing the second as well unregisters another address: no drive is left, and the registry still
  holds the address of the second entry.\<close>

theorem usb_msc_remove_stale:
  assumes "registry_ok (msc_registry st)" "devices (msc_registry st) = [ba 0, ba 1]" "ba 0 \<noteq> ba 1"
    and "msc_count st = 2" "length (msc_devs st) = 4"
    and "m_dev (msc_devs st ! 0) = d0" "m_dev (msc_devs st ! 1) = d1" "d0 \<noteq> 0" "d1 \<noteq> 0" "d0 \<noteq> d1"
  shows "let (st1, r1) = usb_msc_remove_device ba st d0; (st2, r2) = usb_msc_remove_device ba st1 d1
    in r1 = 0 \<and> r2 = 0 \<and> usb_msc_get_count st2 = 0 \<and> devices (msc_registry st2) = [ba 1]"
proof -
  let ?st1 = "st \<lparr> msc_registry := blockdev_unregister (msc_registry st) (ba 0),
    msc_devs := (msc_devs st)[0 := msc_devs st ! 1], msc_count := 1 \<rparr>"
  have 1: "usb_msc_remove_device ba st d0 = (?st1, 0)"
    using assms by (simp add: usb_msc_remove_device_def numeral_2_eq_2)
  have "usb_msc_remove_device ba ?st1 d1
      = (?st1 \<lparr> msc_registry := blockdev_unregister (msc_registry ?st1) (ba 0), msc_count := 0 \<rparr>, 0)"
    using assms by (simp add: usb_msc_remove_device_def)
  then show ?thesis
    using unregister_devices [OF assms(1), of "ba 0"] assms(2,3)
      unregister_devices [of "blockdev_unregister (msc_registry st) (ba 0)" "ba 0"]
    by (simp add: 1 usb_msc_get_count_def)
qed

theorem usb_msc_remove_stale_witness:
  "let ba = (\<lambda>i. if i = 0 then 0x1000 else 0x2000);
       r = fst (blockdev_register (fst (blockdev_register blockdev_init (ba 0))) (ba 1));
       st = \<lparr> msc_devs = [zero_msc \<lparr> m_dev := 1 \<rparr>, zero_msc \<lparr> m_dev := 2 \<rparr>, zero_msc, zero_msc],
              msc_count = 2, msc_tag = 0, msc_registry = r, msc_usb = (), usb_names = (\<lambda>a. []) \<rparr>;
       (st1, r1) = usb_msc_remove_device ba st 1; (st2, r2) = usb_msc_remove_device ba st1 2
   in usb_msc_get_count st2 = 0 \<and> devices (msc_registry st2) = [0x2000]"
proof -
  define ba :: "nat \<Rightarrow> u32" where "ba = (\<lambda>i. if i = 0 then 0x1000 else 0x2000)"
  define r where "r = fst (blockdev_register (fst (blockdev_register blockdev_init 0x1000)) 0x2000)"
  have r: "registry_ok r \<and> devices r = [0x1000, 0x2000]" unfolding r_def by code_simp
  let ?st = "\<lparr> msc_devs = [zero_msc \<lparr> m_dev := 1 \<rparr>, zero_msc \<lparr> m_dev := 2 \<rparr>, zero_msc, zero_msc],
    msc_count = 2, msc_tag = 0, msc_registry = r, msc_usb = (), usb_names = (\<lambda>a. []) \<rparr>"
  have "let (st1, r1) = usb_msc_remove_device ba ?st 1; (st2, r2) = usb_msc_remove_device ba st1 2
    in r1 = 0 \<and> r2 = 0 \<and> usb_msc_get_count st2 = 0 \<and> devices (msc_registry st2) = [ba 1]"
    by (rule usb_msc_remove_stale) (use r in \<open>simp_all add: ba_def\<close>)
  then show ?thesis
    unfolding Let_def by (simp add: ba_def [symmetric] r_def [symmetric] case_prod_unfold) (simp add: ba_def)
qed

end
