(* ===== verification/Keyboard.thy ===== *)
theory Keyboard
  imports Printf
begin

text \<open>
  Keyboards: the ring buffer of key codes that all keyboards share (\<open>src/usb/usb_hid.c\<close>), the decoder
  of PS/2 scan codes (\<open>src/kernel/ps2_kbd.c\<close>) and the decoder of USB boot reports. The interface
  \<open>bounded_queue\<close> says what a reader of the buffer relies on.

  Here a change of the lights is the byte that is sent; the handshake that sends it is in \<open>Ps2\<close>.
\<close>

section \<open>Key codes\<close>

definition KEY_UP :: u16 where "KEY_UP = 0x101"
definition KEY_DOWN :: u16 where "KEY_DOWN = 0x102"
definition KEY_LEFT :: u16 where "KEY_LEFT = 0x103"
definition KEY_RIGHT :: u16 where "KEY_RIGHT = 0x104"
definition KEY_HOME :: u16 where "KEY_HOME = 0x105"
definition KEY_END :: u16 where "KEY_END = 0x106"
definition KEY_DELETE :: u16 where "KEY_DELETE = 0x107"
definition KEY_PGUP :: u16 where "KEY_PGUP = 0x108"
definition KEY_PGDN :: u16 where "KEY_PGDN = 0x109"
definition KEY_F1 :: u16 where "KEY_F1 = 0x110"
definition KEY_F2 :: u16 where "KEY_F2 = 0x111"
definition KEY_F3 :: u16 where "KEY_F3 = 0x112"
definition KEY_ESC :: u16 where "KEY_ESC = 0x1B"

lemmas key_defs = KEY_UP_def KEY_DOWN_def KEY_LEFT_def KEY_RIGHT_def KEY_HOME_def KEY_END_def KEY_DELETE_def
  KEY_PGUP_def KEY_PGDN_def KEY_F1_def KEY_F2_def KEY_F3_def KEY_ESC_def

section \<open>The buffer\<close>

definition KBD_BUF_SIZE :: nat where "KBD_BUF_SIZE = 256"

record kbd_buf =
  kb_buffer :: "u16 list"
  kb_head :: nat
  kb_tail :: nat

definition kbd_buf_init :: kbd_buf where
  "kbd_buf_init = \<lparr> kb_buffer = replicate KBD_BUF_SIZE 0, kb_head = 0, kb_tail = 0 \<rparr>"

definition kbd_push_char :: "kbd_buf \<Rightarrow> u16 \<Rightarrow> kbd_buf" where
  "kbd_push_char b key =
    (let nxt = (kb_head b + 1) mod KBD_BUF_SIZE
     in if nxt \<noteq> kb_tail b then b \<lparr> kb_buffer := (kb_buffer b)[kb_head b := key], kb_head := nxt \<rparr> else b)"

definition usb_kbd_has_char :: "kbd_buf \<Rightarrow> bool" where
  "usb_kbd_has_char b \<longleftrightarrow> kb_head b \<noteq> kb_tail b"

definition usb_kbd_getchar :: "kbd_buf \<Rightarrow> kbd_buf \<times> u16" where
  "usb_kbd_getchar b =
    (if kb_head b = kb_tail b then (b, 0)
     else (b \<lparr> kb_tail := (kb_tail b + 1) mod KBD_BUF_SIZE \<rparr>, kb_buffer b ! kb_tail b))"

section \<open>Scan codes\<close>

definition pad128 :: "u8 list \<Rightarrow> u8 list" where
  "pad128 t = t @ replicate (128 - length t) 0"

definition ps2_ascii_normal :: "u8 list" where
  "ps2_ascii_normal = pad128 ([0, 27] @ bytes ''1234567890-='' @ [8, 9] @ bytes ''qwertyuiop[]'' @ [10, 0]
     @ bytes ''asdfghjkl;'' @ [39, 96, 0, 92] @ bytes ''zxcvbnm,./'' @ [0] @ bytes ''*'' @ [0, 32, 0]
     @ replicate 10 0 @ [0, 0, 0, 0, 0] @ bytes ''-'' @ [0, 0, 0] @ bytes ''+'' @ replicate 8 0)"

definition ps2_ascii_shift :: "u8 list" where
  "ps2_ascii_shift = pad128 ([0, 27] @ bytes ''!@#$%^&*()_+'' @ [8, 9] @ bytes ''QWERTYUIOP{}'' @ [10, 0]
     @ bytes ''ASDFGHJKL:'' @ [34, 126, 0, 124] @ bytes ''ZXCVBNM<>?'' @ [0] @ bytes ''*'' @ [0, 32, 0]
     @ replicate 10 0 @ [0, 0, 0, 0, 0] @ bytes ''-'' @ [0, 0, 0] @ bytes ''+'' @ replicate 8 0)"

text \<open>The static flags of the decoder.\<close>

record ps2_flags =
  shift_pressed :: bool
  ctrl_pressed :: bool
  alt_pressed :: bool
  caps_lock :: bool
  num_lock :: bool
  scroll_lock :: bool
  extended_code :: bool

definition ps2_flags_init :: ps2_flags where
  "ps2_flags_init = \<lparr> shift_pressed = False, ctrl_pressed = False, alt_pressed = False, caps_lock = False,
     num_lock = True, scroll_lock = False, extended_code = False \<rparr>"

definition ps2_leds :: "bool \<Rightarrow> bool \<Rightarrow> bool \<Rightarrow> u8" where
  "ps2_leds scroll num caps =
    (let leds = 0; leds = (if scroll then leds OR 1 else leds); leds = (if num then leds OR 2 else leds)
     in if caps then leds OR 4 else leds)"

text \<open>What a scan code does besides the flags: the key it puts into the buffer, or the lights it sets.\<close>

datatype ps2_out = Nothing | Key u16 | Leds u8

text \<open>The keys behind the prefix E0.\<close>

definition extended_key :: "u8 \<Rightarrow> ps2_out" where
  "extended_key key =
    (if key = 0x48 then Key KEY_UP else if key = 0x50 then Key KEY_DOWN
     else if key = 0x4B then Key KEY_LEFT else if key = 0x4D then Key KEY_RIGHT
     else if key = 0x47 then Key KEY_HOME else if key = 0x4F then Key KEY_END
     else if key = 0x49 then Key KEY_PGUP else if key = 0x51 then Key KEY_PGDN
     else if key = 0x53 then Key KEY_DELETE
     else if key = 0x1C then Key 10 else if key = 0x35 then Key (of_char CHR ''/'') else Nothing)"

text \<open>The keys of the pad, by Num Lock; \<open>None\<close> is a key that is not one of them.\<close>

definition keypad_key :: "bool \<Rightarrow> u8 \<Rightarrow> ps2_out option" where
  "keypad_key num key =
    (let by_num = (\<lambda>digit other. Some (Key (if num then of_char digit else other)))
     in if key = 0x47 then by_num CHR ''7'' KEY_HOME else if key = 0x48 then by_num CHR ''8'' KEY_UP
        else if key = 0x49 then by_num CHR ''9'' KEY_PGUP else if key = 0x4A then Some (Key (of_char CHR ''-''))
        else if key = 0x4B then by_num CHR ''4'' KEY_LEFT
        else if key = 0x4C then Some (if num then Key (of_char CHR ''5'') else Nothing)
        else if key = 0x4D then by_num CHR ''6'' KEY_RIGHT else if key = 0x4E then Some (Key (of_char CHR ''+''))
        else if key = 0x4F then by_num CHR ''1'' KEY_END else if key = 0x50 then by_num CHR ''2'' KEY_DOWN
        else if key = 0x51 then by_num CHR ''3'' KEY_PGDN
        else if key = 0x52 then Some (if num then Key (of_char CHR ''0'') else Nothing)
        else if key = 0x53 then by_num CHR ''.'' KEY_DELETE else None)"

definition lower_letter :: "u8 \<Rightarrow> bool" where
  "lower_letter c \<longleftrightarrow> asc CHR ''a'' \<le> c \<and> c \<le> asc CHR ''z''"

definition upper_letter :: "u8 \<Rightarrow> bool" where
  "upper_letter c \<longleftrightarrow> asc CHR ''A'' \<le> c \<and> c \<le> asc CHR ''Z''"

text \<open>The keys of the main block, through the tables.\<close>

definition ascii_key :: "ps2_flags \<Rightarrow> u8 \<Rightarrow> ps2_out" where
  "ascii_key f key =
    (let c = (if shift_pressed f then ps2_ascii_shift else ps2_ascii_normal) ! unat key
     in if ctrl_pressed f \<and> c \<noteq> 0 \<and> lower_letter c then Key (ucast (c - asc CHR ''a'' + 1))
        else if ctrl_pressed f \<and> c \<noteq> 0 \<and> upper_letter c then Key (ucast (c - asc CHR ''A'' + 1))
        else (let c = (if caps_lock f \<and> lower_letter c \<and> \<not> shift_pressed f then c - asc CHR ''a'' + asc CHR ''A''
                       else if caps_lock f \<and> upper_letter c \<and> shift_pressed f then c - asc CHR ''A'' + asc CHR ''a''
                       else c)
              in if c \<noteq> 0 then Key (ucast c) else Nothing))"

definition leds_of :: "ps2_flags \<Rightarrow> ps2_out" where
  "leds_of f = Leds (ps2_leds (scroll_lock f) (num_lock f) (caps_lock f))"

text \<open>\<open>ps2_keyboard_handle_byte\<close>: the new flags and the one effect a byte can have.\<close>

definition ps2_scan :: "ps2_flags \<Rightarrow> u8 \<Rightarrow> ps2_flags \<times> ps2_out" where
  "ps2_scan f scancode =
    (if scancode = 0xE0 then (f \<lparr> extended_code := True \<rparr>, Nothing)
     else if scancode = 0xE1 then (f, Nothing)
     else
       (let released = (scancode AND 0x80 \<noteq> 0); key = scancode AND 0x7F
        in if extended_code f then
             (let f = f \<lparr> extended_code := False \<rparr>
              in if key = 0x1D then (f \<lparr> ctrl_pressed := \<not> released \<rparr>, Nothing)
                 else if key = 0x38 then (f \<lparr> alt_pressed := \<not> released \<rparr>, Nothing)
                 else if \<not> released then (f, extended_key key)
                 else (f, Nothing))
           else if key = 0x1D then (f \<lparr> ctrl_pressed := \<not> released \<rparr>, Nothing)
           else if key = 0x38 then (f \<lparr> alt_pressed := \<not> released \<rparr>, Nothing)
           else if key = 0x2A \<or> key = 0x36 then (f \<lparr> shift_pressed := \<not> released \<rparr>, Nothing)
           else if key = 0x3A \<and> \<not> released then
             (let f = f \<lparr> caps_lock := \<not> caps_lock f \<rparr> in (f, leds_of f))
           else if key = 0x45 \<and> \<not> released then
             (let f = f \<lparr> num_lock := \<not> num_lock f \<rparr> in (f, leds_of f))
           else if key = 0x46 \<and> \<not> released then
             (let f = f \<lparr> scroll_lock := \<not> scroll_lock f \<rparr> in (f, leds_of f))
           else if \<not> released then
             (if key = 0x3B then (f, Key KEY_F1) else if key = 0x3C then (f, Key KEY_F2)
              else if key = 0x3D then (f, Key KEY_F3) else if key = 0x01 then (f, Key KEY_ESC)
              else case keypad_key (num_lock f) key of
                Some k \<Rightarrow> (f, k)
              | None \<Rightarrow> (f, ascii_key f key))
           else (f, Nothing)))"

record ps2_kbd =
  pk_flags :: ps2_flags
  pk_buf :: kbd_buf
  pk_leds :: "u8 list"

definition ps2_keyboard_handle_byte :: "ps2_kbd \<Rightarrow> u8 \<Rightarrow> ps2_kbd" where
  "ps2_keyboard_handle_byte k scancode =
    (let (f, out) = ps2_scan (pk_flags k) scancode
     in case out of
          Nothing \<Rightarrow> k \<lparr> pk_flags := f \<rparr>
        | Key c \<Rightarrow> k \<lparr> pk_flags := f, pk_buf := kbd_push_char (pk_buf k) c \<rparr>
        | Leds l \<Rightarrow> k \<lparr> pk_flags := f, pk_leds := pk_leds k @ [l] \<rparr>)"

section \<open>USB boot reports\<close>

definition pad128_16 :: "u16 list \<Rightarrow> u16 list" where
  "pad128_16 t = t @ replicate (128 - length t) 0"

definition hid_scancode_unmodified :: "u16 list" where
  "hid_scancode_unmodified = pad128_16 ([0, 0, 0, 0] @ map ucast (bytes ''abcdefghijklmnopqrstuvwxyz1234567890'')
     @ [10, 27, 8, 9, 32] @ map ucast (bytes ''-=[]'') @ [92] @ map ucast (bytes ''#;'') @ [39, 96]
     @ map ucast (bytes '',./'') @ [0] @ replicate 12 0 @ [0, 0, 0] @ [0]
     @ [KEY_HOME, 0, KEY_DELETE, KEY_END, 0, KEY_RIGHT, KEY_LEFT, KEY_DOWN, KEY_UP])"

definition hid_scancode_shift :: "u16 list" where
  "hid_scancode_shift = pad128_16 ([0, 0, 0, 0] @ map ucast (bytes ''ABCDEFGHIJKLMNOPQRSTUVWXYZ!@#$%^&*()'')
     @ [10, 27, 8, 9, 32] @ map ucast (bytes ''_+{}|~:'') @ [34] @ map ucast (bytes ''~<>?'')
     @ [0] @ replicate 12 0 @ [0, 0, 0] @ [0]
     @ [KEY_HOME, 0, KEY_DELETE, KEY_END, 0, KEY_RIGHT, KEY_LEFT, KEY_DOWN, KEY_UP])"

record usb_kbd_report =
  modifiers :: u8
  keycodes :: "u8 list"

text \<open>The code a newly pressed key puts into the buffer.\<close>

definition hid_key :: "bool \<Rightarrow> bool \<Rightarrow> u8 \<Rightarrow> u16 option" where
  "hid_key shift ctrl key =
    (if key = 0x29 then Some KEY_ESC else if key = 0x3A then Some KEY_F1 else if key = 0x3B then Some KEY_F2
     else if key = 0x3C then Some KEY_F3 else if key = 0x4A then Some KEY_HOME else if key = 0x4D then Some KEY_END
     else if key = 0x4B then Some KEY_PGUP else if key = 0x4E then Some KEY_PGDN
     else if key = 0x4C then Some KEY_DELETE
     else if key < 128 then
       (let c = (if shift then hid_scancode_shift else hid_scancode_unmodified) ! unat key
        in if ctrl \<and> c \<noteq> 0 \<and> of_char CHR ''a'' \<le> c \<and> c \<le> of_char CHR ''z'' then Some (c - of_char CHR ''a'' + 1)
           else if ctrl \<and> c \<noteq> 0 \<and> of_char CHR ''A'' \<le> c \<and> c \<le> of_char CHR ''Z'' then Some (c - of_char CHR ''A'' + 1)
           else if c \<noteq> 0 then Some c else None)
     else None)"

text \<open>One position of the report: keys that are not pressed or were in the last report are skipped.\<close>

definition kbd_report_step :: "usb_kbd_report \<Rightarrow> bool \<Rightarrow> bool \<Rightarrow> u8 \<Rightarrow> kbd_buf \<Rightarrow> kbd_buf" where
  "kbd_report_step last_report shift ctrl key b =
    (if key = 0 \<or> key \<in> set (keycodes last_report) then b
     else case hid_key shift ctrl key of None \<Rightarrow> b | Some c \<Rightarrow> kbd_push_char b c)"

text \<open>The result is the buffer and the report to remember as the last one.\<close>

definition process_kbd_report :: "usb_kbd_report \<Rightarrow> usb_kbd_report \<Rightarrow> kbd_buf \<Rightarrow> kbd_buf \<times> usb_kbd_report" where
  "process_kbd_report last_report report b =
    (let shift = (modifiers report AND 0x22 \<noteq> 0); ctrl = (modifiers report AND 0x11 \<noteq> 0)
     in (fold (kbd_report_step last_report shift ctrl) (keycodes report) b, report))"

section \<open>The buffer as a bounded queue\<close>

locale bounded_queue =
  fixes push :: "'q \<Rightarrow> 'a \<Rightarrow> 'q" and pop :: "'q \<Rightarrow> 'q \<times> 'a" and nonempty :: "'q \<Rightarrow> bool"
    and contents :: "'q \<Rightarrow> 'a list \<Rightarrow> bool" and cap :: nat
  assumes push_room: "contents q xs \<Longrightarrow> length xs < cap \<Longrightarrow> contents (push q x) (xs @ [x])"
    and push_full: "contents q xs \<Longrightarrow> \<not> length xs < cap \<Longrightarrow> push q x = q"
    and pop_first: "contents q (x # xs) \<Longrightarrow> \<exists>q'. pop q = (q', x) \<and> contents q' xs"
    and nonempty_iff: "contents q xs \<Longrightarrow> nonempty q \<longleftrightarrow> xs \<noteq> []"
    and contents_cap: "contents q xs \<Longrightarrow> length xs \<le> cap"
begin

text \<open>What is pushed arrives in order, up to the capacity.\<close>

lemma push_take:
  assumes "contents q xs"
  shows "contents (push q x) (take cap (xs @ [x]))"
  using assms push_room push_full [OF assms] contents_cap [OF assms]
  by (cases "length xs < cap") (auto simp: take_all)

lemma push_all:
  assumes "contents q xs"
  shows "contents (fold (\<lambda>x q. push q x) ys q) (take cap (xs @ ys))"
  using assms
proof (induction ys arbitrary: q xs)
  case Nil
  then show ?case using contents_cap by (simp add: take_all)
next
  case (Cons y ys)
  have "contents (push q y) (take cap (xs @ [y]))" using Cons.prems by (rule push_take)
  from Cons.IH [OF this] show ?case
    by (cases "length xs < cap") (auto simp: take_all)
qed

text \<open>Reading while there is something to read returns the contents.\<close>

primrec drain :: "nat \<Rightarrow> 'q \<Rightarrow> 'a list" where
  "drain 0 q = []"
| "drain (Suc n) q = (if nonempty q then snd (pop q) # drain n (fst (pop q)) else [])"

lemma drain_contents: "contents q xs \<Longrightarrow> length xs \<le> n \<Longrightarrow> drain n q = xs"
proof (induction n arbitrary: q xs)
  case (Suc n)
  then show ?case using nonempty_iff [OF Suc.prems(1)]
    by (cases xs) (auto dest!: pop_first)
qed simp

end

text \<open>The keys in the buffer from tail to head; one place always stays free.\<close>

definition kbd_contents :: "kbd_buf \<Rightarrow> u16 list \<Rightarrow> bool" where
  "kbd_contents b xs \<longleftrightarrow> length (kb_buffer b) = KBD_BUF_SIZE \<and> kb_tail b < KBD_BUF_SIZE \<and> length xs < KBD_BUF_SIZE
     \<and> kb_head b = (kb_tail b + length xs) mod KBD_BUF_SIZE
     \<and> (\<forall>i < length xs. kb_buffer b ! ((kb_tail b + i) mod KBD_BUF_SIZE) = xs ! i)"

lemma ring_distinct:
  "i < m \<Longrightarrow> j < m \<Longrightarrow> (t + i) mod m = (t + j) mod m \<Longrightarrow> i = j" for t i j m :: nat
proof (induction i j rule: linorder_wlog)
  case (le i j)
  obtain q where "t + j = t + i + m * q" using le(1) mod_eq_nat2E [OF le(4)] by auto
  with le(1,3) show ?case by (cases q) auto
qed auto

lemma kbd_next: "kbd_contents b xs \<Longrightarrow> (kb_head b + 1) mod KBD_BUF_SIZE = (kb_tail b + (length xs + 1)) mod KBD_BUF_SIZE"
  by (simp add: kbd_contents_def mod_simps)

lemma kbd_push_room:
  assumes "kbd_contents b xs" "length xs < 255"
  shows "kbd_contents (kbd_push_char b x) (xs @ [x])"
proof -
  have c: "length (kb_buffer b) = 256" "kb_tail b < 256" "kb_head b = (kb_tail b + length xs) mod 256"
    "\<And>i. i < length xs \<Longrightarrow> kb_buffer b ! ((kb_tail b + i) mod 256) = xs ! i"
    using assms(1) by (auto simp: kbd_contents_def KBD_BUF_SIZE_def)
  have nxt: "(kb_head b + 1) mod 256 = (kb_tail b + (length xs + 1)) mod 256"
    using kbd_next [OF assms(1)] by (simp add: KBD_BUF_SIZE_def)
  have "(kb_tail b + (length xs + 1)) mod 256 \<noteq> (kb_tail b + 0) mod 256"
    using ring_distinct [of "length xs + 1" 256 0 "kb_tail b"] assms(2) by auto
  then have push: "kbd_push_char b x
      = b \<lparr> kb_buffer := (kb_buffer b)[(kb_tail b + length xs) mod 256 := x], kb_head := (kb_tail b + (length xs + 1)) mod 256 \<rparr>"
    using c(2,3) nxt by (simp add: kbd_push_char_def KBD_BUF_SIZE_def Let_def)
  have "(kb_buffer b)[(kb_tail b + length xs) mod 256 := x] ! ((kb_tail b + i) mod 256) = xs ! i" if "i < length xs" for i
  proof -
    have "(kb_tail b + length xs) mod 256 \<noteq> (kb_tail b + i) mod 256"
      using ring_distinct [of "length xs" 256 i "kb_tail b"] that assms(2) by auto
    then show ?thesis using c(4) [OF that] by simp
  qed
  then show ?thesis unfolding push
    using c(1,2) assms(2) by (auto simp: kbd_contents_def KBD_BUF_SIZE_def nth_append less_Suc_eq)
qed

lemma kbd_push_full: "kbd_contents b xs \<Longrightarrow> \<not> length xs < 255 \<Longrightarrow> kbd_push_char b x = b"
proof -
  assume c: "kbd_contents b xs" "\<not> length xs < 255"
  then have "length xs = 255" "kb_tail b < 256" by (auto simp: kbd_contents_def KBD_BUF_SIZE_def)
  then have "(kb_tail b + (length xs + 1)) mod 256 = kb_tail b" by simp
  then show ?thesis using kbd_next [OF c(1)] by (simp add: kbd_push_char_def KBD_BUF_SIZE_def)
qed

lemma kbd_pop:
  assumes "kbd_contents b (x # xs)"
  shows "\<exists>b'. usb_kbd_getchar b = (b', x) \<and> kbd_contents b' xs"
proof -
  have c: "length (kb_buffer b) = 256" "kb_tail b < 256" "length xs < 255" "kb_head b = (kb_tail b + (1 + length xs)) mod 256"
    "\<And>i. i < 1 + length xs \<Longrightarrow> kb_buffer b ! ((kb_tail b + i) mod 256) = (x # xs) ! i"
    using assms by (auto simp: kbd_contents_def KBD_BUF_SIZE_def)
  have "kb_head b \<noteq> kb_tail b"
    using ring_distinct [of "1 + length xs" 256 0 "kb_tail b"] c by auto
  moreover have "kb_buffer b ! kb_tail b = x" using c(5) [of 0] c(2) by simp
  moreover have "kbd_contents (b \<lparr> kb_tail := (kb_tail b + 1) mod 256 \<rparr>) xs"
    using c(1,3,4) c(5) [of "1 + i" for i] by (auto simp: kbd_contents_def KBD_BUF_SIZE_def mod_simps add.assoc)
  ultimately show ?thesis by (simp add: usb_kbd_getchar_def KBD_BUF_SIZE_def)
qed

interpretation keys: bounded_queue kbd_push_char usb_kbd_getchar usb_kbd_has_char kbd_contents 255
proof
  fix b xs x
  show "kbd_contents b xs \<Longrightarrow> length xs < 255 \<Longrightarrow> kbd_contents (kbd_push_char b x) (xs @ [x])" by (rule kbd_push_room)
  show "kbd_contents b xs \<Longrightarrow> \<not> length xs < 255 \<Longrightarrow> kbd_push_char b x = b" by (rule kbd_push_full)
  show "kbd_contents b (x # xs) \<Longrightarrow> \<exists>q'. usb_kbd_getchar b = (q', x) \<and> kbd_contents q' xs" by (rule kbd_pop)
  show "kbd_contents b xs \<Longrightarrow> length xs \<le> 255" by (simp add: kbd_contents_def KBD_BUF_SIZE_def)
  show "usb_kbd_has_char b \<longleftrightarrow> xs \<noteq> []" if "kbd_contents b xs"
    using that ring_distinct [of "length xs" 256 0 "kb_tail b"]
    by (auto simp: usb_kbd_has_char_def kbd_contents_def KBD_BUF_SIZE_def)
qed

end
