(* ===== verification/Keyboard_Props.thy ===== *)
theory Keyboard_Props
  imports Keyboard
begin

text \<open>
  What typing does: text typed on a PS/2 keyboard arrives in the buffer, new keys of a USB report are
  delivered once and in order, and the six bytes of the Pause key.
\<close>

section \<open>Typing on a PS/2 keyboard\<close>

text \<open>The key of a character in a table, among the keys of the main block, and the bytes a keyboard
  sends for the character: press and release, within press and release of the left shift key where
  the character needs it.\<close>

definition main_codes :: "nat list" where
  "main_codes = [2..<58]"

definition key_of :: "u8 list \<Rightarrow> u8 \<Rightarrow> u8 option" where
  "key_of t c = map_option of_nat (find (\<lambda>k. t ! k = c) main_codes)"

definition ps2_codes :: "u8 \<Rightarrow> u8 list" where
  "ps2_codes c =
    (case key_of ps2_ascii_normal c of
       Some k \<Rightarrow> [k, k OR 0x80]
     | None \<Rightarrow> (case key_of ps2_ascii_shift c of Some k \<Rightarrow> [0x2A, k, k OR 0x80, 0xAA] | None \<Rightarrow> []))"

definition typeable :: "u8 list" where
  "typeable = [8, 9, 10] @ map of_nat [32..<127]"

text \<open>No modifier is held and Caps Lock is off.\<close>

definition plain_flags :: "ps2_flags \<Rightarrow> bool" where
  "plain_flags f \<longleftrightarrow> \<not> shift_pressed f \<and> \<not> ctrl_pressed f \<and> \<not> caps_lock f \<and> \<not> extended_code f"

lemma main_block:
  "take 56 (drop 2 ps2_ascii_normal) = [49, 50, 51, 52, 53, 54, 55, 56, 57, 48, 45, 61, 8, 9, 113, 119, 101, 114, 116, 121, 117, 105, 111, 112, 91, 93, 10, 0,
     97, 115, 100, 102, 103, 104, 106, 107, 108, 59, 39, 96, 0, 92, 122, 120, 99, 118, 98, 110, 109, 44, 46, 47, 0, 42, 0, 32]"
  "take 56 (drop 2 ps2_ascii_shift) = [33, 64, 35, 36, 37, 94, 38, 42, 40, 41, 95, 43, 8, 9, 81, 87, 69, 82, 84, 89, 85, 73, 79, 80, 123, 125, 10, 0,
     65, 83, 68, 70, 71, 72, 74, 75, 76, 58, 34, 126, 0, 124, 90, 88, 67, 86, 66, 78, 77, 60, 62, 63, 0, 42, 0, 32]"
  by code_simp+

lemma typeable_keys:
  "list_all (\<lambda>c. List.member (take 56 (drop 2 ps2_ascii_normal)) c \<or> List.member (take 56 (drop 2 ps2_ascii_shift)) c) typeable"
  unfolding main_block typeable_def by (simp add: upt_rec)

lemma modifier_entries:
  "list_all (\<lambda>k. ps2_ascii_normal ! k = 0 \<and> ps2_ascii_shift ! k = 0) [29, 42, 54, 56]"
  by code_simp

lemma tables_length: "length ps2_ascii_normal = 128" "length ps2_ascii_shift = 128"
  by code_simp+

text \<open>A key of the main block that is not a modifier: pressed it goes through the tables, released it
  does nothing.\<close>

definition main_key :: "u8 \<Rightarrow> bool" where
  "main_key k \<longleftrightarrow> 2 \<le> unat k \<and> unat k < 58 \<and> unat k \<notin> {29, 42, 54, 56}"

lemma main_key_bits_checked:
  "list_all (\<lambda>n. let k = of_nat n :: u8 in k AND 0x80 = 0 \<and> k AND 0x7F = k \<and> (k OR 0x80) AND 0x80 = 0x80
     \<and> (k OR 0x80) AND 0x7F = k \<and> k OR 0x80 \<noteq> 0xE0 \<and> k OR 0x80 \<noteq> 0xE1) main_codes"
  by code_simp

lemma main_key_bits:
  assumes "main_key k"
  shows "k AND 0x80 = 0" "k AND 0x7F = k" "(k OR 0x80) AND 0x80 = 0x80" "(k OR 0x80) AND 0x7F = k"
    "k OR 0x80 \<noteq> 0xE0" "k OR 0x80 \<noteq> 0xE1"
proof -
  have "unat k \<in> set main_codes" using assms by (simp add: main_key_def main_codes_def del: upt_rec_numeral)
  then show "k AND 0x80 = 0" "k AND 0x7F = k" "(k OR 0x80) AND 0x80 = 0x80" "(k OR 0x80) AND 0x7F = k"
    "k OR 0x80 \<noteq> 0xE0" "k OR 0x80 \<noteq> 0xE1"
    using main_key_bits_checked by (auto simp: list_all_iff Let_def dest!: bspec [of _ _ "unat k"])
qed

lemma main_key_tests:
  "main_key k \<Longrightarrow> k \<noteq> 0xE0 \<and> k \<noteq> 0xE1 \<and> k \<noteq> 0x1D \<and> k \<noteq> 0x38 \<and> k \<noteq> 0x2A \<and> k \<noteq> 0x36 \<and> k \<noteq> 0x3A \<and> k \<noteq> 0x45
     \<and> k \<noteq> 0x46 \<and> k \<noteq> 0x3B \<and> k \<noteq> 0x3C \<and> k \<noteq> 0x3D \<and> k \<noteq> 0x01 \<and> keypad_key num k = None"
  by (auto simp: main_key_def keypad_key_def Let_def)

lemma scan_press: "main_key k \<Longrightarrow> \<not> extended_code f \<Longrightarrow> ps2_scan f k = (f, ascii_key f k)"
  using main_key_bits [of k] main_key_tests [of k "num_lock f"] by (simp add: ps2_scan_def Let_def)

lemma scan_release: "main_key k \<Longrightarrow> \<not> extended_code f \<Longrightarrow> ps2_scan f (k OR 0x80) = (f, Nothing)"
  using main_key_bits [of k] main_key_tests [of k "num_lock f"] by (simp add: ps2_scan_def Let_def)

lemma key_of_Some:
  assumes "key_of t c = Some k" "c \<noteq> 0" "\<And>n. n \<in> {29, 42, 54, 56} \<Longrightarrow> t ! n = 0"
  shows "main_key k" "t ! unat k = c"
proof -
  obtain n where n: "find (\<lambda>k. t ! k = c) main_codes = Some n" "k = of_nat n" using assms(1) by (auto simp: key_of_def)
  then have b: "2 \<le> n" "n < 58" "t ! n = c" by (auto simp: find_Some_iff main_codes_def simp del: upt_rec_numeral)
  then have "unat k = n" using n(2) by (simp add: unat_of_nat take_bit_nat_eq_self)
  with b assms(2,3) show "main_key k" "t ! unat k = c" by (auto simp: main_key_def)
qed

lemma key_of_None: "length t = 128 \<Longrightarrow> key_of t c = None \<Longrightarrow> \<not> List.member (take 56 (drop 2 t)) c"
  by (auto simp: key_of_def find_None_iff in_set_conv_nth main_codes_def simp del: upt_rec_numeral)

lemma modifier_zero: "n \<in> {29, 42, 54, 56} \<Longrightarrow> ps2_ascii_normal ! n = 0 \<and> ps2_ascii_shift ! n = 0"
  using modifier_entries by (auto simp: list_all_iff)

lemma typeable_nonzero: "list_all (\<lambda>c. c \<noteq> 0) typeable"
  by code_simp

lemma ascii_plain: "plain_flags f \<Longrightarrow> ascii_key f k
    = (if ps2_ascii_normal ! unat k = 0 then Nothing else Key (ucast (ps2_ascii_normal ! unat k)))"
  by (simp add: ascii_key_def plain_flags_def Let_def)

lemma ascii_shifted: "plain_flags f \<Longrightarrow> ascii_key (f \<lparr> shift_pressed := True \<rparr>) k
    = (if ps2_ascii_shift ! unat k = 0 then Nothing else Key (ucast (ps2_ascii_shift ! unat k)))"
  by (simp add: ascii_key_def plain_flags_def Let_def)

lemma shift_scans:
  assumes "plain_flags f"
  shows "ps2_scan f 0x2A = (f \<lparr> shift_pressed := True \<rparr>, Nothing)"
    "ps2_scan (f \<lparr> shift_pressed := True \<rparr>) 0xAA = (f, Nothing)"
  using assms by (simp_all add: ps2_scan_def plain_flags_def Let_def)

text \<open>One character: exactly its code is pushed, and the flags are as before.\<close>

lemma typed_char:
  assumes "c \<in> set typeable" "plain_flags (pk_flags k)"
  shows "fold (\<lambda>b k. ps2_keyboard_handle_byte k b) (ps2_codes c) k = k \<lparr> pk_buf := kbd_push_char (pk_buf k) (ucast c) \<rparr>"
proof -
  let ?f = "pk_flags k"
  have c0: "c \<noteq> 0" using assms(1) typeable_nonzero by (simp add: list_all_iff)
  have ext: "\<not> extended_code ?f" using assms(2) by (simp add: plain_flags_def)
  show ?thesis
  proof (cases "key_of ps2_ascii_normal c")
    case (Some n)
    note m = key_of_Some [OF Some c0] modifier_zero
    have "main_key n" "ps2_ascii_normal ! unat n = c" using m by blast+
    then show ?thesis using c0
      by (simp add: ps2_codes_def Some ps2_keyboard_handle_byte_def scan_press scan_release ext ascii_plain [OF assms(2)])
  next
    case None
    then have "List.member (take 56 (drop 2 ps2_ascii_shift)) c"
      using typeable_keys assms(1) key_of_None [OF tables_length(1) None] by (auto simp: list_all_iff)
    then obtain n where Some: "key_of ps2_ascii_shift c = Some n"
      using key_of_None [OF tables_length(2)] by (cases "key_of ps2_ascii_shift c") auto
    note m = key_of_Some [OF Some c0] modifier_zero
    have "main_key n" "ps2_ascii_shift ! unat n = c" using m by blast+
    then show ?thesis using c0 ext
      by (simp add: ps2_codes_def None Some ps2_keyboard_handle_byte_def scan_press scan_release
          shift_scans [OF assms(2)] ascii_shifted [OF assms(2)])
  qed
qed



section \<open>The Pause key\<close>

text \<open>The Pause key is not ignored: of the six bytes it sends, only the two prefixes E1 are dropped,
  and the rest reads as Ctrl and Num Lock, so that Num Lock is toggled and its light set.\<close>

theorem ps2_pause_toggles_num_lock:
  assumes "\<not> extended_code (pk_flags k)"
  shows "fold (\<lambda>b k. ps2_keyboard_handle_byte k b) [0xE1, 0x1D, 0x45, 0xE1, 0x9D, 0xC5] k
    = k \<lparr> pk_flags := (pk_flags k) \<lparr> ctrl_pressed := False, num_lock := \<not> num_lock (pk_flags k) \<rparr>,
          pk_leds := pk_leds k @ [ps2_leds (scroll_lock (pk_flags k)) (\<not> num_lock (pk_flags k)) (caps_lock (pk_flags k))] \<rparr>"
  using assms by (simp add: ps2_keyboard_handle_byte_def ps2_scan_def Let_def leds_of_def)

theorem ps2_pause_toggles_num_lock_witness:
  "num_lock (pk_flags (fold (\<lambda>b k. ps2_keyboard_handle_byte k b) [0xE1, 0x1D, 0x45, 0xE1, 0x9D, 0xC5]
     \<lparr> pk_flags = ps2_flags_init, pk_buf = kbd_buf_init, pk_leds = [] \<rparr>)) = False"
  by (subst ps2_pause_toggles_num_lock) (simp_all add: ps2_flags_init_def)

section \<open>USB reports\<close>

text \<open>The keys a report adds to the buffer.\<close>

definition new_keys :: "usb_kbd_report \<Rightarrow> usb_kbd_report \<Rightarrow> u16 list" where
  "new_keys old rep = List.map_filter (hid_key (modifiers rep AND 0x22 \<noteq> 0) (modifiers rep AND 0x11 \<noteq> 0))
     (filter (\<lambda>k. k \<noteq> 0 \<and> k \<notin> set (keycodes old)) (keycodes rep))"

lemma report_contents:
  assumes "kbd_contents b xs"
  shows "kbd_contents (fst (process_kbd_report old rep b)) (take 255 (xs @ new_keys old rep))"
    "snd (process_kbd_report old rep b) = rep" "fst (process_kbd_report rep rep b) = b"
proof -
  let ?s = "modifiers rep AND 0x22 \<noteq> 0" and ?c = "modifiers rep AND 0x11 \<noteq> 0"
  have "fold (kbd_report_step old ?s ?c) ks b = fold (\<lambda>x q. kbd_push_char q x)
      (List.map_filter (hid_key ?s ?c) (filter (\<lambda>k. k \<noteq> 0 \<and> k \<notin> set (keycodes old)) ks)) b" for ks b
    by (induction ks arbitrary: b) (auto simp: kbd_report_step_def map_filter_simps split: option.splits)
  then show "kbd_contents (fst (process_kbd_report old rep b)) (take 255 (xs @ new_keys old rep))"
    using keys.push_all [OF assms] by (simp add: process_kbd_report_def new_keys_def Let_def)
  have "fold (kbd_report_step rep ?s ?c) ks b = b" if "set ks \<subseteq> set (keycodes rep)" for ks b
    using that by (induction ks) (auto simp: kbd_report_step_def)
  then show "fst (process_kbd_report rep rep b) = b" by (simp add: process_kbd_report_def Let_def)
qed (simp add: process_kbd_report_def Let_def)

text \<open>A USB boot report delivers each of its keys that the last report did not have, once, in the
  order of the report and with the modifiers of the report, behind what the buffer holds, as far as its
  255 places reach; a key that stays down is not repeated.\<close>

theorem hid_report_delivers:
  assumes "kbd_contents b xs"
  shows "let (b', last') = process_kbd_report old rep b
    in kbd_contents b' (take 255 (xs @ new_keys old rep)) \<and> last' = rep \<and> fst (process_kbd_report rep rep b') = b'"
  using report_contents(1,2) [OF assms, of old rep] report_contents(3) [OF report_contents(1) [OF assms, of old rep], of rep]
  by (simp add: case_prod_unfold Let_def)

theorem hid_report_delivers_witness:
  "kbd_contents (fst (process_kbd_report \<lparr> modifiers = 0, keycodes = [4, 0, 0, 0, 0, 0] \<rparr>
     \<lparr> modifiers = 2, keycodes = [4, 5, 0x28, 0, 0, 0] \<rparr> kbd_buf_init)) [66, 10]"
proof -
  have "kbd_contents kbd_buf_init []" by (simp add: kbd_contents_def kbd_buf_init_def KBD_BUF_SIZE_def)
  moreover have "hid_key True False 5 = Some 66" "hid_key True False 0x28 = Some 10" by code_simp+
  ultimately show ?thesis
    using hid_report_delivers [of kbd_buf_init "[]" "\<lparr> modifiers = 0, keycodes = [4, 0, 0, 0, 0, 0] \<rparr>"
        "\<lparr> modifiers = 2, keycodes = [4, 5, 0x28, 0, 0, 0] \<rparr>"]
    by (simp add: case_prod_unfold Let_def new_keys_def map_filter_simps)
qed

end
