(* ===== verification/Ps2.thy ===== *)
theory Ps2
  imports Keyboard "HOL-Library.State_Monad"
begin

text \<open>
  The PS/2 controller \<open>src/kernel/ps2.c\<close>, the mouse \<open>src/kernel/ps2_mouse.c\<close> and the parts of
  \<open>src/kernel/ps2_kbd.c\<close> that talk to the controller.

  The controller's two ports are an argument: reading or writing one is a function on the state \<open>'h\<close>
  of the hardware, whatever it answers. Code that talks to the ports is written in the state monad,
  statement by statement. The loops that end only when the hardware has no more bytes are partial
  functions. Messages, the registration of interrupt handlers and the drawing of the pointer are not
  modelled; \<open>cols\<close> and \<open>rows\<close> are the size of the screen.
\<close>

section \<open>State\<close>

record 'h ports =
  p_inb :: "u16 \<Rightarrow> 'h \<Rightarrow> u8 \<times> 'h"
  p_outb :: "u16 \<Rightarrow> u8 \<Rightarrow> 'h \<Rightarrow> 'h"
  p_io_wait :: "'h \<Rightarrow> 'h"

record ps2_mouse =
  mouse_present :: bool
  has_scroll_wheel :: bool
  mouse_packet_size :: u8
  mouse_packet :: "u8 list"
  mouse_cycle :: u8
  mouse_x :: int
  mouse_y :: int
  mouse_z :: int
  mouse_buttons :: u8

definition ps2_mouse_static :: ps2_mouse where
  "ps2_mouse_static = \<lparr> mouse_present = False, has_scroll_wheel = False, mouse_packet_size = 3,
     mouse_packet = [0, 0, 0, 0], mouse_cycle = 0, mouse_x = 40, mouse_y = 12, mouse_z = 0, mouse_buttons = 0 \<rparr>"

record 'h ps2 =
  hw :: 'h
  ps2_present :: bool
  dual_channel :: bool
  kbd_present :: bool
  kbd :: ps2_kbd
  mouse :: ps2_mouse

section \<open>The mouse\<close>

text \<open>The movement of a byte with its sign bit in the first byte of the packet.\<close>

definition mouse_delta :: "bool \<Rightarrow> u8 \<Rightarrow> int" where
  "mouse_delta negative b = (if negative then uint b - 256 else uint b)"

definition clamp_mouse :: "nat \<Rightarrow> nat \<Rightarrow> ps2_mouse \<Rightarrow> ps2_mouse" where
  "clamp_mouse cols rows m =
    (let m = (if mouse_x m < 0 then m \<lparr> mouse_x := 0 \<rparr> else m);
         m = (if mouse_x m \<ge> int cols then m \<lparr> mouse_x := int cols - 1 \<rparr> else m);
         m = (if mouse_y m < 1 then m \<lparr> mouse_y := 1 \<rparr> else m)
     in if mouse_y m \<ge> int rows - 1 then m \<lparr> mouse_y := int rows - 2 \<rparr> else m)"

definition process_mouse_packet :: "nat \<Rightarrow> nat \<Rightarrow> ps2_mouse \<Rightarrow> ps2_mouse" where
  "process_mouse_packet cols rows m =
    (let packet = mouse_packet m; flags = packet ! 0
     in if flags AND 0xC0 \<noteq> 0 then m
        else
          (let dx = mouse_delta (flags AND 0x10 \<noteq> 0) (packet ! 1);
               dy = mouse_delta (flags AND 0x20 \<noteq> 0) (packet ! 2);
               m = m \<lparr> mouse_buttons := flags AND 0x07, mouse_x := mouse_x m + dx, mouse_y := mouse_y m - dy \<rparr>;
               m = clamp_mouse cols rows m
           in if mouse_packet_size m = 4 then m \<lparr> mouse_z := mouse_z m + sint (packet ! 3) \<rparr> else m))"

definition ps2_mouse_handle_byte :: "nat \<Rightarrow> nat \<Rightarrow> u8 \<Rightarrow> ps2_mouse \<Rightarrow> ps2_mouse" where
  "ps2_mouse_handle_byte cols rows data m =
    (let store = (\<lambda>i m. m \<lparr> mouse_packet := (mouse_packet m)[i := data] \<rparr>)
     in if mouse_cycle m = 0 then
          (if data AND 0x08 = 0 then m else (store 0 m) \<lparr> mouse_cycle := 1 \<rparr>)
        else if mouse_cycle m = 1 then (store 1 m) \<lparr> mouse_cycle := 2 \<rparr>
        else if mouse_cycle m = 2 then
          (let m = store 2 m
           in if mouse_packet_size m = 4 then m \<lparr> mouse_cycle := 3 \<rparr>
              else process_mouse_packet cols rows (m \<lparr> mouse_cycle := 0 \<rparr>))
        else if mouse_cycle m = 3 then process_mouse_packet cols rows ((store 3 m) \<lparr> mouse_cycle := 0 \<rparr>)
        else m)"

definition ps2_mouse_get_state :: "ps2_mouse \<Rightarrow> int \<times> int \<times> u8" where
  "ps2_mouse_get_state m = (mouse_x m, mouse_y m, mouse_buttons m)"

section \<open>Ports\<close>

type_synonym ('h, 'a) ps2_io = "('h ps2, 'a) state"

definition inb :: "'h ports \<Rightarrow> u16 \<Rightarrow> ('h, u8) ps2_io" where
  "inb P port = State (\<lambda>s. let (v, h) = p_inb P port (hw s) in (v, s \<lparr> hw := h \<rparr>))"

definition outb :: "'h ports \<Rightarrow> u16 \<Rightarrow> u8 \<Rightarrow> ('h, unit) ps2_io" where
  "outb P port v = State (\<lambda>s. ((), s \<lparr> hw := p_outb P port v (hw s) \<rparr>))"

definition io_wait :: "'h ports \<Rightarrow> ('h, unit) ps2_io" where
  "io_wait P = State (\<lambda>s. ((), s \<lparr> hw := p_io_wait P (hw s) \<rparr>))"

definition modify :: "('s \<Rightarrow> 's) \<Rightarrow> ('s, unit) state" where
  "modify f = State (\<lambda>s. ((), f s))"

definition PS2_DATA_PORT :: u16 where "PS2_DATA_PORT = 0x60"
definition PS2_STATUS_PORT :: u16 where "PS2_STATUS_PORT = 0x64"
definition PS2_COMMAND_PORT :: u16 where "PS2_COMMAND_PORT = 0x64"

text \<open>Both waits: read the status until \<open>ready\<close> holds of it, at most \<open>timeout\<close> times.\<close>

primrec ps2_wait_loop :: "'h ports \<Rightarrow> (u8 \<Rightarrow> bool) \<Rightarrow> nat \<Rightarrow> ('h, bool) ps2_io" where
  "ps2_wait_loop P ready 0 = State_Monad.return False"
| "ps2_wait_loop P ready (Suc timeout) = do {
     status \<leftarrow> inb P PS2_STATUS_PORT;
     if ready status then State_Monad.return True
     else if timeout = 0 then State_Monad.return False
     else do {
       io_wait P;
       ps2_wait_loop P ready timeout
     }
   }"

definition ps2_wait_write :: "'h ports \<Rightarrow> ('h, bool) ps2_io" where
  "ps2_wait_write P = ps2_wait_loop P (\<lambda>status. status AND 2 = 0) 100000"

definition ps2_wait_read :: "'h ports \<Rightarrow> ('h, bool) ps2_io" where
  "ps2_wait_read P = ps2_wait_loop P (\<lambda>status. status AND 1 \<noteq> 0) 100000"

definition ps2_command :: "'h ports \<Rightarrow> u8 \<Rightarrow> ('h, unit) ps2_io" where
  "ps2_command P c = do { _ \<leftarrow> ps2_wait_write P; outb P PS2_COMMAND_PORT c }"

definition ps2_kbd_set_leds :: "'h ports \<Rightarrow> bool \<Rightarrow> bool \<Rightarrow> bool \<Rightarrow> ('h, unit) ps2_io" where
  "ps2_kbd_set_leds P scroll num caps = do {
     _ \<leftarrow> ps2_wait_write P;
     outb P PS2_DATA_PORT 0xED;
     ok \<leftarrow> ps2_wait_read P;
     if ok then do {
       _ \<leftarrow> inb P PS2_DATA_PORT;
       _ \<leftarrow> ps2_wait_write P;
       outb P PS2_DATA_PORT (ps2_leds scroll num caps);
       ok \<leftarrow> ps2_wait_read P;
       if ok then do { _ \<leftarrow> inb P PS2_DATA_PORT; State_Monad.return () } else State_Monad.return ()
     } else State_Monad.return ()
   }"

definition ps2_kbd_init :: "'h ports \<Rightarrow> ('h, unit) ps2_io" where
  "ps2_kbd_init P = do {
     modify (\<lambda>s. s \<lparr> kbd := (kbd s) \<lparr> pk_flags := ps2_flags_init \<rparr> \<rparr>);
     ps2_command P 0xAE;
     _ \<leftarrow> ps2_wait_write P;
     outb P PS2_DATA_PORT 0xF4;
     ok \<leftarrow> ps2_wait_read P;
     (if ok then do { _ \<leftarrow> inb P PS2_DATA_PORT; State_Monad.return () } else State_Monad.return ());
     modify (\<lambda>s. s \<lparr> kbd_present := True \<rparr>)
   }"

definition ps2_mouse_write :: "'h ports \<Rightarrow> u8 \<Rightarrow> ('h, bool) ps2_io" where
  "ps2_mouse_write P val = do {
     ok \<leftarrow> ps2_wait_write P;
     if \<not> ok then State_Monad.return False
     else do {
       outb P PS2_COMMAND_PORT 0xD4;
       ok \<leftarrow> ps2_wait_write P;
       if \<not> ok then State_Monad.return False
       else do { outb P PS2_DATA_PORT val; State_Monad.return True }
     }
   }"

definition ps2_mouse_read :: "'h ports \<Rightarrow> ('h, u8) ps2_io" where
  "ps2_mouse_read P = do {
     ok \<leftarrow> ps2_wait_read P;
     if \<not> ok then State_Monad.return 0 else inb P PS2_DATA_PORT
   }"

text \<open>A byte to the mouse and its acknowledgement, both results ignored.\<close>

definition ps2_mouse_send :: "'h ports \<Rightarrow> u8 \<Rightarrow> ('h, unit) ps2_io" where
  "ps2_mouse_send P val = do { _ \<leftarrow> ps2_mouse_write P val; _ \<leftarrow> ps2_mouse_read P; State_Monad.return () }"

definition ps2_mouse_set_resolution :: "'h ports \<Rightarrow> u8 \<Rightarrow> ('h, unit) ps2_io" where
  "ps2_mouse_set_resolution P r = do { ps2_mouse_send P 0xE8; ps2_mouse_send P r }"

definition ps2_mouse_set_sample_rate :: "'h ports \<Rightarrow> u8 \<Rightarrow> ('h, unit) ps2_io" where
  "ps2_mouse_set_sample_rate P r = do { ps2_mouse_send P 0xF3; ps2_mouse_send P r }"

text \<open>The second half of \<open>ps2_mouse_init\<close>, after the mouse has answered the reset.\<close>

definition ps2_mouse_setup :: "'h ports \<Rightarrow> nat \<Rightarrow> nat \<Rightarrow> ('h, unit) ps2_io" where
  "ps2_mouse_setup P cols rows = do {
     _ \<leftarrow> ps2_mouse_read P;
     _ \<leftarrow> ps2_mouse_read P;
     ps2_mouse_send P 0xF6;
     ps2_mouse_set_sample_rate P 200;
     ps2_mouse_set_sample_rate P 100;
     ps2_mouse_set_sample_rate P 80;
     ps2_mouse_send P 0xF2;
     mouse_id \<leftarrow> ps2_mouse_read P;
     modify (\<lambda>s. s \<lparr> mouse := (mouse s) \<lparr> has_scroll_wheel := (mouse_id = 3 \<or> mouse_id = 4),
       mouse_packet_size := (if mouse_id = 3 \<or> mouse_id = 4 then 4 else 3) \<rparr> \<rparr>);
     ps2_mouse_set_sample_rate P 100;
     ps2_mouse_set_resolution P 3;
     ps2_mouse_send P 0xF4;
     modify (\<lambda>s. s \<lparr> mouse := (mouse s) \<lparr> mouse_x := int (cols div 2), mouse_y := int (rows div 2),
       mouse_buttons := 0, mouse_present := True \<rparr> \<rparr>)
   }"

definition ps2_mouse_init :: "'h ports \<Rightarrow> nat \<Rightarrow> nat \<Rightarrow> ('h, unit) ps2_io" where
  "ps2_mouse_init P cols rows = do {
     modify (\<lambda>s. s \<lparr> mouse := (mouse s) \<lparr> mouse_present := False, has_scroll_wheel := False,
       mouse_packet_size := 3, mouse_cycle := 0 \<rparr> \<rparr>);
     ps2_command P 0xA8;
     ok \<leftarrow> ps2_mouse_write P 0xFF;
     if \<not> ok then State_Monad.return ()
     else do {
       ack \<leftarrow> ps2_mouse_read P;
       if ack \<noteq> 0xFA then State_Monad.return () else ps2_mouse_setup P cols rows
     }
   }"

section \<open>The controller\<close>

text \<open>Reading the answer to a self-test, which is only reported.\<close>

definition ps2_test :: "'h ports \<Rightarrow> u8 \<Rightarrow> ('h, unit) ps2_io" where
  "ps2_test P c = do {
     ps2_command P c;
     ok \<leftarrow> ps2_wait_read P;
     if ok then do { _ \<leftarrow> inb P PS2_DATA_PORT; State_Monad.return () } else State_Monad.return ()
   }"

text \<open>Before the output buffer is flushed: \<open>False\<close> when there is no controller.\<close>

definition ps2_init_probe :: "'h ports \<Rightarrow> ('h, bool) ps2_io" where
  "ps2_init_probe P = do {
     modify (\<lambda>s. s \<lparr> ps2_present := False, dual_channel := False \<rparr>);
     status \<leftarrow> inb P PS2_STATUS_PORT;
     if status = 0xFF then State_Monad.return False
     else do { ps2_command P 0xAD; ps2_command P 0xA7; State_Monad.return True }
   }"

definition ps2_config :: "bool \<Rightarrow> u8 \<Rightarrow> u8" where
  "ps2_config dual config =
    (let config = config OR 0x01; config = config AND NOT 0x10; config = config OR 0x40
     in if dual then (config OR 0x02) AND NOT 0x20 else config)"

definition ps2_init_setup :: "'h ports \<Rightarrow> nat \<Rightarrow> nat \<Rightarrow> ('h, unit) ps2_io" where
  "ps2_init_setup P cols rows = do {
     ps2_command P 0x20;
     ok \<leftarrow> ps2_wait_read P;
     if \<not> ok then State_Monad.return ()
     else do {
       config \<leftarrow> inb P PS2_DATA_PORT;
       ps2_command P 0xA8;
       ps2_command P 0x20;
       ok \<leftarrow> ps2_wait_read P;
       (if ok then do {
         cfg2 \<leftarrow> inb P PS2_DATA_PORT;
         modify (\<lambda>s. if cfg2 AND 0x20 = 0 then s \<lparr> dual_channel := True \<rparr> else s)
       } else State_Monad.return ());
       ps2_command P 0xA7;
       ps2_test P 0xAA;
       ps2_test P 0xAB;
       s \<leftarrow> State_Monad.get;
       (if dual_channel s then ps2_test P 0xA9 else State_Monad.return ());
       ps2_command P 0x60;
       _ \<leftarrow> ps2_wait_write P;
       outb P PS2_DATA_PORT (ps2_config (dual_channel s) config);
       modify (\<lambda>s. s \<lparr> ps2_present := True \<rparr>);
       ps2_kbd_init P;
       if dual_channel s then ps2_mouse_init P cols rows else State_Monad.return ()
     }
   }"

text \<open>The loop that throws away what the controller still holds.\<close>

partial_function (option) ps2_flush :: "'h ports \<Rightarrow> 'h \<Rightarrow> 'h option" where
  "ps2_flush P h =
    (let (status, h1) = p_inb P PS2_STATUS_PORT h
     in if status AND 1 = 0 then Some h1
        else ps2_flush P (p_io_wait P (snd (p_inb P PS2_DATA_PORT h1))))"

definition ps2_init :: "'h ports \<Rightarrow> nat \<Rightarrow> nat \<Rightarrow> 'h ps2 \<Rightarrow> 'h ps2 option" where
  "ps2_init P cols rows s =
    (let (found, s1) = run_state (ps2_init_probe P) s
     in if \<not> found then Some s1
        else (case ps2_flush P (hw s1) of
                None \<Rightarrow> None
              | Some h \<Rightarrow> Some (snd (run_state (ps2_init_setup P cols rows) (s1 \<lparr> hw := h \<rparr>)))))"

text \<open>A byte goes to the mouse or the keyboard by a bit of the status. The two interrupt handlers and
  \<open>ps2_poll\<close> share the loop. A lock key talks to the keyboard at once, to set its lights.\<close>

definition ps2_dispatch :: "'h ports \<Rightarrow> nat \<Rightarrow> nat \<Rightarrow> bool \<Rightarrow> u8 \<Rightarrow> 'h ps2 \<Rightarrow> 'h ps2" where
  "ps2_dispatch P cols rows from_mouse data s =
    (if from_mouse then s \<lparr> mouse := ps2_mouse_handle_byte cols rows data (mouse s) \<rparr>
     else
       (let (f, out) = ps2_scan (pk_flags (kbd s)) data; s1 = s \<lparr> kbd := ps2_keyboard_handle_byte (kbd s) data \<rparr>
        in case out of
             Leds l \<Rightarrow> snd (run_state (ps2_kbd_set_leds P (scroll_lock f) (num_lock f) (caps_lock f)) s1)
           | _ \<Rightarrow> s1))"

partial_function (option) ps2_drain :: "'h ports \<Rightarrow> nat \<Rightarrow> nat \<Rightarrow> 'h ps2 \<Rightarrow> 'h ps2 option" where
  "ps2_drain P cols rows s =
    (let (status, h1) = p_inb P PS2_STATUS_PORT (hw s)
     in if status AND 1 = 0 then Some (s \<lparr> hw := h1 \<rparr>)
        else (let (data, h2) = p_inb P PS2_DATA_PORT h1
              in ps2_drain P cols rows (ps2_dispatch P cols rows (status AND 0x20 \<noteq> 0) data (s \<lparr> hw := h2 \<rparr>))))"

definition ps2_keyboard_irq_handler :: "'h ports \<Rightarrow> nat \<Rightarrow> nat \<Rightarrow> 'h ps2 \<Rightarrow> 'h ps2 option" where
  "ps2_keyboard_irq_handler P cols rows s = ps2_drain P cols rows s"

definition ps2_mouse_irq_handler :: "'h ports \<Rightarrow> nat \<Rightarrow> nat \<Rightarrow> 'h ps2 \<Rightarrow> 'h ps2 option" where
  "ps2_mouse_irq_handler P cols rows s = ps2_drain P cols rows s"

definition ps2_poll :: "'h ports \<Rightarrow> nat \<Rightarrow> nat \<Rightarrow> 'h ps2 \<Rightarrow> 'h ps2 option" where
  "ps2_poll P cols rows s = (if \<not> ps2_present s then Some s else ps2_drain P cols rows s)"

end
