(* ===== verification/Ps2_Props.thy ===== *)
theory Ps2_Props
  imports Ps2
begin

text \<open>
  The pointer never leaves the screen, whatever bytes arrive and whatever the mouse answers when it is
  set up; and a poll of a controller that holds bytes handles all of them in order and ends.
\<close>

section \<open>The pointer\<close>

definition mouse_ok :: "nat \<Rightarrow> nat \<Rightarrow> ps2_mouse \<Rightarrow> bool" where
  "mouse_ok cols rows m \<longleftrightarrow> length (mouse_packet m) = 4
     \<and> mouse_packet_size m = (if has_scroll_wheel m then 4 else 3)
     \<and> unat (mouse_cycle m) < unat (mouse_packet_size m)
     \<and> 0 \<le> mouse_x m \<and> mouse_x m < int cols \<and> 1 \<le> mouse_y m \<and> mouse_y m \<le> int rows - 2"

lemma clamp_on_screen:
  assumes "1 \<le> cols" "3 \<le> rows"
  shows "0 \<le> mouse_x (clamp_mouse cols rows m)" "mouse_x (clamp_mouse cols rows m) < int cols"
    "1 \<le> mouse_y (clamp_mouse cols rows m)" "mouse_y (clamp_mouse cols rows m) \<le> int rows - 2"
  using assms by (auto simp: clamp_mouse_def Let_def)

lemma clamp_frame [simp]:
  "mouse_packet (clamp_mouse cols rows m) = mouse_packet m" "mouse_packet_size (clamp_mouse cols rows m) = mouse_packet_size m"
  "has_scroll_wheel (clamp_mouse cols rows m) = has_scroll_wheel m" "mouse_cycle (clamp_mouse cols rows m) = mouse_cycle m"
  by (simp_all add: clamp_mouse_def Let_def)

lemma packet_keeps_ok:
  assumes "mouse_ok cols rows m" "1 \<le> cols" "3 \<le> rows"
  shows "mouse_ok cols rows (process_mouse_packet cols rows m)"
  using assms clamp_on_screen [OF assms(2,3)] by (auto simp: process_mouse_packet_def mouse_ok_def Let_def)

lemma byte_keeps_ok:
  assumes "mouse_ok cols rows m" "1 \<le> cols" "3 \<le> rows"
  shows "mouse_ok cols rows (ps2_mouse_handle_byte cols rows data m)"
proof -
  have "mouse_ok cols rows (m \<lparr> mouse_packet := (mouse_packet m)[i := data], mouse_cycle := 0 \<rparr>)" for i
    using assms(1) by (auto simp: mouse_ok_def)
  note p = packet_keeps_ok [OF this assms(2,3)]
  show ?thesis using assms(1) p [of 2] p [of 3]
    by (auto simp: ps2_mouse_handle_byte_def Let_def mouse_ok_def)
qed

text \<open>Talking to the ports leaves the mouse's state alone.\<close>

definition keeps_mouse :: "('h, 'a) ps2_io \<Rightarrow> bool" where
  "keeps_mouse m \<longleftrightarrow> state_io_rel (\<lambda>s s'. mouse s' = mouse s) m"

lemma keeps_mouse_prim:
  "keeps_mouse (inb P port)" "keeps_mouse (outb P port v)" "keeps_mouse (io_wait P)" "keeps_mouse (State_Monad.return x)"
  by (auto simp: keeps_mouse_def state_io_rel_def inb_def outb_def io_wait_def case_prod_unfold Let_def)

lemma keeps_mouse_bind: "keeps_mouse m \<Longrightarrow> (\<And>x. keeps_mouse (f x)) \<Longrightarrow> keeps_mouse (m \<bind> f)"
  by (auto simp: keeps_mouse_def state_io_rel_def case_prod_unfold)

lemma keeps_mouse_wait: "keeps_mouse (ps2_wait_loop P ready n)"
  by (induction n) (auto intro!: keeps_mouse_prim keeps_mouse_bind)

lemmas keeps_mouse_rules = keeps_mouse_prim keeps_mouse_bind keeps_mouse_wait

lemma keeps_mouse_ops:
  "keeps_mouse (ps2_command P c)" "keeps_mouse (ps2_mouse_write P v)" "keeps_mouse (ps2_mouse_read P)"
  "keeps_mouse (ps2_mouse_send P v)" "keeps_mouse (ps2_mouse_set_resolution P r)" "keeps_mouse (ps2_mouse_set_sample_rate P r)"
  unfolding ps2_command_def ps2_mouse_write_def ps2_mouse_read_def ps2_mouse_send_def ps2_mouse_set_resolution_def
    ps2_mouse_set_sample_rate_def ps2_wait_write_def ps2_wait_read_def
  by (auto intro!: keeps_mouse_rules)

lemma keeps_mouseD: "keeps_mouse m \<Longrightarrow> mouse (snd (run_state m s)) = mouse s"
  by (simp add: keeps_mouse_def state_io_rel_def)

lemma run_modify [simp]: "run_state (modify f) s = ((), f s)"
  by (simp add: modify_def)

lemma setup_mouse:
  assumes "1 \<le> cols" "3 \<le> rows" "mouse_ok cols rows (mouse s)" "mouse_cycle (mouse s) = 0"
  shows "mouse_ok cols rows (mouse (snd (run_state (ps2_mouse_setup P cols rows) s)))"
  using assms unfolding ps2_mouse_setup_def
  by (simp add: case_prod_unfold keeps_mouseD keeps_mouse_ops) (auto simp: mouse_ok_def)

text \<open>C33. The pointer stays on the screen, between the header and the footer row, and the packet
  decoder stays in step with the kind of mouse: for every byte that arrives, and for every answer of
  the hardware while the mouse is set up, whether this succeeds or stops half way.\<close>

theorem ps2_mouse_invariant:
  assumes "mouse_ok cols rows (mouse s)" "1 \<le> cols" "3 \<le> rows"
  shows "mouse_ok cols rows (ps2_mouse_handle_byte cols rows data (mouse s))
    \<and> mouse_ok cols rows (mouse (snd (run_state (ps2_mouse_init P cols rows) s)))"
proof
  show "mouse_ok cols rows (ps2_mouse_handle_byte cols rows data (mouse s))"
    using assms by (rule byte_keeps_ok)
  define reset where "reset = (\<lambda>m :: ps2_mouse. m \<lparr> mouse_present := False, has_scroll_wheel := False,
       mouse_packet_size := 3, mouse_cycle := 0 \<rparr>)"
  have r: "mouse_ok cols rows (reset (mouse s))" "mouse_cycle (reset (mouse s)) = 0"
    using assms(1) by (simp_all add: mouse_ok_def reset_def)
  show "mouse_ok cols rows (mouse (snd (run_state (ps2_mouse_init P cols rows) s)))"
    using r unfolding ps2_mouse_init_def reset_def
    by (simp add: case_prod_unfold keeps_mouseD keeps_mouse_ops setup_mouse [OF assms(2,3)])
qed

text \<open>A port that always reads 0xFA.\<close>

definition const_ports :: "unit ports" where
  "const_ports = \<lparr> p_inb = (\<lambda>port h. (0xFA, h)), p_outb = (\<lambda>port v h. h), p_io_wait = (\<lambda>h. h) \<rparr>"

definition demo_ps2 :: "'h \<Rightarrow> 'h ps2" where
  "demo_ps2 h = \<lparr> hw = h, ps2_present = True, dual_channel = True, kbd_present = True,
     kbd = \<lparr> pk_flags = ps2_flags_init, pk_buf = kbd_buf_init, pk_leds = [] \<rparr>, mouse = ps2_mouse_static \<rparr>"

theorem ps2_mouse_invariant_witness:
  "mouse_ok 80 25 (mouse (snd (run_state (ps2_mouse_init const_ports 80 25) (demo_ps2 ()))))"
proof -
  have "mouse_ok 80 25 (mouse (demo_ps2 ()))" by (simp add: demo_ps2_def mouse_ok_def ps2_mouse_static_def)
  then show ?thesis using ps2_mouse_invariant [of 80 25 "demo_ps2 ()" 0 const_ports] by simp
qed

section \<open>Polling\<close>

text \<open>The controller holds the bytes \<open>pend h\<close>, each from the mouse or the keyboard: the status says
  whether there is one and whose it is, and reading the data takes it away.\<close>

definition ps2_queue :: "'h ports \<Rightarrow> ('h \<Rightarrow> (bool \<times> u8) list) \<Rightarrow> bool" where
  "ps2_queue P pend \<longleftrightarrow> (\<forall>h.
     let (status, h1) = p_inb P PS2_STATUS_PORT h; (data, h2) = p_inb P PS2_DATA_PORT h1
     in case pend h of
          [] \<Rightarrow> status AND 1 = 0 \<and> pend h1 = []
        | (m, d) # rest \<Rightarrow> status AND 1 \<noteq> 0 \<and> (status AND 0x20 \<noteq> 0 \<longleftrightarrow> m) \<and> data = d \<and> pend h2 = rest)"

definition lock_key :: "u8 \<Rightarrow> bool" where
  "lock_key b \<longleftrightarrow> b \<in> {0x3A, 0x45, 0x46}"

lemma low_bits: "b AND 0x80 = 0 \<Longrightarrow> b AND 0x7F = (b :: u8)"
proof -
  assume z: "b AND 0x80 = 0"
  have "(0x80 OR 0x7F :: u8) = -1" by simp
  then have "b = b AND (0x80 OR 0x7F)" by (simp only: and.right_neutral)
  also have "\<dots> = (b AND 0x80) OR (b AND 0x7F)" by (rule bit.conj_disj_distrib)
  finally show ?thesis using z by simp
qed

lemma key_no_leds: "extended_key k \<noteq> Leds l" "keypad_key num k \<noteq> Some (Leds l)" "ascii_key f k \<noteq> Leds l"
  by (simp_all add: extended_key_def keypad_key_def ascii_key_def Let_def)

lemma no_leds:
  assumes "\<not> lock_key b"
  shows "snd (ps2_scan f b) \<noteq> Leds l"
proof -
  have "b AND 0x7F \<noteq> 0x3A \<and> b AND 0x7F \<noteq> 0x45 \<and> b AND 0x7F \<noteq> 0x46" if "b AND 0x80 = 0"
    using assms low_bits [OF that] by (simp add: lock_key_def)
  then show ?thesis using key_no_leds(1,3) key_no_leds(2) [of "num_lock f" "b AND 0x7F" l]
    by (auto simp add: ps2_scan_def Let_def split: option.split)
qed

lemma dispatch_keyboard:
  assumes "\<not> lock_key d"
  shows "ps2_dispatch P cols rows False d s = s \<lparr> kbd := ps2_keyboard_handle_byte (kbd s) d \<rparr>"
  using no_leds [OF assms, of "pk_flags (kbd s)"]
  by (auto simp: ps2_dispatch_def case_prod_unfold Let_def split: ps2_out.splits)

lemma ps2_queueD:
  assumes "ps2_queue P pend"
  obtains status h1 data h2 where "p_inb P PS2_STATUS_PORT h = (status, h1)" "p_inb P PS2_DATA_PORT h1 = (data, h2)"
    "case pend h of [] \<Rightarrow> status AND 1 = 0 \<and> pend h1 = []
     | (m, d) # rest \<Rightarrow> status AND 1 \<noteq> 0 \<and> (status AND 0x20 \<noteq> 0 \<longleftrightarrow> m) \<and> data = d \<and> pend h2 = rest"
proof -
  obtain status h1 where 1: "p_inb P PS2_STATUS_PORT h = (status, h1)" by fastforce
  obtain data h2 where 2: "p_inb P PS2_DATA_PORT h1 = (data, h2)" by fastforce
  show ?thesis using assms 1 2 by (intro that [of status h1 data h2]) (auto simp: ps2_queue_def dest!: spec [of _ h])
qed

lemma drain_queue:
  assumes "ps2_queue P pend" "\<forall>(m, d) \<in> set (pend (hw s)). m \<or> \<not> lock_key d"
  shows "\<exists>s'. ps2_drain P cols rows s = Some s' \<and> pend (hw s') = []
    \<and> kbd s' = fold (\<lambda>b k. ps2_keyboard_handle_byte k b) (map snd (filter (\<lambda>x. \<not> fst x) (pend (hw s)))) (kbd s)
    \<and> mouse s' = fold (ps2_mouse_handle_byte cols rows) (map snd (filter fst (pend (hw s)))) (mouse s)"
  using assms(2)
proof (induction "pend (hw s)" arbitrary: s)
  case Nil
  obtain status h1 where h: "p_inb P PS2_STATUS_PORT (hw s) = (status, h1)" "status AND 1 = 0 \<and> pend h1 = []"
    using Nil(1) [symmetric] by (auto intro: ps2_queueD [OF assms(1), of "hw s"])
  then show ?case using Nil(1) by (subst ps2_drain.simps) (simp flip: Nil(1))
next
  case (Cons x rest)
  obtain m d where x: "x = (m, d)" by fastforce
  obtain status h1 data h2 where h: "p_inb P PS2_STATUS_PORT (hw s) = (status, h1)" "p_inb P PS2_DATA_PORT h1 = (data, h2)"
    "status AND 1 \<noteq> 0 \<and> (status AND 0x20 \<noteq> 0 \<longleftrightarrow> m) \<and> data = d \<and> pend h2 = rest"
    using ps2_queueD [OF assms(1), of "hw s"] Cons(2) [symmetric] by (auto simp: x)
  let ?s = "ps2_dispatch P cols rows m d (s \<lparr> hw := h2 \<rparr>)"
  have lk: "m \<or> \<not> lock_key d" using Cons.prems Cons(2) [symmetric] by (simp add: x)
  then have s: "hw ?s = h2" "kbd ?s = (if m then kbd s else ps2_keyboard_handle_byte (kbd s) d)"
    "mouse ?s = (if m then ps2_mouse_handle_byte cols rows d (mouse s) else mouse s)"
    by (cases m; simp add: dispatch_keyboard; simp add: ps2_dispatch_def)+
  have "ps2_drain P cols rows s = ps2_drain P cols rows ?s"
    using h by (subst ps2_drain.simps) simp
  moreover have "\<forall>(m, d) \<in> set (pend (hw ?s)). m \<or> \<not> lock_key d"
    using Cons.prems Cons(2) [symmetric] s(1) h(3) by auto
  ultimately show ?case
    using Cons(1) [of ?s] s h(3) Cons(2) [symmetric] x by auto
qed

text \<open>C11. Polling ends: on a controller that holds any number of bytes, none of them a lock key, the
  loop takes them all, hands the keyboard's bytes in order to the scan-code decoder and the mouse's
  bytes in order to the packet decoder, and returns with nothing left to read.\<close>

theorem ps2_poll_drains:
  assumes "ps2_queue P pend" "ps2_present s" "\<forall>(m, d) \<in> set (pend (hw s)). m \<or> \<not> lock_key d"
  shows "\<exists>s'. ps2_poll P cols rows s = Some s' \<and> pend (hw s') = []
    \<and> kbd s' = fold (\<lambda>b k. ps2_keyboard_handle_byte k b) (map snd (filter (\<lambda>x. \<not> fst x) (pend (hw s)))) (kbd s)
    \<and> mouse s' = fold (ps2_mouse_handle_byte cols rows) (map snd (filter fst (pend (hw s)))) (mouse s)"
  using drain_queue [OF assms(1,3)] assms(2) by (simp add: ps2_poll_def)

definition queue_ports :: "(bool \<times> u8) list ports" where
  "queue_ports = \<lparr> p_inb = (\<lambda>port h. if port = PS2_STATUS_PORT
       then (case h of [] \<Rightarrow> 0 | (m, d) # r \<Rightarrow> if m then 0x21 else 1, h)
       else (case h of [] \<Rightarrow> (0, []) | (m, d) # r \<Rightarrow> (d, r))),
     p_outb = (\<lambda>port v h. h), p_io_wait = (\<lambda>h. h) \<rparr>"

theorem ps2_poll_drains_witness:
  "\<exists>s'. ps2_poll queue_ports 80 25 (demo_ps2 [(False, 0x1E), (True, 0x08), (False, 0x9E)]) = Some s'
     \<and> hw s' = [] \<and> mouse_cycle (mouse s') = 1"
proof -
  have q: "ps2_queue queue_ports (\<lambda>h. h)"
    by (auto simp: ps2_queue_def queue_ports_def PS2_STATUS_PORT_def PS2_DATA_PORT_def split: list.split)
  show ?thesis
    using ps2_poll_drains [OF q, of "demo_ps2 [(False, 0x1E), (True, 0x08), (False, 0x9E)]" 80 25]
    by (auto simp: demo_ps2_def lock_key_def ps2_mouse_handle_byte_def ps2_mouse_static_def)
qed

end
