(* ===== verification/Xhci.thy ===== *)
theory Xhci
  imports Keyboard
begin

text \<open>
  The rings of the USB host controller, \<open>src/usb/xhci.c\<close>: transfer request blocks, the producer's side
  of the command and transfer rings with their link block, and the consumer's side of the event ring.

  A ring's memory is the list of its blocks. Registers are written only; the writes are kept in order in
  \<open>mmio_log\<close>. The array \<open>slots[..].ep_rings[..]\<close> is a function of slot and endpoint. Memory for a new
  ring comes from the heap; its address is an argument \<open>km\<close>. The mutex around the operations is not
  modelled: every operation is one step of the task that holds it.
\<close>

section \<open>Transfer request blocks\<close>

record xhci_trb =
  parameter_lo :: u32
  parameter_hi :: u32
  status :: u32
  control :: u32

definition zero_trb :: xhci_trb where
  "zero_trb = \<lparr> parameter_lo = 0, parameter_hi = 0, status = 0, control = 0 \<rparr>"

definition TRB_CYCLE :: u32 where "TRB_CYCLE = 1"
definition TRB_TC :: u32 where "TRB_TC = 2"
definition TRB_ISP :: u32 where "TRB_ISP = 4"
definition TRB_IOC :: u32 where "TRB_IOC = 0x20"
definition TRB_IDT :: u32 where "TRB_IDT = 0x40"
definition TRB_BSR :: u32 where "TRB_BSR = 0x200"
definition TRB_SIA :: u32 where "TRB_SIA = 0x80000000"
definition TRB_TRT_NONE :: u32 where "TRB_TRT_NONE = 0"
definition TRB_TRT_OUT :: u32 where "TRB_TRT_OUT = 0x20000"
definition TRB_TRT_IN :: u32 where "TRB_TRT_IN = 0x30000"
definition TRB_DIR_IN :: u32 where "TRB_DIR_IN = 0x10000"
definition TRB_DIR_OUT :: u32 where "TRB_DIR_OUT = 0"

definition TRB_TYPE_NORMAL :: u32 where "TRB_TYPE_NORMAL = 1"
definition TRB_TYPE_SETUP_STAGE :: u32 where "TRB_TYPE_SETUP_STAGE = 2"
definition TRB_TYPE_DATA_STAGE :: u32 where "TRB_TYPE_DATA_STAGE = 3"
definition TRB_TYPE_STATUS_STAGE :: u32 where "TRB_TYPE_STATUS_STAGE = 4"
definition TRB_TYPE_ISOCH :: u32 where "TRB_TYPE_ISOCH = 5"
definition TRB_TYPE_LINK :: u32 where "TRB_TYPE_LINK = 6"
definition TRB_TYPE_TRANSFER_EVENT :: u32 where "TRB_TYPE_TRANSFER_EVENT = 32"
definition TRB_TYPE_CMD_COMPLETION_EVENT :: u32 where "TRB_TYPE_CMD_COMPLETION_EVENT = 33"
definition TRB_TYPE_PORT_STATUS_CHANGE :: u32 where "TRB_TYPE_PORT_STATUS_CHANGE = 34"

definition TRB_SET_TYPE :: "u32 \<Rightarrow> u32" where
  "TRB_SET_TYPE t = push_bit 10 (t AND 0x3F)"

definition TRB_GET_TYPE :: "u32 \<Rightarrow> u32" where
  "TRB_GET_TYPE c = drop_bit 10 c AND 0x3F"

definition TRB_SLOT_ID :: "u8 \<Rightarrow> u32" where
  "TRB_SLOT_ID s = push_bit 24 (ucast s)"

definition TRB_GET_SLOT_ID :: "u32 \<Rightarrow> u8" where
  "TRB_GET_SLOT_ID c = ucast (drop_bit 24 c AND 0xFF)"

definition TRB_GET_EP_ID :: "u32 \<Rightarrow> u8" where
  "TRB_GET_EP_ID c = ucast (drop_bit 16 c AND 0x1F)"

definition TRB_GET_COMP_CODE :: "u32 \<Rightarrow> u8" where
  "TRB_GET_COMP_CODE s = ucast (drop_bit 24 s AND 0xFF)"

definition TRB_GET_REMAINDER :: "u32 \<Rightarrow> u32" where
  "TRB_GET_REMAINDER s = s AND 0xFFFFFF"

section \<open>Rings\<close>

record xhci_ring =
  trbs :: "xhci_trb list"
  phys_addr :: u32
  ring_size :: nat
  enqueue_idx :: nat
  dequeue_idx :: nat
  cycle :: bool

definition XHCI_RING_SIZE :: nat where "XHCI_RING_SIZE = 4096"
definition XHCI_MAX_SLOTS :: u8 where "XHCI_MAX_SLOTS = 32"

definition ring_init :: "u32 \<Rightarrow> xhci_ring \<Rightarrow> nat \<Rightarrow> xhci_ring" where
  "ring_init km r sz = r \<lparr> ring_size := sz, enqueue_idx := 0, dequeue_idx := 0, cycle := True,
     phys_addr := (if phys_addr r = 0 then km else phys_addr r), trbs := replicate sz zero_trb \<rparr>"

definition link_control :: "bool \<Rightarrow> u32" where
  "link_control c = TRB_SET_TYPE TRB_TYPE_LINK OR TRB_TC OR (if c then TRB_CYCLE else 0)"

definition ring_setup_link_trb :: "xhci_ring \<Rightarrow> xhci_ring" where
  "ring_setup_link_trb r = r \<lparr> trbs := (trbs r)[ring_size r - 1 :=
     \<lparr> parameter_lo = phys_addr r, parameter_hi = 0, status = 0, control = link_control (cycle r) \<rparr>] \<rparr>"

text \<open>Going over the end: the link block gets the cycle of the lap that ends. The command ring leaves the
  rest of the link block alone, the transfer rings write its address again.\<close>

definition ring_wrap :: "xhci_ring \<Rightarrow> xhci_ring" where
  "ring_wrap r =
    (if enqueue_idx r \<ge> ring_size r - 1
     then r \<lparr> trbs := (trbs r)[ring_size r - 1 := (trbs r ! (ring_size r - 1))
                 \<lparr> parameter_lo := phys_addr r, parameter_hi := 0, control := link_control (cycle r) \<rparr>],
            enqueue_idx := 0, cycle := \<not> cycle r \<rparr>
     else r)"

definition cmd_ring_wrap :: "xhci_ring \<Rightarrow> xhci_ring" where
  "cmd_ring_wrap r =
    (if enqueue_idx r \<ge> ring_size r - 1
     then r \<lparr> trbs := (trbs r)[ring_size r - 1 := (trbs r ! (ring_size r - 1)) \<lparr> control := link_control (cycle r) \<rparr>],
            enqueue_idx := 0, cycle := \<not> cycle r \<rparr>
     else r)"

definition xhci_ring_enqueue_trb :: "xhci_ring \<Rightarrow> xhci_trb \<Rightarrow> xhci_ring" where
  "xhci_ring_enqueue_trb r trb =
    (let r = ring_wrap r;
         trb = trb \<lparr> control := control trb AND NOT TRB_CYCLE \<rparr>;
         trb = (if cycle r then trb \<lparr> control := control trb OR TRB_CYCLE \<rparr> else trb)
     in r \<lparr> trbs := (trbs r)[enqueue_idx r := trb], enqueue_idx := enqueue_idx r + 1 \<rparr>)"

text \<open>The first half of \<open>xhci_submit_cmd\<close>: the command goes into the ring; its address is the answer.\<close>

definition cmd_enqueue :: "xhci_ring \<Rightarrow> xhci_trb \<Rightarrow> xhci_ring \<times> u32" where
  "cmd_enqueue r cmd =
    (let r = cmd_ring_wrap r; idx = enqueue_idx r;
         cmd = cmd \<lparr> control := control cmd OR (if cycle r then TRB_CYCLE else 0) \<rparr>
     in (r \<lparr> trbs := (trbs r)[idx := cmd], enqueue_idx := idx + 1 \<rparr>, phys_addr r + of_nat (idx * 16)))"

section \<open>The controller\<close>

datatype mmio_write = Write32 u32 u32 | Write64 u32 u32 u32

record xhci_controller =
  rt_base :: u32
  db_base :: u32
  cmd_ring :: xhci_ring
  evt_ring :: xhci_ring
  evt_cycle :: bool
  ep_rings :: "u8 \<Rightarrow> u8 \<Rightarrow> xhci_ring"
  mmio_log :: "mmio_write list"

definition mmio :: "mmio_write \<Rightarrow> xhci_controller \<Rightarrow> xhci_controller" where
  "mmio w ctrl = ctrl \<lparr> mmio_log := mmio_log ctrl @ [w] \<rparr>"

definition upd_ep_ring :: "u8 \<Rightarrow> u8 \<Rightarrow> (xhci_ring \<Rightarrow> xhci_ring) \<Rightarrow> xhci_controller \<Rightarrow> xhci_controller" where
  "upd_ep_ring slot_id ep_dci f ctrl = ctrl \<lparr> ep_rings := (ep_rings ctrl)(slot_id :=
     (ep_rings ctrl slot_id)(ep_dci := f (ep_rings ctrl slot_id ep_dci))) \<rparr>"

definition xhci_ring_doorbell :: "u8 \<Rightarrow> u8 \<Rightarrow> xhci_controller \<Rightarrow> xhci_controller" where
  "xhci_ring_doorbell slot_id target ctrl = mmio (Write32 (db_base ctrl + ucast slot_id * 4) (ucast target)) ctrl"

definition XHCI_INTR_ERDP :: u32 where "XHCI_INTR_ERDP = 0x18"
definition XHCI_ERDP_EHB :: u32 where "XHCI_ERDP_EHB = 8"

text \<open>The next event, if the cycle bit says that there is one.\<close>

definition xhci_poll_event :: "xhci_controller \<Rightarrow> xhci_controller \<times> xhci_trb option" where
  "xhci_poll_event ctrl =
    (let r = evt_ring ctrl; trb = trbs r ! dequeue_idx r
     in if (control trb AND TRB_CYCLE \<noteq> 0) \<noteq> evt_cycle ctrl then (ctrl, None)
        else
          (let wrap = (dequeue_idx r + 1 \<ge> ring_size r);
               i = (if wrap then 0 else dequeue_idx r + 1);
               ctrl = ctrl \<lparr> evt_ring := r \<lparr> dequeue_idx := i \<rparr>, evt_cycle := (if wrap then \<not> evt_cycle ctrl else evt_cycle ctrl) \<rparr>;
               erdp = phys_addr r + of_nat (i * 16)
           in (mmio (Write64 (rt_base ctrl + 0x20 + XHCI_INTR_ERDP) (erdp OR XHCI_ERDP_EHB) 0) ctrl, Some trb)))"

definition xhci_init_ep_ring :: "u32 \<Rightarrow> u8 \<Rightarrow> u8 \<Rightarrow> xhci_controller \<Rightarrow> xhci_controller" where
  "xhci_init_ep_ring km slot_id ep_dci ctrl =
    upd_ep_ring slot_id ep_dci (\<lambda>r. ring_setup_link_trb (ring_init km r XHCI_RING_SIZE)) ctrl"

definition normal_trb :: "u32 \<Rightarrow> u32 \<Rightarrow> bool \<Rightarrow> xhci_trb" where
  "normal_trb addr len dir_in = \<lparr> parameter_lo = addr, parameter_hi = 0, status = len,
     control = TRB_SET_TYPE TRB_TYPE_NORMAL OR TRB_IOC OR (if dir_in then TRB_ISP else 0) \<rparr>"

definition xhci_submit_async_trb :: "u8 \<Rightarrow> u8 \<Rightarrow> u32 \<Rightarrow> u32 \<Rightarrow> bool \<Rightarrow> xhci_controller \<Rightarrow> xhci_controller" where
  "xhci_submit_async_trb slot_id ep_dci addr len dir_in ctrl =
    upd_ep_ring slot_id ep_dci (\<lambda>r. xhci_ring_enqueue_trb r (normal_trb addr len dir_in)) ctrl"

definition isoch_trb :: "u32 \<Rightarrow> u32 \<Rightarrow> u32 \<Rightarrow> bool \<Rightarrow> bool \<Rightarrow> xhci_trb" where
  "isoch_trb addr len frame_id sia ioc = \<lparr> parameter_lo = addr, parameter_hi = 0, status = len,
     control = TRB_SET_TYPE TRB_TYPE_ISOCH OR (if sia then TRB_SIA else push_bit 20 (frame_id AND 0x7FF))
       OR (if ioc then TRB_IOC else 0) \<rparr>"

definition xhci_isoch_transfer_frame ::
  "u8 \<Rightarrow> u8 \<Rightarrow> u32 \<Rightarrow> u32 \<Rightarrow> u32 \<Rightarrow> bool \<Rightarrow> bool \<Rightarrow> xhci_controller \<Rightarrow> xhci_controller \<times> int" where
  "xhci_isoch_transfer_frame slot_id ep_dci addr len frame_id sia ioc ctrl =
    (if slot_id = 0 \<or> ep_dci = 0 \<or> addr = 0 \<or> len = 0 then (ctrl, -1)
     else (upd_ep_ring slot_id ep_dci (\<lambda>r. xhci_ring_enqueue_trb r (isoch_trb addr len frame_id sia ioc)) ctrl, 0))"

definition xhci_isoch_transfer :: "u8 \<Rightarrow> u8 \<Rightarrow> u32 \<Rightarrow> u32 \<Rightarrow> bool \<Rightarrow> bool \<Rightarrow> xhci_controller \<Rightarrow> xhci_controller \<times> int" where
  "xhci_isoch_transfer slot_id ep_dci addr len sia ioc ctrl = xhci_isoch_transfer_frame slot_id ep_dci addr len 0 sia ioc ctrl"

definition xhci_get_ring_queued_count :: "u8 \<Rightarrow> u8 \<Rightarrow> xhci_controller \<Rightarrow> nat" where
  "xhci_get_ring_queued_count slot_id ep_dci ctrl =
    (if slot_id = 0 \<or> slot_id > XHCI_MAX_SLOTS \<or> ep_dci \<ge> 32 then 0
     else
       (let r = ep_rings ctrl slot_id ep_dci
        in if ring_size r = 0 then 0
           else if enqueue_idx r \<ge> dequeue_idx r then enqueue_idx r - dequeue_idx r
           else ring_size r - 1 - dequeue_idx r + enqueue_idx r))"

end
