(* ===== verification/Xhci_Rings.thy ===== *)
theory Xhci_Rings
  imports Xhci
begin

text \<open>
  The rings as queues. The other end of a ring is the controller; \<open>hc_fetch\<close> and \<open>hc_post\<close> say what the
  xHCI specification (4.9.2, 4.9.4) makes it do: it takes a block whose cycle bit is its own, follows a
  link block and toggles its cycle there, and writes events with its own cycle.

  The blocks put into a transfer ring are numbered; number \<open>m\<close> lies in slot \<open>m mod n\<close> and carries the
  cycle of its lap \<open>m div n\<close>, where \<open>n\<close> is the number of slots before the link block.
\<close>

section \<open>Bits\<close>

definition trb_cyc :: "xhci_trb \<Rightarrow> bool" where
  "trb_cyc t \<longleftrightarrow> control t AND TRB_CYCLE \<noteq> 0"

definition is_link :: "xhci_trb \<Rightarrow> bool" where
  "is_link t \<longleftrightarrow> TRB_GET_TYPE (control t) = TRB_TYPE_LINK"

definition strip_cycle :: "xhci_trb \<Rightarrow> xhci_trb" where
  "strip_cycle t = t \<lparr> control := control t AND NOT TRB_CYCLE \<rparr>"

definition with_cycle :: "bool \<Rightarrow> xhci_trb \<Rightarrow> xhci_trb" where
  "with_cycle c t = t \<lparr> control := (control t AND NOT TRB_CYCLE) OR (if c then TRB_CYCLE else 0) \<rparr>"

lemma cycle_bit: "x AND TRB_CYCLE \<noteq> 0 \<longleftrightarrow> bit x 0"
  by (simp add: TRB_CYCLE_def and_one_eq odd_iff_mod_2_eq_one bit_0)

lemma bit_TRB_CYCLE: "bit TRB_CYCLE k \<longleftrightarrow> k = 0"
  by (simp add: TRB_CYCLE_def bit_1_iff)

lemma with_cycle_simps [simp]:
  "trb_cyc (with_cycle c t) = c" "strip_cycle (with_cycle c t) = strip_cycle t" "is_link (with_cycle c t) = is_link t"
  "strip_cycle (strip_cycle t) = strip_cycle t" "is_link (strip_cycle t) = is_link t"
proof -
  show "trb_cyc (with_cycle c t) = c"
    by (simp add: trb_cyc_def with_cycle_def cycle_bit bit_simps) (simp add: TRB_CYCLE_def)
  have c: "(x AND NOT TRB_CYCLE OR (if c then TRB_CYCLE else 0)) AND NOT TRB_CYCLE = x AND NOT TRB_CYCLE" for x
    by (rule bit_word_eqI) (auto simp: bit_simps)
  show "strip_cycle (with_cycle c t) = strip_cycle t"
    by (simp add: strip_cycle_def with_cycle_def c)
  have ctl: "control (with_cycle c t) = control t AND NOT TRB_CYCLE OR (if c then TRB_CYCLE else 0)"
    "control (strip_cycle t) = control t AND NOT TRB_CYCLE"
    by (simp_all add: with_cycle_def strip_cycle_def)
  have d: "drop_bit 10 (x AND NOT TRB_CYCLE OR (if c then TRB_CYCLE else 0)) = drop_bit 10 x" for x c
    by (rule bit_word_eqI) (auto simp: bit_simps bit_TRB_CYCLE dest: bit_imp_le_length)
  have d': "drop_bit 10 (x AND NOT TRB_CYCLE) = drop_bit 10 x" for x using d [of x False] by simp
  show "is_link (with_cycle c t) = is_link t" "is_link (strip_cycle t) = is_link t"
    by (simp_all only: is_link_def TRB_GET_TYPE_def ctl d d')
  show "strip_cycle (strip_cycle t) = strip_cycle t"
    by (simp add: strip_cycle_def and.assoc)
qed

lemma link_control_simps [simp]:
  "link_control c AND TRB_CYCLE \<noteq> 0 \<longleftrightarrow> c" "link_control c AND TRB_TC \<noteq> 0" "TRB_GET_TYPE (link_control c) = TRB_TYPE_LINK"
  by (cases c; simp add: link_control_def TRB_SET_TYPE_def TRB_TYPE_LINK_def TRB_TC_def TRB_CYCLE_def TRB_GET_TYPE_def)+

section \<open>Blocks in a ring\<close>

text \<open>\<open>P\<close> blocks were written into the first \<open>n\<close> slots: each slot carries the cycle of the lap before the
  one in which it is written next. The blocks from number \<open>C\<close> on are \<open>q\<close>.\<close>

definition laps :: "xhci_trb list \<Rightarrow> nat \<Rightarrow> nat \<Rightarrow> bool" where
  "laps ts n P \<longleftrightarrow> (\<forall>k < n. trb_cyc (ts ! ((P + k) mod n)) \<longleftrightarrow> odd ((P + k) div n))"

definition holds :: "xhci_trb list \<Rightarrow> nat \<Rightarrow> nat \<Rightarrow> xhci_trb list \<Rightarrow> bool" where
  "holds ts n C q \<longleftrightarrow> (\<forall>k < length q. strip_cycle (ts ! ((C + k) mod n)) = q ! k)"

lemma next_lap: "0 < n \<Longrightarrow> (P + n) div n = Suc (P div n)" for n P :: nat
  by (simp add: div_add_self2)

lemma laps_init: "(\<And>k. k < n \<Longrightarrow> ts ! k = zero_trb) \<Longrightarrow> laps ts n 0"
  by (simp add: laps_def trb_cyc_def zero_trb_def)

lemma laps_put:
  assumes "laps ts n P" "0 < n" "n \<le> length ts"
  shows "laps (ts[P mod n := with_cycle (even (P div n)) t]) n (P + 1)"
  unfolding laps_def
proof (intro allI impI)
  fix k assume k: "k < n"
  show "trb_cyc (ts[P mod n := with_cycle (even (P div n)) t] ! ((P + 1 + k) mod n)) \<longleftrightarrow> odd ((P + 1 + k) div n)"
  proof (cases "k + 1 = n")
    case True
    then have e: "P + 1 + k = P + n" by simp
    have "P mod n < length ts" using assms(2,3) mod_less_divisor [of n P] by linarith
    then show ?thesis unfolding e using next_lap [OF assms(2), of P] by simp
  next
    case False
    then have "P mod n \<noteq> (P + (k + 1)) mod n" using ring_distinct [of 0 n "k + 1" P] k by auto
    then show ?thesis using assms(1) [unfolded laps_def, rule_format, of "k + 1"] k False by simp
  qed
qed

lemma holds_put:
  assumes "holds ts n C q" "length q < n" "n \<le> length ts"
  shows "holds (ts[(C + length q) mod n := with_cycle c t]) n C (q @ [strip_cycle t])"
  unfolding holds_def
proof (intro allI impI)
  fix k assume k: "k < length (q @ [strip_cycle t])"
  have "(C + length q) mod n < length ts" using assms(2,3) mod_less_divisor [of n "C + length q"] by linarith
  moreover have "(C + length q) mod n \<noteq> (C + k) mod n" if "k < length q"
    using ring_distinct [of k n "length q" C] that assms(2) by auto
  ultimately show "strip_cycle (ts[(C + length q) mod n := with_cycle c t] ! ((C + k) mod n)) = (q @ [strip_cycle t]) ! k"
    using assms(1) k by (cases "k = length q") (auto simp: holds_def nth_append)
qed

text \<open>The cycle of the slot read next tells whether there is something to read.\<close>

lemma laps_at:
  assumes "laps ts n (C + length q)" "length q \<le> n" "0 < n"
  shows "trb_cyc (ts ! (C mod n)) = even (C div n) \<longleftrightarrow> q \<noteq> []"
proof (cases "q = []")
  case True
  then show ?thesis using assms(1,3) by (auto simp: laps_def dest!: spec [of _ 0])
next
  case False
  have "C + length q + (n - length q) = C + n" using assms(2) by simp
  moreover have "n - length q < n" using False assms(3) by simp
  ultimately have "trb_cyc (ts ! ((C + n) mod n)) \<longleftrightarrow> odd ((C + n) div n)"
    using assms(1) by (metis laps_def)
  then show ?thesis using False next_lap [OF assms(3), of C] by simp
qed

lemma holds_Cons: "holds ts n C (t # q) \<longleftrightarrow> strip_cycle (ts ! (C mod n)) = t \<and> holds ts n (C + 1) q"
  unfolding holds_def by (auto simp: less_Suc_eq_0_disj)

lemma laps_frame: "(\<And>m. ts' ! (m mod n) = ts ! (m mod n)) \<Longrightarrow> laps ts' n P = laps ts n P"
  "(\<And>m. ts' ! (m mod n) = ts ! (m mod n)) \<Longrightarrow> holds ts' n C q = holds ts n C q"
  by (simp_all add: laps_def holds_def)

section \<open>Transfer rings\<close>

text \<open>The controller keeps an index into the ring and its cycle. It follows a link block and tries again
  once; a ring has at least one slot, so that there are never two link blocks in a row.\<close>

definition hc_fetch :: "xhci_ring \<Rightarrow> nat \<times> bool \<Rightarrow> (nat \<times> bool) \<times> xhci_trb option" where
  "hc_fetch r = (\<lambda>(i, c).
    let t = trbs r ! i
    in if trb_cyc t \<noteq> c then ((i, c), None)
       else if is_link t then
         (let j = unat (parameter_lo t - phys_addr r) div 16;
              c' = (if control t AND TRB_TC \<noteq> 0 then \<not> c else c); t' = trbs r ! j
          in if trb_cyc t' \<noteq> c' then ((j, c'), None) else ((j + 1, c'), Some (strip_cycle t')))
       else ((i + 1, c), Some (strip_cycle t)))"

text \<open>The queue between driver and controller, with the laps of both as witnesses.\<close>

definition hc_ring_at :: "xhci_ring \<Rightarrow> nat \<Rightarrow> bool \<Rightarrow> xhci_trb list \<Rightarrow> nat \<Rightarrow> nat \<Rightarrow> nat \<Rightarrow> bool" where
  "hc_ring_at r i c q n L L' \<longleftrightarrow>
     (1 \<le> n \<and> ring_size r = n + 1 \<and> length (trbs r) = n + 1
      \<and> enqueue_idx r \<le> n \<and> (cycle r \<longleftrightarrow> even L) \<and> i \<le> n \<and> (c \<longleftrightarrow> even L'))
     \<and> (L' * n + i + length q = L * n + enqueue_idx r \<and> length q \<le> n \<and> (0 < L \<and> enqueue_idx r = 0 \<longrightarrow> length q < n))
     \<and> (laps (trbs r) n (L * n + enqueue_idx r) \<and> holds (trbs r) n (L' * n + i) q \<and> (\<forall>t \<in> set q. \<not> is_link t))
     \<and> (control (trbs r ! n) = link_control (L = 0 \<or> odd L) \<and> parameter_lo (trbs r ! n) = phys_addr r)"

lemma hc_ring_atD:
  assumes "hc_ring_at r i c q n L L'"
  shows "1 \<le> n" "ring_size r = n + 1" "length (trbs r) = n + 1" "enqueue_idx r \<le> n" "cycle r \<longleftrightarrow> even L" "i \<le> n"
    "c \<longleftrightarrow> even L'" "L' * n + i + length q = L * n + enqueue_idx r" "length q \<le> n"
    "0 < L \<Longrightarrow> enqueue_idx r = 0 \<Longrightarrow> length q < n"
    "laps (trbs r) n (L * n + enqueue_idx r)" "holds (trbs r) n (L' * n + i) q" "\<forall>t \<in> set q. \<not> is_link t"
    "control (trbs r ! n) = link_control (L = 0 \<or> odd L)" "parameter_lo (trbs r ! n) = phys_addr r"
  using assms unfolding hc_ring_at_def by blast+

definition hc_ring :: "xhci_ring \<Rightarrow> nat \<times> bool \<Rightarrow> xhci_trb list \<Rightarrow> bool" where
  "hc_ring r hc q \<longleftrightarrow> (\<exists>n L L'. hc_ring_at r (fst hc) (snd hc) q n L L')"

lemma mod_neq_self: "0 < n \<Longrightarrow> n \<noteq> m mod n" for m n :: nat
  using mod_less_divisor [of n m] by linarith

lemma ring_init_ok:
  assumes "2 \<le> n"
  shows "hc_ring (ring_setup_link_trb (ring_init km r n)) (0, True) []"
proof -
  have "hc_ring_at (ring_setup_link_trb (ring_init km r n)) 0 True [] (n - 1) 0 0"
    using assms by (auto simp: hc_ring_at_def ring_setup_link_trb_def ring_init_def holds_def intro!: laps_init)
  then show ?thesis by (auto simp: hc_ring_def)
qed

lemma wrap_ok:
  assumes "hc_ring_at r i c q n L L'" "length q < n" "f = ring_wrap \<or> f = cmd_ring_wrap"
  shows "\<exists>M. hc_ring_at (f r) i c q n M L' \<and> enqueue_idx (f r) < n \<and> phys_addr (f r) = phys_addr r"
proof (cases "enqueue_idx r < n")
  case True
  then have "f r = r" using assms by (auto simp: ring_wrap_def cmd_ring_wrap_def hc_ring_at_def)
  then show ?thesis using assms(1) True by auto
next
  case False
  note h = hc_ring_atD [OF assms(1)]
  have e: "enqueue_idx r = n" and n: "0 < n" using h(1,4) False by auto
  obtain t where fr: "f r = r \<lparr> trbs := (trbs r)[n := t], enqueue_idx := 0, cycle := \<not> cycle r \<rparr>"
    and t: "control t = link_control (cycle r)" "parameter_lo t = phys_addr r"
  proof (cases "f = ring_wrap")
    case True
    then show ?thesis using h e by (intro that) (simp add: ring_wrap_def, simp_all)
  next
    case False
    then show ?thesis using h e assms(3) by (intro that) (simp add: cmd_ring_wrap_def, simp_all)
  qed
  have same: "(trbs r)[n := t] ! (m mod n) = trbs r ! (m mod n)" for m using mod_neq_self [OF n] by simp
  have "hc_ring_at (f r) i c q n (Suc L) L'"
    using h(1-9,11-13) e t assms(2) unfolding hc_ring_at_def fr by (simp add: laps_frame [OF same] add.commute)
  then show ?thesis using fr n by auto
qed

text \<open>Storing at the index of the producer.\<close>

lemma put_ok:
  assumes "hc_ring_at r i c q n L L'" "length q < n" "enqueue_idx r < n" "\<not> is_link t"
  shows "hc_ring_at (r \<lparr> trbs := (trbs r)[enqueue_idx r := with_cycle (cycle r) t], enqueue_idx := enqueue_idx r + 1 \<rparr>)
    i c (q @ [strip_cycle t]) n L L'"
proof -
  note h = hc_ring_atD [OF assms(1)]
  have P: "(L * n + enqueue_idx r) mod n = enqueue_idx r" "(L * n + enqueue_idx r) div n = L" using assms(3) by simp_all
  have "laps ((trbs r)[enqueue_idx r := with_cycle (cycle r) t]) n (L * n + enqueue_idx r + 1)"
    using laps_put [OF h(11), of t] P h(1,3,5) by simp
  moreover have "holds ((trbs r)[enqueue_idx r := with_cycle (cycle r) t]) n (L' * n + i) (q @ [strip_cycle t])"
    using holds_put [OF h(12) assms(2), of "cycle r" t] h(3,8) P(1) by simp
  ultimately show ?thesis
    using h assms(2-4) by (auto simp: hc_ring_at_def)
qed

lemma enqueue_ok:
  assumes "hc_ring r hc q" "length q < ring_size r - 1" "\<not> is_link t"
  shows "hc_ring (xhci_ring_enqueue_trb r t) hc (q @ [strip_cycle t])"
proof -
  obtain n L L' where h: "hc_ring_at r (fst hc) (snd hc) q n L L'" using assms(1) by (auto simp: hc_ring_def)
  have n: "ring_size r = n + 1" using h by (simp add: hc_ring_at_def)
  obtain M where w: "hc_ring_at (ring_wrap r) (fst hc) (snd hc) q n M L'" "enqueue_idx (ring_wrap r) < n"
    using wrap_ok [OF h, of ring_wrap] assms(2) n by auto
  have "xhci_ring_enqueue_trb r t = (ring_wrap r) \<lparr> trbs := (trbs (ring_wrap r))[enqueue_idx (ring_wrap r) :=
      with_cycle (cycle (ring_wrap r)) t], enqueue_idx := enqueue_idx (ring_wrap r) + 1 \<rparr>"
    by (simp add: xhci_ring_enqueue_trb_def Let_def with_cycle_def)
  then show ?thesis using put_ok [OF w(1) _ w(2) assms(3)] assms(2) n by (auto simp: hc_ring_def)
qed

lemma cmd_enqueue_ok:
  assumes "hc_ring r hc q" "length q < ring_size r - 1" "\<not> is_link t" "\<not> trb_cyc t"
  shows "hc_ring (fst (cmd_enqueue r t)) hc (q @ [t])"
proof -
  obtain n L L' where h: "hc_ring_at r (fst hc) (snd hc) q n L L'" using assms(1) by (auto simp: hc_ring_def)
  have n: "ring_size r = n + 1" using h by (simp add: hc_ring_at_def)
  obtain M where w: "hc_ring_at (cmd_ring_wrap r) (fst hc) (snd hc) q n M L'" "enqueue_idx (cmd_ring_wrap r) < n"
    using wrap_ok [OF h, of cmd_ring_wrap] assms(2) n by auto
  have z: "control t AND NOT TRB_CYCLE = control t"
    using assms(4) by (intro bit_word_eqI) (auto simp: trb_cyc_def cycle_bit bit_simps bit_TRB_CYCLE intro: gr0I)
  have "fst (cmd_enqueue r t) = (cmd_ring_wrap r) \<lparr> trbs := (trbs (cmd_ring_wrap r))[enqueue_idx (cmd_ring_wrap r) :=
      with_cycle (cycle (cmd_ring_wrap r)) t], enqueue_idx := enqueue_idx (cmd_ring_wrap r) + 1 \<rparr>"
    by (simp add: cmd_enqueue_def Let_def with_cycle_def z)
  moreover have "strip_cycle t = t" by (simp add: strip_cycle_def z)
  ultimately show ?thesis using put_ok [OF w(1) _ w(2) assms(3)] assms(2) n by (auto simp: hc_ring_def)
qed

text \<open>Reading before the link block.\<close>

lemma fetch_before_link:
  assumes "hc_ring_at r i c q n L L'" "i < n"
  shows "if trb_cyc (trbs r ! i) \<noteq> c then q = []
    else q \<noteq> [] \<and> strip_cycle (trbs r ! i) = hd q \<and> \<not> is_link (trbs r ! i) \<and> hc_ring_at r (i + 1) c (tl q) n L L'"
proof -
  note h = hc_ring_atD [OF assms(1)]
  have C: "(L' * n + i) mod n = i" "(L' * n + i) div n = L'" using assms(2) by simp_all
  have "trb_cyc (trbs r ! i) = c \<longleftrightarrow> q \<noteq> []"
    using laps_at [of "trbs r" n "L' * n + i" q] h C assms(2) by simp
  moreover have "strip_cycle (trbs r ! i) = t \<and> \<not> is_link (trbs r ! i) \<and> hc_ring_at r (i + 1) c q' n L L'" if "q = t # q'" for t q'
  proof -
    have t: "strip_cycle (trbs r ! i) = t" "holds (trbs r) n (L' * n + i + 1) q'"
      using h(12) C by (auto simp: that holds_Cons)
    moreover have "\<not> is_link (trbs r ! i)"
      using t(1) h(13) with_cycle_simps(5) [of "trbs r ! i"] by (auto simp: that)
    ultimately show ?thesis using h assms(2) by (auto simp: hc_ring_at_def that)
  qed
  ultimately show ?thesis by (cases q) auto
qed

text \<open>At the link block the controller goes on to the start of the ring in its next lap, or stays while
  there is nothing to take.\<close>

lemma link_ok:
  assumes "hc_ring_at r n c q n L L'"
  shows "is_link (trbs r ! n)" "control (trbs r ! n) AND TRB_TC \<noteq> 0"
    "trb_cyc (trbs r ! n) = c \<Longrightarrow> hc_ring_at r 0 (\<not> c) q n L (Suc L')" "q \<noteq> [] \<Longrightarrow> trb_cyc (trbs r ! n) = c"
proof -
  note h = hc_ring_atD [OF assms]
  show "is_link (trbs r ! n)" "control (trbs r ! n) AND TRB_TC \<noteq> 0" using h(14) by (simp_all add: is_link_def)
  have e: "Suc L' * n + length q = L * n + enqueue_idx r" using h(8) by simp
  show "hc_ring_at r 0 (\<not> c) q n L (Suc L')"
    using assms e by (simp add: hc_ring_at_def add.commute)
  have "L = Suc L'" if "q \<noteq> []"
  proof -
    have "0 < length q" using that by simp
    then have "\<not> L * n \<le> L' * n" using e h(4) unfolding mult_Suc by linarith
    then have "L' < L" by (simp only: not_le mult_less_cancel2)
    moreover have "\<not> Suc (Suc L') \<le> L"
    proof
      assume "Suc (Suc L') \<le> L"
      then have "Suc (Suc L') * n \<le> L * n" by (rule mult_le_mono1)
      then have "enqueue_idx r = 0" "length q = n" using e h(9) by simp_all
      then show False using h(10) \<open>L' < L\<close> by simp
    qed
    ultimately show ?thesis by simp
  qed
  then show "q \<noteq> [] \<Longrightarrow> trb_cyc (trbs r ! n) = c" using h(7,14) by (simp add: trb_cyc_def)
qed

text \<open>What the controller does next: it takes the first block of the queue, and stops only when there is
  none.\<close>

lemma fetch_ok:
  assumes "hc_ring r hc q"
  shows "\<exists>hc'. hc_fetch r hc = (hc', if q = [] then None else Some (hd q)) \<and> hc_ring r hc' (tl q)"
proof -
  obtain i c where hc: "hc = (i, c)" by fastforce
  obtain n L L' where h: "hc_ring_at r i c q n L L'" using assms by (auto simp: hc_ring_def hc)
  consider (before) "i < n" | (stay) "i = n" "trb_cyc (trbs r ! n) \<noteq> c" | (follow) "i = n" "trb_cyc (trbs r ! n) = c"
    using hc_ring_atD(6) [OF h] by fastforce
  then show ?thesis
  proof cases
    case before
    show ?thesis using fetch_before_link [OF h before] assms
      by (cases "trb_cyc (trbs r ! i) \<noteq> c") (auto simp: hc_fetch_def hc hc_ring_def Let_def)
  next
    case stay
    then show ?thesis using link_ok(4) [OF h [unfolded stay(1)]] assms by (auto simp: hc_fetch_def hc Let_def)
  next
    case follow
    note l = link_ok [OF h [unfolded follow(1)]]
    have h': "hc_ring_at r 0 (\<not> c) q n L (Suc L')" using l(3) follow(2) .
    have "hc_fetch r hc = (if trb_cyc (trbs r ! 0) \<noteq> (\<not> c) then ((0, \<not> c), None) else ((1, \<not> c), Some (strip_cycle (trbs r ! 0))))"
      using follow l(1,2) hc_ring_atD(15) [OF h] by (simp add: hc_fetch_def hc Let_def)
    then show ?thesis using fetch_before_link [OF h'] hc_ring_atD(1) [OF h] h'
      by (cases "trb_cyc (trbs r ! 0) \<noteq> (\<not> c)") (auto simp: hc_ring_def)
  qed
qed


section \<open>The event ring\<close>

text \<open>The controller writes an event at its index with its cycle, which it toggles at the end of the ring.\<close>

definition hc_post :: "xhci_controller \<times> nat \<times> bool \<Rightarrow> xhci_trb \<Rightarrow> xhci_controller \<times> nat \<times> bool" where
  "hc_post = (\<lambda>(ctrl, i, c) t.
    (ctrl \<lparr> evt_ring := (evt_ring ctrl) \<lparr> trbs := (trbs (evt_ring ctrl))[i := with_cycle c t] \<rparr> \<rparr>,
     if i + 1 = ring_size (evt_ring ctrl) then (0, \<not> c) else (i + 1, c)))"

definition evt_ring_at :: "xhci_controller \<Rightarrow> nat \<times> bool \<Rightarrow> xhci_trb list \<Rightarrow> nat \<Rightarrow> nat \<Rightarrow> bool" where
  "evt_ring_at ctrl hc q L L' \<longleftrightarrow>
    (let r = evt_ring ctrl; n = ring_size r in
     (1 \<le> n \<and> length (trbs r) = n \<and> dequeue_idx r < n \<and> (evt_cycle ctrl \<longleftrightarrow> even L') \<and> fst hc < n \<and> (snd hc \<longleftrightarrow> even L))
     \<and> (L' * n + dequeue_idx r + length q = L * n + fst hc \<and> length q \<le> n)
     \<and> (laps (trbs r) n (L * n + fst hc) \<and> holds (trbs r) n (L' * n + dequeue_idx r) q))"

definition evt_queue :: "xhci_controller \<Rightarrow> nat \<times> bool \<Rightarrow> xhci_trb list \<Rightarrow> bool" where
  "evt_queue ctrl hc q \<longleftrightarrow> (\<exists>L L'. evt_ring_at ctrl hc q L L')"

text \<open>Stepping an index of a ring of \<open>n\<close> slots.\<close>

lemma ring_step:
  fixes i n L :: nat
  assumes "i < n"
  shows "\<exists>L'. L' * n + (if i + 1 = n then 0 else i + 1) = L * n + i + 1 \<and> (if i + 1 = n then 0 else i + 1) < n
    \<and> even L' = (if i + 1 = n then odd L else even L)"
  using assms by (intro exI [of _ "if i + 1 = n then Suc L else L"]) auto

lemma post_ok:
  assumes "evt_queue ctrl hc q" "length q < ring_size (evt_ring ctrl)"
  shows "evt_queue (fst (hc_post (ctrl, hc) t)) (snd (hc_post (ctrl, hc) t)) (q @ [strip_cycle t])"
proof -
  obtain i c L L' where hc: "hc = (i, c)" and h: "evt_ring_at ctrl (i, c) q L L'"
    using assms(1) by (cases hc) (auto simp: evt_queue_def)
  let ?n = "ring_size (evt_ring ctrl)"
  note h = h [unfolded evt_ring_at_def Let_def]
  have P: "(L * ?n + i) mod ?n = i" "(L * ?n + i) div ?n = L" using h by simp_all
  have "laps ((trbs (evt_ring ctrl))[i := with_cycle c t]) ?n (L * ?n + i + 1)"
    using laps_put [of "trbs (evt_ring ctrl)" ?n "L * ?n + i" t] h P by simp
  moreover have "holds ((trbs (evt_ring ctrl))[i := with_cycle c t]) ?n (L' * ?n + dequeue_idx (evt_ring ctrl)) (q @ [strip_cycle t])"
    using holds_put [of "trbs (evt_ring ctrl)" ?n "L' * ?n + dequeue_idx (evt_ring ctrl)" q c t] h P(1) assms(2) by simp
  moreover obtain M where M: "M * ?n + (if i + 1 = ?n then 0 else i + 1) = L * ?n + i + 1" "(if i + 1 = ?n then 0 else i + 1) < ?n"
    "even M = (if i + 1 = ?n then odd L else even L)"
    using ring_step [of i ?n L] h by auto
  ultimately have "evt_ring_at (fst (hc_post (ctrl, hc) t)) (snd (hc_post (ctrl, hc) t)) (q @ [strip_cycle t]) M L'"
    using h assms(2) by (auto simp: evt_ring_at_def hc_post_def hc Let_def)
  then show ?thesis by (auto simp: evt_queue_def)
qed

lemma poll_event_ok:
  assumes "evt_queue ctrl hc q"
  shows "case xhci_poll_event ctrl of
      (ctrl', None) \<Rightarrow> q = [] \<and> ctrl' = ctrl
    | (ctrl', Some t) \<Rightarrow> q \<noteq> [] \<and> strip_cycle t = hd q \<and> evt_queue ctrl' hc (tl q)
        \<and> ring_size (evt_ring ctrl') = ring_size (evt_ring ctrl) \<and> ep_rings ctrl' = ep_rings ctrl"
proof -
  obtain L L' where h: "evt_ring_at ctrl hc q L L'" using assms by (auto simp: evt_queue_def)
  let ?n = "ring_size (evt_ring ctrl)" and ?d = "dequeue_idx (evt_ring ctrl)"
  note h = h [unfolded evt_ring_at_def Let_def]
  have C: "(L' * ?n + ?d) mod ?n = ?d" "(L' * ?n + ?d) div ?n = L'" using h by simp_all
  have c: "trb_cyc (trbs (evt_ring ctrl) ! ?d) = evt_cycle ctrl \<longleftrightarrow> q \<noteq> []"
    using laps_at [of "trbs (evt_ring ctrl)" ?n "L' * ?n + ?d" q] h C by simp
  show ?thesis
  proof (cases q)
    case Nil
    then show ?thesis using c by (simp add: xhci_poll_event_def trb_cyc_def Let_def)
  next
    case (Cons t q')
    obtain M where M: "M * ?n + (if ?d + 1 = ?n then 0 else ?d + 1) = L' * ?n + ?d + 1" "(if ?d + 1 = ?n then 0 else ?d + 1) < ?n"
      "even M = (if ?d + 1 = ?n then odd L' else even L')"
      using ring_step [of ?d ?n L'] h by auto
    have t: "strip_cycle (trbs (evt_ring ctrl) ! ?d) = t" "holds (trbs (evt_ring ctrl)) ?n (L' * ?n + ?d + 1) q'"
      using h C by (auto simp: Cons holds_Cons)
    let ?c = "fst (xhci_poll_event ctrl)"
    have p: "xhci_poll_event ctrl = (?c, Some (trbs (evt_ring ctrl) ! ?d))"
      "evt_ring ?c = (evt_ring ctrl) \<lparr> dequeue_idx := (if ?d + 1 = ?n then 0 else ?d + 1) \<rparr>"
      "evt_cycle ?c = (if ?d + 1 = ?n then \<not> evt_cycle ctrl else evt_cycle ctrl)" "ep_rings ?c = ep_rings ctrl"
      using c Cons h by (auto simp: xhci_poll_event_def trb_cyc_def Let_def mmio_def)
    have "evt_ring_at ?c hc q' L M"
      using h t M p(2,3) Cons by (auto simp: evt_ring_at_def Let_def)
    then have "evt_queue ?c hc q'" unfolding evt_queue_def by blast
    then show ?thesis using p(2,4) t(1) Cons by (subst p(1)) simp
  qed
qed


section \<open>First in, first out\<close>

text \<open>A channel: one side sends, the other receives, in any order of their steps.\<close>

datatype 'a chan_op = Send 'a | Recv

fun chan_run :: "('s \<Rightarrow> 'a \<Rightarrow> 's) \<Rightarrow> ('s \<Rightarrow> 's \<times> 'a option) \<Rightarrow> 's \<Rightarrow> 'a chan_op list \<Rightarrow> 's \<times> 'a list" where
  "chan_run send recv s [] = (s, [])"
| "chan_run send recv s (Send x # ops) = chan_run send recv (send s x) ops"
| "chan_run send recv s (Recv # ops) =
    (let (s1, x) = recv s; (s2, xs) = chan_run send recv s1 ops
     in (s2, case x of None \<Rightarrow> xs | Some x \<Rightarrow> x # xs))"

fun sent :: "'a chan_op list \<Rightarrow> 'a list" where
  "sent [] = []"
| "sent (Send x # ops) = x # sent ops"
| "sent (Recv # ops) = sent ops"

text \<open>Nothing is sent while \<open>cap\<close> elements wait.\<close>

fun chan_fits :: "nat \<Rightarrow> nat \<Rightarrow> 'a chan_op list \<Rightarrow> bool" where
  "chan_fits cap k [] = True"
| "chan_fits cap k (Send x # ops) = (k < cap \<and> chan_fits cap (k + 1) ops)"
| "chan_fits cap k (Recv # ops) = chan_fits cap (k - 1) ops"

locale channel =
  fixes send :: "'s \<Rightarrow> 'a \<Rightarrow> 's" and recv :: "'s \<Rightarrow> 's \<times> 'a option"
    and queue :: "'s \<Rightarrow> 'a list \<Rightarrow> bool" and ok :: "'a \<Rightarrow> bool" and cap :: "'s \<Rightarrow> nat"
  assumes send_queue: "queue s q \<Longrightarrow> ok x \<Longrightarrow> length q < cap s \<Longrightarrow> queue (send s x) (q @ [x]) \<and> cap (send s x) = cap s"
    and recv_queue: "queue s q \<Longrightarrow> \<exists>s'. recv s = (s', if q = [] then None else Some (hd q)) \<and> queue s' (tl q) \<and> cap s' = cap s"
begin

text \<open>What was received and what still waits is what waited and what was sent, in this order.\<close>

lemma run_fifo:
  assumes "queue s q" "\<forall>x \<in> set (sent ops). ok x" "chan_fits (cap s) (length q) ops"
  shows "\<exists>s' out q'. chan_run send recv s ops = (s', out) \<and> queue s' q' \<and> out @ q' = q @ sent ops"
  using assms
proof (induction ops arbitrary: s q)
  case (Cons p ops)
  show ?case
  proof (cases p)
    case (Send x)
    then have "queue (send s x) (q @ [x])" "cap (send s x) = cap s" using send_queue Cons.prems by auto
    then show ?thesis using Cons.IH [of "send s x" "q @ [x]"] Cons.prems Send by auto
  next
    case Recv
    obtain s1 where r: "recv s = (s1, if q = [] then None else Some (hd q))" "queue s1 (tl q)" "cap s1 = cap s"
      using recv_queue [OF Cons.prems(1)] by auto
    obtain s2 out q2 where i: "chan_run send recv s1 ops = (s2, out)" "queue s2 q2" "out @ q2 = tl q @ sent ops"
      using Cons.IH [OF r(2)] Cons.prems Recv r(3) by auto
    show ?thesis
    proof (cases q)
      case Nil
      then show ?thesis using r i by (intro exI [of _ s2] exI [of _ out] exI [of _ q2]) (simp add: Recv)
    next
      case (Cons x q')
      then show ?thesis using r i by (intro exI [of _ s2] exI [of _ "x # out"] exI [of _ q2]) (simp add: Recv)
    qed
  qed
qed auto

lemma idle_iff: "queue s q \<Longrightarrow> snd (recv s) = None \<longleftrightarrow> q = []"
  using recv_queue [of s q] by (auto split: if_splits)

end

text \<open>Requests are blocks with the cycle bit clear that are no link blocks.\<close>

definition request :: "xhci_trb \<Rightarrow> bool" where
  "request t \<longleftrightarrow> \<not> is_link t \<and> \<not> trb_cyc t"

lemma strip_request: "\<not> trb_cyc t \<Longrightarrow> strip_cycle t = t"
proof -
  assume "\<not> trb_cyc t"
  then have "control t AND NOT TRB_CYCLE = control t"
    by (intro bit_word_eqI) (auto simp: trb_cyc_def cycle_bit bit_simps bit_TRB_CYCLE intro: gr0I)
  then show ?thesis by (simp add: strip_cycle_def)
qed

definition ring_send :: "xhci_ring \<times> nat \<times> bool \<Rightarrow> xhci_trb \<Rightarrow> xhci_ring \<times> nat \<times> bool" where
  "ring_send = (\<lambda>(r, hc) t. (xhci_ring_enqueue_trb r t, hc))"

definition cmd_send :: "xhci_ring \<times> nat \<times> bool \<Rightarrow> xhci_trb \<Rightarrow> xhci_ring \<times> nat \<times> bool" where
  "cmd_send = (\<lambda>(r, hc) t. (fst (cmd_enqueue r t), hc))"

definition ring_recv :: "xhci_ring \<times> nat \<times> bool \<Rightarrow> (xhci_ring \<times> nat \<times> bool) \<times> xhci_trb option" where
  "ring_recv = (\<lambda>(r, hc). let (hc', t) = hc_fetch r hc in ((r, hc'), t))"

definition evt_recv :: "xhci_controller \<times> nat \<times> bool \<Rightarrow> (xhci_controller \<times> nat \<times> bool) \<times> xhci_trb option" where
  "evt_recv = (\<lambda>(ctrl, hc). let (ctrl', t) = xhci_poll_event ctrl in ((ctrl', hc), map_option strip_cycle t))"

lemma ring_size_enqueue [simp]: "ring_size (xhci_ring_enqueue_trb r t) = ring_size r" "ring_size (fst (cmd_enqueue r t)) = ring_size r"
  by (simp_all add: xhci_ring_enqueue_trb_def cmd_enqueue_def ring_wrap_def cmd_ring_wrap_def Let_def)

lemma ring_recv_ok:
  assumes "hc_ring (fst s) (snd s) q"
  shows "\<exists>s'. ring_recv s = (s', if q = [] then None else Some (hd q)) \<and> hc_ring (fst s') (snd s') (tl q)
    \<and> ring_size (fst s') - 1 = ring_size (fst s) - 1"
  using fetch_ok [OF assms] by (auto simp: ring_recv_def case_prod_unfold Let_def)

interpretation transfer_ring: channel ring_send ring_recv "\<lambda>s. hc_ring (fst s) (snd s)" request "\<lambda>s. ring_size (fst s) - 1"
  by (unfold_locales, use enqueue_ok strip_request in \<open>force simp: ring_send_def request_def case_prod_unfold\<close>, rule ring_recv_ok)

interpretation command_ring: channel cmd_send ring_recv "\<lambda>s. hc_ring (fst s) (snd s)" request "\<lambda>s. ring_size (fst s) - 1"
  by (unfold_locales, simp add: cmd_send_def request_def case_prod_unfold cmd_enqueue_ok, rule ring_recv_ok)

lemma evt_recv_ok:
  assumes "evt_queue (fst s) (snd s) q"
  shows "\<exists>s'. evt_recv s = (s', if q = [] then None else Some (hd q)) \<and> evt_queue (fst s') (snd s') (tl q)
    \<and> ring_size (evt_ring (fst s')) = ring_size (evt_ring (fst s))"
  using poll_event_ok [OF assms] assms
  by (cases "xhci_poll_event (fst s)"; cases "snd (xhci_poll_event (fst s))") (auto simp: evt_recv_def case_prod_unfold)

interpretation event_ring: channel hc_post evt_recv "\<lambda>s. evt_queue (fst s) (snd s)" "\<lambda>t. \<not> trb_cyc t" "\<lambda>s. ring_size (evt_ring (fst s))"
proof unfold_locales
  fix s :: "xhci_controller \<times> nat \<times> bool" and q x
  assume "evt_queue (fst s) (snd s) q" "\<not> trb_cyc x" "length q < ring_size (evt_ring (fst s))"
  then show "evt_queue (fst (hc_post s x)) (snd (hc_post s x)) (q @ [x]) \<and> ring_size (evt_ring (fst (hc_post s x))) = ring_size (evt_ring (fst s))"
    using post_ok [of "fst s" "snd s" q x] by (simp add: strip_request) (simp add: hc_post_def case_prod_unfold)
qed (rule evt_recv_ok)

end
