(* ===== verification/Usb_Hid.thy ===== *)
theory Usb_Hid
  imports Xhci Usb_Msc
begin

text \<open>
  The USB keyboards and mice of \<open>src/usb/usb_hid.c\<close> on top of the rings of the host controller.

  The state \<open>usb_sys\<close> joins what the host controller and the class driver share: the controller, the
  tables of keyboards and mice with the buffers the controller writes reports into, and the key buffer.
  A pointer to a \<open>usb_device_t\<close> is an address; \<open>dev_slot\<close> is the field \<open>slot_id\<close> behind it, and
  \<open>kbd_report_at i\<close> and \<open>mouse_report_at i\<close> are the addresses of the report buffers. The screen has
  \<open>cols\<close> columns and \<open>rows\<close> rows; drawing the pointer is not modelled.
\<close>

section \<open>State\<close>

record usb_mouse_report =
  r_buttons :: u8
  r_dx :: u8
  r_dy :: u8
  r_dwheel :: u8

record usb_hid_kbd =
  k_dev :: u32
  k_in_dci :: u8
  k_ep_addr :: u8
  k_max_packet :: u16
  k_interval :: u8
  k_report :: usb_kbd_report
  k_last_report :: usb_kbd_report
  k_transfer_pending :: bool
  k_active :: bool

record usb_hid_mouse =
  h_dev :: u32
  h_in_dci :: u8
  h_ep_addr :: u8
  h_max_packet :: u16
  h_interval :: u8
  h_report :: usb_mouse_report
  h_x :: int
  h_y :: int
  h_buttons :: u8
  h_transfer_pending :: bool
  h_active :: bool

definition zero_kbd_report :: usb_kbd_report where
  "zero_kbd_report = \<lparr> modifiers = 0, keycodes = [0, 0, 0, 0, 0, 0] \<rparr>"

definition zero_kbd :: usb_hid_kbd where
  "zero_kbd = \<lparr> k_dev = 0, k_in_dci = 0, k_ep_addr = 0, k_max_packet = 0, k_interval = 0, k_report = zero_kbd_report,
     k_last_report = zero_kbd_report, k_transfer_pending = False, k_active = False \<rparr>"

definition zero_mouse :: usb_hid_mouse where
  "zero_mouse = \<lparr> h_dev = 0, h_in_dci = 0, h_ep_addr = 0, h_max_packet = 0, h_interval = 0,
     h_report = \<lparr> r_buttons = 0, r_dx = 0, r_dy = 0, r_dwheel = 0 \<rparr>, h_x = 0, h_y = 0, h_buttons = 0,
     h_transfer_pending = False, h_active = False \<rparr>"

definition MAX_HID_KBDS :: nat where "MAX_HID_KBDS = 4"
definition MAX_HID_MICE :: nat where "MAX_HID_MICE = 4"

record usb_sys =
  xhci :: xhci_controller
  kbds :: "usb_hid_kbd list"
  kbd_count :: nat
  mice :: "usb_hid_mouse list"
  mouse_count :: nat
  key_buf :: kbd_buf
  dev_slot :: "u32 \<Rightarrow> u8"
  slot_usb_dev :: "u8 \<Rightarrow> u32"
  kbd_report_at :: "nat \<Rightarrow> u32"
  mouse_report_at :: "nat \<Rightarrow> u32"

definition with_xhci :: "(xhci_controller \<Rightarrow> xhci_controller) \<Rightarrow> usb_sys \<Rightarrow> usb_sys" where
  "with_xhci f s = s \<lparr> xhci := f (xhci s) \<rparr>"

section \<open>Reports\<close>

definition process_mouse_report :: "nat \<Rightarrow> nat \<Rightarrow> usb_hid_mouse \<Rightarrow> usb_mouse_report \<Rightarrow> usb_hid_mouse" where
  "process_mouse_report cols rows m rep =
    (let x = h_x m + sint (r_dx rep); y = h_y m + sint (r_dy rep);
         x = (if x < 0 then 0 else x); x = (if x \<ge> int cols then int cols - 1 else x);
         y = (if y < 1 then 1 else y); y = (if y \<ge> int rows - 1 then int rows - 2 else y)
     in m \<lparr> h_x := x, h_y := y, h_buttons := r_buttons rep \<rparr>)"

definition usb_mouse_get_state :: "usb_sys \<Rightarrow> int \<times> int \<times> u8" where
  "usb_mouse_get_state s =
    (if mouse_count s > 0 then (h_x (mice s ! 0), h_y (mice s ! 0), h_buttons (mice s ! 0)) else (0, 0, 0))"

definition usb_kbd_is_present :: "usb_sys \<Rightarrow> bool" where
  "usb_kbd_is_present s \<longleftrightarrow> kbd_count s > 0"

definition usb_mouse_is_present :: "usb_sys \<Rightarrow> bool" where
  "usb_mouse_is_present s \<longleftrightarrow> mouse_count s > 0"

definition submit_kbd_transfer :: "nat \<Rightarrow> usb_sys \<Rightarrow> usb_sys" where
  "submit_kbd_transfer i s =
    (let k = kbds s ! i; slot = dev_slot s (k_dev k);
         s = with_xhci (xhci_submit_async_trb slot (k_in_dci k) (kbd_report_at s i) 8 True) s;
         s = s \<lparr> kbds := (kbds s)[i := k \<lparr> k_transfer_pending := True \<rparr>] \<rparr>
     in with_xhci (xhci_ring_doorbell slot (k_in_dci k)) s)"

definition submit_mouse_transfer :: "nat \<Rightarrow> usb_sys \<Rightarrow> usb_sys" where
  "submit_mouse_transfer i s =
    (let m = mice s ! i; slot = dev_slot s (h_dev m);
         s = with_xhci (xhci_submit_async_trb slot (h_in_dci m) (mouse_report_at s i) 4 True) s;
         s = s \<lparr> mice := (mice s)[i := m \<lparr> h_transfer_pending := True \<rparr>] \<rparr>
     in with_xhci (xhci_ring_doorbell slot (h_in_dci m)) s)"

section \<open>Completion\<close>

definition kbd_matches :: "usb_sys \<Rightarrow> u8 \<Rightarrow> u8 \<Rightarrow> nat \<Rightarrow> bool" where
  "kbd_matches s slot_id ep i \<longleftrightarrow>
    k_active (kbds s ! i) \<and> dev_slot s (k_dev (kbds s ! i)) = slot_id \<and> k_in_dci (kbds s ! i) = ep"

definition mouse_matches :: "usb_sys \<Rightarrow> u8 \<Rightarrow> u8 \<Rightarrow> nat \<Rightarrow> bool" where
  "mouse_matches s slot_id ep i \<longleftrightarrow>
    h_active (mice s ! i) \<and> dev_slot s (h_dev (mice s ! i)) = slot_id \<and> h_in_dci (mice s ! i) = ep"

definition kbd_complete :: "nat \<Rightarrow> usb_sys \<Rightarrow> usb_sys" where
  "kbd_complete i s =
    (let k = kbds s ! i; (b, last_report) = process_kbd_report (k_last_report k) (k_report k) (key_buf s)
     in submit_kbd_transfer i (s \<lparr> kbds := (kbds s)[i := k \<lparr> k_last_report := last_report \<rparr>], key_buf := b \<rparr>))"

definition mouse_complete :: "nat \<Rightarrow> nat \<Rightarrow> nat \<Rightarrow> usb_sys \<Rightarrow> usb_sys" where
  "mouse_complete cols rows i s =
    (let m = mice s ! i
     in submit_mouse_transfer i (s \<lparr> mice := (mice s)[i := process_mouse_report cols rows m (h_report m)] \<rparr>))"

definition usb_hid_on_transfer_complete :: "nat \<Rightarrow> nat \<Rightarrow> u8 \<Rightarrow> u8 \<Rightarrow> usb_sys \<Rightarrow> usb_sys" where
  "usb_hid_on_transfer_complete cols rows slot_id ep s =
    (case find (kbd_matches s slot_id ep) [0..<kbd_count s] of
       Some i \<Rightarrow> kbd_complete i s
     | None \<Rightarrow>
         (case find (mouse_matches s slot_id ep) [0..<mouse_count s] of
            Some i \<Rightarrow> mouse_complete cols rows i s
          | None \<Rightarrow> s))"

definition usb_hid_poll :: "usb_sys \<Rightarrow> usb_sys" where
  "usb_hid_poll s =
    (let s = fold (\<lambda>i s. if k_active (kbds s ! i) \<and> \<not> k_transfer_pending (kbds s ! i) then submit_kbd_transfer i s else s)
               [0..<kbd_count s] s
     in fold (\<lambda>i s. if h_active (mice s ! i) \<and> \<not> h_transfer_pending (mice s ! i) then submit_mouse_transfer i s else s)
          [0..<mouse_count s] s)"

end
