(* ===== verification/Xhci_Transfer.thy ===== *)
theory Xhci_Transfer
  imports Usb_Hid
begin

text \<open>
  Commands and transfers of \<open>src/usb/xhci.c\<close>: a request goes into a ring, the doorbell is rung, and a
  loop looks at the event ring until the answer comes or the time is over. Events that are not the answer
  go to the keyboard and mouse driver.

  What the controller does between two looks of the driver is an argument \<open>hw\<close>, a change of the state;
  it may write events and reports. A list of them stands for one waiting loop: the loop looks once after
  each and gives up at the end of the list, which is the moment the clock or the counter of the loop
  decides. \<open>cols\<close> and \<open>rows\<close> are the screen's.
\<close>

type_synonym hw = "usb_sys \<Rightarrow> usb_sys"

section \<open>Waiting\<close>

definition poll :: "usb_sys \<Rightarrow> usb_sys \<times> xhci_trb option" where
  "poll s = (let (x, evt) = xhci_poll_event (xhci s) in (s \<lparr> xhci := x \<rparr>, evt))"

primrec wait_loop :: "(xhci_trb \<Rightarrow> usb_sys \<Rightarrow> usb_sys \<times> 'r option) \<Rightarrow> hw list \<Rightarrow> usb_sys \<Rightarrow> usb_sys \<times> 'r option" where
  "wait_loop handle [] s = (s, None)"
| "wait_loop handle (h # hs) s =
    (let (s, evt) = poll (h s)
     in case evt of
          None \<Rightarrow> wait_loop handle hs s
        | Some e \<Rightarrow>
            (case handle e s of
               (s, Some r) \<Rightarrow> (s, Some r)
             | (s, None) \<Rightarrow> wait_loop handle hs s))"

definition evt_slot :: "xhci_trb \<Rightarrow> u8" where
  "evt_slot e = TRB_GET_SLOT_ID (control e)"

definition evt_ep :: "xhci_trb \<Rightarrow> u8" where
  "evt_ep e = TRB_GET_EP_ID (control e)"

definition evt_code :: "xhci_trb \<Rightarrow> u8" where
  "evt_code e = TRB_GET_COMP_CODE (status e)"

definition evt_type :: "xhci_trb \<Rightarrow> u32" where
  "evt_type e = TRB_GET_TYPE (control e)"

section \<open>Commands\<close>

definition cmd_handle :: "nat \<Rightarrow> nat \<Rightarrow> u32 \<Rightarrow> xhci_trb \<Rightarrow> usb_sys \<Rightarrow> usb_sys \<times> xhci_trb option" where
  "cmd_handle cols rows cmd_phys e s =
    (if evt_type e = TRB_TYPE_CMD_COMPLETION_EVENT then (s, if parameter_lo e = cmd_phys then Some e else None)
     else if evt_type e = TRB_TYPE_TRANSFER_EVENT then (usb_hid_on_transfer_complete cols rows (evt_slot e) (evt_ep e) s, None)
     else (s, None))"

text \<open>The result and the completion event.\<close>

definition xhci_submit_cmd :: "nat \<Rightarrow> nat \<Rightarrow> hw list \<Rightarrow> xhci_trb \<Rightarrow> usb_sys \<Rightarrow> usb_sys \<times> int \<times> xhci_trb option" where
  "xhci_submit_cmd cols rows hs cmd s =
    (let (r, cmd_phys) = cmd_enqueue (cmd_ring (xhci s)) cmd;
         s = with_xhci (\<lambda>x. xhci_ring_doorbell 0 0 (x \<lparr> cmd_ring := r \<rparr>)) s
     in case wait_loop (cmd_handle cols rows cmd_phys) hs s of
          (s, None) \<Rightarrow> (s, -100, None)
        | (s, Some e) \<Rightarrow> (s, if evt_code e = 1 then 0 else - int (unat (evt_code e)), Some e))"

definition cmd_trb :: "u32 \<Rightarrow> u32 \<Rightarrow> u32 \<Rightarrow> xhci_trb" where
  "cmd_trb param type flags = \<lparr> parameter_lo = param, parameter_hi = 0, status = 0, control = TRB_SET_TYPE type OR flags \<rparr>"

definition xhci_cmd_enable_slot :: "nat \<Rightarrow> nat \<Rightarrow> hw list \<Rightarrow> usb_sys \<Rightarrow> usb_sys \<times> int \<times> u8 option" where
  "xhci_cmd_enable_slot cols rows hs s =
    (let (s, res, evt) = xhci_submit_cmd cols rows hs (cmd_trb 0 9 0) s
     in (s, res, if res = 0 then map_option evt_slot evt else None))"

definition xhci_cmd_disable_slot :: "nat \<Rightarrow> nat \<Rightarrow> hw list \<Rightarrow> u8 \<Rightarrow> usb_sys \<Rightarrow> usb_sys \<times> int" where
  "xhci_cmd_disable_slot cols rows hs slot s =
    (let (s, res, evt) = xhci_submit_cmd cols rows hs (cmd_trb 0 10 (TRB_SLOT_ID slot)) s in (s, res))"

definition xhci_cmd_address_device :: "nat \<Rightarrow> nat \<Rightarrow> hw list \<Rightarrow> u8 \<Rightarrow> u32 \<Rightarrow> bool \<Rightarrow> usb_sys \<Rightarrow> usb_sys \<times> int" where
  "xhci_cmd_address_device cols rows hs slot input_ctx bsr s =
    (let (s, res, evt) = xhci_submit_cmd cols rows hs
       (cmd_trb input_ctx 11 (TRB_SLOT_ID slot OR (if bsr then TRB_BSR else 0))) s in (s, res))"

definition xhci_cmd_configure_ep :: "nat \<Rightarrow> nat \<Rightarrow> hw list \<Rightarrow> u8 \<Rightarrow> u32 \<Rightarrow> usb_sys \<Rightarrow> usb_sys \<times> int" where
  "xhci_cmd_configure_ep cols rows hs slot input_ctx s =
    (let (s, res, evt) = xhci_submit_cmd cols rows hs (cmd_trb input_ctx 12 (TRB_SLOT_ID slot)) s in (s, res))"

definition xhci_cmd_evaluate_ctx :: "nat \<Rightarrow> nat \<Rightarrow> hw list \<Rightarrow> u8 \<Rightarrow> u32 \<Rightarrow> usb_sys \<Rightarrow> usb_sys \<times> int" where
  "xhci_cmd_evaluate_ctx cols rows hs slot input_ctx s =
    (let (s, res, evt) = xhci_submit_cmd cols rows hs (cmd_trb input_ctx 13 (TRB_SLOT_ID slot)) s in (s, res))"

definition ep_field :: "u8 \<Rightarrow> u32" where
  "ep_field ep = push_bit 16 (ucast ep AND 0x1F)"

definition xhci_cmd_reset_ep :: "nat \<Rightarrow> nat \<Rightarrow> hw list \<Rightarrow> u8 \<Rightarrow> u8 \<Rightarrow> usb_sys \<Rightarrow> usb_sys \<times> int" where
  "xhci_cmd_reset_ep cols rows hs slot ep s =
    (let (s, res, evt) = xhci_submit_cmd cols rows hs (cmd_trb 0 14 (TRB_SLOT_ID slot OR ep_field ep)) s in (s, res))"

definition xhci_cmd_set_tr_dequeue :: "nat \<Rightarrow> nat \<Rightarrow> hw list \<Rightarrow> u8 \<Rightarrow> u8 \<Rightarrow> u32 \<Rightarrow> bool \<Rightarrow> usb_sys \<Rightarrow> usb_sys \<times> int" where
  "xhci_cmd_set_tr_dequeue cols rows hs slot ep ptr dcs s =
    (let (s, res, evt) = xhci_submit_cmd cols rows hs
       (cmd_trb (ptr OR (if dcs then 1 else 0)) 16 (TRB_SLOT_ID slot OR ep_field ep)) s in (s, res))"

section \<open>Control transfers\<close>

record usb_setup_packet =
  bmRequestType :: u8
  bRequest :: u8
  wValue :: u16
  wIndex :: u16
  wLength :: u16

text \<open>The eight bytes of the packet lie in the two parameter words.\<close>

definition setup_trb :: "usb_setup_packet \<Rightarrow> u32 \<Rightarrow> xhci_trb" where
  "setup_trb p trt = \<lparr> parameter_lo = ucast (bmRequestType p) OR push_bit 8 (ucast (bRequest p)) OR push_bit 16 (ucast (wValue p)),
     parameter_hi = ucast (wIndex p) OR push_bit 16 (ucast (wLength p)), status = 8,
     control = TRB_SET_TYPE TRB_TYPE_SETUP_STAGE OR TRB_IDT OR trt \<rparr>"

definition data_trb :: "usb_setup_packet \<Rightarrow> u32 \<Rightarrow> u16 \<Rightarrow> xhci_trb" where
  "data_trb p addr len = \<lparr> parameter_lo = addr, parameter_hi = 0, status = ucast len,
     control = TRB_SET_TYPE TRB_TYPE_DATA_STAGE OR (if bmRequestType p AND 0x80 \<noteq> 0 then TRB_DIR_IN else TRB_DIR_OUT) \<rparr>"

definition status_trb :: "u32 \<Rightarrow> xhci_trb" where
  "status_trb trt = \<lparr> parameter_lo = 0, parameter_hi = 0, status = 0,
     control = TRB_SET_TYPE TRB_TYPE_STATUS_STAGE OR TRB_IOC OR (if trt = TRB_TRT_IN then TRB_DIR_OUT else TRB_DIR_IN) \<rparr>"

definition control_trbs :: "usb_setup_packet \<Rightarrow> u32 \<Rightarrow> u16 \<Rightarrow> xhci_trb list" where
  "control_trbs p addr len =
    (let trt = (if len > 0 then (if bmRequestType p AND 0x80 \<noteq> 0 then TRB_TRT_IN else TRB_TRT_OUT) else TRB_TRT_NONE)
     in [setup_trb p trt] @ (if len > 0 \<and> addr \<noteq> 0 then [data_trb p addr len] else []) @ [status_trb trt])"

text \<open>The first event of the endpoint ends the wait, with its code.\<close>

definition xfer_handle :: "nat \<Rightarrow> nat \<Rightarrow> u8 \<Rightarrow> u8 \<Rightarrow> xhci_trb \<Rightarrow> usb_sys \<Rightarrow> usb_sys \<times> xhci_trb option" where
  "xfer_handle cols rows slot ep e s =
    (if evt_type e = TRB_TYPE_TRANSFER_EVENT then
       (if evt_slot e = slot \<and> evt_ep e = ep then (s, Some e)
        else (usb_hid_on_transfer_complete cols rows (evt_slot e) (evt_ep e) s, None))
     else (s, None))"

definition comp_ok :: "u8 \<Rightarrow> bool" where
  "comp_ok code \<longleftrightarrow> code = 1 \<or> code = 13"

text \<open>After an error the endpoint is reset and the controller told to go on at the producer's index.\<close>

definition ep0_recover :: "nat \<Rightarrow> nat \<Rightarrow> hw list \<Rightarrow> hw list \<Rightarrow> u8 \<Rightarrow> usb_sys \<Rightarrow> usb_sys" where
  "ep0_recover cols rows hs1 hs2 slot s =
    (let s = with_xhci (upd_ep_ring slot 1 (\<lambda>r. r \<lparr> dequeue_idx := enqueue_idx r \<rparr>)) s;
         s = fst (xhci_cmd_reset_ep cols rows hs1 slot 1 s);
         r = ep_rings (xhci s) slot 1
     in fst (xhci_cmd_set_tr_dequeue cols rows hs2 slot 1 (phys_addr r + of_nat (dequeue_idx r * 16)) (cycle r) s))"

definition xhci_control_transfer ::
  "nat \<Rightarrow> nat \<Rightarrow> hw list \<times> hw list \<times> hw list \<Rightarrow> u8 \<Rightarrow> usb_setup_packet \<Rightarrow> u32 \<Rightarrow> u16 \<Rightarrow> usb_sys \<Rightarrow> usb_sys \<times> int" where
  "xhci_control_transfer cols rows = (\<lambda>(hs, hs1, hs2) slot setup addr len s.
    let s = with_xhci (upd_ep_ring slot 1 (\<lambda>r. fold (\<lambda>t r. xhci_ring_enqueue_trb r t) (control_trbs setup addr len) r)) s;
        s = with_xhci (xhci_ring_doorbell slot 1) s
    in case wait_loop (xfer_handle cols rows slot 1) hs s of
         (s, None) \<Rightarrow> (s, -100)
       | (s, Some e) \<Rightarrow>
           if comp_ok (evt_code e) then (s, 0)
           else (ep0_recover cols rows hs1 hs2 slot s, - int (unat (evt_code e))))"

definition usb_control_msg ::
  "nat \<Rightarrow> nat \<Rightarrow> hw list \<times> hw list \<times> hw list \<Rightarrow> u32 \<Rightarrow> u8 \<Rightarrow> u8 \<Rightarrow> u16 \<Rightarrow> u16 \<Rightarrow> u32 \<Rightarrow> u16 \<Rightarrow> usb_sys \<Rightarrow> usb_sys \<times> int" where
  "usb_control_msg cols rows hss dev req_type request value index addr len s =
    xhci_control_transfer cols rows hss (dev_slot s dev)
      \<lparr> bmRequestType = req_type, bRequest = request, wValue = value, wIndex = index, wLength = len \<rparr> addr len s"

definition usb_get_descriptor ::
  "nat \<Rightarrow> nat \<Rightarrow> hw list \<times> hw list \<times> hw list \<Rightarrow> u32 \<Rightarrow> u8 \<Rightarrow> u8 \<Rightarrow> u32 \<Rightarrow> u16 \<Rightarrow> usb_sys \<Rightarrow> usb_sys \<times> int" where
  "usb_get_descriptor cols rows hss dev desc_type desc_index addr len s =
    usb_control_msg cols rows hss dev 0x80 6 (push_bit 8 (ucast desc_type) OR ucast desc_index) 0 addr len s"

definition usb_set_configuration :: "nat \<Rightarrow> nat \<Rightarrow> hw list \<times> hw list \<times> hw list \<Rightarrow> u32 \<Rightarrow> u8 \<Rightarrow> usb_sys \<Rightarrow> usb_sys \<times> int" where
  "usb_set_configuration cols rows hss dev config_val s = usb_control_msg cols rows hss dev 0 9 (ucast config_val) 0 0 0 s"

definition usb_clear_feature_endpoint_halt ::
  "nat \<Rightarrow> nat \<Rightarrow> hw list \<times> hw list \<times> hw list \<Rightarrow> u32 \<Rightarrow> u8 \<Rightarrow> usb_sys \<Rightarrow> usb_sys \<times> int" where
  "usb_clear_feature_endpoint_halt cols rows hss dev ep_addr s = usb_control_msg cols rows hss dev 2 1 0 (ucast ep_addr) 0 0 s"

section \<open>Bulk transfers and recovery\<close>

definition bulk_result :: "u32 \<Rightarrow> xhci_trb \<Rightarrow> int" where
  "bulk_result len e = (if comp_ok (evt_code e) then sint (len - TRB_GET_REMAINDER (status e)) else - int (unat (evt_code e)))"

definition xhci_bulk_transfer ::
  "nat \<Rightarrow> nat \<Rightarrow> hw list \<Rightarrow> u8 \<Rightarrow> u8 \<Rightarrow> u32 \<Rightarrow> u32 \<Rightarrow> bool \<Rightarrow> usb_sys \<Rightarrow> usb_sys \<times> int" where
  "xhci_bulk_transfer cols rows hs slot ep addr len dir_in s =
    (let s = with_xhci (upd_ep_ring slot ep (\<lambda>r. xhci_ring_enqueue_trb r (normal_trb addr len dir_in))) s;
         s = with_xhci (xhci_ring_doorbell slot ep) s
     in case wait_loop (xfer_handle cols rows slot ep) hs s of
          (s, None) \<Rightarrow> (s, -100)
        | (s, Some e) \<Rightarrow> (s, bulk_result len e))"

definition xhci_interrupt_transfer :: "nat \<Rightarrow> nat \<Rightarrow> hw list \<Rightarrow> u8 \<Rightarrow> u8 \<Rightarrow> u32 \<Rightarrow> u32 \<Rightarrow> usb_sys \<Rightarrow> usb_sys \<times> int" where
  "xhci_interrupt_transfer cols rows hs slot ep addr len s = xhci_bulk_transfer cols rows hs slot ep addr len True s"

definition xhci_clear_endpoint_stall ::
  "nat \<Rightarrow> nat \<Rightarrow> hw list \<Rightarrow> hw list \<Rightarrow> hw list \<times> hw list \<times> hw list \<Rightarrow> u8 \<Rightarrow> u8 \<Rightarrow> u8 \<Rightarrow> usb_sys \<Rightarrow> usb_sys \<times> int" where
  "xhci_clear_endpoint_stall cols rows hs1 hs2 hss slot ep ep_addr s =
    (if slot > XHCI_MAX_SLOTS \<or> ep \<ge> 32 then (s, -1)
     else
       (let s = fst (xhci_cmd_reset_ep cols rows hs1 slot ep s);
            r = ep_rings (xhci s) slot ep;
            s = fst (xhci_cmd_set_tr_dequeue cols rows hs2 slot ep (phys_addr r + of_nat (dequeue_idx r * 16)) (cycle r) s);
            dev = slot_usb_dev s slot
        in (if dev \<noteq> 0 then fst (usb_clear_feature_endpoint_halt cols rows hss dev ep_addr s) else s, 0)))"

definition xhci_reset_ep_ring :: "nat \<Rightarrow> nat \<Rightarrow> hw list \<Rightarrow> u32 \<Rightarrow> u8 \<Rightarrow> u8 \<Rightarrow> usb_sys \<Rightarrow> usb_sys" where
  "xhci_reset_ep_ring cols rows hs km slot ep s =
    (if slot = 0 \<or> ep = 0 then s
     else
       (let s = with_xhci (xhci_init_ep_ring km slot ep) s
        in fst (xhci_cmd_set_tr_dequeue cols rows hs slot ep (phys_addr (ep_rings (xhci s) slot ep)) True s)))"

section \<open>Polling\<close>

text \<open>A transfer event moves the driver's idea of the controller's index to the block that was completed.\<close>

definition note_dequeue :: "xhci_trb \<Rightarrow> usb_sys \<Rightarrow> usb_sys" where
  "note_dequeue e s =
    (if 0 < evt_slot e \<and> evt_slot e \<le> XHCI_MAX_SLOTS \<and> evt_ep e < 32 then
       with_xhci (upd_ep_ring (evt_slot e) (evt_ep e) (\<lambda>r.
         if phys_addr r \<noteq> 0 \<and> phys_addr r \<le> parameter_lo e \<and> parameter_lo e < phys_addr r + of_nat (ring_size r * 16)
         then r \<lparr> dequeue_idx := unat ((parameter_lo e - phys_addr r) div 16) \<rparr> else r)) s
     else s)"

text \<open>What happens at a port is the argument \<open>port_change\<close>: it goes through the registers of the port and
  the enumeration of devices.\<close>

definition poll_handle :: "nat \<Rightarrow> nat \<Rightarrow> (u8 \<Rightarrow> usb_sys \<Rightarrow> usb_sys) \<Rightarrow> xhci_trb \<Rightarrow> usb_sys \<Rightarrow> usb_sys" where
  "poll_handle cols rows port_change e s =
    (if evt_type e = TRB_TYPE_TRANSFER_EVENT
     then usb_hid_on_transfer_complete cols rows (evt_slot e) (evt_ep e) (note_dequeue e s)
     else if evt_type e = TRB_TYPE_PORT_STATUS_CHANGE then port_change (ucast (drop_bit 24 (parameter_lo e))) s
     else s)"

text \<open>The controller's \<open>n\<close>-th turn is \<open>h n\<close>.\<close>

partial_function (option) xhci_poll_loop ::
  "nat \<Rightarrow> nat \<Rightarrow> (u8 \<Rightarrow> usb_sys \<Rightarrow> usb_sys) \<Rightarrow> (nat \<Rightarrow> hw) \<Rightarrow> nat \<Rightarrow> usb_sys \<Rightarrow> usb_sys option" where
  "xhci_poll_loop cols rows port_change h n s =
    (let (s, evt) = poll (h n s)
     in case evt of
          None \<Rightarrow> Some s
        | Some e \<Rightarrow> xhci_poll_loop cols rows port_change h (Suc n) (poll_handle cols rows port_change e s))"

definition xhci_poll :: "nat \<Rightarrow> nat \<Rightarrow> (u8 \<Rightarrow> usb_sys \<Rightarrow> usb_sys) \<Rightarrow> (nat \<Rightarrow> hw) \<Rightarrow> usb_sys \<Rightarrow> usb_sys option" where
  "xhci_poll cols rows port_change h s = xhci_poll_loop cols rows port_change h 0 s"

section \<open>Binding keyboards and mice\<close>

record usb_interface =
  interface_number :: u8
  alternate_setting :: u8
  interface_class :: u8
  interface_subclass :: u8
  interface_protocol :: u8
  endpoints :: "usb_endpoint list"

definition interrupt_in :: "usb_endpoint \<Rightarrow> bool" where
  "interrupt_in e \<longleftrightarrow> ep_address e AND 0x80 \<noteq> 0 \<and> ep_attributes e AND 0x03 = 0x03"

definition bind_kbd :: "u32 \<Rightarrow> usb_endpoint \<Rightarrow> usb_sys \<Rightarrow> usb_sys" where
  "bind_kbd dev e s =
    (if kbd_count s < MAX_HID_KBDS then
       (let i = kbd_count s
        in submit_kbd_transfer i (s \<lparr> kbd_count := i + 1, kbds := (kbds s)[i := zero_kbd \<lparr> k_dev := dev, k_in_dci := ep_dci e,
             k_ep_addr := ep_address e, k_max_packet := ep_max_packet_size e, k_interval := ep_interval e, k_active := True \<rparr>] \<rparr>))
     else s)"

definition bind_mouse :: "nat \<Rightarrow> nat \<Rightarrow> u32 \<Rightarrow> usb_endpoint \<Rightarrow> usb_sys \<Rightarrow> usb_sys" where
  "bind_mouse cols rows dev e s =
    (if mouse_count s < MAX_HID_MICE then
       (let i = mouse_count s
        in submit_mouse_transfer i (s \<lparr> mouse_count := i + 1, mice := (mice s)[i := zero_mouse \<lparr> h_dev := dev, h_in_dci := ep_dci e,
             h_ep_addr := ep_address e, h_max_packet := ep_max_packet_size e, h_interval := ep_interval e,
             h_x := int (cols div 2), h_y := int (rows div 2), h_active := True \<rparr>] \<rparr>))
     else s)"

text \<open>Two requests whose answers do not matter, then the first interrupt endpoint into the controller.\<close>

definition usb_hid_init_device ::
  "nat \<Rightarrow> nat \<Rightarrow> hw list \<times> hw list \<times> hw list \<Rightarrow> hw list \<times> hw list \<times> hw list \<Rightarrow> u32 \<Rightarrow> usb_interface \<Rightarrow> usb_sys \<Rightarrow> usb_sys \<times> int" where
  "usb_hid_init_device cols rows hss1 hss2 dev iface s =
    (let s = fst (usb_control_msg cols rows hss1 dev 0x21 0x0A 0 (ucast (interface_number iface)) 0 0 s);
         s = fst (usb_control_msg cols rows hss2 dev 0x21 0x0B 0 (ucast (interface_number iface)) 0 0 s)
     in case find interrupt_in (endpoints iface) of
          None \<Rightarrow> (s, -1)
        | Some e \<Rightarrow>
            if interface_protocol iface = 1 then (bind_kbd dev e s, 0)
            else if interface_protocol iface = 2 then (bind_mouse cols rows dev e s, 0)
            else (s, 0))"

end
