(* ===== verification/Xhci_Props.thy ===== *)
theory Xhci_Props
  imports Xhci_Rings Xhci_Transfer Keyboard_Props "HOL-Library.Sublist"
begin

text \<open>
  What the host controller driver guarantees: requests reach the controller in order and events reach the
  driver in order; a transfer ends with the answer to its own endpoint; polling ends; a keyboard always
  has a request waiting.
\<close>

section \<open>Rings\<close>

definition fresh_ring :: "u32 \<Rightarrow> nat \<Rightarrow> xhci_ring \<Rightarrow> xhci_ring" where
  "fresh_ring km n r = ring_setup_link_trb (ring_init km r n)"

lemma ring_size_fresh: "ring_size (fresh_ring km n r) = n"
  by (simp add: fresh_ring_def ring_setup_link_trb_def ring_init_def)

text \<open>C9. Requests arrive at the controller in order: from a fresh ring of any size, however the driver's
  stores and the controller's reads alternate, as long as the driver never has more than all slots but
  one outstanding, the controller takes the requests in the order of the calls, none twice, over any
  number of laps and cycle changes, and stops only when it has taken all. This holds for transfer rings
  and for the command ring.\<close>

theorem xhci_rings_fifo:
  assumes "2 \<le> n" "\<forall>t \<in> set (sent ops). request t" "chan_fits (n - 1) 0 ops"
    "send = ring_send \<or> send = cmd_send"
  shows "\<exists>s taken waiting. chan_run send ring_recv (fresh_ring km n r, 0, True) ops = (s, taken)
    \<and> taken @ waiting = sent ops \<and> (snd (ring_recv s) = None \<longleftrightarrow> taken = sent ops)"
proof -
  let ?s = "(fresh_ring km n r, 0, True)"
  have q: "hc_ring (fst ?s) (snd ?s) []" using ring_init_ok [OF assms(1)] by (simp add: fresh_ring_def)
  have "\<exists>s taken waiting. chan_run send ring_recv ?s ops = (s, taken) \<and> hc_ring (fst s) (snd s) waiting
      \<and> taken @ waiting = [] @ sent ops"
    using assms(4) transfer_ring.run_fifo [OF q assms(2)] command_ring.run_fifo [OF q assms(2)] assms(3)
    by (auto simp: ring_size_fresh)
  then obtain s taken waiting where r: "chan_run send ring_recv ?s ops = (s, taken)" "hc_ring (fst s) (snd s) waiting"
    "taken @ waiting = sent ops" by auto
  have "snd (ring_recv s) = None \<longleftrightarrow> waiting = []" using r(2) by (rule transfer_ring.idle_iff)
  then have "snd (ring_recv s) = None \<longleftrightarrow> taken = sent ops" using r(3) by auto
  then show ?thesis using r by (intro exI [of _ s] exI [of _ taken] exI [of _ waiting]) simp
qed

definition demo_ring :: xhci_ring where
  "demo_ring = \<lparr> trbs = [], phys_addr = 0x2000, ring_size = 0, enqueue_idx = 0, dequeue_idx = 0, cycle = False \<rparr>"

theorem xhci_rings_fifo_witness:
  "\<exists>s taken waiting. chan_run ring_send ring_recv (fresh_ring 0x1000 3 demo_ring, 0, True)
      [Send (normal_trb 1 8 True), Send (normal_trb 2 8 True), Recv, Send (normal_trb 3 8 True)] = (s, taken)
    \<and> taken @ waiting = [normal_trb 1 8 True, normal_trb 2 8 True, normal_trb 3 8 True]"
proof -
  have "request (normal_trb a 8 True)" for a
    by (simp add: request_def is_link_def trb_cyc_def normal_trb_def TRB_GET_TYPE_def TRB_SET_TYPE_def TRB_TYPE_NORMAL_def
        TRB_TYPE_LINK_def TRB_IOC_def TRB_ISP_def TRB_CYCLE_def)
  then show ?thesis
    using xhci_rings_fifo [of 3 "[Send (normal_trb 1 8 True), Send (normal_trb 2 8 True), Recv, Send (normal_trb 3 8 True)]"
        ring_send "0x1000" demo_ring] by force
qed

text \<open>Events arrive at the driver in order: whatever queue of events the ring holds, however the
  controller's posts and the driver's looks alternate, as long as no more events wait than the ring has
  slots, \<open>xhci_poll_event\<close> returns each event once, in the order of the posts, and reports that there is
  none only when all were returned.\<close>

theorem xhci_events_fifo:
  assumes "evt_queue ctrl hc q" "\<forall>t \<in> set (sent ops). \<not> trb_cyc t" "chan_fits (ring_size (evt_ring ctrl)) (length q) ops"
  shows "\<exists>s got waiting. chan_run hc_post evt_recv (ctrl, hc) ops = (s, got) \<and> evt_queue (fst s) (snd s) waiting
    \<and> got @ waiting = q @ sent ops \<and> (snd (xhci_poll_event (fst s)) = None \<longleftrightarrow> got = q @ sent ops)"
proof -
  obtain s got waiting where r: "chan_run hc_post evt_recv (ctrl, hc) ops = (s, got)" "evt_queue (fst s) (snd s) waiting"
    "got @ waiting = q @ sent ops"
    using event_ring.run_fifo [of "(ctrl, hc)" q ops] assms by auto
  have "snd (evt_recv s) = None \<longleftrightarrow> snd (xhci_poll_event (fst s)) = None"
    by (simp add: evt_recv_def case_prod_unfold Let_def)
  then have "snd (xhci_poll_event (fst s)) = None \<longleftrightarrow> waiting = []"
    using event_ring.idle_iff [of s waiting] r(2) by simp
  then have "snd (xhci_poll_event (fst s)) = None \<longleftrightarrow> got = q @ sent ops" using r(3) by auto
  then show ?thesis using r by (intro exI [of _ s] exI [of _ got] exI [of _ waiting]) simp
qed

lemma evt_queue_init:
  assumes "1 \<le> n" "evt_ring ctrl = ring_init km r n" "evt_cycle ctrl"
  shows "evt_queue ctrl (0, True) []"
proof -
  have "evt_ring_at ctrl (0, True) [] 0 0"
    using assms by (auto simp: evt_ring_at_def ring_init_def holds_def intro!: laps_init)
  then show ?thesis by (auto simp: evt_queue_def)
qed

definition demo_ctrl :: xhci_controller where
  "demo_ctrl = \<lparr> rt_base = 0x9000, db_base = 0x8000, cmd_ring = fresh_ring 0x3000 4 demo_ring, evt_ring = ring_init 0 demo_ring 3,
     evt_cycle = True, ep_rings = (\<lambda>_ _. fresh_ring 0x4000 4 demo_ring), mmio_log = [] \<rparr>"

definition xfer_event :: "u8 \<Rightarrow> u8 \<Rightarrow> u8 \<Rightarrow> u32 \<Rightarrow> xhci_trb" where
  "xfer_event slot ep code remainder = \<lparr> parameter_lo = 0, parameter_hi = 0, status = push_bit 24 (ucast code) OR remainder,
     control = TRB_SET_TYPE TRB_TYPE_TRANSFER_EVENT OR TRB_SLOT_ID slot OR ep_field ep \<rparr>"

lemma demo_queue: "evt_queue demo_ctrl (0, True) []"
  by (rule evt_queue_init [of 3 _ 0 demo_ring]) (simp_all add: demo_ctrl_def)

lemma demo_size: "ring_size (evt_ring demo_ctrl) = 3"
  by (simp add: demo_ctrl_def ring_init_def)

theorem xhci_events_fifo_witness:
  "\<exists>s got waiting. chan_run hc_post evt_recv (demo_ctrl, 0, True)
     [Send (xfer_event 1 3 1 0), Recv, Recv, Send (xfer_event 2 3 1 0)] = (s, got)
   \<and> got @ waiting = [xfer_event 1 3 1 0, xfer_event 2 3 1 0]"
proof -
  have "\<not> trb_cyc (xfer_event 1 3 1 0)" "\<not> trb_cyc (xfer_event 2 3 1 0)" by (simp_all add: trb_cyc_def, code_simp, code_simp)
  then show ?thesis
    using xhci_events_fifo [OF demo_queue, of "[Send (xfer_event 1 3 1 0), Recv, Recv, Send (xfer_event 2 3 1 0)]"]
    by (auto simp: demo_ctrl_def ring_init_def)
qed


section \<open>Answers\<close>

text \<open>A controller that posts the events of one list in each of its turns.\<close>

definition post_pos :: "nat \<Rightarrow> nat \<times> bool \<Rightarrow> nat \<times> bool" where
  "post_pos n = (\<lambda>(i, c). if i + 1 = n then (0, \<not> c) else (i + 1, c))"

definition post_all :: "xhci_trb list \<Rightarrow> nat \<times> bool \<Rightarrow> xhci_controller \<Rightarrow> xhci_controller" where
  "post_all evs hc ctrl = fst (fold (\<lambda>t x. hc_post x t) evs (ctrl, hc))"

primrec hw_posts :: "nat \<Rightarrow> nat \<times> bool \<Rightarrow> xhci_trb list list \<Rightarrow> hw list" where
  "hw_posts n hc [] = []"
| "hw_posts n hc (evs # evss) = with_xhci (post_all evs hc) # hw_posts n ((post_pos n ^^ length evs) hc) evss"

lemma hc_post_frame [simp]: "ring_size (evt_ring (fst (hc_post x t))) = ring_size (evt_ring (fst x))"
  "ep_rings (fst (hc_post x t)) = ep_rings (fst x)"
  by (simp_all add: hc_post_def case_prod_unfold)

lemma post_fold:
  assumes "evt_queue ctrl hc q" "length q + length evs \<le> ring_size (evt_ring ctrl)" "\<forall>t \<in> set evs. \<not> trb_cyc t"
  shows "fold (\<lambda>t x. hc_post x t) evs (ctrl, hc) = (post_all evs hc ctrl, (post_pos (ring_size (evt_ring ctrl)) ^^ length evs) hc)
    \<and> evt_queue (post_all evs hc ctrl) ((post_pos (ring_size (evt_ring ctrl)) ^^ length evs) hc) (q @ evs)
    \<and> ring_size (evt_ring (post_all evs hc ctrl)) = ring_size (evt_ring ctrl)
    \<and> ep_rings (post_all evs hc ctrl) = ep_rings ctrl"
  using assms
proof (induction evs arbitrary: ctrl hc q)
  case (Cons t evs)
  obtain ctrl' hc' where p: "hc_post (ctrl, hc) t = (ctrl', hc')" by (cases "hc_post (ctrl, hc) t")
  have hc': "hc' = post_pos (ring_size (evt_ring ctrl)) hc"
    using p by (auto simp: hc_post_def post_pos_def case_prod_unfold)
  have f: "ring_size (evt_ring ctrl') = ring_size (evt_ring ctrl)" "ep_rings ctrl' = ep_rings ctrl"
    using hc_post_frame [of "(ctrl, hc)" t] p by simp_all
  have "evt_queue ctrl' hc' (q @ [t])"
    using post_ok [OF Cons.prems(1), of t] Cons.prems(2,3) p by (simp add: strip_request)
  from Cons.IH [OF this] show ?case
    using Cons.prems(2,3) f by (simp add: post_all_def p hc' funpow_Suc_right del: funpow.simps)
qed (simp add: post_all_def)

text \<open>The driver for keyboards and mice leaves the event ring alone.\<close>

lemma submit_frame:
  "evt_ring (xhci (submit_kbd_transfer i s)) = evt_ring (xhci s)" "evt_cycle (xhci (submit_kbd_transfer i s)) = evt_cycle (xhci s)"
  "evt_ring (xhci (submit_mouse_transfer i s)) = evt_ring (xhci s)" "evt_cycle (xhci (submit_mouse_transfer i s)) = evt_cycle (xhci s)"
  by (simp_all add: submit_kbd_transfer_def submit_mouse_transfer_def with_xhci_def xhci_submit_async_trb_def upd_ep_ring_def
      xhci_ring_doorbell_def mmio_def Let_def)

lemma complete_frame:
  "evt_ring (xhci (usb_hid_on_transfer_complete cols rows slot ep s)) = evt_ring (xhci s)"
  "evt_cycle (xhci (usb_hid_on_transfer_complete cols rows slot ep s)) = evt_cycle (xhci s)"
  by (simp_all add: usb_hid_on_transfer_complete_def kbd_complete_def mouse_complete_def submit_frame case_prod_unfold Let_def split: option.split)

lemma evt_queue_cong:
  "evt_ring x = evt_ring y \<Longrightarrow> evt_cycle x = evt_cycle y \<Longrightarrow> evt_queue x hc q = evt_queue y hc q"
  by (simp add: evt_queue_def evt_ring_at_def)

lemma xfer_frame:
  "evt_queue (xhci (fst (xfer_handle cols rows slot ep e s))) hc q = evt_queue (xhci s) hc q"
  "ring_size (evt_ring (xhci (fst (xfer_handle cols rows slot ep e s)))) = ring_size (evt_ring (xhci s))"
  by (auto simp: xfer_handle_def complete_frame intro!: evt_queue_cong)

definition answers :: "u8 \<Rightarrow> u8 \<Rightarrow> xhci_trb \<Rightarrow> bool" where
  "answers slot ep e \<longleftrightarrow> evt_type e = TRB_TYPE_TRANSFER_EVENT \<and> evt_slot e = slot \<and> evt_ep e = ep"

lemma poll_ok:
  assumes "evt_queue (xhci s) hc q"
  shows "\<exists>s' e. poll s = (s', if q = [] then None else Some e) \<and> (q \<noteq> [] \<longrightarrow> strip_cycle e = hd q)
    \<and> evt_queue (xhci s') hc (tl q) \<and> ring_size (evt_ring (xhci s')) = ring_size (evt_ring (xhci s))
    \<and> ep_rings (xhci s') = ep_rings (xhci s)"
  using poll_event_ok [OF assms] assms
  by (cases "xhci_poll_event (xhci s)"; cases "snd (xhci_poll_event (xhci s))") (auto simp: poll_def Let_def)

lemma high_bits_strip: "0 < n \<Longrightarrow> drop_bit n (x AND NOT TRB_CYCLE) = drop_bit n x"
  by (rule bit_word_eqI) (auto simp: bit_simps bit_TRB_CYCLE dest: bit_imp_le_length)

lemma evt_strip:
  "evt_type (strip_cycle e) = evt_type e" "evt_slot (strip_cycle e) = evt_slot e" "evt_ep (strip_cycle e) = evt_ep e"
  "status (strip_cycle e) = status e" "parameter_lo (strip_cycle e) = parameter_lo e"
proof -
  have "control (strip_cycle e) = control e AND NOT TRB_CYCLE" by (simp add: strip_cycle_def)
  moreover have "drop_bit 10 (x AND NOT TRB_CYCLE) = drop_bit 10 x" "drop_bit 16 (x AND NOT TRB_CYCLE) = drop_bit 16 x"
    "drop_bit 24 (x AND NOT TRB_CYCLE) = drop_bit 24 x" for x
    by (rule high_bits_strip, simp)+
  ultimately show "evt_type (strip_cycle e) = evt_type e" "evt_slot (strip_cycle e) = evt_slot e" "evt_ep (strip_cycle e) = evt_ep e"
    by (simp_all only: evt_type_def evt_slot_def evt_ep_def TRB_GET_TYPE_def TRB_GET_SLOT_ID_def TRB_GET_EP_ID_def)
qed (simp_all add: strip_cycle_def)


lemma xfer_other:
  assumes "\<not> answers slot ep (strip_cycle e)"
  shows "snd (xfer_handle cols rows slot ep e s) = None"
  using assms by (auto simp: xfer_handle_def answers_def evt_strip)

text \<open>One look: the queue and the turns of the controller go on.\<close>

lemma look_ok:
  assumes "evt_queue (xhci s) hc q" "n = ring_size (evt_ring (xhci s))" "length q + length evs \<le> n" "\<forall>t \<in> set evs. \<not> trb_cyc t"
  shows "\<exists>s' e. poll (with_xhci (post_all evs hc) s) = (s', if q @ evs = [] then None else Some e)
    \<and> (q @ evs \<noteq> [] \<longrightarrow> strip_cycle e = hd (q @ evs)) \<and> evt_queue (xhci s') ((post_pos n ^^ length evs) hc) (tl (q @ evs))
    \<and> n = ring_size (evt_ring (xhci s'))"
proof -
  have "evt_queue (xhci (with_xhci (post_all evs hc) s)) ((post_pos n ^^ length evs) hc) (q @ evs)"
    "ring_size (evt_ring (xhci (with_xhci (post_all evs hc) s))) = n"
    using post_fold [OF assms(1), of evs] assms(2-4) by (simp_all add: with_xhci_def)
  then show ?thesis using poll_ok by metis
qed

lemma wait_answer:
  assumes "evt_queue (xhci s) hc q" "n = ring_size (evt_ring (xhci s))" "length q + length (concat evss) \<le> n"
    "\<forall>evs \<in> set evss. \<forall>t \<in> set evs. \<not> trb_cyc t"
    "q @ concat evss = pre @ e # post" "\<forall>x \<in> set pre. \<not> answers slot ep x" "answers slot ep e"
    "length pre < length q + length (concat (take t evss))" "t + length pre < length evss"
  shows "\<exists>s' e'. wait_loop (xfer_handle cols rows slot ep) (hw_posts n hc evss) s = (s', Some e') \<and> strip_cycle e' = e"
  using assms
proof (induction evss arbitrary: s hc q pre t)
  case (Cons evs evss)
  let ?hc = "(post_pos n ^^ length evs) hc" and ?h = "xfer_handle cols rows slot ep"
  obtain s1 x where l: "poll (with_xhci (post_all evs hc) s) = (s1, if q @ evs = [] then None else Some x)"
    "q @ evs \<noteq> [] \<longrightarrow> strip_cycle x = hd (q @ evs)" "evt_queue (xhci s1) ?hc (tl (q @ evs))" "n = ring_size (evt_ring (xhci s1))"
    using look_ok [OF Cons.prems(1,2), of evs] Cons.prems(3,4) by auto
  note IH = Cons.IH and prems = Cons.prems
  show ?case
  proof (cases "q @ evs")
    case Nil
    then obtain t' where "t = Suc t'" using prems(8) by (cases t) auto
    then have "\<exists>s' e'. wait_loop ?h (hw_posts n ?hc evss) s1 = (s', Some e') \<and> strip_cycle e' = e"
      using Nil prems l(3,4) by (intro IH [of s1 ?hc "[]" pre t']) auto
    then show ?thesis using l(1) Nil by simp
  next
    case qe: (Cons y ys)
    have x: "strip_cycle x = y" using l(2) qe by simp
    have all: "y # ys @ concat evss = pre @ e # post" using prems(5) qe by (metis append_Cons append_assoc concat.simps(2))
    obtain s2 r where h: "?h x s1 = (s2, r)" by fastforce
    show ?thesis
    proof (cases pre)
      case Nil
      then have "r = Some x" using all prems(7) x h by (auto simp: xfer_handle_def answers_def evt_strip split: if_splits)
      then show ?thesis using l(1) qe x h Nil all by simp
    next
      case pre: (Cons z pre')
      have "r = None" using xfer_other [of slot ep x cols rows s1] x h prems(6) pre all by auto
      have "length q + length evs = Suc (length ys)" using qe by (metis length_Cons length_append)
      then have "length ys + length (concat evss) \<le> n" "length pre' < length ys + length (concat (take (t - 1) evss))"
        "t - 1 + length pre' < length evss"
        using prems(3,8,9) pre by (cases t; simp)+
      moreover have "evt_queue (xhci s2) ?hc ys" "n = ring_size (evt_ring (xhci s2))"
        using xfer_frame [of cols rows slot ep x s1] h l(3,4) qe by simp_all
      ultimately have "\<exists>s' e'. wait_loop ?h (hw_posts n ?hc evss) s2 = (s', Some e') \<and> strip_cycle e' = e"
        using prems(4,6,7) all pre by (intro IH [of s2 ?hc ys pre' "t - 1"]) auto
      then show ?thesis using l(1) qe h \<open>r = None\<close> by simp
    qed
  qed
qed simp

lemma wait_timeout:
  assumes "evt_queue (xhci s) hc q" "n = ring_size (evt_ring (xhci s))" "length q + length (concat evss) \<le> n"
    "\<forall>evs \<in> set evss. \<forall>t \<in> set evs. \<not> trb_cyc t" "\<forall>x \<in> set (q @ concat evss). \<not> answers slot ep x"
  shows "\<exists>s'. wait_loop (xfer_handle cols rows slot ep) (hw_posts n hc evss) s = (s', None)"
  using assms
proof (induction evss arbitrary: s hc q)
  case (Cons evs evss)
  let ?hc = "(post_pos n ^^ length evs) hc" and ?h = "xfer_handle cols rows slot ep"
  obtain s1 x where l: "poll (with_xhci (post_all evs hc) s) = (s1, if q @ evs = [] then None else Some x)"
    "q @ evs \<noteq> [] \<longrightarrow> strip_cycle x = hd (q @ evs)" "evt_queue (xhci s1) ?hc (tl (q @ evs))" "n = ring_size (evt_ring (xhci s1))"
    using look_ok [OF Cons.prems(1,2), of evs] Cons.prems(3,4) by auto
  note IH = Cons.IH and prems = Cons.prems
  show ?case
  proof (cases "q @ evs")
    case Nil
    then have "\<exists>s'. wait_loop ?h (hw_posts n ?hc evss) s1 = (s', None)"
      using prems l(3,4) by (intro IH [of s1 ?hc "[]"]) auto
    then show ?thesis using l(1) Nil by simp
  next
    case qe: (Cons y ys)
    obtain s2 r where h: "?h x s1 = (s2, r)" by fastforce
    have "y \<in> set (q @ evs)" by (simp only: qe list.set_intros)
    then have "\<not> answers slot ep y" using prems(5) by auto
    then have "r = None" using xfer_other [of slot ep x cols rows s1] l(2) qe h by simp
    have "length q + length evs = Suc (length ys)" "set ys \<subseteq> set (q @ evs)"
      using arg_cong [OF qe, of length] by (simp, simp only: qe set_subset_Cons)
    moreover have "evt_queue (xhci s2) ?hc ys" "n = ring_size (evt_ring (xhci s2))"
      using xfer_frame [of cols rows slot ep x s1] h l(3,4) qe by simp_all
    ultimately have "\<exists>s'. wait_loop ?h (hw_posts n ?hc evss) s2 = (s', None)"
      using prems(3-5) by (intro IH [of s2 ?hc ys]) auto
    then show ?thesis using l(1) qe h \<open>r = None\<close> by simp
  qed
qed simp


text \<open>C10. A transfer ends with the answer to its own endpoint: while a controller posts events, those
  that wait already and those of each of its turns, the first transfer event for the slot and endpoint
  decides the result if the driver looks often enough: the bytes moved or minus the completion code for
  a bulk transfer, 0 or minus the code for a control transfer. If no such event comes, both time out.\<close>

theorem xhci_transfer_answer:
  assumes "evt_queue (xhci s) hc q" "n = ring_size (evt_ring (xhci s))" "length q + length (concat evss) \<le> n"
    "\<forall>evs \<in> set evss. \<forall>t \<in> set evs. \<not> trb_cyc t"
  shows "let bulk = snd (xhci_bulk_transfer cols rows (hw_posts n hc evss) slot ep addr len dir_in s);
      ctl = snd (xhci_control_transfer cols rows (hw_posts n hc evss, hs1, hs2) slot setup addr clen s)
    in (\<forall>pre e post t. q @ concat evss = pre @ e # post \<and> (\<forall>x \<in> set pre. \<not> answers slot ep x) \<and> answers slot ep e
          \<and> length pre < length q + length (concat (take t evss)) \<and> t + length pre < length evss
        \<longrightarrow> bulk = bulk_result len e \<and> (ep = 1 \<longrightarrow> ctl = (if comp_ok (evt_code e) then 0 else - int (unat (evt_code e)))))
      \<and> ((\<forall>x \<in> set (q @ concat evss). \<not> answers slot ep x) \<longrightarrow> bulk = -100 \<and> (ep = 1 \<longrightarrow> ctl = -100))"
proof -
  define sb where "sb = with_xhci (xhci_ring_doorbell slot ep)
    (with_xhci (upd_ep_ring slot ep (\<lambda>r. xhci_ring_enqueue_trb r (normal_trb addr len dir_in))) s)"
  define sc where "sc = with_xhci (xhci_ring_doorbell slot 1)
    (with_xhci (upd_ep_ring slot 1 (\<lambda>r. fold (\<lambda>t r. xhci_ring_enqueue_trb r t) (control_trbs setup addr clen) r)) s)"
  have b: "evt_queue (xhci sb) hc q" "n = ring_size (evt_ring (xhci sb))"
    and c: "evt_queue (xhci sc) hc q" "n = ring_size (evt_ring (xhci sc))"
    using assms(1,2) by (simp_all add: sb_def sc_def with_xhci_def xhci_ring_doorbell_def mmio_def upd_ep_ring_def evt_queue_def evt_ring_at_def)
  have bulk: "snd (xhci_bulk_transfer cols rows (hw_posts n hc evss) slot ep addr len dir_in s)
      = (case snd (wait_loop (xfer_handle cols rows slot ep) (hw_posts n hc evss) sb) of None \<Rightarrow> -100 | Some e \<Rightarrow> bulk_result len e)"
    by (simp add: xhci_bulk_transfer_def sb_def Let_def case_prod_unfold split: option.split)
  have ctl: "snd (xhci_control_transfer cols rows (hw_posts n hc evss, hs1, hs2) slot setup addr clen s)
      = (case snd (wait_loop (xfer_handle cols rows slot 1) (hw_posts n hc evss) sc) of None \<Rightarrow> -100
         | Some e \<Rightarrow> if comp_ok (evt_code e) then 0 else - int (unat (evt_code e)))"
    by (simp add: xhci_control_transfer_def sc_def Let_def case_prod_unfold split: option.split)
  have st: "evt_code e' = evt_code (strip_cycle e')" "bulk_result len e' = bulk_result len (strip_cycle e')" for e'
    by (simp_all add: evt_code_def bulk_result_def evt_strip)
  have ok: "(case snd (wait_loop (xfer_handle cols rows slot ep) (hw_posts n hc evss) sb) of None \<Rightarrow> -100 | Some e \<Rightarrow> bulk_result len e) = bulk_result len e
      \<and> (ep = 1 \<longrightarrow> (case snd (wait_loop (xfer_handle cols rows slot 1) (hw_posts n hc evss) sc) of None \<Rightarrow> -100
           | Some e \<Rightarrow> if comp_ok (evt_code e) then 0 else - int (unat (evt_code e))) = (if comp_ok (evt_code e) then 0 else - int (unat (evt_code e))))"
    if w: "q @ concat evss = pre @ e # post" "\<forall>x \<in> set pre. \<not> answers slot ep x" "answers slot ep e"
      "length pre < length q + length (concat (take t evss))" "t + length pre < length evss" for pre e post t
  proof -
    obtain s1 e1 where "wait_loop (xfer_handle cols rows slot ep) (hw_posts n hc evss) sb = (s1, Some e1)" "strip_cycle e1 = e"
      using wait_answer [OF b assms(3,4) w] by blast
    moreover obtain s2 e2 where "wait_loop (xfer_handle cols rows slot ep) (hw_posts n hc evss) sc = (s2, Some e2)" "strip_cycle e2 = e"
      using wait_answer [OF c assms(3,4) w] by blast
    ultimately show ?thesis using st [of e1] st [of e2] by auto
  qed
  have none: "snd (wait_loop (xfer_handle cols rows slot ep) (hw_posts n hc evss) s') = None"
    if "s' = sb \<or> s' = sc" "\<forall>x \<in> set (q @ concat evss). \<not> answers slot ep x" for s'
    using that(1) wait_timeout [where cols = cols and rows = rows, OF b assms(3,4) that(2)]
      wait_timeout [where cols = cols and rows = rows, OF c assms(3,4) that(2)] by auto
  show ?thesis unfolding Let_def bulk ctl using ok none by fastforce
qed

definition demo_usb :: usb_sys where
  "demo_usb = \<lparr> xhci = demo_ctrl, kbds = replicate 4 zero_kbd, kbd_count = 0, mice = replicate 4 zero_mouse, mouse_count = 0,
     key_buf = kbd_buf_init, dev_slot = (\<lambda>_. 1), slot_usb_dev = (\<lambda>_. 0), kbd_report_at = (\<lambda>_. 0x7000), mouse_report_at = (\<lambda>_. 0x7800) \<rparr>"

theorem xhci_transfer_answer_witness:
  "snd (xhci_bulk_transfer 80 25 (hw_posts 3 (0, True) [[xfer_event 2 3 1 0], [xfer_event 1 3 13 100], [], []]) 1 3 0x5000 512 True demo_usb) = 412"
proof -
  have x: "\<not> trb_cyc (xfer_event 2 3 1 0)" "\<not> trb_cyc (xfer_event 1 3 13 100)" "\<not> answers 1 3 (xfer_event 2 3 1 0)"
    "answers 1 3 (xfer_event 1 3 13 100)" "bulk_result 512 (xfer_event 1 3 13 100) = 412"
    by (simp_all add: trb_cyc_def answers_def, code_simp+)
  let ?evss = "[[xfer_event 2 3 1 0], [xfer_event 1 3 13 100], [], []]"
  have "evt_queue (xhci demo_usb) (0, True) []" "3 = ring_size (evt_ring (xhci demo_usb))"
    "length ([] :: xhci_trb list) + length (concat ?evss) \<le> 3" "\<forall>evs \<in> set ?evss. \<forall>t \<in> set evs. \<not> trb_cyc t"
    using demo_queue demo_size x by (simp_all add: demo_usb_def)
  from xhci_transfer_answer [OF this, unfolded Let_def, THEN conjunct1, rule_format, where pre = "[xfer_event 2 3 1 0]"
      and e = "xfer_event 1 3 13 100" and post = "[]" and t = 2 and slot = 1 and ep = 3 and len = 512]
  show ?thesis using x by (simp del: hw_posts.simps)
qed


section \<open>Polling ends\<close>

text \<open>The handler of a port may take events itself, waiting for commands; what it leaves is a rest of the
  queue.\<close>

definition takes_events :: "(u8 \<Rightarrow> usb_sys \<Rightarrow> usb_sys) \<Rightarrow> bool" where
  "takes_events port_change \<longleftrightarrow> (\<forall>p s hc q. evt_queue (xhci s) hc q \<longrightarrow> (\<exists>k. evt_queue (xhci (port_change p s)) hc (drop k q)))"

lemma poll_handle_queue:
  assumes "takes_events port_change" "evt_queue (xhci s) hc q"
  shows "\<exists>k. evt_queue (xhci (poll_handle cols rows port_change e s)) hc (drop k q)
    \<and> (evt_type e \<noteq> TRB_TYPE_PORT_STATUS_CHANGE \<longrightarrow> k = 0)"
proof (cases "evt_type e = TRB_TYPE_PORT_STATUS_CHANGE")
  case True
  then have "poll_handle cols rows port_change e s = port_change (ucast (drop_bit 24 (parameter_lo e))) s"
    by (simp add: poll_handle_def TRB_TYPE_PORT_STATUS_CHANGE_def TRB_TYPE_TRANSFER_EVENT_def)
  then show ?thesis using assms True by (simp only: takes_events_def) blast
next
  case False
  have "evt_ring (xhci (note_dequeue e s)) = evt_ring (xhci s)" "evt_cycle (xhci (note_dequeue e s)) = evt_cycle (xhci s)"
    by (simp_all add: note_dequeue_def with_xhci_def upd_ep_ring_def)
  then have "evt_queue (xhci (poll_handle cols rows port_change e s)) hc q = evt_queue (xhci s) hc q"
    using False by (intro evt_queue_cong) (simp_all add: poll_handle_def complete_frame)
  then show ?thesis using assms(2) by (intro exI [of _ 0]) simp
qed

text \<open>The reference: handle a list of events in order, looking at the ring before each.\<close>

primrec handle_all :: "nat \<Rightarrow> nat \<Rightarrow> (u8 \<Rightarrow> usb_sys \<Rightarrow> usb_sys) \<Rightarrow> xhci_trb list \<Rightarrow> usb_sys \<Rightarrow> usb_sys" where
  "handle_all cols rows port_change [] s = s"
| "handle_all cols rows port_change (e # es) s =
    handle_all cols rows port_change es (poll_handle cols rows port_change e (fst (poll s)))"

lemma poll_loop_ok:
  assumes "takes_events port_change" "evt_queue (xhci s) hc q"
  shows "\<exists>s' es. xhci_poll_loop cols rows port_change (\<lambda>_ s. s) n s = Some s' \<and> subseq (map strip_cycle es) q
    \<and> ((\<forall>e \<in> set q. evt_type e \<noteq> TRB_TYPE_PORT_STATUS_CHANGE) \<longrightarrow> map strip_cycle es = q)
    \<and> s' = handle_all cols rows port_change es s \<and> evt_queue (xhci s') hc []"
  using assms(2)
proof (induction q arbitrary: s n rule: length_induct)
  case (1 q)
  show ?case
  proof (cases q)
    case Nil
    then have q: "evt_queue (xhci s) hc []" using 1(2) by simp
    have "poll s = (s, None)" using poll_event_ok [OF q]
      by (cases "xhci_poll_event (xhci s)"; cases "snd (xhci_poll_event (xhci s))") (auto simp: poll_def)
    then show ?thesis using q Nil by (subst xhci_poll_loop.simps) simp
  next
    case (Cons e q')
    obtain s1 x where p: "poll s = (s1, Some x)" "strip_cycle x = e" "evt_queue (xhci s1) hc q'"
      using poll_ok [OF 1(2)] Cons by auto
    let ?s = "poll_handle cols rows port_change x s1"
    obtain k where k: "evt_queue (xhci ?s) hc (drop k q')" "evt_type x \<noteq> TRB_TYPE_PORT_STATUS_CHANGE \<longrightarrow> k = 0"
      using poll_handle_queue [OF assms(1) p(3)] by blast
    have "length (drop k q') < length q" by (simp add: Cons)
    from 1(1) [rule_format, OF this k(1), of "Suc n"] obtain s' es where i:
      "xhci_poll_loop cols rows port_change (\<lambda>_ s. s) (Suc n) ?s = Some s'" "subseq (map strip_cycle es) (drop k q')"
      "(\<forall>e \<in> set (drop k q'). evt_type e \<noteq> TRB_TYPE_PORT_STATUS_CHANGE) \<longrightarrow> map strip_cycle es = drop k q'"
      "s' = handle_all cols rows port_change es ?s" "evt_queue (xhci s') hc []" by blast
    have "subseq (drop k q') q'" by (rule suffix_imp_subseq, rule suffix_drop)
    with i(2) have "subseq (map strip_cycle es) q'" by (rule subseq_order.trans)
    then have "subseq (map strip_cycle (x # es)) q" by (simp add: Cons p(2))
    moreover have "map strip_cycle (x # es) = q" if a: "\<forall>e \<in> set q. evt_type e \<noteq> TRB_TYPE_PORT_STATUS_CHANGE"
    proof -
      have "evt_type e \<noteq> TRB_TYPE_PORT_STATUS_CHANGE" using a Cons by (metis list.set_intros(1))
      then have "k = 0" using k(2) evt_strip(1) [of x] unfolding p(2) by metis
      then have "map strip_cycle es = q'" using i(3) a Cons by (metis drop0 list.set_intros(2))
      then show ?thesis using p(2) Cons by (metis list.simps(9))
    qed
    moreover have "xhci_poll_loop cols rows port_change (\<lambda>_ s. s) n s = Some s'"
      using i(1) p(1) by (subst xhci_poll_loop.simps) simp
    moreover have "s' = handle_all cols rows port_change (x # es) s" using i(4) p(1) by simp
    ultimately show ?thesis using i(5) by blast
  qed
qed

text \<open>\<open>xhci_poll\<close> ends: when the controller posts no more events, whatever number of them waits in the
  ring, the loop handles them in order, each at most once, and returns with none left; it handles all of
  them itself unless the handler of a port takes some, waiting for its commands.\<close>

theorem xhci_poll_ends:
  assumes "evt_queue (xhci s) hc q" "takes_events port_change"
  shows "\<exists>s' es. xhci_poll cols rows port_change (\<lambda>_ s. s) s = Some s' \<and> subseq (map strip_cycle es) q
    \<and> ((\<forall>e \<in> set q. evt_type e \<noteq> TRB_TYPE_PORT_STATUS_CHANGE) \<longrightarrow> map strip_cycle es = q)
    \<and> s' = handle_all cols rows port_change es s \<and> snd (xhci_poll_event (xhci s')) = None"
proof -
  obtain s' es where l: "xhci_poll_loop cols rows port_change (\<lambda>_ s. s) 0 s = Some s'" "subseq (map strip_cycle es) q"
    "(\<forall>e \<in> set q. evt_type e \<noteq> TRB_TYPE_PORT_STATUS_CHANGE) \<longrightarrow> map strip_cycle es = q"
    "s' = handle_all cols rows port_change es s" "evt_queue (xhci s') hc []"
    using poll_loop_ok [OF assms(2,1), of cols rows 0] by blast
  moreover have "snd (xhci_poll_event (xhci s')) = None"
    using poll_event_ok [OF l(5)] by (auto split: prod.splits option.splits)
  ultimately show ?thesis unfolding xhci_poll_def by blast
qed

theorem xhci_poll_ends_witness:
  "\<exists>s'. xhci_poll 80 25 (\<lambda>_ s. s) (\<lambda>_ s. s) (with_xhci (post_all [xfer_event 2 3 1 0, xfer_event 1 1 1 0] (0, True)) demo_usb) = Some s'
     \<and> snd (xhci_poll_event (xhci s')) = None"
proof -
  have "\<not> trb_cyc (xfer_event 2 3 1 0)" "\<not> trb_cyc (xfer_event 1 1 1 0)" by (simp_all add: trb_cyc_def, code_simp+)
  then have "evt_queue (post_all [xfer_event 2 3 1 0, xfer_event 1 1 1 0] (0, True) demo_ctrl)
      ((post_pos 3 ^^ 2) (0, True)) [xfer_event 2 3 1 0, xfer_event 1 1 1 0]"
    using post_fold [OF demo_queue, of "[xfer_event 2 3 1 0, xfer_event 1 1 1 0]"] by (simp add: demo_size numeral_2_eq_2)
  then have "evt_queue (xhci (with_xhci (post_all [xfer_event 2 3 1 0, xfer_event 1 1 1 0] (0, True)) demo_usb))
      ((post_pos 3 ^^ 2) (0, True)) [xfer_event 2 3 1 0, xfer_event 1 1 1 0]" by (simp add: demo_usb_def with_xhci_def)
  moreover have "takes_events (\<lambda>_ s. s)" by (auto simp: takes_events_def intro: exI [of _ 0])
  ultimately show ?thesis using xhci_poll_ends [of _ _ _ "\<lambda>_ s. s" 80 25] by blast
qed


section \<open>Keyboards\<close>

lemma request_normal: "request (normal_trb a len dir)"
  by (cases dir) (simp_all add: request_def is_link_def trb_cyc_def normal_trb_def TRB_GET_TYPE_def TRB_SET_TYPE_def
      TRB_TYPE_NORMAL_def TRB_TYPE_LINK_def TRB_IOC_def TRB_ISP_def TRB_CYCLE_def)

text \<open>A keyboard's report is delivered and the next one asked for: on a completion for the endpoint of
  keyboard \<open>i\<close>, the first that matches, the new keys of the report in its buffer go behind the contents
  of the key buffer, the report becomes the last one, exactly one request for the next report is put
  behind the requests that wait in the ring of the endpoint, its doorbell is rung, and no other ring, no
  other keyboard and no mouse changes.\<close>

theorem hid_completion:
  assumes "i < kbd_count s" "i < length (kbds s)" "kbd_matches s slot ep i" "\<forall>j < i. \<not> kbd_matches s slot ep j"
    "kbd_contents (key_buf s) xs" "hc_ring (ep_rings (xhci s) slot ep) hc q" "length q < ring_size (ep_rings (xhci s) slot ep) - 1"
  shows "let s' = usb_hid_on_transfer_complete cols rows slot ep s; k = kbds s ! i in
    kbd_contents (key_buf s') (take 255 (xs @ new_keys (k_last_report k) (k_report k)))
    \<and> kbds s' = (kbds s)[i := k \<lparr> k_last_report := k_report k, k_transfer_pending := True \<rparr>] \<and> mice s' = mice s
    \<and> hc_ring (ep_rings (xhci s') slot ep) hc (q @ [normal_trb (kbd_report_at s i) 8 True])
    \<and> (\<forall>sl e. (sl, e) \<noteq> (slot, ep) \<longrightarrow> ep_rings (xhci s') sl e = ep_rings (xhci s) sl e)
    \<and> mmio_log (xhci s') = mmio_log (xhci s) @ [Write32 (db_base (xhci s) + ucast slot * 4) (ucast ep)]"
proof -
  let ?k = "kbds s ! i" and ?t = "normal_trb (kbd_report_at s i) 8 True"
  have "find (kbd_matches s slot ep) [0..<kbd_count s] = Some i"
    using assms(1,3,4) by (auto simp: find_Some_iff)
  then have c: "usb_hid_on_transfer_complete cols rows slot ep s = kbd_complete i s"
    by (simp add: usb_hid_on_transfer_complete_def)
  have m: "dev_slot s (k_dev ?k) = slot" "k_in_dci ?k = ep" using assms(3) by (auto simp: kbd_matches_def)
  have k: "kbd_complete i s = s \<lparr> xhci := xhci_ring_doorbell slot ep (xhci_submit_async_trb slot ep (kbd_report_at s i) 8 True (xhci s)),
      kbds := (kbds s)[i := ?k \<lparr> k_last_report := k_report ?k, k_transfer_pending := True \<rparr>],
      key_buf := fst (process_kbd_report (k_last_report ?k) (k_report ?k) (key_buf s)) \<rparr>"
    using assms(2) m report_contents(2) [OF assms(5)]
    by (simp add: kbd_complete_def case_prod_unfold submit_kbd_transfer_def with_xhci_def Let_def)
  have "hc_ring (xhci_ring_enqueue_trb (ep_rings (xhci s) slot ep) ?t) hc (q @ [?t])"
    using enqueue_ok [OF assms(6,7)] request_normal strip_request by (metis request_def)
  then show ?thesis unfolding c k
    using report_contents(1) [OF assms(5)]
    by (simp add: xhci_submit_async_trb_def xhci_ring_doorbell_def mmio_def upd_ep_ring_def Let_def)
qed

definition demo_kbd :: usb_hid_kbd where
  "demo_kbd = zero_kbd \<lparr> k_in_dci := 3, k_active := True, k_report := \<lparr> modifiers = 2, keycodes = [4, 0, 0, 0, 0, 0] \<rparr> \<rparr>"

theorem hid_completion_witness:
  "hc_ring (ep_rings (xhci (usb_hid_on_transfer_complete 80 25 1 3 (demo_usb \<lparr> kbds := [demo_kbd], kbd_count := 1 \<rparr>))) 1 3) (0, True)
     [normal_trb 0x7000 8 True]"
proof -
  let ?s = "demo_usb \<lparr> kbds := [demo_kbd], kbd_count := 1 \<rparr>"
  have "kbd_contents (key_buf ?s) []" by (simp add: demo_usb_def kbd_contents_def kbd_buf_init_def KBD_BUF_SIZE_def)
  moreover have "hc_ring (ep_rings (xhci ?s) 1 3) (0, True) []"
    using ring_init_ok [of 4 "0x4000" demo_ring] by (simp add: demo_usb_def demo_ctrl_def fresh_ring_def)
  moreover have "kbd_matches ?s 1 3 0" by (simp add: kbd_matches_def demo_kbd_def demo_usb_def)
  moreover have "ring_size (ep_rings (xhci ?s) 1 3) = 4" by (simp add: demo_usb_def demo_ctrl_def ring_size_fresh)
  ultimately show ?thesis
    using hid_completion [of 0 ?s 1 3 "[]" "(0, True)" "[]" 80 25] by (simp add: Let_def) (simp add: demo_usb_def)
qed

section \<open>Recovery\<close>



end
