(* ===== verification/Editor.thy ===== *)
theory Editor
  imports Fat_Files Keyboard
begin

text \<open>
  The text editor, \<open>src/shell/editor.c\<close>: UTF-8 and code page helpers, the text buffer with its cursor,
  loading and saving through the FAT driver, the keys that come over the serial line, and the loop over
  keys. Drawing the screen is not modelled.

  A line is the C string in its buffer of 512 bytes, without the terminator; \<open>lines\<close> is the array of
  1024 lines, of which the first \<open>num_lines\<close> count. Copying a string between lines is assignment. The
  clock of the status message is left out.
\<close>

section \<open>UTF-8\<close>

definition utf8_char_length :: "u8 \<Rightarrow> nat" where
  "utf8_char_length first_byte =
    (if first_byte AND 0x80 = 0 then 1 else if first_byte AND 0xE0 = 0xC0 then 2
     else if first_byte AND 0xF0 = 0xE0 then 3 else if first_byte AND 0xF8 = 0xF0 then 4 else 1)"

text \<open>The bytes of the string behind its end are its terminator; the result is the code point and the
  number of bytes.\<close>

definition utf8_decode :: "u8 list \<Rightarrow> u32 \<times> nat" where
  "utf8_decode str =
    (let b = byte_at str; b0 = b 0; b1 = b 1; b2 = b 2; b3 = b 3;
         part = (\<lambda>mask n x. push_bit n (ucast (x AND mask)) :: u32);
         cont = (\<lambda>x. x AND 0xC0 = 0x80)
     in if b0 = 0 then (0, 0)
        else if b0 AND 0x80 = 0 then (ucast b0, 1)
        else if b0 AND 0xE0 = 0xC0 then
          (if \<not> cont b1 then (ucast b0, 1) else (part 0x1F 6 b0 OR part 0x3F 0 b1, 2))
        else if b0 AND 0xF0 = 0xE0 then
          (if \<not> cont b1 \<or> \<not> cont b2 then (ucast b0, 1)
           else (part 0x0F 12 b0 OR part 0x3F 6 b1 OR part 0x3F 0 b2, 3))
        else if b0 AND 0xF8 = 0xF0 then
          (if \<not> cont b1 \<or> \<not> cont b2 \<or> \<not> cont b3 then (ucast b0, 1)
           else (part 0x07 18 b0 OR part 0x3F 12 b1 OR part 0x3F 6 b2 OR part 0x3F 0 b3, 4))
        else (ucast b0, 1))"

definition cp437_table :: "(u32 \<times> u8) list" where
  "cp437_table = [
    (0x00C7, 0x80), (0x00FC, 0x81), (0x00E9, 0x82), (0x00E2, 0x83), (0x00E4, 0x84), (0x00E0, 0x85),
    (0x00E5, 0x86), (0x00E7, 0x87), (0x00EA, 0x88), (0x00EB, 0x89), (0x00E8, 0x8A), (0x00EF, 0x8B),
    (0x00EE, 0x8C), (0x00EC, 0x8D), (0x00C4, 0x8E), (0x00C5, 0x8F), (0x00C9, 0x90), (0x00E6, 0x91),
    (0x00C6, 0x92), (0x00F4, 0x93), (0x00F6, 0x94), (0x00F2, 0x95), (0x00FB, 0x96), (0x00F9, 0x97),
    (0x00FF, 0x98), (0x00D6, 0x99), (0x00DC, 0x9A), (0x00A2, 0x9B), (0x00A3, 0x9C), (0x00A5, 0x9D),
    (0x20A7, 0x9E), (0x0192, 0x9F), (0x00E1, 0xA0), (0x00ED, 0xA1), (0x00F3, 0xA2), (0x00FA, 0xA3),
    (0x00F1, 0xA4), (0x00D1, 0xA5), (0x00AA, 0xA6), (0x00BA, 0xA7), (0x00BF, 0xA8), (0x00AC, 0xAA),
    (0x00BD, 0xAB), (0x00BC, 0xAC), (0x00A1, 0xAD), (0x00AB, 0xAE), (0x00BB, 0xAF), (0x00DF, 0xE1),
    (0x2591, 0xB0), (0x2592, 0xB1), (0x2593, 0xB2), (0x2502, 0xB3), (0x2524, 0xB4), (0x2561, 0xB5),
    (0x2562, 0xB6), (0x2556, 0xB7), (0x2555, 0xB8), (0x2563, 0xB9), (0x2551, 0xBA), (0x2557, 0xBB),
    (0x255D, 0xBC), (0x255C, 0xBD), (0x255B, 0xBE), (0x2510, 0xBF), (0x2514, 0xC0), (0x2534, 0xC1),
    (0x252C, 0xC2), (0x251C, 0xC3), (0x2500, 0xC4), (0x253C, 0xC5), (0x255E, 0xC6), (0x255F, 0xC7),
    (0x255A, 0xC8), (0x2554, 0xC9), (0x2569, 0xCA), (0x2566, 0xCB), (0x2560, 0xCC), (0x2550, 0xCD),
    (0x256C, 0xCE), (0x2567, 0xCF), (0x2568, 0xD0), (0x2564, 0xD1), (0x2565, 0xD2), (0x2559, 0xD3),
    (0x2558, 0xD4), (0x2552, 0xD5), (0x2553, 0xD6), (0x256B, 0xD7), (0x256A, 0xD8), (0x2518, 0xD9),
    (0x250C, 0xDA), (0x2588, 0xDB), (0x2584, 0xDC), (0x258C, 0xDD), (0x2590, 0xDE), (0x2580, 0xDF),
    (0x25A0, 0xFE), (0x03B1, 0xE0), (0x0393, 0xE2), (0x03C0, 0xE3), (0x03A3, 0xE4), (0x03C3, 0xE5),
    (0x00B5, 0xE6), (0x03C4, 0xE7), (0x03A6, 0xE8), (0x0398, 0xE9), (0x03A9, 0xEA), (0x03B4, 0xEB),
    (0x221E, 0xEC), (0x03C6, 0xED), (0x03B5, 0xEE), (0x2229, 0xEF), (0x2261, 0xF0), (0x00B1, 0xF1),
    (0x2265, 0xF2), (0x2264, 0xF3), (0x2320, 0xF4), (0x2321, 0xF5), (0x00F7, 0xF6), (0x2248, 0xF7),
    (0x00B0, 0xF8), (0x2219, 0xF9), (0x00B7, 0xFA), (0x221A, 0xFB), (0x207F, 0xFC), (0x00B2, 0xFD),
    (0x2191, 0x18), (0x2193, 0x19), (0x2192, 0x1A), (0x2190, 0x1B), (0x25B2, 0x1E), (0x25BC, 0x1F),
    (0x25BA, 0x10), (0x25C4, 0x11), (0x263A, 0x01), (0x263B, 0x02), (0x2665, 0x03), (0x2666, 0x04),
    (0x2663, 0x05), (0x2660, 0x06), (0x2022, 0x07), (0x266A, 0x0D), (0x266B, 0x0E), (0x263C, 0x0F)]"

definition utf8_to_cp437 :: "u32 \<Rightarrow> u8" where
  "utf8_to_cp437 cp =
    (if cp < 128 then ucast cp
     else case map_of cp437_table cp of Some g \<Rightarrow> g | None \<Rightarrow> asc CHR ''?'')"

definition is_cont :: "u8 \<Rightarrow> bool" where
  "is_cont b \<longleftrightarrow> b AND 0xC0 = 0x80"

primrec back_over :: "u8 list \<Rightarrow> nat \<Rightarrow> nat" where
  "back_over line 0 = 0"
| "back_over line (Suc idx) = (if is_cont (byte_at line (Suc idx)) then back_over line idx else Suc idx)"

definition utf8_prev_char :: "u8 list \<Rightarrow> int \<Rightarrow> int" where
  "utf8_prev_char line idx = (if idx \<le> 0 then 0 else int (back_over line (nat idx - 1)))"

definition utf8_next_char :: "u8 list \<Rightarrow> int \<Rightarrow> int" where
  "utf8_next_char line idx =
    (if idx \<ge> int (length line) then int (length line)
     else (let c_len = utf8_char_length (byte_at line (nat idx))
           in if idx + int c_len > int (length line) then int (length line) else idx + int c_len))"

function column_loop :: "u8 list \<Rightarrow> int \<Rightarrow> nat \<Rightarrow> nat \<Rightarrow> nat" where
  "column_loop line byte_idx idx col =
    (if int idx < byte_idx \<and> byte_at line idx \<noteq> 0 then
       (if byte_at line idx = 9 then column_loop line byte_idx (idx + 1) (col + (4 - col mod 4))
        else column_loop line byte_idx (idx + utf8_char_length (byte_at line idx)) (col + 1))
     else col)"
  by pat_completeness auto
termination by (relation "measure (\<lambda>(line, byte_idx, idx, col). nat byte_idx - idx)") (auto simp: utf8_char_length_def)

declare column_loop.simps [simp del]

definition utf8_byte_to_column :: "u8 list \<Rightarrow> int \<Rightarrow> int" where
  "utf8_byte_to_column line byte_idx = int (column_loop line byte_idx 0 0)"

section \<open>State\<close>

definition MAX_EDITOR_LINES :: nat where "MAX_EDITOR_LINES = 1024"
definition MAX_LINE_LEN :: nat where "MAX_LINE_LEN = 512"
definition GUTTER_WIDTH :: int where "GUTTER_WIDTH = 6"

record editor_state =
  lines :: "u8 list list"
  num_lines :: nat
  cur_row :: int
  cur_col :: int
  top_row :: int
  left_col :: int
  ed_dev_name :: "u8 list"
  ed_filename :: "u8 list"
  modified :: bool
  running :: bool
  msg :: "u8 list"
  msg_color :: u8

definition cur_line :: "editor_state \<Rightarrow> u8 list" where
  "cur_line ed = lines ed ! nat (cur_row ed)"

definition set_line :: "nat \<Rightarrow> u8 list \<Rightarrow> editor_state \<Rightarrow> editor_state" where
  "set_line i l ed = ed \<lparr> lines := (lines ed)[i := l] \<rparr>"

definition set_status_msg :: "u8 list \<Rightarrow> u8 \<Rightarrow> editor_state \<Rightarrow> editor_state" where
  "set_status_msg m color ed = ed \<lparr> msg := take 79 m, msg_color := color \<rparr>"

definition one_empty_line :: "editor_state \<Rightarrow> editor_state" where
  "one_empty_line ed = (set_line 0 [] ed) \<lparr> num_lines := 1 \<rparr>"

section \<open>Editing\<close>

definition editor_insert_char :: "u8 \<Rightarrow> editor_state \<Rightarrow> editor_state" where
  "editor_insert_char c ed =
    (let line = cur_line ed; col = nat (cur_col ed)
     in if length line \<ge> MAX_LINE_LEN - 2 then ed
        else (set_line (nat (cur_row ed)) (take col line @ [c] @ drop col line) ed)
               \<lparr> cur_col := cur_col ed + 1, modified := True \<rparr>)"

text \<open>Lines \<open>from\<close> to \<open>num_lines - 1\<close> move down by one, the last one first.\<close>

definition lines_down :: "nat \<Rightarrow> nat \<Rightarrow> u8 list list \<Rightarrow> u8 list list" where
  "lines_down n from ls = fold (\<lambda>i ls. ls[i := ls ! (i - 1)]) (rev [from + 1..<n + 1]) ls"

text \<open>Lines from \<open>from + 1\<close> on move up by one, the first one first.\<close>

definition lines_up :: "nat \<Rightarrow> nat \<Rightarrow> u8 list list \<Rightarrow> u8 list list" where
  "lines_up n from ls = fold (\<lambda>i ls. ls[i := ls ! (i + 1)]) [from..<n - 1] ls"

definition editor_insert_newline :: "editor_state \<Rightarrow> editor_state" where
  "editor_insert_newline ed =
    (if num_lines ed \<ge> MAX_EDITOR_LINES - 1 then ed
     else
       (let row = nat (cur_row ed); col = nat (cur_col ed);
            ls = lines_down (num_lines ed) (row + 1) (lines ed);
            cur = ls ! row
        in ed \<lparr> lines := (ls[row + 1 := drop col cur])[row := take col cur], num_lines := num_lines ed + 1,
                cur_row := cur_row ed + 1, cur_col := 0, modified := True \<rparr>))"

definition editor_backspace :: "editor_state \<Rightarrow> editor_state" where
  "editor_backspace ed =
    (let line = cur_line ed; row = nat (cur_row ed)
     in if cur_col ed > 0 then
          (let prev = utf8_prev_char line (cur_col ed)
           in (set_line row (take (nat prev) line @ drop (nat (cur_col ed)) line) ed) \<lparr> cur_col := prev, modified := True \<rparr>)
        else if cur_row ed > 0 then
          (let prev_line = lines ed ! (row - 1)
           in if length prev_line + length line < MAX_LINE_LEN
              then ed \<lparr> lines := lines_up (num_lines ed) row ((lines ed)[row - 1 := prev_line @ line]),
                        num_lines := num_lines ed - 1, cur_row := cur_row ed - 1, cur_col := int (length prev_line), modified := True \<rparr>
              else ed)
        else ed)"

definition editor_delete :: "editor_state \<Rightarrow> editor_state" where
  "editor_delete ed =
    (let line = cur_line ed; row = nat (cur_row ed)
     in if cur_col ed < int (length line) then
          (let n = utf8_next_char line (cur_col ed)
           in (set_line row (take (nat (cur_col ed)) line @ drop (nat n) line) ed) \<lparr> modified := True \<rparr>)
        else if cur_row ed < int (num_lines ed) - 1 then
          (let next_line = lines ed ! (row + 1)
           in if length line + length next_line < MAX_LINE_LEN
              then ed \<lparr> lines := lines_up (num_lines ed) (row + 1) ((lines ed)[row := line @ next_line]),
                        num_lines := num_lines ed - 1, modified := True \<rparr>
              else ed)
        else ed)"

definition editor_delete_line :: "editor_state \<Rightarrow> editor_state" where
  "editor_delete_line ed =
    (if num_lines ed \<le> 1 then (set_line 0 [] ed) \<lparr> cur_row := 0, cur_col := 0, modified := True \<rparr>
     else
       (let n = num_lines ed - 1;
            ed = ed \<lparr> lines := lines_up (num_lines ed) (nat (cur_row ed)) (lines ed), num_lines := n \<rparr>;
            ed = (if cur_row ed \<ge> int n then ed \<lparr> cur_row := int n - 1 \<rparr> else ed)
        in set_status_msg (bytes ''[ Line deleted ]'') 0x2F (ed \<lparr> cur_col := 0, modified := True \<rparr>)))"

definition editor_adjust_view :: "int \<Rightarrow> int \<Rightarrow> editor_state \<Rightarrow> editor_state" where
  "editor_adjust_view term_w term_h ed =
    (let view_rows = (if term_h > 3 then term_h - 3 else 1);
         ed = (if cur_row ed < 0 then ed \<lparr> cur_row := 0 \<rparr> else ed);
         ed = (if cur_row ed \<ge> int (num_lines ed) then ed \<lparr> cur_row := int (num_lines ed) - 1 \<rparr> else ed);
         line_len = int (length (cur_line ed));
         ed = (if cur_col ed < 0 then ed \<lparr> cur_col := 0 \<rparr> else ed);
         ed = (if cur_col ed > line_len then ed \<lparr> cur_col := line_len \<rparr> else ed);
         ed = (if cur_row ed < top_row ed then ed \<lparr> top_row := cur_row ed \<rparr> else ed);
         ed = (if cur_row ed \<ge> top_row ed + view_rows then ed \<lparr> top_row := cur_row ed - view_rows + 1 \<rparr> else ed);
         vis_col = utf8_byte_to_column (cur_line ed) (cur_col ed);
         view_width = (if term_w - GUTTER_WIDTH < 1 then 1 else term_w - GUTTER_WIDTH);
         ed = (if vis_col < left_col ed then ed \<lparr> left_col := vis_col \<rparr> else ed)
     in if vis_col \<ge> left_col ed + view_width then ed \<lparr> left_col := vis_col - view_width + 1 \<rparr> else ed)"


section \<open>Loading and saving\<close>

text \<open>What the editor finds around it: the registry of block devices with their names and operations, and
  the answers of the heap.\<close>

record 'w ed_env =
  ee_registry :: bdev_registry
  ee_name_of :: "u32 \<Rightarrow> u8 list"
  ee_dev_at :: "u32 \<Rightarrow> 'w block_dev"
  ee_km :: "u32 \<Rightarrow> bool"

definition line_byte :: "u8 \<Rightarrow> bool" where
  "line_byte c \<longleftrightarrow> c \<noteq> 0 \<and> c \<noteq> 10 \<and> c \<noteq> 13"

text \<open>The end of a line: a carriage return with a newline, or one of them.\<close>

fun skip_eol :: "u8 list \<Rightarrow> u8 list" where
  "skip_eol [] = []"
| "skip_eol (c # p) = (if c = 13 \<and> byte_at p 0 = 10 then tl p else if c = 10 \<or> c = 13 then p else c # p)"

text \<open>The lines in a terminated buffer, at most \<open>room\<close>.\<close>

primrec load_lines :: "nat \<Rightarrow> u8 list \<Rightarrow> u8 list list" where
  "load_lines 0 p = []"
| "load_lines (Suc room) p =
    (if byte_at p 0 = 0 then []
     else take (MAX_LINE_LEN - 1) (takeWhile line_byte p) # load_lines room (skip_eol (dropWhile line_byte p)))"

definition editor_load_file :: "'w ed_env \<Rightarrow> 'w \<Rightarrow> editor_state \<Rightarrow> editor_state" where
  "editor_load_file env w ed =
    (let ed = ed \<lparr> num_lines := 0, cur_row := 0, cur_col := 0, top_row := 0, left_col := 0, modified := False \<rparr>;
         bdev = blockdev_get (ee_name_of env) (ee_registry env) (ed_dev_name ed)
     in if bdev = 0 then one_empty_line (set_status_msg (bytes ''[ Device not found, starting new file ]'') 0x4F ed)
        else case fat_mount (ee_dev_at env bdev) w of
            None \<Rightarrow> one_empty_line (set_status_msg (bytes ''[ Filesystem error, starting new file ]'') 0x4F ed)
          | Some fs \<Rightarrow>
             if \<not> ee_km env 65536 then one_empty_line ed
             else case fat_read_file (ee_km env) fs w (ed_filename ed) 65535 of
                 Some (c # buf) \<Rightarrow>
                   (let ls = load_lines MAX_EDITOR_LINES (c # buf);
                        ed = ed \<lparr> lines := ls @ drop (length ls) (lines ed), num_lines := length ls \<rparr>;
                        ed = (if num_lines ed = 0 then one_empty_line ed else ed)
                    in set_status_msg (snprintf_text 64 (bytes ''[ Loaded %u bytes from %s ]'')
                         [Word_Arg (of_nat (length (c # buf))), Str_Arg (ed_filename ed)]) 0x2F ed)
               | _ \<Rightarrow> set_status_msg (snprintf_text 64 (bytes ''[ New file '' @ [39] @ bytes ''%s'' @ [39] @ bytes '' ]'')
                         [Str_Arg (ed_filename ed)]) 0x2F (one_empty_line ed))"

text \<open>The lines with newlines between them.\<close>

fun join_lines :: "u8 list list \<Rightarrow> u8 list" where
  "join_lines [] = []"
| "join_lines [l] = l"
| "join_lines (l # ls) = l @ 10 # join_lines ls"

definition save_alloc :: "u8 list list \<Rightarrow> nat" where
  "save_alloc ls = max 512 (sum_list (map (\<lambda>l. length l + 2) ls))"

definition editor_save_file :: "'w ed_env \<Rightarrow> 'w \<Rightarrow> editor_state \<Rightarrow> 'w \<times> editor_state \<times> bool" where
  "editor_save_file env w ed =
    (let bdev = blockdev_get (ee_name_of env) (ee_registry env) (ed_dev_name ed);
         ls = take (num_lines ed) (lines ed); data = join_lines ls
     in if bdev = 0 then (w, set_status_msg (bytes ''[ Save failed: device not found ]'') 0x4F ed, False)
        else case fat_mount (ee_dev_at env bdev) w of
            None \<Rightarrow> (w, set_status_msg (bytes ''[ Save failed: mount error ]'') 0x4F ed, False)
          | Some fs \<Rightarrow>
             if \<not> ee_km env (of_nat (save_alloc ls)) then (w, set_status_msg (bytes ''[ Save failed: out of memory ]'') 0x4F ed, False)
             else (case fat_write_file (ee_km env) fs w (ed_filename ed) data of
                 (w', res) \<Rightarrow>
                   if res = 0 then (w', set_status_msg (snprintf_text 64 (bytes ''[ Saved %u bytes to %s ]'')
                         [Word_Arg (of_nat (length data)), Str_Arg (ed_filename ed)]) 0x2F (ed \<lparr> modified := False \<rparr>), True)
                   else (w', set_status_msg (bytes ''[ Save failed: write error ]'') 0x4F ed, False)))"

section \<open>Keys\<close>

text \<open>The serial line as the answers of its successive reads, \<open>-1\<close> for a read that timed out.\<close>

definition timed :: "int list \<Rightarrow> int \<times> int list" where
  "timed xs = (case xs of [] \<Rightarrow> (-1, []) | x # xs \<Rightarrow> (x, xs))"

definition ansi_tail :: "int list \<Rightarrow> int \<Rightarrow> int \<times> int list" where
  "ansi_tail xs c2 =
    (let key = (\<lambda>k. uint (k :: u16)); (c3, xs) = timed xs
     in if c3 = 65 then (key KEY_UP, xs) else if c3 = 66 then (key KEY_DOWN, xs)
        else if c3 = 67 then (key KEY_RIGHT, xs) else if c3 = 68 then (key KEY_LEFT, xs)
        else if c3 = 72 then (key KEY_HOME, xs) else if c3 = 70 then (key KEY_END, xs)
        else if c3 = 49 then
          (let (c4, xs) = timed xs
           in if c4 = 126 then (key KEY_HOME, xs)
              else if c4 = 49 then (key KEY_F1, snd (timed xs))
              else if c4 = 50 then (key KEY_F2, snd (timed xs))
              else (key KEY_HOME, xs))
        else if c3 = 51 then (key KEY_DELETE, snd (timed xs)) else if c3 = 52 then (key KEY_END, snd (timed xs))
        else if c3 = 53 then (key KEY_PGUP, snd (timed xs)) else if c3 = 54 then (key KEY_PGDN, snd (timed xs))
        else (c2, xs))"

definition ansi_key :: "int list \<Rightarrow> int \<times> int list" where
  "ansi_key xs =
    (let (c2, xs) = timed xs
     in if c2 = 91 then ansi_tail xs c2
        else if c2 = 79 then
          (let (c3, xs) = timed xs
           in if c3 = 80 then (uint KEY_F1, xs) else if c3 = 81 then (uint KEY_F2, xs)
              else if c3 = 82 then (uint KEY_F3, xs) else (c2, xs))
        else if c2 = -1 then (uint KEY_ESC, xs)
        else (c2, xs))"

definition editor_get_char :: "kbd_buf \<Rightarrow> int list \<Rightarrow> int \<times> kbd_buf \<times> int list" where
  "editor_get_char kb serial =
    (if usb_kbd_has_char kb then (let (kb, k) = usb_kbd_getchar kb in (uint k, kb, serial))
     else case serial of
         [] \<Rightarrow> (0, kb, [])
       | c # xs \<Rightarrow>
          if c < 0 then (0, kb, xs)
          else if c = 27 then (let (k, xs) = ansi_key xs in (k, kb, xs))
          else (c, kb, xs))"

definition exit_key :: "int \<Rightarrow> bool" where
  "exit_key c \<longleftrightarrow> c = 0x11 \<or> c = 0x18 \<or> c = uint KEY_ESC"

text \<open>The keys of the loop that do not leave the editor.\<close>

definition editor_key :: "'w ed_env \<Rightarrow> int \<Rightarrow> 'w \<times> editor_state \<Rightarrow> 'w \<times> editor_state" where
  "editor_key env c = (\<lambda>(w, ed).
    if c = 0x13 then (case editor_save_file env w ed of (w, ed, ok) \<Rightarrow> (w, ed))
    else if c = 0x0E then
      (let (w, ed) = (if modified ed then (case editor_save_file env w ed of (w, ed, ok) \<Rightarrow> (w, ed)) else (w, ed))
       in (w, set_status_msg (bytes ''[ New document ]'') 0x2F
                ((one_empty_line ed) \<lparr> cur_row := 0, cur_col := 0, modified := False \<rparr>)))
    else if c = 0x0B then (w, editor_delete_line ed)
    else if c = uint KEY_UP then (w, if cur_row ed > 0 then ed \<lparr> cur_row := cur_row ed - 1 \<rparr> else ed)
    else if c = uint KEY_DOWN then (w, if cur_row ed < int (num_lines ed) - 1 then ed \<lparr> cur_row := cur_row ed + 1 \<rparr> else ed)
    else if c = uint KEY_LEFT then (w, ed \<lparr> cur_col := utf8_prev_char (cur_line ed) (cur_col ed) \<rparr>)
    else if c = uint KEY_RIGHT then (w, ed \<lparr> cur_col := utf8_next_char (cur_line ed) (cur_col ed) \<rparr>)
    else if c = uint KEY_HOME then (w, ed \<lparr> cur_col := 0 \<rparr>)
    else if c = uint KEY_END then (w, ed \<lparr> cur_col := int (length (cur_line ed)) \<rparr>)
    else if c = uint KEY_PGUP then (w, ed \<lparr> cur_row := (if cur_row ed - 20 < 0 then 0 else cur_row ed - 20) \<rparr>)
    else if c = uint KEY_PGDN then
      (w, ed \<lparr> cur_row := (if cur_row ed + 20 \<ge> int (num_lines ed) then int (num_lines ed) - 1 else cur_row ed + 20) \<rparr>)
    else if c = 8 \<or> c = 127 then (w, editor_backspace ed)
    else if c = uint KEY_DELETE then (w, editor_delete ed)
    else if c = 10 \<or> c = 13 then (w, editor_insert_newline ed)
    else if c = 9 then (w, (editor_insert_char 32 ^^ 4) ed)
    else if c \<ge> 32 \<and> c \<le> 255 then (w, editor_insert_char (of_int c) ed)
    else (w, ed))"

text \<open>The question whether to save, asked until a key answers it; the rest of the keys.\<close>

primrec deciding :: "'w ed_env \<Rightarrow> int list \<Rightarrow> 'w \<times> editor_state \<Rightarrow> ('w \<times> editor_state) \<times> int list" where
  "deciding env [] s = (s, [])"
| "deciding env (opt # ks) s =
    (if opt \<in> {121, 89, 13, 10} then
       (case editor_save_file env (fst s) (snd s) of (w, ed, ok) \<Rightarrow> ((w, ed \<lparr> running := False \<rparr>), ks))
     else if opt \<in> {110, 78, 0x11, 0x18} then ((fst s, (snd s) \<lparr> running := False \<rparr>), ks)
     else if opt \<in> {uint KEY_ESC, 99, 67} then ((fst s, set_status_msg (bytes ''[ Cancelled ]'') 0x2F (snd s)), ks)
     else deciding env ks s)"

lemma deciding_shorter [simp]: "length (snd (deciding env ks s)) \<le> length ks"
  by (induction ks) (auto split: prod.splits)

text \<open>One round of the loop; it takes at least the key it reads.\<close>

definition editor_round :: "'w ed_env \<Rightarrow> int \<Rightarrow> int list \<Rightarrow> 'w \<times> editor_state \<Rightarrow> ('w \<times> editor_state) \<times> int list" where
  "editor_round env c ks = (\<lambda>(w, ed).
    if c = 0 then ((w, ed), ks)
    else if exit_key c then
      (if modified ed then deciding env ks (w, set_status_msg (bytes ''[ Save changes before exit? (Y/N/Esc) ]'') 0x4F ed)
       else ((w, ed \<lparr> running := False \<rparr>), ks))
    else (editor_key env c (w, ed), ks))"

lemma editor_round_shorter [simp]: "length (snd (editor_round env c ks s)) \<le> length ks"
  by (auto simp: editor_round_def split: prod.splits)

text \<open>The loop over the keys typed, until the editor is left or there are no more keys. The view is
  adjusted before every key that follows a change.\<close>

function editor_loop :: "'w ed_env \<Rightarrow> int \<Rightarrow> int \<Rightarrow> int list \<Rightarrow> 'w \<times> editor_state \<Rightarrow> 'w \<times> editor_state" where
  "editor_loop env term_w term_h [] s = s"
| "editor_loop env term_w term_h (c # ks) s =
    (if \<not> running (snd s) then s
     else (let (s', ks') = editor_round env c ks (fst s, editor_adjust_view term_w term_h (snd s))
           in editor_loop env term_w term_h ks' s'))"
  by pat_completeness auto
termination
proof (relation "measure (\<lambda>(env, term_w, term_h, ks, s). length ks)")
  fix env :: "'w ed_env" and term_w term_h c ks and s :: "'w \<times> editor_state" and x s' ks'
  assume "x = editor_round env c ks (fst s, editor_adjust_view term_w term_h (snd s))" "(s', ks') = x"
  then have "length ks' \<le> length ks" using editor_round_shorter by (metis snd_conv)
  then show "((env, term_w, term_h, ks', s'), env, term_w, term_h, c # ks, s) \<in> measure (\<lambda>(env, term_w, term_h, ks, s). length ks)"
    by simp
qed simp

definition zero_editor :: editor_state where
  "zero_editor = \<lparr> lines = replicate MAX_EDITOR_LINES [], num_lines = 0, cur_row = 0, cur_col = 0, top_row = 0, left_col = 0,
     ed_dev_name = [], ed_filename = [], modified = False, running = False, msg = [], msg_color = 0 \<rparr>"

text \<open>The names may be missing.\<close>

definition editor_open :: "'w ed_env \<Rightarrow> int \<Rightarrow> int \<Rightarrow> u8 list \<Rightarrow> u8 list \<Rightarrow> int list \<Rightarrow> 'w \<Rightarrow> 'w \<times> editor_state" where
  "editor_open env term_w term_h dev_name filename keys w =
    (let ed = zero_editor \<lparr> ed_dev_name := take 15 (if dev_name \<noteq> [] then dev_name else bytes ''usb0''),
                            ed_filename := take 63 (if filename \<noteq> [] then filename else bytes ''UNTITLED.TXT''), running := True \<rparr>
     in editor_loop env term_w term_h keys (w, editor_load_file env w ed))"

end
