(* ===== verification/Utf8.thy ===== *)
theory Utf8
  imports Editor
begin

text \<open>
  The UTF-8 decoder of the editor undoes the UTF-8 encoding, and the length it takes from the first byte is
  the length of the character.
\<close>

section \<open>Bits\<close>

lemma bits8: "(a :: u8) = b \<longleftrightarrow> bit a 0 = bit b 0 \<and> bit a 1 = bit b 1 \<and> bit a 2 = bit b 2 \<and> bit a 3 = bit b 3
   \<and> bit a 4 = bit b 4 \<and> bit a 5 = bit b 5 \<and> bit a 6 = bit b 6 \<and> bit a 7 = bit b 7" (is "_ \<longleftrightarrow> ?bs")
proof
  assume bs: ?bs
  show "a = b"
  proof (rule bit_word_eqI)
    fix n assume "n < LENGTH(8)"
    then consider "n = 0" | "n = 1" | "n = 2" | "n = 3" | "n = 4" | "n = 5" | "n = 6" | "n = 7" by fastforce
    then show "bit a n = bit b n" using bs by cases simp_all
  qed
qed simp

lemma high_bits:
  assumes "unat (cp :: u32) < 2 ^ k" "bit cp n"
  shows "n < k"
proof (rule ccontr)
  assume "\<not> n < k"
  have "take_bit k (unat cp) = unat cp" using assms(1) by (simp add: take_bit_nat_eq_self)
  then have "\<not> bit (unat cp) n" using \<open>\<not> n < k\<close> by (metis bit_take_bit_iff)
  then show False using assms(2) bit_imp_le_length [OF assms(2)] by (simp add: bit_unsigned_iff)
qed

lemma low_mask: "(0x07 :: u8) = mask 3" "(0x0F :: u8) = mask 4" "(0x1F :: u8) = mask 5" "(0x3F :: u8) = mask 6"
  by (simp_all add: mask_eq_exp_minus_1)

lemma strip_lead:
  "(0xC0 OR x :: u8) AND 0x1F = x AND 0x1F" "(0xE0 OR x :: u8) AND 0x0F = x AND 0x0F" "(0xF0 OR x :: u8) AND 0x07 = x AND 0x07"
  "(0x80 OR (x AND 0x3F) :: u8) AND 0x3F = x AND 0x3F"
  by (simp_all add: bits8 bit_simps)

lemma cont_byte: "(0x80 OR (x AND 0x3F) :: u8) AND 0xC0 = 0x80"
  by (simp add: bits8 bit_simps)

lemma lead_byte:
  fixes x :: u8
  shows "\<not> bit x 5 \<Longrightarrow> (0xC0 OR x) AND 0xE0 = 0xC0" "(0xC0 OR x) AND 0x80 \<noteq> 0" "0xC0 OR x \<noteq> 0"
    "\<not> bit x 4 \<Longrightarrow> (0xE0 OR x) AND 0xF0 = 0xE0" "(0xE0 OR x) AND 0x80 \<noteq> 0" "(0xE0 OR x) AND 0xE0 \<noteq> 0xC0" "0xE0 OR x \<noteq> 0"
    "\<not> bit x 3 \<Longrightarrow> (0xF0 OR x) AND 0xF8 = 0xF0" "(0xF0 OR x) AND 0x80 \<noteq> 0" "(0xF0 OR x) AND 0xE0 \<noteq> 0xC0" "(0xF0 OR x) AND 0xF0 \<noteq> 0xE0" "0xF0 OR x \<noteq> 0"
  by (simp_all add: bits8 bit_simps)

definition part :: "u8 \<Rightarrow> nat \<Rightarrow> u32 \<Rightarrow> u32" where
  "part m n cp = push_bit n (ucast (ucast (drop_bit n cp) AND m))"

lemma part_bit: "w \<le> 8 \<Longrightarrow> bit (part (mask w) n cp) k \<longleftrightarrow> n \<le> k \<and> k < n + w \<and> bit cp k"
  by (auto simp: part_def bit_simps dest: bit_imp_le_length)

lemma parts:
  shows "unat cp < 0x800 \<Longrightarrow> part 0x1F 6 cp OR part 0x3F 0 cp = cp"
    "unat cp < 0x10000 \<Longrightarrow> part 0x0F 12 cp OR part 0x3F 6 cp OR part 0x3F 0 cp = cp"
    "unat cp < 0x200000 \<Longrightarrow> part 0x07 18 cp OR part 0x3F 12 cp OR part 0x3F 6 cp OR part 0x3F 0 cp = cp"
  using high_bits [of cp 11] high_bits [of cp 16] high_bits [of cp 21]
  by (simp_all only: low_mask bit_eq_iff bit_or_iff part_bit) fastforce+

section \<open>Decoding\<close>

text \<open>The encoding, as the Unicode standard has it.\<close>

definition utf8_encode :: "u32 \<Rightarrow> u8 list" where
  "utf8_encode cp =
    (let cont = (\<lambda>n. 0x80 OR (ucast (drop_bit n cp) AND 0x3F)) in
     if cp < 0x80 then [ucast cp]
     else if cp < 0x800 then [0xC0 OR ucast (drop_bit 6 cp), cont 0]
     else if cp < 0x10000 then [0xE0 OR ucast (drop_bit 12 cp), cont 6, cont 0]
     else [0xF0 OR ucast (drop_bit 18 cp), cont 12, cont 6, cont 0])"

text \<open>C40. The decoder is the inverse of the encoder on every code point but 0: at the start of the encoding of
  a code point, whatever follows it, the decoder returns the code point and the length of its encoding, and
  the length that the cursor movements and the column count take from its first byte is the same.
\<close>

theorem utf8_decode_encode:
  assumes "cp \<noteq> 0" "cp < 0x200000"
  shows "utf8_decode (utf8_encode cp @ following) = (cp, length (utf8_encode cp))
    \<and> utf8_char_length (hd (utf8_encode cp)) = length (utf8_encode cp)"
proof -
  note defs = utf8_encode_def utf8_decode_def utf8_char_length_def Let_def byte_at_def
  have u: "bit (ucast (drop_bit m cp) :: u8) k \<longleftrightarrow> bit cp (m + k)" if "k < 8" for m k using that by (auto simp: bit_simps)
  consider "cp < 0x80" | "\<not> cp < 0x80" "cp < 0x800" | "\<not> cp < 0x80" "\<not> cp < 0x800" "cp < 0x10000" | "\<not> cp < 0x80" "\<not> cp < 0x800" "\<not> cp < 0x10000"
    by blast
  then show ?thesis
  proof cases
    case 1
    then have c: "unat cp < 2 ^ 7" by (simp add: word_less_nat_alt)
    have "ucast (ucast cp :: u8) = cp" using high_bits [OF c] by (intro bit_word_eqI) (fastforce simp: bit_simps)
    moreover from this have "ucast cp \<noteq> (0 :: u8)" using assms(1) by auto
    moreover have "(ucast cp :: u8) AND 0x80 = 0" using high_bits [OF c, of 7] by (auto simp: bits8 bit_simps)
    ultimately show ?thesis using 1 by (simp add: defs)
  next
    case 2
    then have "unat cp < 0x800" by (simp add: word_less_nat_alt)
    then have "\<not> bit (ucast (drop_bit 6 cp) :: u8) 5" using high_bits [of cp 11 11] by (auto simp: u)
    then show ?thesis using 2 parts(1) [OF \<open>unat cp < 0x800\<close>] by (simp add: defs strip_lead cont_byte lead_byte part_def)
  next
    case 3
    then have c: "unat cp < 0x10000" by (simp add: word_less_nat_alt)
    then have "\<not> bit (ucast (drop_bit 12 cp) :: u8) 4" using high_bits [of cp 16 16] by (auto simp: u)
    then show ?thesis using 3 parts(2) [OF c] by (simp add: defs strip_lead cont_byte lead_byte part_def)
  next
    case 4
    have c: "unat cp < 0x200000" using assms(2) by (simp add: word_less_nat_alt)
    then have "\<not> bit (ucast (drop_bit 18 cp) :: u8) 3" using high_bits [of cp 21 21] by (auto simp: u)
    then show ?thesis using 4 parts(3) [OF c] by (simp add: defs strip_lead cont_byte lead_byte part_def)
  qed
qed

theorem utf8_decode_encode_witness:
  "utf8_encode 0x20AC = [0xE2, 0x82, 0xAC] \<and> utf8_decode [0xE2, 0x82, 0xAC, 0x41] = (0x20AC, 3)"
proof -
  have e: "utf8_encode 0x20AC = [0xE2, 0x82, 0xAC]" by code_simp
  then show ?thesis using utf8_decode_encode [of "0x20AC" "[0x41]"] by simp
qed

end
