(* ===== verification/Editor_Props.thy ===== *)
theory Editor_Props
  imports Utf8 Fat_Mount Fat_Data
begin

text \<open>
  The editor keeps its buffer and cursor in bounds whatever is typed, its commands do to the text what
  they say, saved text loads again, and UTF-8 characters are decoded.
\<close>

section \<open>Moving lines\<close>

lemma lines_up_length [simp]: "length (lines_up n from ls) = length ls"
proof -
  have "length (fold (\<lambda>i ls. ls[i := ls ! (i + 1)]) xs ls) = length ls" for xs
    by (induction xs arbitrary: ls) auto
  then show ?thesis by (simp add: lines_up_def)
qed

lemma lines_down_length [simp]: "length (lines_down n from ls) = length ls"
proof -
  have "length (fold (\<lambda>i ls. ls[i := ls ! (i - 1)]) xs ls) = length ls" for xs
    by (induction xs arbitrary: ls) auto
  then show ?thesis by (simp add: lines_down_def)
qed

lemma lines_up_nth:
  assumes "n \<le> length ls" "from < n"
  shows "lines_up n from ls ! i = (if from \<le> i \<and> i < n - 1 then ls ! (i + 1) else ls ! i)"
proof -
  have "fold (\<lambda>i ls. ls[i := ls ! (i + 1)]) [from..<m] ls ! i = (if from \<le> i \<and> i < m then ls ! (i + 1) else ls ! i)
      \<and> length (fold (\<lambda>i ls. ls[i := ls ! (i + 1)]) [from..<m] ls) = length ls"
    if "m < length ls" for m i
    using that
  proof (induction m arbitrary: i)
    case (Suc m)
    show ?case
    proof (cases "from \<le> m")
      case True
      then show ?thesis using Suc.IH [of "m + 1"] Suc.IH [of i] Suc.prems by (auto simp: nth_list_update)
    qed auto
  qed simp
  then show ?thesis using assms by (simp add: lines_up_def)
qed

text \<open>Removing a line of the first \<open>n\<close>.\<close>

lemma lines_up_take:
  assumes "n \<le> length ls" "k < n"
  shows "take (n - 1) (lines_up n k ls) = take k (take n ls) @ drop (k + 1) (take n ls)"
proof (rule nth_equalityI)
  fix i assume "i < length (take (n - 1) (lines_up n k ls))"
  then have "i < n - 1" using assms by simp
  then show "take (n - 1) (lines_up n k ls) ! i = (take k (take n ls) @ drop (k + 1) (take n ls)) ! i"
    using assms by (cases "i < k") (simp_all add: lines_up_nth nth_append)
qed (use assms in simp)

lemma lines_down_nth:
  assumes "n < length ls" "from \<le> n" "1 \<le> from"
  shows "lines_down n from ls ! i = (if from < i \<and> i \<le> n then ls ! (i - 1) else ls ! i)"
proof -
  have "fold (\<lambda>i ls. ls[i := ls ! (i - 1)]) (rev [m + 1..<n + 1]) ls ! i = (if m < i \<and> i \<le> n then ls ! (i - 1) else ls ! i)
      \<and> length (fold (\<lambda>i ls. ls[i := ls ! (i - 1)]) (rev [m + 1..<n + 1]) ls) = length ls" if "m \<le> n" for m i
    using that
  proof (induction "n - m" arbitrary: m i)
    case (Suc d)
    then have m: "[m + 1..<n + 1] = (m + 1) # [m + 2..<n + 1]" "d = n - (m + 1)" "m + 1 \<le> n" by (auto simp: upt_conv_Cons)
    show ?case using Suc.hyps(1) [OF m(2,3), of m] Suc.hyps(1) [OF m(2,3), of i] m assms
      by (auto simp: nth_list_update)
  qed auto
  then show ?thesis using assms(2) by (simp add: lines_down_def)
qed

text \<open>Splitting a line of the first \<open>n\<close>.\<close>

lemma split_take:
  assumes "n < length ls" "r < n"
  shows "take (n + 1) ((lines_down n (r + 1) ls)[r + 1 := b, r := a]) = take r (take n ls) @ [a, b] @ drop (r + 1) (take n ls)"
proof (rule nth_equalityI)
  show "length (take (n + 1) ((lines_down n (r + 1) ls)[r + 1 := b, r := a]))
      = length (take r (take n ls) @ [a, b] @ drop (r + 1) (take n ls))"
    using assms by simp
  fix i assume "i < length (take (n + 1) ((lines_down n (r + 1) ls)[r + 1 := b, r := a]))"
  then have i: "i \<le> n" using assms by simp
  show "take (n + 1) ((lines_down n (r + 1) ls)[r + 1 := b, r := a]) ! i
      = (take r (take n ls) @ [a, b] @ drop (r + 1) (take n ls)) ! i"
  proof -
    consider "i < r" | "i = r" | "i = r + 1" | j where "i = r + 2 + j"
      by (metis add_2_eq_Suc' le_Suc_ex less_antisym not_less_eq Suc_eq_plus1 add_Suc_right linorder_not_less)
    then show ?thesis using i assms by cases (simp_all add: nth_append nth_list_update lines_down_nth)
  qed
qed


section \<open>Bounds\<close>

definition doc :: "editor_state \<Rightarrow> u8 list list" where
  "doc ed = take (num_lines ed) (lines ed)"

definition line_ok :: "u8 list \<Rightarrow> bool" where
  "line_ok l \<longleftrightarrow> length l < MAX_LINE_LEN \<and> (\<forall>c \<in> set l. line_byte c)"

definition ed_ok :: "editor_state \<Rightarrow> bool" where
  "ed_ok ed \<longleftrightarrow> length (lines ed) = MAX_EDITOR_LINES \<and> 1 \<le> num_lines ed \<and> num_lines ed \<le> MAX_EDITOR_LINES
     \<and> (\<forall>l \<in> set (doc ed). line_ok l)"

definition cursor_ok :: "editor_state \<Rightarrow> bool" where
  "cursor_ok ed \<longleftrightarrow> 0 \<le> cur_row ed \<and> cur_row ed < int (num_lines ed) \<and> 0 \<le> cur_col ed \<and> cur_col ed \<le> int (length (cur_line ed))"

text \<open>The cursor as natural numbers.\<close>

definition at :: "editor_state \<Rightarrow> nat \<Rightarrow> nat \<Rightarrow> u8 list \<Rightarrow> bool" where
  "at ed r c l \<longleftrightarrow> cur_row ed = int r \<and> cur_col ed = int c \<and> r < num_lines ed \<and> l = doc ed ! r \<and> c \<le> length l"

lemma doc_length: "ed_ok ed \<Longrightarrow> length (doc ed) = num_lines ed"
  by (simp add: ed_ok_def doc_def)

lemma cursor_at:
  assumes "ed_ok ed" "cursor_ok ed"
  obtains r c l where "at ed r c l"
proof -
  have "nat (cur_row ed) < num_lines ed" "nat (cur_col ed) \<le> length (cur_line ed)"
    using assms(2) by (simp_all add: cursor_ok_def nat_less_iff nat_le_iff)
  then show ?thesis using assms(2) that [of "nat (cur_row ed)" "nat (cur_col ed)" "cur_line ed"]
    by (simp add: at_def cursor_ok_def cur_line_def doc_def)
qed

lemma at_cursor:
  assumes "ed_ok ed" "at ed r c l"
  shows "cursor_ok ed" "cur_line ed = l" "nat (cur_row ed) = r" "nat (cur_col ed) = c" "l \<in> set (doc ed)" "line_ok l"
    "r < length (doc ed)" "lines ed ! r = l" "r < length (lines ed)" "doc ed = take r (doc ed) @ l # drop (Suc r) (doc ed)"
proof -
  have r: "r < length (doc ed)" "doc ed ! r = l" using assms doc_length [OF assms(1)] by (simp_all add: at_def)
  then show "l \<in> set (doc ed)" "r < length (doc ed)" "doc ed = take r (doc ed) @ l # drop (Suc r) (doc ed)"
    using nth_mem [of r "doc ed"] id_take_nth_drop [of r "doc ed"] by simp_all
  then show "line_ok l" using assms(1) by (simp add: ed_ok_def)
  show "lines ed ! r = l" "r < length (lines ed)" using r assms(2) by (simp_all add: doc_def at_def)
  then show "cursor_ok ed" "cur_line ed = l" "nat (cur_row ed) = r" "nat (cur_col ed) = c"
    using assms(2) unfolding at_def cursor_ok_def cur_line_def by auto
qed

lemma doc_update:
  assumes "lines ed' = (lines ed)[r := l]" "num_lines ed' = num_lines ed"
  shows "doc ed' = (doc ed)[r := l]"
  using assms by (simp add: doc_def take_update_swap)

lemma ok_update:
  assumes "ed_ok ed" "line_ok l" "r < num_lines ed" "lines ed' = (lines ed)[r := l]" "num_lines ed' = num_lines ed"
  shows "ed_ok ed'"
  using assms doc_update [OF assms(4,5)] set_update_subset_insert [of "doc ed" r l] by (auto simp: ed_ok_def)

lemma back_over_le: "back_over l i \<le> i"
  by (induction i) auto

lemma prev_le: "0 < i \<Longrightarrow> 0 \<le> utf8_prev_char l i \<and> utf8_prev_char l i < i"
  using back_over_le [of l "nat i - 1"] by (auto simp: utf8_prev_char_def)

lemma char_length_pos: "1 \<le> utf8_char_length b"
  by (simp add: utf8_char_length_def)

lemma next_bounds: "0 \<le> i \<Longrightarrow> i < int (length l) \<Longrightarrow> i < utf8_next_char l i \<and> utf8_next_char l i \<le> int (length l)"
  using char_length_pos [of "byte_at l (nat i)"] by (auto simp: utf8_next_char_def Let_def)

lemma line_ok_parts: "line_ok l \<Longrightarrow> line_ok (take c l)" "line_ok l \<Longrightarrow> line_ok (drop c l)"
  "line_ok l \<Longrightarrow> line_ok l' \<Longrightarrow> length l + length l' < MAX_LINE_LEN \<Longrightarrow> line_ok (l @ l')"
  "line_ok l \<Longrightarrow> i \<le> j \<Longrightarrow> line_ok (take i l @ drop j l)"
  by (auto simp: line_ok_def dest: in_set_takeD in_set_dropD)

lemma insert_doc:
  assumes "ed_ok ed" "at ed r c l" "line_byte x" "length l < MAX_LINE_LEN - 2"
  shows "ed_ok (editor_insert_char x ed) \<and> at (editor_insert_char x ed) r (c + 1) (take c l @ x # drop c l)
    \<and> doc (editor_insert_char x ed) = (doc ed)[r := take c l @ x # drop c l]"
proof -
  note a = at_cursor [OF assms(1,2)]
  let ?e = "editor_insert_char x ed"
  have e: "lines ?e = (lines ed)[r := take c l @ x # drop c l]" "num_lines ?e = num_lines ed" "cur_row ?e = int r" "cur_col ?e = int (c + 1)"
    using a assms(2,4) by (simp_all add: editor_insert_char_def Let_def set_line_def at_def)
  have "line_ok (take c l @ x # drop c l)"
    using a(6) assms(3,4) by (auto simp: line_ok_def dest: in_set_takeD in_set_dropD)
  then have "ed_ok ?e" using e(1,2) assms(2) unfolding at_def by (blast intro: ok_update [OF assms(1)])
  moreover have "doc ?e = (doc ed)[r := take c l @ x # drop c l]" using doc_update [OF e(1,2)] .
  ultimately show ?thesis using e(2-4) a(7) assms(2) by (auto simp: at_def)
qed

lemma insert_full: "at ed r c l \<Longrightarrow> ed_ok ed \<Longrightarrow> \<not> length l < MAX_LINE_LEN - 2 \<Longrightarrow> editor_insert_char x ed = ed"
  using at_cursor(2) by (simp add: editor_insert_char_def Let_def)

lemma newline_doc:
  assumes "ed_ok ed" "at ed r c l" "num_lines ed < MAX_EDITOR_LINES - 1"
  shows "ed_ok (editor_insert_newline ed) \<and> at (editor_insert_newline ed) (r + 1) 0 (drop c l)
    \<and> doc (editor_insert_newline ed) = take r (doc ed) @ [take c l, drop c l] @ drop (r + 1) (doc ed)"
proof -
  note a = at_cursor [OF assms(1,2)]
  let ?e = "editor_insert_newline ed"
  have n: "num_lines ed < length (lines ed)" "r < num_lines ed" using assms by (simp_all add: ed_ok_def at_def)
  have cur: "lines_down (num_lines ed) (r + 1) (lines ed) ! r = l" using n a(8) by (simp add: lines_down_nth)
  have e: "lines ?e = (lines_down (num_lines ed) (r + 1) (lines ed))[r + 1 := drop c l, r := take c l]" "num_lines ?e = num_lines ed + 1"
    "cur_row ?e = int (r + 1)" "cur_col ?e = 0"
    using a assms(2,3) cur by (simp_all add: editor_insert_newline_def Let_def at_def)
  have d: "doc ?e = take r (doc ed) @ [take c l, drop c l] @ drop (r + 1) (doc ed)"
    using split_take [OF n, of "drop c l" "take c l"] e(1,2) by (simp add: doc_def)
  have "\<forall>x \<in> set (doc ?e). line_ok x"
    using assms(1) a(6) unfolding d by (auto simp: ed_ok_def line_ok_parts dest: in_set_takeD in_set_dropD)
  then have "ed_ok ?e" using assms(1,3) e(1,2) n(1) by (simp add: ed_ok_def)
  then show ?thesis using d e a(7) n(2) by (auto simp: at_def nth_append)
qed

text \<open>Joining line \<open>r\<close> with the next one.\<close>

lemma join_doc:
  assumes "ed_ok ed" "r + 1 < num_lines ed" "length (doc ed ! r) + length (doc ed ! (r + 1)) < MAX_LINE_LEN"
    "lines ed' = lines_up (num_lines ed) (r + 1) ((lines ed)[r := doc ed ! r @ doc ed ! (r + 1)])" "num_lines ed' = num_lines ed - 1"
  shows "ed_ok ed' \<and> doc ed' = take r (doc ed) @ (doc ed ! r @ doc ed ! (r + 1)) # drop (r + 2) (doc ed)"
proof -
  have n: "num_lines ed \<le> length (lines ed)" using assms(1) by (simp add: ed_ok_def)
  have d: "doc ed' = take r (doc ed) @ (doc ed ! r @ doc ed ! (r + 1)) # drop (r + 2) (doc ed)"
    using lines_up_take [of "num_lines ed" "(lines ed)[r := doc ed ! r @ doc ed ! (r + 1)]" "r + 1"] n assms(2,4,5)
      doc_length [OF assms(1)]
    by (simp add: doc_def take_update_swap) (simp flip: doc_def add: take_Suc_conv_app_nth list_update_append)
  have "doc ed ! r \<in> set (doc ed)" "doc ed ! (r + 1) \<in> set (doc ed)" using assms(2) doc_length [OF assms(1)] by simp_all
  then have "\<forall>x \<in> set (doc ed'). line_ok x"
    using assms(1,3) unfolding d by (auto simp: ed_ok_def line_ok_parts(3) dest: in_set_takeD in_set_dropD)
  moreover have "1 \<le> num_lines ed - 1" "num_lines ed - 1 \<le> MAX_EDITOR_LINES" using assms(1,2) unfolding ed_ok_def by linarith+
  ultimately show ?thesis using d assms(1,4,5) by (simp add: ed_ok_def)
qed


lemma backspace_char:
  assumes "ed_ok ed" "at ed r c l" "0 < c"
  defines "p \<equiv> back_over l (c - 1)"
  shows "ed_ok (editor_backspace ed) \<and> at (editor_backspace ed) r p (take p l @ drop c l)
    \<and> doc (editor_backspace ed) = (doc ed)[r := take p l @ drop c l]"
proof -
  note a = at_cursor [OF assms(1,2)]
  let ?e = "editor_backspace ed"
  have p: "utf8_prev_char l (int c) = int p" "p < c"
    using assms(3) back_over_le [of l "c - 1"] by (auto simp: utf8_prev_char_def p_def nat_diff_distrib)
  have c: "cur_col ed = int c" "cur_row ed = int r" "c \<le> length l" "r < num_lines ed" using assms(2) by (auto simp: at_def)
  have e: "lines ?e = (lines ed)[r := take p l @ drop c l]" "num_lines ?e = num_lines ed" "cur_row ?e = int r" "cur_col ?e = int p"
    using a c p assms(3) by (simp_all add: editor_backspace_def Let_def set_line_def)
  have "line_ok (take p l @ drop c l)" using line_ok_parts(4) [OF a(6), of p c] p(2) by simp
  then have "ed_ok ?e" using e(1,2) c(4) by (blast intro: ok_update [OF assms(1)])
  moreover have "doc ?e = (doc ed)[r := take p l @ drop c l]" using doc_update [OF e(1,2)] .
  ultimately show ?thesis using e(2-4) a(7) c p(2) by (simp add: at_def)
qed

lemma backspace_join:
  assumes "ed_ok ed" "at ed (Suc r) 0 l" "length (doc ed ! r) + length l < MAX_LINE_LEN"
  shows "ed_ok (editor_backspace ed) \<and> at (editor_backspace ed) r (length (doc ed ! r)) (doc ed ! r @ l)
    \<and> doc (editor_backspace ed) = take r (doc ed) @ (doc ed ! r @ l) # drop (r + 2) (doc ed)"
proof -
  note a = at_cursor [OF assms(1,2)]
  let ?e = "editor_backspace ed"
  have l: "l = doc ed ! (r + 1)" "r + 1 < num_lines ed" "cur_col ed = 0" "cur_row ed = int (r + 1)" using assms(2) by (auto simp: at_def)
  have p: "lines ed ! r = doc ed ! r" using l(2) by (simp add: doc_def)
  have e: "lines ?e = lines_up (num_lines ed) (r + 1) ((lines ed)[r := doc ed ! r @ doc ed ! (r + 1)])"
    "num_lines ?e = num_lines ed - 1" "cur_row ?e = int r" "cur_col ?e = int (length (doc ed ! r))"
    using a l assms(3) p by (simp_all add: editor_backspace_def Let_def)
  have j: "ed_ok ?e \<and> doc ?e = take r (doc ed) @ (doc ed ! r @ doc ed ! (r + 1)) # drop (r + 2) (doc ed)"
    using join_doc [OF assms(1) l(2) _ e(1,2)] assms(3) l(1) by simp
  then have "at ?e r (length (doc ed ! r)) (doc ed ! r @ l)"
    using e(2-4) l(1,2) doc_length [OF assms(1)] by (auto simp: at_def nth_append)
  then show ?thesis using j l(1) by simp
qed

lemma backspace_none:
  assumes "ed_ok ed" "at ed r 0 l" "r = 0 \<or> \<not> length (doc ed ! (r - 1)) + length l < MAX_LINE_LEN"
  shows "editor_backspace ed = ed"
proof -
  note a = at_cursor [OF assms(1,2)]
  have "cur_col ed = 0" "cur_row ed = int r" "r < num_lines ed" using assms(2) by (auto simp: at_def)
  moreover from this have "lines ed ! (r - 1) = doc ed ! (r - 1)" by (simp add: doc_def)
  ultimately show ?thesis using a assms(3) by (auto simp: editor_backspace_def Let_def)
qed

lemma delete_char:
  assumes "ed_ok ed" "at ed r c l" "c < length l"
  defines "n \<equiv> min (c + utf8_char_length (l ! c)) (length l)"
  shows "ed_ok (editor_delete ed) \<and> at (editor_delete ed) r c (take c l @ drop n l)
    \<and> doc (editor_delete ed) = (doc ed)[r := take c l @ drop n l]"
proof -
  note a = at_cursor [OF assms(1,2)]
  let ?e = "editor_delete ed"
  have c: "cur_col ed = int c" "cur_row ed = int r" "r < num_lines ed" using assms(2) by (auto simp: at_def)
  have n: "utf8_next_char l (int c) = int n" using assms(3) by (auto simp: utf8_next_char_def n_def byte_at_def Let_def)
  have e: "lines ?e = (lines ed)[r := take c l @ drop n l]" "num_lines ?e = num_lines ed" "cur_row ?e = int r" "cur_col ?e = int c"
    using a c n assms(3) by (simp_all add: editor_delete_def Let_def set_line_def)
  have "c \<le> n" using assms(3) by (simp add: n_def)
  then have "line_ok (take c l @ drop n l)" using line_ok_parts(4) [OF a(6), of c n] by simp
  then have "ed_ok ?e" using e(1,2) c(3) by (blast intro: ok_update [OF assms(1)])
  moreover have "doc ?e = (doc ed)[r := take c l @ drop n l]" using doc_update [OF e(1,2)] .
  ultimately show ?thesis using e(2-4) a(7) c assms(3) by (simp add: at_def)
qed

lemma delete_join:
  assumes "ed_ok ed" "at ed r (length l) l" "r + 1 < num_lines ed" "length l + length (doc ed ! (r + 1)) < MAX_LINE_LEN"
  shows "ed_ok (editor_delete ed) \<and> at (editor_delete ed) r (length l) (l @ doc ed ! (r + 1))
    \<and> doc (editor_delete ed) = take r (doc ed) @ (l @ doc ed ! (r + 1)) # drop (r + 2) (doc ed)"
proof -
  note a = at_cursor [OF assms(1,2)]
  let ?e = "editor_delete ed"
  have l: "l = doc ed ! r" "cur_col ed = int (length l)" "cur_row ed = int r" using assms(2) by (auto simp: at_def)
  have p: "lines ed ! (r + 1) = doc ed ! (r + 1)" using assms(3) by (simp add: doc_def)
  have e: "lines ?e = lines_up (num_lines ed) (r + 1) ((lines ed)[r := doc ed ! r @ doc ed ! (r + 1)])"
    "num_lines ?e = num_lines ed - 1" "cur_row ?e = int r" "cur_col ?e = int (length l)"
    using a l assms(3,4) p by (simp_all add: editor_delete_def Let_def)
  have j: "ed_ok ?e \<and> doc ?e = take r (doc ed) @ (doc ed ! r @ doc ed ! (r + 1)) # drop (r + 2) (doc ed)"
    using join_doc [OF assms(1,3) _ e(1,2)] assms(4) l(1) by simp
  then have "at ?e r (length l) (l @ doc ed ! (r + 1))"
    using e(2-4) l(1) assms(3) doc_length [OF assms(1)] by (auto simp: at_def nth_append)
  then show ?thesis using j l(1) by simp
qed

lemma delete_none:
  assumes "ed_ok ed" "at ed r (length l) l" "\<not> r + 1 < num_lines ed \<or> \<not> length l + length (doc ed ! (r + 1)) < MAX_LINE_LEN"
  shows "editor_delete ed = ed"
proof -
  note a = at_cursor [OF assms(1,2)]
  have "cur_col ed = int (length l)" "cur_row ed = int r" using assms(2) by (auto simp: at_def)
  moreover have "lines ed ! (r + 1) = doc ed ! (r + 1)" if "r + 1 < num_lines ed" using that by (simp add: doc_def)
  ultimately show ?thesis using a assms(3) by (auto simp: editor_delete_def Let_def)
qed


lemma delete_line_doc:
  assumes "ed_ok ed" "at ed r c l" "1 < num_lines ed"
  shows "ed_ok (editor_delete_line ed) \<and> doc (editor_delete_line ed) = take r (doc ed) @ drop (r + 1) (doc ed)"
proof -
  note a = at_cursor [OF assms(1,2)]
  let ?e = "editor_delete_line ed"
  have n: "num_lines ed \<le> length (lines ed)" "r < num_lines ed" using assms(1,2) by (simp_all add: ed_ok_def at_def)
  have e: "lines ?e = lines_up (num_lines ed) r (lines ed)" "num_lines ?e = num_lines ed - 1"
    using a assms(3) by (simp_all add: editor_delete_line_def Let_def set_status_msg_def)
  have d: "doc ?e = take r (doc ed) @ drop (r + 1) (doc ed)" using lines_up_take [OF n] e by (simp add: doc_def)
  have "\<forall>x \<in> set (doc ?e). line_ok x"
    using assms(1) unfolding d by (auto simp: ed_ok_def dest: in_set_takeD in_set_dropD)
  then have "ed_ok ?e" using assms(1,3) e by (auto simp: ed_ok_def)
  then show ?thesis using d by simp
qed

text \<open>What matters to the bounds of the text are its lines.\<close>

lemma ok_lines: "lines ed' = lines ed \<Longrightarrow> num_lines ed' = num_lines ed \<Longrightarrow> ed_ok ed' = ed_ok ed"
  by (simp add: ed_ok_def doc_def)

lemma status_ok [simp]: "ed_ok (set_status_msg m col ed) = ed_ok ed"
  by (rule ok_lines) (simp_all add: set_status_msg_def)

lemma field_ok [simp]: "ed_ok (ed \<lparr> cur_row := i \<rparr>) = ed_ok ed" "ed_ok (ed \<lparr> cur_col := i \<rparr>) = ed_ok ed"
  "ed_ok (ed \<lparr> top_row := i \<rparr>) = ed_ok ed" "ed_ok (ed \<lparr> left_col := i \<rparr>) = ed_ok ed"
  "ed_ok (ed \<lparr> modified := b \<rparr>) = ed_ok ed" "ed_ok (ed \<lparr> running := b \<rparr>) = ed_ok ed"
  by (rule ok_lines; simp)+

lemma status_doc [simp]: "doc (set_status_msg m col ed) = doc ed"
  by (simp add: doc_def set_status_msg_def)

lemma one_empty_line_ok:
  assumes "length (lines ed) = MAX_EDITOR_LINES"
  shows "ed_ok (one_empty_line ed)" "doc (one_empty_line ed) = [[]]"
proof -
  have "take 1 ((lines ed)[0 := []]) = [[]]" using assms by (cases "lines ed") (auto simp: MAX_EDITOR_LINES_def)
  then show "doc (one_empty_line ed) = [[]]" by (simp add: one_empty_line_def set_line_def doc_def)
  then show "ed_ok (one_empty_line ed)"
    using assms by (simp add: ed_ok_def one_empty_line_def set_line_def line_ok_def MAX_EDITOR_LINES_def MAX_LINE_LEN_def)
qed

section \<open>The view\<close>

definition view_rows :: "int \<Rightarrow> int" where
  "view_rows term_h = (if term_h > 3 then term_h - 3 else 1)"

definition view_width :: "int \<Rightarrow> int" where
  "view_width term_w = (if term_w - GUTTER_WIDTH < 1 then 1 else term_w - GUTTER_WIDTH)"

definition cursor_shown :: "int \<Rightarrow> int \<Rightarrow> editor_state \<Rightarrow> bool" where
  "cursor_shown term_w term_h ed \<longleftrightarrow>
     top_row ed \<le> cur_row ed \<and> cur_row ed < top_row ed + view_rows term_h
     \<and> left_col ed \<le> utf8_byte_to_column (cur_line ed) (cur_col ed)
     \<and> utf8_byte_to_column (cur_line ed) (cur_col ed) < left_col ed + view_width term_w"

definition clamp :: "int \<Rightarrow> int \<Rightarrow> int" where
  "clamp hi x = min hi (max 0 x)"

definition scroll :: "int \<Rightarrow> int \<Rightarrow> int \<Rightarrow> int" where
  "scroll span at_pos start = (let s = min start at_pos in if at_pos \<ge> s + span then at_pos - span + 1 else s)"

lemma scroll_shows: "1 \<le> span \<Longrightarrow> scroll span x s \<le> x \<and> x < scroll span x s + span"
  by (auto simp: scroll_def Let_def)

lemma scroll_id: "s \<le> x \<Longrightarrow> x < s + span \<Longrightarrow> scroll span x s = s"
  by (auto simp: scroll_def)

lemma view_pos: "1 \<le> view_rows h" "1 \<le> view_width w"
  by (auto simp: view_rows_def view_width_def)

text \<open>The adjustment as a single assignment.\<close>

lemma adjust_view_eq:
  assumes "1 \<le> num_lines ed"
  defines "row \<equiv> clamp (int (num_lines ed) - 1) (cur_row ed)"
  defines "col \<equiv> clamp (int (length (lines ed ! nat row))) (cur_col ed)"
  shows "editor_adjust_view term_w term_h ed = ed \<lparr> cur_row := row, cur_col := col, top_row := scroll (view_rows term_h) row (top_row ed),
    left_col := scroll (view_width term_w) (utf8_byte_to_column (lines ed ! nat row) col) (left_col ed) \<rparr>"
proof -
  let ?e1 = "if cur_row ed < 0 then ed \<lparr> cur_row := 0 \<rparr> else ed"
  have r: "(if cur_row ?e1 \<ge> int (num_lines ?e1) then ?e1 \<lparr> cur_row := int (num_lines ?e1) - 1 \<rparr> else ?e1) = ed \<lparr> cur_row := row \<rparr>"
    using assms(1) by (auto simp: row_def clamp_def)
  let ?e2 = "ed \<lparr> cur_row := row \<rparr>"
  let ?e3 = "if cur_col ?e2 < 0 then ?e2 \<lparr> cur_col := 0 \<rparr> else ?e2"
  have c: "(if cur_col ?e3 > int (length (cur_line ?e2)) then ?e3 \<lparr> cur_col := int (length (cur_line ?e2)) \<rparr> else ?e3)
      = ed \<lparr> cur_row := row, cur_col := col \<rparr>"
    by (auto simp: col_def clamp_def cur_line_def)
  let ?e4 = "ed \<lparr> cur_row := row, cur_col := col \<rparr>"
  let ?e5 = "if cur_row ?e4 < top_row ?e4 then ?e4 \<lparr> top_row := cur_row ?e4 \<rparr> else ?e4"
  have t: "(if cur_row ?e5 \<ge> top_row ?e5 + view_rows term_h then ?e5 \<lparr> top_row := cur_row ?e5 - view_rows term_h + 1 \<rparr> else ?e5)
      = ed \<lparr> cur_row := row, cur_col := col, top_row := scroll (view_rows term_h) row (top_row ed) \<rparr>"
    by (auto simp: scroll_def Let_def)
  show ?thesis
    unfolding editor_adjust_view_def Let_def r c view_rows_def [symmetric] t view_width_def [symmetric]
    by (auto simp: cur_line_def scroll_def [of "view_width term_w"] Let_def)
qed

lemma adjust_view_ok:
  assumes "ed_ok ed"
  shows "ed_ok (editor_adjust_view w h ed)" "doc (editor_adjust_view w h ed) = doc ed" "cursor_ok (editor_adjust_view w h ed)"
    "cursor_shown w h (editor_adjust_view w h ed)" "modified (editor_adjust_view w h ed) = modified ed"
    "running (editor_adjust_view w h ed) = running ed"
proof -
  have n: "1 \<le> num_lines ed" using assms by (simp add: ed_ok_def)
  note eq = adjust_view_eq [OF n, of w h]
  show "doc (editor_adjust_view w h ed) = doc ed" "modified (editor_adjust_view w h ed) = modified ed"
    "running (editor_adjust_view w h ed) = running ed" unfolding eq by (simp_all add: doc_def)
  show "ed_ok (editor_adjust_view w h ed)" using assms unfolding eq by simp
  show "cursor_ok (editor_adjust_view w h ed)" using n unfolding eq by (simp add: cursor_ok_def clamp_def cur_line_def)
  show "cursor_shown w h (editor_adjust_view w h ed)"
    unfolding eq cursor_shown_def by (simp add: cur_line_def scroll_shows view_pos)
qed

lemma adjust_names:
  assumes "ed_ok ed"
  shows "ed_filename (editor_adjust_view w h ed) = ed_filename ed" "ed_dev_name (editor_adjust_view w h ed) = ed_dev_name ed"
  using assms adjust_view_eq [of ed w h] by (simp_all add: ed_ok_def)

text \<open>Adjusting a view twice is adjusting it once, so that adjusting before every key and adjusting only
  after a change are the same.\<close>

lemma adjust_view_again:
  assumes "cursor_ok ed" "cursor_shown w h ed"
  shows "editor_adjust_view w h ed = ed"
proof -
  have n: "1 \<le> num_lines ed" using assms(1) by (auto simp: cursor_ok_def)
  have row: "clamp (int (num_lines ed) - 1) (cur_row ed) = cur_row ed"
    and col: "clamp (int (length (cur_line ed))) (cur_col ed) = cur_col ed"
    using assms(1) by (auto simp: cursor_ok_def clamp_def)
  show ?thesis
    using assms(2) col unfolding adjust_view_eq [OF n, of w h] row cur_line_def
    by (simp add: cursor_shown_def cur_line_def scroll_id)
qed


section \<open>Bounds are kept\<close>

lemma insert_ok:
  assumes "ed_ok ed" "cursor_ok ed" "line_byte x"
  shows "ed_ok (editor_insert_char x ed) \<and> cursor_ok (editor_insert_char x ed)"
proof -
  obtain r c l where at: "at ed r c l" using cursor_at [OF assms(1,2)] .
  show ?thesis
  proof (cases "length l < MAX_LINE_LEN - 2")
    case True
    then show ?thesis using insert_doc [OF assms(1) at assms(3)] at_cursor(1) by blast
  next
    case False
    then show ?thesis using insert_full [OF at assms(1)] assms(1,2) by simp
  qed
qed

lemma newline_ok:
  assumes "ed_ok ed" "cursor_ok ed"
  shows "ed_ok (editor_insert_newline ed)"
proof (cases "num_lines ed < MAX_EDITOR_LINES - 1")
  case True
  obtain r c l where "at ed r c l" using cursor_at [OF assms] .
  then show ?thesis using newline_doc [OF assms(1) _ True] by blast
qed (use assms(1) in \<open>simp add: editor_insert_newline_def\<close>)

lemma backspace_ok:
  assumes "ed_ok ed" "cursor_ok ed"
  shows "ed_ok (editor_backspace ed)"
proof -
  obtain r c l where at: "at ed r c l" using cursor_at [OF assms] .
  show ?thesis
  proof (cases c)
    case (Suc c')
    then show ?thesis using backspace_char [OF assms(1) at] by simp
  next
    case 0
    note at = at [unfolded 0]
    show ?thesis
    proof (cases "r = 0 \<or> \<not> length (doc ed ! (r - 1)) + length l < MAX_LINE_LEN")
      case True
      then show ?thesis using backspace_none [OF assms(1) at] assms(1) by simp
    next
      case False
      then obtain r' where "r = Suc r'" by (cases r) auto
      then show ?thesis using backspace_join [OF assms(1), of r' l] at False by simp
    qed
  qed
qed

lemma delete_ok:
  assumes "ed_ok ed" "cursor_ok ed"
  shows "ed_ok (editor_delete ed)"
proof -
  obtain r c l where at: "at ed r c l" using cursor_at [OF assms] .
  consider "c < length l" | "c = length l" using at by (force simp: at_def)
  then show ?thesis
  proof cases
    case 1
    then show ?thesis using delete_char [OF assms(1) at] by simp
  next
    case 2
    then show ?thesis using delete_none [OF assms(1)] delete_join [OF assms(1)] at assms(1) by metis
  qed
qed

lemma delete_line_ok:
  assumes "ed_ok ed" "cursor_ok ed"
  shows "ed_ok (editor_delete_line ed)"
proof (cases "1 < num_lines ed")
  case True
  obtain r c l where "at ed r c l" using cursor_at [OF assms] .
  then show ?thesis using delete_line_doc [OF assms(1) _ True] by blast
next
  case False
  then have n: "num_lines ed = 1" using assms(1) by (simp add: ed_ok_def)
  then have "editor_delete_line ed = (one_empty_line ed) \<lparr> cur_row := 0, cur_col := 0, modified := True \<rparr>"
    by (simp add: editor_delete_line_def one_empty_line_def set_line_def)
  moreover have "ed_ok (one_empty_line ed)" using one_empty_line_ok(1) [of ed] assms(1) by (simp add: ed_ok_def [of ed])
  ultimately show ?thesis by simp
qed

lemma save_ok: "editor_save_file env w ed = (w', ed', ok) \<Longrightarrow> lines ed' = lines ed \<and> num_lines ed' = num_lines ed"
  by (auto simp: editor_save_file_def set_status_msg_def Let_def split: if_splits option.splits prod.splits)

lemma byte_ok: "32 \<le> c \<Longrightarrow> c \<le> 255 \<Longrightarrow> line_byte (of_int c)"
proof -
  assume "32 \<le> c" "c \<le> 255"
  then have "uint (of_int c :: u8) = c" by (simp add: uint_word_of_int)
  then show ?thesis using \<open>32 \<le> c\<close> by (auto simp: line_byte_def)
qed

lemma if_ok: "(b \<Longrightarrow> ed_ok (snd x)) \<Longrightarrow> (\<not> b \<Longrightarrow> ed_ok (snd y)) \<Longrightarrow> ed_ok (snd (if b then x else y))"
  by simp

lemma key_ok:
  assumes "ed_ok ed" "cursor_ok ed"
  shows "ed_ok (snd (editor_key env c (w, ed)))"
proof -
  have s: "ed_ok ed'" if "editor_save_file env w ed = (w', ed', ok)" for w' ed' ok
    using save_ok [OF that] ok_lines assms(1) by blast
  have n: "ed_ok (one_empty_line e)" if "ed_ok e" for e
    using one_empty_line_ok(1) [of e] that by (simp add: ed_ok_def [of e])
  have t: "ed_ok ((editor_insert_char 32 ^^ 4) ed)"
    using assms insert_ok [of _ 32] byte_ok [of 32] by (simp add: eval_nat_numeral(2,3))
  have b: "ed_ok (editor_insert_char (of_int c) ed)" if "32 \<le> c \<and> c \<le> 255" using insert_ok [OF assms byte_ok] that by blast
  show ?thesis
    unfolding editor_key_def prod.case
    by (intro if_ok) (auto simp: assms t b s n newline_ok backspace_ok delete_ok delete_line_ok split: prod.split)
qed

lemma deciding_ok: "ed_ok (snd s) \<Longrightarrow> ed_ok (snd (fst (deciding env ks s)))"
proof (induction ks)
  case (Cons opt ks)
  have "ed_ok ed'" if "editor_save_file env (fst s) (snd s) = (w', ed', ok)" for w' ed' ok
    using save_ok [OF that] ok_lines Cons.prems by blast
  then show ?case using Cons by (simp split: prod.splits)
qed simp

lemma round_ok:
  assumes "ed_ok ed" "cursor_ok ed"
  shows "ed_ok (snd (fst (editor_round env c ks (w, ed))))"
  using assms(1) key_ok [OF assms, of env c w] by (simp add: editor_round_def deciding_ok)

lemma loop_ok: "ed_ok (snd s) \<Longrightarrow> ed_ok (snd (editor_loop env tw th ks s))"
proof (induction env tw th ks s rule: editor_loop.induct)
  case (2 env tw th c ks s)
  let ?r = "editor_round env c ks (fst s, editor_adjust_view tw th (snd s))"
  have "ed_ok (snd (fst ?r))" by (intro round_ok adjust_view_ok(1,3) "2.prems")
  then show ?case using 2 by (cases ?r) simp
qed simp

lemma load_lines_room: "length (load_lines n p) \<le> n"
  by (induction n arbitrary: p) auto

lemma load_lines_ok: "l \<in> set (load_lines n p) \<Longrightarrow> line_ok l"
  by (induction n arbitrary: p) (auto simp: line_ok_def MAX_LINE_LEN_def dest: in_set_takeD set_takeWhileD split: if_splits)

lemma load_ok:
  assumes "length (lines ed) = MAX_EDITOR_LINES"
  shows "ed_ok (editor_load_file env w ed)"
proof -
  let ?ed = "ed \<lparr> num_lines := 0, cur_row := 0, cur_col := 0, top_row := 0, left_col := 0, modified := False \<rparr>"
  let ?n = "one_empty_line ?ed"
  have l: "ed_ok (?ed \<lparr> lines := ls @ drop (length ls) (lines ?ed), num_lines := length ls \<rparr>)"
    if "ls = load_lines MAX_EDITOR_LINES p" "ls \<noteq> []" for ls p
    using that assms load_lines_room [of MAX_EDITOR_LINES p] load_lines_ok [of _ MAX_EDITOR_LINES p]
    by (auto simp: ed_ok_def doc_def Suc_le_eq)
  have s: "one_empty_line (set_status_msg m col ?ed) = set_status_msg m col ?n" for m col
    by (simp add: one_empty_line_def set_line_def set_status_msg_def)
  show ?thesis
    unfolding editor_load_file_def Let_def s
    using assms l [OF refl] by (simp add: one_empty_line_ok(1) split: option.split list.split)
qed

text \<open>C38. Whatever is typed into the editor, the file it opened and the disk it is on, the text stays within
  the buffer: between 1 and 1024 lines of at most 511 bytes, none of which is a terminator or a line end;
  and after the adjustment of the view that follows, the cursor is on a line of the text, within that line,
  and within the part of it the screen shows.
\<close>

theorem editor_invariant:
  fixes env :: "'w ed_env" and w :: 'w
  shows "ed_ok (snd (editor_open env term_w term_h dev_name filename keys w))
    \<and> cursor_ok (editor_adjust_view term_w term_h (snd (editor_open env term_w term_h dev_name filename keys w)))
    \<and> cursor_shown term_w term_h (editor_adjust_view term_w term_h (snd (editor_open env term_w term_h dev_name filename keys w)))"
proof -
  have "ed_ok (snd (editor_open env term_w term_h dev_name filename keys w))"
    unfolding editor_open_def Let_def by (intro loop_ok) (simp add: load_ok zero_editor_def)
  then show ?thesis using adjust_view_ok(3,4) by blast
qed


section \<open>The text\<close>

text \<open>The text as the user sees it: the bytes before the cursor and those after it.\<close>

definition before :: "editor_state \<Rightarrow> u8 list" where
  "before ed = (let r = nat (cur_row ed) in join_lines (take r (doc ed) @ [take (nat (cur_col ed)) (doc ed ! r)]))"

definition after :: "editor_state \<Rightarrow> u8 list" where
  "after ed = (let r = nat (cur_row ed) in join_lines (drop (nat (cur_col ed)) (doc ed ! r) # drop (r + 1) (doc ed)))"

lemma join_Cons: "ls \<noteq> [] \<Longrightarrow> join_lines (l # ls) = l @ 10 # join_lines ls"
  by (cases ls) auto

lemma join_split: "join_lines (xs @ (a @ b) # ys) = join_lines (xs @ [a]) @ join_lines (b # ys)"
  by (induction xs) (cases ys; auto simp: join_Cons)+

lemma join_snoc: "join_lines (xs @ [l, a]) = join_lines (xs @ [l]) @ 10 # a"
  by (induction xs) (auto simp: join_Cons)

lemma at_text:
  assumes "at ed r c l"
  shows "before ed = join_lines (take r (doc ed) @ [take c l])" "after ed = join_lines (drop c l # drop (r + 1) (doc ed))"
  using assms by (simp_all add: at_def before_def after_def)

lemma text_split:
  assumes "ed_ok ed" "at ed r c l"
  shows "before ed @ after ed = join_lines (doc ed)"
  using join_split [of "take r (doc ed)" "take c l" "drop c l" "drop (r + 1) (doc ed)"] at_cursor(10) [OF assms]
  by (simp add: at_text [OF assms(2)])

text \<open>Taking back the last character of a text, which ends where its line starts.\<close>

fun rubout :: "u8 list \<Rightarrow> u8 list" where
  "rubout [] = []"
| "rubout (b # s) = (if is_cont b \<and> s \<noteq> [] \<and> hd s \<noteq> 10 then rubout s else s)"

definition drop_char :: "u8 list \<Rightarrow> u8 list" where
  "drop_char s = (case s of [] \<Rightarrow> []
     | b # _ \<Rightarrow> drop (max 1 (min (utf8_char_length b) (length (takeWhile (\<lambda>x. x \<noteq> 10) s)))) s)"

lemma rubout_line:
  assumes "c < length l" "\<forall>x \<in> set l. x \<noteq> 10" "pre = [] \<or> hd pre = 10"
  shows "rubout (rev (take (Suc c) l) @ pre) = rev (take (back_over l c) l) @ pre"
  using assms(1)
proof (induction c)
  case 0
  then show ?case using assms(3) by (cases l) auto
next
  case (Suc c)
  have t: "take (Suc (Suc c)) l = take (Suc c) l @ [l ! Suc c]" "take (Suc c) l = take c l @ [l ! c]"
    using Suc.prems by (simp_all add: take_Suc_conv_app_nth)
  have "l ! c \<noteq> 10" using assms(2) Suc.prems by simp
  then show ?case using Suc t by (auto simp: byte_at_def)
qed

lemma join_rev_last: "join_lines (xs @ [a]) = (if xs = [] then a else join_lines xs @ 10 # a)"
  by (cases xs rule: rev_cases) (auto simp: join_snoc)

lemma no_newline: "line_ok l \<Longrightarrow> \<forall>x \<in> set l. x \<noteq> 10"
  by (auto simp: line_ok_def line_byte_def)

lemma takeWhile_line:
  assumes "\<forall>x \<in> set l. x \<noteq> 10"
  shows "takeWhile (\<lambda>x. x \<noteq> 10) (join_lines (l # ls)) = l"
  using assms by (cases ls) (auto simp: takeWhile_eq_all_conv takeWhile_append2)

lemma drop_join: "n \<le> length l \<Longrightarrow> drop n (join_lines (l # ls)) = join_lines (drop n l # ls)"
  by (cases ls) auto


definition can_join :: "editor_state \<Rightarrow> nat \<Rightarrow> bool" where
  "can_join ed r \<longleftrightarrow> length (doc ed ! r) + length (doc ed ! (r + 1)) < MAX_LINE_LEN"

lemma insert_text:
  assumes "ed_ok ed" "at ed r c l" "line_byte x" "length l < MAX_LINE_LEN - 2"
  shows "before (editor_insert_char x ed) = before ed @ [x]" "after (editor_insert_char x ed) = after ed"
proof -
  let ?e = "editor_insert_char x ed"
  have e: "at ?e r (c + 1) (take c l @ x # drop c l)" "doc ?e = (doc ed)[r := take c l @ x # drop c l]"
    using insert_doc [OF assms] by blast+
  have "c \<le> length l" using assms(2) by (auto simp: at_def)
  then show "before ?e = before ed @ [x]" "after ?e = after ed"
    using at_text [OF e(1)] at_text [OF assms(2)] e(2) join_split [of "take r (doc ed)" "take c l" "[x]" "[]"] by simp_all
qed

lemma newline_text:
  assumes "ed_ok ed" "at ed r c l" "num_lines ed < MAX_EDITOR_LINES - 1"
  shows "before (editor_insert_newline ed) = before ed @ [10]" "after (editor_insert_newline ed) = after ed"
proof -
  let ?e = "editor_insert_newline ed"
  have e: "at ?e (r + 1) 0 (drop c l)" "doc ?e = take r (doc ed) @ [take c l, drop c l] @ drop (r + 1) (doc ed)"
    using newline_doc [OF assms] by blast+
  have "r < length (doc ed)" using at_cursor(7) [OF assms(1,2)] .
  then show "before ?e = before ed @ [10]" "after ?e = after ed"
    using at_text [OF e(1)] at_text [OF assms(2)] e(2) join_snoc [of "take r (doc ed)" "take c l" "[]"] by (simp_all add: min_def)
qed

lemma before_line:
  assumes "ed_ok ed" "at ed r c l"
  shows "rev (before ed) = rev (take c l) @ (if r = 0 then [] else 10 # rev (join_lines (take r (doc ed))))"
  using assms(2) at_cursor(7) [OF assms] by (auto simp: at_text [OF assms(2)] join_rev_last)

lemma backspace_text:
  assumes "ed_ok ed" "at ed r c l" "c = 0 \<longrightarrow> 0 < r \<longrightarrow> can_join ed (r - 1)"
  shows "before (editor_backspace ed) = rev (rubout (rev (before ed)))" "after (editor_backspace ed) = after ed"
proof -
  note a = at_cursor [OF assms(1,2)]
  let ?e = "editor_backspace ed"
  have "before ?e = rev (rubout (rev (before ed))) \<and> after ?e = after ed"
  proof (cases c)
    case (Suc c')
    let ?p = "back_over l c'" let ?pre = "if r = 0 then [] else 10 # rev (join_lines (take r (doc ed)))"
    have e: "ed_ok ?e" "at ?e r ?p (take ?p l @ drop c l)" "doc ?e = (doc ed)[r := take ?p l @ drop c l]"
      using backspace_char [OF assms(1,2)] Suc by auto
    have c: "c' < length l" using assms(2) Suc by (auto simp: at_def)
    have p: "?p \<le> length l" using back_over_le [of l c'] c by simp
    have "rubout (rev (before ed)) = rev (take ?p l) @ ?pre"
      using rubout_line [OF c no_newline [OF a(6)], of ?pre] before_line [OF assms(1,2)] Suc by simp
    also have "\<dots> = rev (before ?e)" unfolding before_line [OF e(1,2)] e(3) using p by simp
    finally have "before ?e = rev (rubout (rev (before ed)))" by simp
    then show ?thesis using at_text(2) [OF e(2)] at_text(2) [OF assms(2)] e(3) p by simp
  next
    case 0
    note at = assms(2) [unfolded 0]
    show ?thesis
    proof (cases r)
      case 0
      then have "editor_backspace ed = ed" "before ed = []" using backspace_none [OF assms(1) at] at_text(1) [OF at] by simp_all
      then show ?thesis by simp
    next
      case (Suc r')
      have r': "r' < length (doc ed)" "l = doc ed ! (r' + 1)" using a(7) Suc assms(2) by (simp_all add: at_def)
      have e: "at ?e r' (length (doc ed ! r')) (doc ed ! r' @ l)" "doc ?e = take r' (doc ed) @ (doc ed ! r' @ l) # drop (r' + 2) (doc ed)"
        using backspace_join [OF assms(1), of r' l] at assms(3) Suc \<open>c = 0\<close> r'(2) unfolding can_join_def by auto
      have "before ?e = join_lines (take r (doc ed))"
        using at_text(1) [OF e(1)] e(2) r'(1) Suc by (simp add: take_Suc_conv_app_nth min_def)
      moreover have "rev (before ed) = 10 # rev (join_lines (take r (doc ed)))" using before_line [OF assms(1) at] Suc by simp
      moreover have "\<not> is_cont 10" by (simp add: is_cont_def)
      ultimately show ?thesis using at_text(2) [OF e(1)] at_text(2) [OF at] e(2) r'(1) Suc by (simp add: min_def)
    qed
  qed
  then show "before ?e = rev (rubout (rev (before ed)))" "after ?e = after ed" by blast+
qed

lemma delete_text:
  assumes "ed_ok ed" "at ed r c l" "c = length l \<longrightarrow> r + 1 < num_lines ed \<longrightarrow> can_join ed r"
  shows "before (editor_delete ed) = before ed" "after (editor_delete ed) = drop_char (after ed)"
proof -
  note a = at_cursor [OF assms(1,2)]
  let ?e = "editor_delete ed" and ?ls = "drop (r + 1) (doc ed)"
  have tw: "takeWhile (\<lambda>x. x \<noteq> 10) (after ed) = drop c l"
    using takeWhile_line [of "drop c l" ?ls] no_newline [OF a(6)] at_text(2) [OF assms(2)] by (simp add: in_set_dropD)
  consider "c < length l" | "c = length l" "r + 1 < num_lines ed" | "c = length l" "\<not> r + 1 < num_lines ed"
    using assms(2) by (force simp: at_def)
  then have "before ?e = before ed \<and> after ?e = drop_char (after ed)"
  proof cases
    case 1
    let ?n = "min (utf8_char_length (l ! c)) (length l - c)"
    have e: "at ?e r c (take c l @ drop (c + ?n) l)" "doc ?e = (doc ed)[r := take c l @ drop (c + ?n) l]"
      using delete_char [OF assms(1,2) 1] 1 by (auto simp: min_def split: if_splits)
    have h: "after ed = l ! c # tl (after ed)"
      using at_text(2) [OF assms(2)] 1 by (cases ?ls) (auto simp flip: Cons_nth_drop_Suc)
    then have "drop_char (after ed) = drop (max 1 (min (utf8_char_length (l ! c)) (length (drop c l)))) (after ed)"
      unfolding drop_char_def tw by (metis list.simps(5))
    then have "drop_char (after ed) = drop ?n (after ed)"
      using 1 char_length_pos [of "l ! c"] by (simp add: max_def split: if_splits)
    also have "\<dots> = join_lines (drop (c + ?n) l # ?ls)"
      using drop_join [of ?n "drop c l" ?ls] at_text(2) [OF assms(2)] by (simp add: add.commute)
    finally show ?thesis using at_text [OF e(1)] at_text(1) [OF assms(2)] e(2) 1 by simp
  next
    case 2
    note at = assms(2) [unfolded 2(1)]
    have r: "r < length (doc ed)" "?ls = doc ed ! (r + 1) # drop (r + 2) (doc ed)"
      using a(7) 2(2) doc_length [OF assms(1)] by (simp_all add: Cons_nth_drop_Suc)
    have e: "at ?e r (length l) (l @ doc ed ! (r + 1))" "doc ?e = take r (doc ed) @ (l @ doc ed ! (r + 1)) # drop (r + 2) (doc ed)"
      using delete_join [OF assms(1) at 2(2)] can_join_def at_def assms(2,3) 2 by metis+
    have "after ed = 10 # join_lines ?ls" using at_text(2) [OF at] r(2) by simp
    then show ?thesis
      using at_text [OF e(1)] at_text(1) [OF at] e(2) r by (simp add: drop_char_def min_def)
  next
    case 3
    then have "editor_delete ed = ed" using delete_none [OF assms(1)] assms(2) by metis
    moreover have "after ed = []" using at_text(2) [OF assms(2)] 3 doc_length [OF assms(1)] by simp
    ultimately show ?thesis by (simp add: drop_char_def)
  qed
  then show "before ?e = before ed" "after ?e = drop_char (after ed)" by blast+
qed


definition cursor_text :: "editor_state \<Rightarrow> u8 list \<times> u8 list" where
  "cursor_text ed = (before ed, after ed)"

text \<open>C4. The editing commands do to the text around the cursor what they say. A byte typed goes before the
  cursor, unless the line has 510 bytes; the newline too, unless there are 1023 lines; backspace takes the
  last character before the cursor away, all of its UTF-8 bytes, or the newline, unless the joined line
  would not fit; delete takes the first one after the cursor away, under the same condition. Nothing else
  of the text changes.
\<close>

theorem editor_edits_text:
  assumes "ed_ok ed" "cursor_ok ed" "line_byte x"
  defines "r \<equiv> nat (cur_row ed)"
  shows "before ed @ after ed = join_lines (doc ed)
    \<and> cursor_text (editor_insert_char x ed)
        = (if length (cur_line ed) < 510 then (before ed @ [x], after ed) else (before ed, after ed))
    \<and> cursor_text (editor_insert_newline ed)
        = (if num_lines ed < 1023 then (before ed @ [10], after ed) else (before ed, after ed))
    \<and> cursor_text (editor_backspace ed)
        = (if cur_col ed = 0 \<and> 0 < r \<and> \<not> can_join ed (r - 1) then (before ed, after ed)
           else (rev (rubout (rev (before ed))), after ed))
    \<and> cursor_text (editor_delete ed)
        = (if cur_col ed = int (length (cur_line ed)) \<and> r + 1 < num_lines ed \<and> \<not> can_join ed r then (before ed, after ed)
           else (before ed, drop_char (after ed)))"
proof -
  obtain r' c l where at: "at ed r' c l" using cursor_at [OF assms(1,2)] .
  note a = at_cursor [OF assms(1) at]
  have r: "r' = r" "cur_col ed = int c" "cur_line ed = l" "c \<le> length l" using a at by (auto simp: r_def at_def)
  note at = at [unfolded r(1)]
  have "cursor_text (editor_backspace ed) = (if c = 0 \<and> 0 < r \<and> \<not> can_join ed (r - 1) then (before ed, after ed)
      else (rev (rubout (rev (before ed))), after ed))"
  proof (cases "c = 0 \<and> 0 < r \<and> \<not> can_join ed (r - 1)")
    case True
    then have "editor_backspace ed = ed" using backspace_none [OF assms(1), of r l] at by (auto simp: can_join_def at_def)
    then show ?thesis using True by (simp add: cursor_text_def)
  next
    case False
    then show ?thesis using backspace_text [OF assms(1) at] by (auto simp: cursor_text_def)
  qed
  moreover have "cursor_text (editor_delete ed) = (if c = length l \<and> r + 1 < num_lines ed \<and> \<not> can_join ed r then (before ed, after ed)
           else (before ed, drop_char (after ed)))"
  proof (cases "c = length l \<and> r + 1 < num_lines ed \<and> \<not> can_join ed r")
    case True
    then have "editor_delete ed = ed" using delete_none [OF assms(1), of r l] at by (auto simp: can_join_def at_def)
    then show ?thesis using True by (simp add: cursor_text_def)
  next
    case False
    then show ?thesis using delete_text [OF assms(1) at] by (auto simp: cursor_text_def)
  qed
  moreover have "editor_insert_newline ed = ed" if "\<not> num_lines ed < 1023" using that by (simp add: editor_insert_newline_def MAX_EDITOR_LINES_def)
  ultimately show ?thesis
    using text_split [OF assms(1) at] insert_text [OF assms(1) at assms(3)] insert_full [OF at assms(1), of x] newline_text [OF assms(1) at] r
    by (auto simp: cursor_text_def MAX_LINE_LEN_def MAX_EDITOR_LINES_def)
qed

theorem editor_edits_text_witness:
  fixes ed0
  defines "ed0 \<equiv> zero_editor \<lparr> lines := [195, 169] # [97] # replicate 1022 [], num_lines := 2, cur_row := 0, cur_col := 2 \<rparr>"
  shows "cursor_text ed0 = ([195, 169], [10, 97]) \<and> cursor_text (editor_insert_char 98 ed0) = ([195, 169, 98], [10, 97])
    \<and> cursor_text (editor_insert_newline ed0) = ([195, 169, 10], [10, 97])
    \<and> cursor_text (editor_backspace ed0) = ([], [10, 97]) \<and> cursor_text (editor_delete ed0) = ([195, 169], [97])"
proof -
  have d: "doc ed0 = [[195, 169], [97]]" "cur_line ed0 = [195, 169]" "nat (cur_row ed0) = 0" "cur_col ed0 = 2" "num_lines ed0 = 2"
    by (simp_all add: ed0_def doc_def cur_line_def)
  have ok: "ed_ok ed0" "cursor_ok ed0" "line_byte 98"
    using d by (auto simp: ed_ok_def cursor_ok_def line_ok_def line_byte_def MAX_EDITOR_LINES_def MAX_LINE_LEN_def ed0_def)
  have t: "before ed0 = [195, 169]" "after ed0 = [10, 97]" using d by (simp_all add: before_def after_def)
  have j: "can_join ed0 0" using d by (simp add: can_join_def MAX_LINE_LEN_def)
  show ?thesis
    using editor_edits_text [OF ok] d t j by (simp add: cursor_text_def is_cont_def drop_char_def)
qed

section \<open>Typing\<close>

definition plain :: "u8 \<Rightarrow> bool" where
  "plain b \<longleftrightarrow> 32 \<le> uint b \<and> b \<noteq> 127"

lemma plain_line_byte: "plain b \<Longrightarrow> line_byte b"
  by (auto simp: plain_def line_byte_def)

lemma at_adjusted:
  assumes "ed_ok ed" "at ed r c l"
  shows "at (editor_adjust_view w h ed) r c l"
proof -
  have "1 \<le> num_lines ed" using assms(1) by (simp add: ed_ok_def)
  then show ?thesis
    using at_cursor(8) [OF assms] assms(2) unfolding adjust_view_eq [OF \<open>1 \<le> num_lines ed\<close>, of w h]
    by (auto simp: at_def clamp_def doc_def)
qed

lemma typed_key:
  assumes "plain b \<or> b = 10" "running (snd s)"
  shows "editor_loop env w h (uint b # ks) s
    = editor_loop env w h ks (fst s, (if b = 10 then editor_insert_newline else editor_insert_char b) (editor_adjust_view w h (snd s)))"
proof -
  have u: "uint b < 256" "b = 127 \<longleftrightarrow> uint b = 127" "b = 10 \<longleftrightarrow> uint b = 10"
    using uint_bounded [of b] by (simp_all add: word_uint_eq_iff)
  have "editor_key env (uint b) (w', ed) = (w', (if b = 10 then editor_insert_newline else editor_insert_char b) ed)" for w' ed
  proof (cases "uint b = 10")
    case True
    then show ?thesis unfolding editor_key_def by (simp add: u(3) KEY_UP_def KEY_DOWN_def KEY_LEFT_def KEY_RIGHT_def KEY_HOME_def
      KEY_END_def KEY_PGUP_def KEY_PGDN_def KEY_DELETE_def)
  next
    case False
    then have "32 \<le> uint b" "uint b \<noteq> 127" using assms(1) u by (auto simp: plain_def)
    then show ?thesis using u(1) False unfolding editor_key_def by (simp add: u(3) KEY_UP_def KEY_DOWN_def KEY_LEFT_def KEY_RIGHT_def
      KEY_HOME_def KEY_END_def KEY_PGUP_def KEY_PGDN_def KEY_DELETE_def)
  qed
  moreover have "uint b \<noteq> 0" "\<not> exit_key (uint b)" using assms(1) by (auto simp: plain_def exit_key_def KEY_ESC_def)
  ultimately show ?thesis using assms(2) by (simp add: editor_round_def)
qed


definition at_end :: "editor_state \<Rightarrow> u8 list list \<Rightarrow> u8 list \<Rightarrow> bool" where
  "at_end ed xs l \<longleftrightarrow> ed_ok ed \<and> running ed \<and> doc ed = xs @ [l] \<and> at ed (length xs) (length l) l"

lemma at_end_adjusted: "at_end ed xs l \<Longrightarrow> at_end (editor_adjust_view w h ed) xs l"
  by (simp add: at_end_def adjust_view_ok at_adjusted)

lemma at_end_insert:
  assumes "at_end ed xs l" "plain b" "length l < 510"
  shows "at_end (editor_insert_char b ed) xs (l @ [b])"
proof -
  have "running (editor_insert_char b ed) = running ed" by (simp add: editor_insert_char_def set_line_def Let_def)
  then show ?thesis
    using assms insert_doc [of ed "length xs" "length l" l b] plain_line_byte [OF assms(2)] by (simp add: at_end_def MAX_LINE_LEN_def)
qed

lemma at_end_newline:
  assumes "at_end ed xs l" "length xs < 1022"
  shows "at_end (editor_insert_newline ed) (xs @ [l]) []"
proof -
  have "running (editor_insert_newline ed) = running ed" by (simp add: editor_insert_newline_def Let_def)
  moreover have "num_lines ed = length xs + 1" using assms(1) doc_length [of ed] by (simp add: at_end_def)
  ultimately show ?thesis
    using assms newline_doc [of ed "length xs" "length l" l] by (simp add: at_end_def MAX_EDITOR_LINES_def)
qed

lemma type_line:
  assumes "at_end ed xs l" "\<forall>b \<in> set t. plain b" "length l + length t \<le> 510"
  shows "\<exists>ed'. editor_loop env w h (map uint t @ ks) (d, ed) = editor_loop env w h ks (d, ed') \<and> at_end ed' xs (l @ t)
    \<and> ed_filename ed' = ed_filename ed \<and> ed_dev_name ed' = ed_dev_name ed"
  using assms
proof (induction t arbitrary: ed l)
  case (Cons b t)
  let ?e = "editor_insert_char b (editor_adjust_view w h ed)"
  have ok: "ed_ok ed" using Cons.prems(1) by (simp add: at_end_def)
  have "at_end ?e xs (l @ [b])" using at_end_insert [OF at_end_adjusted] Cons.prems by simp
  moreover have "ed_filename ?e = ed_filename ed" "ed_dev_name ?e = ed_dev_name ed"
    by (simp_all add: adjust_names [OF ok] editor_insert_char_def set_line_def Let_def)
  moreover have "b \<noteq> 10" using Cons.prems(2) by (auto simp: plain_def)
  ultimately show ?case
    using Cons.IH [of ?e "l @ [b]"] Cons.prems typed_key [of b "(d, ed)" env w h "map uint t @ ks"] by (simp add: at_end_def)
qed auto

lemma type_lines:
  assumes "at_end ed xs l" "\<forall>l \<in> set ls. length l \<le> 510 \<and> (\<forall>b \<in> set l. plain b)" "length xs + length ls \<le> 1022"
  shows "\<exists>ed'. editor_loop env w h (map uint (concat (map ((#) 10) ls)) @ ks) (d, ed) = editor_loop env w h ks (d, ed')
    \<and> ed_ok ed' \<and> running ed' \<and> doc ed' = xs @ l # ls \<and> ed_filename ed' = ed_filename ed \<and> ed_dev_name ed' = ed_dev_name ed"
  using assms
proof (induction ls arbitrary: ed xs l)
  case Nil
  then show ?case by (auto simp: at_end_def)
next
  case (Cons t ls)
  let ?e = "editor_insert_newline (editor_adjust_view w h ed)" and ?ks = "map uint (concat (map ((#) 10) ls)) @ ks"
  have ok: "ed_ok ed" using Cons.prems(1) by (simp add: at_end_def)
  have e: "at_end ?e (xs @ [l]) []" using at_end_newline [OF at_end_adjusted] Cons.prems by simp
  have m: "ed_filename ?e = ed_filename ed" "ed_dev_name ?e = ed_dev_name ed"
    by (simp_all add: adjust_names [OF ok] editor_insert_newline_def Let_def)
  obtain e2 where e2: "editor_loop env w h (map uint t @ ?ks) (d, ?e) = editor_loop env w h ?ks (d, e2)" "at_end e2 (xs @ [l]) t"
      "ed_filename e2 = ed_filename ed" "ed_dev_name e2 = ed_dev_name ed"
    using type_line [OF e, of t env w h ?ks d] Cons.prems(2) m by auto
  show ?case
    using Cons.IH [OF e2(2)] Cons.prems e2 typed_key [of 10 "(d, ed)" env w h "map uint t @ ?ks"]
    by (simp add: at_end_def)
qed

lemma join_concat: "join_lines (l # ls) = l @ concat (map ((#) 10) ls)"
  by (induction ls arbitrary: l) auto

lemma save_text:
  assumes "blockdev_get (ee_name_of env) (ee_registry env) (ed_dev_name ed) = dev" "dev \<noteq> 0" "fat_mount (ee_dev_at env dev) w = Some fs"
    "ee_km env (of_nat (save_alloc (doc ed)))"
  shows "fst (editor_save_file env w ed) = fst (fat_write_file (ee_km env) fs w (ed_filename ed) (join_lines (doc ed)))"
  using assms by (auto simp: editor_save_file_def doc_def Let_def split: prod.splits)

text \<open>C37. What is typed is what is saved. On a file that does not exist yet, typing up to 1023 lines of up to 510
  bytes each, of any bytes but the control characters, makes them the text of the editor, line for line, and
  leaves the disk alone; Ctrl-S then gives the FAT driver exactly the bytes typed, to write under the name
  the file was opened with.
\<close>

theorem editor_types_text:
  fixes env :: "'w ed_env" and w :: 'w
  assumes "doc (snd (editor_open env term_w term_h dev_name filename [] w)) = [[]]"
    "ls \<noteq> []" "length ls \<le> 1023" "\<forall>l \<in> set ls. length l \<le> 510 \<and> (\<forall>b \<in> set l. plain b)"
    "dev_name \<noteq> []" "blockdev_get (ee_name_of env) (ee_registry env) (take 15 dev_name) = dev" "dev \<noteq> 0"
    "fat_mount (ee_dev_at env dev) w = Some fs" "ee_km env (of_nat (save_alloc ls))" "filename \<noteq> []"
  shows "doc (snd (editor_open env term_w term_h dev_name filename (map uint (join_lines ls)) w)) = ls
    \<and> fst (editor_open env term_w term_h dev_name filename (map uint (join_lines ls)) w) = w
    \<and> fst (editor_open env term_w term_h dev_name filename (map uint (join_lines ls) @ [0x13]) w)
        = fst (fat_write_file (ee_km env) fs w (take 63 filename) (join_lines ls))"
proof -
  obtain l ls' where ls: "ls = l # ls'" using assms(2) by (cases ls) auto
  let ?start = "zero_editor \<lparr> ed_dev_name := take 15 dev_name, ed_filename := take 63 filename, running := True \<rparr>"
  let ?ed = "editor_load_file env w ?start"
  have kept: "ed_filename ?ed = take 63 filename" "ed_dev_name ?ed = take 15 dev_name" "running ?ed" "cur_row ?ed = 0" "cur_col ?ed = 0"
    by (simp_all add: editor_load_file_def Let_def one_empty_line_def set_line_def set_status_msg_def split: option.split list.split)
  have ok: "ed_ok ?ed" by (simp add: load_ok zero_editor_def)
  have "doc ?ed = [[]]" using assms(1,5,10) by (simp add: editor_open_def)
  then have start: "at_end ?ed [] []" using ok kept doc_length [OF ok] by (simp add: at_end_def at_def)
  have o: "editor_open env term_w term_h dev_name filename ks w = editor_loop env term_w term_h ks (w, ?ed)" for ks
    using assms(5,10) by (simp add: editor_open_def)
  have typed: "\<exists>ed'. editor_open env term_w term_h dev_name filename (map uint (join_lines ls) @ ks) w = editor_loop env term_w term_h ks (w, ed')
      \<and> ed_ok ed' \<and> running ed' \<and> doc ed' = ls \<and> ed_filename ed' = take 63 filename \<and> ed_dev_name ed' = take 15 dev_name" for ks
  proof -
    let ?ks = "map uint (concat (map ((#) 10) ls')) @ ks"
    obtain e where e: "editor_loop env term_w term_h (map uint l @ ?ks) (w, ?ed) = editor_loop env term_w term_h ?ks (w, e)" "at_end e [] l"
      "ed_filename e = take 63 filename" "ed_dev_name e = take 15 dev_name"
      using type_line [OF start, of l env term_w term_h ?ks w] assms(4) kept unfolding ls by auto
    then show ?thesis using type_lines [OF e(2), of ls' env term_w term_h ks w] assms(3,4) unfolding ls o join_concat by simp
  qed
  obtain e where e: "editor_open env term_w term_h dev_name filename (map uint (join_lines ls)) w = (w, e)" "doc e = ls"
    using typed [of "[]"] by auto
  obtain f where f: "editor_open env term_w term_h dev_name filename (map uint (join_lines ls) @ [0x13]) w = editor_loop env term_w term_h [0x13] (w, f)"
    "ed_ok f" "running f" "doc f = ls" "ed_filename f = take 63 filename" "ed_dev_name f = take 15 dev_name"
    using typed [of "[0x13]"] by auto
  let ?f = "editor_adjust_view term_w term_h f"
  have "fst (editor_loop env term_w term_h [0x13] (w, f)) = fst (editor_save_file env w ?f)"
    using f(3) by (simp add: editor_round_def exit_key_def KEY_ESC_def editor_key_def split: prod.split)
  also have "\<dots> = fst (fat_write_file (ee_km env) fs w (take 63 filename) (join_lines ls))"
    using save_text [of env ?f dev w fs] assms(6-9) f(4-6) by (simp add: adjust_view_ok(2) [OF f(2)] adjust_names [OF f(2)])
  finally show ?thesis using e f(1) by simp
qed


text \<open>A world with the volume of \<^term>\<open>demo_bpb\<close> on the device \<open>usb0\<close>, and no memory to read a file into.\<close>

definition demo_env :: "(u32 \<Rightarrow> u8 list) ed_env" where
  "demo_env = \<lparr> ee_registry = fst (blockdev_register blockdev_init 0x1000), ee_name_of = (\<lambda>p. bytes ''usb0''), ee_dev_at = (\<lambda>p. ram_dev),
     ee_km = (\<lambda>n. n \<noteq> 65536) \<rparr>"

lemma demo_env_dev: "blockdev_get (ee_name_of demo_env) (ee_registry demo_env) (bytes ''usb0'') = 0x1000"
  by code_simp

lemma demo_env_mount: "\<exists>fs. fat_mount (ee_dev_at demo_env 0x1000) (\<lambda>l. demo_bpb) = Some fs"
  using mount_consistent(1) [OF demo_boot(1,2) refl] by (simp add: demo_env_def)

lemma demo_env_new: "doc (snd (editor_open demo_env 80 25 (bytes ''usb0'') (bytes ''A.TXT'') [] (\<lambda>l. demo_bpb))) = [[]]"
proof -
  obtain fs where fs: "fat_mount (ee_dev_at demo_env 0x1000) (\<lambda>l. demo_bpb) = Some fs" using demo_env_mount by blast
  have k: "\<not> ee_km demo_env 65536" by (simp add: demo_env_def)
  have d: "bytes ''usb0'' \<noteq> []" "take 15 (bytes ''usb0'') = bytes ''usb0''" by code_simp+
  show ?thesis
    using fs k d demo_env_dev by (simp add: editor_open_def editor_load_file_def zero_editor_def one_empty_line_ok(2))
qed

theorem editor_types_text_witness:
  "doc (snd (editor_open demo_env 80 25 (bytes ''usb0'') (bytes ''A.TXT'') (map uint [72, 105, 10, 33 :: u8]) (\<lambda>l. demo_bpb))) = [[72, 105], [33]]"
proof -
  obtain fs where fs: "fat_mount (ee_dev_at demo_env 0x1000) (\<lambda>l. demo_bpb) = Some fs" using demo_env_mount by blast
  have d: "bytes ''usb0'' \<noteq> []" "blockdev_get (ee_name_of demo_env) (ee_registry demo_env) (take 15 (bytes ''usb0'')) = 0x1000"
    "bytes ''A.TXT'' \<noteq> []" "ee_km demo_env (of_nat (save_alloc [[72, 105], [33]]))" by code_simp+
  show ?thesis
    using editor_types_text [OF demo_env_new _ _ _ d(1,2) _ fs d(4,3)] by (simp add: plain_def)
qed

section \<open>Saving and loading\<close>

lemma load_join:
  assumes "\<forall>l \<in> set ls. line_ok l" "length ls \<le> n" "ls \<noteq> []"
  shows "load_lines n (join_lines ls) = (if last ls = [] then butlast ls else ls)"
  using assms
proof (induction ls arbitrary: n)
  case (Cons l ls)
  obtain m where n: "n = Suc m" using Cons.prems(2) by (cases n) auto
  have l: "\<forall>c \<in> set l. line_byte c" "length l \<le> MAX_LINE_LEN - 1" using Cons.prems(1) by (auto simp: line_ok_def)
  have w: "takeWhile line_byte l = l" "dropWhile line_byte l = []" using l(1) by (simp_all add: takeWhile_eq_all_conv)
  have e: "\<not> line_byte 10" by (simp add: line_byte_def)
  have h: "byte_at (l @ r) 0 \<noteq> 0" if "l \<noteq> []" for r using that l(1) by (cases l) (auto simp: byte_at_def line_byte_def)
  show ?case
  proof (cases ls)
    case Nil
    show ?thesis
    proof (cases "l = []")
      case True
      then show ?thesis using Nil n by (simp add: byte_at_def)
    next
      case False
      then show ?thesis using Nil n l(2) h [of "[]"] by (cases m) (simp_all add: w byte_at_def)
    qed
  next
    case (Cons l' ls')
    have "takeWhile line_byte (l @ 10 # join_lines ls) = l" "dropWhile line_byte (l @ 10 # join_lines ls) = 10 # join_lines ls"
      using l(1) e by (simp_all add: takeWhile_append2 dropWhile_append2)
    moreover have "byte_at (l @ 10 # join_lines ls) 0 \<noteq> 0" using h [of "10 # join_lines ls"] by (cases "l = []") (auto simp: byte_at_def)
    ultimately have "load_lines n (join_lines (l # ls)) = l # load_lines m (join_lines ls)"
      using l(2) n Cons by (simp add: join_Cons)
    then show ?thesis using Cons.IH [of m] Cons.prems n Cons by simp
  qed
qed simp

text \<open>C39. A text that was saved and is read back complete by the FAT driver is loaded line for line, with one
  exception: an empty last line is not, unless it is the only one.
\<close>

theorem editor_save_load:
  fixes env :: "'w ed_env" and w :: 'w
  assumes "ed_ok ed" "blockdev_get (ee_name_of env) (ee_registry env) (ed_dev_name ed) = dev" "dev \<noteq> 0"
    "fat_mount (ee_dev_at env dev) w = Some fs" "ee_km env 65536"
    "fat_read_file (ee_km env) fs w (ed_filename ed) 65535 = Some (join_lines (doc ed))"
  shows "doc (editor_load_file env w ed) = (if last (doc ed) = [] \<and> 1 < num_lines ed then butlast (doc ed) else doc ed)"
proof -
  let ?ls = "load_lines MAX_EDITOR_LINES (join_lines (doc ed))"
  have n: "length (doc ed) = num_lines ed" "doc ed \<noteq> []" "length (doc ed) \<le> MAX_EDITOR_LINES" "length (lines ed) = MAX_EDITOR_LINES"
    using assms(1) doc_length [OF assms(1)] by (auto simp: ed_ok_def)
  have ls: "?ls = (if last (doc ed) = [] then butlast (doc ed) else doc ed)"
    using load_join [OF _ n(3,2)] assms(1) by (simp add: ed_ok_def)
  show ?thesis
  proof (cases "join_lines (doc ed)")
    case Nil
    then have "doc ed = [[]]" using n(2) by (cases "doc ed"; cases "tl (doc ed)") auto
    then show ?thesis using assms(2-6) n(4) Nil doc_length [OF assms(1)]
      by (simp add: editor_load_file_def Let_def one_empty_line_ok(2))
  next
    case (Cons c buf)
    then have d: "doc (editor_load_file env w ed) = (if ?ls = [] then [[]] else ?ls)"
      using assms(2-6) n(4) load_lines_room [of MAX_EDITOR_LINES "join_lines (doc ed)"]
      by (simp add: editor_load_file_def Let_def one_empty_line_ok(2)) (simp add: doc_def)
    moreover have "1 < num_lines ed \<or> doc ed = [last (doc ed)]" using n(1,2) by (cases "doc ed"; cases "tl (doc ed)") auto
    ultimately show ?thesis using ls n(1,2) by (cases "1 < num_lines ed") (auto simp: butlast_conv_take)
  qed
qed


text \<open>The volume of \<^term>\<open>demo_bpb\<close> with the file \<open>A\<close> of two lines, the second of which is empty.\<close>

definition text_fs :: "(u32 \<Rightarrow> u8 list) fat_fs" where
  "text_fs = ram_fs \<lparr> fs_fat_size_sectors := 21, fs_root_dir_start_sector := 43, fs_root_dir_sectors := 1,
     fs_data_start_sector := 44, fs_total_clusters := 5156 \<rparr>"

definition text_disk :: "u32 \<Rightarrow> u8 list" where
  "text_disk l = (if l = 0 then demo_bpb else if l = 43 then field 11 (bytes ''A'') @ drop 11 (new_entry FAT_ATTR_ARCHIVE 7 3)
     else if l = 1 then replicate 14 0 @ [0xFF, 0xFF] else if l = 49 then [72, 105, 10] else [])"

definition text_env :: "(u32 \<Rightarrow> u8 list) ed_env" where
  "text_env = demo_env \<lparr> ee_km := (\<lambda>n. True) \<rparr>"

lemma text_mounted: "fat_mount ram_dev text_disk = Some text_fs" "volume_ok text_fs 17000"
proof -
  have "bd_read ram_dev text_disk 0 1 = Some demo_bpb" by code_simp
  then have boot: "boot_sector ram_dev text_disk = Some (0, demo_bpb, 5200)" by (simp add: boot_sector_def demo_fields)
  have "fat_set_type (fat_geometry ram_dev 0 demo_bpb 5200) = text_fs"
    by (simp add: fat_geometry_def fat_set_type_def text_fs_def ram_fs_def demo_fields Let_def)
  then show "fat_mount ram_dev text_disk = Some text_fs" "volume_ok text_fs 17000"
    using mount_consistent(1,2) [OF boot demo_boot(2) refl] by simp_all
qed

lemma text_read: "fat_read_file (\<lambda>n. True) text_fs text_disk (bytes ''/a'') 65535 = Some [72, 105, 10]"
proof -
  let ?km = "\<lambda>n :: u32. True"
  have look: "(case lookup_path ?km text_fs text_disk (bytes ''/a'') of None \<Rightarrow> False
    | Some loc \<Rightarrow> \<not> is_directory (loc_entry loc) \<and> entry_cluster (loc_entry loc) = 7
        \<and> de_file_size (loc_entry loc) = 3)" by code_simp
  then obtain loc where loc: "lookup_path ?km text_fs text_disk (bytes ''/a'') = Some loc"
    "\<not> is_directory (loc_entry loc)" "entry_cluster (loc_entry loc) = 7" "de_file_size (loc_entry loc) = 3"
    by (auto split: option.splits)
  have f: "fs_bdev text_fs = ram_dev" "fs_bytes_per_cluster text_fs = 512" "fs_total_clusters text_fs = 5156" 
    by (simp_all add: text_fs_def ram_fs_def)
  have v: "valid_cluster text_fs ram_sect 17000 7"
    using ram_device_ok [of 17000] text_mounted(2) f by (simp add: valid_cluster_def)
  have "fat_entry_of text_fs ram_sect text_disk 7 = 0xFFFF" "fat_eof_limit text_fs = 0xFFF8" by code_simp+
  with v have ch: "fat_chain text_fs ram_sect 17000 text_disk [7]"
    by (simp add: fat_chain_def fat_end_def)
  have t: "take 3 (chain_bytes text_fs ram_sect text_disk [7]) = [72, 105, 10]" by code_simp
  have "read_loop text_fs text_disk 3 65536 7 [] = take 3 (chain_bytes text_fs ram_sect text_disk [7])"
    using read_loop_chain [OF ch, of 65536 "[]" 3] f by simp
  then show ?thesis unfolding t using loc f by (simp add: fat_read_file_def Let_def)
qed

theorem editor_save_load_witness:
  "doc (editor_load_file text_env text_disk
     (zero_editor \<lparr> lines := [72, 105] # [] # replicate 1022 [], num_lines := 2, ed_dev_name := bytes ''usb0'', ed_filename := bytes ''/a'' \<rparr>))
   = [[72, 105]]"
proof -
  let ?ed = "zero_editor \<lparr> lines := [72, 105] # [] # replicate 1022 [], num_lines := 2, ed_dev_name := bytes ''usb0'', ed_filename := bytes ''/a'' \<rparr>"
  have d: "doc ?ed = [[72, 105], []]" by (simp add: doc_def)
  then have ok: "ed_ok ?ed" by (auto simp: ed_ok_def line_ok_def line_byte_def MAX_EDITOR_LINES_def MAX_LINE_LEN_def)
  have "blockdev_get (ee_name_of text_env) (ee_registry text_env) (ed_dev_name ?ed) = 0x1000" 
    "fat_mount (ee_dev_at text_env 0x1000) text_disk = Some text_fs" "ee_km text_env = (\<lambda>n. True)"
    using demo_env_dev text_mounted(1) by (simp_all add: text_env_def) (simp_all add: demo_env_def)
  then show ?thesis using editor_save_load [OF ok, of text_env "0x1000" text_disk text_fs] text_read d by simp
qed

end
