(* ===== verification/Ld.thy ===== *)
theory Ld
  imports Mkfs
begin

text \<open>
  The linker \<open>tools/ld.c\<close> that links the objects of the kernel into an ELF executable: argument parser, ELF
  structures, placement of sections, symbol resolution, relocation, and the file it writes.

  An input file is the list of its bytes; a pointer into it is an offset. The C code takes the offsets of an
  object file as they are: what it would read behind the end of the file is zero here, and the theorems are
  about objects whose offsets stay inside. The buffer of an output section is a function from offsets to
  bytes, with arbitrary contents where nothing was stored. An access outside the table of sections of a
  file or through a null pointer is the error \<open>Bad_Access\<close>; the host's memory is taken to suffice.
\<close>

section \<open>Bytes\<close>

definition word_byte :: "'a :: len word \<Rightarrow> nat \<Rightarrow> u8" where
  "word_byte v i = ucast (drop_bit (8 * i) v)"

definition le16 :: "u16 \<Rightarrow> u8 list" where
  "le16 v = [word_byte v 0, word_byte v 1]"

definition le32 :: "u32 \<Rightarrow> u8 list" where
  "le32 v = [word_byte v 0, word_byte v 1, word_byte v 2, word_byte v 3]"

definition get16 :: "(nat \<Rightarrow> u8) \<Rightarrow> nat \<Rightarrow> u16" where
  "get16 d i = ucast (d i) OR push_bit 8 (ucast (d (i + 1)))"

definition get32 :: "(nat \<Rightarrow> u8) \<Rightarrow> nat \<Rightarrow> u32" where
  "get32 d i = ucast (d i) OR push_bit 8 (ucast (d (i + 1))) OR push_bit 16 (ucast (d (i + 2))) OR push_bit 24 (ucast (d (i + 3)))"

text \<open>\<open>memcpy\<close> and \<open>memset\<close> into a buffer.\<close>

definition buf_put :: "(nat \<Rightarrow> u8) \<Rightarrow> nat \<Rightarrow> nat \<Rightarrow> (nat \<Rightarrow> u8) \<Rightarrow> nat \<Rightarrow> u8" where
  "buf_put d off n f i = (if off \<le> i \<and> i < off + n then f (i - off) else d i)"

text \<open>The string that starts at an offset.\<close>

definition str_at :: "u8 list \<Rightarrow> nat \<Rightarrow> u8 list" where
  "str_at d off = cstr (drop off d)"

section \<open>ELF\<close>

definition ET_REL :: u16 where "ET_REL = 1"
definition ET_EXEC :: u16 where "ET_EXEC = 2"
definition EM_386 :: u16 where "EM_386 = 3"
definition EV_CURRENT :: u32 where "EV_CURRENT = 1"
definition SHT_PROGBITS :: u32 where "SHT_PROGBITS = 1"
definition SHT_SYMTAB :: u32 where "SHT_SYMTAB = 2"
definition SHT_STRTAB :: u32 where "SHT_STRTAB = 3"
definition SHT_NOBITS :: u32 where "SHT_NOBITS = 8"
definition SHT_REL :: u32 where "SHT_REL = 9"
definition SHF_WRITE :: u32 where "SHF_WRITE = 1"
definition SHF_ALLOC :: u32 where "SHF_ALLOC = 2"
definition SHF_EXECINSTR :: u32 where "SHF_EXECINSTR = 4"
definition SHN_UNDEF :: u16 where "SHN_UNDEF = 0"
definition SHN_ABS :: u16 where "SHN_ABS = 0xFFF1"
definition SHN_COMMON :: u16 where "SHN_COMMON = 0xFFF2"
definition STB_LOCAL :: u8 where "STB_LOCAL = 0"
definition STB_GLOBAL :: u8 where "STB_GLOBAL = 1"
definition STB_WEAK :: u8 where "STB_WEAK = 2"
definition STT_NOTYPE :: u8 where "STT_NOTYPE = 0"
definition STT_OBJECT :: u8 where "STT_OBJECT = 1"
definition R_386_NONE :: u8 where "R_386_NONE = 0"
definition R_386_32 :: u8 where "R_386_32 = 1"
definition R_386_PC32 :: u8 where "R_386_PC32 = 2"
definition R_386_PLT32 :: u8 where "R_386_PLT32 = 4"
definition R_386_16 :: u8 where "R_386_16 = 20"
definition R_386_PC16 :: u8 where "R_386_PC16 = 21"
definition R_386_8 :: u8 where "R_386_8 = 22"
definition R_386_PC8 :: u8 where "R_386_PC8 = 23"
definition PT_LOAD :: u32 where "PT_LOAD = 1"
definition PT_GNU_STACK :: u32 where "PT_GNU_STACK = 0x6474e551"

lemmas elf_consts = ET_REL_def ET_EXEC_def EM_386_def EV_CURRENT_def SHT_PROGBITS_def SHT_SYMTAB_def SHT_STRTAB_def SHT_NOBITS_def
  SHT_REL_def SHF_WRITE_def SHF_ALLOC_def SHF_EXECINSTR_def SHN_UNDEF_def SHN_ABS_def SHN_COMMON_def STB_LOCAL_def STB_GLOBAL_def
  STB_WEAK_def STT_NOTYPE_def STT_OBJECT_def R_386_NONE_def R_386_32_def R_386_PC32_def R_386_PLT32_def R_386_16_def R_386_PC16_def
  R_386_8_def R_386_PC8_def PT_LOAD_def PT_GNU_STACK_def

definition ELF32_ST_BIND :: "u8 \<Rightarrow> u8" where "ELF32_ST_BIND i = drop_bit 4 i"
definition ELF32_ST_INFO :: "u8 \<Rightarrow> u8 \<Rightarrow> u8" where "ELF32_ST_INFO b t = push_bit 4 b + (t AND 0x0F)"
definition ELF32_R_SYM :: "u32 \<Rightarrow> u32" where "ELF32_R_SYM i = drop_bit 8 i"
definition ELF32_R_TYPE :: "u32 \<Rightarrow> u8" where "ELF32_R_TYPE i = ucast i"

record Elf32_Ehdr =
  e_ident :: "u8 list"
  e_type :: u16
  e_machine :: u16
  e_version :: u32
  e_entry :: u32
  e_phoff :: u32
  e_shoff :: u32
  e_flags :: u32
  e_ehsize :: u16
  e_phentsize :: u16
  e_phnum :: u16
  e_shentsize :: u16
  e_shnum :: u16
  e_shstrndx :: u16

record Elf32_Phdr =
  p_type :: u32
  p_offset :: u32
  p_vaddr :: u32
  p_paddr :: u32
  p_filesz :: u32
  p_memsz :: u32
  p_flags :: u32
  p_align :: u32

record Elf32_Shdr =
  sh_name :: u32
  sh_type :: u32
  sh_flags :: u32
  sh_addr :: u32
  sh_offset :: u32
  sh_size :: u32
  sh_link :: u32
  sh_info :: u32
  sh_addralign :: u32
  sh_entsize :: u32

record Elf32_Sym =
  st_name :: u32
  st_value :: u32
  st_size :: u32
  st_info :: u8
  st_other :: u8
  st_shndx :: u16

record Elf32_Rel =
  r_offset :: u32
  r_info :: u32

text \<open>The structures at an offset of a file, and their bytes.\<close>

definition get_ehdr :: "u8 list \<Rightarrow> Elf32_Ehdr" where
  "get_ehdr d = (let h = get16 (byte_at d); w = get32 (byte_at d) in
    \<lparr> e_ident = map (byte_at d) [0..<16], e_type = h 16, e_machine = h 18, e_version = w 20, e_entry = w 24, e_phoff = w 28,
      e_shoff = w 32, e_flags = w 36, e_ehsize = h 40, e_phentsize = h 42, e_phnum = h 44, e_shentsize = h 46, e_shnum = h 48,
      e_shstrndx = h 50 \<rparr>)"

definition ehdr_bytes :: "Elf32_Ehdr \<Rightarrow> u8 list" where
  "ehdr_bytes h = e_ident h @ le16 (e_type h) @ le16 (e_machine h) @ le32 (e_version h) @ le32 (e_entry h) @ le32 (e_phoff h)
     @ le32 (e_shoff h) @ le32 (e_flags h) @ le16 (e_ehsize h) @ le16 (e_phentsize h) @ le16 (e_phnum h) @ le16 (e_shentsize h)
     @ le16 (e_shnum h) @ le16 (e_shstrndx h)"

definition phdr_bytes :: "Elf32_Phdr \<Rightarrow> u8 list" where
  "phdr_bytes h = le32 (p_type h) @ le32 (p_offset h) @ le32 (p_vaddr h) @ le32 (p_paddr h) @ le32 (p_filesz h) @ le32 (p_memsz h)
     @ le32 (p_flags h) @ le32 (p_align h)"

definition get_shdr :: "u8 list \<Rightarrow> nat \<Rightarrow> Elf32_Shdr" where
  "get_shdr d off = (let w = (\<lambda>k. get32 (byte_at d) (off + k)) in
    \<lparr> sh_name = w 0, sh_type = w 4, sh_flags = w 8, sh_addr = w 12, sh_offset = w 16, sh_size = w 20, sh_link = w 24, sh_info = w 28,
      sh_addralign = w 32, sh_entsize = w 36 \<rparr>)"

definition shdr_bytes :: "Elf32_Shdr \<Rightarrow> u8 list" where
  "shdr_bytes h = le32 (sh_name h) @ le32 (sh_type h) @ le32 (sh_flags h) @ le32 (sh_addr h) @ le32 (sh_offset h) @ le32 (sh_size h)
     @ le32 (sh_link h) @ le32 (sh_info h) @ le32 (sh_addralign h) @ le32 (sh_entsize h)"

definition get_sym :: "u8 list \<Rightarrow> nat \<Rightarrow> Elf32_Sym" where
  "get_sym d off = (let w = (\<lambda>k. get32 (byte_at d) (off + k)) in
    \<lparr> st_name = w 0, st_value = w 4, st_size = w 8, st_info = byte_at d (off + 12), st_other = byte_at d (off + 13),
      st_shndx = get16 (byte_at d) (off + 14) \<rparr>)"

definition sym_bytes :: "Elf32_Sym \<Rightarrow> u8 list" where
  "sym_bytes s = le32 (st_name s) @ le32 (st_value s) @ le32 (st_size s) @ [st_info s, st_other s] @ le16 (st_shndx s)"

definition get_rel :: "u8 list \<Rightarrow> nat \<Rightarrow> Elf32_Rel" where
  "get_rel d off = \<lparr> r_offset = get32 (byte_at d) off, r_info = get32 (byte_at d) (off + 4) \<rparr>"

section \<open>State\<close>

definition MAX_INPUT_FILES :: nat where "MAX_INPUT_FILES = 128"
definition MAX_SECTIONS_PER_FILE :: nat where "MAX_SECTIONS_PER_FILE = 64"
definition MAX_GLOBAL_SYMBOLS :: nat where "MAX_GLOBAL_SYMBOLS = 4096"

record in_sec_map =
  out_sec_idx :: int
  out_offset :: u32
  in_vaddr :: u32

record input_obj =
  in_path :: "u8 list"
  in_data :: "u8 list"
  in_ehdr :: Elf32_Ehdr
  in_shstrtab :: nat
  in_symtab :: "nat option"
  sym_count :: nat
  in_strtab :: nat
  sec_map :: "in_sec_map list"

record out_sec =
  os_name :: "u8 list"
  os_type :: u32
  os_flags :: u32
  os_align :: u32
  os_vaddr :: u32
  os_offset :: u32
  os_size :: u32
  os_data :: "nat \<Rightarrow> u8"

record global_sym =
  gs_name :: "u8 list"
  gs_vaddr :: u32
  gs_size :: u32
  gs_info :: u8
  gs_defined :: bool

datatype ld_error = Usage | Too_Many_Inputs | Cannot_Open "u8 list" | Not_Elf "u8 list" | Too_Many_Symbols
  | Undefined_Reference "u8 list" "u8 list" | No_Start | Cannot_Create | Bad_Access

definition OUT_SEC_MULTIBOOT :: nat where "OUT_SEC_MULTIBOOT = 0"
definition OUT_SEC_TEXT :: nat where "OUT_SEC_TEXT = 1"
definition OUT_SEC_RODATA :: nat where "OUT_SEC_RODATA = 2"
definition OUT_SEC_DATA :: nat where "OUT_SEC_DATA = 3"
definition OUT_SEC_BSS :: nat where "OUT_SEC_BSS = 4"

lemmas out_secs_consts = OUT_SEC_MULTIBOOT_def OUT_SEC_TEXT_def OUT_SEC_RODATA_def OUT_SEC_DATA_def OUT_SEC_BSS_def

text \<open>Steps that may fail, and loops over them.\<close>

definition ld_bind :: "ld_error + 'a \<Rightarrow> ('a \<Rightarrow> ld_error + 'b) \<Rightarrow> ld_error + 'b" where
  "ld_bind r f = (case r of Inl e \<Rightarrow> Inl e | Inr x \<Rightarrow> f x)"

primrec ld_fold :: "('a \<Rightarrow> 's \<Rightarrow> ld_error + 's) \<Rightarrow> 'a list \<Rightarrow> 's \<Rightarrow> ld_error + 's" where
  "ld_fold f [] s = Inr s"
| "ld_fold f (x # xs) s = ld_bind (f x s) (ld_fold f xs)"

section \<open>Sections and symbols\<close>

definition out_sec_append :: "out_sec \<Rightarrow> (nat \<Rightarrow> u8) option \<Rightarrow> u32 \<Rightarrow> u32 \<Rightarrow> out_sec" where
  "out_sec_append sec src len align =
    (let align = (if align < 1 then 1 else align);
         aligned_size = ALIGN_UP (os_size sec) align;
         sec = (if os_type sec \<noteq> SHT_NOBITS then
                  (let d = (if aligned_size > os_size sec
                            then buf_put (os_data sec) (unat (os_size sec)) (unat (aligned_size - os_size sec)) (\<lambda>i. 0) else os_data sec)
                   in sec \<lparr> os_data := (case src of None \<Rightarrow> d | Some s \<Rightarrow> buf_put d (unat aligned_size) (unat len) s) \<rparr>)
                else sec)
     in sec \<lparr> os_size := aligned_size + len \<rparr>)"

fun global_idx :: "u8 list \<Rightarrow> global_sym list \<Rightarrow> nat option" where
  "global_idx name [] = None"
| "global_idx name (g # gs) = (if gs_name g = name then Some 0 else map_option Suc (global_idx name gs))"

definition find_or_add_global_sym :: "u8 list \<Rightarrow> global_sym list \<Rightarrow> ld_error + nat \<times> global_sym list" where
  "find_or_add_global_sym name gs =
    (case global_idx name gs of
       Some i \<Rightarrow> Inr (i, gs)
     | None \<Rightarrow>
        if length gs \<ge> MAX_GLOBAL_SYMBOLS then Inl Too_Many_Symbols
        else Inr (length gs, gs @ [\<lparr> gs_name = take 127 name, gs_vaddr = 0, gs_size = 0, gs_info = 0, gs_defined = False \<rparr>]))"

text \<open>The five output sections.\<close>

definition out_sec_new :: "string \<Rightarrow> u32 \<Rightarrow> u32 \<Rightarrow> u32 \<Rightarrow> (nat \<Rightarrow> u8) \<Rightarrow> out_sec" where
  "out_sec_new name ty fl al d =
    \<lparr> os_name = bytes name, os_type = ty, os_flags = fl, os_align = al, os_vaddr = 0, os_offset = 0, os_size = 0, os_data = d \<rparr>"

definition init_out_secs :: "(nat \<Rightarrow> nat \<Rightarrow> u8) \<Rightarrow> out_sec list" where
  "init_out_secs junk =
    [out_sec_new ''.multiboot'' SHT_PROGBITS SHF_ALLOC 4 (junk 0),
     out_sec_new ''.text'' SHT_PROGBITS (SHF_ALLOC OR SHF_EXECINSTR) 4096 (junk 1),
     out_sec_new ''.rodata'' SHT_PROGBITS SHF_ALLOC 4096 (junk 2),
     out_sec_new ''.data'' SHT_PROGBITS (SHF_ALLOC OR SHF_WRITE) 4096 (junk 3),
     out_sec_new ''.bss'' SHT_NOBITS (SHF_ALLOC OR SHF_WRITE) 4096 (junk 4)]"

section \<open>Loading\<close>

definition shdr_at :: "input_obj \<Rightarrow> nat \<Rightarrow> Elf32_Shdr" where
  "shdr_at inp s = get_shdr (in_data inp) (unat (e_shoff (in_ehdr inp)) + 40 * s)"

definition shnum :: "input_obj \<Rightarrow> nat" where
  "shnum inp = unat (e_shnum (in_ehdr inp))"

definition sym_at :: "input_obj \<Rightarrow> nat \<Rightarrow> nat \<Rightarrow> Elf32_Sym" where
  "sym_at inp tab k = get_sym (in_data inp) (tab + 16 * k)"

definition sym_name :: "input_obj \<Rightarrow> Elf32_Sym \<Rightarrow> u8 list" where
  "sym_name inp sy = str_at (in_data inp) (in_strtab inp + unat (st_name sy))"

definition sec_name :: "input_obj \<Rightarrow> Elf32_Shdr \<Rightarrow> u8 list" where
  "sec_name inp sh = str_at (in_data inp) (in_shstrtab inp + unat (sh_name sh))"

definition no_map :: in_sec_map where
  "no_map = \<lparr> out_sec_idx = 0, out_offset = 0, in_vaddr = 0 \<rparr>"

definition find_symtab :: "input_obj \<Rightarrow> input_obj" where
  "find_symtab inp =
    (case find (\<lambda>s. sh_type (shdr_at inp s) = SHT_SYMTAB) [0..<shnum inp] of
       None \<Rightarrow> inp
     | Some s \<Rightarrow> inp \<lparr> in_symtab := Some (unat (sh_offset (shdr_at inp s))), sym_count := unat (sh_size (shdr_at inp s)) div 16,
                       in_strtab := unat (sh_offset (shdr_at inp (unat (sh_link (shdr_at inp s))))) \<rparr>)"

definition load_input :: "(u8 list \<rightharpoonup> u8 list) \<Rightarrow> u8 list \<Rightarrow> ld_error + input_obj" where
  "load_input files path =
    (case files path of
       None \<Rightarrow> Inl (Cannot_Open path)
     | Some d \<Rightarrow>
        (let h = get_ehdr d
         in if take 4 (e_ident h) \<noteq> [0x7F, 0x45, 0x4C, 0x46] \<or> e_type h \<noteq> ET_REL \<or> e_machine h \<noteq> EM_386 then Inl (Not_Elf path)
            else
              (let inp = \<lparr> in_path = path, in_data = d, in_ehdr = h, in_shstrtab = 0, in_symtab = None, sym_count = 0, in_strtab = 0,
                           sec_map = replicate MAX_SECTIONS_PER_FILE no_map \<rparr>
               in Inr (find_symtab (inp \<lparr> in_shstrtab := unat (sh_offset (shdr_at inp (unat (e_shstrndx h)))) \<rparr>)))))"

fun load_inputs :: "(u8 list \<rightharpoonup> u8 list) \<Rightarrow> u8 list list \<Rightarrow> ld_error + input_obj list" where
  "load_inputs files [] = Inr []"
| "load_inputs files (p # ps) = ld_bind (load_input files p) (\<lambda>i. ld_bind (load_inputs files ps) (\<lambda>is. Inr (i # is)))"


section \<open>Placing sections\<close>

definition target_of :: "u8 list \<Rightarrow> nat option" where
  "target_of name =
    (if name = bytes ''.multiboot'' then Some OUT_SEC_MULTIBOOT
     else if take 5 name = bytes ''.text'' then Some OUT_SEC_TEXT
     else if take 7 name = bytes ''.rodata'' then Some OUT_SEC_RODATA
     else if take 5 name = bytes ''.data'' then Some OUT_SEC_DATA
     else if take 4 name = bytes ''.bss'' then Some OUT_SEC_BSS
     else None)"

definition sec_align :: "Elf32_Shdr \<Rightarrow> u32" where
  "sec_align sh = (if sh_addralign sh \<noteq> 0 then sh_addralign sh else 4)"

definition sec_bytes :: "input_obj \<Rightarrow> Elf32_Shdr \<Rightarrow> nat \<Rightarrow> u8" where
  "sec_bytes inp sh i = byte_at (in_data inp) (unat (sh_offset sh) + i)"

definition place_section :: "input_obj \<Rightarrow> nat \<Rightarrow> out_sec list \<Rightarrow> out_sec list \<times> in_sec_map" where
  "place_section inp s secs =
    (let sh = shdr_at inp s; skipped = \<lparr> out_sec_idx = -1, out_offset = 0, in_vaddr = 0 \<rparr>
     in if sh_flags sh AND SHF_ALLOC = 0 then (secs, skipped)
        else case target_of (sec_name inp sh) of
            None \<Rightarrow> (secs, skipped)
          | Some t \<Rightarrow>
             (secs[t := out_sec_append (secs ! t) (if sh_type sh \<noteq> SHT_NOBITS then Some (sec_bytes inp sh) else None) (sh_size sh) (sec_align sh)],
              \<lparr> out_sec_idx = int t, out_offset = ALIGN_UP (os_size (secs ! t)) (sec_align sh), in_vaddr = 0 \<rparr>))"

fun place_sections :: "input_obj \<Rightarrow> nat list \<Rightarrow> out_sec list \<Rightarrow> out_sec list \<times> in_sec_map list" where
  "place_sections inp [] secs = (secs, [])"
| "place_sections inp (s # ss) secs =
    (let (secs, m) = place_section inp s secs; (secs, ms) = place_sections inp ss secs in (secs, m # ms))"

fun place_inputs :: "input_obj list \<Rightarrow> out_sec list \<Rightarrow> ld_error + out_sec list \<times> input_obj list" where
  "place_inputs [] secs = Inr (secs, [])"
| "place_inputs (inp # ins) secs =
    (if shnum inp > MAX_SECTIONS_PER_FILE then Inl Bad_Access
     else
       (let (secs, ms) = place_sections inp [0..<shnum inp] secs
        in ld_bind (place_inputs ins secs) (\<lambda>(secs, ins). Inr (secs, inp \<lparr> sec_map := ms @ drop (length ms) (sec_map inp) \<rparr> # ins))))"

text \<open>The addresses of the output sections, and of the input sections in them.\<close>

fun layout_secs :: "u32 \<Rightarrow> out_sec list \<Rightarrow> out_sec list" where
  "layout_secs cur_vaddr [] = []"
| "layout_secs cur_vaddr (sec # secs) =
    (let v = ALIGN_UP cur_vaddr (os_align sec) in sec \<lparr> os_vaddr := v \<rparr> # layout_secs (v + os_size sec) secs)"

definition set_vaddr :: "out_sec list \<Rightarrow> in_sec_map \<Rightarrow> in_sec_map" where
  "set_vaddr secs m =
    (if out_sec_idx m \<ge> 0 then m \<lparr> in_vaddr := os_vaddr (secs ! nat (out_sec_idx m)) + out_offset m \<rparr> else m)"

definition set_vaddrs :: "out_sec list \<Rightarrow> input_obj \<Rightarrow> input_obj" where
  "set_vaddrs secs inp =
    inp \<lparr> sec_map := map (set_vaddr secs) (take (shnum inp) (sec_map inp)) @ drop (shnum inp) (sec_map inp) \<rparr>"

section \<open>Symbols\<close>

type_synonym ld_state = "out_sec list \<times> global_sym list"

definition sec_map_at :: "input_obj \<Rightarrow> nat \<Rightarrow> ld_error + in_sec_map" where
  "sec_map_at inp i = (if i < MAX_SECTIONS_PER_FILE then Inr (sec_map inp ! i) else Inl Bad_Access)"

definition sym_vaddr :: "input_obj \<Rightarrow> Elf32_Sym \<Rightarrow> ld_error + u32" where
  "sym_vaddr inp sy =
    (if st_shndx sy = SHN_ABS then Inr (st_value sy)
     else ld_bind (sec_map_at inp (unat (st_shndx sy)))
       (\<lambda>m. Inr (if out_sec_idx m \<ge> 0 then in_vaddr m + st_value sy else st_value sy)))"

definition set_global :: "nat \<Rightarrow> u32 \<Rightarrow> u32 \<Rightarrow> u8 \<Rightarrow> global_sym list \<Rightarrow> global_sym list" where
  "set_global i v sz info gs = gs[i := (gs ! i) \<lparr> gs_vaddr := v, gs_size := sz, gs_info := info, gs_defined := True \<rparr>]"

definition collect_symbol :: "input_obj \<Rightarrow> Elf32_Sym \<Rightarrow> ld_state \<Rightarrow> ld_error + ld_state" where
  "collect_symbol inp sy = (\<lambda>(secs, gs).
    let name = sym_name inp sy; bnd = ELF32_ST_BIND (st_info sy)
    in if st_shndx sy = SHN_COMMON then
         (let bss = secs ! OUT_SEC_BSS; align = (if st_value sy \<noteq> 0 then st_value sy else 4);
              off = ALIGN_UP (os_size bss) align;
              secs = secs[OUT_SEC_BSS := out_sec_append bss None (st_size sy) align]
          in ld_bind (find_or_add_global_sym name gs)
               (\<lambda>(i, gs). Inr (secs, set_global i (os_vaddr bss + off) (st_size sy) (st_info sy) gs)))
       else if (bnd = STB_GLOBAL \<or> bnd = STB_WEAK) \<and> st_shndx sy \<noteq> SHN_UNDEF then
         ld_bind (find_or_add_global_sym name gs) (\<lambda>(i, gs). ld_bind (sym_vaddr inp sy) (\<lambda>v.
           Inr (secs, if \<not> gs_defined (gs ! i) \<or> bnd = STB_GLOBAL then set_global i v (st_size sy) (st_info sy) gs else gs)))
       else Inr (secs, gs))"

definition obj_syms :: "input_obj \<Rightarrow> Elf32_Sym list" where
  "obj_syms inp = (case in_symtab inp of None \<Rightarrow> [] | Some tab \<Rightarrow> map (sym_at inp tab) [0..<sym_count inp])"

definition collect_symbols :: "input_obj list \<Rightarrow> ld_state \<Rightarrow> ld_error + ld_state" where
  "collect_symbols ins = ld_fold (\<lambda>inp. ld_fold (collect_symbol inp) (obj_syms inp)) ins"

definition define_kernel_end :: "ld_state \<Rightarrow> ld_error + ld_state" where
  "define_kernel_end = (\<lambda>(secs, gs).
    ld_bind (find_or_add_global_sym (bytes ''_kernel_end'') gs) (\<lambda>(i, gs).
      Inr (secs, set_global i (ALIGN_UP (os_vaddr (secs ! OUT_SEC_BSS) + os_size (secs ! OUT_SEC_BSS)) 4096) 0 (ELF32_ST_INFO STB_GLOBAL STT_OBJECT) gs)))"

definition check_symbol :: "input_obj \<Rightarrow> Elf32_Sym \<Rightarrow> global_sym list \<Rightarrow> ld_error + global_sym list" where
  "check_symbol inp sy gs =
    (if st_shndx sy = SHN_UNDEF \<and> ELF32_ST_BIND (st_info sy) = STB_GLOBAL then
       ld_bind (find_or_add_global_sym (sym_name inp sy) gs)
         (\<lambda>(i, gs). if gs_defined (gs ! i) then Inr gs else Inl (Undefined_Reference (sym_name inp sy) (in_path inp)))
     else Inr gs)"

definition check_symbols :: "input_obj list \<Rightarrow> global_sym list \<Rightarrow> ld_error + global_sym list" where
  "check_symbols ins = ld_fold (\<lambda>inp. ld_fold (check_symbol inp) (obj_syms inp)) ins"

section \<open>Relocation\<close>

definition apply_rel :: "u8 \<Rightarrow> u32 \<Rightarrow> u32 \<Rightarrow> nat \<Rightarrow> (nat \<Rightarrow> u8) \<Rightarrow> nat \<Rightarrow> u8" where
  "apply_rel ty S P loc d =
    (if ty = R_386_32 then buf_put d loc 4 (word_byte (S + get32 d loc))
     else if ty = R_386_PC32 \<or> ty = R_386_PLT32 then buf_put d loc 4 (word_byte (S + get32 d loc - P))
     else if ty = R_386_16 then buf_put d loc 2 (word_byte (ucast (S + scast (get16 d loc)) :: u16))
     else if ty = R_386_PC16 then buf_put d loc 2 (word_byte (ucast (S + scast (get16 d loc) - P) :: u16))
     else if ty = R_386_8 then buf_put d loc 1 (word_byte (ucast (S + scast (d loc)) :: u8))
     else if ty = R_386_PC8 then buf_put d loc 1 (word_byte (ucast (S + scast (d loc) - P) :: u8))
     else d)"

definition patches :: "u8 \<Rightarrow> bool" where
  "patches ty \<longleftrightarrow> ty = R_386_32 \<or> ty = R_386_PC32 \<or> ty = R_386_PLT32 \<or> ty = R_386_16 \<or> ty = R_386_PC16 \<or> ty = R_386_8 \<or> ty = R_386_PC8"

text \<open>The address a relocation refers to; the table of globals may grow by the name of a weak symbol.\<close>

definition rel_symbol :: "input_obj \<Rightarrow> Elf32_Rel \<Rightarrow> global_sym list \<Rightarrow> ld_error + u32 \<times> global_sym list" where
  "rel_symbol inp rl gs =
    (case in_symtab inp of
       None \<Rightarrow> Inl Bad_Access
     | Some tab \<Rightarrow>
        (let sy = sym_at inp tab (unat (ELF32_R_SYM (r_info rl)))
         in if ELF32_ST_BIND (st_info sy) = STB_LOCAL \<and> st_shndx sy \<noteq> SHN_UNDEF
            then ld_bind (sym_vaddr inp sy) (\<lambda>v. Inr (v, gs))
            else ld_bind (find_or_add_global_sym (sym_name inp sy) gs) (\<lambda>(i, gs). Inr (gs_vaddr (gs ! i), gs))))"

definition relocate :: "input_obj \<Rightarrow> in_sec_map \<Rightarrow> Elf32_Rel \<Rightarrow> ld_state \<Rightarrow> ld_error + ld_state" where
  "relocate inp m rl = (\<lambda>(secs, gs).
    let t = nat (out_sec_idx m); sec = secs ! t
    in ld_bind (rel_symbol inp rl gs) (\<lambda>(S, gs).
         if patches (ELF32_R_TYPE (r_info rl)) \<and> (os_type sec = SHT_NOBITS \<or> os_size sec = 0) then Inl Bad_Access
         else Inr (secs[t := sec \<lparr> os_data := apply_rel (ELF32_R_TYPE (r_info rl)) S (in_vaddr m + r_offset rl)
                                                  (unat (out_offset m) + unat (r_offset rl)) (os_data sec) \<rparr>], gs)))"

definition sec_rels :: "input_obj \<Rightarrow> Elf32_Shdr \<Rightarrow> Elf32_Rel list" where
  "sec_rels inp sh = map (\<lambda>r. get_rel (in_data inp) (unat (sh_offset sh) + 8 * r)) [0..<unat (sh_size sh) div 8]"

definition relocate_section :: "input_obj \<Rightarrow> nat \<Rightarrow> ld_state \<Rightarrow> ld_error + ld_state" where
  "relocate_section inp s st =
    (let sh = shdr_at inp s
     in if sh_type sh \<noteq> SHT_REL then Inr st
        else ld_bind (sec_map_at inp (unat (sh_info sh)))
          (\<lambda>m. if out_sec_idx m < 0 then Inr st else ld_fold (relocate inp m) (sec_rels inp sh) st))"

definition relocate_all :: "input_obj list \<Rightarrow> ld_state \<Rightarrow> ld_error + ld_state" where
  "relocate_all ins = ld_fold (\<lambda>inp. ld_fold (relocate_section inp) [0..<shnum inp]) ins"


section \<open>The executable\<close>

text \<open>The symbol table and its strings: the symbols get the position of their name.\<close>

fun out_symbols :: "nat \<Rightarrow> global_sym list \<Rightarrow> Elf32_Sym list" where
  "out_symbols pos [] = []"
| "out_symbols pos (g # gs) =
    \<lparr> st_name = of_nat pos, st_value = gs_vaddr g, st_size = gs_size g,
      st_info = (if gs_info g \<noteq> 0 then gs_info g else ELF32_ST_INFO STB_GLOBAL STT_NOTYPE), st_other = 0, st_shndx = 1 \<rparr>
    # out_symbols (pos + length (gs_name g) + 1) gs"

definition null_sym :: Elf32_Sym where
  "null_sym = \<lparr> st_name = 0, st_value = 0, st_size = 0, st_info = 0, st_other = 0, st_shndx = 0 \<rparr>"

definition out_syms :: "global_sym list \<Rightarrow> Elf32_Sym list" where
  "out_syms gs = null_sym # out_symbols 1 gs"

definition strtab_bytes :: "global_sym list \<Rightarrow> u8 list" where
  "strtab_bytes gs = 0 # concat (map (\<lambda>g. gs_name g @ [0]) gs)"

definition shstrtab_names :: "out_sec list \<Rightarrow> u8 list" where
  "shstrtab_names secs = 0 # concat (map (\<lambda>s. os_name s @ [0]) secs)"

definition shstrtab_bytes :: "out_sec list \<Rightarrow> u8 list" where
  "shstrtab_bytes secs = shstrtab_names secs @ bytes ''.symtab'' @ [0] @ bytes ''.shstrtab'' @ [0] @ bytes ''.strtab'' @ [0]"

text \<open>File offsets, and the sizes of the image in the file and in memory.\<close>

definition set_offset :: "u32 \<Rightarrow> out_sec \<Rightarrow> out_sec" where
  "set_offset image_base sec = sec \<lparr> os_offset := 0x1000 + (os_vaddr sec - image_base) \<rparr>"

definition total_filesz :: "u32 \<Rightarrow> out_sec list \<Rightarrow> u32" where
  "total_filesz image_base secs =
    fold (\<lambda>sec n. if os_type sec \<noteq> SHT_NOBITS then (os_vaddr sec + os_size sec) - image_base else n) secs 0"

definition total_memsz :: "u32 \<Rightarrow> out_sec list \<Rightarrow> u32" where
  "total_memsz image_base secs = fold (\<lambda>sec n. (os_vaddr sec + os_size sec) - image_base) secs 0"

record file_layout =
  fl_symtab :: u32
  fl_symtab_size :: u32
  fl_shstrtab :: u32
  fl_shstrtab_size :: u32
  fl_strtab :: u32
  fl_strtab_size :: u32
  fl_shdrs :: u32

definition file_offsets :: "u32 \<Rightarrow> nat \<Rightarrow> nat \<Rightarrow> nat \<Rightarrow> file_layout" where
  "file_offsets filesz out_sym_count shstrtab_len strtab_len =
    (let symtab = ALIGN_UP (0x1000 + filesz) 4; symtab_size = of_nat (out_sym_count * 16);
         shstrtab = symtab + ALIGN_UP symtab_size 4; shstrtab_size = of_nat shstrtab_len;
         strtab = shstrtab + ALIGN_UP shstrtab_size 4; strtab_size = of_nat strtab_len
     in \<lparr> fl_symtab = symtab, fl_symtab_size = symtab_size, fl_shstrtab = shstrtab, fl_shstrtab_size = shstrtab_size,
          fl_strtab = strtab, fl_strtab_size = strtab_size, fl_shdrs = strtab + ALIGN_UP strtab_size 4 \<rparr>)"

definition null_shdr :: Elf32_Shdr where
  "null_shdr = \<lparr> sh_name = 0, sh_type = 0, sh_flags = 0, sh_addr = 0, sh_offset = 0, sh_size = 0, sh_link = 0, sh_info = 0,
     sh_addralign = 0, sh_entsize = 0 \<rparr>"

fun section_headers :: "u32 \<Rightarrow> out_sec list \<Rightarrow> Elf32_Shdr list" where
  "section_headers name_pos [] = []"
| "section_headers name_pos (sec # secs) =
    \<lparr> sh_name = name_pos, sh_type = os_type sec, sh_flags = os_flags sec, sh_addr = os_vaddr sec, sh_offset = os_offset sec,
      sh_size = os_size sec, sh_link = 0, sh_info = 0, sh_addralign = os_align sec, sh_entsize = 0 \<rparr>
    # section_headers (name_pos + of_nat (length (os_name sec) + 1)) secs"

definition out_shdrs :: "out_sec list \<Rightarrow> file_layout \<Rightarrow> Elf32_Shdr list" where
  "out_shdrs secs fl =
    (let n = length (shstrtab_names secs)
     in [null_shdr] @ section_headers 1 secs @
        [\<lparr> sh_name = of_nat n, sh_type = SHT_SYMTAB, sh_flags = 0, sh_addr = 0, sh_offset = fl_symtab fl, sh_size = fl_symtab_size fl,
           sh_link = of_nat (length secs + 3), sh_info = 1, sh_addralign = 4, sh_entsize = 16 \<rparr>,
         null_shdr \<lparr> sh_name := of_nat (n + 8), sh_type := SHT_STRTAB, sh_offset := fl_shstrtab fl, sh_size := fl_shstrtab_size fl, sh_addralign := 1 \<rparr>,
         null_shdr \<lparr> sh_name := of_nat (n + 18), sh_type := SHT_STRTAB, sh_offset := fl_strtab fl, sh_size := fl_strtab_size fl, sh_addralign := 1 \<rparr>])"

definition out_ehdr :: "u32 \<Rightarrow> u32 \<Rightarrow> nat \<Rightarrow> nat \<Rightarrow> Elf32_Ehdr" where
  "out_ehdr entry_point file_offset nsecs out_sh_count =
    \<lparr> e_ident = [0x7F, 0x45, 0x4C, 0x46, 1, 1, 1] @ replicate 9 0, e_type = ET_EXEC, e_machine = EM_386, e_version = EV_CURRENT,
      e_entry = entry_point, e_phoff = 52, e_shoff = file_offset, e_flags = 0, e_ehsize = 52, e_phentsize = 32, e_phnum = 2,
      e_shentsize = 40, e_shnum = of_nat out_sh_count, e_shstrndx = of_nat (nsecs + 2) \<rparr>"

definition load_phdr :: "u32 \<Rightarrow> u32 \<Rightarrow> u32 \<Rightarrow> Elf32_Phdr" where
  "load_phdr image_base filesz memsz =
    \<lparr> p_type = PT_LOAD, p_offset = 0x1000, p_vaddr = image_base, p_paddr = image_base, p_filesz = filesz, p_memsz = memsz,
      p_flags = 7, p_align = 4096 \<rparr>"

definition stack_phdr :: Elf32_Phdr where
  "stack_phdr = \<lparr> p_type = PT_GNU_STACK, p_offset = 0, p_vaddr = 0, p_paddr = 0, p_filesz = 0, p_memsz = 0, p_flags = 6, p_align = 0 \<rparr>"

text \<open>\<open>fseek\<close> and \<open>fwrite\<close>: a gap behind the end of the file is filled with zeros.\<close>

definition write_at :: "nat \<Rightarrow> u8 list \<Rightarrow> u8 list \<Rightarrow> u8 list" where
  "write_at off bs file = (if bs = [] then file else take off (file @ replicate (off - length file) 0) @ bs @ drop (off + length bs) file)"

definition write_section :: "out_sec \<Rightarrow> u8 list \<Rightarrow> u8 list" where
  "write_section sec file =
    (if os_type sec \<noteq> SHT_NOBITS \<and> os_size sec > 0
     then write_at (unat (os_offset sec)) (map (os_data sec) [0..<unat (os_size sec)]) file else file)"

definition write_executable :: "u32 \<Rightarrow> u32 \<Rightarrow> out_sec list \<Rightarrow> global_sym list \<Rightarrow> u8 list" where
  "write_executable image_base entry_point secs gs =
    (let syms = out_syms gs; strs = strtab_bytes gs; shstrs = shstrtab_bytes secs;
         secs = map (set_offset image_base) secs;
         filesz = total_filesz image_base secs; memsz = total_memsz image_base secs;
         fl = file_offsets filesz (length syms) (length shstrs) (length strs);
         shdrs = out_shdrs secs fl;
         file = ehdr_bytes (out_ehdr entry_point (fl_shdrs fl) (length secs) (length shdrs))
                @ phdr_bytes (load_phdr image_base filesz memsz) @ phdr_bytes stack_phdr;
         file = file @ replicate (0x1000 - length file) 0;
         file = fold write_section secs file;
         file = write_at (unat (fl_symtab fl)) (take (unat (fl_symtab_size fl)) (concat (map sym_bytes syms))) file;
         file = write_at (unat (fl_shstrtab fl)) shstrs file;
         file = write_at (unat (fl_strtab fl)) strs file
     in write_at (unat (fl_shdrs fl)) (concat (map shdr_bytes shdrs)) file)"

section \<open>The program\<close>

text \<open>The host's \<open>strtoul\<close> with base 0, on a host with 64-bit \<open>unsigned long\<close>.\<close>

definition digit_of :: "u8 \<Rightarrow> nat" where
  "digit_of c = (if is_digit c then unat c - 48 else if 97 \<le> unat c \<and> unat c \<le> 102 then unat c - 87
     else if 65 \<le> unat c \<and> unat c \<le> 70 then unat c - 55 else 99)"

definition digits_in :: "nat \<Rightarrow> u8 list \<Rightarrow> nat" where
  "digits_in b s = fold (\<lambda>c v. b * v + digit_of c) (takeWhile (\<lambda>c. digit_of c < b) s) 0"

definition strtoul0 :: "u8 list \<Rightarrow> u32" where
  "strtoul0 s =
    (let t = dropWhile is_space s; neg = (byte_at t 0 = asc CHR ''-'');
         t = (if neg \<or> byte_at t 0 = asc CHR ''+'' then tl t else t);
         hex = (byte_at t 0 = asc CHR ''0'' \<and> (byte_at t 1 = asc CHR ''x'' \<or> byte_at t 1 = asc CHR ''X'') \<and> digit_of (byte_at t 2) < 16);
         v = (if hex then digits_in 16 (drop 2 t) else if byte_at t 0 = asc CHR ''0'' then digits_in 8 t else digits_in 10 t)
     in if v \<ge> 2 ^ 64 then of_nat (2 ^ 64 - 1) else if neg then - of_nat v else of_nat v)"

record ld_opts =
  ld_output :: "u8 list option"
  ld_base :: u32
  ld_inputs :: "u8 list list"

fun ld_args :: "u8 list list \<Rightarrow> ld_opts \<Rightarrow> ld_error + ld_opts" where
  "ld_args [] opt = Inr opt"
| "ld_args (a # as) opt =
    (if a = bytes ''-o'' \<and> as \<noteq> [] then ld_args (tl as) (opt \<lparr> ld_output := Some (hd as) \<rparr>)
     else if a = bytes ''-m'' \<and> as \<noteq> [] then ld_args (tl as) opt
     else if a = bytes ''-T'' \<and> as \<noteq> [] then ld_args (tl as) opt
     else if take 13 a = bytes ''--image-base='' then ld_args as (opt \<lparr> ld_base := strtoul0 (drop 13 a) \<rparr>)
     else if byte_at a 0 = asc CHR ''-'' then ld_args as opt
     else if length (ld_inputs opt) \<ge> MAX_INPUT_FILES then Inl Too_Many_Inputs
     else ld_args as (opt \<lparr> ld_inputs := ld_inputs opt @ [a] \<rparr>))"

definition link_inputs :: "(nat \<Rightarrow> nat \<Rightarrow> u8) \<Rightarrow> u32 \<Rightarrow> input_obj list \<Rightarrow> ld_error + input_obj list \<times> ld_state" where
  "link_inputs junk image_base ins =
    ld_bind (place_inputs ins (init_out_secs junk)) (\<lambda>(secs, ins).
      (let secs = layout_secs image_base secs; ins = map (set_vaddrs secs) ins
       in ld_bind (collect_symbols ins (secs, [])) (\<lambda>st.
          ld_bind (define_kernel_end st) (\<lambda>(secs, gs).
          ld_bind (check_symbols ins gs) (\<lambda>gs.
          ld_bind (relocate_all ins (secs, gs)) (\<lambda>st. Inr (ins, st)))))))"

text \<open>The names of 4096 symbols may not fit the buffer of 65536 bytes for them.\<close>

definition finish_link :: "bool \<Rightarrow> u32 \<Rightarrow> ld_state \<Rightarrow> ld_error + u8 list" where
  "finish_link can_create image_base = (\<lambda>(secs, gs).
    ld_bind (find_or_add_global_sym (bytes ''_start'') gs) (\<lambda>(i, gs).
      if \<not> gs_defined (gs ! i) then Inl No_Start
      else if length (strtab_bytes gs) > 65536 then Inl Bad_Access
      else if \<not> can_create then Inl Cannot_Create
      else Inr (write_executable image_base (gs_vaddr (gs ! i)) secs gs)))"

definition ld_main :: "(u8 list \<rightharpoonup> u8 list) \<Rightarrow> bool \<Rightarrow> (nat \<Rightarrow> nat \<Rightarrow> u8) \<Rightarrow> u8 list list \<Rightarrow> ld_error + u8 list \<times> u8 list" where
  "ld_main files can_create junk argv =
    ld_bind (ld_args argv \<lparr> ld_output = None, ld_base = 0x100000, ld_inputs = [] \<rparr>) (\<lambda>opt.
      case ld_output opt of
        None \<Rightarrow> Inl Usage
      | Some out \<Rightarrow>
         if ld_inputs opt = [] then Inl Usage
         else ld_bind (load_inputs files (ld_inputs opt)) (\<lambda>ins.
              ld_bind (link_inputs junk (ld_base opt) ins) (\<lambda>(ins, st).
              ld_bind (finish_link can_create (ld_base opt) st) (\<lambda>file. Inr (out, file)))))"

end
