(* ===== verification/Ld_Props.thy ===== *)
theory Ld_Props
  imports Ld
begin

text \<open>
  What the linker makes of objects whose offsets stay inside them: every section it takes stands in the
  executable at its address, with its relocations applied to it and to nothing else; every symbol has the
  address of its definition.
\<close>

section \<open>Steps that may fail\<close>

lemma ld_bind_Inr: "ld_bind r f = Inr y \<longleftrightarrow> (\<exists>x. r = Inr x \<and> f x = Inr y)"
  by (auto simp: ld_bind_def split: sum.splits)

lemma ld_bind_simps [simp]: "ld_bind (Inr x) f = f x" "ld_bind (Inl e) f = Inl e"
  by (simp_all add: ld_bind_def)

lemma ld_fold_append: "ld_fold f (xs @ ys) s = ld_bind (ld_fold f xs s) (ld_fold f ys)"
  by (induction xs arbitrary: s) (auto simp: ld_bind_def split: sum.splits)

text \<open>A loop over loops is a loop over all of their elements.\<close>

lemma ld_fold_concat: "ld_fold (\<lambda>x. ld_fold (g x) (h x)) xs s = ld_fold (\<lambda>(x, y). g x y) (concat (map (\<lambda>x. map (Pair x) (h x)) xs)) s"
proof (induction xs arbitrary: s)
  case (Cons x xs)
  have "ld_fold (\<lambda>(x, y). g x y) (map (Pair x) ys) s = ld_fold (g x) ys s" for ys s
    by (induction ys arbitrary: s) (auto simp: ld_bind_def split: sum.splits)
  then show ?case using Cons by (simp add: ld_fold_append ld_bind_def split: sum.splits)
qed simp

lemma ld_fold_invariant:
  assumes "ld_fold f xs s = Inr s'" "P s" "\<And>x s s'. x \<in> set xs \<Longrightarrow> f x s = Inr s' \<Longrightarrow> P s \<Longrightarrow> P s'"
  shows "P s'"
  using assms
proof (induction xs arbitrary: s)
  case (Cons x xs)
  from Cons.prems(1) obtain t where t: "f x s = Inr t" "ld_fold f xs t = Inr s'" by (auto simp: ld_bind_Inr)
  have "P t" using Cons.prems(3) [OF _ t(1) Cons.prems(2)] by simp
  then show ?case by (rule Cons.IH [OF t(2)]) (use Cons.prems(3) in auto)
qed simp

section \<open>Buffers\<close>

lemma buf_put_in: "i < n \<Longrightarrow> buf_put d off n f (off + i) = f i"
  by (simp add: buf_put_def)

lemma buf_put_out: "i < off \<or> off + n \<le> i \<Longrightarrow> buf_put d off n f i = d i"
  by (auto simp: buf_put_def)

definition view :: "nat \<Rightarrow> (nat \<Rightarrow> u8) \<Rightarrow> nat \<Rightarrow> u8" where
  "view off d i = d (off + i)"

lemma view_put: "view off (buf_put d (off + r) n f) = buf_put (view off d) r n f"
  by (auto simp: view_def buf_put_def)

lemma view_get: "get32 d (off + r) = get32 (view off d) r" "get16 d (off + r) = get16 (view off d) r" "d (off + r) = view off d r"
  by (simp_all add: view_def get32_def get16_def add.assoc)

text \<open>A relocation inside a part of a buffer is a relocation of that part, one outside leaves it alone,
  and what it does below a bound depends on what is below the bound.\<close>

lemma view_apply_rel: "view off (apply_rel ty S P (off + r) d) = apply_rel ty S P r (view off d)"
  unfolding apply_rel_def by (simp add: view_put view_get(1,2)) (simp add: view_get(3))

lemma apply_rel_outside:
  assumes "i < loc \<or> loc + 4 \<le> i"
  shows "apply_rel ty S P loc d i = d i"
  using assms by (auto simp: apply_rel_def buf_put_out)

lemma apply_rel_cong:
  assumes "\<And>i. i < n \<Longrightarrow> d i = d' i" "loc + 4 \<le> n" "i < n"
  shows "apply_rel ty S P loc d i = apply_rel ty S P loc d' i"
proof -
  have "get32 d loc = get32 d' loc" "get16 d loc = get16 d' loc" "d loc = d' loc"
    using assms(1,2) by (simp_all add: get32_def get16_def)
  then show ?thesis using assms(1,3) by (simp add: apply_rel_def buf_put_def)
qed

section \<open>Appending to a section\<close>

definition pow2 :: "u32 \<Rightarrow> bool" where
  "pow2 a \<longleftrightarrow> (\<exists>k < 32. a = 2 ^ k)"

lemma pow2_pos: "pow2 a \<Longrightarrow> 1 \<le> unat a"
  by (auto simp: pow2_def unat_power2)

lemma append_offset:
  assumes "pow2 a" "unat x + unat a \<le> 2 ^ 32"
  shows "unat x \<le> unat (ALIGN_UP x a)" "unat (ALIGN_UP x a) < unat x + unat a" "unat a dvd unat (ALIGN_UP x a)"
proof -
  obtain k where k: "a = 2 ^ k" "k < 32" using assms(1) by (auto simp: pow2_def)
  then have "unat a = 2 ^ k" by (simp add: unat_power2)
  then show "unat x \<le> unat (ALIGN_UP x a)" "unat (ALIGN_UP x a) < unat x + unat a" "unat a dvd unat (ALIGN_UP x a)"
    using ALIGN_UP_props [of x k] assms(2) k by simp_all
qed

lemma append_sec:
  fixes src :: "(nat \<Rightarrow> u8) option"
  assumes "pow2 a" "unat (os_size sec) + unat a + unat len \<le> 2 ^ 32"
  defines "off \<equiv> unat (ALIGN_UP (os_size sec) a)" and "sec' \<equiv> out_sec_append sec src len a"
  shows "unat (os_size sec') = off + unat len" "i < unat (os_size sec) \<Longrightarrow> os_data sec' i = os_data sec i"
    "os_type sec \<noteq> SHT_NOBITS \<Longrightarrow> src = Some f \<Longrightarrow> i < unat len \<Longrightarrow> os_data sec' (off + i) = f i"
    "os_type sec' = os_type sec" "os_align sec' = os_align sec" "os_vaddr sec' = os_vaddr sec" "os_name sec' = os_name sec"
proof -
  have fits: "unat (os_size sec) + unat a \<le> 2 ^ 32" using assms(2) by simp
  note o = append_offset [OF assms(1) fits]
  have a1: "\<not> a < 1" using pow2_pos [OF assms(1)] by (simp add: word_less_nat_alt)
  have "off + unat len < 2 ^ 32" using o(2) assms(2) unfolding off_def by linarith
  then show "unat (os_size sec') = off + unat len"
    using a1 by (simp add: sec'_def out_sec_append_def Let_def off_def unat_add_fits)
  show "os_type sec' = os_type sec" "os_align sec' = os_align sec" "os_vaddr sec' = os_vaddr sec" "os_name sec' = os_name sec"
    by (simp_all add: sec'_def out_sec_append_def Let_def)
  show "os_data sec' i = os_data sec i" if "i < unat (os_size sec)"
    using that o(1) a1 by (simp add: sec'_def out_sec_append_def Let_def buf_put_out split: option.split)
  show "os_data sec' (off + i) = f i" if "os_type sec \<noteq> SHT_NOBITS" "src = Some f" "i < unat len"
    using that a1 by (simp add: sec'_def out_sec_append_def Let_def off_def buf_put_in)
qed


section \<open>Placing sections\<close>

lemma obj_fields [simp]: "shdr_at (inp \<lparr> sec_map := x \<rparr>) s = shdr_at inp s" "shnum (inp \<lparr> sec_map := x \<rparr>) = shnum inp"
  "sec_name (inp \<lparr> sec_map := x \<rparr>) sh = sec_name inp sh" "sec_bytes (inp \<lparr> sec_map := x \<rparr>) sh = sec_bytes inp sh"
  "obj_syms (inp \<lparr> sec_map := x \<rparr>) = obj_syms inp" "sym_name (inp \<lparr> sec_map := x \<rparr>) sy = sym_name inp sy"
  "sec_rels (inp \<lparr> sec_map := x \<rparr>) sh = sec_rels inp sh"
  by (simp_all add: shdr_at_def shnum_def sec_name_def sec_bytes_def fun_eq_iff obj_syms_def sym_at_def sym_name_def sec_rels_def split: option.split)

definition takes :: "input_obj \<Rightarrow> nat \<Rightarrow> bool" where
  "takes inp s \<longleftrightarrow> sh_flags (shdr_at inp s) AND SHF_ALLOC \<noteq> 0 \<and> target_of (sec_name inp (shdr_at inp s)) \<noteq> None"

definition weight :: "input_obj \<Rightarrow> nat \<Rightarrow> nat" where
  "weight inp s = (if takes inp s then unat (sh_size (shdr_at inp s)) + unat (sec_align (shdr_at inp s)) else 0)"

definition sec_end :: "input_obj \<Rightarrow> nat \<Rightarrow> in_sec_map \<Rightarrow> nat" where
  "sec_end inp s m = unat (out_offset m) + unat (sh_size (shdr_at inp s))"

lemma sec_fields [simp]: "takes (inp \<lparr> sec_map := x \<rparr>) s = takes inp s" "weight (inp \<lparr> sec_map := x \<rparr>) s = weight inp s"
  "sec_end (inp \<lparr> sec_map := x \<rparr>) s m = sec_end inp s m"
  by (simp_all add: takes_def weight_def sec_end_def)

text \<open>The output sections after more was appended.\<close>

definition grown :: "out_sec \<Rightarrow> out_sec \<Rightarrow> bool" where
  "grown a b \<longleftrightarrow> os_type b = os_type a \<and> os_align b = os_align a \<and> os_vaddr b = os_vaddr a \<and> os_name b = os_name a
     \<and> unat (os_size a) \<le> unat (os_size b) \<and> (\<forall>i < unat (os_size a). os_data b i = os_data a i)"

definition all_grown :: "out_sec list \<Rightarrow> out_sec list \<Rightarrow> bool" where
  "all_grown secs secs' \<longleftrightarrow> length secs = 5 \<and> length secs' = 5 \<and> (\<forall>t < 5. grown (secs ! t) (secs' ! t))"

lemma all_grown_refl: "length secs = 5 \<Longrightarrow> all_grown secs secs"
  by (simp add: all_grown_def grown_def)

lemma all_grown_trans: "all_grown a b \<Longrightarrow> all_grown b c \<Longrightarrow> all_grown a c"
  by (force simp: all_grown_def grown_def)

lemma all_grown_update: "length secs = 5 \<Longrightarrow> grown (secs ! t) x \<Longrightarrow> all_grown secs (secs[t := x])"
  unfolding all_grown_def by (metis grown_def length_list_update nth_list_update_eq nth_list_update_neq order_refl)

text \<open>An input section stands in its output section.\<close>

definition stands :: "out_sec list \<Rightarrow> input_obj \<Rightarrow> nat \<Rightarrow> in_sec_map \<Rightarrow> bool" where
  "stands secs inp s m \<longleftrightarrow> (if takes inp s then
     (\<exists>t. target_of (sec_name inp (shdr_at inp s)) = Some t \<and> t < 5 \<and> out_sec_idx m = int t \<and> sec_end inp s m \<le> unat (os_size (secs ! t))
       \<and> unat (sec_align (shdr_at inp s)) dvd unat (out_offset m)
       \<and> (sh_type (shdr_at inp s) \<noteq> SHT_NOBITS \<and> os_type (secs ! t) \<noteq> SHT_NOBITS \<longrightarrow>
            (\<forall>i < unat (sh_size (shdr_at inp s)). view (unat (out_offset m)) (os_data (secs ! t)) i = sec_bytes inp (shdr_at inp s) i)))
     else out_sec_idx m = -1)"

lemma stands_grown:
  assumes "all_grown secs secs'" "stands secs inp s m"
  shows "stands secs' inp s m"
proof (cases "takes inp s")
  case True
  then obtain t where t: "target_of (sec_name inp (shdr_at inp s)) = Some t" "t < 5" "out_sec_idx m = int t"
    "sec_end inp s m \<le> unat (os_size (secs ! t))" "unat (sec_align (shdr_at inp s)) dvd unat (out_offset m)"
    "sh_type (shdr_at inp s) \<noteq> SHT_NOBITS \<and> os_type (secs ! t) \<noteq> SHT_NOBITS \<longrightarrow>
      (\<forall>i < unat (sh_size (shdr_at inp s)). view (unat (out_offset m)) (os_data (secs ! t)) i = sec_bytes inp (shdr_at inp s) i)"
    using assms(2) by (auto simp: stands_def)
  have g: "grown (secs ! t) (secs' ! t)" using assms(1) t(2) by (simp add: all_grown_def)
  then have "view (unat (out_offset m)) (os_data (secs' ! t)) i = view (unat (out_offset m)) (os_data (secs ! t)) i"
    if "i < unat (sh_size (shdr_at inp s))" for i
    using that t(4) by (simp add: grown_def view_def sec_end_def)
  then show ?thesis using True t g by (auto simp: stands_def grown_def)
qed (use assms(2) in \<open>simp add: stands_def\<close>)

lemma target_5: "target_of name = Some t \<Longrightarrow> t < 5"
  by (auto simp: target_of_def out_secs_consts split: if_splits)

definition total_size :: "out_sec list \<Rightarrow> nat" where
  "total_size secs = sum_list (map (\<lambda>s. unat (os_size s)) secs)"

lemma size_total: "t < length secs \<Longrightarrow> unat (os_size (secs ! t)) \<le> total_size secs"
  unfolding total_size_def by (intro member_le_sum_list) simp_all

lemma total_size_update:
  assumes "t < length secs" "unat (os_size x) \<le> unat (os_size (secs ! t)) + w"
  shows "total_size (secs[t := x]) \<le> total_size secs + w"
proof -
  have "total_size (secs[t := x]) = total_size secs + unat (os_size x) - unat (os_size (secs ! t))"
    using assms(1) by (simp add: total_size_def map_update sum_list_update)
  then show ?thesis using assms(2) by simp
qed

lemma place_section_ok:
  assumes "length secs = 5" "takes inp s \<Longrightarrow> pow2 (sec_align (shdr_at inp s))"
    "total_size secs + weight inp s \<le> 2 ^ 32" "place_section inp s secs = (secs', m)"
  shows "all_grown secs secs'" "stands secs' inp s m" "\<And>t. out_sec_idx m = int t \<Longrightarrow> unat (os_size (secs ! t)) \<le> unat (out_offset m)"
    "total_size secs' \<le> total_size secs + weight inp s"
proof -
  let ?sh = "shdr_at inp s"
  have "all_grown secs secs' \<and> stands secs' inp s m \<and> (\<forall>t. out_sec_idx m = int t \<longrightarrow> unat (os_size (secs ! t)) \<le> unat (out_offset m))
    \<and> total_size secs' \<le> total_size secs + weight inp s"
  proof (cases "takes inp s")
    case False
    then have "secs' = secs" "out_sec_idx m = -1"
      using assms(4) by (auto simp: place_section_def takes_def Let_def split: if_splits option.splits)
    then show ?thesis using assms(1) False all_grown_refl by (simp add: stands_def weight_def)
  next
    case True
    then obtain t where t: "target_of (sec_name inp ?sh) = Some t" "t < 5" using target_5 by (auto simp: takes_def)
    let ?a = "sec_align ?sh" and ?src = "if sh_type ?sh \<noteq> SHT_NOBITS then Some (sec_bytes inp ?sh) else None"
    let ?new = "out_sec_append (secs ! t) ?src (sh_size ?sh) ?a"
    have e: "secs' = secs[t := ?new]" "m = \<lparr> out_sec_idx = int t, out_offset = ALIGN_UP (os_size (secs ! t)) ?a, in_vaddr = 0 \<rparr>"
      using assms(4) True t(1) by (auto simp: place_section_def takes_def Let_def)
    have room: "unat (os_size (secs ! t)) + unat ?a + unat (sh_size ?sh) \<le> 2 ^ 32" using assms(1,3) True size_total [of t secs] t(2) by (simp add: weight_def)
    note p = assms(2) [OF True]
    note app = append_sec [OF p room, where src = ?src]
    have off: "unat (os_size (secs ! t)) \<le> unat (ALIGN_UP (os_size (secs ! t)) ?a)"
      "unat (ALIGN_UP (os_size (secs ! t)) ?a) < unat (os_size (secs ! t)) + unat ?a" "unat ?a dvd unat (ALIGN_UP (os_size (secs ! t)) ?a)"
      using append_offset [OF p, of "os_size (secs ! t)"] room by auto
    have "grown (secs ! t) ?new" using app(1,2,4-7) off(1) by (simp add: grown_def)
    then have "all_grown secs secs'" unfolding e(1) by (rule all_grown_update [OF assms(1)])
    moreover have "stands secs' inp s m"
      using True t e app(1,4) off(3) app(3) [where f = "sec_bytes inp ?sh"] assms(1) by (simp add: stands_def sec_end_def view_def)
    moreover have "total_size secs' \<le> total_size secs + weight inp s"
      unfolding e(1) using app(1) off(2) True t(2) assms(1) by (intro total_size_update) (simp_all add: weight_def)
    ultimately show ?thesis using e(2) off(1) by auto
  qed
  then show "all_grown secs secs'" "stands secs' inp s m" "\<And>t. out_sec_idx m = int t \<Longrightarrow> unat (os_size (secs ! t)) \<le> unat (out_offset m)"
    "total_size secs' \<le> total_size secs + weight inp s" by blast+
qed


text \<open>Sections of one output section do not overlap: those placed later lie behind.\<close>

definition behind :: "input_obj \<times> nat \<times> in_sec_map \<Rightarrow> input_obj \<times> nat \<times> in_sec_map \<Rightarrow> bool" where
  "behind = (\<lambda>(inp, s, m) (inp', s', m'). out_sec_idx m = out_sec_idx m' \<and> 0 \<le> out_sec_idx m \<longrightarrow> sec_end inp s m \<le> unat (out_offset m'))"

definition places :: "input_obj \<Rightarrow> nat list \<Rightarrow> in_sec_map list \<Rightarrow> (input_obj \<times> nat \<times> in_sec_map) list" where
  "places inp ss ms = map (\<lambda>(s, m). (inp, s, m)) (zip ss ms)"

definition lies_above :: "out_sec list \<Rightarrow> input_obj \<times> nat \<times> in_sec_map \<Rightarrow> bool" where
  "lies_above secs = (\<lambda>(inp, s, m). \<forall>t. out_sec_idx m = int t \<longrightarrow> unat (os_size (secs ! t)) \<le> unat (out_offset m))"

definition stand :: "out_sec list \<Rightarrow> input_obj \<times> nat \<times> in_sec_map \<Rightarrow> bool" where
  "stand secs = (\<lambda>(inp, s, m). stands secs inp s m)"

lemma stand_behind:
  assumes "stand secs p" "lies_above secs q"
  shows "behind p q"
  using assms by (auto simp: stand_def lies_above_def behind_def stands_def split: prod.splits if_splits)

lemma above_grown:
  assumes "all_grown secs secs'" "lies_above secs' q" "stand secs'' q"
  shows "lies_above secs q"
proof -
  obtain inp s m where q: "q = (inp, s, m)" by (cases q)
  have "unat (os_size (secs ! t)) \<le> unat (out_offset m)" if t: "out_sec_idx m = int t" for t
  proof -
    have "t < 5" using assms(3) t by (auto simp: q stand_def stands_def split: if_splits)
    then show ?thesis using assms(1,2) t by (force simp: q lies_above_def all_grown_def grown_def)
  qed
  then show ?thesis by (simp add: q lies_above_def)
qed

text \<open>What placing a number of sections achieves.\<close>

definition placing :: "out_sec list \<Rightarrow> out_sec list \<Rightarrow> nat \<Rightarrow> (input_obj \<times> nat \<times> in_sec_map) list \<Rightarrow> bool" where
  "placing secs secs' w ps \<longleftrightarrow> all_grown secs secs' \<and> (\<forall>p \<in> set ps. stand secs' p \<and> lies_above secs p) \<and> sorted_wrt behind ps
     \<and> total_size secs' \<le> total_size secs + w"

lemma placing_append:
  assumes "placing a b v ps" "placing b c w qs"
  shows "placing a c (v + w) (ps @ qs)"
proof -
  have g: "all_grown a b" "all_grown b c" using assms by (auto simp: placing_def)
  have "stand c p" if "p \<in> set ps" for p
    using that assms(1) stands_grown [OF g(2)] by (auto simp: placing_def stand_def split: prod.splits)
  moreover have "lies_above a q" if "q \<in> set qs" for q using that assms(2) above_grown [OF g(1)] unfolding placing_def by blast
  moreover have "behind p q" if "p \<in> set ps" "q \<in> set qs" for p q
    using that assms stand_behind unfolding placing_def by blast
  moreover have "total_size c \<le> total_size a + (v + w)" using assms by (simp add: placing_def)
  ultimately show ?thesis using assms all_grown_trans [OF g] by (auto simp: placing_def sorted_wrt_append)
qed

lemma placing_nil: "length secs = 5 \<Longrightarrow> placing secs secs 0 []"
  by (simp add: placing_def all_grown_refl)

lemma place_sections_ok:
  assumes "length secs = 5" "\<forall>s \<in> set ss. takes inp s \<longrightarrow> pow2 (sec_align (shdr_at inp s))"
    "total_size secs + sum_list (map (weight inp) ss) \<le> 2 ^ 32" "place_sections inp ss secs = (secs', ms)"
  shows "length ms = length ss \<and> placing secs secs' (sum_list (map (weight inp) ss)) (places inp ss ms)"
  using assms
proof (induction ss arbitrary: secs secs' ms)
  case Nil
  then show ?case by (simp add: places_def placing_nil)
next
  case (Cons s ss)
  obtain b m where b: "place_section inp s secs = (b, m)" by (cases "place_section inp s secs")
  obtain ms' where ms: "place_sections inp ss b = (secs', ms')" "ms = m # ms'"
    using Cons.prems(4) b by (auto simp: Let_def split: prod.splits)
  have room: "total_size secs + weight inp s \<le> 2 ^ 32" using Cons.prems(3) by simp
  have al: "takes inp s \<Longrightarrow> pow2 (sec_align (shdr_at inp s))" using Cons.prems(2) by simp
  note p = place_section_ok [OF Cons.prems(1) al room b]
  have one: "placing secs b (weight inp s) [(inp, s, m)]"
    using p by (simp add: placing_def stand_def lies_above_def)
  have len: "length b = 5" using p(1) by (simp add: all_grown_def)
  have "total_size b + sum_list (map (weight inp) ss) \<le> 2 ^ 32" using p(4) Cons.prems(3) by simp
  then have "length ms' = length ss \<and> placing b secs' (sum_list (map (weight inp) ss)) (places inp ss ms')"
    using Cons.IH [OF len _ _ ms(1)] Cons.prems(2) by simp
  then show ?case using placing_append [OF one] ms(2) by (simp add: places_def)
qed


text \<open>The addresses of sections and the maps kept with an object do not matter for where its sections are.\<close>

definition same_place :: "input_obj \<times> nat \<times> in_sec_map \<Rightarrow> input_obj \<times> nat \<times> in_sec_map \<Rightarrow> bool" where
  "same_place = (\<lambda>(inp, s, m) (inp', s', m'). (\<exists>x. inp' = inp \<lparr> sec_map := x \<rparr>) \<and> s' = s \<and> out_sec_idx m' = out_sec_idx m \<and> out_offset m' = out_offset m)"

lemma same_place_iff:
  assumes "same_place p p'"
  shows "stand secs p' = stand secs p" "lies_above secs p' = lies_above secs p"
  using assms by (auto simp: same_place_def stand_def lies_above_def stands_def sec_end_def split: prod.splits)

lemma same_place_behind:
  assumes "same_place p p'" "same_place q q'"
  shows "behind p' q' = behind p q"
  using assms by (auto simp: same_place_def behind_def sec_end_def split: prod.splits)

lemma placing_same:
  assumes "list_all2 same_place ps ps'"
  shows "placing a b w ps' = placing a b w ps"
proof -
  have "(\<forall>p \<in> set ps'. stand b p \<and> lies_above a p) = (\<forall>p \<in> set ps. stand b p \<and> lies_above a p)"
    using assms by (induction) (auto simp: same_place_iff)
  moreover have "sorted_wrt behind ps' = sorted_wrt behind ps"
    using assms
  proof (induction)
    case (Cons p ps p' ps')
    have "(\<forall>q \<in> set ps'. behind p' q) = (\<forall>q \<in> set ps. behind p q)"
      using Cons.hyps(2) by (induction) (auto simp: same_place_behind [OF Cons.hyps(1)])
    then show ?case using Cons.IH by simp
  qed simp
  ultimately show ?thesis by (simp add: placing_def)
qed

definition all_places :: "input_obj list \<Rightarrow> (input_obj \<times> nat \<times> in_sec_map) list" where
  "all_places ins = concat (map (\<lambda>inp. places inp [0..<shnum inp] (sec_map inp)) ins)"

definition obj_weight :: "input_obj \<Rightarrow> nat" where
  "obj_weight inp = sum_list (map (weight inp) [0..<shnum inp])"

definition aligned_obj :: "input_obj \<Rightarrow> bool" where
  "aligned_obj inp \<longleftrightarrow> length (sec_map inp) = MAX_SECTIONS_PER_FILE \<and> (\<forall>s < shnum inp. takes inp s \<longrightarrow> pow2 (sec_align (shdr_at inp s)))"

definition with_map :: "input_obj \<Rightarrow> input_obj \<Rightarrow> bool" where
  "with_map inp inp' \<longleftrightarrow> (\<exists>x. inp' = inp \<lparr> sec_map := x \<rparr> \<and> length x = length (sec_map inp))"

lemma places_same:
  "list_all2 same_place (places inp ss ms) (places (inp \<lparr> sec_map := x \<rparr>) ss ms)"
  by (auto simp: places_def list_all2_conv_all_nth same_place_def split: prod.splits)

lemma places_take: "length ss \<le> length ms \<Longrightarrow> places inp ss (ms @ ys) = places inp ss ms"
  unfolding places_def by (rule arg_cong, rule nth_equalityI) (simp_all add: nth_append)

lemma place_inputs_ok:
  assumes "length secs = 5" "\<forall>inp \<in> set ins. aligned_obj inp"
    "total_size secs + sum_list (map obj_weight ins) \<le> 2 ^ 32" "place_inputs ins secs = Inr (secs', ins')"
  shows "list_all2 with_map ins ins' \<and> (\<forall>inp \<in> set ins'. shnum inp \<le> MAX_SECTIONS_PER_FILE)
    \<and> placing secs secs' (sum_list (map obj_weight ins)) (all_places ins')"
  using assms
proof (induction ins arbitrary: secs secs' ins')
  case Nil
  then show ?case by (simp add: all_places_def placing_nil)
next
  case (Cons inp ins)
  obtain b ms where b: "place_sections inp [0..<shnum inp] secs = (b, ms)" by (cases "place_sections inp [0..<shnum inp] secs")
  let ?x = "ms @ drop (length ms) (sec_map inp)"
  have few: "shnum inp \<le> MAX_SECTIONS_PER_FILE" using Cons.prems(4) by (auto split: if_splits)
  then obtain ins2 where r: "place_inputs ins b = Inr (secs', ins2)" "ins' = inp \<lparr> sec_map := ?x \<rparr> # ins2"
    using Cons.prems(4) b by (auto simp: Let_def ld_bind_Inr)
  have "total_size secs + sum_list (map (weight inp) [0..<shnum inp]) \<le> 2 ^ 32"
    using Cons.prems(3) by (simp add: obj_weight_def)
  then have ms: "length ms = shnum inp" "placing secs b (obj_weight inp) (places inp [0..<shnum inp] ms)"
    using place_sections_ok [OF Cons.prems(1) _ _ b] Cons.prems(2) by (auto simp: aligned_obj_def obj_weight_def)
  have len: "length b = 5" using ms(2) by (simp add: placing_def all_grown_def)
  have "total_size b + sum_list (map obj_weight ins) \<le> 2 ^ 32" using ms(2) Cons.prems(3) by (simp add: placing_def)
  then have IH: "list_all2 with_map ins ins2" "\<forall>inp \<in> set ins2. shnum inp \<le> MAX_SECTIONS_PER_FILE"
    "placing b secs' (sum_list (map obj_weight ins)) (all_places ins2)"
    using Cons.IH [OF len _ _ r(1)] Cons.prems(2) by auto
  have "placing secs b (obj_weight inp) (places (inp \<lparr> sec_map := ?x \<rparr>) [0..<shnum inp] ?x)"
    using ms placing_same [OF places_same [of inp "[0..<shnum inp]" ms ?x], of secs b "obj_weight inp"] by (simp add: places_take)
  from placing_append [OF this IH(3)]
  have "placing secs secs' (sum_list (map obj_weight (inp # ins))) (all_places ins')" by (simp add: r(2) all_places_def)
  moreover have "length ?x = length (sec_map inp)" using ms(1) few Cons.prems(2) by (simp add: aligned_obj_def)
  then have "with_map inp (inp \<lparr> sec_map := ?x \<rparr>)" by (auto simp: with_map_def)
  ultimately show ?case using IH(1,2) few r(2) by simp
qed


section \<open>Addresses\<close>

text \<open>Output sections follow one another from the base of the image, each at a multiple of its alignment.\<close>

fun laid_out :: "nat \<Rightarrow> out_sec list \<Rightarrow> bool" where
  "laid_out cur [] = True"
| "laid_out cur (sec # secs) \<longleftrightarrow> cur \<le> unat (os_vaddr sec) \<and> unat (os_align sec) dvd unat (os_vaddr sec)
     \<and> unat (os_vaddr sec) + unat (os_size sec) < 2 ^ 32 \<and> laid_out (unat (os_vaddr sec) + unat (os_size sec)) secs"

definition room_for :: "out_sec list \<Rightarrow> nat" where
  "room_for secs = sum_list (map (\<lambda>s. unat (os_size s) + unat (os_align s)) secs)"

lemma layout_ok:
  assumes "\<forall>s \<in> set secs. pow2 (os_align s)" "unat v + room_for secs < 2 ^ 32"
  shows "laid_out (unat v) (layout_secs v secs)"
  using assms
proof (induction secs arbitrary: v)
  case (Cons sec secs)
  let ?v = "ALIGN_UP v (os_align sec)"
  have fits: "unat v + unat (os_align sec) + unat (os_size sec) + room_for secs < 2 ^ 32" using Cons.prems(2) by (simp add: room_for_def)
  have a: "unat v \<le> unat ?v" "unat ?v < unat v + unat (os_align sec)" "unat (os_align sec) dvd unat ?v"
    using append_offset [of "os_align sec" v] Cons.prems(1) fits by auto
  have e: "unat (?v + os_size sec) = unat ?v + unat (os_size sec)" using a(2) fits by (intro unat_add_fits) simp
  have "laid_out (unat (?v + os_size sec)) (layout_secs (?v + os_size sec) secs)"
    using Cons.IH [of "?v + os_size sec"] Cons.prems(1) a(2) fits e by simp
  then show ?case using a e fits by (simp add: Let_def)
qed simp

lemma layout_nth:
  "length (layout_secs v secs) = length secs"
  "t < length secs \<Longrightarrow> \<exists>a. layout_secs v secs ! t = (secs ! t) \<lparr> os_vaddr := a \<rparr>"
proof -
  show "length (layout_secs v secs) = length secs" by (induction secs arbitrary: v) (auto simp: Let_def)
  show "t < length secs \<Longrightarrow> \<exists>a. layout_secs v secs ! t = (secs ! t) \<lparr> os_vaddr := a \<rparr>"
    by (induction secs arbitrary: v t) (auto simp: Let_def nth_Cons split: nat.split)
qed

lemma layout_end:
  assumes "\<forall>s \<in> set secs. pow2 (os_align s)" "unat v + room_for secs < 2 ^ 32" "t < length secs"
  shows "unat (os_vaddr (layout_secs v secs ! t)) + unat (os_size (secs ! t)) \<le> unat v + room_for secs"
  using assms
proof (induction secs arbitrary: v t)
  case (Cons sec secs)
  let ?v = "ALIGN_UP v (os_align sec)"
  have fits: "unat v + unat (os_align sec) + unat (os_size sec) + room_for secs < 2 ^ 32" using Cons.prems(2) by (simp add: room_for_def)
  have a: "unat ?v < unat v + unat (os_align sec)" using append_offset [of "os_align sec" v] Cons.prems(1) fits by auto
  have e: "unat (?v + os_size sec) = unat ?v + unat (os_size sec)" using a fits by (intro unat_add_fits) simp
  have r: "room_for (sec # secs) = unat (os_size sec) + unat (os_align sec) + room_for secs" by (simp add: room_for_def)
  show ?case
  proof (cases t)
    case (Suc u)
    then show ?thesis using Cons.IH [of "?v + os_size sec" u] Cons.prems a e r fits by (simp add: Let_def)
  qed (use a r in \<open>simp add: Let_def\<close>)
qed simp

lemma laid_out_ge: "laid_out cur secs \<Longrightarrow> t < length secs \<Longrightarrow> cur \<le> unat (os_vaddr (secs ! t))"
proof (induction secs arbitrary: cur t)
  case (Cons sec secs)
  show ?case
  proof (cases t)
    case (Suc u)
    then have "unat (os_vaddr sec) + unat (os_size sec) \<le> unat (os_vaddr (secs ! u))" using Cons by simp
    then show ?thesis using Cons.prems(1) Suc by simp
  qed (use Cons.prems in simp)
qed simp

lemma laid_out_sep:
  "laid_out cur secs \<Longrightarrow> t < u \<Longrightarrow> u < length secs \<Longrightarrow> unat (os_vaddr (secs ! t)) + unat (os_size (secs ! t)) \<le> unat (os_vaddr (secs ! u))"
proof (induction secs arbitrary: cur t u)
  case (Cons sec secs)
  then obtain u' where u: "u = Suc u'" by (cases u) auto
  show ?case
  proof (cases t)
    case 0
    then show ?thesis using laid_out_ge [of _ secs u'] Cons.prems u by simp
  next
    case (Suc t')
    then show ?thesis using Cons.IH [of _ t' u'] Cons.prems u by auto
  qed
qed simp


section \<open>Symbols and sections\<close>

text \<open>Collecting symbols changes no section but the last, and that only in its size.\<close>

definition only_bss :: "out_sec list \<Rightarrow> out_sec list \<Rightarrow> bool" where
  "only_bss secs secs' \<longleftrightarrow> length secs' = length secs \<and> (\<forall>t < length secs. t \<noteq> OUT_SEC_BSS \<longrightarrow> secs' ! t = secs ! t)
     \<and> (OUT_SEC_BSS < length secs \<longrightarrow> os_type (secs' ! OUT_SEC_BSS) = os_type (secs ! OUT_SEC_BSS)
          \<and> os_vaddr (secs' ! OUT_SEC_BSS) = os_vaddr (secs ! OUT_SEC_BSS) \<and> os_name (secs' ! OUT_SEC_BSS) = os_name (secs ! OUT_SEC_BSS))"

lemma collect_symbol_secs:
  assumes "collect_symbol inp sy (secs, gs) = Inr (secs', gs')" "only_bss secs0 secs"
  shows "only_bss secs0 secs'"
  using assms by (auto simp: collect_symbol_def ld_bind_Inr Let_def only_bss_def nth_list_update out_sec_append_def split: if_splits prod.splits)

lemma collect_symbols_secs:
  assumes "collect_symbols ins (secs, gs) = Inr (secs', gs')"
  shows "only_bss secs secs'"
proof -
  have "only_bss secs (fst st')" if "ld_fold (collect_symbol inp) ys st = Inr st'" "only_bss secs (fst st)" for inp ys st st'
    using that by (rule ld_fold_invariant) (metis collect_symbol_secs prod.collapse)
  then have "only_bss secs (fst (secs', gs'))"
    by (intro ld_fold_invariant [OF assms [unfolded collect_symbols_def], of "\<lambda>st. only_bss secs (fst st)"]) (auto simp: only_bss_def)
  then show ?thesis by simp
qed

text \<open>Looking up symbols only adds entries with address 0 behind the table.\<close>

definition more_syms :: "global_sym list \<Rightarrow> global_sym list \<Rightarrow> bool" where
  "more_syms gs gs' \<longleftrightarrow> (\<exists>xs. gs' = gs @ xs \<and> (\<forall>x \<in> set xs. gs_vaddr x = 0 \<and> \<not> gs_defined x))"

lemma more_syms_refl: "more_syms gs gs"
  by (simp add: more_syms_def)

lemma more_syms_trans: "more_syms a b \<Longrightarrow> more_syms b c \<Longrightarrow> more_syms a c"
  by (auto simp: more_syms_def)

lemma find_or_add_more: "find_or_add_global_sym name gs = Inr (i, gs') \<Longrightarrow> more_syms gs gs'"
  by (auto simp: find_or_add_global_sym_def more_syms_def split: option.splits if_splits)

definition sym_addr :: "u8 list \<Rightarrow> global_sym list \<Rightarrow> u32" where
  "sym_addr name gs = (case global_idx name gs of None \<Rightarrow> 0 | Some i \<Rightarrow> gs_vaddr (gs ! i))"

lemma global_idx_bound: "global_idx name gs = Some i \<Longrightarrow> i < length gs \<and> gs_name (gs ! i) = name"
  by (induction gs arbitrary: i) (auto split: if_splits)

lemma global_idx_append:
  "global_idx name (gs @ xs) = (case global_idx name gs of Some i \<Rightarrow> Some i | None \<Rightarrow> map_option (\<lambda>i. length gs + i) (global_idx name xs))"
  by (induction gs) (cases "global_idx name xs"; auto split: option.split)+

lemma sym_addr_more:
  assumes "more_syms gs gs'"
  shows "sym_addr name gs' = sym_addr name gs"
proof -
  obtain xs where xs: "gs' = gs @ xs" "\<forall>x \<in> set xs. gs_vaddr x = 0" using assms by (auto simp: more_syms_def)
  show ?thesis
  proof (cases "global_idx name gs")
    case None
    then show ?thesis using xs global_idx_bound [of name xs] by (auto simp: sym_addr_def global_idx_append split: option.split)
  next
    case (Some i)
    then show ?thesis using xs global_idx_bound [OF Some] by (simp add: sym_addr_def global_idx_append nth_append)
  qed
qed

lemma find_or_add_addr: "find_or_add_global_sym name gs = Inr (i, gs') \<Longrightarrow> gs_vaddr (gs' ! i) = sym_addr name gs"
  by (auto simp: find_or_add_global_sym_def sym_addr_def split: option.splits if_splits)

section \<open>Relocation\<close>

text \<open>The address a relocation refers to.\<close>

definition rel_addr :: "input_obj \<Rightarrow> global_sym list \<Rightarrow> Elf32_Rel \<Rightarrow> u32" where
  "rel_addr inp gs rl =
    (let sy = sym_at inp (the (in_symtab inp)) (unat (ELF32_R_SYM (r_info rl)))
     in if ELF32_ST_BIND (st_info sy) = STB_LOCAL \<and> st_shndx sy \<noteq> SHN_UNDEF
        then (case sym_vaddr inp sy of Inr v \<Rightarrow> v | Inl e \<Rightarrow> 0) else sym_addr (sym_name inp sy) gs)"

lemma rel_addr_more: "more_syms gs gs' \<Longrightarrow> rel_addr inp gs' rl = rel_addr inp gs rl"
  by (simp add: rel_addr_def sym_addr_more Let_def)

lemma rel_symbol_addr: "rel_symbol inp rl gs = Inr (v, gs') \<Longrightarrow> v = rel_addr inp gs rl \<and> more_syms gs gs'"
  by (auto simp: rel_symbol_def rel_addr_def Let_def ld_bind_Inr find_or_add_addr more_syms_refl dest: find_or_add_more
      split: option.splits if_splits prod.splits)

definition patch :: "input_obj \<Rightarrow> global_sym list \<Rightarrow> in_sec_map \<Rightarrow> Elf32_Rel \<Rightarrow> nat \<Rightarrow> (nat \<Rightarrow> u8) \<Rightarrow> nat \<Rightarrow> u8" where
  "patch inp gs m rl loc = apply_rel (ELF32_R_TYPE (r_info rl)) (rel_addr inp gs rl) (in_vaddr m + r_offset rl) loc"

definition patch_sec :: "input_obj \<Rightarrow> global_sym list \<Rightarrow> in_sec_map \<Rightarrow> Elf32_Rel \<Rightarrow> out_sec list \<Rightarrow> out_sec list" where
  "patch_sec inp gs m rl secs =
    (let t = nat (out_sec_idx m)
     in secs[t := (secs ! t) \<lparr> os_data := patch inp gs m rl (unat (out_offset m) + unat (r_offset rl)) (os_data (secs ! t)) \<rparr>])"

lemma relocate_eq:
  assumes "relocate inp m rl (secs, gs) = Inr (secs', gs')" "more_syms gs' gsf"
  shows "secs' = patch_sec inp gsf m rl secs" "more_syms gs gs'"
proof -
  obtain v where v: "rel_symbol inp rl gs = Inr (v, gs')"
    "secs' = (let t = nat (out_sec_idx m) in secs[t := (secs ! t) \<lparr> os_data := apply_rel (ELF32_R_TYPE (r_info rl)) v (in_vaddr m + r_offset rl)
       (unat (out_offset m) + unat (r_offset rl)) (os_data (secs ! t)) \<rparr>])"
    using assms(1) by (auto simp: relocate_def Let_def ld_bind_Inr split: if_splits)
  note r = rel_symbol_addr [OF v(1)]
  then show "more_syms gs gs'" by simp
  have "v = rel_addr inp gsf rl" using r rel_addr_more more_syms_trans [OF conjunct2 [OF r] assms(2)] by simp
  then show "secs' = patch_sec inp gsf m rl secs" by (simp add: v(2) patch_sec_def patch_def Let_def)
qed


text \<open>All relocations as a list: the number of the object, the section they apply to, and the relocation.\<close>

definition rels_of :: "input_obj \<Rightarrow> nat \<Rightarrow> (nat \<times> Elf32_Rel) list" where
  "rels_of inp s' = (let sh = shdr_at inp s'; s = unat (sh_info sh)
     in if sh_type sh = SHT_REL \<and> 0 \<le> out_sec_idx (sec_map inp ! s) then map (Pair s) (sec_rels inp sh) else [])"

definition obj_rels :: "input_obj \<Rightarrow> (nat \<times> Elf32_Rel) list" where
  "obj_rels inp = concat (map (rels_of inp) [0..<shnum inp])"

definition all_rels :: "input_obj list \<Rightarrow> (nat \<times> nat \<times> Elf32_Rel) list" where
  "all_rels ins = concat (map (\<lambda>f. map (Pair f) (obj_rels (ins ! f))) [0..<length ins])"

definition patch_at :: "input_obj list \<Rightarrow> global_sym list \<Rightarrow> nat \<times> nat \<times> Elf32_Rel \<Rightarrow> out_sec list \<Rightarrow> out_sec list" where
  "patch_at ins gs = (\<lambda>(f, s, rl). patch_sec (ins ! f) gs (sec_map (ins ! f) ! s) rl)"

definition patched :: "global_sym list \<Rightarrow> (global_sym list \<Rightarrow> 'a \<Rightarrow> out_sec list \<Rightarrow> out_sec list) \<Rightarrow> 'a list \<Rightarrow> ld_state \<Rightarrow> ld_state \<Rightarrow> bool" where
  "patched gsf pt xs st st' \<longleftrightarrow> more_syms (snd st) (snd st') \<and> (more_syms (snd st') gsf \<longrightarrow> fst st' = fold (pt gsf) xs (fst st))"

lemma patched_nil: "patched gsf pt [] st st"
  by (simp add: patched_def more_syms_refl)

lemma patched_append: "patched gsf pt xs a b \<Longrightarrow> patched gsf pt ys b c \<Longrightarrow> patched gsf pt (xs @ ys) a c"
  using more_syms_trans by (fastforce simp: patched_def)

lemma ld_fold_patched:
  assumes "ld_fold h xs st = Inr st'" "\<And>x st st'. x \<in> set xs \<Longrightarrow> h x st = Inr st' \<Longrightarrow> patched gsf pt (g x) st st'"
  shows "patched gsf pt (concat (map g xs)) st st'"
  using assms
proof (induction xs arbitrary: st)
  case Nil
  then show ?case by (simp add: patched_nil)
next
  case (Cons x xs)
  then obtain b where b: "h x st = Inr b" "ld_fold h xs b = Inr st'" by (auto simp: ld_bind_Inr)
  have "patched gsf pt (concat (map g xs)) b st'" using Cons.IH [OF b(2)] Cons.prems(2) by simp
  then show ?case using patched_append Cons.prems(2) [OF _ b(1)] by simp
qed

lemma relocate_section_patched:
  assumes "relocate_section inp s' st = Inr st'"
  shows "patched gsf (\<lambda>gs (s, rl). patch_sec inp gs (sec_map inp ! s) rl) (rels_of inp s') st st'"
proof -
  let ?sh = "shdr_at inp s'" and ?pt = "\<lambda>gs (s, rl). patch_sec inp gs (sec_map inp ! s) rl"
  let ?s = "unat (sh_info ?sh)"
  show ?thesis
  proof (cases "sh_type ?sh = SHT_REL \<and> 0 \<le> out_sec_idx (sec_map inp ! ?s)")
    case True
    then have "ld_fold (relocate inp (sec_map inp ! ?s)) (sec_rels inp ?sh) st = Inr st'"
      using assms by (auto simp: relocate_section_def Let_def ld_bind_Inr sec_map_at_def split: if_splits)
    then have "patched gsf ?pt (concat (map (\<lambda>rl. [(?s, rl)]) (sec_rels inp ?sh))) st st'"
      by (rule ld_fold_patched) (auto simp: patched_def relocate_eq dest: relocate_eq(2) [OF _ more_syms_refl])
    then show ?thesis using True by (simp add: rels_of_def Let_def concat_map_singleton)
  next
    case False
    then have "st' = st" using assms by (auto simp: relocate_section_def Let_def ld_bind_Inr sec_map_at_def split: if_splits)
    then show ?thesis using False by (auto simp: rels_of_def Let_def patched_nil)
  qed
qed

lemma ld_fold_map: "ld_fold h (map g xs) st = ld_fold (\<lambda>x. h (g x)) xs st"
  by (induction xs arbitrary: st) (auto simp: ld_bind_def split: sum.split)

lemma relocate_all_patched:
  assumes "relocate_all ins (secs, gs) = Inr (secs', gs')"
  shows "secs' = fold (patch_at ins gs') (all_rels ins) secs" "more_syms gs gs'"
proof -
  have "ld_fold (\<lambda>f. ld_fold (relocate_section (ins ! f)) [0..<shnum (ins ! f)]) [0..<length ins] (secs, gs) = Inr (secs', gs')"
    using assms ld_fold_map [of "\<lambda>inp. ld_fold (relocate_section inp) [0..<shnum inp]" "(!) ins" "[0..<length ins]"]
    by (simp add: relocate_all_def map_nth)
  then have "patched gs' (patch_at ins) (concat (map (\<lambda>f. map (Pair f) (obj_rels (ins ! f))) [0..<length ins])) (secs, gs) (secs', gs')"
  proof (rule ld_fold_patched)
    fix f st st' assume f: "ld_fold (relocate_section (ins ! f)) [0..<shnum (ins ! f)] st = Inr st'"
    have "patched gs' (\<lambda>gs (s, rl). patch_sec (ins ! f) gs (sec_map (ins ! f) ! s) rl) (obj_rels (ins ! f)) st st'"
      unfolding obj_rels_def by (rule ld_fold_patched [OF f]) (rule relocate_section_patched)
    then show "patched gs' (patch_at ins) (map (Pair f) (obj_rels (ins ! f))) st st'"
      unfolding patched_def patch_at_def by (simp add: fold_map comp_def split_def)
  qed
  then show "secs' = fold (patch_at ins gs') (all_rels ins) secs" "more_syms gs gs'"
    by (simp_all add: patched_def all_rels_def more_syms_refl)
qed

text \<open>What the relocations make of one part of an output section, when each of them is either outside that
  part or one of its own.\<close>

lemma patches_region:
  assumes "\<And>x. x \<in> set xs \<Longrightarrow> own x \<Longrightarrow> (\<forall>secs. length secs = 5 \<longrightarrow> os_data (pt x secs ! t) = k x (os_data (secs ! t)))
      \<and> (\<forall>d. view off (k x d) = g x (view off d)) \<and> (\<forall>d d'. (\<forall>i < n. d i = d' i) \<longrightarrow> (\<forall>i < n. g x d i = g x d' i))"
    "\<And>x. x \<in> set xs \<Longrightarrow> \<not> own x \<Longrightarrow> (\<forall>secs. length secs = 5 \<longrightarrow> (\<forall>i < n. view off (os_data (pt x secs ! t)) i = view off (os_data (secs ! t)) i))"
    "\<And>x secs. length secs = 5 \<Longrightarrow> length (pt x secs) = 5" "length secs = 5" "i < n" "\<forall>i < n. view off (os_data (secs ! t)) i = d i"
  shows "view off (os_data (fold pt xs secs ! t)) i = fold g (filter own xs) d i"
  using assms
proof (induction xs arbitrary: secs d)
  case (Cons x xs)
  have len: "length (pt x secs) = 5" using Cons.prems(3,4) by simp
  show ?case
  proof (cases "own x")
    case True
    have "\<forall>i < n. view off (os_data (pt x secs ! t)) i = g x d i"
      using Cons.prems(1) [of x] True Cons.prems(4,6) by simp
    then have "view off (os_data (fold pt xs (pt x secs) ! t)) i = fold g (filter own xs) (g x d) i"
      by (intro Cons.IH len Cons.prems(3,5)) (use Cons.prems(1,2) in auto)
    then show ?thesis using True by simp
  next
    case False
    have "\<forall>i < n. view off (os_data (pt x secs ! t)) i = d i" using Cons.prems(2) [of x] False Cons.prems(4,6) by simp
    then have "view off (os_data (fold pt xs (pt x secs) ! t)) i = fold g (filter own xs) d i"
      by (intro Cons.IH len Cons.prems(3,5)) (use Cons.prems(1,2) in auto)
    then show ?thesis using False by simp
  qed
qed simp


definition own_rels :: "input_obj \<Rightarrow> nat \<Rightarrow> Elf32_Rel list" where
  "own_rels inp s = concat (map (\<lambda>s'. if sh_type (shdr_at inp s') = SHT_REL \<and> unat (sh_info (shdr_at inp s')) = s
     then sec_rels inp (shdr_at inp s') else []) [0..<shnum inp])"

text \<open>A section on its own, with its relocations applied one after the other.\<close>

definition section_image :: "input_obj \<Rightarrow> global_sym list \<Rightarrow> nat \<Rightarrow> nat \<Rightarrow> u8" where
  "section_image inp gs s =
    fold (\<lambda>rl. patch inp gs (sec_map inp ! s) rl (unat (r_offset rl))) (own_rels inp s) (sec_bytes inp (shdr_at inp s))"

definition rels_inside :: "input_obj \<Rightarrow> bool" where
  "rels_inside inp \<longleftrightarrow> (\<forall>s' < shnum inp. sh_type (shdr_at inp s') = SHT_REL \<longrightarrow> unat (sh_info (shdr_at inp s')) < shnum inp
     \<and> (\<forall>rl \<in> set (sec_rels inp (shdr_at inp s')). unat (r_offset rl) + 4 \<le> unat (sh_size (shdr_at inp (unat (sh_info (shdr_at inp s')))))))"

lemma filter_own:
  assumes "f < length ins" "0 \<le> out_sec_idx (sec_map (ins ! f) ! s)"
  shows "filter (\<lambda>(f', s', rl). f' = f \<and> s' = s) (all_rels ins) = map (\<lambda>rl. (f, s, rl)) (own_rels (ins ! f) s)"
proof -
  have one: "filter (\<lambda>(s', rl). s' = s) (rels_of (ins ! f) s')
      = map (Pair s) (if sh_type (shdr_at (ins ! f) s') = SHT_REL \<and> unat (sh_info (shdr_at (ins ! f) s')) = s then sec_rels (ins ! f) (shdr_at (ins ! f) s') else [])" for s'
    using assms(2) by (auto simp: rels_of_def Let_def filter_map comp_def)
  have obj: "filter (\<lambda>(s', rl). s' = s) (obj_rels (ins ! f)) = map (Pair s) (own_rels (ins ! f) s)"
    unfolding obj_rels_def own_rels_def filter_concat map_concat map_map comp_def one ..
  have "filter (\<lambda>(f', s', rl). f' = f \<and> s' = s) (concat (map (\<lambda>f. map (Pair f) (obj_rels (ins ! f))) fs))
      = (if f \<in> set fs then map (Pair f) (filter (\<lambda>(s', rl). s' = s) (obj_rels (ins ! f))) else [])" if "distinct fs" for fs
    using that
  proof (induction fs)
    case (Cons g fs)
    have "filter (\<lambda>(f', s', rl). f' = f \<and> s' = s) (map (Pair g) xs) = (if g = f then map (Pair f) (filter (\<lambda>(s', rl). s' = s) xs) else [])" for xs
      by (induction xs) auto
    note own = this [of "obj_rels (ins ! g)"]
    show ?case using Cons own by (cases "g = f") simp_all
  qed simp
  then show ?thesis using assms(1) by (simp add: all_rels_def obj)
qed

lemma all_rels_mem:
  assumes "(f, s, rl) \<in> set (all_rels ins)" "\<forall>inp \<in> set ins. rels_inside inp"
  shows "f < length ins" "s < shnum (ins ! f)" "0 \<le> out_sec_idx (sec_map (ins ! f) ! s)"
    "unat (r_offset rl) + 4 \<le> unat (sh_size (shdr_at (ins ! f) s))"
proof -
  obtain s' where s': "f < length ins" "s' < shnum (ins ! f)" "(s, rl) \<in> set (rels_of (ins ! f) s')"
    using assms(1) by (auto simp: all_rels_def obj_rels_def)
  have "rels_inside (ins ! f)" using assms(2) s'(1) by simp
  then show "f < length ins" "s < shnum (ins ! f)" "0 \<le> out_sec_idx (sec_map (ins ! f) ! s)"
    "unat (r_offset rl) + 4 \<le> unat (sh_size (shdr_at (ins ! f) s))"
    using s' by (auto simp: rels_of_def rels_inside_def Let_def split: if_splits)
qed

definition place :: "input_obj list \<Rightarrow> nat \<Rightarrow> nat \<Rightarrow> input_obj \<times> nat \<times> in_sec_map" where
  "place ins f s = (ins ! f, s, sec_map (ins ! f) ! s)"

lemma all_places_eq:
  assumes "\<forall>inp \<in> set ins. shnum inp \<le> length (sec_map inp)"
  shows "all_places ins = map (\<lambda>(f, s). place ins f s) (concat (map (\<lambda>f. map (Pair f) [0..<shnum (ins ! f)]) [0..<length ins]))"
proof -
  have "places (ins ! f) [0..<shnum (ins ! f)] (sec_map (ins ! f)) = map (\<lambda>s. place ins f s) [0..<shnum (ins ! f)]" if "f < length ins" for f
  proof -
    have "shnum (ins ! f) \<le> length (sec_map (ins ! f))" using assms that by simp
    then show ?thesis by (intro nth_equalityI) (simp_all add: places_def place_def)
  qed
  then have "map (\<lambda>f. places (ins ! f) [0..<shnum (ins ! f)] (sec_map (ins ! f))) [0..<length ins]
      = map (\<lambda>f. map (\<lambda>(f, s). place ins f s) (map (Pair f) [0..<shnum (ins ! f)])) [0..<length ins]"
    by (simp add: comp_def)
  moreover have "map (\<lambda>inp. places inp [0..<shnum inp] (sec_map inp)) ins
      = map (\<lambda>f. places (ins ! f) [0..<shnum (ins ! f)] (sec_map (ins ! f))) [0..<length ins]"
    by (rule nth_equalityI) auto
  ultimately have e: "map (\<lambda>inp. places inp [0..<shnum inp] (sec_map inp)) ins
      = map (\<lambda>f. map (\<lambda>(f, s). place ins f s) (map (Pair f) [0..<shnum (ins ! f)])) [0..<length ins]" by (rule trans [rotated])
  show ?thesis unfolding all_places_def e by (simp add: map_concat comp_def)
qed

lemma sorted_wrt_two: "sorted_wrt R xs \<Longrightarrow> x \<in> set xs \<Longrightarrow> y \<in> set xs \<Longrightarrow> x \<noteq> y \<Longrightarrow> R x y \<or> R y x"
  by (induction xs) auto

lemma places_behind:
  assumes "\<forall>inp \<in> set ins. shnum inp \<le> length (sec_map inp)" "sorted_wrt behind (all_places ins)"
    "f < length ins" "s < shnum (ins ! f)" "f' < length ins" "s' < shnum (ins ! f')" "(f, s) \<noteq> (f', s')"
  shows "behind (place ins f s) (place ins f' s') \<or> behind (place ins f' s') (place ins f s)"
  using sorted_wrt_two [of _ _ "(f, s)" "(f', s')"] assms
  unfolding all_places_eq [OF assms(1)] sorted_wrt_map by fastforce


lemma patch_sec_data:
  assumes "length secs = 5" "t < 5" "0 \<le> out_sec_idx m"
  shows "os_data (patch_sec inp gs m rl secs ! t) = (if out_sec_idx m = int t
    then patch inp gs m rl (unat (out_offset m) + unat (r_offset rl)) (os_data (secs ! t)) else os_data (secs ! t))"
  using assms by (auto simp: patch_sec_def Let_def nth_list_update)

lemma relocated_section:
  assumes "length secs = 5" "sorted_wrt behind (all_places ins)" "stand secs (place ins f s)"
    "\<forall>inp \<in> set ins. rels_inside inp \<and> shnum inp \<le> length (sec_map inp)" "f < length ins" "s < shnum (ins ! f)"
    "out_sec_idx (sec_map (ins ! f) ! s) = int t" "sh_type (shdr_at (ins ! f) s) \<noteq> SHT_NOBITS" "os_type (secs ! t) \<noteq> SHT_NOBITS"
    "i < unat (sh_size (shdr_at (ins ! f) s))"
  shows "view (unat (out_offset (sec_map (ins ! f) ! s))) (os_data (fold (patch_at ins gs) (all_rels ins) secs ! t)) i = section_image (ins ! f) gs s i"
proof -
  let ?inp = "ins ! f" let ?m = "sec_map ?inp ! s" let ?off = "unat (out_offset ?m)" and ?n = "unat (sh_size (shdr_at ?inp s))"
  let ?own = "\<lambda>(f', s', rl). f' = f \<and> s' = s" and ?g = "\<lambda>(f' :: nat, s' :: nat, rl). patch ?inp gs ?m rl (unat (r_offset rl))"
  let ?k = "\<lambda>(f' :: nat, s' :: nat, rl). patch ?inp gs ?m rl (?off + unat (r_offset rl))"
  have inside: "\<forall>inp \<in> set ins. rels_inside inp" and len: "\<forall>inp \<in> set ins. shnum inp \<le> length (sec_map inp)" using assms(4) by blast+
  have st: "stands secs ?inp s ?m" using assms(3) by (simp add: stand_def place_def split: prod.splits)
  then have t: "t < 5" "\<forall>i < ?n. view ?off (os_data (secs ! t)) i = sec_bytes ?inp (shdr_at ?inp s) i"
    using assms(7-9) by (auto simp: stands_def split: if_splits)
  have mine: "(\<forall>secs. length secs = 5 \<longrightarrow> os_data (patch_at ins gs x secs ! t) = ?k x (os_data (secs ! t)))
      \<and> (\<forall>d. view ?off (?k x d) = ?g x (view ?off d)) \<and> (\<forall>d d'. (\<forall>i < ?n. d i = d' i) \<longrightarrow> (\<forall>i < ?n. ?g x d i = ?g x d' i))"
    if x: "x \<in> set (all_rels ins)" "?own x" for x
  proof -
    obtain rl where rl: "x = (f, s, rl)" using x(2) by (cases x) auto
    have "unat (r_offset rl) + 4 \<le> ?n" using all_rels_mem(4) x(1) inside unfolding rl by blast
    then have "\<forall>d d'. (\<forall>i < ?n. d i = d' i) \<longrightarrow> (\<forall>i < ?n. ?g x d i = ?g x d' i)"
      unfolding rl patch_def prod.case by (blast intro: apply_rel_cong)
    moreover have "view ?off (?k x d) = ?g x (view ?off d)" for d by (simp add: rl patch_def view_apply_rel)
    moreover have "os_data (patch_at ins gs x secs ! t) = ?k x (os_data (secs ! t))" if "length secs = 5" for secs
      using that t(1) assms(7) by (simp add: rl patch_at_def patch_sec_data)
    ultimately show ?thesis by blast
  qed
  have other: "\<forall>secs. length secs = 5 \<longrightarrow> (\<forall>i < ?n. view ?off (os_data (patch_at ins gs x secs ! t)) i = view ?off (os_data (secs ! t)) i)"
    if x: "x \<in> set (all_rels ins)" "\<not> ?own x" for x
  proof -
    obtain f' s' rl where r: "x = (f', s', rl)" by (cases x)
    note m = all_rels_mem [OF x(1) [unfolded r] inside]
    let ?m' = "sec_map (ins ! f') ! s'"
    have b: "behind (place ins f s) (place ins f' s') \<or> behind (place ins f' s') (place ins f s)"
      using places_behind [OF len assms(2,5,6) m(1,2)] x(2) r by auto
    have out: "?off + i < unat (out_offset ?m') + unat (r_offset rl) \<or> unat (out_offset ?m') + unat (r_offset rl) + 4 \<le> ?off + i"
      if "out_sec_idx ?m' = int t" "i < ?n" for i
      using b that m(4) assms(7) by (auto simp: behind_def place_def sec_end_def)
    show ?thesis
      using t(1) m(3) out by (auto simp: r patch_at_def patch_sec_data view_def patch_def apply_rel_outside)
  qed
  have l5: "length (patch_at ins gs x secs) = 5" if "length secs = 5" for x secs
    using that by (cases x) (simp add: patch_at_def patch_sec_def Let_def)
  have "view ?off (os_data (fold (patch_at ins gs) (all_rels ins) secs ! t)) i = fold ?g (filter ?own (all_rels ins)) (sec_bytes ?inp (shdr_at ?inp s)) i"
    by (rule patches_region [where own = ?own and k = ?k and n = ?n]) (use mine other l5 assms(1,10) t(2) in auto)
  also have "\<dots> = section_image ?inp gs s i"
    using filter_own [OF assms(5), of s] assms(7) by (simp add: fold_map comp_def section_image_def)
  finally show ?thesis .
qed


section \<open>Linking\<close>

text \<open>The objects and the base of the image leave room in the address space.\<close>

definition link_fits :: "u32 \<Rightarrow> input_obj list \<Rightarrow> bool" where
  "link_fits image_base ins \<longleftrightarrow> sum_list (map obj_weight ins) \<le> 2 ^ 31 \<and> unat image_base + sum_list (map obj_weight ins) + 16388 < 2 ^ 32"

lemma fold_patch_fields:
  "length (fold (patch_at ins gs) xs secs) = length secs \<and>
   (\<forall>t. os_size (fold (patch_at ins gs) xs secs ! t) = os_size (secs ! t) \<and> os_type (fold (patch_at ins gs) xs secs ! t) = os_type (secs ! t)
      \<and> os_vaddr (fold (patch_at ins gs) xs secs ! t) = os_vaddr (secs ! t) \<and> os_name (fold (patch_at ins gs) xs secs ! t) = os_name (secs ! t))"
proof (induction xs arbitrary: secs)
  case (Cons x xs)
  have "length (patch_at ins gs x secs) = length secs \<and> os_size (patch_at ins gs x secs ! t) = os_size (secs ! t)
      \<and> os_type (patch_at ins gs x secs ! t) = os_type (secs ! t) \<and> os_vaddr (patch_at ins gs x secs ! t) = os_vaddr (secs ! t)
      \<and> os_name (patch_at ins gs x secs ! t) = os_name (secs ! t)" for t
  proof -
    obtain k d where "patch_at ins gs x secs = secs[k := (secs ! k) \<lparr> os_data := d \<rparr>]"
      by (cases x) (auto simp: patch_at_def patch_sec_def Let_def)
    then show ?thesis by (cases "k = t"; cases "t < length secs") (simp_all add: list_update_beyond)
  qed
  then show ?case using Cons [of "patch_at ins gs x secs"] by simp
qed simp

lemma init_secs: "length (init_out_secs junk) = 5" "total_size (init_out_secs junk) = 0" "sum_list (map (\<lambda>s. unat (os_align s)) (init_out_secs junk)) = 16388"
  "\<forall>s \<in> set (init_out_secs junk). pow2 (os_align s)"
  "t < 5 \<Longrightarrow> os_type (init_out_secs junk ! t) = (if t = OUT_SEC_BSS then SHT_NOBITS else SHT_PROGBITS)"
  "t < 5 \<Longrightarrow> length (os_name (init_out_secs junk ! t)) \<le> 10"
proof -
  have "pow2 4" unfolding pow2_def by (rule exI [of _ 2]) simp
  moreover have "pow2 4096" unfolding pow2_def by (rule exI [of _ 12]) simp
  ultimately
  show "\<forall>s \<in> set (init_out_secs junk). pow2 (os_align s)" by (simp add: init_out_secs_def out_sec_new_def)
  show "t < 5 \<Longrightarrow> os_type (init_out_secs junk ! t) = (if t = OUT_SEC_BSS then SHT_NOBITS else SHT_PROGBITS)"
    "t < 5 \<Longrightarrow> length (os_name (init_out_secs junk ! t)) \<le> 10"
    by (auto simp: init_out_secs_def out_sec_new_def OUT_SEC_BSS_def numeral_eq_Suc less_Suc_eq)
qed (simp_all add: init_out_secs_def out_sec_new_def total_size_def)

lemma check_symbols_more:
  assumes "check_symbols ins gs = Inr gs'"
  shows "more_syms gs gs'"
proof -
  have one: "more_syms gs b" if "check_symbol inp sy a = Inr b" "more_syms gs a" for inp sy a b
    using that more_syms_trans find_or_add_more by (auto simp: check_symbol_def ld_bind_Inr split: if_splits prod.splits)
  have obj: "more_syms gs b" if "ld_fold (check_symbol inp) ys a = Inr b" "more_syms gs a" for inp ys a b
    using that by (rule ld_fold_invariant) (rule one)
  show ?thesis
    by (rule ld_fold_invariant [OF assms [unfolded check_symbols_def] more_syms_refl]) (rule obj)
qed

lemma all_grown_align:
  assumes "all_grown secs secs'"
  shows "map os_align secs' = map os_align secs"
  using assms by (intro nth_equalityI) (auto simp: all_grown_def grown_def)

lemma room_for_split: "room_for secs = total_size secs + sum_list (map (\<lambda>s. unat (os_align s)) secs)"
  by (simp add: room_for_def total_size_def sum_list_addf)

text \<open>What the linker knows before it applies the relocations.\<close>

lemma link_parts:
  assumes "link_inputs junk image_base ins0 = Inr (ins, secs, gs)"
  obtains secs1 ins1 secs2 secs3 gs5 where
    "place_inputs ins0 (init_out_secs junk) = Inr (secs1, ins1)" "secs2 = layout_secs image_base secs1" "ins = map (set_vaddrs secs2) ins1"
    "only_bss secs2 secs3" "secs = fold (patch_at ins gs) (all_rels ins) secs3"
proof -
  from assms obtain secs1 ins1 st3 st4 gs5 where
    p: "place_inputs ins0 (init_out_secs junk) = Inr (secs1, ins1)" and i: "ins = map (set_vaddrs (layout_secs image_base secs1)) ins1"
    and c: "collect_symbols ins (layout_secs image_base secs1, []) = Inr st3" and k: "define_kernel_end st3 = Inr st4"
    and v: "check_symbols ins (snd st4) = Inr gs5" and r: "relocate_all ins (fst st4, gs5) = Inr (secs, gs)"
    unfolding link_inputs_def by (auto simp: ld_bind_Inr Let_def split: prod.splits)
  have "fst st4 = fst st3" using k by (auto simp: define_kernel_end_def ld_bind_Inr split: prod.splits)
  then have "only_bss (layout_secs image_base secs1) (fst st4)" using collect_symbols_secs c by (metis prod.collapse)
  then show ?thesis using that [OF p refl i] relocate_all_patched(1) [OF r] by blast
qed


lemma set_vaddrs_obj:
  assumes "shnum inp \<le> length (sec_map inp)"
  shows "with_map inp (set_vaddrs secs inp)" "s < shnum inp \<Longrightarrow> sec_map (set_vaddrs secs inp) ! s = set_vaddr secs (sec_map inp ! s)"
    "shnum (set_vaddrs secs inp) = shnum inp" "length (sec_map (set_vaddrs secs inp)) = length (sec_map inp)"
  using assms by (auto simp: set_vaddrs_def with_map_def nth_append)

lemma set_vaddr_place: "out_sec_idx (set_vaddr secs m) = out_sec_idx m" "out_offset (set_vaddr secs m) = out_offset m"
  by (simp_all add: set_vaddr_def)

lemma all_places_vaddrs:
  assumes "\<forall>inp \<in> set ins. shnum inp \<le> length (sec_map inp)"
  shows "list_all2 same_place (all_places ins) (all_places (map (set_vaddrs secs) ins))"
proof -
  let ?ins = "map (set_vaddrs secs) ins"
  have len: "\<forall>inp \<in> set ?ins. shnum inp \<le> length (sec_map inp)" using assms by (auto simp: set_vaddrs_obj)
  have idx: "map (\<lambda>f. map (Pair f) [0..<shnum (?ins ! f)]) [0..<length ?ins] = map (\<lambda>f. map (Pair f) [0..<shnum (ins ! f)]) [0..<length ins]"
    using assms by (simp add: set_vaddrs_obj)
  have sp: "same_place (place ins f s) (place ?ins f s)" if "f < length ins" "s < shnum (ins ! f)" for f s
  proof -
    have o: "shnum (ins ! f) \<le> length (sec_map (ins ! f))" using assms that(1) by simp
    have "\<exists>x. set_vaddrs secs (ins ! f) = (ins ! f) \<lparr> sec_map := x \<rparr>" using set_vaddrs_obj(1) [OF o, of secs] by (auto simp: with_map_def)
    then show ?thesis using that set_vaddrs_obj(2) [OF o] by (simp add: same_place_def place_def set_vaddr_place)
  qed
  show ?thesis
    unfolding all_places_eq [OF assms] all_places_eq [OF len] idx using sp by (auto simp: list_all2_map1 list_all2_map2 list_all2_same)
qed

lemma with_map_trans: "list_all2 with_map a b \<Longrightarrow> list_all2 with_map b c \<Longrightarrow> list_all2 with_map a c"
  by (rule list_all2_trans [of with_map with_map with_map]) (auto simp: with_map_def)

lemma with_map_inside: "with_map a b \<Longrightarrow> rels_inside b = rels_inside a"
  by (auto simp: with_map_def rels_inside_def)

lemma placed_room:
  assumes "placing (init_out_secs junk) secs1 w ps"
  shows "length secs1 = 5" "\<forall>t < 5. os_type (secs1 ! t) = (if t = OUT_SEC_BSS then SHT_NOBITS else SHT_PROGBITS)"
    "\<forall>s \<in> set secs1. pow2 (os_align s)" "room_for secs1 \<le> w + 16388" "\<forall>t < 5. length (os_name (secs1 ! t)) \<le> 10"
proof -
  have g: "all_grown (init_out_secs junk) secs1" "total_size secs1 \<le> w" using assms by (simp_all add: placing_def init_secs(2))
  then show "length secs1 = 5" "\<forall>t < 5. os_type (secs1 ! t) = (if t = OUT_SEC_BSS then SHT_NOBITS else SHT_PROGBITS)"
    "\<forall>t < 5. length (os_name (secs1 ! t)) \<le> 10"
    using init_secs(5,6) [of _ junk] by (auto simp: all_grown_def grown_def)
  have m: "map os_align secs1 = map os_align (init_out_secs junk)" using all_grown_align [OF g(1)] .
  then have "os_align ` set secs1 = os_align ` set (init_out_secs junk)" by (metis list.set_map)
  then show "\<forall>s \<in> set secs1. pow2 (os_align s)" using init_secs(4) [of junk] by (metis image_iff)
  have "map unat (map os_align secs1) = map unat (map os_align (init_out_secs junk))" using m by simp
  then have "sum_list (map (\<lambda>s. unat (os_align s)) secs1) = 16388" using init_secs(3) [of junk] by (simp add: comp_def)
  then show "room_for secs1 \<le> w + 16388" using g(2) by (simp add: room_for_split)
qed

lemma link_places:
  assumes "link_inputs junk image_base ins0 = Inr (ins, secs, gs)" "\<forall>inp \<in> set ins0. aligned_obj inp \<and> rels_inside inp"
    "link_fits image_base ins0"
  obtains secs1 ins1 secs3 where "placing (init_out_secs junk) secs1 (sum_list (map obj_weight ins0)) (all_places ins1)"
    "ins = map (set_vaddrs (layout_secs image_base secs1)) ins1" "only_bss (layout_secs image_base secs1) secs3"
    "secs = fold (patch_at ins gs) (all_rels ins) secs3" "\<forall>inp \<in> set ins1. shnum inp \<le> length (sec_map inp)" "list_all2 with_map ins0 ins"
    "\<forall>inp \<in> set ins. rels_inside inp \<and> shnum inp \<le> length (sec_map inp)"
proof -
  let ?W = "sum_list (map obj_weight ins0)"
  obtain secs1 ins1 secs2 secs3 where p: "place_inputs ins0 (init_out_secs junk) = Inr (secs1, ins1)"
    and s2: "secs2 = layout_secs image_base secs1" and ins: "ins = map (set_vaddrs secs2) ins1"
    and s3: "only_bss secs2 secs3" and s4: "secs = fold (patch_at ins gs) (all_rels ins) secs3"
    using link_parts [OF assms(1)] by metis
  have "total_size (init_out_secs junk) + ?W \<le> 2 ^ 32" using assms(3) by (simp add: init_secs(2) link_fits_def)
  from place_inputs_ok [OF init_secs(1) _ this p]
  have w1: "list_all2 with_map ins0 ins1" and few: "\<forall>inp \<in> set ins1. shnum inp \<le> MAX_SECTIONS_PER_FILE"
    and pl: "placing (init_out_secs junk) secs1 ?W (all_places ins1)" using assms(2) by auto
  have "\<forall>inp \<in> set ins1. length (sec_map inp) = MAX_SECTIONS_PER_FILE"
    using w1 assms(2) by (induction rule: list_all2_induct) (auto simp: with_map_def aligned_obj_def)
  then have len1: "\<forall>inp \<in> set ins1. shnum inp \<le> length (sec_map inp)" using few by simp
  have "list_all2 with_map ins1 ins" using len1 set_vaddrs_obj(1) by (auto simp: ins list_all2_conv_all_nth)
  then have w: "list_all2 with_map ins0 ins" using with_map_trans [OF w1] by blast
  have "\<forall>inp \<in> set ins. rels_inside inp"
    using w assms(2) by (induction rule: list_all2_induct) (auto simp: with_map_inside)
  moreover have "\<forall>inp \<in> set ins. shnum inp \<le> length (sec_map inp)" using len1 by (auto simp: ins set_vaddrs_obj)
  ultimately show ?thesis using that [OF pl ins [unfolded s2] s3 [unfolded s2] s4 len1 w] by blast
qed

definition linked :: "u32 \<Rightarrow> input_obj list \<Rightarrow> out_sec list \<Rightarrow> bool" where
  "linked image_base ins secs \<longleftrightarrow> length secs = 5 \<and> (\<forall>t < 5. os_type (secs ! t) = (if t = OUT_SEC_BSS then SHT_NOBITS else SHT_PROGBITS)
          \<and> length (os_name (secs ! t)) \<le> 10)
     \<and> (\<forall>t < 4. unat image_base \<le> unat (os_vaddr (secs ! t))
          \<and> unat (os_vaddr (secs ! t)) + unat (os_size (secs ! t)) \<le> unat image_base + sum_list (map obj_weight ins) + 16388)
     \<and> (\<forall>t u. t < u \<and> u < 4 \<longrightarrow> unat (os_vaddr (secs ! t)) + unat (os_size (secs ! t)) \<le> unat (os_vaddr (secs ! u)))"

text \<open>The layout: sections 0 to 3 keep size and address from here on.\<close>

lemma link_layout:
  assumes "link_fits image_base ins0" "placing (init_out_secs junk) secs1 (sum_list (map obj_weight ins0)) ps"
    "only_bss (layout_secs image_base secs1) secs3" "secs = fold (patch_at ins gs) xs secs3"
  shows "linked image_base ins0 secs"
    and "t < 4 \<Longrightarrow> os_size (secs ! t) = os_size (secs1 ! t) \<and> secs3 ! t = layout_secs image_base secs1 ! t
      \<and> os_vaddr (secs ! t) = os_vaddr (layout_secs image_base secs1 ! t) \<and> length secs3 = 5"
proof -
  let ?s2 = "layout_secs image_base secs1"
  note r = placed_room [OF assms(2)]
  have room: "unat image_base + room_for secs1 < 2 ^ 32" using r(4) assms(1) by (simp add: link_fits_def)
  note lo = layout_ok [OF r(3) room]
  have f2: "length ?s2 = 5" "\<forall>t < 5. \<exists>a. ?s2 ! t = (secs1 ! t) \<lparr> os_vaddr := a \<rparr>" using layout_nth r(1) by auto
  note f3 = assms(3) [unfolded only_bss_def f2(1)] and f4 = fold_patch_fields [of ins gs xs secs3, folded assms(4)]
  have same: "os_size (secs ! t) = os_size (?s2 ! t) \<and> os_vaddr (secs ! t) = os_vaddr (?s2 ! t) \<and> secs3 ! t = ?s2 ! t" if "t < 4" for t
    using f3 f4 that by (simp add: OUT_SEC_BSS_def)
  have sz: "os_size (?s2 ! t) = os_size (secs1 ! t)" "os_type (?s2 ! t) = os_type (secs1 ! t) \<and> os_name (?s2 ! t) = os_name (secs1 ! t)" if "t < 5" for t
    using f2(2) that by force+
  show "t < 4 \<Longrightarrow> os_size (secs ! t) = os_size (secs1 ! t) \<and> secs3 ! t = ?s2 ! t \<and> os_vaddr (secs ! t) = os_vaddr (?s2 ! t) \<and> length secs3 = 5"
    using same sz f3 by simp
  have ty: "os_type (secs ! t) = (if t = OUT_SEC_BSS then SHT_NOBITS else SHT_PROGBITS) \<and> length (os_name (secs ! t)) \<le> 10" if "t < 5" for t
  proof -
    have "os_type (secs3 ! t) = os_type (?s2 ! t) \<and> os_name (secs3 ! t) = os_name (?s2 ! t)" using f3 that by (cases "t = OUT_SEC_BSS") auto
    then show ?thesis using f4 sz(2) [OF that] r(2,5) that by simp
  qed
  have "unat image_base \<le> unat (os_vaddr (secs ! t))
      \<and> unat (os_vaddr (secs ! t)) + unat (os_size (secs ! t)) \<le> unat image_base + sum_list (map obj_weight ins0) + 16388" if "t < 4" for t
    using laid_out_ge [OF lo, of t] layout_end [OF r(3) room, of t] r(1,4) f2(1) same [OF that] sz(1) [of t] that by simp
  moreover have "unat (os_vaddr (secs ! t)) + unat (os_size (secs ! t)) \<le> unat (os_vaddr (secs ! u))" if "t < u" "u < 4" for t u
    using laid_out_sep [OF lo that(1)] f2(1) same that by simp
  ultimately show "linked image_base ins0 secs" using ty f3 f4 by (simp add: linked_def)
qed

text \<open>Every section the linker takes stands in the output section its name selects.\<close>

lemma link_stands:
  assumes "link_inputs junk image_base ins0 = Inr (ins, secs, gs)" "\<forall>inp \<in> set ins0. aligned_obj inp \<and> rels_inside inp"
    "link_fits image_base ins0" "f < length ins" "s < shnum (ins ! f)"
  obtains secs1 secs3 where "stands secs1 (ins ! f) s (sec_map (ins ! f) ! s)" "sorted_wrt behind (all_places ins)"
    "placing (init_out_secs junk) secs1 (sum_list (map obj_weight ins0)) (all_places ins)" "only_bss (layout_secs image_base secs1) secs3"
    "secs = fold (patch_at ins gs) (all_rels ins) secs3" "\<forall>inp \<in> set ins. rels_inside inp \<and> shnum inp \<le> length (sec_map inp)"
    "0 \<le> out_sec_idx (sec_map (ins ! f) ! s) \<Longrightarrow>
       in_vaddr (sec_map (ins ! f) ! s) = os_vaddr (layout_secs image_base secs1 ! nat (out_sec_idx (sec_map (ins ! f) ! s))) + out_offset (sec_map (ins ! f) ! s)"
proof -
  obtain secs1 ins1 secs3 where p: "placing (init_out_secs junk) secs1 (sum_list (map obj_weight ins0)) (all_places ins1)"
    and ins: "ins = map (set_vaddrs (layout_secs image_base secs1)) ins1" and b: "only_bss (layout_secs image_base secs1) secs3"
    and s4: "secs = fold (patch_at ins gs) (all_rels ins) secs3" and l1: "\<forall>inp \<in> set ins1. shnum inp \<le> length (sec_map inp)"
    and inside: "\<forall>inp \<in> set ins. rels_inside inp \<and> shnum inp \<le> length (sec_map inp)"
    using link_places [OF assms(1-3)] by metis
  let ?inp = "ins ! f" let ?m = "sec_map ?inp ! s"
  have pl: "placing (init_out_secs junk) secs1 (sum_list (map obj_weight ins0)) (all_places ins)"
    using p placing_same [OF all_places_vaddrs [OF l1]] by (simp add: ins)
  have "place ins f s \<in> set (all_places ins)" using assms(4,5) inside by (force simp: all_places_eq)
  then have st: "stands secs1 ?inp s ?m" using pl by (simp add: placing_def stand_def place_def split: prod.splits)
  have f: "f < length ins1" "s < shnum (ins1 ! f)" using assms(4,5) l1 by (simp_all add: ins set_vaddrs_obj)
  then have m: "?m = set_vaddr (layout_secs image_base secs1) (sec_map (ins1 ! f) ! s)" using l1 by (simp add: ins set_vaddrs_obj)
  have "sorted_wrt behind (all_places ins)" using pl by (simp add: placing_def)
  then show ?thesis using that [OF st _ pl b s4 inside] unfolding m by (simp add: set_vaddr_def split: if_splits)
qed

text \<open>The contents of an input section in its output section, after relocation, and its address.\<close>

lemma link_section:
  assumes "link_inputs junk image_base ins0 = Inr (ins, secs, gs)" "\<forall>inp \<in> set ins0. aligned_obj inp \<and> rels_inside inp"
    "link_fits image_base ins0" "f < length ins" "s < shnum (ins ! f)" "takes (ins ! f) s"
    "target_of (sec_name (ins ! f) (shdr_at (ins ! f) s)) = Some t" "t < 4"
    "sh_type (shdr_at (ins ! f) s) \<noteq> SHT_NOBITS" "i < unat (sh_size (shdr_at (ins ! f) s))"
  shows "os_data (secs ! t) (unat (out_offset (sec_map (ins ! f) ! s)) + i) = section_image (ins ! f) gs s i"
    "sec_end (ins ! f) s (sec_map (ins ! f) ! s) \<le> unat (os_size (secs ! t))"
    "in_vaddr (sec_map (ins ! f) ! s) = os_vaddr (secs ! t) + out_offset (sec_map (ins ! f) ! s)"
    "linked image_base ins0 secs"
proof -
  let ?inp = "ins ! f" let ?m = "sec_map ?inp ! s"
  obtain secs1 secs3 where st: "stands secs1 ?inp s ?m" and so: "sorted_wrt behind (all_places ins)"
    and p: "placing (init_out_secs junk) secs1 (sum_list (map obj_weight ins0)) (all_places ins)"
    and b: "only_bss (layout_secs image_base secs1) secs3" and s4: "secs = fold (patch_at ins gs) (all_rels ins) secs3"
    and inside: "\<forall>inp \<in> set ins. rels_inside inp \<and> shnum inp \<le> length (sec_map inp)"
    and va: "0 \<le> out_sec_idx ?m \<Longrightarrow> in_vaddr ?m = os_vaddr (layout_secs image_base secs1 ! nat (out_sec_idx ?m)) + out_offset ?m"
    using link_stands [OF assms(1-5)] by metis
  let ?s2 = "layout_secs image_base secs1"
  note l = link_layout [OF assms(3) p b s4]
  then show "linked image_base ins0 secs" by blast
  have idx: "out_sec_idx ?m = int t" using st assms(6,7) by (auto simp: stands_def)
  have "t < 5" using assms(8) by simp
  then obtain a where a: "?s2 ! t = (secs1 ! t) \<lparr> os_vaddr := a \<rparr>" using layout_nth(2) placed_room(1) [OF p] by metis
  have s3: "secs3 ! t = (secs1 ! t) \<lparr> os_vaddr := a \<rparr>" "length secs3 = 5" using l(2) [OF assms(8)] a by simp_all
  have st3: "stand secs3 (place ins f s)" using st assms(7) idx s3(1) by (auto simp: stands_def stand_def place_def split: if_splits)
  have ty: "os_type (secs3 ! t) \<noteq> SHT_NOBITS" using placed_room(2) [OF p] assms(8) by (simp add: s3(1) OUT_SEC_BSS_def elf_consts)
  show "os_data (secs ! t) (unat (out_offset ?m) + i) = section_image ?inp gs s i"
    using relocated_section [OF s3(2) so st3 inside assms(4,5) idx assms(9) ty assms(10), of gs] by (simp add: view_def s4)
  show "sec_end ?inp s ?m \<le> unat (os_size (secs ! t))" using st idx l(2) [OF assms(8)] by (auto simp: stands_def split: if_splits)
  show "in_vaddr ?m = os_vaddr (secs ! t) + out_offset ?m" using va idx l(2) [OF assms(8)] by simp
qed

end
