(* ===== verification/Ld_File.thy ===== *)
theory Ld_File
  imports Ld_Props
begin

text \<open>
  The file the linker writes holds every section at its place, and a loader that follows the program header
  finds the linked image; the symbol table of the linker has the definitions of the objects.
\<close>

section \<open>Writing\<close>

lemma write_at_in:
  assumes "k < length bs"
  shows "write_at off bs img ! (off + k) = bs ! k" "off + length bs \<le> length (write_at off bs img)"
proof -
  have "length (take off (img @ replicate (off - length img) 0)) = off" by simp
  then show "write_at off bs img ! (off + k) = bs ! k" using assms by (auto simp: write_at_def nth_append)
  show "off + length bs \<le> length (write_at off bs img)" using assms by (auto simp: write_at_def)
qed

lemma write_at_before:
  assumes "j < off" "j < length img"
  shows "write_at off bs img ! j = img ! j" "j < length (write_at off bs img)"
  using assms by (auto simp: write_at_def nth_append)

definition written :: "out_sec \<Rightarrow> bool" where
  "written sec \<longleftrightarrow> os_type sec \<noteq> SHT_NOBITS \<and> os_size sec > 0"

lemma write_sections_before:
  assumes "j < length img" "\<forall>x \<in> set xs. written x \<longrightarrow> j < unat (os_offset x)"
  shows "fold write_section xs img ! j = img ! j \<and> j < length (fold write_section xs img)"
  using assms
proof (induction xs arbitrary: img)
  case (Cons x xs)
  have "write_section x img ! j = img ! j \<and> j < length (write_section x img)"
    using Cons.prems write_at_before [of j "unat (os_offset x)" img] by (simp add: write_section_def written_def)
  then show ?case using Cons.IH [of "write_section x img"] Cons.prems(2) by simp
qed simp

lemma write_sections_nth:
  assumes "t < length xs" "os_type (xs ! t) \<noteq> SHT_NOBITS" "i < unat (os_size (xs ! t))"
    "\<forall>u. t < u \<and> u < length xs \<and> written (xs ! u) \<longrightarrow> unat (os_offset (xs ! t)) + unat (os_size (xs ! t)) \<le> unat (os_offset (xs ! u))"
  shows "fold write_section xs img ! (unat (os_offset (xs ! t)) + i) = os_data (xs ! t) i
    \<and> unat (os_offset (xs ! t)) + i < length (fold write_section xs img)"
proof -
  let ?x = "xs ! t" and ?f = "fold write_section (take t xs) img"
  let ?g = "write_section ?x ?f" and ?bs = "map (os_data ?x) [0..<unat (os_size ?x)]" and ?j = "unat (os_offset ?x) + i"
  have xs: "xs = take t xs @ ?x # drop (Suc t) xs" using assms(1) by (rule id_take_nth_drop)
  have "os_size ?x > 0" using assms(3) by (simp add: word_less_nat_alt)
  then have g: "?g = write_at (unat (os_offset ?x)) ?bs ?f" using assms(2) by (simp add: write_section_def)
  have w: "?g ! ?j = os_data ?x i" "?j < length ?g"
    using write_at_in [of i ?bs "unat (os_offset ?x)" ?f] assms(3) unfolding g by simp_all
  have "\<forall>y \<in> set (drop (Suc t) xs). written y \<longrightarrow> ?j < unat (os_offset y)"
  proof (intro ballI impI)
    fix y assume "y \<in> set (drop (Suc t) xs)" "written y"
    then obtain k where "k < length xs - Suc t" "y = xs ! (Suc t + k)" by (auto simp: in_set_conv_nth)
    then show "?j < unat (os_offset y)" using assms(3,4) \<open>written y\<close> by (auto dest: spec [of _ "Suc t + k"])
  qed
  from write_sections_before [OF w(2) this] show ?thesis using w(1) by (subst (1 3) xs) simp
qed


section \<open>The layout of the file\<close>

lemma pow2_4: "pow2 4"
  unfolding pow2_def by (rule exI [of _ 2]) simp

lemma align4:
  assumes "unat x + 4 \<le> 2 ^ 32"
  shows "unat x \<le> unat (ALIGN_UP x 4)" "unat (ALIGN_UP x 4) < unat x + 4"
  using append_offset [OF pow2_4, of x] assms by simp_all

lemma file_offsets_order:
  assumes "unat filesz + 4096 + 16 * n + k + m + 16 < 2 ^ 32"
  defines "fl \<equiv> file_offsets filesz n k m"
  shows "unat filesz + 4096 \<le> unat (fl_symtab fl)" "unat (fl_symtab fl) \<le> unat (fl_shstrtab fl)" "unat (fl_shstrtab fl) \<le> unat (fl_strtab fl)"
    "unat (fl_strtab fl) \<le> unat (fl_shdrs fl)"
proof -
  have b: "unat (0x1000 + filesz) = 4096 + unat filesz" using assms(1) by (simp add: unat_add_fits)
  have sy: "unat filesz + 4096 \<le> unat (fl_symtab fl)" "unat (fl_symtab fl) < unat filesz + 4100"
    using align4 [of "0x1000 + filesz"] b assms(1) by (simp_all add: fl_def file_offsets_def Let_def)
  have n: "unat (of_nat (n * 16) :: u32) = 16 * n" "unat (of_nat k :: u32) = k" "unat (of_nat m :: u32) = m"
    using assms(1) by (simp_all add: unat_of_nat_u32 del: of_nat_mult)
  have step: "unat x \<le> unat (x + ALIGN_UP y 4) \<and> unat (x + ALIGN_UP y 4) < unat x + unat y + 4" if "unat x + unat y + 4 < 2 ^ 32" for x y :: u32
    using align4 [of y] that unat_add_fits [of x "ALIGN_UP y 4"] by simp
  have sh: "fl_shstrtab fl = fl_symtab fl + ALIGN_UP (of_nat (n * 16)) 4" "fl_strtab fl = fl_shstrtab fl + ALIGN_UP (of_nat k) 4"
    "fl_shdrs fl = fl_strtab fl + ALIGN_UP (of_nat m) 4"
    by (simp_all add: fl_def file_offsets_def Let_def)
  have 1: "unat (fl_symtab fl) \<le> unat (fl_shstrtab fl)" "unat (fl_shstrtab fl) < unat filesz + 4104 + 16 * n"
    unfolding sh(1) using step [of "fl_symtab fl" "of_nat (n * 16)"] sy n(1) assms(1) by simp_all
  have 2: "unat (fl_shstrtab fl) \<le> unat (fl_strtab fl)" "unat (fl_strtab fl) < unat filesz + 4108 + 16 * n + k"
    unfolding sh(2) using step [of "fl_shstrtab fl" "of_nat k"] 1 n(2) assms(1) by simp_all
  have 3: "unat (fl_strtab fl) \<le> unat (fl_shdrs fl)"
    unfolding sh(3) using step [of "fl_strtab fl" "of_nat m"] 2 n(3) assms(1) by simp
  show "unat filesz + 4096 \<le> unat (fl_symtab fl)" "unat (fl_symtab fl) \<le> unat (fl_shstrtab fl)" "unat (fl_shstrtab fl) \<le> unat (fl_strtab fl)"
    "unat (fl_strtab fl) \<le> unat (fl_shdrs fl)" using sy 1 2 3 by simp_all
qed

lemma five: "length xs = 5 \<Longrightarrow> \<exists>a b c d e. xs = [a, b, c, d, e]"
  by (auto simp: numeral_eq_Suc length_Suc_conv)

lemma shstrtab_length:
  assumes "linked image_base ins secs"
  shows "length (shstrtab_bytes secs) \<le> 100"
proof -
  obtain a b c d e where s: "secs = [a, b, c, d, e]" using five [of secs] assms(1) unfolding linked_def by blast
  have "length (os_name (secs ! t)) \<le> 10" if "t < 5" for t using assms that by (simp add: linked_def)
  from this [of 0] this [of 1] this [of 2] this [of 3] this [of 4]
  show ?thesis by (simp add: s shstrtab_bytes_def shstrtab_names_def)
qed

lemma linked_filesz:
  assumes "linked image_base ins secs" "link_fits image_base ins"
  shows "unat (total_filesz image_base (map (set_offset image_base) secs)) = unat (os_vaddr (secs ! 3)) + unat (os_size (secs ! 3)) - unat image_base"
    "unat (total_filesz image_base (map (set_offset image_base) secs)) \<le> 2 ^ 31 + 16388"
proof -
  obtain a b c d e where s: "secs = [a, b, c, d, e]" using five [of secs] assms(1) unfolding linked_def by blast
  have ty: "os_type (secs ! t) = (if t = OUT_SEC_BSS then SHT_NOBITS else SHT_PROGBITS)" if "t < 5" for t using assms(1) that by (simp add: linked_def)
  have "unat image_base \<le> unat (os_vaddr (secs ! 3))
      \<and> unat (os_vaddr (secs ! 3)) + unat (os_size (secs ! 3)) \<le> unat image_base + sum_list (map obj_weight ins) + 16388"
    using assms(1) by (simp add: linked_def)
  then have d: "unat image_base \<le> unat (os_vaddr d)" "unat (os_vaddr d) + unat (os_size d) \<le> unat image_base + sum_list (map obj_weight ins) + 16388"
    by (simp_all add: s)
  have "total_filesz image_base (map (set_offset image_base) secs) = (os_vaddr d + os_size d) - image_base"
    using ty [of 3] ty [of 4] by (simp add: s total_filesz_def set_offset_def OUT_SEC_BSS_def elf_consts)
  moreover have "unat (os_vaddr d + os_size d) = unat (os_vaddr d) + unat (os_size d)"
    using d(2) assms(2) by (intro unat_add_fits) (simp add: link_fits_def)
  ultimately show f: "unat (total_filesz image_base (map (set_offset image_base) secs)) = unat (os_vaddr (secs ! 3)) + unat (os_size (secs ! 3)) - unat image_base"
    using d(1) by (simp add: s unat_sub_if_size)
  then show "unat (total_filesz image_base (map (set_offset image_base) secs)) \<le> 2 ^ 31 + 16388"
  proof -
    have "sum_list (map obj_weight ins) \<le> 2 ^ 31" using assms(2) by (simp add: link_fits_def)
    then show ?thesis using f d(2) by (simp add: s)
  qed
qed


lemma strtab_length: "length gs < length (strtab_bytes gs)"
proof -
  have "length gs \<le> length (concat (map (\<lambda>g. gs_name g @ [0]) gs))" by (induction gs) auto
  then show ?thesis by (simp add: strtab_bytes_def)
qed

lemma out_syms_length: "length (out_syms gs) = length gs + 1"
proof -
  have "length (out_symbols p gs) = length gs" for p by (induction gs arbitrary: p) auto
  then show ?thesis by (simp add: out_syms_def)
qed

text \<open>The part of a section that is in the file.\<close>

lemma executable_section:
  assumes "linked image_base ins secs" "link_fits image_base ins" "length (strtab_bytes gs) \<le> 65536" "t < 4" "i < unat (os_size (secs ! t))"
  shows "write_executable image_base entry secs gs ! (0x1000 + (unat (os_vaddr (secs ! t)) - unat image_base) + i) = os_data (secs ! t) i"
    "0x1000 + (unat (os_vaddr (secs ! t)) - unat image_base) + i < length (write_executable image_base entry secs gs)"
proof -
  let ?xs = "map (set_offset image_base) secs" let ?filesz = "total_filesz image_base ?xs"
  let ?fl = "file_offsets ?filesz (length (out_syms gs)) (length (shstrtab_bytes secs)) (length (strtab_bytes gs))"
  let ?j = "0x1000 + (unat (os_vaddr (secs ! t)) - unat image_base) + i"
  have len: "length secs = 5" using assms(1) by (simp add: linked_def)
  have v: "unat image_base \<le> unat (os_vaddr (secs ! u))"
      "unat (os_vaddr (secs ! u)) + unat (os_size (secs ! u)) \<le> unat image_base + sum_list (map obj_weight ins) + 16388" if "u < 4" for u
    using assms(1) that by (auto simp: linked_def)
  have off: "unat (os_offset (?xs ! u)) = 0x1000 + (unat (os_vaddr (secs ! u)) - unat image_base)" if "u < 4" for u
  proof -
    have "unat (os_vaddr (secs ! u) - image_base) = unat (os_vaddr (secs ! u)) - unat image_base" using v(1) [OF that] by (simp add: unat_sub_if_size)
    moreover have "sum_list (map obj_weight ins) \<le> 2 ^ 31" using assms(2) by (simp add: link_fits_def)
    then have "unat (os_vaddr (secs ! u)) - unat image_base + 4096 < 2 ^ 32" using v(2) [OF that] by simp
    ultimately show ?thesis using that len by (simp add: set_offset_def unat_add_fits)
  qed
  have xs: "os_type (?xs ! u) = os_type (secs ! u)" "os_size (?xs ! u) = os_size (secs ! u)" "os_data (?xs ! u) = os_data (secs ! u)" if "u < 5" for u
    using that len by (simp_all add: set_offset_def)
  have ty: "os_type (secs ! u) = (if u = OUT_SEC_BSS then SHT_NOBITS else SHT_PROGBITS)" if "u < 5" for u using assms(1) that by (simp add: linked_def)
  have sep: "unat (os_offset (?xs ! t)) + unat (os_size (?xs ! t)) \<le> unat (os_offset (?xs ! u))" if "t < u" "u < 5" "written (?xs ! u)" for u
  proof -
    have "u < 4" using that ty [of u] xs(1) [of u] by (cases "u = 4") (auto simp: written_def OUT_SEC_BSS_def)
    moreover from this have "unat (os_vaddr (secs ! t)) + unat (os_size (secs ! t)) \<le> unat (os_vaddr (secs ! u))"
      using assms(1) that(1) by (simp add: linked_def)
    ultimately show ?thesis using off [OF assms(4)] off [of u] xs(2) [of t] assms(4) v(1) [OF assms(4)] by simp
  qed
  have w: "fold write_section ?xs img ! ?j = os_data (secs ! t) i" "?j < length (fold write_section ?xs img)" for img
  proof -
    have t: "t < length ?xs" "os_type (?xs ! t) \<noteq> SHT_NOBITS" "i < unat (os_size (?xs ! t))"
      using assms(4,5) xs [of t] ty [of t] len by (simp_all add: OUT_SEC_BSS_def elf_consts del: nth_map)
    have "\<forall>u. t < u \<and> u < length ?xs \<and> written (?xs ! u) \<longrightarrow> unat (os_offset (?xs ! t)) + unat (os_size (?xs ! t)) \<le> unat (os_offset (?xs ! u))"
      using sep len by (metis length_map)
    from write_sections_nth [OF t this, of img]
    show "fold write_section ?xs img ! ?j = os_data (secs ! t) i" "?j < length (fold write_section ?xs img)"
      using xs(3) [of t] assms(4) unfolding off [OF assms(4)] by simp_all
  qed
  have "unat ?filesz + 4096 + 16 * length (out_syms gs) + length (shstrtab_bytes secs) + length (strtab_bytes gs) + 16 < 2 ^ 32"
    using linked_filesz(2) [OF assms(1,2)] shstrtab_length [OF assms(1)] assms(3) strtab_length [of gs] by (simp add: out_syms_length)
  note fo = file_offsets_order [OF this]
  have "unat (os_vaddr (secs ! t)) + unat (os_size (secs ! t)) \<le> unat (os_vaddr (secs ! 3)) + unat (os_size (secs ! 3))"
    using assms(1,4) by (cases "t = 3") (auto simp: linked_def intro: le_trans [of _ "unat (os_vaddr (secs ! 3))"])
  then have "?j < unat ?filesz + 4096" using linked_filesz(1) [OF assms(1,2)] assms(5) v(1) [OF assms(4)] by simp
  then have "?j < unat (fl_symtab ?fl)" "?j < unat (fl_shstrtab ?fl)" "?j < unat (fl_strtab ?fl)" "?j < unat (fl_shdrs ?fl)" using fo by simp_all
  then show "write_executable image_base entry secs gs ! ?j = os_data (secs ! t) i" "?j < length (write_executable image_base entry secs gs)"
    using w unfolding write_executable_def Let_def by (simp_all add: write_at_before del: fold_simps)
qed


section \<open>The executable\<close>

text \<open>The byte a loader that follows the program header puts at an address: the contents of the file from
  0x1000 on, mapped from the base of the image on.\<close>

definition loaded :: "u8 list \<Rightarrow> u32 \<Rightarrow> nat \<Rightarrow> u8" where
  "loaded img image_base a = img ! (0x1000 + (a - unat image_base))"

definition obj_ok :: "input_obj \<Rightarrow> bool" where
  "obj_ok inp \<longleftrightarrow> aligned_obj inp \<and> rels_inside inp"

text \<open>C5. When linking succeeds, on objects whose relocations are inside their sections and whose alignments are
  powers of two, and which leave room in the address space, the executable loads every section of every object
  that is to be loaded and whose name selects one of the output sections with contents: at the address the
  linker gave it stand the bytes of the section in the object, with its own relocations applied to them and
  nothing else changed. Neither other sections, nor their relocations, nor the tables of the file overwrite
  any of it.\<close>

theorem ld_loads_sections:
  assumes "link_inputs junk image_base ins0 = Inr (ins, secs, gs)" "finish_link True image_base (secs, gs) = Inr img"
    "\<forall>inp \<in> set ins0. obj_ok inp" "link_fits image_base ins0" "f < length ins" "s < shnum (ins ! f)"
    "takes (ins ! f) s" "target_of (sec_name (ins ! f) (shdr_at (ins ! f) s)) = Some t" "t \<noteq> OUT_SEC_BSS"
    "sh_type (shdr_at (ins ! f) s) \<noteq> SHT_NOBITS" "i < unat (sh_size (shdr_at (ins ! f) s))"
  shows "loaded img image_base (unat (in_vaddr (sec_map (ins ! f) ! s)) + i) = section_image (ins ! f) gs s i"
proof -
  have ok: "\<forall>inp \<in> set ins0. aligned_obj inp \<and> rels_inside inp" using assms(3) by (simp add: obj_ok_def)
  have t: "t < 4" using target_5 [OF assms(8)] assms(9) by (simp add: OUT_SEC_BSS_def)
  let ?m = "sec_map (ins ! f) ! s"
  note sec = link_section [OF assms(1) ok assms(4-8) t assms(10,11)]
  obtain gs' k where g: "length (strtab_bytes gs') \<le> 65536" "img = write_executable image_base (gs_vaddr (gs' ! k)) secs gs'"
    using assms(2) by (fastforce simp: finish_link_def ld_bind_Inr linorder_not_less split: if_splits)
  have b: "unat image_base \<le> unat (os_vaddr (secs ! t))"
    "unat (os_vaddr (secs ! t)) + unat (os_size (secs ! t)) \<le> unat image_base + sum_list (map obj_weight ins0) + 16388"
    using sec(4) t by (auto simp: linked_def)
  have in_sec: "unat (out_offset ?m) + i < unat (os_size (secs ! t))" using sec(2) assms(11) by (simp add: sec_end_def)
  have "unat (in_vaddr ?m) = unat (os_vaddr (secs ! t)) + unat (out_offset ?m)"
    unfolding sec(3) using in_sec b(2) assms(4) by (intro unat_add_fits) (simp add: link_fits_def)
  then have e: "0x1000 + (unat (in_vaddr ?m) + i - unat image_base)
      = 0x1000 + (unat (os_vaddr (secs ! t)) - unat image_base) + (unat (out_offset ?m) + i)" using b(1) by simp
  show ?thesis
    unfolding loaded_def g(2) e using executable_section(1) [OF sec(4) assms(4) g(1) t in_sec] sec(1) by simp
qed


text \<open>An object with one section of four bytes, which a relocation makes the address of \<open>_start\<close> plus 5.\<close>

definition demo_shdr :: "u32 \<Rightarrow> u32 \<Rightarrow> u32 \<Rightarrow> u32 \<Rightarrow> u32 \<Rightarrow> u32 \<Rightarrow> u32 \<Rightarrow> u8 list" where
  "demo_shdr name ty fl off sz link info = shdr_bytes \<lparr> sh_name = name, sh_type = ty, sh_flags = fl, sh_addr = 0, sh_offset = off, sh_size = sz,
     sh_link = link, sh_info = info, sh_addralign = 4, sh_entsize = 0 \<rparr>"

definition demo_elf :: "u8 list" where
  "demo_elf = ehdr_bytes \<lparr> e_ident = [0x7F, 0x45, 0x4C, 0x46] @ replicate 12 0, e_type = ET_REL, e_machine = EM_386, e_version = 1, e_entry = 0,
       e_phoff = 0, e_shoff = 112, e_flags = 0, e_ehsize = 52, e_phentsize = 0, e_phnum = 0, e_shentsize = 40, e_shnum = 5, e_shstrndx = 4 \<rparr>
     @ le32 5 @ le32 0 @ le32 0x101
     @ sym_bytes null_sym @ sym_bytes \<lparr> st_name = 7, st_value = 0, st_size = 4, st_info = 0x10, st_other = 0, st_shndx = 1 \<rparr>
     @ [0] @ bytes ''.text'' @ [0] @ bytes ''_start'' @ [0, 0, 0]
     @ shdr_bytes null_shdr @ demo_shdr 1 SHT_PROGBITS 6 52 4 0 0 @ demo_shdr 0 SHT_REL 0 56 8 3 1 @ demo_shdr 0 SHT_SYMTAB 0 64 32 4 0
     @ demo_shdr 0 SHT_STRTAB 0 96 14 0 0"

definition demo_obj :: input_obj where
  "demo_obj = \<lparr> in_path = bytes ''a.o'', in_data = demo_elf, in_ehdr = get_ehdr demo_elf, in_shstrtab = 96, in_symtab = Some 64, sym_count = 2,
     in_strtab = 96, sec_map = replicate MAX_SECTIONS_PER_FILE no_map \<rparr>"

text \<open>The bytes of the object, which evaluation reads instead of building them again.\<close>

lemma demo_elf_eq [code]: "demo_elf = [127, 69, 76, 70, 0, 0, 0, 0, 0, 0, 0, 0, 0, 0, 0, 0, 1, 0, 3, 0, 1, 0, 0, 0, 0, 0, 0, 0, 0, 0, 0, 0, 112, 0, 0,
    0, 0, 0, 0, 0, 52, 0, 0, 0, 0, 0, 40, 0, 5, 0, 4, 0, 5, 0, 0, 0, 0, 0, 0, 0, 1, 1, 0, 0, 0, 0, 0, 0, 0, 0, 0, 0, 0, 0, 0, 0, 0, 0, 0, 0, 7, 0, 0,
    0, 0, 0, 0, 0, 4, 0, 0, 0, 16, 0, 1, 0, 0, 46, 116, 101, 120, 116, 0, 95, 115, 116, 97, 114, 116, 0, 0, 0, 0, 0, 0, 0, 0, 0, 0, 0, 0, 0, 0, 0, 0,
    0, 0, 0, 0, 0, 0, 0, 0, 0, 0, 0, 0, 0, 0, 0, 0, 0, 0, 0, 0, 0, 0, 0, 0, 0, 0, 0, 1, 0, 0, 0, 1, 0, 0, 0, 6, 0, 0, 0, 0, 0, 0, 0, 52, 0, 0, 0, 4,
    0, 0, 0, 0, 0, 0, 0, 0, 0, 0, 0, 4, 0, 0, 0, 0, 0, 0, 0, 0, 0, 0, 0, 9, 0, 0, 0, 0, 0, 0, 0, 0, 0, 0, 0, 56, 0, 0, 0, 8, 0, 0, 0, 3, 0, 0, 0, 1,
    0, 0, 0, 4, 0, 0, 0, 0, 0, 0, 0, 0, 0, 0, 0, 2, 0, 0, 0, 0, 0, 0, 0, 0, 0, 0, 0, 64, 0, 0, 0, 32, 0, 0, 0, 4, 0, 0, 0, 0, 0, 0, 0, 4, 0, 0, 0, 0,
    0, 0, 0, 0, 0, 0, 0, 3, 0, 0, 0, 0, 0, 0, 0, 0, 0, 0, 0, 96, 0, 0, 0, 14, 0, 0, 0, 0, 0, 0, 0, 0, 0, 0, 0, 4, 0, 0, 0, 0, 0, 0, 0]"
  by code_simp

lemma demo_link:
  "case link_inputs (\<lambda>t i. 0) 0x100000 [demo_obj] of Inl e \<Rightarrow> False
   | Inr (ins, secs, gs) \<Rightarrow> length ins = 1 \<and> shnum (ins ! 0) = 5 \<and> takes (ins ! 0) 1 \<and> target_of (sec_name (ins ! 0) (shdr_at (ins ! 0) 1)) = Some 1
     \<and> sh_type (shdr_at (ins ! 0) 1) \<noteq> SHT_NOBITS \<and> sh_size (shdr_at (ins ! 0) 1) = 4 \<and> in_vaddr (sec_map (ins ! 0) ! 1) = 0x100000
     \<and> out_sec_idx (sec_map (ins ! 0) ! 1) = 1
     \<and> section_image (ins ! 0) gs 1 2 = 0x10 \<and> map gs_name gs = [bytes ''_start'', bytes ''_kernel_end''] \<and> gs_defined (gs ! 0)"
  by code_simp

lemma demo_shnum: "shnum demo_obj = 5" by code_simp

lemma demo_shdrs:
  "map (\<lambda>s. (sh_type (shdr_at demo_obj s), sh_flags (shdr_at demo_obj s), sh_size (shdr_at demo_obj s), sh_info (shdr_at demo_obj s), sec_align (shdr_at demo_obj s))) [0, 1, 2, 3, 4]
   = [(0, 0, 0, 0, 4), (SHT_PROGBITS, 6, 4, 0, 4), (SHT_REL, 0, 8, 1, 4), (SHT_SYMTAB, 0, 32, 0, 4), (SHT_STRTAB, 0, 14, 0, 4)]"
  by code_simp

lemma demo_rels: "sec_rels demo_obj (shdr_at demo_obj 2) = [\<lparr> r_offset = 0, r_info = 0x101 \<rparr>]" by code_simp

lemma all_five: "(\<forall>s < 5. P s) \<longleftrightarrow> P 0 \<and> P 1 \<and> P 2 \<and> P 3 \<and> P (4::nat)"
  by (auto simp: less_Suc_eq eval_nat_numeral)

lemma demo_ok: "obj_ok demo_obj" "link_fits 0x100000 [demo_obj]"
proof -
  note h = demo_shdrs [unfolded list.map list.inject prod.inject]
  have "pow2 4" by (auto simp: pow2_def intro: exI [of _ 2])
  moreover have "length (sec_map demo_obj) = MAX_SECTIONS_PER_FILE" by (simp add: demo_obj_def)
  ultimately have "aligned_obj demo_obj" unfolding aligned_obj_def demo_shnum all_five using h by simp
  moreover have "rels_inside demo_obj"
    unfolding rels_inside_def demo_shnum all_five
    using h demo_rels by (simp add: SHT_REL_def SHT_PROGBITS_def SHT_SYMTAB_def SHT_STRTAB_def)
  ultimately show "obj_ok demo_obj" by (simp add: obj_ok_def)
  have "\<forall>s < 5. weight demo_obj s \<le> 100" unfolding all_five using h by (simp add: weight_def)
  then have "obj_weight demo_obj \<le> 500"
    using sum_list_mono [of "[0..<5]" "weight demo_obj" "\<lambda>_. 100"] by (simp add: obj_weight_def demo_shnum sum_list_triv)
  then show "link_fits 0x100000 [demo_obj]" by (simp add: link_fits_def)
qed

theorem ld_loads_sections_witness:
  "\<exists>ins secs gs img. link_inputs (\<lambda>t i. 0) 0x100000 [demo_obj] = Inr (ins, secs, gs) \<and> finish_link True 0x100000 (secs, gs) = Inr img
     \<and> loaded img 0x100000 0x100002 = 0x10"
proof -
  obtain ins secs gs where l: "link_inputs (\<lambda>t i. 0) 0x100000 [demo_obj] = Inr (ins, secs, gs)"
    using demo_link by (auto split: sum.splits)
  note d = demo_link [unfolded l sum.case prod.case]
  obtain a b where gs: "gs = [a, b]" "gs_name a = bytes ''_start''" "gs_name b = bytes ''_kernel_end''" using d by auto
  have "\<exists>img. finish_link True 0x100000 (secs, gs) = Inr img"
    using d gs by (simp add: finish_link_def find_or_add_global_sym_def ld_bind_Inr strtab_bytes_def)
  then obtain img where "finish_link True 0x100000 (secs, gs) = Inr img" by blast
  with ld_loads_sections [OF l this, of 0 1 1 2] d demo_ok l show ?thesis
    by (auto simp: OUT_SEC_BSS_def)
qed

end
