(* ===== verification/Ld_Symbols.thy ===== *)
theory Ld_Symbols
  imports Ld_File
begin

text \<open>
  Symbol resolution of \<open>src/tools/ld.c\<close>. The table of global symbols is filled by one pass over the symbols of all
  objects, in which a definition may replace what an earlier one left, and looked up by name while the
  references are checked and the relocations applied. Here its contents are given by a reference definition on
  the list of all definitions of a name: the last strong one, or else the first weak one.
\<close>

section \<open>The entry of a name\<close>

definition entry :: "u8 list \<Rightarrow> global_sym list \<Rightarrow> u32 option" where
  "entry name gs = (case global_idx name gs of None \<Rightarrow> None | Some i \<Rightarrow> if gs_defined (gs ! i) then Some (gs_vaddr (gs ! i)) else None)"

lemma entry_more:
  assumes "more_syms gs gs'"
  shows "entry name gs' = entry name gs"
proof -
  obtain xs where xs: "gs' = gs @ xs" "\<forall>x \<in> set xs. \<not> gs_defined x" using assms by (auto simp: more_syms_def)
  show ?thesis
  proof (cases "global_idx name gs")
    case None
    then show ?thesis using xs global_idx_bound [of name xs] by (auto simp: entry_def global_idx_append split: option.split)
  next
    case (Some i)
    then show ?thesis using xs global_idx_bound [OF Some] by (simp add: entry_def global_idx_append nth_append)
  qed
qed

lemma global_idx_names: "map gs_name gs = map gs_name gs' \<Longrightarrow> global_idx name gs = global_idx name gs'"
proof (induction gs arbitrary: gs')
  case (Cons g gs)
  then show ?case by (cases gs') auto
qed simp

text \<open>Names are cut off after 127 bytes when they enter the table, so shorter ones are found again.\<close>

lemma find_or_add_idx:
  assumes "find_or_add_global_sym name' gs = Inr (i, gs')" "length name < 127"
  shows "i < length gs'" "global_idx name gs' = Some i \<longleftrightarrow> name' = name"
proof -
  consider "global_idx name' gs = Some i" "gs' = gs"
    | "global_idx name' gs = None" "i = length gs" "\<exists>g. gs' = gs @ [g] \<and> gs_name g = take 127 name'"
    using assms(1) by (fastforce simp: find_or_add_global_sym_def split: option.splits if_splits)
  then show "i < length gs'" "global_idx name gs' = Some i \<longleftrightarrow> name' = name"
  proof (atomize (full), cases)
    case 1
    then show "i < length gs' \<and> (global_idx name gs' = Some i \<longleftrightarrow> name' = name)" using global_idx_bound by metis
  next
    case 2
    have "take 127 name' = name \<longleftrightarrow> name' = name" using assms(2) by (cases "length name' \<le> 127") auto
    moreover have "global_idx name gs \<noteq> Some (length gs)" using global_idx_bound [of name gs] by fastforce
    ultimately show "i < length gs' \<and> (global_idx name gs' = Some i \<longleftrightarrow> name' = name)"
      using 2 by (cases "global_idx name gs") (auto simp: global_idx_append)
  qed
qed

lemma entry_set_global:
  assumes "find_or_add_global_sym name' gs = Inr (i, gs')" "length name < 127"
  shows "entry name (set_global i v sz info gs') = (if name' = name then Some v else entry name gs)"
proof -
  note f = find_or_add_idx [OF assms]
  have "map gs_name (set_global i v sz info gs') = map gs_name gs'"
    using f(1) by (intro nth_equalityI) (simp_all add: set_global_def nth_list_update)
  then have n: "global_idx name (set_global i v sz info gs') = global_idx name gs'" by (rule global_idx_names)
  show ?thesis
  proof (cases "name' = name")
    case True
    then show ?thesis using f n by (simp add: entry_def set_global_def)
  next
    case False
    then have "entry name (set_global i v sz info gs') = entry name gs'"
      using f n by (auto simp: entry_def set_global_def nth_list_update split: option.split)
    then show ?thesis using False entry_more [OF find_or_add_more [OF assms(1)]] by simp
  qed
qed

lemma entry_defined:
  assumes "find_or_add_global_sym name gs = Inr (i, gs')" "length name < 127"
  shows "gs_defined (gs' ! i) \<longleftrightarrow> entry name gs \<noteq> None"
  unfolding entry_more [OF find_or_add_more [OF assms(1)], symmetric] using find_or_add_idx [OF assms] by (simp add: entry_def)

section \<open>The definitions of a name\<close>

text \<open>All definitions of a name in the order of the objects and of their symbol tables.\<close>

definition defines_sym :: "u8 list \<Rightarrow> input_obj \<Rightarrow> Elf32_Sym \<Rightarrow> bool" where
  "defines_sym name inp sy \<longleftrightarrow> sym_name inp sy = name \<and> ELF32_ST_BIND (st_info sy) \<in> {STB_GLOBAL, STB_WEAK} \<and> st_shndx sy \<noteq> SHN_UNDEF"

definition all_syms :: "input_obj list \<Rightarrow> (input_obj \<times> Elf32_Sym) list" where
  "all_syms ins = concat (map (\<lambda>inp. map (Pair inp) (obj_syms inp)) ins)"

definition definitions_of :: "u8 list \<Rightarrow> input_obj list \<Rightarrow> (input_obj \<times> Elf32_Sym) list" where
  "definitions_of name ins = filter (\<lambda>(inp, sy). defines_sym name inp sy) (all_syms ins)"

definition strong :: "input_obj \<times> Elf32_Sym \<Rightarrow> bool" where
  "strong = (\<lambda>(inp, sy). ELF32_ST_BIND (st_info sy) = STB_GLOBAL)"

definition def_addr :: "input_obj \<times> Elf32_Sym \<Rightarrow> u32" where
  "def_addr = (\<lambda>(inp, sy). case sym_vaddr inp sy of Inr v \<Rightarrow> v | Inl e \<Rightarrow> 0)"

definition resolution :: "(input_obj \<times> Elf32_Sym) list \<Rightarrow> u32 option" where
  "resolution ds =
    (if filter strong ds \<noteq> [] then Some (def_addr (last (filter strong ds)))
     else if ds \<noteq> [] then Some (def_addr (hd ds)) else None)"

lemma resolution_snoc:
  "resolution (ds @ [d]) = (if strong d \<or> resolution ds = None then Some (def_addr d) else resolution ds)"
  by (auto simp: resolution_def)

lemma collect_symbol_entry:
  assumes "collect_symbol inp sy (secs, gs) = Inr (secs', gs')" "length name < 127" "st_shndx sy = SHN_COMMON \<longrightarrow> sym_name inp sy \<noteq> name"
  shows "entry name gs' = (if defines_sym name inp sy \<and> (strong (inp, sy) \<or> entry name gs = None) then Some (def_addr (inp, sy)) else entry name gs)"
proof (cases "st_shndx sy = SHN_COMMON")
  case True
  then show ?thesis
    using assms by (auto simp: collect_symbol_def Let_def ld_bind_Inr entry_set_global defines_sym_def split: prod.splits)
next
  case False
  show ?thesis
  proof (cases "(ELF32_ST_BIND (st_info sy) = STB_GLOBAL \<or> ELF32_ST_BIND (st_info sy) = STB_WEAK) \<and> st_shndx sy \<noteq> SHN_UNDEF")
    case True
    then obtain i gs1 v where f: "find_or_add_global_sym (sym_name inp sy) gs = Inr (i, gs1)" "sym_vaddr inp sy = Inr v"
      "gs' = (if \<not> gs_defined (gs1 ! i) \<or> ELF32_ST_BIND (st_info sy) = STB_GLOBAL then set_global i v (st_size sy) (st_info sy) gs1 else gs1)"
      using assms(1) False by (auto simp: collect_symbol_def Let_def ld_bind_Inr)
    have "defines_sym name inp sy \<longleftrightarrow> sym_name inp sy = name" using True by (simp add: defines_sym_def)
    moreover have "gs_defined (gs1 ! i) \<longleftrightarrow> entry name gs \<noteq> None" if "sym_name inp sy = name" using entry_defined f(1) assms(2) that by simp
    ultimately show ?thesis
      unfolding f(3) using f(2) entry_set_global [OF f(1) assms(2)] entry_more [OF find_or_add_more [OF f(1)]]
      by (auto simp: strong_def def_addr_def)
  next
    case other: False
    then have "gs' = gs" using assms(1) False by (auto simp: collect_symbol_def Let_def split: if_splits)
    moreover have "\<not> defines_sym name inp sy" using other by (auto simp: defines_sym_def)
    ultimately show ?thesis by simp
  qed
qed

lemma collect_symbols_entry:
  assumes "ld_fold (\<lambda>(inp, sy). collect_symbol inp sy) xs (secs, []) = Inr (secs', gs')" "length name < 127"
    "\<forall>(inp, sy) \<in> set xs. st_shndx sy = SHN_COMMON \<longrightarrow> sym_name inp sy \<noteq> name"
  shows "entry name gs' = resolution (filter (\<lambda>(inp, sy). defines_sym name inp sy) xs)"
  using assms
proof (induction xs arbitrary: secs' gs' rule: rev_induct)
  case Nil
  then show ?case by (simp add: entry_def resolution_def)
next
  case (snoc x xs)
  obtain inp sy where x: "x = (inp, sy)" by (cases x)
  obtain secs1 gs1 where s: "ld_fold (\<lambda>(inp, sy). collect_symbol inp sy) xs (secs, []) = Inr (secs1, gs1)"
    "collect_symbol inp sy (secs1, gs1) = Inr (secs', gs')"
    using snoc.prems(1) by (auto simp: ld_fold_append ld_bind_Inr x)
  have "entry name gs1 = resolution (filter (\<lambda>(inp, sy). defines_sym name inp sy) xs)" using snoc.IH [OF s(1)] snoc.prems by simp
  then show ?case using collect_symbol_entry [OF s(2) assms(2)] snoc.prems(3) by (simp add: x resolution_snoc)
qed

section \<open>References\<close>

lemma check_symbols_refs:
  assumes "ld_fold (\<lambda>(inp, sy). check_symbol inp sy) xs gs = Inr gs'" "(inp, sy) \<in> set xs"
    "st_shndx sy = SHN_UNDEF" "ELF32_ST_BIND (st_info sy) = STB_GLOBAL" "length (sym_name inp sy) < 127"
  shows "entry (sym_name inp sy) gs \<noteq> None"
  using assms(1,2)
proof (induction xs arbitrary: gs)
  case (Cons x xs)
  obtain inp' sy' where x: "x = (inp', sy')" by (cases x)
  obtain gs1 where c: "check_symbol inp' sy' gs = Inr gs1" "ld_fold (\<lambda>(inp, sy). check_symbol inp sy) xs gs1 = Inr gs'"
    using Cons.prems(1) by (auto simp: x ld_bind_Inr)
  have more: "more_syms gs gs1"
    using c(1) find_or_add_more by (auto simp: check_symbol_def ld_bind_Inr more_syms_refl split: if_splits prod.splits)
  show ?case
  proof (cases "(inp, sy) = x")
    case True
    then show ?thesis
      using c(1) assms(3-5) entry_defined by (fastforce simp: x check_symbol_def ld_bind_Inr split: if_splits prod.splits)
  next
    case False
    then show ?thesis using Cons.IH [OF c(2)] Cons.prems(2) entry_more [OF more] by auto
  qed
qed simp

text \<open>The passes over the symbols in one link.\<close>

lemma link_passes:
  assumes "link_inputs junk image_base ins0 = Inr (ins, secs, gs)"
  obtains secs0 secs1 gs1 gs2 gs3 where "ld_fold (\<lambda>(inp, sy). collect_symbol inp sy) (all_syms ins) (secs0, []) = Inr (secs1, gs1)"
    "define_kernel_end (secs1, gs1) = Inr (secs1, gs2)" "ld_fold (\<lambda>(inp, sy). check_symbol inp sy) (all_syms ins) gs2 = Inr gs3"
    "more_syms gs2 gs"
proof -
  obtain secs0 secs1 gs1 gs2 gs3 where c: "collect_symbols ins (secs0, []) = Inr (secs1, gs1)"
    "define_kernel_end (secs1, gs1) = Inr (secs1, gs2)" "check_symbols ins gs2 = Inr gs3" "relocate_all ins (secs1, gs3) = Inr (secs, gs)"
    using assms by (fastforce simp: link_inputs_def ld_bind_Inr Let_def define_kernel_end_def)
  have "more_syms gs2 gs" using check_symbols_more [OF c(3)] relocate_all_patched(2) [OF c(4)] more_syms_trans by blast
  then show thesis
    using that c(2) c(1) [unfolded collect_symbols_def ld_fold_concat] c(3) [unfolded check_symbols_def ld_fold_concat]
    by (simp add: all_syms_def)
qed

lemma kernel_end_entry:
  assumes "define_kernel_end (secs, gs) = Inr (secs', gs')" "length name < 127" "name \<noteq> bytes ''_kernel_end''"
  shows "entry name gs' = entry name gs"
  using assms entry_set_global by (fastforce simp: define_kernel_end_def ld_bind_Inr)

text \<open>An entry that is not defined has address 0.\<close>

definition clean :: "global_sym list \<Rightarrow> bool" where
  "clean gs \<longleftrightarrow> (\<forall>g \<in> set gs. \<not> gs_defined g \<longrightarrow> gs_vaddr g = 0)"

lemma clean_more: "more_syms gs gs' \<Longrightarrow> clean gs \<Longrightarrow> clean gs'"
  by (auto simp: more_syms_def clean_def)

lemma clean_set_global:
  assumes "find_or_add_global_sym name gs = Inr (i, gs')" "clean gs"
  shows "clean (set_global i v sz info gs')"
  using clean_more [OF find_or_add_more [OF assms(1)] assms(2)]
  by (auto simp: clean_def set_global_def dest!: subsetD [OF set_update_subset_insert])

lemma clean_collect:
  assumes "collect_symbol inp sy (secs, gs) = Inr (secs', gs')" "clean gs"
  shows "clean gs'"
  using assms clean_set_global clean_more [OF find_or_add_more]
  by (fastforce simp: collect_symbol_def Let_def ld_bind_Inr split: if_splits)

lemma sym_addr_entry: "clean gs \<Longrightarrow> sym_addr name gs = (case entry name gs of Some v \<Rightarrow> v | None \<Rightarrow> 0)"
  using global_idx_bound [of name gs] by (auto simp: sym_addr_def entry_def clean_def split: option.split)

lemma link_entries:
  assumes "link_inputs junk image_base ins0 = Inr (ins, secs, gs)" "length name < 127" "name \<noteq> bytes ''_kernel_end''"
    "\<forall>(inp, sy) \<in> set (all_syms ins). st_shndx sy = SHN_COMMON \<longrightarrow> sym_name inp sy \<noteq> name"
  shows "clean gs" "entry name gs = resolution (definitions_of name ins)"
    "\<forall>(inp, sy) \<in> set (all_syms ins). st_shndx sy = SHN_UNDEF \<and> ELF32_ST_BIND (st_info sy) = STB_GLOBAL \<and> sym_name inp sy = name
      \<longrightarrow> definitions_of name ins \<noteq> []"
proof -
  obtain secs0 secs1 gs1 gs2 gs3 where p: "ld_fold (\<lambda>(inp, sy). collect_symbol inp sy) (all_syms ins) (secs0, []) = Inr (secs1, gs1)"
    "define_kernel_end (secs1, gs1) = Inr (secs1, gs2)" "ld_fold (\<lambda>(inp, sy). check_symbol inp sy) (all_syms ins) gs2 = Inr gs3"
    "more_syms gs2 gs" using assms(1) by (rule link_passes)
  have "clean (snd (secs1, gs1))"
    by (rule ld_fold_invariant [OF p(1)]) (auto simp: clean_collect clean_def [of "[]"])
  then have "clean gs2" using p(2) clean_set_global by (fastforce simp: define_kernel_end_def ld_bind_Inr)
  then show "clean gs" using clean_more [OF p(4)] by simp
  have e: "entry name gs2 = resolution (definitions_of name ins)"
    using collect_symbols_entry [OF p(1) assms(2,4)] kernel_end_entry [OF p(2) assms(2,3)] by (simp add: definitions_of_def)
  then show "entry name gs = resolution (definitions_of name ins)" using entry_more [OF p(4)] by simp
  show "\<forall>(inp, sy) \<in> set (all_syms ins). st_shndx sy = SHN_UNDEF \<and> ELF32_ST_BIND (st_info sy) = STB_GLOBAL \<and> sym_name inp sy = name
      \<longrightarrow> definitions_of name ins \<noteq> []"
  proof (clarify)
    fix inp sy assume "(inp, sy) \<in> set (all_syms ins)" "st_shndx sy = SHN_UNDEF" "ELF32_ST_BIND (st_info sy) = STB_GLOBAL" "name = sym_name inp sy"
      "definitions_of (sym_name inp sy) ins = []"
    then show False using check_symbols_refs [OF p(3)] assms(2) e by (fastforce simp: resolution_def)
  qed
qed

text \<open>C6. Symbol resolution. Take a name of fewer than 127 bytes that is not \<open>_kernel_end\<close> and that no object has as a
  common symbol. When linking succeeds, relocations see under it the address of the last strong definition
  of it in the order of the objects, wherever weak definitions stand among them; without a strong one, the
  address of the first weak one; and 0 when it is defined nowhere. In that case no object refers to it other
  than weakly: every undefined global symbol of every object has a definition.\<close>

theorem ld_resolves_symbols:
  assumes "link_inputs junk image_base ins0 = Inr (ins, secs, gs)" "length name < 127" "name \<noteq> bytes ''_kernel_end''"
    "\<forall>(inp, sy) \<in> set (all_syms ins). st_shndx sy = SHN_COMMON \<longrightarrow> sym_name inp sy \<noteq> name"
  shows "sym_addr name gs = (case resolution (definitions_of name ins) of Some v \<Rightarrow> v | None \<Rightarrow> 0)
    \<and> (\<forall>(inp, sy) \<in> set (all_syms ins). st_shndx sy = SHN_UNDEF \<and> ELF32_ST_BIND (st_info sy) = STB_GLOBAL \<and> sym_name inp sy = name
        \<longrightarrow> definitions_of name ins \<noteq> [])"
  using link_entries [OF assms] by (simp add: sym_addr_entry)

lemma demo_symbols:
  "obj_syms demo_obj = [null_sym, \<lparr> st_name = 7, st_value = 0, st_size = 4, st_info = 0x10, st_other = 0, st_shndx = 1 \<rparr>]"
  "map (sym_name demo_obj) (obj_syms demo_obj) = [[], bytes ''_start'']"
  by code_simp+

lemma with_map_syms [simp]:
  "obj_syms (inp \<lparr> sec_map := x \<rparr>) = obj_syms inp" "sym_name (inp \<lparr> sec_map := x \<rparr>) sy = sym_name inp sy"
  by (simp_all add: obj_syms_def sym_name_def sym_at_def [abs_def] split: option.split)

theorem ld_resolves_symbols_witness:
  "\<exists>ins secs gs. link_inputs (\<lambda>t i. 0) 0x100000 [demo_obj] = Inr (ins, secs, gs) \<and> sym_addr (bytes ''_start'') gs = 0x100000"
proof -
  obtain ins secs gs where l: "link_inputs (\<lambda>t i. 0) 0x100000 [demo_obj] = Inr (ins, secs, gs)"
    using demo_link by (auto split: sum.splits)
  note d = demo_link [unfolded l sum.case prod.case]
  have "list_all2 with_map [demo_obj] ins" 
    by (rule link_places [OF l _ demo_ok(2)]) (use demo_ok(1) in \<open>auto simp: obj_ok_def\<close>)
  then obtain x where x: "ins = [demo_obj \<lparr> sec_map := x \<rparr>]" "length x = 64"
    by (auto simp: list_all2_Cons1 with_map_def demo_obj_def MAX_SECTIONS_PER_FILE_def)
  show ?thesis
    using ld_resolves_symbols [OF l, of "bytes ''_start''"] d l x demo_symbols
    by (simp add: all_syms_def definitions_of_def defines_sym_def resolution_def strong_def def_addr_def sym_vaddr_def sec_map_at_def
       ELF32_ST_BIND_def STB_GLOBAL_def STB_WEAK_def SHN_UNDEF_def SHN_ABS_def SHN_COMMON_def MAX_SECTIONS_PER_FILE_def null_sym_def)
qed

end
