(* ===== verification/Spec2Isabelle.thy ===== *)
theory Spec2Isabelle
  imports Heap_Alloc Pmm_Alloc Msg_Queue Fat_Data Fat_Dir_Props Fat_Tree Mkfs_Mount Usb_Msc_Props
    Keyboard_Props Ps2_Props Xhci_Props Editor_Props Ld_Symbols
begin

text \<open>
  A model of GEMIOS, a preemptive real-time operating system for 32-bit x86 PCs written in C, and
  proofs that its parts do what they are for.

  \<^bold>\<open>The program.\<close> The kernel boots through multiboot, takes the memory map into its page allocator
  (\<open>src/kernel/mmu.c\<close>), opens a heap (\<open>src/kernel/heap.c\<close>), and starts a scheduler
  (\<open>src/rtos/sched.c\<close>) whose tasks synchronise through semaphores, mutexes, message queues and event
  flags (\<open>src/rtos/sync.c\<close>). Drivers bring keyboards, mice, hubs and mass storage; a disk appears as
  a block device (\<open>src/fs/blockdev.c\<close>) under the FAT file system (\<open>src/fs/fat.c\<close>), which a shell uses.
  The library beneath is \<open>src/lib/string.c\<close> and \<open>src/lib/printf.c\<close>.

  \<^bold>\<open>How it is modelled.\<close> Machine integers are words of their width, so additions wrap as in C; where
  a C \<open>int\<close> or \<open>size_t\<close> only counts below the bounds of its object it is a natural number. Memory that
  several parts share is a function from 32-bit addresses to bytes; buffers with one user, sectors and
  strings are byte lists. State is passed explicitly. Every early return is a branch; error codes are
  returned as in C or as \<open>None\<close>. Loops over data are structural recursions; loops that the C code
  bounds by a counter carry that bound; loops whose end depends on memory contents are partial
  functions into \<open>option\<close>, and the theorems prove that they return.

  \<^bold>\<open>The theories.\<close>
  \<^item> \<open>Prelude\<close>: the macros of \<open>types.h\<close>, 32-bit loads and stores, block copies, word arithmetic.
  \<^item> \<open>Memory\<close>: the functions of \<open>string.c\<close> and the \<open>memcpy\<close> of \<open>cpu.s\<close> on byte memory, and what they
    leave behind for every overlap of their arguments.
  \<^item> \<open>Heap\<close>, \<open>Heap_Blocks\<close>, \<open>Heap_Alloc\<close>: the heap with its headers at their byte offsets; the
    block list as an abstraction; first fit, splitting and merging as a refinement of operations on
    that list. The interface \<open>allocator\<close> and its extension \<open>writable_allocator\<close> are the client's view,
    interpreted on \<open>kmalloc\<close> and \<open>kfree\<close>.
  \<^item> \<open>Pmm\<close>, \<open>Pmm_Alloc\<close>: the bitmap of pages; the interface \<open>bit_array\<close> covers taking and giving pages;
    allocation of the lowest run, plain and aligned, freeing, and start-up from a memory map.
  \<^item> \<open>Rtos\<close>, \<open>Sched\<close>: task table, scheduler and time; the step relation of everything that changes
    the task table, its invariant, the choice of the scheduler, and the bounds within which a runnable
    task is chosen and a sleeping task wakes.
  \<^item> \<open>Sync\<close>, \<open>Wait_Queues\<close>, \<open>Msg_Queue\<close>: the primitives of \<open>sync.c\<close>; the interface \<open>fifo\<close> is
    interpreted on the wait queues threaded through the task table; message queues refine a list held
    in a ring buffer.
  \<^item> \<open>Printf\<close>: \<open>vsnprintf\<close>, compared with a rendering that has no buffer, and numbers that read back.
  \<^item> \<open>Blockdev\<close>: the device registry, and \<open>device_ok\<close>, what a working device promises.
  \<^item> \<open>Fat_Names\<close>, \<open>Fat_Name_Props\<close>: short names, long names, aliases and wildcards of the file system,
    and their round trips.
  \<^item> \<open>Fat_Volume\<close>, \<open>Fat_Store\<close>, \<open>Fat_Chains\<close>, \<open>Fat_Mount\<close>: mounting, the allocation table and
    clusters. The interface \<open>cluster_store\<close> states how entries and contents react to a write; it is
    interpreted on the driver's \<open>set_fat_entry\<close> and \<open>write_cluster\<close> for every FAT16 or FAT32 volume
    that fits its device, and the theorems about chains rest on it.
  \<^item> \<open>Fat_Dir\<close>, \<open>Fat_Dir_Props\<close>: directories and paths; an entry that was written is found.
  \<^item> \<open>Fat_Files\<close>, \<open>Fat_Data\<close>: file operations; data that was written is read back.
  \<^item> \<open>Fat_Tree\<close>: removing and copying directory trees.
  \<^item> \<open>Mkfs\<close>, \<open>Mkfs_Mount\<close>: the host tool \<open>tools/mkfs_fat.c\<close>, from its arguments to the sectors it
    writes, and that the driver mounts what it wrote as an empty volume.
  \<^item> \<open>Usb_Msc\<close>, \<open>Usb_Msc_Props\<close>: the mass-storage driver \<open>src/usb/usb_msc.c\<close>; reads and writes
    against a drive given as a state machine of the bulk-only transport; removal of drives.
  \<^item> \<open>Keyboard\<close>, \<open>Keyboard_Props\<close>: the buffer of keys and the decoders of PS/2 scan codes
    (\<open>src/kernel/ps2_kbd.c\<close>) and USB boot reports (\<open>src/usb/usb_hid.c\<close>). The interface
    \<open>bounded_queue\<close> is interpreted on the buffer; typed text arrives.
  \<^item> \<open>Ps2\<close>, \<open>Ps2_Props\<close>: the controller, mouse and keyboard set-up of \<open>src/kernel/ps2.c\<close>,
    \<open>ps2_mouse.c\<close> and \<open>ps2_kbd.c\<close> over ports with arbitrary answers; polling ends, the pointer stays on
    the screen.
  \<^item> \<open>Xhci\<close>, \<open>Xhci_Rings\<close>: the rings of the USB host controller (\<open>src/usb/xhci.c\<close>) and the
    controller's side of them by the xHCI specification; the interface \<open>channel\<close>, first in first out
    under any interleaving, is interpreted on transfer rings, the command ring and the event ring.
  \<^item> \<open>Usb_Hid\<close>, \<open>Xhci_Transfer\<close>, \<open>Xhci_Props\<close>: USB keyboards and mice (\<open>src/usb/usb_hid.c\<close>),
    commands and transfers with their waiting loops, recovery and polling; transfers end with their own
    answer, polling ends, reports are delivered and asked for again.
  \<^item> \<open>Editor\<close>, \<open>Utf8\<close>, \<open>Editor_Props\<close>: the text editor \<open>src/shell/editor.c\<close>: its buffer stays in
    bounds whatever is typed, its commands act on the text around the cursor, text typed is text saved, and
    saved text loads again; UTF-8 is decoded.
  \<^item> \<open>Ld\<close>, \<open>Ld_Props\<close>, \<open>Ld_File\<close>, \<open>Ld_Symbols\<close>: the linker \<open>tools/ld.c\<close> that builds the kernel, from its
    arguments to the bytes of the executable. Sections are placed without overlap, a relocation changes only
    the section it is for, and what the executable loads is each section as its object has it with its
    relocations applied; symbols resolve to the last strong or else the first weak definition.

  \<^bold>\<open>Bounds.\<close> The directory and chain walks of the file system stop after 65536 clusters and 1024 root
  sectors, as in C; the theorems say where this limits them. The write loop of a file is given one
  step per byte and one more, and is proved never to need them all. The recursions over directory
  trees, unbounded in C, carry a depth. The table of tasks has 16 slots, so that ageing brings a
  runnable task to the top within 48 decisions.

  \<^bold>\<open>Assumptions.\<close> A block device is a parameter; \<open>device_ok\<close> is assumed of it where a theorem speaks
  about what a volume holds, and is satisfied by a device in memory. Sectors have 512 bytes, the size
  of the driver's buffers. The heap's answer to the file system is a parameter \<open>km\<close>. The bus
  beneath the mass-storage driver is a parameter; \<open>bus_drive\<close> assumes that a drive following the
  transport is behind it, and is satisfied by that drive itself.

  \<^bold>\<open>Not modelled.\<close> Assembly entry code; the register programming of interrupt controllers, timers and
  the display; PCI and ACPI; the start of the USB host controller, enumeration, hubs and USB audio; the
  interactive shell and the drawing of the editor; the assembler and the other host tools.
\<close>

end
